(* ===== verification/GTP_Prelude.thy ===== *)
theory GTP_Prelude
  imports Main "HOL-Library.Word"
begin

text \<open>
  Shared ground of the development: the three-valued outcome of a Rust function (a value, a typed
  error, a panic), checked slice access, the integer operations of the standard library that the
  sources use, big-endian byte encoding, and an ordered association list that models
  \<^verbatim>\<open>BTreeMap\<close>/\<^verbatim>\<open>HashMap\<close>. Everything here is generic; no definition of this theory
  belongs to one component of the repository.

  Integers. Bit-level data (wire fields, header flags, replay bitmaps, serial numbers) is
  \<open>'a word\<close>. Counters, times and packet numbers inside the recovery and scheduling code are
  \<open>nat\<close> with the saturation or the wrap-around of the source written out. The wrapping operations
  model the release profile, in which an overflowing \<^verbatim>\<open>+\<close> wraps.
\<close>

section \<open>Collections of rules\<close>

named_theorems outcome_simps \<open>evaluation rules of the outcome type\<close>
named_theorems machine_arith \<open>definitions of the machine integer operations\<close>

section \<open>Machine types\<close>

type_synonym u8 = "8 word"
type_synonym u16 = "16 word"
type_synonym u32 = "32 word"
type_synonym u64 = "64 word"
type_synonym bytes = "8 word list"

section \<open>Outcomes\<close>

text \<open>
  \<^verbatim>\<open>Result<T, E>\<close> with the third possibility the type system of Rust does not show: an index
  or a slice range out of bounds panics. A model that reads slices through
  \<open>slice_index\<close>/\<open>slice_range\<close> therefore has \<open>Panic\<close> as a result until a theorem excludes it.
\<close>

datatype ('e, 'a) outcome = Ok 'a | Err 'e | Panic

fun obind :: "('e, 'a) outcome \<Rightarrow> ('a \<Rightarrow> ('e, 'b) outcome) \<Rightarrow> ('e, 'b) outcome" where
  "obind (Ok a) f = f a"
| "obind (Err e) f = Err e"
| "obind Panic f = Panic"

definition omap :: "('a \<Rightarrow> 'b) \<Rightarrow> ('e, 'a) outcome \<Rightarrow> ('e, 'b) outcome" where
  "omap g m = obind m (\<lambda>a. Ok (g a))"

definition is_panic :: "('e, 'a) outcome \<Rightarrow> bool" where
  "is_panic m \<longleftrightarrow> (case m of Panic \<Rightarrow> True | _ \<Rightarrow> False)"

lemma is_panic_simps [simp]:
  "is_panic (Ok a) = False" "is_panic (Err e) = False" "is_panic Panic = True"
  by (simp_all add: is_panic_def)

lemma not_is_panic: "\<not> is_panic m \<longleftrightarrow> m \<noteq> Panic"
  by (cases m) simp_all

lemma obind_eq_Ok_conv:
  "obind m f = Ok b \<longleftrightarrow> (\<exists>a. m = Ok a \<and> f a = Ok b)"
  by (cases m) simp_all

lemma obind_eq_Panic_conv:
  "obind m f = Panic \<longleftrightarrow> m = Panic \<or> (\<exists>a. m = Ok a \<and> f a = Panic)"
  by (cases m) simp_all

lemma obind_eq_Err_conv:
  "obind m f = Err e \<longleftrightarrow> m = Err e \<or> (\<exists>a. m = Ok a \<and> f a = Err e)"
  by (cases m) simp_all

lemma obind_assoc: "obind (obind m f) g = obind m (\<lambda>a. obind (f a) g)"
  by (cases m) simp_all

lemma obind_if: "obind (if b then m else m') f = (if b then obind m f else obind m' f)"
  by simp

lemma omap_simps [simp]:
  "omap g (Ok a) = Ok (g a)" "omap g (Err e) = Err e" "omap g Panic = Panic"
  by (simp_all add: omap_def)

lemmas outcome_convs = obind_eq_Ok_conv obind_eq_Panic_conv obind_eq_Err_conv

section \<open>Checked slices\<close>

definition slice_index :: "'a list \<Rightarrow> nat \<Rightarrow> ('e, 'a) outcome" where
  "slice_index xs i = (if i < length xs then Ok (xs ! i) else Panic)"

definition slice_range :: "'a list \<Rightarrow> nat \<Rightarrow> nat \<Rightarrow> ('e, 'a list) outcome" where
  "slice_range xs i j = (if i \<le> j \<and> j \<le> length xs then Ok (take (j - i) (drop i xs)) else Panic)"

text \<open>\<^verbatim>\<open>buf[i..i + src.len()].copy_from_slice(src)\<close>\<close>

definition slice_copy :: "'a list \<Rightarrow> nat \<Rightarrow> 'a list \<Rightarrow> ('e, 'a list) outcome" where
  "slice_copy buf i src =
     (if i + length src \<le> length buf then Ok (take i buf @ src @ drop (i + length src) buf) else Panic)"

lemma slice_index_ok [outcome_simps]: "i < length xs \<Longrightarrow> slice_index xs i = Ok (xs ! i)"
  by (simp add: slice_index_def)

lemma slice_range_ok [outcome_simps]:
  "i \<le> j \<Longrightarrow> j \<le> length xs \<Longrightarrow> slice_range xs i j = Ok (take (j - i) (drop i xs))"
  by (simp add: slice_range_def)

lemma slice_index_panic [simp]: "slice_index xs i = Panic \<longleftrightarrow> length xs \<le> i"
  by (auto simp: slice_index_def)

lemma slice_range_panic: "slice_range xs i j = Panic \<longleftrightarrow> \<not> (i \<le> j \<and> j \<le> length xs)"
  by (auto simp: slice_range_def)

lemma slice_index_not_Err [simp]: "slice_index xs i \<noteq> Err e"
  by (simp add: slice_index_def)

lemma slice_range_not_Err [simp]: "slice_range xs i j \<noteq> Err e"
  by (simp add: slice_range_def)

text \<open>
  A sequence of writes at consecutive offsets: the shape of every encoder of the wire crate
  (\<^verbatim>\<open>buf[offset..offset + k].copy_from_slice(..); offset += k;\<close> repeated).
\<close>

fun puts :: "'a list list \<Rightarrow> 'a list \<Rightarrow> nat \<Rightarrow> ('e, 'a list \<times> nat) outcome" where
  "puts [] buf off = Ok (buf, off)"
| "puts (src # srcs) buf off =
     obind (slice_copy buf off src) (\<lambda>buf'. puts srcs buf' (off + length src))"

lemma puts_concat:
  assumes "off + length (concat srcs) \<le> length buf"
  shows "(puts srcs buf off :: ('e, 'a list \<times> nat) outcome) =
     Ok (take off buf @ concat srcs @ drop (off + length (concat srcs)) buf, off + length (concat srcs))"
  using assms
proof (induction srcs arbitrary: buf off)
  case Nil
  then show ?case by simp
next
  case (Cons src srcs)
  let ?buf = "take off buf @ src @ drop (off + length src) buf"
  have fits: "off + length src \<le> length buf" and len: "length ?buf = length buf"
    using Cons.prems by simp_all
  have "(puts srcs ?buf (off + length src) :: ('e, 'a list \<times> nat) outcome) =
     Ok (take (off + length src) ?buf @ concat srcs @ drop (off + length src + length (concat srcs)) ?buf,
         off + length src + length (concat srcs))"
    using Cons.prems len by (intro Cons.IH) simp
  moreover have "take (off + length src) ?buf = take off buf @ src"
    using fits by simp
  moreover have "drop (off + length src + length (concat srcs)) ?buf =
      drop (off + length (concat (src # srcs))) buf"
    using fits by (simp add: add.commute add.left_commute)
  ultimately show ?case
    using fits by (simp add: slice_copy_def add.assoc)
qed

lemma puts_length: "puts srcs buf off = Ok (buf', off') \<Longrightarrow> length buf' = length buf"
  by (induction srcs arbitrary: buf off)
     (auto simp: obind_eq_Ok_conv slice_copy_def split: if_splits)

lemma puts_no_panic:
  "off + length (concat srcs) \<le> length buf \<Longrightarrow> puts srcs buf off \<noteq> Panic"
  by (simp add: puts_concat)

section \<open>Unsigned integers as naturals\<close>

definition u64_modulus :: nat where
  "u64_modulus = 2 ^ 64"

definition u64_max :: nat where
  "u64_max = 2 ^ 64 - 1"

definition u32_max :: nat where
  "u32_max = 2 ^ 32 - 1"

definition sat_add64 :: "nat \<Rightarrow> nat \<Rightarrow> nat" where
  "sat_add64 a b = min u64_max (a + b)"

text \<open>\<^verbatim>\<open>saturating_sub\<close> on an unsigned type is exactly the truncated subtraction of \<open>nat\<close>.\<close>

definition sat_sub :: "nat \<Rightarrow> nat \<Rightarrow> nat" where
  "sat_sub a b = a - b"

definition sat_mul64 :: "nat \<Rightarrow> nat \<Rightarrow> nat" where
  "sat_mul64 a b = min u64_max (a * b)"

definition wadd64 :: "nat \<Rightarrow> nat \<Rightarrow> nat" where
  "wadd64 a b = (a + b) mod u64_modulus"

definition wmul64 :: "nat \<Rightarrow> nat \<Rightarrow> nat" where
  "wmul64 a b = (a * b) mod u64_modulus"

definition sat_add32 :: "u32 \<Rightarrow> u32 \<Rightarrow> u32" where
  "sat_add32 a b = (if unat a + unat b < 2 ^ 32 then a + b else 0xFFFFFFFF)"

definition sat_add8 :: "u8 \<Rightarrow> u8 \<Rightarrow> u8" where
  "sat_add8 a b = (if unat a + unat b < 2 ^ 8 then a + b else 0xFF)"

lemma u64_max_modulus: "u64_modulus = Suc u64_max"
  by (simp add: u64_modulus_def u64_max_def)

lemma wadd64_exact [simp]: "a + b < u64_modulus \<Longrightarrow> wadd64 a b = a + b"
  by (simp add: wadd64_def)

lemma wmul64_exact [simp]: "a * b < u64_modulus \<Longrightarrow> wmul64 a b = a * b"
  by (simp add: wmul64_def)

lemma wadd64_bound [simp]: "wadd64 a b < u64_modulus"
  by (simp add: wadd64_def u64_modulus_def)

lemma sat_add64_bound [simp]: "sat_add64 a b \<le> u64_max"
  by (simp add: sat_add64_def)

lemma sat_add64_ge: "a \<le> u64_max \<Longrightarrow> a \<le> sat_add64 a b"
  by (simp add: sat_add64_def)

lemma sat_add64_exact: "a + b \<le> u64_max \<Longrightarrow> sat_add64 a b = a + b"
  by (simp add: sat_add64_def)

lemma unat_lt_exp: "unat (w :: 'a::len word) < 2 ^ LENGTH('a)"
  by (rule unsigned_less)

lemma unat_eqI: "unat a = unat b \<Longrightarrow> a = (b :: 'a::len word)"
  by (rule unsigned_word_eqI)

lemma unat_u64_le_max [simp]: "unat (w :: u64) \<le> u64_max"
  using unat_lt_exp [of w] by (simp add: u64_max_def)

lemma unat_u64_lt_modulus [simp]: "unat (w :: u64) < u64_modulus"
  using unat_lt_exp [of w] by (simp add: u64_modulus_def)

lemma unat_sat_add32: "unat (sat_add32 a b) = min (2 ^ 32 - 1) (unat a + unat b)"
  by (auto simp: sat_add32_def unat_word_ariths)

lemma unat_sat_add8: "unat (sat_add8 a b) = min (2 ^ 8 - 1) (unat a + unat b)"
  by (auto simp: sat_add8_def unat_word_ariths)

section \<open>Big-endian bytes\<close>

fun to_be :: "nat \<Rightarrow> nat \<Rightarrow> bytes" where
  "to_be 0 x = []"
| "to_be (Suc n) x = to_be n (x div 256) @ [of_nat (x mod 256)]"

definition be_nat :: "bytes \<Rightarrow> nat" where
  "be_nat bs = foldl (\<lambda>acc b. acc * 256 + unat b) 0 bs"

definition to_be_bytes :: "'a::len word \<Rightarrow> bytes" where
  "to_be_bytes w = to_be (LENGTH('a) div 8) (unat w)"

definition from_be_bytes :: "bytes \<Rightarrow> 'a::len word" where
  "from_be_bytes bs = of_nat (be_nat bs)"

lemma length_to_be [simp]: "length (to_be n x) = n"
  by (induction n arbitrary: x) simp_all

lemma be_nat_Nil [simp]: "be_nat [] = 0"
  by (simp add: be_nat_def)

lemma be_nat_snoc [simp]: "be_nat (bs @ [b]) = be_nat bs * 256 + unat b"
  by (simp add: be_nat_def)

lemma be_nat_to_be: "be_nat (to_be n x) = x mod 256 ^ n"
proof (induction n arbitrary: x)
  case 0
  then show ?case by simp
next
  case (Suc n)
  have "unat (of_nat (x mod 256) :: u8) = x mod 256"
    by (simp add: unat_of_nat)
  then have "be_nat (to_be (Suc n) x) = 256 * (x div 256 mod 256 ^ n) + x mod 256"
    by (simp add: Suc.IH)
  then show ?case
    by (simp add: mod_mult2_eq)
qed

lemma to_be_Cons: "to_be (Suc n) x = of_nat (x div 256 ^ n mod 256) # to_be n x"
  by (induction n arbitrary: x) (simp_all add: div_mult2_eq)

lemma be_nat_bound: "be_nat bs < 256 ^ length bs"
proof (induction bs rule: rev_induct)
  case Nil
  then show ?case by simp
next
  case (snoc b bs)
  have "unat b < 256" using unat_lt_exp [of b] by simp
  with snoc show ?case by simp
qed

lemma to_be_be_nat: "to_be (length bs) (be_nat bs) = bs"
proof (induction bs rule: rev_induct)
  case Nil
  then show ?case by simp
next
  case (snoc b bs)
  have "unat b < 256" using unat_lt_exp [of b] by simp
  then show ?case using snoc by simp
qed

lemma length_to_be_bytes [simp]: "length (to_be_bytes (w :: 'a::len word)) = LENGTH('a) div 8"
  by (simp add: to_be_bytes_def)

lemma exp_256: "8 dvd n \<Longrightarrow> (256 :: nat) ^ (n div 8) = 2 ^ n"
proof -
  assume "8 dvd n"
  have "(256 :: nat) ^ (n div 8) = (2 ^ 8) ^ (n div 8)"
    by simp
  also have "\<dots> = 2 ^ (8 * (n div 8))"
    by (rule power_mult [symmetric])
  also have "8 * (n div 8) = n"
    using \<open>8 dvd n\<close> by simp
  finally show ?thesis .
qed

lemma be_nat_to_be_bytes:
  "8 dvd LENGTH('a) \<Longrightarrow> be_nat (to_be_bytes (w :: 'a::len word)) = unat w"
  using unat_lt_exp [of w] by (simp add: to_be_bytes_def be_nat_to_be exp_256)

lemma from_to_be_bytes:
  "8 dvd LENGTH('a) \<Longrightarrow> from_be_bytes (to_be_bytes w) = (w :: 'a::len word)"
  by (simp add: from_be_bytes_def be_nat_to_be_bytes)

end
