(* ===== verification/GTP_Types.thy ===== *)
theory GTP_Types
  imports GTP_Prelude
begin

unbundle bit_operations_syntax

text \<open>
  The crate \<^verbatim>\<open>gtp-types\<close>: identifiers, serial-number comparison (RFC 1982), the saturating
  microsecond clock, delivery semantics and the error type. Newtypes over integers
  (\<^verbatim>\<open>ConnectionId\<close>, \<^verbatim>\<open>PacketNumber\<close>, \<^verbatim>\<open>MessageId\<close>, ...) are type synonyms of the
  word they wrap. \<^verbatim>\<open>MonotonicTime\<close> and \<^verbatim>\<open>Duration\<close> are naturals bounded by \<open>u64_max\<close>, with
  the saturating operators of \<^verbatim>\<open>time.rs\<close>. The locale \<open>serial_order\<close> is the freshness contract
  the state table and the ordered groups rely on.
\<close>

section \<open>Errors\<close>

datatype transport_error =
    InvalidPacket string
  | BufferTooShort
  | BufferOverflow
  | AuthenticationFailed
  | CryptoFailure
  | TruncatedFrame (needed: nat) (available: nat)
  | MalformedFrame string
  | ReplayDetected
  | ProtocolViolation string
  | ResourceLimitExceeded string
  | PayloadTooLarge (max_payload: nat)
  | PathValidationFailed
  | Timeout
  | HandshakeTimeout
  | HandshakeFailed string
  | ConnectionClosed u16
  | MessageExpired
  | Io string

type_synonym 'a result = "(transport_error, 'a) outcome"

section \<open>Identifiers\<close>

type_synonym connection_id = u64
type_synonym packet_number = u64
type_synonym message_id = u64
type_synonym fragment_id = u16
type_synonym transmission_id = u8
type_synonym state_sequence = u32
type_synonym generation_id = u32
type_synonym ordered_group_id = u16

definition PacketNumber_next :: "packet_number \<Rightarrow> packet_number" where
  "PacketNumber_next pn = pn + 1"

definition MessageId_next :: "message_id \<Rightarrow> message_id" where
  "MessageId_next m = m + 1"

definition TransmissionId_next :: "transmission_id \<Rightarrow> transmission_id" where
  "TransmissionId_next t = sat_add8 t 1"

text \<open>\<^verbatim>\<open>diff > 0 && diff < (1 << 31)\<close> on the wrapped difference.\<close>

definition StateSequence_is_newer_than :: "state_sequence \<Rightarrow> state_sequence \<Rightarrow> bool" where
  "StateSequence_is_newer_than self other =
     (let diff = self - other in 0 < diff \<and> diff < push_bit 31 1)"

definition StateSequence_next :: "state_sequence \<Rightarrow> state_sequence" where
  "StateSequence_next s = s + 1"

definition GenerationId_is_newer_than :: "generation_id \<Rightarrow> generation_id \<Rightarrow> bool" where
  "GenerationId_is_newer_than self other =
     (let diff = self - other in 0 < diff \<and> diff < push_bit 31 1)"

record state_key =
  sk_entity_id :: u32
  sk_state_type :: u16

definition StateKey_new :: "u32 \<Rightarrow> u16 \<Rightarrow> state_key" where
  "StateKey_new e t = \<lparr>sk_entity_id = e, sk_state_type = t\<rparr>"

definition StateKey_to_u48 :: "state_key \<Rightarrow> u64" where
  "StateKey_to_u48 k = push_bit 16 (ucast (sk_entity_id k)) OR ucast (sk_state_type k)"

definition StateKey_from_u48 :: "u64 \<Rightarrow> state_key" where
  "StateKey_from_u48 v =
     \<lparr>sk_entity_id = ucast (drop_bit 16 v), sk_state_type = ucast (v AND 0xFFFF)\<rparr>"

section \<open>Time\<close>

type_synonym monotonic_time = nat
type_synonym duration = nat

definition MonotonicTime_ZERO :: monotonic_time where
  "MonotonicTime_ZERO = 0"

definition as_millis :: "nat \<Rightarrow> nat" where
  "as_millis t = t div 1000"

definition duration_since :: "monotonic_time \<Rightarrow> monotonic_time \<Rightarrow> duration" where
  "duration_since self earlier = sat_sub self earlier"

definition saturating_sub_duration :: "monotonic_time \<Rightarrow> duration \<Rightarrow> monotonic_time" where
  "saturating_sub_duration self d = sat_sub self d"

definition time_add :: "monotonic_time \<Rightarrow> duration \<Rightarrow> monotonic_time" where
  "time_add t d = sat_add64 t d"

definition time_sub :: "monotonic_time \<Rightarrow> monotonic_time \<Rightarrow> duration" where
  "time_sub t t' = sat_sub t t'"

definition Duration_from_millis :: "nat \<Rightarrow> duration" where
  "Duration_from_millis ms = sat_mul64 ms 1000"

definition Duration_from_secs :: "nat \<Rightarrow> duration" where
  "Duration_from_secs s = sat_mul64 s 1000000"

definition duration_add :: "duration \<Rightarrow> duration \<Rightarrow> duration" where
  "duration_add a b = sat_add64 a b"

definition duration_sub :: "duration \<Rightarrow> duration \<Rightarrow> duration" where
  "duration_sub a b = sat_sub a b"

section \<open>Delivery semantics\<close>

datatype message_class =
    Unreliable
  | UnreliableSequenced (class_state_key: state_key) (class_sequence: state_sequence)
      (class_generation: generation_id)
  | ReliableUnordered
  | ReliableOrdered (class_group_id: ordered_group_id) (class_order_seq: u32)

datatype priority_tier = P0Control | P1Input | P2WorldState | P3ReliableGameplay | P4BulkCosmetic

definition PriorityTier_ALL :: "priority_tier list" where
  "PriorityTier_ALL = [P0Control, P1Input, P2WorldState, P3ReliableGameplay, P4BulkCosmetic]"

text \<open>\<^verbatim>\<open>priority as usize\<close>\<close>

fun tier_index :: "priority_tier \<Rightarrow> nat" where
  "tier_index P0Control = 0"
| "tier_index P1Input = 1"
| "tier_index P2WorldState = 2"
| "tier_index P3ReliableGameplay = 3"
| "tier_index P4BulkCosmetic = 4"

fun default_weight :: "priority_tier \<Rightarrow> nat" where
  "default_weight P0Control = 15"
| "default_weight P1Input = 35"
| "default_weight P2WorldState = 30"
| "default_weight P3ReliableGameplay = 15"
| "default_weight P4BulkCosmetic = 5"

record message_options =
  mo_priority :: priority_tier
  mo_deadline :: "monotonic_time option"
  mo_supersedable :: bool

definition MessageOptions_default :: message_options where
  "MessageOptions_default = \<lparr>mo_priority = P2WorldState, mo_deadline = None, mo_supersedable = True\<rparr>"

definition with_priority :: "message_options \<Rightarrow> priority_tier \<Rightarrow> message_options" where
  "with_priority m p = m\<lparr>mo_priority := p\<rparr>"

definition with_deadline :: "message_options \<Rightarrow> monotonic_time \<Rightarrow> message_options" where
  "with_deadline m d = m\<lparr>mo_deadline := Some d\<rparr>"

definition non_supersedable :: "message_options \<Rightarrow> message_options" where
  "non_supersedable m = m\<lparr>mo_supersedable := False\<rparr>"

lemma tier_index_bound [simp]: "tier_index p < 5"
  by (cases p) simp_all

lemma tier_index_ALL: "PriorityTier_ALL ! tier_index p = p"
  by (cases p) (simp_all add: PriorityTier_ALL_def)

lemma tier_index_inj: "tier_index p = tier_index q \<longleftrightarrow> p = q"
  by (metis tier_index_ALL)

section \<open>Serial numbers\<close>

text \<open>The freshness contract: what a client of a wrap-safe comparison may rely on.\<close>

locale serial_order =
  fixes newer :: "'a \<Rightarrow> 'a \<Rightarrow> bool"
    and advance :: "'a \<Rightarrow> nat \<Rightarrow> 'a"
    and horizon :: nat
  assumes newer_asym: "newer a b \<Longrightarrow> \<not> newer b a"
    and newer_advance: "0 < k \<Longrightarrow> k < horizon \<Longrightarrow> newer (advance a k) a"
    and advance_advance: "advance (advance a j) k = advance a (j + k)"
begin

lemma newer_irrefl: "\<not> newer a a"
  using newer_asym by blast

lemma newer_advance_iff:
  "j < horizon \<Longrightarrow> k < horizon \<Longrightarrow> newer (advance a j) (advance a k) \<longleftrightarrow> k < j"
proof -
  assume b: "j < horizon" "k < horizon"
  consider "k < j" | "j = k" | "j < k" by linarith
  then show ?thesis
  proof cases
    case 1
    then have "newer (advance (advance a k) (j - k)) (advance a k)"
      using b by (intro newer_advance) auto
    with 1 show ?thesis by (simp add: advance_advance)
  next
    case 2
    then show ?thesis by (simp add: newer_irrefl)
  next
    case 3
    then have "newer (advance (advance a j) (k - j)) (advance a j)"
      using b by (intro newer_advance) auto
    with 3 show ?thesis by (auto simp: advance_advance dest: newer_asym)
  qed
qed

end

lemma u32_serial_newer_iff:
  "(0 < (a - b :: u32) \<and> a - b < push_bit 31 1) \<longleftrightarrow> (0 < unat (a - b) \<and> unat (a - b) < 2 ^ 31)"
  by (simp add: word_less_nat_alt)

lemma u32_length: "LENGTH(32) = 32"
  by simp

lemma u32_serial_asym:
  assumes "0 < unat (a - b :: u32)" and "unat (a - b) < 2 ^ 31"
  shows "\<not> (0 < unat (b - a) \<and> unat (b - a) < 2 ^ 31)"
proof -
  have "(a - b) + (b - a) = 0" by simp
  then have "unat ((a - b) + (b - a)) = 0" by (simp only: unat_0)
  then have wrapped: "(unat (a - b) + unat (b - a)) mod 2 ^ 32 = 0"
    by (simp only: unat_word_ariths(1) u32_length)
  show ?thesis
  proof
    assume "0 < unat (b - a) \<and> unat (b - a) < 2 ^ 31"
    with assms have "unat (a - b) + unat (b - a) < 2 ^ 32" by simp
    with wrapped have "unat (a - b) + unat (b - a) = 0" by (simp only: mod_less)
    with assms(1) show False by simp
  qed
qed

lemma u32_serial_advance:
  "0 < k \<Longrightarrow> k < 2 ^ 31 \<Longrightarrow> 0 < unat ((a + of_nat k) - a :: u32) \<and> unat ((a + of_nat k) - a) < 2 ^ 31"
  by (simp add: unat_of_nat)

interpretation seq: serial_order StateSequence_is_newer_than "\<lambda>s k. s + of_nat k" "2 ^ 31"
proof (unfold_locales, goal_cases)
  case (1 a b)
  then show ?case
    unfolding StateSequence_is_newer_than_def Let_def u32_serial_newer_iff
    using u32_serial_asym by blast
next
  case (2 k a)
  then show ?case
    using u32_serial_advance [of k a]
    by (simp only: StateSequence_is_newer_than_def Let_def u32_serial_newer_iff)
qed (simp add: add.assoc)

interpretation gen: serial_order GenerationId_is_newer_than "\<lambda>s k. s + of_nat k" "2 ^ 31"
proof (unfold_locales, goal_cases)
  case (1 a b)
  then show ?case
    unfolding GenerationId_is_newer_than_def Let_def u32_serial_newer_iff
    using u32_serial_asym by blast
next
  case (2 k a)
  then show ?case
    using u32_serial_advance [of k a]
    by (simp only: GenerationId_is_newer_than_def Let_def u32_serial_newer_iff)
qed (simp add: add.assoc)

section \<open>State keys\<close>

lemma StateKey_from_to_u48: "StateKey_from_u48 (StateKey_to_u48 k) = k"
proof -
  have mask16: "(0xFFFF :: u64) = mask 16"
    by (simp add: mask_eq_exp_minus_1)
  have "ucast (drop_bit 16 (push_bit 16 (ucast e :: u64) OR ucast t)) = e" for e :: u32 and t :: u16
    by (rule bit_word_eqI) (auto simp: bit_simps dest: bit_imp_le_length)
  moreover have "ucast ((push_bit 16 (ucast e :: u64) OR ucast t) AND 0xFFFF) = t" for e :: u32 and t :: u16
    unfolding mask16 by (rule bit_word_eqI) (auto simp: bit_simps)
  ultimately show ?thesis
    by (simp add: StateKey_from_u48_def StateKey_to_u48_def)
qed

lemma StateKey_to_u48_inj: "StateKey_to_u48 k = StateKey_to_u48 k' \<longleftrightarrow> k = k'"
  by (metis StateKey_from_to_u48)

section \<open>Properties\<close>

text \<open>
  State sequence numbers are ordered across the 32-bit wrap. Within a span of \<open>2 ^ 31\<close> updates
  of one another, \<^verbatim>\<open>is_newer_than\<close> orders two sequence numbers exactly as the number of updates
  since the start does, whatever the start, and it is never true both ways round.
\<close>

theorem state_sequence_serial_order:
  "(j < 2 ^ 31 \<and> k < 2 ^ 31 \<longrightarrow>
     (StateSequence_is_newer_than (start + of_nat j) (start + of_nat k) \<longleftrightarrow> k < j)) \<and>
   \<not> (StateSequence_is_newer_than a b \<and> StateSequence_is_newer_than b a)"
  using seq.newer_advance_iff [of j k start] seq.newer_asym [of a b] by blast

theorem state_sequence_serial_order_witness:
  "StateSequence_is_newer_than (0xFFFFFFFF + of_nat 2) (0xFFFFFFFF + of_nat 0)"
  using state_sequence_serial_order [of 2 0 "0xFFFFFFFF"] by simp

end
