(* ===== verification/Codec_Contract.thy ===== *)
theory Codec_Contract
  imports GTP_Types
begin

text \<open>
  The contract between an encoder and a decoder of the wire crate: decoding the bytes of a
  well-formed value, followed by anything, gives the value back and consumes exactly its bytes.
  Everything a reader of a concatenated payload needs follows from it once, in the locale.
\<close>

locale prefix_codec =
  fixes wf :: "'a \<Rightarrow> bool"
    and enc :: "'a \<Rightarrow> bytes"
    and dec :: "bytes \<Rightarrow> ('a \<times> nat) result"
  assumes dec_enc: "wf x \<Longrightarrow> dec (enc x @ rest) = Ok (x, length (enc x))"
begin

lemma dec_enc_exact: "wf x \<Longrightarrow> dec (enc x) = Ok (x, length (enc x))"
  using dec_enc [of x "[]"] by simp

text \<open>No encoding is a proper prefix of another, so a concatenation splits in one way.\<close>

lemma enc_prefix_free:
  assumes "wf x" and "wf y" and "enc x @ r = enc y @ s"
  shows "x = y \<and> r = s"
proof -
  have "dec (enc x @ r) = Ok (x, length (enc x))" and "dec (enc y @ s) = Ok (y, length (enc y))"
    using assms(1,2) by (simp_all add: dec_enc)
  with assms(3) have "x = y" by simp
  with assms(3) show ?thesis by simp
qed

lemma enc_inj: "wf x \<Longrightarrow> wf y \<Longrightarrow> enc x = enc y \<Longrightarrow> x = y"
  using enc_prefix_free [of x y "[]" "[]"] by simp

lemma concat_enc_inj:
  assumes "\<And>x. wf x \<Longrightarrow> enc x \<noteq> []"
    and "\<forall>x \<in> set xs. wf x" and "\<forall>y \<in> set ys. wf y"
    and "concat (map enc xs) = concat (map enc ys)"
  shows "xs = ys"
  using assms(2-)
proof (induction xs arbitrary: ys)
  case Nil
  then show ?case
    using assms(1) by (cases ys) auto
next
  case (Cons x xs)
  have x: "wf x" "enc x \<noteq> []"
    using Cons.prems(1) assms(1) by auto
  with Cons.prems(3) obtain y ys' where ys: "ys = y # ys'"
    by (cases ys) auto
  have "x = y \<and> concat (map enc xs) = concat (map enc ys')"
  proof (rule enc_prefix_free)
    show "enc x @ concat (map enc xs) = enc y @ concat (map enc ys')"
      using Cons.prems(3) ys by simp
  qed (use x Cons.prems(2) ys in auto)
  moreover have "concat (map enc xs) = concat (map enc ys') \<Longrightarrow> xs = ys'"
    using Cons.prems(1,2) ys by (intro Cons.IH) auto
  ultimately show ?case using ys by simp
qed

end

end
