(* ===== verification/Wire_VarInt.thy ===== *)
theory Wire_VarInt
  imports Codec_Contract
begin

unbundle bit_operations_syntax

text \<open>
  \<^verbatim>\<open>gtp-wire/src/varint.rs\<close>: the RFC 9000 variable-length integer with a two-bit length prefix.
  The encoder writes into a caller buffer and returns the buffer with the number of bytes written;
  its errors are raised before anything is written. The round trip is proved once for the four
  length classes, with the tag bits read as an addition.
\<close>

definition VarInt_MAX :: u64 where
  "VarInt_MAX = push_bit 62 1 - 1"

definition VarInt_encode :: "u64 \<Rightarrow> bytes \<Rightarrow> (bytes \<times> nat) result" where
  "VarInt_encode val buf =
     (if val \<le> 63 then
        if length buf = 0 then Err BufferTooShort
        else omap (\<lambda>b. (b, 1)) (slice_copy buf 0 [ucast val])
      else if val \<le> 16383 then
        if length buf < 2 then Err BufferTooShort
        else let v = (ucast val :: u16) OR 0x4000
             in omap (\<lambda>b. (b, 2)) (slice_copy buf 0 (to_be_bytes v))
      else if val \<le> 1073741823 then
        if length buf < 4 then Err BufferTooShort
        else let v = (ucast val :: u32) OR 0x80000000
             in omap (\<lambda>b. (b, 4)) (slice_copy buf 0 (to_be_bytes v))
      else if val \<le> VarInt_MAX then
        if length buf < 8 then Err BufferTooShort
        else let v = val OR 0xC000000000000000
             in omap (\<lambda>b. (b, 8)) (slice_copy buf 0 (to_be_bytes v))
      else Err (InvalidPacket ''VarInt out of bounds''))"

definition VarInt_decode :: "bytes \<Rightarrow> (u64 \<times> nat) result" where
  "VarInt_decode buf =
     (if length buf = 0 then Err BufferTooShort
      else obind (slice_index buf 0) (\<lambda>b0.
        let prefix = drop_bit 6 b0 in
        if prefix = 0 then Ok (ucast b0, 1)
        else if prefix = 1 then
          if length buf < 2 then Err BufferTooShort
          else obind (slice_range buf 0 2) (\<lambda>bs.
            let v = (from_be_bytes bs :: u16) AND 0x3FFF in Ok (ucast v, 2))
        else if prefix = 2 then
          if length buf < 4 then Err BufferTooShort
          else obind (slice_range buf 0 4) (\<lambda>bs.
            let v = (from_be_bytes bs :: u32) AND 0x3FFFFFFF in Ok (ucast v, 4))
        else if prefix = 3 then
          if length buf < 8 then Err BufferTooShort
          else obind (slice_range buf 0 8) (\<lambda>bs.
            let v = (from_be_bytes bs :: u64) AND 0x3FFFFFFFFFFFFFFF in Ok (v, 8))
        else Panic))"

section \<open>The tag bits\<close>

lemma word_take_bit_small: "unat (w :: 'a::len word) < 2 ^ k \<Longrightarrow> take_bit k w = w"
  by (rule unat_eqI) (simp add: unsigned_take_bit_eq take_bit_nat_eq_self)

lemma or_push_bit_add:
  fixes w t :: "'a::len word"
  assumes "unat w < 2 ^ k"
  shows "w OR push_bit k t = w + push_bit k t"
proof -
  have "w AND push_bit k t = take_bit k w AND push_bit k t"
    by (simp only: word_take_bit_small [OF assms])
  also have "\<dots> = 0"
    by (rule bit_word_eqI) (auto simp: bit_simps)
  finally show ?thesis
    by (simp add: disjunctive_add_eq_or)
qed

text \<open>The tagged word of a length class: \<open>k\<close> value bits under a two-bit tag \<open>t\<close>.\<close>

lemma unat_tagged:
  fixes val :: u64
  assumes "unat val < 2 ^ k" and "LENGTH('a::len) = k + 2" and "t < 4"
  shows "unat ((ucast val :: 'a word) OR push_bit k (of_nat t)) = unat val + t * 2 ^ k"
proof -
  have small: "unat val + t * 2 ^ k < 2 ^ LENGTH('a)"
  proof -
    have "unat val + t * 2 ^ k < 2 ^ k + 3 * 2 ^ k"
      using assms(1,3) by (intro add_less_le_mono mult_le_mono1) auto
    then show ?thesis using assms(2) by (simp add: power_add)
  qed
  have val: "unat (ucast val :: 'a word) = unat val"
    using small by (simp add: unsigned_ucast_eq take_bit_nat_eq_self)
  have "t < 2 ^ LENGTH('a)" and "t * 2 ^ k < 2 ^ LENGTH('a)"
    using small by (auto intro: order.strict_trans1 [of t "t * 2 ^ k"])
  then have tag: "unat (push_bit k (of_nat t :: 'a word)) = t * 2 ^ k"
    by (simp only: unsigned_push_bit_eq unat_of_nat) (simp add: push_bit_eq_mult take_bit_nat_eq_self)
  show ?thesis
    using assms(1) small val tag by (simp add: or_push_bit_add unat_word_ariths)
qed

lemma drop_bit_6_of_nat:
  "x < 256 \<Longrightarrow> drop_bit 6 (of_nat x :: u8) = of_nat (x div 64)"
  by (rule unat_eqI, simp only: unsigned_drop_bit_eq unat_of_nat) (simp add: drop_bit_eq_div take_bit_nat_eq_self)

text \<open>What a decoder sees of a tagged word: its prefix is the tag, its low bits the value.\<close>

lemma tagged_prefix:
  fixes w :: "'a::len word"
  assumes "unat w = v + t * 2 ^ k" and "v < 2 ^ k" and "LENGTH('a) = 8 * Suc n" and "k = 8 * n + 6"
    and "t < 4"
  shows "\<exists>b bs. to_be_bytes w = b # bs \<and> drop_bit 6 b = of_nat t"
proof -
  have n: "LENGTH('a) div 8 = Suc n" using assms(3) by simp
  have pow: "(2::nat) ^ k = 256 ^ n * 64"
    using assms(4) by (simp add: power_add power_mult)
  have "unat w div 256 ^ n div 64 = t"
    using assms(1,2) by (simp add: pow div_mult2_eq [symmetric])
  moreover have "unat w div 256 ^ n < 256"
  proof -
    have "unat w < 256 ^ Suc n"
      using unat_lt_exp [of w] assms(3) by (simp add: power_add power_mult)
    then show ?thesis by (simp add: less_mult_imp_div_less mult.commute)
  qed
  ultimately have "drop_bit 6 (of_nat (unat w div 256 ^ n mod 256) :: u8) = of_nat t"
    by (simp add: drop_bit_6_of_nat)
  then show ?thesis
    by (simp only: to_be_bytes_def n to_be_Cons) blast
qed

lemma ucast_and_mask_tagged:
  fixes w :: "'a::len word" and val :: u64
  assumes "unat w = unat val + t * 2 ^ k" and "unat val < 2 ^ k"
  shows "(ucast (w AND mask k) :: u64) = val"
proof (rule unat_eqI)
  have "unat (w AND mask k) = unat val"
    using assms by (simp only: take_bit_eq_mask [symmetric] unsigned_take_bit_eq) (simp add: take_bit_eq_mod)
  then show "unat (ucast (w AND mask k) :: u64) = unat val"
    using unat_lt_exp [of val] by (simp add: unsigned_ucast_eq take_bit_nat_eq_self)
qed

lemma from_be_bytes_tagged:
  fixes w :: "'a::len word" and val :: u64
  assumes "unat w = unat val + t * 2 ^ k" and "unat val < 2 ^ k" and "8 dvd LENGTH('a)"
    and "LENGTH('b) = LENGTH('a)"
  shows "(ucast ((from_be_bytes (to_be_bytes w) :: 'b::len word) AND mask k) :: u64) = val"
proof (rule ucast_and_mask_tagged [where t = t])
  have "unat (from_be_bytes (to_be_bytes w) :: 'b word) = unat w"
    using unat_lt_exp [of w] assms(3,4)
    by (simp only: from_be_bytes_def be_nat_to_be_bytes unat_of_nat mod_less)
  then show "unat (from_be_bytes (to_be_bytes w) :: 'b word) = unat val + t * 2 ^ k"
    using assms(1) by simp
qed (rule assms(2))

section \<open>Round trip\<close>

text \<open>One length class: the bytes of a tagged word, whatever follows them, decode to its value.\<close>

lemma VarInt_decode_class1:
  "unat val < 64 \<Longrightarrow> VarInt_decode (ucast val # rest) = Ok (val, 1)"
proof -
  assume small: "unat val < 64"
  have b: "(ucast val :: u8) = of_nat (unat val)"
    by (rule unat_eqI) (simp add: unsigned_ucast_eq unat_of_nat take_bit_eq_mod)
  have "drop_bit 6 (of_nat (unat val) :: u8) = of_nat (unat val div 64)"
    using small by (intro drop_bit_6_of_nat) simp
  then have "drop_bit 6 (ucast val :: u8) = 0"
    using small by (simp only: b [symmetric]) simp
  moreover have "ucast (ucast val :: u8) = val"
    by (rule unat_eqI, simp only: unsigned_ucast_eq)
       (use small word_take_bit_small [of val 8] in simp)
  ultimately show ?thesis
    by (simp add: VarInt_decode_def slice_index_def)
qed

lemma VarInt_decode_tagged:
  fixes w :: "'a::len word" and val :: u64
  assumes w: "unat w = unat val + t * 2 ^ k" and v: "unat val < 2 ^ k"
    and len: "LENGTH('a) = 8 * Suc n" and k: "k = 8 * n + 6"
    and cls: "(t, n) \<in> {(1, 1), (2, 3), (3, 7)}"
  shows "VarInt_decode (to_be_bytes w @ rest) = Ok (val, Suc n)"
proof -
  have t4: "t < 4" using cls by auto
  obtain b bs where b: "to_be_bytes w = b # bs" "drop_bit 6 b = of_nat t"
    using tagged_prefix [OF w v len k t4] by blast
  have lenw: "length (to_be_bytes w) = Suc n" using len by simp
  then have tk: "take (Suc n) (to_be_bytes w @ rest) = to_be_bytes w" by simp
  have dvd: "8 dvd LENGTH('a)" unfolding len by simp
  from cls consider "t = 1" "n = 1" | "t = 2" "n = 3" | "t = 3" "n = 7" by auto
  then show ?thesis
  proof cases
    case 1
    have m: "(0x3FFF :: u16) = mask k" using 1 k by (simp add: mask_eq_exp_minus_1)
    show ?thesis
      using 1 b tk lenw len from_be_bytes_tagged [OF w v dvd, where 'b = 16]
      by (simp add: VarInt_decode_def slice_index_def slice_range_def m)
  next
    case 2
    have m: "(0x3FFFFFFF :: u32) = mask k" using 2 k by (simp add: mask_eq_exp_minus_1)
    show ?thesis
      using 2 b tk lenw len from_be_bytes_tagged [OF w v dvd, where 'b = 32]
      by (simp add: VarInt_decode_def slice_index_def slice_range_def m)
  next
    case 3
    have m: "(0x3FFFFFFFFFFFFFFF :: u64) = mask k" using 3 k by (simp add: mask_eq_exp_minus_1)
    show ?thesis
      using 3 b tk lenw len from_be_bytes_tagged [OF w v dvd, where 'b = 64]
      by (simp add: VarInt_decode_def slice_index_def slice_range_def m)
  qed
qed

text \<open>The reference encoding: the byte string the RFC assigns to a value.\<close>

definition VarInt_bytes :: "u64 \<Rightarrow> bytes" where
  "VarInt_bytes val =
     (if val \<le> 63 then [ucast val]
      else if val \<le> 16383 then to_be_bytes ((ucast val :: u16) OR 0x4000)
      else if val \<le> 1073741823 then to_be_bytes ((ucast val :: u32) OR 0x80000000)
      else to_be_bytes (val OR 0xC000000000000000))"

definition VarInt_size :: "u64 \<Rightarrow> nat" where
  "VarInt_size val = (if val \<le> 63 then 1 else if val \<le> 16383 then 2 else if val \<le> 1073741823 then 4 else 8)"

lemma length_VarInt_bytes: "length (VarInt_bytes val) = VarInt_size val"
  by (simp add: VarInt_bytes_def VarInt_size_def)

lemma VarInt_MAX_unat: "val \<le> VarInt_MAX \<longleftrightarrow> unat val < 2 ^ 62"
  by (auto simp: VarInt_MAX_def word_le_nat_alt)

lemma VarInt_encode_eq:
  "VarInt_encode val buf =
     (if \<not> val \<le> VarInt_MAX then Err (InvalidPacket ''VarInt out of bounds'')
      else if length buf < VarInt_size val then Err BufferTooShort
      else Ok (VarInt_bytes val @ drop (VarInt_size val) buf, VarInt_size val))"
proof -
  have le: "val \<le> 63 \<Longrightarrow> val \<le> 16383" "val \<le> 16383 \<Longrightarrow> val \<le> 1073741823"
    "val \<le> 1073741823 \<Longrightarrow> val \<le> VarInt_MAX"
    by (simp_all add: word_le_nat_alt VarInt_MAX_def)
  consider "val \<le> 63" | "\<not> val \<le> 63" "val \<le> 16383" | "\<not> val \<le> 16383" "val \<le> 1073741823"
    | "\<not> val \<le> 1073741823" "val \<le> VarInt_MAX"
    | "\<not> val \<le> VarInt_MAX" "\<not> val \<le> 1073741823" "\<not> val \<le> 16383" "\<not> val \<le> 63"
    using le by blast
  then show ?thesis
    by cases (use le in \<open>simp_all add: VarInt_encode_def VarInt_bytes_def VarInt_size_def slice_copy_def
        Let_def numeral_2_eq_2 Suc_le_eq not_less length_to_be_bytes\<close>)
qed

lemma VarInt_decode_bytes:
  assumes "val \<le> VarInt_MAX"
  shows "VarInt_decode (VarInt_bytes val @ rest) = Ok (val, length (VarInt_bytes val))"
proof -
  have small: "unat val < 2 ^ 62"
    using assms by (simp add: VarInt_MAX_unat)
  consider "val \<le> 63" | "\<not> val \<le> 63" "val \<le> 16383" | "\<not> val \<le> 63" "\<not> val \<le> 16383" "val \<le> 1073741823"
    | "\<not> val \<le> 63" "\<not> val \<le> 16383" "\<not> val \<le> 1073741823"
    by blast
  then show ?thesis
  proof cases
    case 1
    then have "unat val < 64" by (simp add: word_le_nat_alt)
    with 1 show ?thesis by (simp add: VarInt_bytes_def VarInt_decode_class1)
  next
    case 2
    then have v: "unat val < 2 ^ 14" by (simp add: word_le_nat_alt)
    then have "unat ((ucast val :: u16) OR 0x4000) = unat val + 1 * 2 ^ 14"
      using unat_tagged [where 'a = 16 and k = 14 and t = 1 and val = val] by simp
    from VarInt_decode_tagged [OF this v, of 1 rest] 2 show ?thesis
      by (simp add: VarInt_bytes_def)
  next
    case 3
    then have v: "unat val < 2 ^ 30" by (simp add: word_le_nat_alt)
    then have "unat ((ucast val :: u32) OR 0x80000000) = unat val + 2 * 2 ^ 30"
      using unat_tagged [where 'a = 32 and k = 30 and t = 2 and val = val] by simp
    from VarInt_decode_tagged [OF this v, of 3 rest] 3 show ?thesis
      by (simp add: VarInt_bytes_def)
  next
    case 4
    have "unat (val OR 0xC000000000000000) = unat val + 3 * 2 ^ 62"
      using unat_tagged [where 'a = 64 and k = 62 and t = 3 and val = val] small by simp
    from VarInt_decode_tagged [OF this small, of 7 rest] 4 show ?thesis
      by (simp add: VarInt_bytes_def)
  qed
qed

interpretation varint: prefix_codec "\<lambda>v. v \<le> VarInt_MAX" VarInt_bytes VarInt_decode
  by unfold_locales (rule VarInt_decode_bytes)

lemma VarInt_decode_no_panic: "VarInt_decode buf \<noteq> Panic"
proof (cases buf)
  case (Cons b rest)
  have "unat (drop_bit 6 b) < 4"
    using unat_lt_exp [of b] by (simp only: unsigned_drop_bit_eq) (simp add: drop_bit_eq_div take_bit_nat_eq_self)
  then have "unat (drop_bit 6 b) \<in> {0, 1, 2, 3}" by auto
  then have "drop_bit 6 b \<in> {0, 1, 2, 3}"
    by (auto intro: unat_eqI)
  then show ?thesis
    using Cons by (auto simp: VarInt_decode_def slice_index_def slice_range_def Let_def Suc_le_eq)
qed (simp add: VarInt_decode_def)

section \<open>Properties\<close>

text \<open>
  A value that \<^verbatim>\<open>VarInt::encode\<close> accepts is read back by \<^verbatim>\<open>VarInt::decode\<close> from the written
  prefix followed by anything, with the same number of bytes consumed as were produced, and that
  number is the smallest of the four length classes that holds the value.
\<close>

theorem varint_roundtrip:
  assumes "VarInt_encode val buf = Ok (buf', n)"
  shows "VarInt_decode (take n buf' @ rest) = Ok (val, n) \<and> length buf' = length buf \<and>
    n \<in> {1, 2, 4, 8} \<and> unat val < 2 ^ (8 * n - 2) \<and> (\<forall>m \<in> {1, 2, 4, 8}. m < n \<longrightarrow> 2 ^ (8 * m - 2) \<le> unat val)"
proof -
  from assms have max: "val \<le> VarInt_MAX" and n: "n = VarInt_size val"
    and b: "buf' = VarInt_bytes val @ drop (VarInt_size val) buf" and len: "VarInt_size val \<le> length buf"
    by (auto simp: VarInt_encode_eq split: if_splits)
  then have "take n buf' = VarInt_bytes val" "length buf' = length buf"
    by (simp_all add: length_VarInt_bytes)
  then show ?thesis
    using max [unfolded VarInt_MAX_unat] n VarInt_decode_bytes [OF max, of rest]
    by (auto simp: length_VarInt_bytes VarInt_size_def word_le_nat_alt)
qed

lemma to_be_bytes_u16: "to_be_bytes (w :: u16) = [of_nat (unat w div 256 mod 256), of_nat (unat w mod 256)]"
proof -
  have "LENGTH(16) div 8 = Suc (Suc 0)" by simp
  then show ?thesis unfolding to_be_bytes_def by (simp only: to_be.simps append.simps)
qed

theorem varint_roundtrip_witness:
  "VarInt_encode 300 [0, 0, 0] = Ok ([65, 44, 0], 2) \<and> VarInt_decode ([65, 44] @ [7]) = Ok (300, 2)"
proof -
  have enc: "VarInt_encode 300 [0, 0, 0] = Ok ([65, 44, 0], 2)"
    by (simp add: VarInt_encode_def slice_copy_def to_be_bytes_u16)
  then show ?thesis using varint_roundtrip [OF enc, of "[7]"] by simp
qed

end
