(* ===== verification/F64.thy ===== *)
theory F64
  imports Complex_Main GTP_Types
begin

text \<open>
  Double precision arithmetic. A finite \<^verbatim>\<open>f64\<close> is a rational; every operation computes the exact
  rational result and rounds it to 53 significant bits, ties to even, as IEEE 754 prescribes. The
  exponent range is not bounded below or above: the sources compute with rates, windows and ratios
  far inside the normal range, and an operation that would overflow or be subnormal is not
  modelled. The casts are those of Rust: integer to float rounds, float to integer truncates and
  saturates.

  The locale \<open>rounding\<close> is what the congestion and route code relies on: rounding is monotone and
  leaves representable values alone. Bounds proved for exact values against representable limits
  therefore survive rounding.
\<close>

section \<open>Rounding\<close>

fun ilog2 :: "nat \<Rightarrow> nat" where
  "ilog2 n = (if n < 2 then 0 else Suc (ilog2 (n div 2)))"

declare ilog2.simps [simp del]

definition pow2 :: "int \<Rightarrow> rat" where
  "pow2 e = (if e \<ge> 0 then 2 ^ nat e else 1 / 2 ^ nat (- e))"

text \<open>The exponent \<open>e\<close> with \<open>2 ^ e \<le> x < 2 ^ (e + 1)\<close> of a positive rational.\<close>

definition exponent :: "rat \<Rightarrow> int" where
  "exponent x = (let (n, d) = quotient_of x;
                     e = int (ilog2 (nat n)) - int (ilog2 (nat d))
                 in if x < pow2 e then e - 1 else e)"

definition round_half_even :: "rat \<Rightarrow> int" where
  "round_half_even x = (let f = \<lfloor>x\<rfloor>; r = x - of_int f in
     if r < 1 / 2 then f else if r > 1 / 2 then f + 1 else if even f then f else f + 1)"

definition round_pos :: "rat \<Rightarrow> rat" where
  "round_pos x = (let e = exponent x - 52 in of_int (round_half_even (x / pow2 e)) * pow2 e)"

definition f64_round :: "rat \<Rightarrow> rat" where
  "f64_round x = (if x = 0 then 0 else if x < 0 then - round_pos (- x) else round_pos x)"

section \<open>Operations and casts\<close>

definition fadd :: "rat \<Rightarrow> rat \<Rightarrow> rat" where
  "fadd a b = f64_round (a + b)"

definition fsub :: "rat \<Rightarrow> rat \<Rightarrow> rat" where
  "fsub a b = f64_round (a - b)"

definition fmul :: "rat \<Rightarrow> rat \<Rightarrow> rat" where
  "fmul a b = f64_round (a * b)"

definition fdiv :: "rat \<Rightarrow> rat \<Rightarrow> rat" where
  "fdiv a b = f64_round (a / b)"

definition of_u64 :: "nat \<Rightarrow> rat" where
  "of_u64 n = f64_round (of_nat n)"

text \<open>\<^verbatim>\<open>x as u64\<close>: truncation towards zero, saturating at both ends.\<close>

definition to_u64 :: "rat \<Rightarrow> nat" where
  "to_u64 x = (if x \<le> 0 then 0 else min u64_max (nat \<lfloor>x\<rfloor>))"

definition as_secs_f64 :: "duration \<Rightarrow> rat" where
  "as_secs_f64 d = fdiv (of_u64 d) 1000000"

section \<open>Powers and exponents\<close>

lemma pow2_pos [simp]: "0 < pow2 e"
  by (simp add: pow2_def)

lemma pow2_Suc: "pow2 (e + 1) = 2 * pow2 e"
proof (cases "e \<ge> 0")
  case True
  then show ?thesis by (simp add: pow2_def nat_add_distrib)
next
  case False
  then have "nat (- e) = Suc (nat (- (e + 1)))" by simp
  then have "(2 :: rat) ^ nat (- e) = 2 * 2 ^ nat (- (e + 1))" by (metis power_Suc)
  then show ?thesis
    using False by (cases "e = -1") (simp_all add: pow2_def)
qed

lemma pow2_add_nat: "pow2 (e + int n) = pow2 e * 2 ^ n"
proof (induction n)
  case (Suc n)
  have "pow2 (e + int (Suc n)) = 2 * pow2 (e + int n)"
    using pow2_Suc [of "e + int n"] by (simp add: add.commute add.left_commute)
  then show ?case using Suc by simp
qed simp

lemma pow2_mono: "d \<le> e \<Longrightarrow> pow2 d \<le> pow2 e"
  using pow2_add_nat [of d "nat (e - d)"] by simp

lemma pow2_strict_mono: "pow2 d < pow2 e \<longleftrightarrow> d < e"
proof
  assume "pow2 d < pow2 e"
  then show "d < e" using pow2_mono [of e d] by force
next
  assume "d < e"
  then have "pow2 (d + 1) \<le> pow2 e" by (intro pow2_mono) simp
  then show "pow2 d < pow2 e" using pow2_Suc [of d] pow2_pos [of d] by linarith
qed

lemma ilog2_bounds: "0 < n \<Longrightarrow> 2 ^ ilog2 n \<le> n \<and> n < 2 ^ Suc (ilog2 n)"
proof (induction n rule: ilog2.induct)
  case (1 n)
  show ?case
  proof (cases "n < 2")
    case True
    then show ?thesis using 1 by (simp add: ilog2.simps [of n])
  next
    case False
    then have "2 ^ ilog2 (n div 2) \<le> n div 2 \<and> n div 2 < 2 ^ Suc (ilog2 (n div 2))"
      using "1.IH" by simp
    then show ?thesis using False by (simp add: ilog2.simps [of n]) linarith
  qed
qed

lemma exponent_bounds:
  assumes "0 < x"
  shows "pow2 (exponent x) \<le> x" and "x < pow2 (exponent x + 1)"
proof -
  obtain n d where q: "quotient_of x = (n, d)" by (cases "quotient_of x")
  have d: "0 < d" using q by (rule quotient_of_denom_pos)
  have x: "x = of_int n / of_int d" using q by (rule quotient_of_div)
  have n: "0 < n" using assms d x by (simp add: zero_less_divide_iff)
  define a b where "a = ilog2 (nat n)" and "b = ilog2 (nat d)"
  have "2 ^ a \<le> nat n" "nat n < 2 * 2 ^ a" "2 ^ b \<le> nat d" "nat d < 2 * 2 ^ b"
    using ilog2_bounds [of "nat n"] ilog2_bounds [of "nat d"] n d by (auto simp: a_def b_def)
  then have "int (2 ^ a) \<le> n" "n < int (2 * 2 ^ a)" "int (2 ^ b) \<le> d" "d < int (2 * 2 ^ b)"
    by linarith+
  then have "of_int (int (2 ^ a)) \<le> (of_int n :: rat)" "of_int n < (of_int (int (2 * 2 ^ a)) :: rat)"
    "of_int (int (2 ^ b)) \<le> (of_int d :: rat)" "of_int d < (of_int (int (2 * 2 ^ b)) :: rat)"
    by (simp_all only: of_int_le_iff of_int_less_iff)
  then have bounds: "2 ^ a \<le> (of_int n :: rat)" "of_int n < (2 :: rat) * 2 ^ a"
    "2 ^ b \<le> (of_int d :: rat)" "of_int d < (2 :: rat) * 2 ^ b"
    by simp_all
  define e where "e = int a - int b"
  have p: "pow2 e * 2 ^ b = 2 ^ a"
    using pow2_add_nat [of e b] by (simp add: e_def pow2_def)
  have dp: "(0 :: rat) < of_int d" using d by simp
  have "pow2 e * of_int d < pow2 e * (2 * 2 ^ b)"
    using bounds(4) by simp
  also have "\<dots> = 2 * 2 ^ a" using p by simp
  also have "\<dots> \<le> 2 * of_int n" using bounds(1) by simp
  finally have "pow2 e < 2 * x"
    using dp by (simp add: x field_simps)
  moreover have "pow2 (e - 1) * 2 = pow2 e"
    using pow2_Suc [of "e - 1"] by simp
  ultimately have lo: "pow2 (e - 1) \<le> x" by linarith
  have "of_int n < 2 * (pow2 e * 2 ^ b)" using bounds(2) p by simp
  also have "\<dots> \<le> 2 * (pow2 e * of_int d)" using bounds(3) by simp
  finally have hi: "x < 2 * pow2 e" using dp by (simp add: x field_simps)
  have ex: "exponent x = (if x < pow2 e then e - 1 else e)"
    by (simp add: exponent_def q Let_def e_def a_def b_def)
  show "pow2 (exponent x) \<le> x" using lo by (simp add: ex)
  show "x < pow2 (exponent x + 1)" using hi pow2_Suc [of e] by (simp add: ex)
qed

lemma exponent_unique: "pow2 e \<le> x \<Longrightarrow> x < pow2 (e + 1) \<Longrightarrow> exponent x = e"
proof -
  assume lo: "pow2 e \<le> x" and hi: "x < pow2 (e + 1)"
  then have "0 < x" using pow2_pos [of e] by linarith
  note b = exponent_bounds [OF this]
  have "pow2 e < pow2 (exponent x + 1)" using lo b by linarith
  moreover have "pow2 (exponent x) < pow2 (e + 1)" using hi b by linarith
  ultimately show ?thesis by (simp add: pow2_strict_mono)
qed

lemma exponent_mono: "0 < x \<Longrightarrow> x \<le> y \<Longrightarrow> exponent x \<le> exponent y"
proof -
  assume x: "0 < x" and xy: "x \<le> y"
  have "pow2 (exponent x) < pow2 (exponent y + 1)"
    using exponent_bounds [of x] exponent_bounds [of y] x xy by linarith
  then show ?thesis by (simp add: pow2_strict_mono)
qed

section \<open>Rounding is monotone and exact on representable values\<close>

lemma round_half_even_of_int [simp]: "round_half_even (of_int n) = n"
  by (simp add: round_half_even_def)

lemma round_half_even_bounds:
  "\<lfloor>x\<rfloor> \<le> round_half_even x" "round_half_even x \<le> \<lfloor>x\<rfloor> + 1"
  by (simp_all add: round_half_even_def Let_def)

lemma round_half_even_mono:
  assumes "x \<le> y"
  shows "round_half_even x \<le> round_half_even y"
proof (cases "\<lfloor>x\<rfloor> = \<lfloor>y\<rfloor>")
  case True
  then show ?thesis
    using assms by (auto simp: round_half_even_def Let_def)
next
  case False
  then have "\<lfloor>x\<rfloor> + 1 \<le> \<lfloor>y\<rfloor>"
    using floor_mono [OF assms] by linarith
  then show ?thesis
    using round_half_even_bounds [of x] round_half_even_bounds [of y] by linarith
qed

lemma round_pos_bounds:
  assumes "0 < x"
  shows "pow2 (exponent x) \<le> round_pos x" and "round_pos x \<le> pow2 (exponent x + 1)"
proof -
  define e where "e = exponent x - 52"
  have p: "pow2 (exponent x) = 2 ^ 52 * pow2 e" "pow2 (exponent x + 1) = 2 ^ 53 * pow2 e"
    using pow2_add_nat [of e 52] pow2_add_nat [of e 53] by (simp_all add: e_def add.commute)
  have "of_int (2 ^ 52) \<le> x / pow2 e" "x / pow2 e \<le> of_int (2 ^ 53)"
    using exponent_bounds [OF assms] p pow2_pos [of e] by (simp_all add: field_simps)
  then have "2 ^ 52 \<le> round_half_even (x / pow2 e)" "round_half_even (x / pow2 e) \<le> 2 ^ 53"
    using round_half_even_mono [of "of_int (2 ^ 52)" "x / pow2 e"]
      round_half_even_mono [of "x / pow2 e" "of_int (2 ^ 53)"]
    by (simp_all del: of_int_power of_int_numeral)
  then have "of_int (2 ^ 52) \<le> (of_int (round_half_even (x / pow2 e)) :: rat)"
    "(of_int (round_half_even (x / pow2 e)) :: rat) \<le> of_int (2 ^ 53)"
    by (simp_all only: of_int_le_iff)
  then show "pow2 (exponent x) \<le> round_pos x" "round_pos x \<le> pow2 (exponent x + 1)"
    unfolding p round_pos_def Let_def e_def [symmetric]
    using pow2_pos [of e] by (auto intro!: mult_right_mono simp: less_imp_le)
qed

lemma round_pos_mono:
  assumes "0 < x" and "x \<le> y"
  shows "round_pos x \<le> round_pos y"
proof (cases "exponent x = exponent y")
  case True
  then have "x / pow2 (exponent x - 52) \<le> y / pow2 (exponent y - 52)"
    using assms by (simp add: divide_right_mono less_imp_le)
  then show ?thesis
    using True pow2_pos [of "exponent y - 52"] round_half_even_mono
    unfolding round_pos_def Let_def by (auto intro!: mult_right_mono)
next
  case False
  then have "pow2 (exponent x + 1) \<le> pow2 (exponent y)"
    using exponent_mono [OF assms] by (intro pow2_mono) simp
  then show ?thesis
    using round_pos_bounds [of x] round_pos_bounds [of y] assms by linarith
qed

lemma round_pos_gt_0: "0 < x \<Longrightarrow> 0 < round_pos x"
  using round_pos_bounds [of x] pow2_pos [of "exponent x"] by linarith

lemma f64_round_mono: "x \<le> y \<Longrightarrow> f64_round x \<le> f64_round y"
  using round_pos_mono [of x y] round_pos_mono [of "- y" "- x"]
    round_pos_gt_0 [of y] round_pos_gt_0 [of "- x"]
  by (auto simp: f64_round_def)

definition representable :: "rat \<Rightarrow> bool" where
  "representable x \<longleftrightarrow> (\<exists>m e. \<bar>m\<bar> \<le> 2 ^ 53 \<and> x = of_int m * pow2 e)"

lemma round_pos_representable:
  assumes "0 < x" and "m \<le> 2 ^ 53" and "x = of_int m * pow2 e"
  shows "round_pos x = x"
proof -
  define d where "d = exponent x - 52"
  have "x \<le> of_int (2 ^ 53) * pow2 e"
    unfolding assms(3) using assms(2) pow2_pos [of e]
    by (intro mult_right_mono) (simp_all only: of_int_le_iff less_imp_le)
  then have "pow2 (exponent x) < pow2 (e + 54)"
    using exponent_bounds [OF assms(1)] pow2_add_nat [of e 54] pow2_pos [of e]
    by (simp del: pow2_pos)
  then have E: "exponent x \<le> e + 53"
    by (simp add: pow2_strict_mono)
  have "\<exists>k. x = of_int k * pow2 d"
  proof (cases "d \<le> e")
    case True
    then have "pow2 e = pow2 d * 2 ^ nat (e - d)"
      using pow2_add_nat [of d "nat (e - d)"] by simp
    then have "x = of_int (m * 2 ^ nat (e - d)) * pow2 d"
      by (simp add: assms(3) mult.commute mult.left_commute)
    then show ?thesis by blast
  next
    case False
    then have "exponent x = e + 53" using E by (simp add: d_def)
    then have "pow2 (e + 53) \<le> x" and d: "d = e + 1"
      using exponent_bounds(1) [OF assms(1)] by (simp_all add: d_def)
    then have "x = 2 ^ 53 * pow2 e"
      using pow2_add_nat [of e 53] \<open>x \<le> of_int (2 ^ 53) * pow2 e\<close> by simp
    then have "x = of_int (2 ^ 52) * pow2 d"
      by (simp add: d pow2_Suc)
    then show ?thesis by blast
  qed
  then obtain k where k: "x = of_int k * pow2 d" ..
  moreover have "pow2 d \<noteq> 0"
    using pow2_pos [of d] by linarith
  ultimately have "x / pow2 d = of_int k"
    by simp
  then show ?thesis
    unfolding round_pos_def Let_def d_def [symmetric] using k by simp
qed

lemma f64_round_representable:
  assumes "representable x"
  shows "f64_round x = x"
proof -
  obtain m e where m: "\<bar>m\<bar> \<le> 2 ^ 53" and x: "x = of_int m * pow2 e"
    using assms by (auto simp: representable_def)
  then have "- x = of_int (- m) * pow2 e" by simp
  moreover have "m \<le> 2 ^ 53" "- m \<le> 2 ^ 53" using m by linarith+
  ultimately show ?thesis
    using round_pos_representable [of x m e] round_pos_representable [of "- x" "- m" e] x
    by (cases "x = 0"; cases "x < 0") (auto simp: f64_round_def not_less less_le)
qed

lemma representable_of_int: "\<bar>n\<bar> \<le> 2 ^ 53 \<Longrightarrow> representable (of_int n)"
  unfolding representable_def by (intro exI [of _ n] exI [of _ 0]) (simp add: pow2_def)

lemma representable_of_nat: "n \<le> 2 ^ 53 \<Longrightarrow> representable (of_nat n)"
  using representable_of_int [of "int n"] by simp

section \<open>The rounding contract\<close>

locale rounding =
  fixes rnd :: "rat \<Rightarrow> rat"
    and rep :: "rat \<Rightarrow> bool"
  assumes rnd_mono: "x \<le> y \<Longrightarrow> rnd x \<le> rnd y"
    and rnd_rep: "rep x \<Longrightarrow> rnd x = x"
begin

lemma rnd_le: "x \<le> c \<Longrightarrow> rep c \<Longrightarrow> rnd x \<le> c"
  using rnd_mono rnd_rep by metis

lemma rnd_ge: "c \<le> x \<Longrightarrow> rep c \<Longrightarrow> c \<le> rnd x"
  using rnd_mono rnd_rep by metis

lemma rnd_between: "rep a \<Longrightarrow> rep b \<Longrightarrow> a \<le> x \<Longrightarrow> x \<le> b \<Longrightarrow> a \<le> rnd x \<and> rnd x \<le> b"
  using rnd_le rnd_ge by blast

end

interpretation ieee: rounding f64_round representable
  by unfold_locales (simp_all add: f64_round_mono f64_round_representable)

lemma representable_0 [simp]: "representable 0" and representable_1 [simp]: "representable 1"
  using representable_of_int [of 0] representable_of_int [of 1] by simp_all

lemma representable_numeral: "(numeral k :: int) \<le> 2 ^ 53 \<Longrightarrow> representable (numeral k)"
  using representable_of_int [of "numeral k"] by simp

lemma f64_round_nonneg: "0 \<le> x \<Longrightarrow> 0 \<le> f64_round x"
  by (simp add: ieee.rnd_ge)

lemma of_u64_exact: "n \<le> 2 ^ 53 \<Longrightarrow> of_u64 n = of_nat n"
  by (simp add: of_u64_def ieee.rnd_rep representable_of_nat)

lemma of_u64_nonneg [simp]: "0 \<le> of_u64 n"
  by (simp add: of_u64_def f64_round_nonneg)

lemma of_u64_mono: "a \<le> b \<Longrightarrow> of_u64 a \<le> of_u64 b"
  by (simp add: of_u64_def ieee.rnd_mono)

lemma to_u64_mono: "x \<le> y \<Longrightarrow> to_u64 x \<le> to_u64 y"
  using floor_mono [of x y] nat_mono by (fastforce simp: to_u64_def min_le_iff_disj)

lemma to_u64_of_nat: "n \<le> u64_max \<Longrightarrow> to_u64 (of_nat n) = n"
  by (simp add: to_u64_def)

lemma to_u64_le_max [simp]: "to_u64 x \<le> u64_max"
  by (simp add: to_u64_def)

section \<open>Relative error\<close>

lemma round_half_even_error: "\<bar>of_int (round_half_even x) - x\<bar> \<le> 1 / 2"
proof -
  have "of_int \<lfloor>x\<rfloor> \<le> x" "x < of_int \<lfloor>x\<rfloor> + 1" by linarith+
  then show ?thesis by (auto simp: round_half_even_def Let_def abs_le_iff)
qed

lemma round_pos_error:
  assumes "0 < x"
  shows "\<bar>round_pos x - x\<bar> \<le> x / 2 ^ 53"
proof -
  define e where "e = exponent x - 52"
  define y where "y = x / pow2 e"
  have p: "0 < pow2 e" by simp
  then have "pow2 e \<noteq> 0" by linarith
  then have xy: "x = y * pow2 e" by (simp add: y_def)
  have "pow2 (exponent x) = 2 ^ 52 * pow2 e"
    using pow2_add_nat [of e 52] by (simp add: e_def add.commute)
  then have "2 ^ 52 * pow2 e \<le> y * pow2 e" using exponent_bounds(1) [OF assms] xy by simp
  then have y: "2 ^ 52 \<le> y" using p by simp
  have "round_pos x = of_int (round_half_even y) * pow2 e"
    by (simp add: round_pos_def Let_def e_def y_def)
  then have "round_pos x - x = (of_int (round_half_even y) - y) * pow2 e"
    using xy by (simp only: left_diff_distrib)
  then have "\<bar>round_pos x - x\<bar> = \<bar>of_int (round_half_even y) - y\<bar> * pow2 e"
    using abs_of_pos [OF p] by (simp only: abs_mult)
  also have "\<dots> \<le> (1 / 2) * pow2 e"
    using round_half_even_error [of y] less_imp_le [OF p] by (rule mult_right_mono)
  also have "\<dots> \<le> (y / 2 ^ 53) * pow2 e"
    using y less_imp_le [OF p] by (intro mult_right_mono) simp_all
  also have "\<dots> = x / 2 ^ 53" using xy by simp
  finally show ?thesis .
qed

lemma f64_round_error: "\<bar>f64_round x - x\<bar> \<le> \<bar>x\<bar> / 2 ^ 53"
proof -
  have "\<bar>- round_pos (- x) - x\<bar> = \<bar>round_pos (- x) - (- x)\<bar>" by linarith
  then show ?thesis
    using round_pos_error [of x] round_pos_error [of "- x"] by (auto simp: f64_round_def simp del: divide_le_eq_numeral1 le_divide_eq_numeral1)
qed

lemma f64_round_upper: "0 \<le> x \<Longrightarrow> f64_round x \<le> x * (1 + 1 / 2 ^ 53)"
proof -
  assume "0 \<le> x"
  then have "f64_round x - x \<le> x / 2 ^ 53" using f64_round_error [of x] by linarith
  then show ?thesis by (simp add: distrib_left)
qed

lemma of_u64_upper: "of_u64 n \<le> of_nat n * (1 + 1 / 2 ^ 53)"
  unfolding of_u64_def by (rule f64_round_upper) simp

lemma to_u64_le: "x \<le> of_nat n \<Longrightarrow> to_u64 x \<le> n"
proof -
  assume x: "x \<le> of_nat n"
  have "nat \<lfloor>x\<rfloor> \<le> n" using x by (metis floor_mono floor_of_nat nat_int nat_mono)
  then show ?thesis by (auto simp: to_u64_def min_le_iff_disj)
qed

lemma to_u64_ge: "of_nat n \<le> x \<Longrightarrow> n \<le> u64_max \<Longrightarrow> n \<le> to_u64 x"
  using to_u64_mono [of "of_nat n" x] by (simp add: to_u64_of_nat)

lemma fmul_nonneg: "0 \<le> a \<Longrightarrow> 0 \<le> b \<Longrightarrow> 0 \<le> fmul a b"
  by (simp add: fmul_def f64_round_nonneg)

lemma fdiv_mono: "0 \<le> a \<Longrightarrow> a \<le> b \<Longrightarrow> 0 < d \<Longrightarrow> d \<le> c \<Longrightarrow> fdiv a c \<le> fdiv b d"
  unfolding fdiv_def by (intro ieee.rnd_mono frac_le) simp_all

section \<open>Results are representable\<close>

lemma representable_neg: "representable x \<Longrightarrow> representable (- x)"
  unfolding representable_def by (metis abs_minus_cancel mult_minus_left of_int_minus)

lemma representable_round_pos:
  assumes "0 < x"
  shows "representable (round_pos x)"
proof -
  define e where "e = exponent x - 52"
  have p: "pow2 (exponent x) = 2 ^ 52 * pow2 e" "pow2 (exponent x + 1) = 2 ^ 53 * pow2 e"
    using pow2_add_nat [of e 52] pow2_add_nat [of e 53] by (simp_all add: e_def add.commute)
  define k where "k = round_half_even (x / pow2 e)"
  have eq: "round_pos x = of_int k * pow2 e" by (simp add: round_pos_def Let_def e_def k_def)
  have pe: "0 < pow2 e" by simp
  have "2 ^ 52 * pow2 e \<le> of_int k * pow2 e" "of_int k * pow2 e \<le> 2 ^ 53 * pow2 e"
    using round_pos_bounds [OF assms] p eq by simp_all
  then have "(2 ^ 52 :: rat) \<le> of_int k" "(of_int k :: rat) \<le> 2 ^ 53"
    using pe by (simp_all only: mult_le_cancel_right_pos)
  then have "\<bar>k\<bar> \<le> 2 ^ 53" by (simp add: abs_le_iff)
  then show ?thesis unfolding representable_def eq by blast
qed

lemma representable_round [simp]: "representable (f64_round x)"
  using representable_round_pos [of x] representable_round_pos [of "- x"]
  by (auto simp: f64_round_def representable_neg)

lemma f64_round_idem [simp]: "f64_round (f64_round x) = f64_round x"
  by (simp add: ieee.rnd_rep)

text \<open>The complement of a weight in \<open>[1/2, 1]\<close> is exact.\<close>

lemma representable_complement:
  assumes "representable x" and "1 / 2 \<le> x" and "x \<le> 1"
  shows "representable (1 - x)"
proof -
  obtain m e where m: "\<bar>m\<bar> \<le> 2 ^ 53" and x: "x = of_int m * pow2 e"
    using assms(1) by (auto simp: representable_def)
  have p: "0 < pow2 e" by simp
  have "0 < of_int m * pow2 e" using assms(2) x by simp
  then have mpos: "1 \<le> m" using p by (simp add: zero_less_mult_iff)
  show ?thesis
  proof (cases "e \<le> 0")
    case False
    then have "2 \<le> pow2 e" using pow2_mono [of 1 e] by (simp add: pow2_def)
    moreover have "1 * pow2 e \<le> of_int m * pow2 e" using mpos by (intro mult_right_mono) (simp_all add: less_imp_le)
    ultimately show ?thesis using assms(3) x by simp
  next
    case True
    define n where "n = nat (- e)"
    have one: "pow2 e * 2 ^ n = 1" using True by (simp add: pow2_def n_def)
    have "1 - x = of_int (2 ^ n - m) * pow2 e"
      using one by (simp add: x right_diff_distrib mult.commute)
    moreover have "\<bar>2 ^ n - m\<bar> \<le> 2 ^ 53"
    proof -
      have "of_int m * pow2 e \<le> 2 ^ n * pow2 e" using assms(3) x one by (simp add: mult.commute)
      then have "(of_int m :: rat) \<le> 2 ^ n" using p by (simp only: mult_le_cancel_right_pos)
      then have hi: "m \<le> 2 ^ n" by (metis of_int_le_iff of_int_numeral of_int_power)
      have "2 ^ n * pow2 e \<le> (2 * of_int m) * pow2 e" using assms(2) x one by (simp add: mult.commute)
      then have "(2 ^ n :: rat) \<le> 2 * of_int m" using p by (simp only: mult_le_cancel_right_pos)
      then have "of_int (2 ^ n) \<le> (of_int (2 * m) :: rat)" by simp
      then have lo: "2 ^ n \<le> 2 * m" by (simp only: of_int_le_iff)
      show ?thesis using hi lo m by linarith
    qed
    ultimately show ?thesis unfolding representable_def by blast
  qed
qed

lemma fadd_mono: "a \<le> b \<Longrightarrow> c \<le> d \<Longrightarrow> fadd a c \<le> fadd b d"
  unfolding fadd_def by (intro ieee.rnd_mono add_mono)

lemma fsub_mono: "a \<le> b \<Longrightarrow> d \<le> c \<Longrightarrow> fsub a c \<le> fsub b d"
  unfolding fsub_def by (intro ieee.rnd_mono) simp

lemma fmul_mono: "0 \<le> a \<Longrightarrow> a \<le> b \<Longrightarrow> 0 \<le> c \<Longrightarrow> c \<le> d \<Longrightarrow> fmul a c \<le> fmul b d"
  unfolding fmul_def by (intro ieee.rnd_mono mult_mono) simp_all

lemma fadd_nonneg: "0 \<le> a \<Longrightarrow> 0 \<le> b \<Longrightarrow> 0 \<le> fadd a b"
  by (simp add: fadd_def f64_round_nonneg)

lemma fdiv_nonneg: "0 \<le> a \<Longrightarrow> 0 \<le> b \<Longrightarrow> 0 \<le> fdiv a b"
  by (simp add: fdiv_def f64_round_nonneg)

lemma fmul_le_left: "0 \<le> a \<Longrightarrow> b \<le> 1 \<Longrightarrow> representable a \<Longrightarrow> fmul a b \<le> a"
  unfolding fmul_def by (rule ieee.rnd_le) (simp_all add: mult_left_le)

lemma fmul_le_one: "0 \<le> a \<Longrightarrow> a \<le> 1 \<Longrightarrow> 0 \<le> b \<Longrightarrow> b \<le> 1 \<Longrightarrow> fmul a b \<le> 1"
  unfolding fmul_def by (rule ieee.rnd_le) (simp_all add: mult_le_one)

lemma fdiv_le_one: "0 \<le> a \<Longrightarrow> a \<le> b \<Longrightarrow> fdiv a b \<le> 1"
  unfolding fdiv_def by (rule ieee.rnd_le) (simp_all add: divide_le_eq)

lemma representable_ops [simp]:
  "representable (fadd a b)" "representable (fsub a b)" "representable (fmul a b)" "representable (fdiv a b)"
  "representable (of_u64 n)"
  by (simp_all add: fadd_def fsub_def fmul_def fdiv_def of_u64_def)

lemma of_u64_ge_1:
  assumes "0 < n"
  shows "1 \<le> of_u64 n"
proof -
  have "Suc 0 \<le> n" using assms by simp
  then have "(1 :: rat) \<le> of_nat n" by (metis of_nat_1 of_nat_le_iff One_nat_def)
  then show ?thesis unfolding of_u64_def by (rule ieee.rnd_ge) simp
qed

lemma of_u64_pos: "0 < n \<Longrightarrow> 0 < of_u64 n"
  by (rule less_le_trans [OF zero_less_one of_u64_ge_1])

end
