(* ===== verification/Number_Text.thy ===== *)
theory Number_Text
  imports F64
begin

text \<open>
  Numbers as text, as the standard library prints and parses them: unsigned integers in a base, doubles
  with a fixed number of decimals, and the separation of a line into fields. A string is its list of
  bytes. A parsed double that is not a normal finite number or a positive zero (infinite, not a number,
  subnormal, negative zero) is outside the model of doubles, and parsing it gives the explicit value
  \<open>Unmodelled\<close>. Laws: printing and parsing are inverse up to the precision printed.
\<close>

section \<open>Integers\<close>

definition digit_char :: "nat \<Rightarrow> char" where
  "digit_char d = (if d < 10 then char_of (48 + d) else char_of (55 + d))"

definition digit_val :: "nat \<Rightarrow> char \<Rightarrow> nat option" where
  "digit_val base c =
     (let n = of_char c :: nat;
          d = (if 48 \<le> n \<and> n \<le> 57 then n - 48 else if 65 \<le> n \<and> n \<le> 90 then n - 55 else if 97 \<le> n \<and> n \<le> 122 then n - 87 else base)
      in if d < base then Some d else None)"

fun show_nat :: "nat \<Rightarrow> nat \<Rightarrow> string" where
  "show_nat base n = (if n < base \<or> base < 2 then [digit_char n] else show_nat base (n div base) @ [digit_char (n mod base)])"

declare show_nat.simps [simp del]

fun digits_value :: "nat \<Rightarrow> string \<Rightarrow> nat \<Rightarrow> nat option" where
  "digits_value base [] acc = Some acc"
| "digits_value base (c # cs) acc = (case digit_val base c of None \<Rightarrow> None | Some d \<Rightarrow> digits_value base cs (acc * base + d))"

text \<open>
  \<^verbatim>\<open>from_str_radix\<close> for an unsigned type: one plus sign may lead, at least one digit follows, and a value above
  the largest of the type is an error. A partial value never exceeds the final one, so one comparison
  at the end is the check of every step.
\<close>

definition parse_uint :: "nat \<Rightarrow> nat \<Rightarrow> string \<Rightarrow> nat option" where
  "parse_uint base largest s =
     (let ds = (case s of c # cs \<Rightarrow> if c = CHR ''+'' then cs else s | [] \<Rightarrow> [])
      in if ds = [] then None
         else case digits_value base ds 0 of Some n \<Rightarrow> if n \<le> largest then Some n else None | None \<Rightarrow> None)"

section \<open>Doubles\<close>

definition zero_pad :: "nat \<Rightarrow> string \<Rightarrow> string" where
  "zero_pad k s = replicate (k - length s) (CHR ''0'') @ s"

text \<open>The format with \<open>k\<close> decimals: the exact value, rounded to the nearest multiple, ties to even.\<close>

definition show_fixed :: "nat \<Rightarrow> rat \<Rightarrow> string" where
  "show_fixed k x =
     (let n = nat (round_half_even (\<bar>x\<bar> * 10 ^ k))
      in (if x < 0 then ''-'' else []) @ show_nat 10 (n div 10 ^ k) @ CHR ''.'' # zero_pad k (show_nat 10 (n mod 10 ^ k)))"

datatype 'a parsed = Rejected | Parsed 'a | Unmodelled

definition is_digit :: "char \<Rightarrow> bool" where
  "is_digit c \<longleftrightarrow> digit_val 10 c \<noteq> None"

definition pow10 :: "int \<Rightarrow> rat" where
  "pow10 e = (if 0 \<le> e then 10 ^ nat e else 1 / 10 ^ nat (- e))"

text \<open>The digits of an exponent; it stops growing once it is large.\<close>

fun exponent_value :: "string \<Rightarrow> nat \<Rightarrow> nat option" where
  "exponent_value [] acc = Some acc"
| "exponent_value (c # cs) acc =
     (case digit_val 10 c of None \<Rightarrow> None | Some d \<Rightarrow> exponent_value cs (if acc < 65536 then acc * 10 + d else acc))"

definition parse_exponent :: "string \<Rightarrow> int option" where
  "parse_exponent s =
     (let ds = (case s of c # cs \<Rightarrow> if c = CHR ''+'' \<or> c = CHR ''-'' then cs else s | [] \<Rightarrow> [])
      in if ds = [] then None
         else map_option (\<lambda>e. if hd s = CHR ''-'' then - int e else int e) (exponent_value ds 0))"

text \<open>An unsigned decimal number: digits with an optional point, at least one, and an optional exponent.\<close>

definition parse_decimal :: "string \<Rightarrow> rat option" where
  "parse_decimal s =
     (let ip = takeWhile is_digit s;
          r1 = dropWhile is_digit s;
          dot = (r1 \<noteq> [] \<and> hd r1 = CHR ''.'');
          fp = (if dot then takeWhile is_digit (tl r1) else []);
          r2 = (if dot then dropWhile is_digit (tl r1) else r1);
          mantissa = of_nat (the (digits_value 10 (ip @ fp) 0))
      in if ip @ fp = [] then None
         else case r2 of
                [] \<Rightarrow> Some (mantissa * pow10 (- int (length fp)))
              | c # cs \<Rightarrow> if c = CHR ''e'' \<or> c = CHR ''E''
                  then map_option (\<lambda>e. mantissa * pow10 (e - int (length fp))) (parse_exponent cs) else None)"

text \<open>The nearest double of an exact magnitude with a sign.\<close>

definition to_double :: "bool \<Rightarrow> rat \<Rightarrow> rat parsed" where
  "to_double negative x =
     (if x = 0 then if negative then Unmodelled else Parsed 0
      else if x < 1 / 2 ^ 1022 \<or> 2 ^ 1024 \<le> f64_round x then Unmodelled
      else Parsed (if negative then - f64_round x else f64_round x))"

definition to_lower :: "char \<Rightarrow> char" where
  "to_lower c = (let n = of_char c :: nat in if 65 \<le> n \<and> n \<le> 90 then char_of (n + 32) else c)"

definition parse_f64 :: "string \<Rightarrow> rat parsed" where
  "parse_f64 s =
     (let negative = (s \<noteq> [] \<and> hd s = CHR ''-'');
          body = (if s \<noteq> [] \<and> (hd s = CHR ''-'' \<or> hd s = CHR ''+'') then tl s else s)
      in case parse_decimal body of
           Some x \<Rightarrow> to_double negative x
         | None \<Rightarrow> if map to_lower body \<in> {''nan'', ''inf'', ''infinity''} then Unmodelled else Rejected)"

section \<open>Combining parsed fields\<close>

text \<open>A rejected field rejects the whole, also next to a field outside the model.\<close>

definition of_option :: "'a option \<Rightarrow> 'a parsed" where
  "of_option x = (case x of None \<Rightarrow> Rejected | Some a \<Rightarrow> Parsed a)"

fun pmap :: "('a \<Rightarrow> 'b) \<Rightarrow> 'a parsed \<Rightarrow> 'b parsed" where
  "pmap f Rejected = Rejected"
| "pmap f (Parsed a) = Parsed (f a)"
| "pmap f Unmodelled = Unmodelled"

fun pand :: "'a parsed \<Rightarrow> 'b parsed \<Rightarrow> ('a \<times> 'b) parsed" where
  "pand (Parsed a) (Parsed b) = Parsed (a, b)"
| "pand Rejected _ = Rejected"
| "pand _ Rejected = Rejected"
| "pand _ _ = Unmodelled"

fun pall :: "'a parsed list \<Rightarrow> 'a list parsed" where
  "pall [] = Parsed []"
| "pall (x # xs) = pmap (\<lambda>(a, as). a # as) (pand x (pall xs))"

section \<open>Fields of a line\<close>

definition strip_prefix :: "string \<Rightarrow> string \<Rightarrow> string option" where
  "strip_prefix p s = (if take (length p) s = p then Some (drop (length p) s) else None)"

fun split_on :: "char \<Rightarrow> string \<Rightarrow> string list" where
  "split_on c [] = [[]]"
| "split_on c (x # xs) = (if x = c then [] # split_on c xs else case split_on c xs of p # ps \<Rightarrow> (x # p) # ps | [] \<Rightarrow> [[x]])"

fun join_with :: "char \<Rightarrow> string list \<Rightarrow> string" where
  "join_with c [] = []"
| "join_with c [x] = x"
| "join_with c (x # y # ys) = x @ c # join_with c (y # ys)"

lemma split_on_field: "c \<notin> set x \<Longrightarrow> split_on c (x @ c # rest) = x # split_on c rest"
  by (induction x) auto

lemma split_on_last: "c \<notin> set x \<Longrightarrow> split_on c x = [x]"
  by (induction x) auto

lemma split_join: "xs \<noteq> [] \<Longrightarrow> \<forall>x \<in> set xs. c \<notin> set x \<Longrightarrow> split_on c (join_with c xs) = xs"
  by (induction c xs rule: join_with.induct) (simp_all add: split_on_field split_on_last)

lemma strip_prefix_append [simp]: "strip_prefix p (p @ s) = Some s"
  by (simp add: strip_prefix_def)

lemma pall_map_Parsed [simp]: "(\<And>x. x \<in> set xs \<Longrightarrow> f x = Parsed (g x)) \<Longrightarrow> pall (map f xs) = Parsed (map g xs)"
  by (induction xs) simp_all

section \<open>Integers round trip\<close>

lemma digit_val_char: "d < base \<Longrightarrow> base \<le> 16 \<Longrightarrow> digit_val base (digit_char d) = Some d"
  by (auto simp: digit_val_def digit_char_def Let_def)

lemma digits_value_append:
  "digits_value base (xs @ ys) acc = Option.bind (digits_value base xs acc) (digits_value base ys)"
  by (induction xs arbitrary: acc) (simp_all split: option.split)

lemma show_nat_value:
  assumes "2 \<le> base" and "base \<le> 16"
  shows "digits_value base (show_nat base n) 0 = Some n"
proof (induction n rule: less_induct)
  case (less n)
  show ?case
  proof (cases "n < base")
    case True
    then show ?thesis using assms by (simp add: show_nat.simps [of base n] digit_val_char)
  next
    case False
    then have "n div base < n" using assms by simp
    from less.IH [OF this] show ?thesis using False assms by (simp add: show_nat.simps [of base n] digits_value_append digit_val_char)
  qed
qed

lemma show_nat_Nil [simp]: "show_nat base n \<noteq> []"
  by (simp add: show_nat.simps)

lemma show_nat_digits: "2 \<le> base \<Longrightarrow> base \<le> 16 \<Longrightarrow> c \<in> set (show_nat base n) \<Longrightarrow> \<exists>d < base. c = digit_char d"
proof (induction n rule: less_induct)
  case (less n)
  show ?case
  proof (cases "n < base")
    case False
    then have smaller: "n div base < n" using less.prems(1) by simp
    have "c \<in> set (show_nat base (n div base)) \<or> c = digit_char (n mod base)"
      using less.prems False by (auto simp: show_nat.simps [of base n])
    then show ?thesis using less.IH [OF smaller] less.prems(1,2) by (metis mod_less_divisor less_le_trans pos2)
  qed (use less in \<open>auto simp: show_nat.simps [of base n]\<close>)
qed

text \<open>No digit is a separator, a sign or a point.\<close>

lemma digit_char_plain:
  assumes "d < 16"
  shows "digit_char d \<notin> {CHR ''|'', CHR '':'', CHR ''+'', CHR ''-'', CHR ''.''}"
proof -
  have n: "of_char (digit_char d) = (if d < 10 then 48 + d else 55 + d)" using assms by (simp add: digit_char_def)
  have "of_char c \<noteq> (if d < 10 then 48 + d else 55 + d) \<Longrightarrow> digit_char d \<noteq> c" for c using n by metis
  then show ?thesis using assms by auto
qed

lemma show_nat_plain:
  "base = 10 \<or> base = 16 \<Longrightarrow> {CHR ''|'', CHR '':'', CHR ''+'', CHR ''-'', CHR ''.''} \<inter> set (show_nat base n) = {}"
proof -
  assume base: "base = 10 \<or> base = 16"
  have "c \<notin> {CHR ''|'', CHR '':'', CHR ''+'', CHR ''-'', CHR ''.''}" if c: "c \<in> set (show_nat base n)" for c
  proof -
    obtain d where "d < base" "c = digit_char d" using show_nat_digits [OF _ _ c] base by auto
    then show ?thesis using base digit_char_plain [of d] by auto
  qed
  then show ?thesis by blast
qed

lemma parse_uint_show:
  assumes "base = 10 \<or> base = 16"
  shows "parse_uint base largest (show_nat base n) = (if n \<le> largest then Some n else None)"
proof -
  obtain c cs where s: "show_nat base n = c # cs" by (cases "show_nat base n") auto
  then have "c \<noteq> CHR ''+''" using show_nat_plain [OF assms, of n] by auto
  then show ?thesis using assms show_nat_value [of base n] s by (auto simp: parse_uint_def Let_def)
qed

section \<open>Doubles round trip\<close>

lemma show_nat_length: "0 < k \<Longrightarrow> n < 10 ^ k \<Longrightarrow> length (show_nat 10 n) \<le> k"
proof (induction k arbitrary: n)
  case (Suc k)
  show ?case
  proof (cases "n < 10")
    case False
    then have "0 < k" using Suc.prems by (cases k) simp_all
    moreover have "n div 10 < 10 ^ k" using Suc.prems by (simp add: less_mult_imp_div_less mult.commute)
    ultimately have "length (show_nat 10 (n div 10)) \<le> k" by (rule Suc.IH)
    then show ?thesis using False by (simp add: show_nat.simps [of 10 n])
  qed (simp add: show_nat.simps [of 10 n])
qed simp

lemma is_digit_show: "c \<in> set (show_nat 10 n) \<Longrightarrow> is_digit c"
  using show_nat_digits [of 10 c n] digit_val_char [of _ 10] by (auto simp: is_digit_def)

lemma digits_value_acc: "digits_value 10 s acc = map_option (\<lambda>v. acc * 10 ^ length s + v) (digits_value 10 s 0)"
proof (induction s arbitrary: acc)
  case (Cons c s)
  show ?case
  proof (cases "digit_val 10 c")
    case (Some d)
    then show ?thesis using Cons.IH [of "acc * 10 + d"] Cons.IH [of d] by (simp add: option.map_comp comp_def algebra_simps)
  qed simp
qed simp

lemma zero_pad_value: "digits_value 10 (zero_pad k s) acc = map_option (\<lambda>v. acc * 10 ^ length (zero_pad k s) + v) (digits_value 10 s 0)"
proof -
  have "digits_value 10 (replicate m (CHR ''0'')) 0 = Some 0" for m by (induction m) (simp_all add: digit_val_def)
  then have "digits_value 10 (zero_pad k s) 0 = digits_value 10 s 0" by (simp add: zero_pad_def digits_value_append)
  then show ?thesis using digits_value_acc [of "zero_pad k s" acc] by simp
qed

lemma parse_fixed_digits:
  assumes "ip \<noteq> []" and "\<forall>c \<in> set (ip @ fp). is_digit c" and "digits_value 10 (ip @ fp) 0 = Some n"
  shows "parse_decimal (ip @ CHR ''.'' # fp) = Some (of_nat n / 10 ^ length fp)"
proof -
  have dot: "\<not> is_digit (CHR ''.'')" by (simp add: is_digit_def digit_val_def)
  have ip: "takeWhile is_digit (ip @ CHR ''.'' # fp) = ip" "dropWhile is_digit (ip @ CHR ''.'' # fp) = CHR ''.'' # fp"
    using assms(2) dot by (simp_all add: takeWhile_append2 dropWhile_append2)
  have fp: "takeWhile is_digit fp = fp" "dropWhile is_digit fp = []" using assms(2) by (simp_all add: takeWhile_eq_all_conv dropWhile_eq_Nil_conv)
  have "pow10 (- int (length fp)) = 1 / 10 ^ length fp" by (simp add: pow10_def)
  then show ?thesis using assms(1,3) by (simp add: parse_decimal_def Let_def ip fp)
qed

text \<open>The multiple of \<open>10 ^ -k\<close> that is printed, as a count and as the double a reader gets.\<close>

definition fixed_count :: "nat \<Rightarrow> rat \<Rightarrow> nat" where
  "fixed_count k x = nat (round_half_even (\<bar>x\<bar> * 10 ^ k))"

definition fixed_value :: "nat \<Rightarrow> rat \<Rightarrow> rat" where
  "fixed_value k x = f64_round (of_nat (fixed_count k x) / 10 ^ k)"

lemma fixed_count_upper: "0 \<le> x \<Longrightarrow> of_nat (fixed_count k x) \<le> x * 10 ^ k + 1 / 2"
proof -
  assume x: "0 \<le> x"
  let ?r = "round_half_even (x * 10 ^ k)"
  have "of_int ?r \<le> x * 10 ^ k + 1 / 2" using round_half_even_error [of "x * 10 ^ k"] by linarith
  moreover have "0 \<le> x * 10 ^ k + 1 / 2" using x by (intro add_nonneg_nonneg mult_nonneg_nonneg) simp_all
  ultimately show ?thesis using x by (cases "0 \<le> ?r") (simp_all add: fixed_count_def)
qed

lemma fixed_text_value:
  assumes "0 < k"
  shows "digits_value 10 (show_nat 10 (n div 10 ^ k) @ zero_pad k (show_nat 10 (n mod 10 ^ k))) 0 = Some n"
    and "length (zero_pad k (show_nat 10 (n mod 10 ^ k))) = k"
proof -
  have "length (show_nat 10 (n mod 10 ^ k)) \<le> k" using assms by (intro show_nat_length) simp_all
  then show len: "length (zero_pad k (show_nat 10 (n mod 10 ^ k))) = k" by (simp add: zero_pad_def)
  show "digits_value 10 (show_nat 10 (n div 10 ^ k) @ zero_pad k (show_nat 10 (n mod 10 ^ k))) 0 = Some n"
    by (simp add: digits_value_append show_nat_value zero_pad_value len div_mult_mod_eq)
qed

lemma zero_pad_digit: "c \<in> set (zero_pad k (show_nat 10 n)) \<Longrightarrow> is_digit c"
  using is_digit_show [of c n] by (auto simp: zero_pad_def is_digit_def digit_val_def split: if_splits)

lemma to_double_fixed:
  assumes "k \<le> 6" and "of_nat n / 10 ^ k \<le> (2 :: rat) ^ 53"
  shows "to_double False (of_nat n / 10 ^ k) = Parsed (f64_round (of_nat n / 10 ^ k))"
proof (cases "n = 0")
  case True
  then show ?thesis by (simp add: to_double_def f64_round_def)
next
  case False
  have "(10 :: rat) ^ k \<le> 10 ^ 6" using assms(1) by (intro power_increasing) simp_all
  also have "\<dots> \<le> 2 ^ 20" by simp
  also have "\<dots> \<le> 2 ^ 1022" by (intro power_increasing) simp_all
  finally have "(10 :: rat) ^ k \<le> 2 ^ 1022" .
  moreover have "1 / (10 :: rat) ^ k \<le> of_nat n / 10 ^ k" using False by (intro divide_right_mono) simp_all
  ultimately have "1 / 2 ^ 1022 \<le> (of_nat n / 10 ^ k :: rat)" by (intro order_trans [OF frac_le [of "1 :: rat" 1 "10 ^ k" "2 ^ 1022"]]) simp_all
  moreover have "f64_round (of_nat n / 10 ^ k) \<le> 2 ^ 53"
    using ieee.rnd_le [OF assms(2)] representable_of_int [of "2 ^ 53"] by simp
  moreover have "(2 :: rat) ^ 53 < 2 ^ 1024" by (intro power_strict_increasing) simp_all
  ultimately show ?thesis using False by (simp add: to_double_def)
qed

lemma show_fixed_nonneg:
  "0 \<le> x \<Longrightarrow> show_fixed k x = show_nat 10 (fixed_count k x div 10 ^ k) @ CHR ''.'' # zero_pad k (show_nat 10 (fixed_count k x mod 10 ^ k))"
  by (simp add: show_fixed_def fixed_count_def Let_def)

text \<open>Reading digits with a point.\<close>

lemma parse_f64_digits:
  assumes "ip \<noteq> []" and "\<forall>c \<in> set (ip @ fp). is_digit c" and "digits_value 10 (ip @ fp) 0 = Some n" and "length fp \<le> 6"
    and "of_nat n / 10 ^ length fp \<le> (2 :: rat) ^ 53"
  shows "parse_f64 (ip @ CHR ''.'' # fp) = Parsed (f64_round (of_nat n / 10 ^ length fp))"
proof -
  have "is_digit (hd ip)" using assms(1,2) by simp
  then have "hd ip \<noteq> CHR ''-''" "hd ip \<noteq> CHR ''+''" by (auto simp: is_digit_def digit_val_def)
  then show ?thesis using assms(1) parse_fixed_digits [OF assms(1-3)] to_double_fixed [OF assms(4,5)] by (simp add: parse_f64_def)
qed

lemma parse_show_fixed:
  assumes "0 \<le> x" and "x \<le> 2 ^ 32" and "0 < k" and "k \<le> 6"
  shows "parse_f64 (show_fixed k x) = Parsed (fixed_value k x)"
proof -
  let ?n = "fixed_count k x"
  have ten: "(1 :: rat) \<le> 10 ^ k" by simp
  have "x * 10 ^ k + 1 / 2 \<le> (x + 1) * 10 ^ k" using ten by (simp only: distrib_right mult_1_left add_le_cancel_left)
  then have "of_nat ?n \<le> (x + 1) * 10 ^ k" using fixed_count_upper [OF assms(1), of k] by linarith
  then have "of_nat ?n / 10 ^ k \<le> x + 1" by (simp add: pos_divide_le_eq)
  then have "of_nat ?n / 10 ^ k \<le> (2 :: rat) ^ 53" using assms(2) by simp
  moreover have "\<forall>c \<in> set (show_nat 10 (?n div 10 ^ k) @ zero_pad k (show_nat 10 (?n mod 10 ^ k))). is_digit c"
    using is_digit_show zero_pad_digit by auto
  ultimately show ?thesis
    using parse_f64_digits [OF show_nat_Nil _ fixed_text_value(1) [OF assms(3)]] fixed_text_value(2) [OF assms(3)] assms(1,4)
    by (simp add: show_fixed_nonneg fixed_value_def)
qed

lemma round_half_even_near: "\<bar>y - of_int n\<bar> < 1 / 2 \<Longrightarrow> round_half_even y = n"
proof -
  assume near: "\<bar>y - of_int n\<bar> < 1 / 2"
  have "\<bar>of_int (round_half_even y) - of_int n\<bar> < (1 :: rat)" using near round_half_even_error [of y] by linarith
  then show ?thesis by linarith
qed

text \<open>Four decimals of a value below \<open>2 ^ 32\<close> are printed again as they were read.\<close>

lemma show_fixed_again:
  assumes "0 \<le> x" and "x \<le> 2 ^ 32"
  shows "show_fixed 4 (fixed_value 4 x) = show_fixed 4 x" and "0 \<le> fixed_value 4 x"
proof -
  let ?n = "fixed_count 4 x"
  let ?y = "of_nat ?n / 10 ^ 4 :: rat"
  show nonneg: "0 \<le> fixed_value 4 x" by (simp add: fixed_value_def f64_round_nonneg)
  have n: "of_nat ?n \<le> x * 10 ^ 4 + 1 / 2" using fixed_count_upper [OF assms(1)] .
  have "\<bar>f64_round ?y - ?y\<bar> \<le> ?y / 2 ^ 53" using f64_round_error [of ?y] by simp
  also have "\<dots> \<le> 1 / 2 ^ 20" using n assms(2) by simp
  finally have "\<bar>f64_round ?y - ?y\<bar> * 10 ^ 4 < 1 / 2" by simp
  then have "\<bar>f64_round ?y * 10 ^ 4 - of_int (int ?n)\<bar> < 1 / 2" by (simp add: abs_if split: if_splits)
  from round_half_even_near [OF this] have "fixed_count 4 (fixed_value 4 x) = ?n"
    using nonneg by (simp add: fixed_count_def [of 4 "fixed_value 4 x"]) (simp add: fixed_value_def)
  then show "show_fixed 4 (fixed_value 4 x) = show_fixed 4 x" using nonneg assms(1) by (simp add: show_fixed_nonneg)
qed

end
