(* ===== verification/Route_Score.thy ===== *)
theory Route_Score
  imports F64
begin

text \<open>
  Path scoring of the adaptive router (\<^verbatim>\<open>gtp-route/src/lib.rs\<close> and \<^verbatim>\<open>score.rs\<close>): the measured
  axes of a path, the continuous score over the axes that are present, the sample-count confidence
  and the evidence freshness. All arithmetic is the rounded double arithmetic of \<open>F64\<close>; weights and
  saturation points are rounded literals.

  The lemmas show that scores, confidence and freshness stay in \<open>[0, 1]\<close> in spite of rounding, and
  that a score never improves when a measurement gets worse.
\<close>

section \<open>Measurements\<close>

record path_stats =
  ps_path_id :: u32
  ps_fwd_owd_var_us :: "u32 option"
  ps_fwd_jitter_us :: "u32 option"
  ps_rev_owd_var_us :: "u32 option"
  ps_rev_jitter_us :: "u32 option"
  ps_rtt_us :: "u32 option"
  ps_sample_count :: u32
  ps_fwd_age_us :: "u64 option"
  ps_rev_age_us :: "u64 option"
  ps_loss_rate :: "rat option"

definition PathStats_default :: path_stats where
  "PathStats_default = \<lparr> ps_path_id = 0, ps_fwd_owd_var_us = None, ps_fwd_jitter_us = None, ps_rev_owd_var_us = None,
     ps_rev_jitter_us = None, ps_rtt_us = None, ps_sample_count = 0, ps_fwd_age_us = None, ps_rev_age_us = None,
     ps_loss_rate = None \<rparr>"

definition PathStats_full :: "u32 \<Rightarrow> u32 \<Rightarrow> u32 \<Rightarrow> u32 \<Rightarrow> u32 \<Rightarrow> u32 \<Rightarrow> u32 \<Rightarrow> u64 \<Rightarrow> u64 \<Rightarrow> path_stats" where
  "PathStats_full pid fv fj rv rj rtt n fa ra = \<lparr> ps_path_id = pid, ps_fwd_owd_var_us = Some fv, ps_fwd_jitter_us = Some fj,
     ps_rev_owd_var_us = Some rv, ps_rev_jitter_us = Some rj, ps_rtt_us = Some rtt, ps_sample_count = n,
     ps_fwd_age_us = Some fa, ps_rev_age_us = Some ra, ps_loss_rate = None \<rparr>"

definition path_age :: "path_stats \<Rightarrow> u64 option" where
  "path_age s = (case (ps_fwd_age_us s, ps_rev_age_us s) of
     (Some f, Some r) \<Rightarrow> Some (max f r)
   | (Some f, None) \<Rightarrow> Some f
   | (None, Some f) \<Rightarrow> Some f
   | (None, None) \<Rightarrow> None)"

section \<open>Constants\<close>

definition OWD_VAR_SATURATION_US :: u32 where
  "OWD_VAR_SATURATION_US = 50000"

definition JITTER_SATURATION_US :: u32 where
  "JITTER_SATURATION_US = 20000"

definition RTT_SATURATION_US :: u32 where
  "RTT_SATURATION_US = 300000"

definition VAR_AXIS_WEIGHT :: rat where
  "VAR_AXIS_WEIGHT = f64_round (6 / 10)"

definition PATH_WEIGHTS :: "rat \<times> rat \<times> rat" where
  "PATH_WEIGHTS = (f64_round (30 / 100), f64_round (30 / 100), 1 / 4)"

definition LOSS_SATURATION :: rat where
  "LOSS_SATURATION = f64_round (5 / 100)"

definition LOSS_AXIS_WEIGHT :: rat where
  "LOSS_AXIS_WEIGHT = f64_round (15 / 100)"

definition CONFIDENCE_FULL_SAMPLES :: rat where
  "CONFIDENCE_FULL_SAMPLES = 30"

definition CONFIDENCE_FLOOR :: rat where
  "CONFIDENCE_FLOOR = 1 / 2"

definition FRESHNESS_GRACE_US :: u64 where
  "FRESHNESS_GRACE_US = 1000000"

definition FRESHNESS_SATURATION_US :: u64 where
  "FRESHNESS_SATURATION_US = 5000000"

section \<open>Scoring\<close>

definition normalize_lower_better :: "u32 \<Rightarrow> u32 \<Rightarrow> rat" where
  "normalize_lower_better val saturation =
     (if saturation = 0 then 0 else fsub 1 (min (fdiv (of_u64 (unat val)) (of_u64 (unat saturation))) 1))"

definition direction_score :: "u32 option \<Rightarrow> u32 option \<Rightarrow> rat option" where
  "direction_score var_us jitter_us = (case (var_us, jitter_us) of
     (Some v, Some j) \<Rightarrow> Some (fadd (fmul VAR_AXIS_WEIGHT (normalize_lower_better v OWD_VAR_SATURATION_US))
                                 (fmul (fsub 1 VAR_AXIS_WEIGHT) (normalize_lower_better j JITTER_SATURATION_US)))
   | (Some v, None) \<Rightarrow> Some (normalize_lower_better v OWD_VAR_SATURATION_US)
   | (None, Some j) \<Rightarrow> Some (normalize_lower_better j JITTER_SATURATION_US)
   | (None, None) \<Rightarrow> None)"

text \<open>One \<^verbatim>\<open>if let Some(s) = axis { weight_sum += w; acc += w * s; }\<close> of the accumulation.\<close>

definition add_axis :: "rat \<Rightarrow> rat option \<Rightarrow> rat \<times> rat \<Rightarrow> rat \<times> rat" where
  "add_axis w s wa = (case s of None \<Rightarrow> wa | Some v \<Rightarrow> (fadd (fst wa) w, fadd (snd wa) (fmul w v)))"

definition loss_score :: "rat \<Rightarrow> rat" where
  "loss_score lr = fsub 1 (min (fdiv lr LOSS_SATURATION) 1)"

definition score :: "path_stats \<Rightarrow> rat option" where
  "score s =
     (let fwd = direction_score (ps_fwd_owd_var_us s) (ps_fwd_jitter_us s);
          rev = direction_score (ps_rev_owd_var_us s) (ps_rev_jitter_us s);
          rtt = map_option (\<lambda>r. normalize_lower_better r RTT_SATURATION_US) (ps_rtt_us s);
          (w_fwd, w_rev, w_rtt) = PATH_WEIGHTS;
          wa1 = add_axis (fmul w_fwd (fsub 1 LOSS_AXIS_WEIGHT)) fwd (0, 0);
          wa2 = add_axis (fmul w_rev (fsub 1 LOSS_AXIS_WEIGHT)) rev wa1;
          wa3 = add_axis (fmul w_rtt (fsub 1 LOSS_AXIS_WEIGHT)) rtt wa2;
          (weight_sum, acc) = add_axis LOSS_AXIS_WEIGHT (map_option loss_score (ps_loss_rate s)) wa3
      in if weight_sum = 0 then None else Some (fdiv acc weight_sum))"

definition confidence :: "u32 \<Rightarrow> rat" where
  "confidence sample_count = min (fdiv (of_u64 (unat sample_count)) CONFIDENCE_FULL_SAMPLES) 1"

definition freshness :: "u64 option \<Rightarrow> rat" where
  "freshness age_us = (case age_us of
     None \<Rightarrow> 1
   | Some age \<Rightarrow>
       if age \<le> FRESHNESS_GRACE_US then 1
       else let span = of_u64 (unat (FRESHNESS_SATURATION_US - FRESHNESS_GRACE_US))
            in max (fdiv (fsub (of_u64 (unat FRESHNESS_SATURATION_US)) (of_u64 (unat age))) span) 0)"

section \<open>Bounds\<close>

lemma min_ratio_bounds: "0 \<le> x \<Longrightarrow> 0 \<le> fsub 1 (min x 1) \<and> fsub 1 (min x 1) \<le> 1"
  unfolding fsub_def by (auto intro!: f64_round_nonneg ieee.rnd_le simp: min_def)

lemma normalize_bounds: "0 \<le> normalize_lower_better v sat" "normalize_lower_better v sat \<le> 1"
  using min_ratio_bounds [of "fdiv (of_u64 (unat v)) (of_u64 (unat sat))"]
  by (simp_all add: normalize_lower_better_def fdiv_nonneg)

lemma normalize_antimono: "v \<le> v' \<Longrightarrow> normalize_lower_better v' sat \<le> normalize_lower_better v sat"
proof (cases "sat = 0")
  case False
  assume "v \<le> v'"
  then have le: "of_u64 (unat v) \<le> of_u64 (unat v')" by (simp add: of_u64_mono word_le_nat_alt)
  have "0 < of_u64 (unat sat)" using False by (intro of_u64_pos) (simp add: unat_gt_0)
  then have "fdiv (of_u64 (unat v)) (of_u64 (unat sat)) \<le> fdiv (of_u64 (unat v')) (of_u64 (unat sat))"
    using le by (intro fdiv_mono) simp_all
  then show ?thesis
    using False by (auto simp: normalize_lower_better_def intro!: fsub_mono)
qed (simp add: normalize_lower_better_def)

lemma var_weight: "1 / 2 \<le> VAR_AXIS_WEIGHT" "VAR_AXIS_WEIGHT \<le> 1" "representable VAR_AXIS_WEIGHT"
proof -
  have "representable (1 / 2)"
    unfolding representable_def by (intro exI [of _ 1] exI [of _ "-1"]) (simp add: pow2_def)
  then show "1 / 2 \<le> VAR_AXIS_WEIGHT" unfolding VAR_AXIS_WEIGHT_def by (rule ieee.rnd_ge [rotated]) simp
  show "VAR_AXIS_WEIGHT \<le> 1" unfolding VAR_AXIS_WEIGHT_def by (rule ieee.rnd_le) simp_all
  show "representable VAR_AXIS_WEIGHT" by (simp add: VAR_AXIS_WEIGHT_def)
qed

lemma var_complement: "fsub 1 VAR_AXIS_WEIGHT = 1 - VAR_AXIS_WEIGHT"
  unfolding fsub_def by (intro ieee.rnd_rep representable_complement var_weight)

lemma direction_score_bounds: "direction_score v j = Some x \<Longrightarrow> 0 \<le> x \<and> x \<le> 1"
proof -
  have w: "0 \<le> VAR_AXIS_WEIGHT" using var_weight by linarith
  have c: "0 \<le> 1 - VAR_AXIS_WEIGHT" "representable (1 - VAR_AXIS_WEIGHT)"
    using var_weight by (simp_all add: representable_complement)
  have "fadd (fmul VAR_AXIS_WEIGHT a) (fmul (fsub 1 VAR_AXIS_WEIGHT) b) \<le> 1" if "a \<le> 1" "b \<le> 1" for a b
  proof -
    have "fmul VAR_AXIS_WEIGHT a + fmul (fsub 1 VAR_AXIS_WEIGHT) b \<le> VAR_AXIS_WEIGHT + (1 - VAR_AXIS_WEIGHT)"
      unfolding var_complement using that w c var_weight by (intro add_mono fmul_le_left)
    then show ?thesis unfolding fadd_def by (intro ieee.rnd_le) simp_all
  qed
  moreover have "0 \<le> fadd (fmul VAR_AXIS_WEIGHT a) (fmul (fsub 1 VAR_AXIS_WEIGHT) b)" if "0 \<le> a" "0 \<le> b" for a b
    unfolding var_complement using that w c by (intro fadd_nonneg fmul_nonneg)
  ultimately show "direction_score v j = Some x \<Longrightarrow> 0 \<le> x \<and> x \<le> 1"
    by (auto simp: direction_score_def normalize_bounds split: option.splits)
qed

text \<open>The accumulated sum never exceeds the accumulated weight.\<close>

definition axes_ok :: "rat \<times> rat \<Rightarrow> bool" where
  "axes_ok wa \<longleftrightarrow> 0 \<le> snd wa \<and> snd wa \<le> fst wa"

lemma axes_ok_add:
  assumes "axes_ok wa" and "0 \<le> w" and "representable w" and "\<And>x. s = Some x \<Longrightarrow> 0 \<le> x \<and> x \<le> 1"
  shows "axes_ok (add_axis w s wa)"
proof (cases s)
  case None
  then show ?thesis using assms(1) by (simp add: add_axis_def)
next
  case (Some x)
  then have "0 \<le> fmul w x" "fmul w x \<le> w" using assms(2-4) by (simp_all add: fmul_nonneg fmul_le_left)
  then show ?thesis
    using assms(1) Some by (auto simp: axes_ok_def add_axis_def intro: fadd_nonneg fadd_mono)
qed

lemma loss_weight: "0 \<le> LOSS_AXIS_WEIGHT" "LOSS_AXIS_WEIGHT \<le> 1" "representable LOSS_AXIS_WEIGHT" "0 \<le> fsub 1 LOSS_AXIS_WEIGHT"
proof -
  show l: "0 \<le> LOSS_AXIS_WEIGHT" "LOSS_AXIS_WEIGHT \<le> 1" "representable LOSS_AXIS_WEIGHT"
    by (simp_all add: LOSS_AXIS_WEIGHT_def f64_round_nonneg ieee.rnd_le)
  show "0 \<le> fsub 1 LOSS_AXIS_WEIGHT" unfolding fsub_def using l by (intro f64_round_nonneg) simp
qed

lemma loss_score_bounds: "0 \<le> lr \<Longrightarrow> 0 \<le> loss_score lr \<and> loss_score lr \<le> 1"
  unfolding loss_score_def by (intro min_ratio_bounds fdiv_nonneg) (simp_all add: LOSS_SATURATION_def f64_round_nonneg)

lemma axis_weight:
  "0 \<le> fmul (f64_round (30 / 100)) (fsub 1 LOSS_AXIS_WEIGHT)" "0 \<le> fmul (1 / 4) (fsub 1 LOSS_AXIS_WEIGHT)"
  by (intro fmul_nonneg loss_weight; simp add: f64_round_nonneg)+

lemma score_bounds:
  assumes "score s = Some x" and "\<And>lr. ps_loss_rate s = Some lr \<Longrightarrow> 0 \<le> lr"
  shows "0 \<le> x \<and> x \<le> 1"
proof -
  have "axes_ok (add_axis LOSS_AXIS_WEIGHT (map_option loss_score (ps_loss_rate s))
      (add_axis (fmul (1 / 4) (fsub 1 LOSS_AXIS_WEIGHT)) (map_option (\<lambda>r. normalize_lower_better r RTT_SATURATION_US) (ps_rtt_us s))
        (add_axis (fmul (f64_round (30 / 100)) (fsub 1 LOSS_AXIS_WEIGHT)) (direction_score (ps_rev_owd_var_us s) (ps_rev_jitter_us s))
          (add_axis (fmul (f64_round (30 / 100)) (fsub 1 LOSS_AXIS_WEIGHT)) (direction_score (ps_fwd_owd_var_us s) (ps_fwd_jitter_us s)) (0, 0)))))"
    (is "axes_ok ?wa")
    using assms(2)
    by (intro axes_ok_add loss_weight axis_weight)
       (auto simp: axes_ok_def normalize_bounds loss_score_bounds dest: direction_score_bounds)
  moreover have "x = fdiv (snd ?wa) (fst ?wa)"
    using assms(1) by (auto simp: score_def PATH_WEIGHTS_def Let_def split: prod.splits if_splits)
  ultimately show ?thesis by (auto simp: axes_ok_def intro!: fdiv_nonneg fdiv_le_one)
qed

lemma confidence_bounds: "0 \<le> confidence n" "confidence n \<le> 1"
  by (simp_all add: confidence_def fdiv_nonneg CONFIDENCE_FULL_SAMPLES_def)

lemma freshness_aged:
  "\<not> age \<le> FRESHNESS_GRACE_US \<Longrightarrow> freshness (Some age) = max (fdiv (fsub 5000000 (of_u64 (unat age))) 4000000) 0"
  by (simp add: freshness_def Let_def FRESHNESS_SATURATION_US_def FRESHNESS_GRACE_US_def of_u64_exact)

lemma fdiv_4e6_mono: "x \<le> y \<Longrightarrow> fdiv x 4000000 \<le> fdiv y 4000000"
  unfolding fdiv_def by (intro ieee.rnd_mono divide_right_mono) simp_all

lemma freshness_bounds: "0 \<le> freshness a" "freshness a \<le> 1"
proof -
  have "freshness (Some age) \<le> 1" if old: "\<not> age \<le> FRESHNESS_GRACE_US" for age
  proof -
    have "1000000 \<le> unat age" using old by (simp add: FRESHNESS_GRACE_US_def word_le_nat_alt)
    then have "1000000 \<le> of_u64 (unat age)" using of_u64_mono [of 1000000 "unat age"] by (simp add: of_u64_exact)
    then have "fsub 5000000 (of_u64 (unat age)) \<le> fsub 5000000 1000000" by (intro fsub_mono) simp_all
    also have "\<dots> = 4000000" by (simp add: fsub_def ieee.rnd_rep representable_numeral)
    finally have "fdiv (fsub 5000000 (of_u64 (unat age))) 4000000 \<le> fdiv 4000000 4000000" by (rule fdiv_4e6_mono)
    then show ?thesis using old by (simp add: freshness_aged fdiv_def ieee.rnd_rep)
  qed
  then show "freshness a \<le> 1" by (cases a) (auto simp: freshness_def)
  show "0 \<le> freshness a" by (auto simp: freshness_def Let_def split: option.split)
qed

lemma freshness_antimono: "age \<le> age' \<Longrightarrow> freshness (Some age') \<le> freshness (Some age)"
proof (cases "age \<le> FRESHNESS_GRACE_US")
  case True
  then show ?thesis using freshness_bounds(2) [of "Some age'"] by (simp add: freshness_def)
next
  case False
  assume le: "age \<le> age'"
  then have "\<not> age' \<le> FRESHNESS_GRACE_US" using False by simp
  moreover have "fdiv (fsub 5000000 (of_u64 (unat age'))) 4000000 \<le> fdiv (fsub 5000000 (of_u64 (unat age))) 4000000"
    using le by (intro fdiv_4e6_mono fsub_mono of_u64_mono) (simp_all add: word_le_nat_alt)
  ultimately show ?thesis using False by (auto simp: freshness_aged)
qed

section \<open>Monotonicity\<close>

text \<open>\<open>worse m m'\<close>: the same axes are measured and no measurement of the second is better.\<close>

fun opt_le :: "('a::ord) option \<Rightarrow> 'a option \<Rightarrow> bool" where
  "opt_le None None = True"
| "opt_le (Some a) (Some b) = (a \<le> b)"
| "opt_le _ _ = False"

definition worse :: "path_stats \<Rightarrow> path_stats \<Rightarrow> bool" where
  "worse m m' \<longleftrightarrow> opt_le (ps_fwd_owd_var_us m) (ps_fwd_owd_var_us m') \<and> opt_le (ps_fwd_jitter_us m) (ps_fwd_jitter_us m') \<and>
     opt_le (ps_rev_owd_var_us m) (ps_rev_owd_var_us m') \<and> opt_le (ps_rev_jitter_us m) (ps_rev_jitter_us m') \<and>
     opt_le (ps_rtt_us m) (ps_rtt_us m') \<and> opt_le (ps_loss_rate m) (ps_loss_rate m')"

lemma opt_le_cases:
  assumes "opt_le a b"
  obtains "a = None" "b = None" | x y where "a = Some x" "b = Some y" "x \<le> y"
  using assms by (cases a; cases b) auto

lemma direction_score_antimono:
  assumes "opt_le v v'" and "opt_le j j'"
  shows "opt_le (direction_score v' j') (direction_score v j)"
proof -
  have w: "0 \<le> VAR_AXIS_WEIGHT" "0 \<le> 1 - VAR_AXIS_WEIGHT" using var_weight by simp_all
  have "opt_le (direction_score (Some b) (Some d)) (direction_score (Some a) (Some c))" if "a \<le> b" "c \<le> d" for a b c d
    using that w by (simp add: direction_score_def var_complement fadd_mono fmul_mono normalize_antimono normalize_bounds)
  then show ?thesis
    using assms by (cases v; cases v'; cases j; cases j') (simp_all add: direction_score_def normalize_antimono)
qed

text \<open>Accumulations over the same axes have the same weight and ordered sums.\<close>

definition sums_le :: "rat \<times> rat \<Rightarrow> rat \<times> rat \<Rightarrow> bool" where
  "sums_le wa wa' \<longleftrightarrow> fst wa = fst wa' \<and> snd wa \<le> snd wa' \<and> 0 \<le> fst wa"

lemma sums_le_add:
  assumes "sums_le wa wa'" and "0 \<le> w" and "opt_le s s'" and "\<And>x. s = Some x \<Longrightarrow> 0 \<le> x"
  shows "sums_le (add_axis w s wa) (add_axis w s' wa')"
  using assms(3)
proof (cases rule: opt_le_cases)
  case 1
  then show ?thesis using assms(1) by (simp add: add_axis_def)
next
  case (2 x y)
  then have "fmul w x \<le> fmul w y" using assms(2,4) by (intro fmul_mono) simp_all
  then show ?thesis using 2 assms(1,2) by (simp add: sums_le_def add_axis_def fadd_mono fadd_nonneg)
qed

lemma loss_score_antimono: "lr \<le> lr' \<Longrightarrow> loss_score lr' \<le> loss_score lr"
proof -
  assume "lr \<le> lr'"
  then have "fdiv lr LOSS_SATURATION \<le> fdiv lr' LOSS_SATURATION"
    unfolding fdiv_def by (intro ieee.rnd_mono divide_right_mono) (simp_all add: LOSS_SATURATION_def f64_round_nonneg)
  then show ?thesis unfolding loss_score_def by (intro fsub_mono) auto
qed

lemma score_antimono:
  assumes "worse m m'" and "\<And>lr. ps_loss_rate m = Some lr \<Longrightarrow> 0 \<le> lr"
  shows "opt_le (score m') (score m)"
proof -
  have axes: "opt_le (direction_score (ps_fwd_owd_var_us m') (ps_fwd_jitter_us m')) (direction_score (ps_fwd_owd_var_us m) (ps_fwd_jitter_us m))"
    "opt_le (direction_score (ps_rev_owd_var_us m') (ps_rev_jitter_us m')) (direction_score (ps_rev_owd_var_us m) (ps_rev_jitter_us m))"
    using assms(1) by (simp_all add: worse_def direction_score_antimono)
  have rtt: "opt_le (map_option (\<lambda>r. normalize_lower_better r RTT_SATURATION_US) (ps_rtt_us m'))
      (map_option (\<lambda>r. normalize_lower_better r RTT_SATURATION_US) (ps_rtt_us m))"
    using assms(1) unfolding worse_def by (cases "ps_rtt_us m"; cases "ps_rtt_us m'") (auto simp: normalize_antimono)
  have loss: "opt_le (map_option loss_score (ps_loss_rate m')) (map_option loss_score (ps_loss_rate m))"
    using assms(1) unfolding worse_def by (cases "ps_loss_rate m"; cases "ps_loss_rate m'") (auto simp: loss_score_antimono)
  have nonneg: "0 \<le> lr" if "ps_loss_rate m' = Some lr" for lr
    using that assms unfolding worse_def by (cases "ps_loss_rate m") (auto intro: order_trans)
  have "sums_le
      (add_axis LOSS_AXIS_WEIGHT (map_option loss_score (ps_loss_rate m'))
        (add_axis (fmul (1 / 4) (fsub 1 LOSS_AXIS_WEIGHT)) (map_option (\<lambda>r. normalize_lower_better r RTT_SATURATION_US) (ps_rtt_us m'))
          (add_axis (fmul (f64_round (30 / 100)) (fsub 1 LOSS_AXIS_WEIGHT)) (direction_score (ps_rev_owd_var_us m') (ps_rev_jitter_us m'))
            (add_axis (fmul (f64_round (30 / 100)) (fsub 1 LOSS_AXIS_WEIGHT)) (direction_score (ps_fwd_owd_var_us m') (ps_fwd_jitter_us m')) (0, 0)))))
      (add_axis LOSS_AXIS_WEIGHT (map_option loss_score (ps_loss_rate m))
        (add_axis (fmul (1 / 4) (fsub 1 LOSS_AXIS_WEIGHT)) (map_option (\<lambda>r. normalize_lower_better r RTT_SATURATION_US) (ps_rtt_us m))
          (add_axis (fmul (f64_round (30 / 100)) (fsub 1 LOSS_AXIS_WEIGHT)) (direction_score (ps_rev_owd_var_us m) (ps_rev_jitter_us m))
            (add_axis (fmul (f64_round (30 / 100)) (fsub 1 LOSS_AXIS_WEIGHT)) (direction_score (ps_fwd_owd_var_us m) (ps_fwd_jitter_us m)) (0, 0)))))"
    (is "sums_le ?wa' ?wa")
    using nonneg
    by (intro sums_le_add loss loss_weight rtt axes axis_weight)
       (auto simp: sums_le_def normalize_bounds loss_score_bounds dest: direction_score_bounds)
  moreover have "score m' = (if fst ?wa' = 0 then None else Some (fdiv (snd ?wa') (fst ?wa')))"
    "score m = (if fst ?wa = 0 then None else Some (fdiv (snd ?wa) (fst ?wa)))"
    by (simp_all add: score_def PATH_WEIGHTS_def Let_def split: prod.splits)
  ultimately show ?thesis
    by (auto simp: sums_le_def fdiv_def intro!: ieee.rnd_mono divide_right_mono)
qed

section \<open>Properties\<close>

text \<open>
  Path scores are bounded and monotone. With loss rates that are rates (not negative), the score
  of every path and its confidence and freshness factors lie in \<open>[0, 1]\<close> after rounding; of two
  paths measured on the same axes, the one with no better measurement never scores higher; older
  evidence is never fresher; and a path with no measured axis has no score.
\<close>

theorem score_bounded_and_monotone:
  assumes "\<forall>lr. ps_loss_rate m = Some lr \<longrightarrow> 0 \<le> lr" and "worse m m'" and "age \<le> age'"
  shows "(\<forall>x. score m = Some x \<longrightarrow> 0 \<le> x \<and> x \<le> 1) \<and> opt_le (score m') (score m) \<and>
    0 \<le> confidence n \<and> confidence n \<le> 1 \<and> 0 \<le> freshness a \<and> freshness a \<le> 1 \<and>
    freshness (Some age') \<le> freshness (Some age) \<and> score PathStats_default = None"
proof -
  have "score PathStats_default = None"
    by (simp add: score_def PathStats_default_def direction_score_def add_axis_def PATH_WEIGHTS_def)
  then show ?thesis
    using score_bounds [of m] score_antimono [OF assms(2)] assms(1) confidence_bounds freshness_bounds freshness_antimono [OF assms(3)]
    by blast
qed

theorem score_bounded_and_monotone_witness:
  "opt_le (score (PathStats_full 1 9000 300 1000 300 40000 60 0 0)) (score (PathStats_full 2 1000 300 1000 300 30000 60 0 0))"
proof -
  have "\<forall>lr. ps_loss_rate (PathStats_full 2 1000 300 1000 300 30000 60 0 0) = Some lr \<longrightarrow> 0 \<le> lr"
    "worse (PathStats_full 2 1000 300 1000 300 30000 60 0 0) (PathStats_full 1 9000 300 1000 300 40000 60 0 0)"
    by (simp_all add: PathStats_full_def worse_def)
  from score_bounded_and_monotone [OF this, of 1 2] show ?thesis by simp
qed

end
