(* ===== verification/Route_Select.thy ===== *)
theory Route_Select
  imports Route_Score "HOL-Library.Product_Lexorder" "HOL-Library.Multiset"
begin

text \<open>
  Selection among candidate paths and the single-path health verdict
  (\<^verbatim>\<open>gtp-route/src/select.rs\<close>). \<open>rank\<close> sorts by effective score, then confidence, then the
  lower id; \<open>select\<close> applies the evidence gates to the first of the ranking. Indexing of
  \<^verbatim>\<open>usable[1]\<close> is a checked access, so that the absence of a panic is a theorem.

  The lemmas show that the selector is total, that it declares a winner only on enough fresh
  evidence, and that the order in which the candidates are listed does not matter.
\<close>

section \<open>Reasons\<close>

datatype selection_reason = NoCandidates | InsufficientData | ConfidenceFloorHold | StaleEvidenceHold
  | SingleCandidate | ClearWinner | TieBreakLowerId

fun SelectionReason_code :: "selection_reason \<Rightarrow> string" where
  "SelectionReason_code NoCandidates = ''NO_CANDIDATES''"
| "SelectionReason_code InsufficientData = ''INSUFFICIENT_DATA''"
| "SelectionReason_code ConfidenceFloorHold = ''CONFIDENCE_FLOOR_HOLD''"
| "SelectionReason_code StaleEvidenceHold = ''STALE_EVIDENCE_HOLD''"
| "SelectionReason_code SingleCandidate = ''SINGLE_CANDIDATE''"
| "SelectionReason_code ClearWinner = ''CLEAR_WINNER''"
| "SelectionReason_code TieBreakLowerId = ''TIE_BREAK_LOWER_ID''"

definition SelectionReason_from_code :: "string \<Rightarrow> selection_reason option" where
  "SelectionReason_from_code s =
     (if s = ''NO_CANDIDATES'' then Some NoCandidates
      else if s = ''INSUFFICIENT_DATA'' then Some InsufficientData
      else if s = ''CONFIDENCE_FLOOR_HOLD'' then Some ConfidenceFloorHold
      else if s = ''STALE_EVIDENCE_HOLD'' then Some StaleEvidenceHold
      else if s = ''SINGLE_CANDIDATE'' then Some SingleCandidate
      else if s = ''CLEAR_WINNER'' then Some ClearWinner
      else if s = ''TIE_BREAK_LOWER_ID'' then Some TieBreakLowerId
      else None)"

lemma SelectionReason_code_inverse [simp]: "SelectionReason_from_code (SelectionReason_code r) = Some r"
  by (cases r) (simp_all add: SelectionReason_from_code_def)

lemma SelectionReason_from_code_inverse: "SelectionReason_from_code s = Some r \<Longrightarrow> SelectionReason_code r = s"
  by (auto simp: SelectionReason_from_code_def split: if_splits)

section \<open>Ranking\<close>

record scored_candidate =
  sc_path_id :: u32
  sc_score :: "rat option"
  sc_confidence :: rat
  sc_freshness :: rat
  sc_age_us :: "u64 option"
  sc_effective :: "rat option"

record selection =
  sel_chosen :: "u32 option"
  sel_reason :: selection_reason
  sel_runner_up :: "u32 option"
  sel_scored :: "scored_candidate list"

definition CLEAR_WINNER_MARGIN :: rat where
  "CLEAR_WINNER_MARGIN = f64_round (5 / 100)"

definition F64_MIN :: rat where
  "F64_MIN = - ((2 ^ 53 - 1) * 2 ^ 971)"

definition scored_of :: "path_stats \<Rightarrow> scored_candidate" where
  "scored_of c = \<lparr> sc_path_id = ps_path_id c, sc_score = score c, sc_confidence = confidence (ps_sample_count c),
     sc_freshness = freshness (path_age c), sc_age_us = path_age c,
     sc_effective = map_option (\<lambda>v. fmul (fmul v (confidence (ps_sample_count c))) (freshness (path_age c))) (score c) \<rparr>"

text \<open>
  The comparator of \<^verbatim>\<open>sort_by\<close> compares the pairs (effective or \<^verbatim>\<open>f64::MIN\<close>, confidence)
  in descending lexicographic order and then the ids in ascending order: the ascending order of the
  key below. \<^verbatim>\<open>sort_by\<close> is stable, as is \<^const>\<open>sort_key\<close>.
\<close>

definition rank_key :: "scored_candidate \<Rightarrow> rat \<times> rat \<times> u32" where
  "rank_key s = (- (case sc_effective s of None \<Rightarrow> F64_MIN | Some e \<Rightarrow> e), - sc_confidence s, sc_path_id s)"

definition rank :: "path_stats list \<Rightarrow> scored_candidate list" where
  "rank candidates = sort_key rank_key (map scored_of candidates)"

definition selection_margin :: "rat \<Rightarrow> rat \<Rightarrow> rat" where
  "selection_margin best_eff runner_eff = (if 0 < best_eff then fdiv (fsub best_eff runner_eff) best_eff else 0)"

definition select :: "path_stats list \<Rightarrow> selection result" where
  "select candidates =
     (let scored = rank candidates;
          selection = \<lparr> sel_chosen = None, sel_reason = NoCandidates, sel_runner_up = None, sel_scored = scored \<rparr>
      in if candidates = [] then Ok selection
         else obind (slice_index scored 0) (\<lambda>best.
           if sc_score best = None then Ok (selection\<lparr> sel_reason := InsufficientData \<rparr>)
           else if sc_confidence best < CONFIDENCE_FLOOR then Ok (selection\<lparr> sel_reason := ConfidenceFloorHold \<rparr>)
           else if sc_age_us best \<noteq> None \<and> sc_freshness best < CONFIDENCE_FLOOR
             then Ok (selection\<lparr> sel_reason := StaleEvidenceHold \<rparr>)
           else
             let usable = filter (\<lambda>s. sc_score s \<noteq> None) scored
             in if length usable = 1
                then Ok (selection\<lparr> sel_chosen := Some (sc_path_id best), sel_reason := SingleCandidate \<rparr>)
                else obind (slice_index usable 1) (\<lambda>runner.
                  let selection = selection\<lparr> sel_runner_up := Some (sc_path_id runner) \<rparr>;
                      best_eff = (case sc_effective best of None \<Rightarrow> 0 | Some e \<Rightarrow> e);
                      runner_eff = (case sc_effective runner of None \<Rightarrow> 0 | Some e \<Rightarrow> e)
                  in if CLEAR_WINNER_MARGIN \<le> selection_margin best_eff runner_eff
                     then Ok (selection\<lparr> sel_chosen := Some (sc_path_id best), sel_reason := ClearWinner \<rparr>)
                     else Ok (selection\<lparr> sel_chosen := Some (min (sc_path_id best) (sc_path_id runner)),
                                         sel_reason := TieBreakLowerId \<rparr>))))"

section \<open>Health\<close>

datatype health_verdict = Healthy | Degraded string | HealthInsufficientData

definition HEALTH_VAR_THRESHOLD_US :: u32 where
  "HEALTH_VAR_THRESHOLD_US = 25000"

definition HEALTH_JITTER_THRESHOLD_US :: u32 where
  "HEALTH_JITTER_THRESHOLD_US = 10000"

definition HEALTH_RTT_THRESHOLD_US :: u32 where
  "HEALTH_RTT_THRESHOLD_US = 150000"

definition health_consider :: "string \<Rightarrow> u32 option \<Rightarrow> u32 \<Rightarrow> (string \<times> rat) option \<Rightarrow> (string \<times> rat) option" where
  "health_consider name val threshold worst = (case val of
     None \<Rightarrow> worst
   | Some v \<Rightarrow>
       if threshold < v then
         (let ratio = fdiv (of_u64 (unat v)) (of_u64 (unat threshold))
          in if (case worst of None \<Rightarrow> True | Some (_, r) \<Rightarrow> r < ratio) then Some (name, ratio) else worst)
       else worst)"

definition health_worst :: "path_stats \<Rightarrow> (string \<times> rat) option" where
  "health_worst stats =
     health_consider ''rtt'' (ps_rtt_us stats) HEALTH_RTT_THRESHOLD_US
       (health_consider ''rev_jitter'' (ps_rev_jitter_us stats) HEALTH_JITTER_THRESHOLD_US
         (health_consider ''fwd_jitter'' (ps_fwd_jitter_us stats) HEALTH_JITTER_THRESHOLD_US
           (health_consider ''rev_owd_var'' (ps_rev_owd_var_us stats) HEALTH_VAR_THRESHOLD_US
             (health_consider ''fwd_owd_var'' (ps_fwd_owd_var_us stats) HEALTH_VAR_THRESHOLD_US None))))"

definition health :: "path_stats \<Rightarrow> health_verdict" where
  "health stats = (case health_worst stats of
     Some (axis, _) \<Rightarrow> Degraded axis
   | None \<Rightarrow>
       if ps_fwd_owd_var_us stats \<noteq> None \<or> ps_fwd_jitter_us stats \<noteq> None \<or> ps_rev_owd_var_us stats \<noteq> None \<or>
          ps_rev_jitter_us stats \<noteq> None \<or> ps_rtt_us stats \<noteq> None
       then Healthy else HealthInsufficientData)"

section \<open>Ranking lemmas\<close>

lemma rank_mset: "mset (rank cs) = image_mset scored_of (mset cs)"
  by (simp add: rank_def)

lemma rank_set: "set (rank cs) = scored_of ` set cs"
  by (simp add: rank_def)

lemma rank_Nil_iff [simp]: "rank cs = [] \<longleftrightarrow> cs = []"
  by (metis rank_set image_is_empty set_empty)

lemma rank_sorted: "sorted (map rank_key (rank cs))"
  by (simp add: rank_def)

lemma rank_best_key: "rank cs = best # rest \<Longrightarrow> s \<in> set (rank cs) \<Longrightarrow> rank_key best \<le> rank_key s"
  using rank_sorted [of cs] by auto

text \<open>The first of the ranking has the greatest effective score.\<close>

lemma rank_best_effective:
  assumes "rank cs = best # rest" and "s \<in> set (rank cs)" and "sc_effective best = Some b" and "sc_effective s = Some e"
  shows "e \<le> b"
  using rank_best_key [OF assms(1,2)] assms(3,4) by (auto simp: rank_key_def less_eq_prod_def)

lemma rank_permutation:
  assumes "mset cs = mset ds" and "distinct (map ps_path_id cs)"
  shows "rank cs = rank ds"
proof -
  have "inj_on rank_key (scored_of ` set cs)"
    using assms(2) by (auto simp: inj_on_def rank_key_def scored_of_def distinct_map)
  then have "sort_key rank_key (map scored_of cs) = sort_key rank_key (map scored_of ds)"
    using assms(1) by (intro sort_key_inj_key_eq) simp_all
  then show ?thesis by (simp add: rank_def)
qed

section \<open>Selection lemmas\<close>

text \<open>The gates a declared winner has passed.\<close>

definition well_evidenced :: "scored_candidate \<Rightarrow> bool" where
  "well_evidenced s \<longleftrightarrow> sc_score s \<noteq> None \<and> CONFIDENCE_FLOOR \<le> sc_confidence s \<and>
     (sc_age_us s = None \<or> CONFIDENCE_FLOOR \<le> sc_freshness s)"

lemma select_Nil: "select [] = Ok \<lparr> sel_chosen = None, sel_reason = NoCandidates, sel_runner_up = None, sel_scored = [] \<rparr>"
  by (simp add: select_def rank_def)

lemma select_held:
  assumes "rank cs = best # rest" and "\<not> well_evidenced best"
  shows "\<exists>r. select cs = Ok \<lparr> sel_chosen = None, sel_reason = r, sel_runner_up = None, sel_scored = rank cs \<rparr> \<and>
    r \<in> {InsufficientData, ConfidenceFloorHold, StaleEvidenceHold}"
proof -
  have "cs \<noteq> []" using assms(1) by (auto simp: rank_def)
  then show ?thesis
    using assms by (auto simp: select_def Let_def slice_index_def well_evidenced_def)
qed

lemma select_single:
  assumes "rank cs = best # rest" and "well_evidenced best" and "filter (\<lambda>s. sc_score s \<noteq> None) rest = []"
  shows "select cs = Ok \<lparr> sel_chosen = Some (sc_path_id best), sel_reason = SingleCandidate, sel_runner_up = None,
    sel_scored = rank cs \<rparr>"
proof -
  have "cs \<noteq> []" using assms(1) by (auto simp: rank_def)
  then show ?thesis
    using assms by (auto simp: select_def Let_def slice_index_def well_evidenced_def)
qed

lemma select_compared:
  assumes "rank cs = best # rest" and "well_evidenced best" and "filter (\<lambda>s. sc_score s \<noteq> None) rest = runner # others"
    and "sc_effective best = Some b" and "sc_effective runner = Some e"
  shows "select cs = Ok (if CLEAR_WINNER_MARGIN \<le> selection_margin b e
    then \<lparr> sel_chosen = Some (sc_path_id best), sel_reason = ClearWinner, sel_runner_up = Some (sc_path_id runner), sel_scored = rank cs \<rparr>
    else \<lparr> sel_chosen = Some (min (sc_path_id best) (sc_path_id runner)), sel_reason = TieBreakLowerId,
           sel_runner_up = Some (sc_path_id runner), sel_scored = rank cs \<rparr>)"
proof -
  have "cs \<noteq> []" using assms(1) by (auto simp: rank_def)
  then show ?thesis
    using assms by (auto simp: select_def Let_def slice_index_def well_evidenced_def)
qed

lemma scored_effective: "s \<in> set (rank cs) \<Longrightarrow> sc_score s = None \<longleftrightarrow> sc_effective s = None"
  by (auto simp: rank_set scored_of_def)

text \<open>Every run of \<open>select\<close> is one of four.\<close>

lemma select_cases:
  obtains (empty) "cs = []" "select cs = Ok \<lparr> sel_chosen = None, sel_reason = NoCandidates, sel_runner_up = None, sel_scored = [] \<rparr>"
  | (held) best rest r where "rank cs = best # rest" "\<not> well_evidenced best" "r \<in> {InsufficientData, ConfidenceFloorHold, StaleEvidenceHold}"
      "select cs = Ok \<lparr> sel_chosen = None, sel_reason = r, sel_runner_up = None, sel_scored = rank cs \<rparr>"
  | (single) best rest where "rank cs = best # rest" "well_evidenced best" "filter (\<lambda>s. sc_score s \<noteq> None) rest = []"
      "select cs = Ok \<lparr> sel_chosen = Some (sc_path_id best), sel_reason = SingleCandidate, sel_runner_up = None, sel_scored = rank cs \<rparr>"
  | (compared) best rest runner b e where "rank cs = best # rest" "well_evidenced best" "runner \<in> set rest"
      "sc_effective best = Some b" "sc_effective runner = Some e"
      "select cs = Ok (if CLEAR_WINNER_MARGIN \<le> selection_margin b e
         then \<lparr> sel_chosen = Some (sc_path_id best), sel_reason = ClearWinner, sel_runner_up = Some (sc_path_id runner), sel_scored = rank cs \<rparr>
         else \<lparr> sel_chosen = Some (min (sc_path_id best) (sc_path_id runner)), sel_reason = TieBreakLowerId,
                sel_runner_up = Some (sc_path_id runner), sel_scored = rank cs \<rparr>)"
proof (cases "rank cs")
  case Nil
  then show thesis using empty select_Nil by simp
next
  case (Cons best rest)
  show thesis
  proof (cases "well_evidenced best")
    case False
    then show thesis using held [OF Cons] select_held [OF Cons] by blast
  next
    case True
    show thesis
    proof (cases "filter (\<lambda>s. sc_score s \<noteq> None) rest")
      case Nil
      then show thesis using single [OF Cons True] select_single [OF Cons True] by blast
    next
      case (Cons runner others)
      note ranked = \<open>rank cs = best # rest\<close>
      have runner: "runner \<in> set rest" "sc_score runner \<noteq> None" using Cons by (auto dest!: filter_eq_ConsD)
      obtain b e where "sc_effective best = Some b" "sc_effective runner = Some e"
        using runner True scored_effective [of _ cs] ranked by (auto simp: well_evidenced_def)
      then show thesis
        using compared [OF ranked True runner(1)] select_compared [OF ranked True Cons] by blast
    qed
  qed
qed

section \<open>Properties\<close>

text \<open>
  Path selection is total and sound. On every candidate list \<open>select\<close> returns (its indexing
  never panics) with every candidate scored exactly once, in ranked order. It declares no winner
  exactly for the four hold reasons. A declared winner is one of the candidates, and it is declared
  only when the top of the ranking has a score, enough confidence and, if its age is known, fresh
  evidence; no candidate has a higher effective score than that top, and unless the decision was a
  tie break the winner is the top itself.
\<close>

theorem select_sound:
  "\<exists>sel. select cs = Ok sel \<and> mset (sel_scored sel) = image_mset scored_of (mset cs) \<and>
     (sel_chosen sel = None \<longleftrightarrow> sel_reason sel \<in> {NoCandidates, InsufficientData, ConfidenceFloorHold, StaleEvidenceHold}) \<and>
     (sel_reason sel = NoCandidates \<longleftrightarrow> cs = []) \<and>
     (\<forall>p. sel_chosen sel = Some p \<longrightarrow> p \<in> ps_path_id ` set cs \<and>
        (\<exists>best b. hd (sel_scored sel) = best \<and> well_evidenced best \<and> sc_effective best = Some b \<and>
           (sel_reason sel \<noteq> TieBreakLowerId \<longrightarrow> p = sc_path_id best) \<and>
           (\<forall>s e. s \<in> set (sel_scored sel) \<longrightarrow> sc_effective s = Some e \<longrightarrow> e \<le> b)))"
proof (cases rule: select_cases [of cs])
  case empty
  then show ?thesis by simp
next
  case (held best rest r)
  moreover have "cs \<noteq> []" using held(1) by (auto simp: rank_def)
  ultimately show ?thesis using rank_mset [of cs] by auto
next
  case (single best rest)
  then have "best \<in> scored_of ` set cs" using rank_set [of cs] by (metis list.set_intros(1))
  moreover obtain b where b: "sc_effective best = Some b"
    using single scored_effective [of best cs] by (auto simp: well_evidenced_def)
  moreover have "cs \<noteq> []" using single(1) by (auto simp: rank_def)
  ultimately show ?thesis
    using single rank_mset [of cs] rank_best_effective [OF single(1) _ b] by (auto simp: scored_of_def)
next
  case (compared best rest runner b e)
  then have ids: "best \<in> scored_of ` set cs" "runner \<in> scored_of ` set cs" using rank_set [of cs] by auto
  have "cs \<noteq> []" using compared(1) by (auto simp: rank_def)
  have "min (sc_path_id best) (sc_path_id runner) \<in> ps_path_id ` set cs" "sc_path_id best \<in> ps_path_id ` set cs"
    using ids by (auto simp: min_def scored_of_def)
  then show ?thesis
    using compared \<open>cs \<noteq> []\<close> rank_mset [of cs] rank_best_effective [OF compared(1) _ compared(4)] by auto
qed

text \<open>A path measured on the loss axis only, with enough samples, is selected as the single candidate.\<close>

definition lossless_path :: path_stats where
  "lossless_path = PathStats_default\<lparr> ps_path_id := 7, ps_sample_count := 30, ps_loss_rate := Some 0 \<rparr>"

lemma lossless_scored: "score lossless_path \<noteq> None"
proof -
  have "representable (1 / 8)"
    unfolding representable_def by (intro exI [of _ 1] exI [of _ "-3"]) (simp add: pow2_def)
  then have "1 / 8 \<le> LOSS_AXIS_WEIGHT" unfolding LOSS_AXIS_WEIGHT_def by (rule ieee.rnd_ge [rotated]) simp
  then have "LOSS_AXIS_WEIGHT \<noteq> 0" by auto
  then show ?thesis
    by (simp add: score_def lossless_path_def PathStats_default_def PATH_WEIGHTS_def direction_score_def add_axis_def Let_def
        fadd_def ieee.rnd_rep loss_weight(3))
qed

lemma lossless_selected:
  "\<exists>sel. select [lossless_path] = Ok sel \<and> sel_chosen sel = Some 7 \<and> sel_reason sel = SingleCandidate"
proof -
  have "confidence 30 = 1" "freshness None = 1" "path_age lossless_path = None" "ps_sample_count lossless_path = 30" "ps_path_id lossless_path = 7"
    by (simp_all add: confidence_def CONFIDENCE_FULL_SAMPLES_def of_u64_exact fdiv_def ieee.rnd_rep freshness_def path_age_def
        lossless_path_def PathStats_default_def)
  then show ?thesis
    using lossless_scored by (auto simp: select_def rank_def scored_of_def Let_def slice_index_def CONFIDENCE_FLOOR_def)
qed

theorem select_sound_witness:
  "\<exists>sel. select [lossless_path] = Ok sel \<and> sel_chosen sel = Some 7 \<and> well_evidenced (hd (sel_scored sel)) \<and>
     sc_path_id (hd (sel_scored sel)) = 7 \<and> mset (sel_scored sel) = {#scored_of lossless_path#}"
  using select_sound [of "[lossless_path]"] lossless_selected by auto

text \<open>
  The selection does not depend on the order in which candidates are listed. Two lists with the
  same candidates (each path id listed once) give the same decision, reason, runner-up and ranked
  table.
\<close>

theorem select_order_independent:
  assumes "mset cs = mset ds" and "distinct (map ps_path_id cs)"
  shows "select cs = select ds"
proof -
  have "cs = [] \<longleftrightarrow> ds = []" using assms(1) by (metis mset_zero_iff)
  then show ?thesis by (simp add: select_def rank_permutation [OF assms])
qed

theorem select_order_independent_witness:
  "select [PathStats_full 1 0 0 0 0 0 30 0 0, PathStats_default] =
   select [PathStats_default, PathStats_full 1 0 0 0 0 0 30 0 0]"
  by (rule select_order_independent) (simp_all add: PathStats_default_def PathStats_full_def)

end
