(* ===== verification/Route_Switch.thy ===== *)
theory Route_Switch
  imports Route_Select
begin

text \<open>
  The decision log and the switching controller of the adaptive router
  (\<^verbatim>\<open>gtp-route/src/decision_log.rs\<close>, \<^verbatim>\<open>switch.rs\<close>). A controller evaluation runs the selector,
  records the selection in the bounded tracker and applies the hysteresis rules: adoption, revert
  window, dwell floor, shadow policy. Counters are \<^verbatim>\<open>u64\<close> values with their wrap-around.

  The lemmas show the accounting of the tracker over any sequence of records and the safety of the
  controller over any sequence of evaluations.
\<close>

section \<open>Decision records\<close>

datatype policy_class = ClassShadow | ClassFailover | ClassDegradation | ClassOptimization

fun PolicyClass_code :: "policy_class \<Rightarrow> string" where
  "PolicyClass_code ClassShadow = ''SHADOW''"
| "PolicyClass_code ClassFailover = ''FAILOVER''"
| "PolicyClass_code ClassDegradation = ''DEGRADATION''"
| "PolicyClass_code ClassOptimization = ''OPTIMIZATION''"

definition PolicyClass_from_code :: "string \<Rightarrow> policy_class option" where
  "PolicyClass_from_code s =
     (if s = ''SHADOW'' then Some ClassShadow
      else if s = ''FAILOVER'' then Some ClassFailover
      else if s = ''DEGRADATION'' then Some ClassDegradation
      else if s = ''OPTIMIZATION'' then Some ClassOptimization
      else None)"

lemma PolicyClass_code_inverse [simp]: "PolicyClass_from_code (PolicyClass_code c) = Some c"
  by (cases c) (simp_all add: PolicyClass_from_code_def)

record decision_record =
  dr_decision_id :: nat
  dr_connection_id :: u64
  dr_policy_class :: policy_class
  dr_path_set :: "u32 list"
  dr_measurement_window_us :: "nat option"
  dr_previous_path :: "u32 option"
  dr_selected_path :: "u32 option"
  dr_runner_up :: "u32 option"
  dr_reason :: selection_reason
  dr_candidates :: "scored_candidate list"

definition from_selection :: "nat \<Rightarrow> u64 \<Rightarrow> policy_class \<Rightarrow> nat option \<Rightarrow> selection \<Rightarrow> decision_record" where
  "from_selection did cid cls window sel = \<lparr> dr_decision_id = did, dr_connection_id = cid, dr_policy_class = cls,
     dr_path_set = map sc_path_id (sel_scored sel), dr_measurement_window_us = window, dr_previous_path = None,
     dr_selected_path = sel_chosen sel, dr_runner_up = sel_runner_up sel, dr_reason = sel_reason sel,
     dr_candidates = sel_scored sel \<rparr>"

record decision_tracker =
  dt_next_id :: nat
  dt_previous_path :: "u32 option"
  dt_before_previous_path :: "u32 option"
  dt_ring :: "decision_record list"
  dt_capacity :: nat
  dt_dropped_records :: nat
  dt_decisions :: nat
  dt_switch_count :: nat
  dt_revert_count :: nat
  dt_last_dwell_us :: "nat option"
  dt_last_switch_window_us :: "nat option"

definition DecisionTracker_new :: "nat \<Rightarrow> decision_tracker" where
  "DecisionTracker_new cap = \<lparr> dt_next_id = 0, dt_previous_path = None, dt_before_previous_path = None, dt_ring = [],
     dt_capacity = cap, dt_dropped_records = 0, dt_decisions = 0, dt_switch_count = 0, dt_revert_count = 0,
     dt_last_dwell_us = None, dt_last_switch_window_us = None \<rparr>"

text \<open>The switch/revert counters: the first \<^verbatim>\<open>if let\<close> of \<^verbatim>\<open>record\<close>.\<close>

definition note_switch :: "nat option \<Rightarrow> selection \<Rightarrow> decision_tracker \<Rightarrow> decision_tracker" where
  "note_switch window sel t = (case (dt_previous_path t, sel_chosen sel) of
     (Some prev, Some chosen) \<Rightarrow>
       if prev \<noteq> chosen then
         (let t1 = t\<lparr> dt_switch_count := wadd64 (dt_switch_count t) 1 \<rparr>;
              t2 = (case (window, dt_last_switch_window_us t1) of
                      (Some now, Some before) \<Rightarrow> t1\<lparr> dt_last_dwell_us := Some (sat_sub now before) \<rparr>
                    | _ \<Rightarrow> t1);
              t3 = t2\<lparr> dt_last_switch_window_us := window \<rparr>
          in if dt_before_previous_path t3 = Some chosen then t3\<lparr> dt_revert_count := wadd64 (dt_revert_count t3) 1 \<rparr> else t3)
       else t
   | _ \<Rightarrow> t)"

definition note_choice :: "selection \<Rightarrow> decision_tracker \<Rightarrow> decision_tracker" where
  "note_choice sel t = (case sel_chosen sel of
     None \<Rightarrow> t
   | Some chosen \<Rightarrow> t\<lparr> dt_before_previous_path := dt_previous_path t, dt_previous_path := Some chosen \<rparr>)"

definition store_record :: "decision_record \<Rightarrow> decision_tracker \<Rightarrow> decision_tracker" where
  "store_record rec t =
     (if 0 < dt_capacity t then
        (let t1 = (if dt_capacity t \<le> length (dt_ring t)
                   then t\<lparr> dt_ring := drop 1 (dt_ring t), dt_dropped_records := wadd64 (dt_dropped_records t) 1 \<rparr> else t)
         in t1\<lparr> dt_ring := dt_ring t1 @ [rec] \<rparr>)
      else t\<lparr> dt_dropped_records := wadd64 (dt_dropped_records t) 1 \<rparr>)"

definition DecisionTracker_record ::
  "decision_tracker \<Rightarrow> u64 \<Rightarrow> policy_class \<Rightarrow> nat option \<Rightarrow> selection \<Rightarrow> nat \<times> decision_tracker" where
  "DecisionTracker_record t cid cls window sel =
     (let did = dt_next_id t;
          t1 = t\<lparr> dt_next_id := wadd64 (dt_next_id t) 1 \<rparr>;
          rec = (from_selection did cid cls window sel)\<lparr> dr_previous_path := dt_previous_path t1 \<rparr>;
          t2 = note_choice sel (note_switch window sel t1);
          t3 = store_record rec (t2\<lparr> dt_decisions := wadd64 (dt_decisions t2) 1 \<rparr>)
      in (did, t3))"

section \<open>The switching controller\<close>

definition DEFAULT_MIN_DWELL :: duration where
  "DEFAULT_MIN_DWELL = Duration_from_millis 200"

definition DEFAULT_REVERT_WINDOW :: duration where
  "DEFAULT_REVERT_WINDOW = Duration_from_millis 500"

datatype switch_policy = PolicyShadow | PolicyEnforce

datatype switch_decision = SwHold u32 selection_reason | SwSwitch u32 u32 selection_reason | SwRevert u32 u32

record switch_controller =
  sw_policy :: switch_policy
  sw_min_dwell :: duration
  sw_revert_window :: duration
  sw_selected :: "u32 option"
  sw_previous :: "u32 option"
  sw_last_switch_time :: monotonic_time
  sw_decision_count :: nat

definition SwitchController_new :: "switch_policy \<Rightarrow> switch_controller" where
  "SwitchController_new pol = \<lparr> sw_policy = pol, sw_min_dwell = DEFAULT_MIN_DWELL, sw_revert_window = DEFAULT_REVERT_WINDOW,
     sw_selected = None, sw_previous = None, sw_last_switch_time = MonotonicTime_ZERO, sw_decision_count = 0 \<rparr>"

definition move_to :: "u32 \<Rightarrow> u32 \<Rightarrow> monotonic_time \<Rightarrow> switch_controller \<Rightarrow> switch_controller" where
  "move_to winner current now c = c\<lparr> sw_previous := Some current, sw_selected := Some winner, sw_last_switch_time := now \<rparr>"

text \<open>The part of \<^verbatim>\<open>evaluate\<close> after the selection has been recorded.\<close>

definition switch_step :: "selection \<Rightarrow> monotonic_time \<Rightarrow> switch_controller \<Rightarrow> switch_decision \<times> switch_controller" where
  "switch_step sel now c = (case sel_chosen sel of
     None \<Rightarrow> (SwHold (case sw_selected c of None \<Rightarrow> 0 | Some s \<Rightarrow> s) (sel_reason sel), c)
   | Some winner \<Rightarrow>
       (case sw_selected c of
          None \<Rightarrow> (SwHold winner (sel_reason sel), c\<lparr> sw_selected := Some winner, sw_last_switch_time := now \<rparr>)
        | Some current \<Rightarrow>
            if winner = current then (SwHold current (sel_reason sel), c)
            else if sw_previous c = Some winner \<and> duration_since now (sw_last_switch_time c) < sw_revert_window c
              then (SwRevert current winner, move_to winner current now c)
            else if duration_since now (sw_last_switch_time c) < sw_min_dwell c
              then (SwHold current TieBreakLowerId, c)
            else if sw_policy c = PolicyEnforce
              then (SwSwitch current winner (sel_reason sel), move_to winner current now c)
            else (SwHold current ClearWinner, c)))"

definition evaluate ::
  "switch_controller \<Rightarrow> path_stats list \<Rightarrow> monotonic_time \<Rightarrow> decision_tracker \<Rightarrow>
   (switch_decision \<times> switch_controller \<times> decision_tracker) result" where
  "evaluate c candidates now tracker =
     obind (select candidates) (\<lambda>selection.
       let c1 = c\<lparr> sw_decision_count := wadd64 (sw_decision_count c) 1 \<rparr>;
           (_, tracker') = DecisionTracker_record tracker 0 ClassShadow None selection;
           (decision, c2) = switch_step selection now c1
       in Ok (decision, c2, tracker'))"

section \<open>Tracker accounting\<close>

definition tracker_ok :: "nat \<Rightarrow> decision_tracker \<Rightarrow> bool" where
  "tracker_ok n t \<longleftrightarrow> dt_next_id t = n \<and> dt_decisions t = n \<and> length (dt_ring t) \<le> dt_capacity t \<and>
     dt_dropped_records t + length (dt_ring t) = n \<and>
     map dr_decision_id (dt_ring t) = [n - length (dt_ring t) ..< n] \<and>
     dt_revert_count t \<le> dt_switch_count t \<and> dt_switch_count t \<le> n \<and>
     (\<forall>r \<in> set (dt_ring t). dr_path_set r = map sc_path_id (dr_candidates r))"

lemma tracker_ok_new: "tracker_ok 0 (DecisionTracker_new cap)"
  by (simp add: tracker_ok_def DecisionTracker_new_def)

lemma note_choice_fields [simp]:
  "dt_next_id (note_choice sel t) = dt_next_id t" "dt_decisions (note_choice sel t) = dt_decisions t"
  "dt_ring (note_choice sel t) = dt_ring t" "dt_capacity (note_choice sel t) = dt_capacity t"
  "dt_dropped_records (note_choice sel t) = dt_dropped_records t"
  "dt_switch_count (note_choice sel t) = dt_switch_count t" "dt_revert_count (note_choice sel t) = dt_revert_count t"
  by (simp_all add: note_choice_def split: option.split)

lemma note_switch_fields [simp]:
  "dt_next_id (note_switch w sel t) = dt_next_id t" "dt_decisions (note_switch w sel t) = dt_decisions t"
  "dt_ring (note_switch w sel t) = dt_ring t" "dt_capacity (note_switch w sel t) = dt_capacity t"
  "dt_dropped_records (note_switch w sel t) = dt_dropped_records t"
  by (simp_all add: note_switch_def Let_def split: option.split)

lemma note_switch_counts:
  assumes "dt_switch_count t < u64_max" and "dt_revert_count t \<le> dt_switch_count t"
  shows "dt_revert_count (note_switch w sel t) \<le> dt_switch_count (note_switch w sel t) \<and>
    dt_switch_count (note_switch w sel t) \<le> Suc (dt_switch_count t)"
  using assms u64_max_modulus by (auto simp: note_switch_def Let_def split: option.split)

lemma ring_push_ids:
  assumes "map f xs = [n - length xs ..< n]" and "length xs \<le> n" and "f x = n"
  shows "map f (xs @ [x]) = [Suc n - length (xs @ [x]) ..< Suc n]"
  using assms by simp

lemma ring_shift_ids:
  assumes "map f xs = [n - length xs ..< n]" and "length xs \<le> n" and "xs \<noteq> []"
  shows "map f (drop 1 xs) = [n - length (drop 1 xs) ..< n]"
proof -
  have "map f (drop 1 xs) = drop 1 [n - length xs ..< n]" using assms(1) by (metis drop_map)
  also have "\<dots> = [n - length (drop 1 xs) ..< n]" using assms(2,3) by (cases xs) (auto simp: Suc_diff_Suc Suc_le_eq)
  finally show ?thesis .
qed

lemma tracker_ok_record:
  assumes "tracker_ok n t" and "n < u64_max"
  shows "fst (DecisionTracker_record t cid cls w sel) = n \<and> tracker_ok (Suc n) (snd (DecisionTracker_record t cid cls w sel)) \<and>
    dt_capacity (snd (DecisionTracker_record t cid cls w sel)) = dt_capacity t"
proof -
  define rec where "rec = (from_selection n cid cls w sel)\<lparr> dr_previous_path := dt_previous_path t \<rparr>"
  have rec: "dr_decision_id rec = n" "dr_path_set rec = map sc_path_id (dr_candidates rec)"
    by (simp_all add: rec_def from_selection_def)
  have n: "wadd64 n 1 = Suc n" using assms(2) u64_max_modulus by simp
  have len: "length (dt_ring t) \<le> n" "dt_dropped_records t < u64_max" "dt_next_id t = n"
    using assms by (auto simp: tracker_ok_def)
  then have drop: "wadd64 (dt_dropped_records t) 1 = Suc (dt_dropped_records t)" using u64_max_modulus by simp
  define t2 where "t2 = note_choice sel (note_switch w sel (t\<lparr> dt_next_id := Suc n \<rparr>))"
  have kept: "dt_ring t2 = dt_ring t" "dt_capacity t2 = dt_capacity t" "dt_dropped_records t2 = dt_dropped_records t"
    "dt_next_id t2 = Suc n" "dt_decisions t2 = n"
    using assms(1) by (simp_all add: t2_def tracker_ok_def)
  have counts: "dt_revert_count t2 \<le> dt_switch_count t2" "dt_switch_count t2 \<le> Suc n"
    using note_switch_counts [of "t\<lparr> dt_next_id := Suc n \<rparr>" w sel] assms by (auto simp: t2_def tracker_ok_def)
  have res: "DecisionTracker_record t cid cls w sel = (n, store_record rec (t2\<lparr> dt_decisions := Suc n \<rparr>))"
    using n kept(5) len(3) by (simp add: DecisionTracker_record_def Let_def rec_def t2_def)
  have "dt_ring t \<noteq> [] \<Longrightarrow> 0 < dt_capacity t"
    using assms(1) by (metis tracker_ok_def length_greater_0_conv less_le_trans)
  then show ?thesis
    using assms(1) rec kept counts drop len(1) ring_push_ids [of dr_decision_id "dt_ring t" n rec]
      ring_push_ids [of dr_decision_id "drop 1 (dt_ring t)" n rec] ring_shift_ids [of dr_decision_id "dt_ring t" n]
    unfolding res by (cases "dt_ring t = []") (auto simp: tracker_ok_def store_record_def Let_def dest: in_set_dropD)
qed

text \<open>A sequence of records.\<close>

fun record_all :: "(u64 \<times> policy_class \<times> nat option \<times> selection) list \<Rightarrow> decision_tracker \<Rightarrow> nat list \<times> decision_tracker" where
  "record_all [] t = ([], t)"
| "record_all ((cid, cls, w, sel) # cs) t =
     (let (did, t1) = DecisionTracker_record t cid cls w sel; (ids, t2) = record_all cs t1 in (did # ids, t2))"

lemma record_all_ok:
  "tracker_ok n t \<Longrightarrow> n + length cs \<le> u64_max \<Longrightarrow>
   fst (record_all cs t) = [n ..< n + length cs] \<and> tracker_ok (n + length cs) (snd (record_all cs t)) \<and>
   dt_capacity (snd (record_all cs t)) = dt_capacity t"
proof (induction cs arbitrary: n t)
  case Nil
  then show ?case by simp
next
  case (Cons c cs)
  obtain cid cls w sel where c: "c = (cid, cls, w, sel)" by (cases c)
  obtain did t1 where r: "DecisionTracker_record t cid cls w sel = (did, t1)" by fastforce
  have one: "did = n" "tracker_ok (Suc n) t1" "dt_capacity t1 = dt_capacity t"
    using tracker_ok_record [OF Cons.prems(1), of cid cls w sel] Cons.prems(2) r by auto
  have ids: "[n ..< n + length (c # cs)] = n # [Suc n ..< Suc n + length cs]" by (simp add: upt_conv_Cons del: upt_Suc)
  obtain rest t2 where rest: "record_all cs t1 = (rest, t2)" by fastforce
  have "rest = [Suc n ..< Suc n + length cs]" "tracker_ok (Suc n + length cs) t2" "dt_capacity t2 = dt_capacity t1"
    using Cons.IH [OF one(2)] Cons.prems(2) rest by (simp_all del: upt_Suc)
  moreover have "record_all (c # cs) t = (did # rest, t2)" using c r rest by simp
  ultimately show ?case unfolding ids using one by (simp del: upt_Suc)
qed

section \<open>Controller safety\<close>

lemma switch_step_policy [simp]:
  "sw_policy (snd (switch_step sel now c)) = sw_policy c" "sw_min_dwell (snd (switch_step sel now c)) = sw_min_dwell c"
  "sw_revert_window (snd (switch_step sel now c)) = sw_revert_window c"
  by (auto simp: switch_step_def move_to_def split: option.split)

text \<open>
  What holds between evaluations: the path left last is not the selected one, nothing was left
  before something was selected, and in shadow policy nothing is ever left.
\<close>

definition switch_inv :: "switch_controller \<Rightarrow> bool" where
  "switch_inv c \<longleftrightarrow> (\<forall>p. sw_previous c = Some p \<longrightarrow> sw_selected c \<noteq> None \<and> sw_selected c \<noteq> Some p \<and> sw_policy c = PolicyEnforce)"

lemma switch_inv_new: "switch_inv (SwitchController_new pol)"
  by (simp add: switch_inv_def SwitchController_new_def)

lemma switch_inv_step: "switch_inv c \<Longrightarrow> switch_inv (snd (switch_step sel now c))"
  by (auto simp: switch_inv_def switch_step_def move_to_def split: option.split)

text \<open>The path that a decision leaves the controller on.\<close>

fun decision_path :: "switch_decision \<Rightarrow> u32" where
  "decision_path (SwHold current _) = current"
| "decision_path (SwSwitch _ to _) = to"
| "decision_path (SwRevert _ to) = to"

definition step_allowed :: "switch_controller \<Rightarrow> monotonic_time \<Rightarrow> switch_decision \<Rightarrow> switch_controller \<Rightarrow> bool" where
  "step_allowed c now d c' = (case d of
     SwHold _ _ \<Rightarrow> sw_selected c = None \<or> sw_selected c' = sw_selected c
   | SwSwitch a b _ \<Rightarrow> sw_policy c = PolicyEnforce \<and> sw_selected c = Some a \<and> sw_selected c' = Some b \<and> a \<noteq> b \<and>
       sw_previous c' = Some a \<and> sw_last_switch_time c' = now \<and> sw_min_dwell c \<le> duration_since now (sw_last_switch_time c)
   | SwRevert a b \<Rightarrow> sw_policy c = PolicyEnforce \<and> sw_selected c = Some a \<and> sw_previous c = Some b \<and> sw_selected c' = Some b \<and>
       sw_previous c' = Some a \<and> sw_last_switch_time c' = now \<and> duration_since now (sw_last_switch_time c) < sw_revert_window c)"

lemma switch_step_allowed:
  assumes "switch_inv c"
  shows "step_allowed c now (fst (switch_step sel now c)) (snd (switch_step sel now c))"
  using assms by (auto simp: switch_inv_def switch_step_def step_allowed_def move_to_def not_less split: option.split)

lemma switch_step_path:
  "sw_selected (snd (switch_step sel now c)) = Some p \<Longrightarrow> decision_path (fst (switch_step sel now c)) = p"
  by (auto simp: switch_step_def move_to_def split: option.splits if_splits)

lemma select_total: "\<exists>sel. select cs = Ok sel"
  by (cases rule: select_cases [of cs]) blast+

lemma evaluate_step:
  obtains sel where "select cs = Ok sel"
    "evaluate c cs now t = Ok (fst (switch_step sel now (c\<lparr> sw_decision_count := wadd64 (sw_decision_count c) 1 \<rparr>)),
       snd (switch_step sel now (c\<lparr> sw_decision_count := wadd64 (sw_decision_count c) 1 \<rparr>)),
       snd (DecisionTracker_record t 0 ClassShadow None sel))"
  using select_total [of cs] by (auto simp: evaluate_def Let_def split: prod.splits)

text \<open>The states a controller can reach, with the decisions taken on the way.\<close>

inductive controller_run :: "switch_controller \<times> decision_tracker \<Rightarrow> switch_decision list \<Rightarrow> switch_controller \<times> decision_tracker \<Rightarrow> bool" where
  run_start: "controller_run s [] s"
| run_step: "controller_run s ds (c, t) \<Longrightarrow> evaluate c cs now t = Ok (d, c', t') \<Longrightarrow> controller_run s (ds @ [d]) (c', t')"

inductive_cases controller_run_snocE: "controller_run s (ds @ [d]) s'"

lemma switch_inv_count [simp]: "switch_inv (c\<lparr> sw_decision_count := k \<rparr>) = switch_inv c"
  by (simp add: switch_inv_def)

lemma controller_run_inv:
  "controller_run s ds s' \<Longrightarrow> switch_inv (fst s) \<Longrightarrow> switch_inv (fst s') \<and> sw_policy (fst s') = sw_policy (fst s)"
proof (induction rule: controller_run.induct)
  case (run_step s ds c t cs now d c' t')
  then show ?case
    using switch_inv_step by (cases rule: evaluate_step [of cs c now t]) auto
qed simp

lemma evaluate_allowed:
  assumes "switch_inv c" and "evaluate c cs now t = Ok (d, c', t')"
  shows "step_allowed c now d c' \<and> (\<forall>p. sw_selected c' = Some p \<longrightarrow> decision_path d = p)"
proof -
  let ?c = "c\<lparr> sw_decision_count := wadd64 (sw_decision_count c) 1 \<rparr>"
  obtain sel where "d = fst (switch_step sel now ?c)" "c' = snd (switch_step sel now ?c)"
    using assms(2) by (cases rule: evaluate_step [of cs c now t]) auto
  moreover have "step_allowed ?c now d c' = step_allowed c now d c'"
    by (simp add: step_allowed_def split: switch_decision.split)
  ultimately show ?thesis using switch_step_allowed [of ?c now sel] switch_step_path [of sel now ?c] assms(1) by auto
qed

lemma step_allowed_shadow: "step_allowed c now d c' \<Longrightarrow> sw_policy c = PolicyShadow \<Longrightarrow> \<exists>p r. d = SwHold p r"
  by (auto simp: step_allowed_def split: switch_decision.splits)

lemma controller_run_shadow:
  "controller_run s ds s' \<Longrightarrow> switch_inv (fst s) \<Longrightarrow> sw_policy (fst s) = PolicyShadow \<Longrightarrow> \<forall>d \<in> set ds. \<exists>p r. d = SwHold p r"
proof (induction rule: controller_run.induct)
  case (run_step s ds c t cs now d c' t')
  have "switch_inv c" "sw_policy c = PolicyShadow" using controller_run_inv [OF run_step.hyps(1) run_step.prems(1)] run_step.prems by simp_all
  then show ?case using run_step.IH run_step.prems evaluate_allowed [OF _ run_step.hyps(2)] step_allowed_shadow [of c now d c'] by simp
qed simp

section \<open>Properties\<close>

text \<open>
  The decision log is bounded and loses nothing silently. After any sequence of recorded
  selections (fewer than \<open>2^64\<close>), the ids handed out are consecutive from 0, the ring holds at most
  its capacity and exactly the newest records in order, the number of stored plus dropped records is
  the number of decisions, and every revert was counted as a switch.
\<close>

theorem decision_log_accounting:
  assumes "length cs \<le> u64_max" and "record_all cs (DecisionTracker_new cap) = (ids, t)"
  shows "ids = [0 ..< length cs] \<and> length (dt_ring t) \<le> cap \<and> dt_decisions t = length cs \<and>
    dt_dropped_records t + length (dt_ring t) = length cs \<and>
    map dr_decision_id (dt_ring t) = [length cs - length (dt_ring t) ..< length cs] \<and>
    dt_revert_count t \<le> dt_switch_count t \<and> dt_switch_count t \<le> length cs"
  using record_all_ok [OF tracker_ok_new, of cs cap] assms by (simp add: tracker_ok_def DecisionTracker_new_def)

theorem decision_log_accounting_witness:
  "fst (record_all (replicate 3 (7, ClassShadow, None, \<lparr> sel_chosen = Some 2, sel_reason = ClearWinner, sel_runner_up = None, sel_scored = [] \<rparr>))
     (DecisionTracker_new 2)) = [0, 1, 2]"
proof -
  let ?cs = "replicate 3 (7, ClassShadow, None, \<lparr> sel_chosen = Some 2, sel_reason = ClearWinner, sel_runner_up = None, sel_scored = [] \<rparr>)"
  obtain ids t where "record_all ?cs (DecisionTracker_new 2) = (ids, t)" by fastforce
  from decision_log_accounting [OF _ this] show ?thesis
    using \<open>record_all ?cs (DecisionTracker_new 2) = (ids, t)\<close> by (simp add: u64_max_def upt_rec)
qed

text \<open>
  C33: route switching is safe. Every evaluation returns. From a new controller, after any sequence of
  evaluations, one more evaluation either holds the selected path, or switches (never in shadow
  policy) to a different path after at least the dwell floor, or reverts to the path left last within
  the revert window; and the decision names the path the controller is then on. In shadow policy no
  decision of the run is a switch or a revert.
\<close>

theorem route_switching_safe:
  assumes "controller_run (SwitchController_new pol, t0) ds (c, t)"
  shows "\<exists>d c' t'. evaluate c cs now t = Ok (d, c', t') \<and> step_allowed c now d c' \<and>
    (\<forall>p. sw_selected c' = Some p \<longrightarrow> decision_path d = p) \<and>
    (pol = PolicyShadow \<longrightarrow> (\<forall>d \<in> set ds. \<exists>p r. d = SwHold p r))"
proof -
  have inv: "switch_inv c" using controller_run_inv [OF assms] switch_inv_new by simp
  obtain d c' t' where e: "evaluate c cs now t = Ok (d, c', t')" using evaluate_step by metis
  then show ?thesis
    using evaluate_allowed [OF inv e] controller_run_shadow [OF assms] by (auto simp: SwitchController_new_def switch_inv_def)
qed

theorem route_switching_safe_witness:
  "\<exists>d c' t'. evaluate (SwitchController_new PolicyShadow) [PathStats_default] 5 (DecisionTracker_new 4) = Ok (d, c', t')"
  using route_switching_safe [where cs = "[PathStats_default]" and now = 5,
      OF run_start [of "(SwitchController_new PolicyShadow, DecisionTracker_new 4)"]] by blast

text \<open>
  A revert resets the clock and swaps the two paths, so the next evaluation inside the revert window
  may revert again: with the winner alternating, every evaluation moves the connection and the dwell
  floor never applies.
\<close>

lemma revert_again:
  assumes "sw_selected c = Some a" and "sw_previous c = Some b" and "a \<noteq> b"
    and "sel_chosen sel1 = Some b" and "sel_chosen sel2 = Some a"
    and "0 < sw_revert_window c" and "t1 < sw_last_switch_time c + sw_revert_window c" and "t2 < t1 + sw_revert_window c"
  shows "fst (switch_step sel1 t1 c) = SwRevert a b \<and> fst (switch_step sel2 t2 (snd (switch_step sel1 t1 c))) = SwRevert b a"
proof -
  have "duration_since t1 (sw_last_switch_time c) < sw_revert_window c" "duration_since t2 t1 < sw_revert_window c"
    using assms(6-8) by (auto simp: duration_since_def sat_sub_def)
  then show ?thesis using assms(1-5) by (simp add: switch_step_def move_to_def)
qed

end
