(* ===== verification/Route_Text.thy ===== *)
theory Route_Text
  imports Number_Text Route_Switch
begin

text \<open>
  The text forms of the route code: decision records (\<^verbatim>\<open>gtp-route/src/decision_log.rs\<close>) and measurement reports
  (\<^verbatim>\<open>report.rs\<close>) as lines of fields. Laws: what is encoded parses back, decision records up to four decimals
  and then stable, reports exactly but for the loss rate.
\<close>

section \<open>Decision records\<close>

definition DECISION_LOG_PREFIX :: string where
  "DECISION_LOG_PREFIX = ''GTPDL1''"

definition show_opt :: "nat option \<Rightarrow> string" where
  "show_opt v = (case v of Some n \<Rightarrow> show_nat 10 n | None \<Rightarrow> ''-'')"

definition opt_u32 :: "u32 option \<Rightarrow> string" where
  "opt_u32 v = show_opt (map_option unat v)"

definition opt_f :: "rat option \<Rightarrow> string" where
  "opt_f v = (case v of Some x \<Rightarrow> show_fixed 4 x | None \<Rightarrow> ''-'')"

definition DecisionRecord_summary :: "decision_record \<Rightarrow> string" where
  "DecisionRecord_summary r = ''decision '' @ show_nat 10 (dr_decision_id r) @ '' on conn '' @ show_nat 16 (unat (dr_connection_id r)) @ '': '' @
     opt_u32 (dr_previous_path r) @ '' -> '' @ opt_u32 (dr_selected_path r) @ '' ('' @ SelectionReason_code (dr_reason r) @ '')''"

definition candidate_fields :: "scored_candidate \<Rightarrow> string list" where
  "candidate_fields c = [show_nat 10 (unat (sc_path_id c)), opt_f (sc_score c), show_fixed 4 (sc_confidence c), show_fixed 4 (sc_freshness c),
     opt_f (sc_effective c), show_opt (map_option unat (sc_age_us c))]"

definition record_fields :: "decision_record \<Rightarrow> string list" where
  "record_fields r = [show_nat 10 (dr_decision_id r), show_nat 16 (unat (dr_connection_id r)), PolicyClass_code (dr_policy_class r),
     show_opt (dr_measurement_window_us r), opt_u32 (dr_previous_path r), opt_u32 (dr_selected_path r), opt_u32 (dr_runner_up r),
     SelectionReason_code (dr_reason r)]"

definition DecisionRecord_encode :: "decision_record \<Rightarrow> string" where
  "DecisionRecord_encode r =
     join_with (CHR ''|'') (DECISION_LOG_PREFIX # record_fields r @ map (\<lambda>c. join_with (CHR '':'') (candidate_fields c)) (dr_candidates r))"

text \<open>An optional field: a dash is the absent value.\<close>

definition parse_opt :: "nat \<Rightarrow> string \<Rightarrow> nat option parsed" where
  "parse_opt largest s = (if s = ''-'' then Parsed None else pmap Some (of_option (parse_uint 10 largest s)))"

definition parse_opt_f64 :: "string \<Rightarrow> rat option parsed" where
  "parse_opt_f64 s = (if s = ''-'' then Parsed None else pmap Some (parse_f64 s))"

definition parse_candidate :: "string \<Rightarrow> scored_candidate parsed" where
  "parse_candidate s = (case split_on (CHR '':'') s of
     [path, sco, conf, fresh, eff, age] \<Rightarrow>
       pmap (\<lambda>(p, sc, cf, fr, ef, ag). \<lparr> sc_path_id = of_nat p, sc_score = sc, sc_confidence = cf, sc_freshness = fr,
           sc_age_us = map_option of_nat ag, sc_effective = ef \<rparr>)
         (pand (of_option (parse_uint 10 u32_max path)) (pand (parse_opt_f64 sco) (pand (parse_f64 conf) (pand (parse_f64 fresh)
           (pand (parse_opt_f64 eff) (parse_opt u64_max age))))))
   | _ \<Rightarrow> Rejected)"

definition DecisionRecord_parse :: "string \<Rightarrow> decision_record parsed" where
  "DecisionRecord_parse line = (case strip_prefix (DECISION_LOG_PREFIX @ ''|'') line of
     None \<Rightarrow> Rejected
   | Some rest \<Rightarrow> (case split_on (CHR ''|'') rest of
       did # conn # cls # window # prev # sel # runner # reason # cands \<Rightarrow>
         pmap (\<lambda>(d, c, p, w, pr, se, ru, re, cs). \<lparr> dr_decision_id = d, dr_connection_id = of_nat c, dr_policy_class = p,
             dr_path_set = map sc_path_id cs, dr_measurement_window_us = w, dr_previous_path = map_option of_nat pr,
             dr_selected_path = map_option of_nat se, dr_runner_up = map_option of_nat ru, dr_reason = re, dr_candidates = cs \<rparr>)
           (pand (of_option (parse_uint 10 u64_max did)) (pand (of_option (parse_uint 16 u64_max conn))
             (pand (of_option (PolicyClass_from_code cls)) (pand (parse_opt u64_max window) (pand (parse_opt u32_max prev) (pand (parse_opt u32_max sel)
               (pand (parse_opt u32_max runner) (pand (of_option (SelectionReason_from_code reason)) (pall (map parse_candidate cands))))))))))
     | _ \<Rightarrow> Rejected))"

section \<open>Measurement reports\<close>

definition REPORT_PREFIX :: string where
  "REPORT_PREFIX = ''GTPRP2''"

definition REPORT_PREFIX_V3 :: string where
  "REPORT_PREFIX_V3 = ''GTPRP3''"

definition REPORT_PREFIX_V1 :: string where
  "REPORT_PREFIX_V1 = ''GTPRP1''"

definition REPORT_GROUP_ID :: u16 where
  "REPORT_GROUP_ID = 0x5250"

record measurement_report =
  me_owd_var_us :: "u32 option"
  me_jitter_us :: "u32 option"
  me_srtt_us :: "u32 option"
  me_samples :: u32
  me_since_last_rx_us :: "u64 option"
  me_loss_rate :: "rat option"

definition MeasurementReport_default :: measurement_report where
  "MeasurementReport_default = \<lparr> me_owd_var_us = None, me_jitter_us = None, me_srtt_us = None, me_samples = 0, me_since_last_rx_us = None, me_loss_rate = None \<rparr>"

definition field_u64 :: "u64 option \<Rightarrow> string" where
  "field_u64 v = show_opt (map_option unat v)"

definition report_fields :: "measurement_report \<Rightarrow> string list" where
  "report_fields r = [opt_u32 (me_owd_var_us r), opt_u32 (me_jitter_us r), opt_u32 (me_srtt_us r), show_nat 10 (unat (me_samples r)), field_u64 (me_since_last_rx_us r)]"

text \<open>
  The loss rate is formatted with six decimals, and the resulting string is then formatted with a
  precision of six, which for a string is a maximum length.
\<close>

definition MeasurementReport_encode :: "measurement_report \<Rightarrow> string" where
  "MeasurementReport_encode r = (case me_loss_rate r of
     Some l \<Rightarrow> join_with (CHR ''|'') (REPORT_PREFIX_V3 # report_fields r @ [take 6 (show_fixed 6 l)])
   | None \<Rightarrow> join_with (CHR ''|'') (REPORT_PREFIX # report_fields r))"

definition report_version :: "string \<Rightarrow> (nat \<times> string) option" where
  "report_version line = (case strip_prefix (REPORT_PREFIX_V3 @ ''|'') line of
     Some rest \<Rightarrow> Some (3, rest)
   | None \<Rightarrow> (case strip_prefix (REPORT_PREFIX @ ''|'') line of
       Some rest \<Rightarrow> Some (2, rest)
     | None \<Rightarrow> map_option (Pair 1) (strip_prefix (REPORT_PREFIX_V1 @ ''|'') line)))"

definition parsed_report :: "string \<Rightarrow> string \<Rightarrow> string \<Rightarrow> string \<Rightarrow> nat option parsed \<Rightarrow> rat option parsed \<Rightarrow> measurement_report parsed" where
  "parsed_report var jit rtt samples since loss =
     pmap (\<lambda>(v, j, r, n, s, l). \<lparr> me_owd_var_us = map_option of_nat v, me_jitter_us = map_option of_nat j, me_srtt_us = map_option of_nat r,
         me_samples = of_nat n, me_since_last_rx_us = map_option of_nat s, me_loss_rate = l \<rparr>)
       (pand (parse_opt u32_max var) (pand (parse_opt u32_max jit) (pand (parse_opt u32_max rtt)
         (pand (of_option (parse_uint 10 u32_max samples)) (pand since loss)))))"

text \<open>Each version has its own number of fields; any other number rejects the line.\<close>

definition MeasurementReport_parse :: "string \<Rightarrow> measurement_report parsed" where
  "MeasurementReport_parse line = (case report_version line of
     None \<Rightarrow> Rejected
   | Some (version, rest) \<Rightarrow> (case (version, split_on (CHR ''|'') rest) of
       (Suc 0, [var, jit, rtt, samples]) \<Rightarrow> parsed_report var jit rtt samples (Parsed None) (Parsed None)
     | (Suc (Suc 0), [var, jit, rtt, samples, since]) \<Rightarrow> parsed_report var jit rtt samples (parse_opt u64_max since) (Parsed None)
     | (Suc (Suc (Suc 0)), [var, jit, rtt, samples, since, loss]) \<Rightarrow> parsed_report var jit rtt samples (parse_opt u64_max since) (parse_opt_f64 loss)
     | _ \<Rightarrow> Rejected))"

definition into_path_stats :: "measurement_report \<Rightarrow> u32 \<Rightarrow> path_stats \<Rightarrow> path_stats" where
  "into_path_stats r path_id local = \<lparr> ps_path_id = path_id, ps_fwd_owd_var_us = me_owd_var_us r, ps_fwd_jitter_us = me_jitter_us r,
     ps_rev_owd_var_us = ps_rev_owd_var_us local, ps_rev_jitter_us = ps_rev_jitter_us local,
     ps_rtt_us = (case ps_rtt_us local of Some v \<Rightarrow> Some v | None \<Rightarrow> me_srtt_us r),
     ps_sample_count = min (me_samples r) (max (ps_sample_count local) 1), ps_fwd_age_us = me_since_last_rx_us r, ps_rev_age_us = ps_rev_age_us local,
     ps_loss_rate = me_loss_rate r \<rparr>"

section \<open>Fields read back\<close>

lemma show_nat_not_dash: "show_nat 10 n \<noteq> ''-''"
  using show_nat_plain [of 10 n] by force

lemma show_fixed_not_dash: "show_fixed k x \<noteq> ''-''"
proof -
  have "CHR ''.'' \<in> set (show_fixed k x)" by (simp add: show_fixed_def Let_def)
  then show ?thesis by auto
qed

lemma word_fits: "unat (w :: u32) \<le> u32_max" "unat (v :: u64) \<le> u64_max"
  using unat_lt_exp [of w] unat_lt_exp [of v] by (simp_all add: u32_max_def u64_max_def)

lemma parse_opt_show: "(\<forall>n. v = Some n \<longrightarrow> n \<le> largest) \<Longrightarrow> parse_opt largest (show_opt v) = Parsed v"
  by (cases v) (simp_all add: parse_opt_def show_opt_def show_nat_not_dash parse_uint_show of_option_def)

lemma parse_opt_words [simp]:
  "parse_opt u32_max (opt_u32 v) = Parsed (map_option unat v)"
  "parse_opt u64_max (field_u64 w) = Parsed (map_option unat w)"
  "parse_opt u64_max (show_opt (map_option unat w)) = Parsed (map_option unat w)"
  unfolding opt_u32_def field_u64_def by (rule parse_opt_show; use word_fits in auto)+

lemma of_nat_unat_opt [simp]: "map_option of_nat (map_option unat (v :: 'a :: len word option)) = v"
  by (cases v) simp_all

lemma parse_uint_word [simp]:
  "parse_uint 10 u32_max (show_nat 10 (unat (p :: u32))) = Some (unat p)"
  "parse_uint 16 u64_max (show_nat 16 (unat (c :: u64))) = Some (unat c)"
  using word_fits by (simp_all add: parse_uint_show)

text \<open>No field holds a separator.\<close>

lemma digit_no_separator: "is_digit c \<Longrightarrow> c \<noteq> CHR ''|'' \<and> c \<noteq> CHR '':''"
  by (auto simp: is_digit_def digit_val_def)

lemma no_separator [simp]:
  "CHR ''|'' \<notin> set (show_nat 10 n)" "CHR '':'' \<notin> set (show_nat 10 n)" "CHR ''|'' \<notin> set (show_nat 16 n)"
  "CHR ''|'' \<notin> set (show_opt v)" "CHR '':'' \<notin> set (show_opt v)" "CHR ''|'' \<notin> set (opt_u32 w)" "CHR ''|'' \<notin> set (field_u64 a)"
  using show_nat_plain [of 10] show_nat_plain [of 16] by (auto simp: show_opt_def opt_u32_def field_u64_def split: option.split)

lemma no_separator_f [simp]:
  "CHR ''|'' \<notin> set (show_fixed k x)" "CHR '':'' \<notin> set (show_fixed k x)" "CHR ''|'' \<notin> set (opt_f y)" "CHR '':'' \<notin> set (opt_f y)"
proof -
  have "c \<noteq> CHR ''|'' \<and> c \<noteq> CHR '':''" if "c \<in> set (show_fixed k x)" for c k x
    using that is_digit_show zero_pad_digit digit_no_separator by (fastforce simp: show_fixed_def Let_def split: if_splits)
  then show "CHR ''|'' \<notin> set (show_fixed k x)" "CHR '':'' \<notin> set (show_fixed k x)" "CHR ''|'' \<notin> set (opt_f y)" "CHR '':'' \<notin> set (opt_f y)"
    by (auto simp: opt_f_def split: option.split)
qed

lemma no_separator_codes [simp]: "CHR ''|'' \<notin> set (PolicyClass_code p)" "CHR ''|'' \<notin> set (SelectionReason_code s)"
  by (cases p; simp) (cases s; simp)

lemma join_separator: "CHR ''|'' \<noteq> c \<Longrightarrow> \<forall>x \<in> set xs. CHR ''|'' \<notin> set x \<Longrightarrow> CHR ''|'' \<notin> set (join_with c xs)"
  by (induction c xs rule: join_with.induct) auto

lemma join_Cons: "xs \<noteq> [] \<Longrightarrow> join_with c (p # xs) = (p @ [c]) @ join_with c xs"
  by (cases xs) simp_all

section \<open>Decision records round trip\<close>

definition log_value :: "rat \<Rightarrow> bool" where
  "log_value x \<longleftrightarrow> 0 \<le> x \<and> x \<le> 2 ^ 32"

definition loggable :: "decision_record \<Rightarrow> bool" where
  "loggable r \<longleftrightarrow> dr_decision_id r \<le> u64_max \<and> (\<forall>w. dr_measurement_window_us r = Some w \<longrightarrow> w \<le> u64_max) \<and>
     (\<forall>c \<in> set (dr_candidates r). log_value (sc_confidence c) \<and> log_value (sc_freshness c) \<and>
        pred_option log_value (sc_score c) \<and> pred_option log_value (sc_effective c))"

text \<open>What a reader of the log gets: doubles to four decimals, and the path set of the candidates.\<close>

definition logged_candidate :: "scored_candidate \<Rightarrow> scored_candidate" where
  "logged_candidate c = c\<lparr> sc_score := map_option (fixed_value 4) (sc_score c), sc_confidence := fixed_value 4 (sc_confidence c),
     sc_freshness := fixed_value 4 (sc_freshness c), sc_effective := map_option (fixed_value 4) (sc_effective c) \<rparr>"

definition logged :: "decision_record \<Rightarrow> decision_record" where
  "logged r = r\<lparr> dr_path_set := map sc_path_id (dr_candidates r), dr_candidates := map logged_candidate (dr_candidates r) \<rparr>"

lemma parse_opt_f_show: "pred_option log_value y \<Longrightarrow> parse_opt_f64 (opt_f y) = Parsed (map_option (fixed_value 4) y)"
  by (cases y) (simp_all add: parse_opt_f64_def opt_f_def show_fixed_not_dash parse_show_fixed log_value_def)

lemma parse_candidate_fields:
  assumes "log_value (sc_confidence c)" "log_value (sc_freshness c)" "pred_option log_value (sc_score c)" "pred_option log_value (sc_effective c)"
  shows "parse_candidate (join_with (CHR '':'') (candidate_fields c)) = Parsed (logged_candidate c)"
proof -
  have "split_on (CHR '':'') (join_with (CHR '':'') (candidate_fields c)) = candidate_fields c"
    by (rule split_join) (simp_all add: candidate_fields_def)
  then show ?thesis
    using assms by (simp add: parse_candidate_def candidate_fields_def of_option_def parse_opt_f_show parse_show_fixed log_value_def logged_candidate_def)
qed

lemma logged_candidate_fields:
  assumes "log_value (sc_confidence c)" "log_value (sc_freshness c)" "pred_option log_value (sc_score c)" "pred_option log_value (sc_effective c)"
  shows "candidate_fields (logged_candidate c) = candidate_fields c"
proof -
  have "opt_f (map_option (fixed_value 4) y) = opt_f y" if "pred_option log_value y" for y
    using that show_fixed_again by (cases y) (simp_all add: opt_f_def log_value_def)
  then show ?thesis using assms show_fixed_again by (simp add: candidate_fields_def logged_candidate_def log_value_def)
qed

text \<open>
  C37: the decision log can be read back. A record whose doubles lie between zero and \<open>2 ^ 32\<close> encodes to a
  line that parses; the record read has every field of the original, its doubles to four decimals, and
  as path set the paths of its candidates; and encoding it again gives the same line.
\<close>

theorem decision_log_roundtrip:
  assumes "loggable r"
  shows "DecisionRecord_parse (DecisionRecord_encode r) = Parsed (logged r) \<and> DecisionRecord_encode (logged r) = DecisionRecord_encode r"
proof
  let ?cands = "map (\<lambda>c. join_with (CHR '':'') (candidate_fields c)) (dr_candidates r)"
  let ?fields = "record_fields r @ ?cands"
  have "\<forall>f \<in> set ?fields. CHR ''|'' \<notin> set f"
    by (auto simp: record_fields_def candidate_fields_def intro!: join_separator dest!: in_set_conv_nth [THEN iffD1])
  then have split: "split_on (CHR ''|'') (join_with (CHR ''|'') ?fields) = ?fields" by (intro split_join) (simp_all add: record_fields_def)
  have line: "DecisionRecord_encode r = (DECISION_LOG_PREFIX @ ''|'') @ join_with (CHR ''|'') ?fields"
    by (simp only: DecisionRecord_encode_def) (rule join_Cons, simp add: record_fields_def)
  have cands: "pall (map parse_candidate ?cands) = Parsed (map logged_candidate (dr_candidates r))"
    using assms by (simp add: loggable_def comp_def parse_candidate_fields)
  have window: "parse_opt u64_max (show_opt (dr_measurement_window_us r)) = Parsed (dr_measurement_window_us r)"
    using assms by (intro parse_opt_show) (simp add: loggable_def)
  have did: "parse_uint 10 u64_max (show_nat 10 (dr_decision_id r)) = Some (dr_decision_id r)"
    using assms by (simp add: parse_uint_show loggable_def)
  have paths: "map sc_path_id (map logged_candidate cs) = map sc_path_id cs" for cs by (simp add: logged_candidate_def)
  show "DecisionRecord_parse (DecisionRecord_encode r) = Parsed (logged r)"
    unfolding DecisionRecord_parse_def line strip_prefix_append option.case split
    using cands by (simp add: record_fields_def of_option_def window did logged_def paths del: map_map)
  show "DecisionRecord_encode (logged r) = DecisionRecord_encode r"
    using assms by (simp add: DecisionRecord_encode_def logged_def loggable_def record_fields_def logged_candidate_fields comp_def cong: map_cong)
qed

section \<open>Reports round trip\<close>

lemma digits_value_less: "digits_value 10 s 0 = Some v \<Longrightarrow> v < 10 ^ length s"
proof (induction s arbitrary: v)
  case (Cons c s)
  then obtain d where d: "digit_val 10 c = Some d" by (cases "digit_val 10 c") auto
  then have "d < 10" by (auto simp: digit_val_def Let_def split: if_splits)
  then have "d * 10 ^ length s + 10 ^ length s \<le> 10 * 10 ^ length s" by (simp flip: add_mult_distrib mult_Suc)
  moreover obtain w where "digits_value 10 s 0 = Some w" "v = d * 10 ^ length s + w"
    using Cons.prems d digits_value_acc [of s d] by auto
  moreover from this have "w < 10 ^ length s" using Cons.IH by blast
  ultimately show ?case unfolding length_Cons power_Suc by linarith
qed simp

lemma digits_value_shorter: "digits_value 10 (xs @ ys) 0 = Some n \<Longrightarrow> digits_value 10 xs 0 = Some (n div 10 ^ length ys)"
proof -
  assume n: "digits_value 10 (xs @ ys) 0 = Some n"
  then obtain a where a: "digits_value 10 xs 0 = Some a" by (cases "digits_value 10 xs 0") (auto simp: digits_value_append)
  then obtain w where "digits_value 10 ys 0 = Some w" "n = a * 10 ^ length ys + w"
    using n digits_value_acc [of ys a] by (auto simp: digits_value_append)
  then show ?thesis using a digits_value_less by simp
qed

text \<open>The loss rate a reader gets: four decimals, the others cut off.\<close>

definition reported_loss :: "rat \<Rightarrow> rat" where
  "reported_loss l = f64_round (of_nat (fixed_count 6 l div 100) / 10 ^ 4)"

lemma fixed_count_loss: "0 \<le> l \<Longrightarrow> l * 10 ^ 6 \<le> of_nat m \<Longrightarrow> fixed_count 6 l \<le> m"
proof -
  assume l: "0 \<le> l" "l * 10 ^ 6 \<le> of_nat m"
  then have "of_nat (fixed_count 6 l) < (of_nat (Suc m) :: rat)" using fixed_count_upper [OF l(1), of 6] by simp
  then show ?thesis by (simp only: of_nat_less_iff less_Suc_eq_le)
qed

lemma parse_cut_loss:
  assumes "0 \<le> l" and "l \<le> 1"
  shows "parse_opt_f64 (take 6 (show_fixed 6 l)) = Parsed (Some (reported_loss l))"
proof -
  define n where "n = fixed_count 6 l"
  define fp where "fp = zero_pad 6 (show_nat 10 (n mod 10 ^ 6))"
  have n: "n \<le> 10 ^ 6" using fixed_count_loss [of l "10 ^ 6"] assms by (simp add: n_def)
  then have "n div 10 ^ 6 < 10" by simp
  then have ip: "length (show_nat 10 (n div 10 ^ 6)) = 1" by (subst show_nat.simps) simp
  have val: "digits_value 10 (show_nat 10 (n div 10 ^ 6) @ fp) 0 = Some n" "length fp = 6"
    unfolding fp_def by (rule fixed_text_value; simp)+
  have fp: "fp = take 4 fp @ drop 4 fp" by simp
  have short: "digits_value 10 (show_nat 10 (n div 10 ^ 6) @ take 4 fp) 0 = Some (n div 100)"
    using digits_value_shorter [of "show_nat 10 (n div 10 ^ 6) @ take 4 fp" "drop 4 fp" n] val by simp
  have digits: "\<forall>c \<in> set (show_nat 10 (n div 10 ^ 6) @ take 4 fp). is_digit c"
    using is_digit_show zero_pad_digit unfolding fp_def by (auto dest: in_set_takeD)
  have cut: "take 6 (show_fixed 6 l) = show_nat 10 (n div 10 ^ 6) @ CHR ''.'' # take 4 fp"
    using ip assms(1) by (simp add: show_fixed_nonneg n_def fp_def del: power_numeral)
  have small: "of_nat (n div 100) / 10 ^ length (take 4 fp) \<le> (2 :: rat) ^ 53"
  proof -
    have "n div 100 \<le> 10 ^ 6" using n by simp
    then have "of_nat (n div 100) \<le> (of_nat (10 ^ 6) :: rat)" by (simp only: of_nat_le_iff)
    then show ?thesis using val(2) by simp
  qed
  have "parse_f64 (take 6 (show_fixed 6 l)) = Parsed (reported_loss l)"
    using parse_f64_digits [OF show_nat_Nil digits short _ small] val(2) by (simp add: cut reported_loss_def flip: n_def)
  moreover have "take 6 (show_fixed 6 l) \<noteq> ''-''"
  proof -
    have "CHR ''.'' \<in> set (take 6 (show_fixed 6 l))" by (simp add: cut)
    then show ?thesis by auto
  qed
  ultimately show ?thesis by (simp add: parse_opt_f64_def)
qed

lemma report_fields_separator: "\<forall>f \<in> set (report_fields r). CHR ''|'' \<notin> set f"
  by (simp add: report_fields_def)

lemma parsed_report_fields:
  "parsed_report (opt_u32 (me_owd_var_us r)) (opt_u32 (me_jitter_us r)) (opt_u32 (me_srtt_us r)) (show_nat 10 (unat (me_samples r)))
     (Parsed (map_option unat (me_since_last_rx_us r))) (Parsed l) = Parsed (r\<lparr> me_loss_rate := l \<rparr> :: measurement_report)"
  by (simp add: parsed_report_def of_option_def)

text \<open>The report as parsed, for either version.\<close>

lemma report_parses:
  fixes r :: measurement_report
  assumes "pred_option (\<lambda>l. 0 \<le> l \<and> l \<le> 1) (me_loss_rate r)"
  shows "MeasurementReport_parse (MeasurementReport_encode r) = Parsed (r\<lparr> me_loss_rate := map_option reported_loss (me_loss_rate r) \<rparr>)"
proof (cases "me_loss_rate r")
  case None
  have line: "MeasurementReport_encode r = (REPORT_PREFIX @ ''|'') @ join_with (CHR ''|'') (report_fields r)"
    by (simp only: MeasurementReport_encode_def None option.case) (rule join_Cons, simp add: report_fields_def)
  have "split_on (CHR ''|'') (join_with (CHR ''|'') (report_fields r)) = report_fields r"
    by (intro split_join report_fields_separator) (simp add: report_fields_def)
  moreover have "report_version ((REPORT_PREFIX @ ''|'') @ s) = Some (2, s)" for s
    unfolding report_version_def strip_prefix_append by (simp add: strip_prefix_def REPORT_PREFIX_def REPORT_PREFIX_V3_def)
  ultimately show ?thesis
    unfolding MeasurementReport_parse_def line using None parsed_report_fields [of r None]
    by (simp add: report_fields_def numeral_2_eq_2)
next
  case (Some l)
  let ?fields = "report_fields r @ [take 6 (show_fixed 6 l)]"
  have line: "MeasurementReport_encode r = (REPORT_PREFIX_V3 @ ''|'') @ join_with (CHR ''|'') ?fields"
    by (simp only: MeasurementReport_encode_def Some option.case) (rule join_Cons, simp)
  have "\<forall>f \<in> set ?fields. CHR ''|'' \<notin> set f"
    using report_fields_separator [of r] no_separator_f(1) [of 6 l] by (auto dest: in_set_takeD)
  then have "split_on (CHR ''|'') (join_with (CHR ''|'') ?fields) = ?fields" by (intro split_join) simp_all
  moreover have "report_version ((REPORT_PREFIX_V3 @ ''|'') @ s) = Some (3, s)" for s
    unfolding report_version_def strip_prefix_append by simp
  moreover have "parse_opt_f64 (take 6 (show_fixed 6 l)) = Parsed (Some (reported_loss l))" using assms Some by (intro parse_cut_loss) simp_all
  ultimately show ?thesis
    unfolding MeasurementReport_parse_def line using Some parsed_report_fields [of r "Some (reported_loss l)"]
    by (simp add: report_fields_def numeral_3_eq_3)
qed

text \<open>
  A measurement report parses back with every field it had. Without a loss rate the line is exact;
  a loss rate between zero and one arrives rounded to six decimals and then cut to four.
\<close>

theorem report_roundtrip:
  fixes r :: measurement_report
  assumes "pred_option (\<lambda>l. 0 \<le> l \<and> l \<le> 1) (me_loss_rate r)"
  shows "MeasurementReport_parse (MeasurementReport_encode r) =
    Parsed (r\<lparr> me_loss_rate := map_option (\<lambda>l. f64_round (of_nat (fixed_count 6 l div 100) / 10 ^ 4)) (me_loss_rate r) \<rparr>)"
  using report_parses [OF assms] unfolding reported_loss_def .

text \<open>
  A small loss rate is reported as none. A rate of up to 99 lost packets in a million, which six
  decimals could carry, arrives as exactly zero.
\<close>

theorem small_loss_reported_as_zero:
  assumes "me_loss_rate r = Some l" and "0 \<le> l" and "l * 10 ^ 6 \<le> 99"
  shows "MeasurementReport_parse (MeasurementReport_encode r) = Parsed (r\<lparr> me_loss_rate := Some 0 \<rparr> :: measurement_report)"
proof -
  have "fixed_count 6 l \<le> 99" using fixed_count_loss [of l 99] assms(2,3) by simp
  then have "reported_loss l = 0" by (simp add: reported_loss_def f64_round_def)
  moreover have "l \<le> 1" using assms(3) by simp
  ultimately show ?thesis using report_parses [of r] assms(1,2) by simp
qed

section \<open>Witnesses\<close>

definition sample_report :: measurement_report where
  "sample_report = \<lparr> me_owd_var_us = Some 4032, me_jitter_us = None, me_srtt_us = Some 51379, me_samples = 812, me_since_last_rx_us = Some 1240,
     me_loss_rate = Some (f64_round (50 / 10 ^ 6)) \<rparr>"

definition sample_record :: decision_record where
  "sample_record = \<lparr> dr_decision_id = 7, dr_connection_id = 0xAB, dr_policy_class = ClassShadow, dr_path_set = [2], dr_measurement_window_us = None,
     dr_previous_path = None, dr_selected_path = Some 2, dr_runner_up = None, dr_reason = SingleCandidate,
     dr_candidates = [\<lparr> sc_path_id = 2, sc_score = Some (3 / 4), sc_confidence = 1, sc_freshness = 1 / 2, sc_age_us = None, sc_effective = None \<rparr>] \<rparr>"

theorem decision_log_roundtrip_witness:
  "DecisionRecord_parse (DecisionRecord_encode sample_record) = Parsed (logged sample_record) \<and> dr_decision_id (logged sample_record) = 7"
proof -
  have "loggable sample_record" by (simp add: loggable_def sample_record_def log_value_def u64_max_def)
  from decision_log_roundtrip [OF this] show ?thesis by (simp add: logged_def sample_record_def)
qed

lemma sample_loss: "0 \<le> f64_round (50 / 10 ^ 6)" "f64_round (50 / 10 ^ 6) * 10 ^ 6 \<le> 99"
  using f64_round_nonneg [of "50 / 10 ^ 6"] f64_round_upper [of "50 / 10 ^ 6"] by simp_all

theorem report_roundtrip_witness:
  "\<exists>l. MeasurementReport_parse (MeasurementReport_encode sample_report) = Parsed (sample_report\<lparr> me_loss_rate := Some l \<rparr>)"
proof -
  have "pred_option (\<lambda>l. 0 \<le> l \<and> l \<le> 1) (me_loss_rate sample_report)" using sample_loss by (simp add: sample_report_def)
  from report_roundtrip [OF this] show ?thesis by (simp add: sample_report_def)
qed

theorem small_loss_reported_as_zero_witness:
  "MeasurementReport_parse (MeasurementReport_encode sample_report) = Parsed (sample_report\<lparr> me_loss_rate := Some 0 \<rparr>)"
  by (rule small_loss_reported_as_zero [OF _ sample_loss]) (simp add: sample_report_def)

end
