(* ===== verification/Packet_Io.thy ===== *)
theory Packet_Io
  imports GTP_Types
begin

text \<open>
  Batches of datagrams over a UDP socket (\<^verbatim>\<open>gtp-io/src/packet_io.rs\<close>, \<^verbatim>\<open>udp.rs\<close>). The operating system, a Unix, is a
  parameter: a record of calls on a socket state, each returning its result or an error with a kind
  and a text. Modelled are the set-up of a socket, the options for congestion marks, the walk over the
  control messages of a received datagram and the two batch loops. Laws: what a batch did to the socket
  and to the buffers, for every way it can end.
\<close>

unbundle bit_operations_syntax

section \<open>The operating system\<close>

datatype error_kind = WouldBlock | ConnectionReset | ConnectionRefused | Interrupted | InvalidData | OtherKind string

record io_error =
  ie_kind :: error_kind
  ie_text :: string

type_synonym 'a io_result = "io_error + 'a"

datatype socket_option = IP_TOS | IP_RECVTOS | IPV6_TCLASS | IPV6_RECVTCLASS

text \<open>A control message: the option it reports, if it is one of the two the code looks for, and its payload.\<close>

record control_message =
  cm_option :: "socket_option option"
  cm_data :: bytes

record ('s, 'addr) socket_ops =
  so_open :: "'addr \<Rightarrow> 's \<Rightarrow> 's \<times> unit io_result"
  so_set_nonblocking :: "'s \<Rightarrow> 's \<times> unit io_result"
  so_set_recv_buffer_size :: "nat \<Rightarrow> 's \<Rightarrow> 's"
  so_set_send_buffer_size :: "nat \<Rightarrow> 's \<Rightarrow> 's"
  so_bind :: "'addr \<Rightarrow> 's \<Rightarrow> 's \<times> unit io_result"
  so_setsockopt :: "socket_option \<Rightarrow> 32 word \<Rightarrow> 's \<Rightarrow> 's"
  so_send_to :: "bytes \<Rightarrow> 'addr \<Rightarrow> 's \<Rightarrow> 's \<times> nat io_result"
  so_recv_from :: "bytes \<Rightarrow> 's \<Rightarrow> 's \<times> bytes \<times> (nat \<times> 'addr) io_result"
  so_recvmsg :: "bytes \<Rightarrow> 's \<Rightarrow> 's \<times> bytes \<times> (nat \<times> 'addr option \<times> control_message list) io_result"
  so_local_addr :: "'s \<Rightarrow> 'addr io_result"

section \<open>Datagram buffers\<close>

definition MAX_DATAGRAM_SIZE :: nat where
  "MAX_DATAGRAM_SIZE = 2048"

record 'addr recv_datagram =
  rd_buf :: bytes
  rd_len :: nat
  rd_src_addr :: 'addr
  rd_ecn :: u8

definition RecvDatagram_default :: "'addr \<Rightarrow> 'addr recv_datagram" where
  "RecvDatagram_default unspecified = \<lparr> rd_buf = replicate MAX_DATAGRAM_SIZE 0, rd_len = 0, rd_src_addr = unspecified, rd_ecn = 0 \<rparr>"

section \<open>Set-up\<close>

definition DEFAULT_SOCKET_BUFFER_SIZE :: nat where
  "DEFAULT_SOCKET_BUFFER_SIZE = 2 * 1024 * 1024"

definition ECN_ECT0 :: u8 where
  "ECN_ECT0 = 2"

definition ecn_from_tos :: "u8 \<Rightarrow> u8" where
  "ecn_from_tos tos = tos AND 3"

text \<open>The socket is the state of the system calls; the wrapper adds one flag.\<close>

record 's udp_socket_io =
  us_socket :: 's
  us_ecn_enabled :: bool

text \<open>A call that ends the set-up when it fails.\<close>

definition os_call :: "('s \<Rightarrow> 's \<times> unit io_result) \<Rightarrow> 's \<Rightarrow> 's result" where
  "os_call f s = (case f s of (s', Inr ()) \<Rightarrow> Ok s' | (s', Inl e) \<Rightarrow> Err (Io (ie_text e)))"

definition UdpSocketIo_bind :: "('s, 'addr) socket_ops \<Rightarrow> 'addr \<Rightarrow> 's \<Rightarrow> 's udp_socket_io result" where
  "UdpSocketIo_bind os addr s0 =
     obind (os_call (so_open os addr) s0) (\<lambda>s1.
     obind (os_call (so_set_nonblocking os) s1) (\<lambda>s2.
     omap (\<lambda>s3. \<lparr> us_socket = s3, us_ecn_enabled = False \<rparr>)
       (os_call (so_bind os addr)
         (so_set_send_buffer_size os DEFAULT_SOCKET_BUFFER_SIZE (so_set_recv_buffer_size os DEFAULT_SOCKET_BUFFER_SIZE s2)))))"

definition UdpSocketIo_from_std :: "('s, 'addr) socket_ops \<Rightarrow> 's \<Rightarrow> 's udp_socket_io result" where
  "UdpSocketIo_from_std os s = omap (\<lambda>s'. \<lparr> us_socket = s', us_ecn_enabled = False \<rparr>) (os_call (so_set_nonblocking os) s)"

definition set_ecn_sockopts :: "('s, 'addr) socket_ops \<Rightarrow> 's \<Rightarrow> 's" where
  "set_ecn_sockopts os s =
     (let ect0 = ucast ECN_ECT0;
          s1 = so_setsockopt os IP_TOS ect0 s;
          s2 = so_setsockopt os IP_RECVTOS 1 s1;
          tclass = push_bit 20 (ucast ECN_ECT0);
          s3 = so_setsockopt os IPV6_TCLASS tclass s2
      in so_setsockopt os IPV6_RECVTCLASS 1 s3)"

definition enable_ecn :: "('s, 'addr) socket_ops \<Rightarrow> 's udp_socket_io \<Rightarrow> 's udp_socket_io \<times> unit result" where
  "enable_ecn os io = (io\<lparr> us_socket := set_ecn_sockopts os (us_socket io), us_ecn_enabled := True \<rparr>, Ok ())"

section \<open>Receiving one datagram\<close>

definition is_transient_recv :: "error_kind \<Rightarrow> bool" where
  "is_transient_recv kind \<longleftrightarrow> kind \<in> {WouldBlock, ConnectionReset, ConnectionRefused, Interrupted}"

text \<open>The walk over the control messages: each message with a mark replaces the one before.\<close>

fun walk_control :: "control_message list \<Rightarrow> u8 \<Rightarrow> u8" where
  "walk_control [] ecn = ecn"
| "walk_control (m # ms) ecn =
     walk_control ms (case (cm_option m, cm_data m) of
        (Some IP_TOS, b # _) \<Rightarrow> ecn_from_tos b
      | (Some IPV6_TCLASS, b # _) \<Rightarrow> ecn_from_tos b
      | _ \<Rightarrow> ecn)"

definition recv_one_with_ecn :: "('s, 'addr) socket_ops \<Rightarrow> bytes \<Rightarrow> 's \<Rightarrow> 's \<times> bytes \<times> (nat \<times> 'addr \<times> u8) io_result" where
  "recv_one_with_ecn os buf s = (case so_recvmsg os buf s of
     (s', buf', Inl e) \<Rightarrow> (s', buf', Inl e)
   | (s', buf', Inr (n, None, msgs)) \<Rightarrow> (s', buf', Inl \<lparr> ie_kind = InvalidData, ie_text = ''unknown family'' \<rparr>)
   | (s', buf', Inr (n, Some addr, msgs)) \<Rightarrow> (s', buf', Inr (n, addr, walk_control msgs 0)))"

definition recv_one :: "('s, 'addr) socket_ops \<Rightarrow> bool \<Rightarrow> bytes \<Rightarrow> 's \<Rightarrow> 's \<times> bytes \<times> (nat \<times> 'addr \<times> u8) io_result" where
  "recv_one os ecn_enabled buf s =
     (if ecn_enabled then recv_one_with_ecn os buf s
      else case so_recv_from os buf s of
             (s', buf', Inr (n, src)) \<Rightarrow> (s', buf', Inr (n, src, 0))
           | (s', buf', Inl e) \<Rightarrow> (s', buf', Inl e))"

section \<open>Batches\<close>

text \<open>Any error ends the batch, and the count of datagrams sent so far is the result.\<close>

fun send_loop :: "('s, 'addr) socket_ops \<Rightarrow> (bytes \<times> 'addr) list \<Rightarrow> 's \<Rightarrow> 's \<times> nat" where
  "send_loop os [] s = (s, 0)"
| "send_loop os ((payload, target) # packets) s = (case so_send_to os payload target s of
     (s', Inr _) \<Rightarrow> (let (s'', n) = send_loop os packets s' in (s'', n + 1))
   | (s', Inl _) \<Rightarrow> (s', 0))"

definition send_batch :: "('s, 'addr) socket_ops \<Rightarrow> (bytes \<times> 'addr) list \<Rightarrow> 's udp_socket_io \<Rightarrow> 's udp_socket_io \<times> nat result" where
  "send_batch os packets io = (let (s, n) = send_loop os packets (us_socket io) in (io\<lparr> us_socket := s \<rparr>, Ok n))"

text \<open>A transient error ends the batch with the count so far, any other error replaces the count.\<close>

fun recv_loop :: "('s, 'addr) socket_ops \<Rightarrow> bool \<Rightarrow> 'addr recv_datagram list \<Rightarrow> nat \<Rightarrow> 's \<Rightarrow> 's \<times> 'addr recv_datagram list \<times> nat result" where
  "recv_loop os ecn_enabled [] count s = (s, [], Ok count)"
| "recv_loop os ecn_enabled (item # items) count s = (case recv_one os ecn_enabled (rd_buf item) s of
     (s', buf, Inr (n, src, ecn)) \<Rightarrow>
       (let (s'', items', r) = recv_loop os ecn_enabled items (count + 1) s'
        in (s'', \<lparr> rd_buf = buf, rd_len = n, rd_src_addr = src, rd_ecn = ecn \<rparr> # items', r))
   | (s', buf, Inl e) \<Rightarrow>
       (s', item\<lparr> rd_buf := buf \<rparr> # items, if is_transient_recv (ie_kind e) then Ok count else Err (Io (ie_text e))))"

definition recv_batch :: "('s, 'addr) socket_ops \<Rightarrow> 'addr recv_datagram list \<Rightarrow> 's udp_socket_io \<Rightarrow>
    's udp_socket_io \<times> 'addr recv_datagram list \<times> nat result" where
  "recv_batch os slots io =
     (let (s, slots', r) = recv_loop os (us_ecn_enabled io) slots 0 (us_socket io) in (io\<lparr> us_socket := s \<rparr>, slots', r))"

definition io_local_addr :: "('s, 'addr) socket_ops \<Rightarrow> 's udp_socket_io \<Rightarrow> 'addr result" where
  "io_local_addr os io = (case so_local_addr os (us_socket io) of Inr a \<Rightarrow> Ok a | Inl e \<Rightarrow> Err (Io (ie_text e)))"

section \<open>Laws\<close>

lemma walk_control_range: "ecn < 4 \<Longrightarrow> walk_control msgs ecn < 4"
proof (induction msgs arbitrary: ecn)
  case (Cons m msgs)
  have "ecn_from_tos b < 4" for b
  proof -
    have "b AND 3 = take_bit 2 b" by (simp add: take_bit_eq_mask mask_eq_exp_minus_1)
    then show ?thesis by (simp add: ecn_from_tos_def take_bit_eq_mod word_less_nat_alt unat_mod)
  qed
  then show ?case using Cons by (auto split: option.split socket_option.split list.split)
qed simp

lemma recv_one_ecn_range: "recv_one os e buf s = (s', buf', Inr (n, src, ecn)) \<Longrightarrow> ecn < 4"
  using walk_control_range [of 0]
  by (auto simp: recv_one_def recv_one_with_ecn_def split: if_splits prod.splits sum.splits option.splits)

text \<open>
  A batch submits a prefix of its datagrams in order. The count returned is the length of that
  prefix; the batch stops at the end of the list or at the first datagram the socket refuses, which is
  tried once, and nothing behind it is tried.
\<close>

theorem send_batch_exact:
  assumes "send_batch os packets io = (io', r)"
  shows "\<exists>n ss. r = Ok n \<and> n \<le> length packets \<and> ss 0 = us_socket io \<and>
    (\<forall>i < n. \<exists>k. so_send_to os (fst (packets ! i)) (snd (packets ! i)) (ss i) = (ss (Suc i), Inr k)) \<and>
    (if n = length packets then us_socket io' = ss n
     else \<exists>e. so_send_to os (fst (packets ! n)) (snd (packets ! n)) (ss n) = (us_socket io', Inl e))"
proof -
  have "\<exists>ss. n \<le> length packets \<and> ss 0 = s \<and>
      (\<forall>i < n. \<exists>k. so_send_to os (fst (packets ! i)) (snd (packets ! i)) (ss i) = (ss (Suc i), Inr k)) \<and>
      (if n = length packets then s' = ss n else \<exists>e. so_send_to os (fst (packets ! n)) (snd (packets ! n)) (ss n) = (s', Inl e))"
    if "send_loop os packets s = (s', n)" for s s' n
    using that
  proof (induction packets arbitrary: s n)
    case Nil
    then show ?case by (intro exI [of _ "\<lambda>_. s"]) simp
  next
    case (Cons p packets)
    obtain payload target where p: "p = (payload, target)" by (cases p)
    show ?case
    proof (cases "so_send_to os payload target s")
      case (Pair s1 res)
      show ?thesis
      proof (cases res)
        case (Inl e)
        then show ?thesis using Cons.prems Pair p by (intro exI [of _ "\<lambda>_. s"]) auto
      next
        case (Inr k)
        then obtain m where m: "send_loop os packets s1 = (s', m)" "n = Suc m" using Cons.prems Pair p by (auto split: prod.splits)
        from Cons.IH [OF m(1)] obtain ss where "m \<le> length packets" "ss 0 = s1"
          "\<forall>i < m. \<exists>k. so_send_to os (fst (packets ! i)) (snd (packets ! i)) (ss i) = (ss (Suc i), Inr k)"
          "if m = length packets then s' = ss m else \<exists>e. so_send_to os (fst (packets ! m)) (snd (packets ! m)) (ss m) = (s', Inl e)"
          by auto
        then show ?thesis using m(2) Pair Inr p by (intro exI [of _ "case_nat s ss"]) (auto simp: less_Suc_eq_0_disj)
      qed
    qed
  qed
  moreover obtain s n where "send_loop os packets (us_socket io) = (s, n)" "us_socket io' = s" "r = Ok n"
    using assms by (auto simp: send_batch_def Let_def split: prod.splits)
  ultimately show ?thesis by blast
qed

text \<open>What the loop does, from a count on.\<close>

definition recv_trace :: "('s, 'addr) socket_ops \<Rightarrow> bool \<Rightarrow> 'addr recv_datagram list \<Rightarrow> 's \<Rightarrow> 's \<Rightarrow> 'addr recv_datagram list \<Rightarrow> nat \<Rightarrow> (nat \<Rightarrow> 's) \<Rightarrow> bool" where
  "recv_trace os e slots s s' slots' k ss \<longleftrightarrow>
     k \<le> length slots \<and> length slots' = length slots \<and> ss 0 = s \<and> drop (Suc k) slots' = drop (Suc k) slots \<and>
     (\<forall>i < k. recv_one os e (rd_buf (slots ! i)) (ss i) =
        (ss (Suc i), rd_buf (slots' ! i), Inr (rd_len (slots' ! i), rd_src_addr (slots' ! i), rd_ecn (slots' ! i))))"

lemma recv_loop_trace:
  assumes "recv_loop os e slots count s = (s', slots', r)"
  shows "\<exists>k ss. recv_trace os e slots s s' slots' k ss \<and>
    (if k = length slots then s' = ss k \<and> r = Ok (count + k)
     else \<exists>buf err. recv_one os e (rd_buf (slots ! k)) (ss k) = (s', buf, Inl err) \<and>
       r = (if is_transient_recv (ie_kind err) then Ok (count + k) else Err (Io (ie_text err))))"
  using assms
proof (induction slots arbitrary: count s slots')
  case Nil
  then show ?case by (intro exI [of _ 0] exI [of _ "\<lambda>_. s"]) (simp add: recv_trace_def)
next
  case (Cons item slots)
  obtain s1 buf res where one: "recv_one os e (rd_buf item) s = (s1, buf, res)" by (cases "recv_one os e (rd_buf item) s")
  show ?case
  proof (cases res)
    case (Inl err)
    then show ?thesis using Cons.prems one by (intro exI [of _ 0] exI [of _ "\<lambda>_. s"]) (auto simp: recv_trace_def)
  next
    case (Inr a)
    obtain n src ecn where a: "a = (n, src, ecn)" by (cases a)
    obtain items' where rest: "recv_loop os e slots (count + 1) s1 = (s', items', r)"
      "slots' = \<lparr> rd_buf = buf, rd_len = n, rd_src_addr = src, rd_ecn = ecn \<rparr> # items'"
      using Cons.prems one Inr a by (auto split: prod.splits)
    from Cons.IH [OF rest(1)] obtain k ss where k: "recv_trace os e slots s1 s' items' k ss"
      "if k = length slots then s' = ss k \<and> r = Ok (count + 1 + k)
       else \<exists>buf err. recv_one os e (rd_buf (slots ! k)) (ss k) = (s', buf, Inl err) \<and>
         r = (if is_transient_recv (ie_kind err) then Ok (count + 1 + k) else Err (Io (ie_text err)))"
      by blast
    have "recv_trace os e (item # slots) s s' slots' (Suc k) (case_nat s ss)"
      using k(1) one Inr a rest(2) by (auto simp: recv_trace_def less_Suc_eq_0_disj)
    moreover have shift: "count + Suc k = count + 1 + k" by simp
    have "if Suc k = length (item # slots) then s' = case_nat s ss (Suc k) \<and> r = Ok (count + Suc k)
       else \<exists>buf err. recv_one os e (rd_buf ((item # slots) ! Suc k)) (case_nat s ss (Suc k)) = (s', buf, Inl err) \<and>
         r = (if is_transient_recv (ie_kind err) then Ok (count + Suc k) else Err (Io (ie_text err)))"
      using k(2) by (simp only: length_Cons nat.inject nat.case(2) nth_Cons_Suc shift)
    ultimately show ?thesis by blast
  qed
qed

text \<open>
  C38: a receive batch fills a prefix of its slots with consecutive datagrams of the socket, each with its
  length, source and a mark below four, and leaves the slots behind the first failure as they were. It
  returns the length of the prefix when every slot is filled or the failure is transient. Any other
  failure is returned as an error: the datagrams before it have been taken from the socket and stand in
  the slots, and the caller is not told how many.
\<close>

theorem recv_batch_exact:
  assumes "recv_batch os slots io = (io', slots', r)"
  shows "\<exists>k ss. k \<le> length slots \<and> length slots' = length slots \<and> ss 0 = us_socket io \<and> drop (Suc k) slots' = drop (Suc k) slots \<and>
    (\<forall>i < k. recv_one os (us_ecn_enabled io) (rd_buf (slots ! i)) (ss i) =
       (ss (Suc i), rd_buf (slots' ! i), Inr (rd_len (slots' ! i), rd_src_addr (slots' ! i), rd_ecn (slots' ! i))) \<and> rd_ecn (slots' ! i) < 4) \<and>
    (if k = length slots then us_socket io' = ss k \<and> r = Ok k
     else \<exists>buf e. recv_one os (us_ecn_enabled io) (rd_buf (slots ! k)) (ss k) = (us_socket io', buf, Inl e) \<and>
       r = (if is_transient_recv (ie_kind e) then Ok k else Err (Io (ie_text e))))"
proof -
  obtain s where s: "recv_loop os (us_ecn_enabled io) slots 0 (us_socket io) = (s, slots', r)" "us_socket io' = s"
    using assms by (auto simp: recv_batch_def Let_def split: prod.splits)
  from recv_loop_trace [OF s(1), unfolded add_0] obtain k ss where k: "recv_trace os (us_ecn_enabled io) slots (us_socket io) s slots' k ss"
    "if k = length slots then s = ss k \<and> r = Ok k
     else \<exists>buf err. recv_one os (us_ecn_enabled io) (rd_buf (slots ! k)) (ss k) = (s, buf, Inl err) \<and>
       r = (if is_transient_recv (ie_kind err) then Ok k else Err (Io (ie_text err)))"
    by blast
  have "rd_ecn (slots' ! i) < 4" if "i < k" for i using k(1) that recv_one_ecn_range unfolding recv_trace_def by metis
  then show ?thesis using k s(2) by (intro exI [of _ k] exI [of _ ss]) (simp add: recv_trace_def)
qed

text \<open>
  \<^verbatim>\<open>enable_ecn\<close> does not mark IPv6 traffic. The traffic class is a byte and the system refuses a value
  outside \<open>-1..255\<close>, leaving the socket as it was; the code passes the mark shifted by twenty bits, so
  setting the option has no effect, and \<^verbatim>\<open>enable_ecn\<close> reports success.
\<close>

theorem ipv6_traffic_not_marked:
  assumes refuse: "\<And>v s. sint v < -1 \<or> 255 < sint v \<Longrightarrow> so_setsockopt os IPV6_TCLASS v s = s"
  shows "enable_ecn os io = (io\<lparr> us_socket := so_setsockopt os IPV6_RECVTCLASS 1 (so_setsockopt os IP_RECVTOS 1 (so_setsockopt os IP_TOS 2 (us_socket io))),
    us_ecn_enabled := True \<rparr>, Ok ())"
proof -
  have "so_setsockopt os IPV6_TCLASS 2097152 s = s" for s by (rule refuse) simp
  then show ?thesis by (simp add: enable_ecn_def set_ecn_sockopts_def ECN_ECT0_def Let_def)
qed

section \<open>Witnesses\<close>

text \<open>
  A socket over lists: what was sent, what will be received, and the traffic class options that were
  set. It takes two datagrams and then blocks.
\<close>

record sample_socket =
  ss_sent :: "(bytes \<times> nat) list"
  ss_incoming :: "(bytes \<times> nat) io_result list"
  ss_options :: "(socket_option \<times> int) list"

definition would_block :: io_error where
  "would_block = \<lparr> ie_kind = WouldBlock, ie_text = ''would block'' \<rparr>"

definition sample_os :: "(sample_socket, nat) socket_ops" where
  "sample_os = \<lparr> so_open = (\<lambda>a s. (s, Inr ())), so_set_nonblocking = (\<lambda>s. (s, Inr ())), so_set_recv_buffer_size = (\<lambda>n s. s),
     so_set_send_buffer_size = (\<lambda>n s. s), so_bind = (\<lambda>a s. (s, Inr ())),
     so_setsockopt = (\<lambda>opt v s. if opt = IPV6_TCLASS \<and> (sint v < -1 \<or> 255 < sint v) then s else s\<lparr> ss_options := (opt, sint v) # ss_options s \<rparr>),
     so_send_to = (\<lambda>payload target s. if length (ss_sent s) < 2 then (s\<lparr> ss_sent := ss_sent s @ [(payload, target)] \<rparr>, Inr (length payload)) else (s, Inl would_block)),
     so_recv_from = (\<lambda>buf s. case ss_incoming s of [] \<Rightarrow> (s, buf, Inl would_block)
       | Inl e # rest \<Rightarrow> (s\<lparr> ss_incoming := rest \<rparr>, buf, Inl e)
       | Inr (d, src) # rest \<Rightarrow> (s\<lparr> ss_incoming := rest \<rparr>, take (length buf) d @ drop (length d) buf, Inr (min (length buf) (length d), src))),
     so_recvmsg = (\<lambda>buf s. (s, buf, Inl would_block)), so_local_addr = (\<lambda>s. Inr 0) \<rparr>"

definition sample_io :: "sample_socket udp_socket_io" where
  "sample_io = \<lparr> us_socket = \<lparr> ss_sent = [], ss_incoming = [Inr ([1, 2], 9), Inl \<lparr> ie_kind = OtherKind ''reset'', ie_text = ''broken'' \<rparr>], ss_options = [] \<rparr>,
     us_ecn_enabled = False \<rparr>"

theorem send_batch_exact_witness:
  "\<exists>io'. send_batch sample_os [([1], 5), ([2], 5), ([3], 5)] sample_io = (io', Ok 2) \<and> ss_sent (us_socket io') = [([1], 5), ([2], 5)]"
proof -
  obtain io' r where run: "send_batch sample_os [([1], 5), ([2], 5), ([3], 5)] sample_io = (io', r)" by fastforce
  from send_batch_exact [OF run] obtain n where "r = Ok n" by blast
  moreover have "r = Ok 2" "ss_sent (us_socket io') = [([1], 5), ([2], 5)]"
    using run by (auto simp: send_batch_def sample_os_def sample_io_def)
  ultimately show ?thesis using run by blast
qed

theorem recv_batch_exact_witness:
  "\<exists>io' slots'. recv_batch sample_os (replicate 2 (RecvDatagram_default 0)) sample_io = (io', slots', Err (Io ''broken'')) \<and>
     ss_incoming (us_socket io') = [] \<and> length slots' = 2"
proof -
  obtain io' slots' r where run: "recv_batch sample_os (replicate 2 (RecvDatagram_default 0)) sample_io = (io', slots', r)" by (metis prod_cases3)
  from recv_batch_exact [OF run] have "length slots' = 2" by auto
  moreover have "r = Err (Io ''broken'')" "ss_incoming (us_socket io') = []"
    using run by (auto simp: recv_batch_def recv_one_def sample_os_def sample_io_def is_transient_recv_def numeral_2_eq_2)
  ultimately show ?thesis using run by blast
qed

theorem ipv6_traffic_not_marked_witness:
  "map fst (ss_options (us_socket (fst (enable_ecn sample_os sample_io)))) = [IPV6_RECVTCLASS, IP_RECVTOS, IP_TOS]"
  by (subst ipv6_traffic_not_marked) (auto simp: sample_os_def sample_io_def)

end
