(* ===== verification/Utf8.thy ===== *)
theory Utf8
  imports GTP_Types
begin

unbundle bit_operations_syntax

text \<open>
  The part of \<^verbatim>\<open>core::str\<close> the wire crate relies on: \<^verbatim>\<open>from_utf8\<close> accepts exactly the
  well-formed byte sequences of the Unicode standard (table 3-7), and a cut of a valid string at a
  position whose next byte is not a continuation byte leaves a valid string. The trimming loop of
  \<^verbatim>\<open>Frame::encode\<close> for close reasons is modelled here, next to the lemma that justifies it.
\<close>

definition is_cont :: "u8 \<Rightarrow> bool" where
  "is_cont b \<longleftrightarrow> b AND 0xC0 = 0x80"

definition cont_range :: "u8 \<Rightarrow> u8 \<Rightarrow> u8 \<Rightarrow> bool" where
  "cont_range lo hi b \<longleftrightarrow> lo \<le> b \<and> b \<le> hi"

text \<open>Length and second-byte range of a multi-byte sequence, from its lead byte.\<close>

definition utf8_lead :: "u8 \<Rightarrow> (nat \<times> u8 \<times> u8) option" where
  "utf8_lead b =
     (if b < 0x80 then Some (0, 0, 0)
      else if cont_range 0xC2 0xDF b then Some (1, 0x80, 0xBF)
      else if b = 0xE0 then Some (2, 0xA0, 0xBF)
      else if cont_range 0xE1 0xEC b then Some (2, 0x80, 0xBF)
      else if b = 0xED then Some (2, 0x80, 0x9F)
      else if cont_range 0xEE 0xEF b then Some (2, 0x80, 0xBF)
      else if b = 0xF0 then Some (3, 0x90, 0xBF)
      else if cont_range 0xF1 0xF3 b then Some (3, 0x80, 0xBF)
      else if b = 0xF4 then Some (3, 0x80, 0x8F)
      else None)"

fun utf8_valid :: "bytes \<Rightarrow> bool" where
  "utf8_valid [] = True"
| "utf8_valid (b # bs) =
     (case utf8_lead b of
        None \<Rightarrow> False
      | Some (n, lo, hi) \<Rightarrow>
          n \<le> length bs
          \<and> (n = 0 \<or> cont_range lo hi (hd bs))
          \<and> (\<forall>c \<in> set (take n bs). is_cont c)
          \<and> utf8_valid (drop n bs))"

text \<open>
  \<^verbatim>\<open>while n < len && (bytes[n] & 0xC0) == 0x80 { n -= 1 }\<close>. At zero the decrement would wrap, and
  the wrapped value ends the loop; valid strings never get there.
\<close>

fun utf8_trim :: "bytes \<Rightarrow> nat \<Rightarrow> nat" where
  "utf8_trim bs 0 = (if 0 < length bs \<and> is_cont (bs ! 0) then u64_max else 0)"
| "utf8_trim bs (Suc n) = (if Suc n < length bs \<and> is_cont (bs ! Suc n) then utf8_trim bs n else Suc n)"

section \<open>Continuation bytes\<close>

lemma is_cont_iff: "is_cont b \<longleftrightarrow> 0x80 \<le> unat b \<and> unat b < 0xC0"
proof -
  have "(0xC0 :: u8) = NOT (mask 6)" by (simp add: mask_eq_exp_minus_1)
  then have "b AND 0xC0 = push_bit 6 (drop_bit 6 b)"
    by (simp only:) (auto simp: bit_eq_iff bit_simps)
  moreover have "unat (push_bit 6 (drop_bit 6 b)) = 64 * (unat b div 64)"
    using unat_lt_exp [of b]
    by (simp only: unsigned_push_bit_eq unsigned_drop_bit_eq)
       (simp add: push_bit_eq_mult drop_bit_eq_div take_bit_nat_eq_self)
  ultimately have "unat (b AND 0xC0) = 64 * (unat b div 64)" by simp
  moreover have "is_cont b \<longleftrightarrow> unat (b AND 0xC0) = unat (0x80 :: u8)"
    unfolding is_cont_def by (metis unat_eqI)
  ultimately have "is_cont b \<longleftrightarrow> 64 * (unat b div 64) = 0x80" by simp
  also have "\<dots> \<longleftrightarrow> 0x80 \<le> unat b \<and> unat b < 0xC0"
  proof
    assume "0x80 \<le> unat b \<and> unat b < 0xC0"
    then have "unat b div 64 = 2" by (intro div_nat_eqI) auto
    then show "64 * (unat b div 64) = 0x80" by simp
  qed linarith
  finally show ?thesis .
qed

lemma utf8_lead_not_cont: "utf8_lead b = Some r \<Longrightarrow> \<not> is_cont b"
  by (auto simp: utf8_lead_def cont_range_def is_cont_iff word_le_nat_alt word_less_nat_alt split: if_splits)

lemma utf8_lead_len: "utf8_lead b = Some (n, lo, hi) \<Longrightarrow> n \<le> 3"
  by (auto simp: utf8_lead_def split: if_splits)

section \<open>Cutting at a boundary\<close>

text \<open>A cut position is a character boundary iff the byte after it is not a continuation byte.\<close>

definition at_boundary :: "bytes \<Rightarrow> nat \<Rightarrow> bool" where
  "at_boundary bs k \<longleftrightarrow> \<not> (k < length bs \<and> is_cont (bs ! k))"

lemma utf8_valid_take:
  "utf8_valid bs \<Longrightarrow> at_boundary bs k \<Longrightarrow> utf8_valid (take k bs)"
proof (induction bs arbitrary: k rule: utf8_valid.induct)
  case 1
  then show ?case by simp
next
  case (2 b bs)
  then obtain n lo hi where lead: "utf8_lead b = Some (n, lo, hi)"
    by (auto split: option.splits)
  with 2(2) have v: "n \<le> length bs" "n = 0 \<or> cont_range lo hi (hd bs)"
    "\<forall>c \<in> set (take n bs). is_cont c" "utf8_valid (drop n bs)"
    by auto
  show ?case
  proof (cases k)
    case (Suc j)
    have "n \<le> j"
    proof (rule ccontr)
      assume "\<not> n \<le> j"
      then have "j < length bs" and "bs ! j \<in> set (take n bs)"
        using v(1) by (auto simp: in_set_conv_nth intro!: exI [of _ j])
      with v(3) 2(3) Suc show False by (auto simp: at_boundary_def)
    qed
    then have "utf8_valid (take (j - n) (drop n bs))"
      using 2(3) Suc v(1) by (intro 2(1) [OF lead refl refl]) (auto simp: at_boundary_def v(4))
    moreover have "take n (take j bs) = take n bs" and "drop n (take j bs) = take (j - n) (drop n bs)"
      using \<open>n \<le> j\<close> by (simp_all add: min_def drop_take)
    moreover have "n = 0 \<or> hd (take j bs) = hd bs"
      using \<open>n \<le> j\<close> by (cases bs; cases j) auto
    ultimately show ?thesis
      using lead v \<open>n \<le> j\<close> Suc by auto
  qed simp
qed

text \<open>The loop stops at a boundary, at or before where it started, within one character.\<close>

lemma utf8_valid_first: "utf8_valid bs \<Longrightarrow> 0 < length bs \<Longrightarrow> \<not> is_cont (bs ! 0)"
  by (cases bs) (auto split: option.splits dest: utf8_lead_not_cont)

lemma utf8_trim_boundary: "utf8_valid bs \<Longrightarrow> at_boundary bs (utf8_trim bs n)"
  by (induction bs n rule: utf8_trim.induct) (auto simp: at_boundary_def dest: utf8_valid_first)

lemma utf8_trim_le: "utf8_valid bs \<Longrightarrow> utf8_trim bs n \<le> n"
  by (induction bs n rule: utf8_trim.induct) (auto dest: utf8_valid_first)

lemma utf8_trim_id: "at_boundary bs n \<Longrightarrow> utf8_valid bs \<Longrightarrow> utf8_trim bs n = n"
  by (cases n) (auto simp: at_boundary_def)

lemma utf8_trim_valid: "utf8_valid bs \<Longrightarrow> utf8_valid (take (utf8_trim bs n) bs)"
  by (simp add: utf8_valid_take utf8_trim_boundary)

end
