(* ===== verification/Cli_Hex.thy ===== *)
theory Cli_Hex
  imports Number_Text Utf8
begin

text \<open>
  The keys of the command line (\<^verbatim>\<open>gtp-cli/src/main.rs\<close>): the seed of a server and the pinned key of a client are
  given as 64 hexadecimal characters. An argument is a string in UTF-8, as the list of its bytes; a slice
  that cuts a character panics. Laws: every key written in hexadecimal is read back; two kinds of text
  that are no key are not turned down (findings).
\<close>

definition str_boundary :: "string \<Rightarrow> nat \<Rightarrow> bool" where
  "str_boundary s k \<longleftrightarrow> at_boundary (map of_char s) k"

definition hex_byte :: "string \<Rightarrow> nat \<Rightarrow> u8 result" where
  "hex_byte s i =
     (if str_boundary s (i * 2) \<and> str_boundary s (i * 2 + 2)
      then case parse_uint 16 255 (take 2 (drop (i * 2) s)) of
             Some v \<Rightarrow> Ok (of_nat v)
           | None \<Rightarrow> Err (Io ''invalid digit found in string'')
      else Panic)"

fun collect_bytes :: "string \<Rightarrow> nat list \<Rightarrow> bytes result" where
  "collect_bytes s [] = Ok []"
| "collect_bytes s (i # is) = obind (hex_byte s i) (\<lambda>b. omap (\<lambda>bs. b # bs) (collect_bytes s is))"

definition hex_decode :: "string \<Rightarrow> bytes result" where
  "hex_decode s = (if length s mod 2 \<noteq> 0 then Err (Io ''odd-length hex string'') else collect_bytes s [0..<length s div 2])"

definition parse_hex32 :: "string \<Rightarrow> bytes result" where
  "parse_hex32 s = obind (hex_decode s) (\<lambda>bs. if length bs = 32 then Ok bs else Err (Io ''expected 64 hex chars (32 bytes)''))"

section \<open>Keys read back\<close>

text \<open>A server with an identity prints its public key: two lower-case digits for each byte.\<close>

definition lower_digit :: "nat \<Rightarrow> char" where
  "lower_digit d = (if d < 10 then char_of (48 + d) else char_of (87 + d))"

definition show_byte :: "u8 \<Rightarrow> string" where
  "show_byte b = [lower_digit (unat b div 16), lower_digit (unat b mod 16)]"

definition show_hex :: "bytes \<Rightarrow> string" where
  "show_hex bs = concat (map show_byte bs)"

lemma lower_digit_code: "d < 16 \<Longrightarrow> of_char (lower_digit d) = (if d < 10 then 48 + d else 87 + d)"
  by (simp add: lower_digit_def)

lemma lower_digit_val: "d < 16 \<Longrightarrow> digit_val 16 (lower_digit d) = Some d"
  by (auto simp: digit_val_def lower_digit_code)

lemma lower_digit_ascii: "d < 16 \<Longrightarrow> \<not> is_cont (of_char (lower_digit d))"
proof -
  assume d: "d < 16"
  let ?n = "if d < 10 then 48 + d else 87 + d"
  have "(of_char (lower_digit d) :: u8) = of_nat ?n" using lower_digit_code [OF d] by (metis of_nat_of_char)
  moreover have "unat (of_nat ?n :: u8) < 128" using d by (simp add: unat_of_nat)
  ultimately show ?thesis by (simp add: is_cont_iff)
qed

lemma lower_digit_not_plus: "d < 16 \<Longrightarrow> lower_digit d \<noteq> CHR ''+''"
proof
  assume "d < 16" "lower_digit d = CHR ''+''"
  then have "(43 :: nat) = (if d < 10 then 48 + d else 87 + d)" using lower_digit_code [of d] by simp
  then show False by (simp split: if_splits)
qed

lemma unat_u8: "unat (b :: u8) < 256"
  using unat_lt_exp [of b] by simp

lemma length_show_hex [simp]: "length (show_hex bs) = length bs * 2"
  by (induction bs) (simp_all add: show_hex_def show_byte_def)

lemma show_hex_pair: "i < length bs \<Longrightarrow> take 2 (drop (i * 2) (show_hex bs)) = show_byte (bs ! i)"
proof (induction bs arbitrary: i)
  case (Cons b bs)
  then show ?case by (cases i) (simp_all add: show_hex_def show_byte_def)
qed simp

lemma parse_show_byte: "parse_uint 16 255 (show_byte b) = Some (unat b)"
proof -
  have d: "unat b div 16 < 16" "unat b mod 16 < 16" using unat_u8 [of b] by auto
  have "lower_digit (unat b div 16) \<noteq> CHR ''+''" using lower_digit_not_plus [OF d(1)] .
  moreover have "digits_value 16 (show_byte b) 0 = Some (unat b)" using d by (simp add: show_byte_def lower_digit_val)
  moreover have "unat b \<le> 255" using unat_u8 [of b] by simp
  ultimately show ?thesis by (simp add: parse_uint_def show_byte_def)
qed

lemma show_hex_ascii: "c \<in> set (show_hex bs) \<Longrightarrow> \<not> is_cont (of_char c)"
proof -
  assume "c \<in> set (show_hex bs)"
  then obtain b where "c = lower_digit (unat (b :: u8) div 16) \<or> c = lower_digit (unat b mod 16)" by (auto simp: show_hex_def show_byte_def)
  moreover have "unat b div 16 < 16" "unat b mod 16 < 16" using unat_u8 [of b] by auto
  ultimately show ?thesis using lower_digit_ascii by metis
qed

lemma show_hex_boundary: "str_boundary (show_hex bs) k"
  using show_hex_ascii [of "show_hex bs ! k" bs] by (auto simp: str_boundary_def at_boundary_def)

lemma hex_decode_show: "hex_decode (show_hex bs) = Ok bs"
proof -
  have "collect_bytes (show_hex bs) is = Ok (map ((!) bs) is)" if "\<forall>i \<in> set is. i < length bs" for "is"
    using that by (induction "is") (simp_all add: hex_byte_def show_hex_boundary show_hex_pair parse_show_byte)
  from this [of "[0..<length bs]"] show ?thesis by (simp add: hex_decode_def map_nth)
qed

text \<open>
  The key a server prints is the key a client pins: every key of 32 bytes is read back from its
  text, and hexadecimal text of any other length is turned down.
\<close>

theorem parse_hex32_show:
  "parse_hex32 (show_hex bs) = (if length bs = 32 then Ok bs else Err (Io ''expected 64 hex chars (32 bytes)''))"
  by (simp add: parse_hex32_def hex_decode_show)

text \<open>
  A key may hold plus signs: each pair of characters is parsed as a number, and a number may start
  with a plus sign. A text of 32 times a plus sign and one digit is accepted as a key.
\<close>

theorem plus_signs_accepted: "parse_hex32 (concat (replicate 32 ''+7'')) = Ok (replicate 32 7)"
proof -
  let ?s = "concat (replicate 32 ''+7'')"
  have s: "set ?s = {CHR ''+'', CHR ''7''}" "length ?s = 64" by (auto simp: length_concat sum_list_replicate)
  have "\<not> is_cont (of_char c)" if "c \<in> set ?s" for c
    using that s(1) by (auto simp: is_cont_def)
  then have bd: "str_boundary ?s k" for k using nth_mem [of k ?s] by (auto simp: str_boundary_def at_boundary_def simp del: set_concat)
  have pair: "take 2 (drop (i * 2) (concat (replicate n ''+7''))) = ''+7''" if "i < n" for i n
    using that by (induction n arbitrary: i) (auto simp: less_Suc_eq_0_disj)
  have "collect_bytes ?s is = Ok (map (\<lambda>_. 7) is)" if "\<forall>i \<in> set is. i < 32" for "is"
    using that
  proof (induction "is")
    case (Cons i "is")
    have "parse_uint 16 255 ''+7'' = Some 7" by (simp add: parse_uint_def digit_val_def)
    then have "hex_byte ?s i = Ok 7" using bd pair [of i 32] Cons.prems by (simp only: hex_byte_def) simp
    then show ?case using Cons by simp
  qed simp
  from this [of "[0..<32]"] show ?thesis using s(2) by (simp add: parse_hex32_def hex_decode_def map_replicate_const del: upt_rec_numeral)
qed

text \<open>A text of even length with a character of more than one byte across a pair panics.\<close>

theorem non_ascii_key_panics: "parse_hex32 [CHR ''a'', CHR 0xC3, CHR 0xA9, CHR ''b''] = Panic"
  by (simp add: parse_hex32_def hex_decode_def hex_byte_def str_boundary_def at_boundary_def is_cont_def)

end
