(* ===== verification/Ordered_Map.thy ===== *)
theory Ordered_Map
  imports GTP_Prelude
begin

text \<open>
  Key-value containers. The sources keep their tables in \<^verbatim>\<open>BTreeMap\<close> (sent packets, reorder
  buffers) and \<^verbatim>\<open>FxHashMap\<close>/\<^verbatim>\<open>HashMap\<close> (state table, reassembly, delivered index). Both are
  modelled by an association list with strictly increasing keys: iteration is the list order, which
  is the order of \<^verbatim>\<open>BTreeMap\<close>; code over a hash map is modelled only where the iteration order
  does not matter. The locale \<open>weighted_store\<close> is the contract the accounting code relies on: a
  running counter kept next to a table equals the total weight of the table.
\<close>

section \<open>Ordered association lists\<close>

fun om_insert :: "'k::linorder \<Rightarrow> 'v \<Rightarrow> ('k \<times> 'v) list \<Rightarrow> ('k \<times> 'v) list" where
  "om_insert k v [] = [(k, v)]"
| "om_insert k v ((k', v') # xs) =
     (if k < k' then (k, v) # (k', v') # xs
      else if k = k' then (k, v) # xs
      else (k', v') # om_insert k v xs)"

definition om_remove :: "'k \<Rightarrow> ('k \<times> 'v) list \<Rightarrow> ('k \<times> 'v) list" where
  "om_remove k xs = filter (\<lambda>kv. fst kv \<noteq> k) xs"

definition om_wf :: "('k::linorder \<times> 'v) list \<Rightarrow> bool" where
  "om_wf xs \<longleftrightarrow> sorted_wrt (<) (map fst xs)"

definition om_total :: "('v \<Rightarrow> nat) \<Rightarrow> ('k \<times> 'v) list \<Rightarrow> nat" where
  "om_total w xs = sum_list (map (w \<circ> snd) xs)"

lemma om_wf_Nil [simp]: "om_wf []"
  by (simp add: om_wf_def)

lemma om_wf_Cons: "om_wf ((k, v) # xs) \<longleftrightarrow> (\<forall>k' \<in> fst ` set xs. k < k') \<and> om_wf xs"
  by (auto simp: om_wf_def)

lemma map_of_om_insert [simp]: "map_of (om_insert k v xs) = (map_of xs)(k \<mapsto> v)"
  by (induction k v xs rule: om_insert.induct) (auto simp: fun_eq_iff)

lemma fst_set_om_insert: "fst ` set (om_insert k v xs) = insert k (fst ` set xs)"
  by (induction k v xs rule: om_insert.induct) auto

lemma om_wf_insert [simp]: "om_wf xs \<Longrightarrow> om_wf (om_insert k v xs)"
  by (induction k v xs rule: om_insert.induct) (auto simp: om_wf_Cons fst_set_om_insert)

lemma map_of_om_remove [simp]: "map_of (om_remove k xs) = (map_of xs)(k := None)"
  by (induction xs) (auto simp: om_remove_def fun_eq_iff)

lemma om_wf_remove [simp]: "om_wf xs \<Longrightarrow> om_wf (om_remove k xs)"
  by (induction xs) (auto simp: om_remove_def om_wf_def)

lemma set_om_remove: "set (om_remove k xs) = {kv \<in> set xs. fst kv \<noteq> k}"
  by (auto simp: om_remove_def)

lemma om_remove_absent: "map_of xs k = None \<Longrightarrow> om_remove k xs = xs"
  by (auto simp: om_remove_def filter_id_conv map_of_eq_None_iff)

lemma om_wf_distinct: "om_wf xs \<Longrightarrow> distinct (map fst xs)"
  by (auto simp: om_wf_def strict_sorted_iff)

lemma om_wf_lookup: "om_wf xs \<Longrightarrow> map_of xs k = Some v \<longleftrightarrow> (k, v) \<in> set xs"
  by (simp add: om_wf_distinct map_of_eq_Some_iff)

lemma om_wf_filter: "om_wf xs \<Longrightarrow> om_wf (filter P xs)"
  by (induction xs) (auto simp: om_wf_def)

lemma om_insert_new_length: "map_of xs k = None \<Longrightarrow> length (om_insert k v xs) = Suc (length xs)"
  by (induction k v xs rule: om_insert.induct) (auto split: if_splits)

lemma om_insert_old_length:
  "om_wf xs \<Longrightarrow> map_of xs k = Some v' \<Longrightarrow> length (om_insert k v xs) = length xs"
proof (induction k v xs rule: om_insert.induct)
  case (2 k v k1 v1 xs)
  show ?case
  proof (cases "k < k1")
    case True
    with "2.prems"(1) have "k \<notin> fst ` set ((k1, v1) # xs)"
      by (auto simp: om_wf_Cons)
    with "2.prems"(2) show ?thesis
      by (metis map_of_eq_None_iff option.discI)
  qed (use 2 in \<open>auto simp: om_wf_Cons split: if_splits\<close>)
qed simp

lemma om_remove_length:
  "om_wf xs \<Longrightarrow> map_of xs k = Some v \<Longrightarrow> length xs = Suc (length (om_remove k xs))"
proof (induction xs)
  case (Cons kv xs)
  obtain k1 v1 where kv: "kv = (k1, v1)" by (cases kv)
  show ?case
  proof (cases "k = k1")
    case True
    with Cons.prems(1) kv have "map_of xs k = None"
      by (auto simp: om_wf_Cons map_of_eq_None_iff)
    then have "om_remove k xs = xs" by (rule om_remove_absent)
    then show ?thesis using True kv by (simp add: om_remove_def)
  qed (use Cons kv in \<open>auto simp: om_remove_def om_wf_Cons split: if_splits\<close>)
qed simp

lemma om_insert_length_le: "length (om_insert k v xs) \<le> Suc (length xs)"
  by (induction k v xs rule: om_insert.induct) auto

section \<open>Weights\<close>

lemma om_total_Nil [simp]: "om_total w [] = 0"
  by (simp add: om_total_def)

lemma om_total_Cons [simp]: "om_total w ((k, v) # xs) = w v + om_total w xs"
  by (simp add: om_total_def)

lemma om_total_insert:
  "map_of xs k = None \<Longrightarrow> om_total w (om_insert k v xs) = om_total w xs + w v"
  by (induction k v xs rule: om_insert.induct) (auto split: if_splits)

lemma om_total_remove:
  "om_wf xs \<Longrightarrow> map_of xs k = Some v \<Longrightarrow> om_total w xs = om_total w (om_remove k xs) + w v"
proof (induction xs)
  case (Cons kv xs)
  obtain k1 v1 where kv: "kv = (k1, v1)" by (cases kv)
  show ?case
  proof (cases "k = k1")
    case True
    with Cons.prems(1) kv have "map_of xs k = None"
      by (auto simp: om_wf_Cons map_of_eq_None_iff)
    then have "om_remove k xs = xs" by (rule om_remove_absent)
    then show ?thesis using True kv Cons.prems(2) by (simp add: om_remove_def)
  qed (use Cons kv in \<open>auto simp: om_remove_def om_wf_Cons split: if_splits\<close>)
qed simp

lemma om_total_om_insert_old:
  assumes "om_wf xs" and "map_of xs k = Some v'"
  shows "om_total w (om_insert k v xs) + w v' = om_total w xs + w v"
  using assms
proof (induction k v xs rule: om_insert.induct)
  case (2 k v k1 v1 xs)
  show ?case
  proof (cases "k < k1")
    case True
    with "2.prems"(1) have "k \<notin> fst ` set ((k1, v1) # xs)"
      by (auto simp: om_wf_Cons)
    with "2.prems"(2) show ?thesis
      by (metis map_of_eq_None_iff option.discI)
  qed (use 2 in \<open>auto simp: om_wf_Cons split: if_splits\<close>)
qed simp

section \<open>The accounting contract\<close>

locale weighted_store =
  fixes wf :: "'m \<Rightarrow> bool"
    and lookup :: "'m \<Rightarrow> 'k \<Rightarrow> 'v option"
    and ins :: "'k \<Rightarrow> 'v \<Rightarrow> 'm \<Rightarrow> 'm"
    and del :: "'k \<Rightarrow> 'm \<Rightarrow> 'm"
    and weight :: "'v \<Rightarrow> nat"
    and total :: "'m \<Rightarrow> nat"
  assumes lookup_ins: "wf m \<Longrightarrow> lookup (ins k v m) = (lookup m)(k \<mapsto> v)"
    and lookup_del: "wf m \<Longrightarrow> lookup (del k m) = (lookup m)(k := None)"
    and wf_ins: "wf m \<Longrightarrow> wf (ins k v m)"
    and wf_del: "wf m \<Longrightarrow> wf (del k m)"
    and total_ins: "wf m \<Longrightarrow> lookup m k = None \<Longrightarrow> total (ins k v m) = total m + weight v"
    and total_del: "wf m \<Longrightarrow> lookup m k = Some v \<Longrightarrow> total m = total (del k m) + weight v"
    and del_absent: "wf m \<Longrightarrow> lookup m k = None \<Longrightarrow> del k m = m"
begin

lemma weight_le_total: "wf m \<Longrightarrow> lookup m k = Some v \<Longrightarrow> weight v \<le> total m"
  using total_del by fastforce

lemma counter_del: "wf m \<Longrightarrow> lookup m k = Some v \<Longrightarrow> total m - weight v = total (del k m)"
  using total_del by fastforce

lemma total_replace:
  assumes "wf m" and "lookup m k = Some old"
  shows "total (ins k v (del k m)) + weight old = total m + weight v"
proof -
  have "lookup (del k m) k = None"
    using assms(1) by (simp add: lookup_del)
  then show ?thesis
    using assms by (simp add: total_ins wf_del total_del [of m k old])
qed

lemma wf_fold_del: "wf m \<Longrightarrow> wf (fold del ks m)"
  by (induction ks arbitrary: m) (simp_all add: wf_del)

lemma lookup_fold_del:
  "wf m \<Longrightarrow> lookup (fold del ks m) k = (if k \<in> set ks then None else lookup m k)"
  by (induction ks arbitrary: m) (auto simp: lookup_del wf_del)

text \<open>Removing several present keys sheds exactly the sum of their weights.\<close>

lemma total_fold_del:
  assumes "wf m" and "distinct ks" and "\<And>k. k \<in> set ks \<Longrightarrow> lookup m k = Some (val k)"
  shows "total m = total (fold del ks m) + sum_list (map (\<lambda>k. weight (val k)) ks)"
  using assms
proof (induction ks arbitrary: m)
  case Nil
  then show ?case by simp
next
  case (Cons k ks)
  have "total (del k m) = total (fold del ks (del k m)) + sum_list (map (\<lambda>k. weight (val k)) ks)"
    using Cons.prems by (intro Cons.IH) (auto simp: lookup_del wf_del)
  moreover have "total m = total (del k m) + weight (val k)"
    using Cons.prems by (intro total_del) auto
  ultimately show ?case by simp
qed

end

text \<open>The contract holds of the ordered association list, for every weight.\<close>

interpretation om_store: weighted_store om_wf map_of om_insert om_remove w "om_total w"
  by unfold_locales (auto simp: om_total_insert om_remove_absent intro: om_total_remove)

end
