(* ===== verification/State_Table.thy ===== *)
theory State_Table
  imports Ordered_Map GTP_Types
begin

text \<open>
  The supersession table of \<^verbatim>\<open>gtp-scheduler/src/state_table.rs\<close>: the newest generation and sequence
  number seen per state key, bounded by first-in-first-out eviction. The hash map is an association
  list (it is never iterated); the insertion order is the list \<open>st_order\<close>.
\<close>

section \<open>The table\<close>

definition DEFAULT_STATE_TABLE_CAPACITY :: nat where
  "DEFAULT_STATE_TABLE_CAPACITY = 4096"

type_synonym state_entry = "generation_id \<times> state_sequence \<times> message_id"

record state_table =
  st_entries :: "(u64 \<times> state_entry) list"
  st_order :: "u64 list"
  st_capacity :: nat

definition StateTable_with_capacity :: "nat \<Rightarrow> state_table" where
  "StateTable_with_capacity cap = \<lparr> st_entries = [], st_order = [], st_capacity = max cap 1 \<rparr>"

definition StateTable_default :: state_table where
  "StateTable_default = StateTable_with_capacity DEFAULT_STATE_TABLE_CAPACITY"

definition StateTable_len :: "state_table \<Rightarrow> nat" where
  "StateTable_len t = length (st_entries t)"

definition StateTable_is_empty :: "state_table \<Rightarrow> bool" where
  "StateTable_is_empty t \<longleftrightarrow> st_entries t = []"

text \<open>The eviction loop: pop the oldest key while the order is over capacity.\<close>

fun evict_excess :: "nat \<Rightarrow> u64 list \<Rightarrow> (u64 \<times> state_entry) list \<Rightarrow> u64 list \<times> (u64 \<times> state_entry) list" where
  "evict_excess cap [] es = ([], es)"
| "evict_excess cap (oldest # ks) es =
     (if length (oldest # ks) > cap then evict_excess cap ks (om_remove oldest es) else (oldest # ks, es))"

definition StateTable_insert_new :: "u64 \<Rightarrow> state_entry \<Rightarrow> state_table \<Rightarrow> state_table" where
  "StateTable_insert_new key value t =
     (let (ord, es) = evict_excess (st_capacity t) (st_order t @ [key]) (om_insert key value (st_entries t))
      in t\<lparr> st_entries := es, st_order := ord \<rparr>)"

definition should_admit :: "state_key \<Rightarrow> generation_id \<Rightarrow> state_sequence \<Rightarrow> state_table \<Rightarrow> bool" where
  "should_admit key gen sq t = (case map_of (st_entries t) (StateKey_to_u48 key) of
       None \<Rightarrow> True
     | Some (curr_gen, curr_seq, _) \<Rightarrow>
         if GenerationId_is_newer_than gen curr_gen then True
         else if gen = curr_gen \<and> StateSequence_is_newer_than sq curr_seq then True
         else False)"

definition StateTable_update ::
  "state_key \<Rightarrow> generation_id \<Rightarrow> state_sequence \<Rightarrow> message_id \<Rightarrow> state_table \<Rightarrow> state_table \<times> message_id option" where
  "StateTable_update key gen sq mid t =
     (let k = StateKey_to_u48 key in
      case map_of (st_entries t) k of
        Some (curr_gen, curr_seq, old) \<Rightarrow>
          if GenerationId_is_newer_than gen curr_gen \<or>
             (gen = curr_gen \<and> StateSequence_is_newer_than sq curr_seq)
          then (t\<lparr> st_entries := om_insert k (gen, sq, mid) (st_entries t) \<rparr>, Some old)
          else (t, None)
      | None \<Rightarrow> (StateTable_insert_new k (gen, sq, mid) t, None))"

section \<open>Invariant\<close>

definition st_wf :: "state_table \<Rightarrow> bool" where
  "st_wf t \<longleftrightarrow> om_wf (st_entries t) \<and> distinct (st_order t) \<and>
     set (st_order t) = fst ` set (st_entries t) \<and>
     length (st_order t) \<le> st_capacity t \<and> 1 \<le> st_capacity t"

lemma st_wf_new: "st_wf (StateTable_with_capacity cap)"
  by (simp add: st_wf_def StateTable_with_capacity_def)

lemma st_wf_length: "st_wf t \<Longrightarrow> StateTable_len t = length (st_order t)"
proof -
  assume wf: "st_wf t"
  then have "length (st_entries t) = card (fst ` set (st_entries t))"
    using om_wf_distinct [of "st_entries t"] distinct_card [of "map fst (st_entries t)"]
    by (simp add: st_wf_def)
  then show ?thesis
    using wf distinct_card [of "st_order t"] by (simp add: st_wf_def StateTable_len_def)
qed

lemma keys_om_remove: "fst ` set (om_remove k xs) = fst ` set xs - {k}"
  by (auto simp: set_om_remove)

text \<open>A new key displaces at most the oldest one.\<close>

lemma insert_new_cases:
  assumes "st_wf t" and "map_of (st_entries t) k = None"
  obtains "length (st_order t) < st_capacity t"
      and "StateTable_insert_new k v t =
        t\<lparr> st_entries := om_insert k v (st_entries t), st_order := st_order t @ [k] \<rparr>"
  | oldest ks where "st_order t = oldest # ks" and "length (st_order t) = st_capacity t" and "oldest \<noteq> k"
      and "StateTable_insert_new k v t =
        t\<lparr> st_entries := om_remove oldest (om_insert k v (st_entries t)), st_order := ks @ [k] \<rparr>"
proof (cases "length (st_order t) < st_capacity t")
  case True
  have "evict_excess (st_capacity t) (st_order t @ [k]) es = (st_order t @ [k], es)" for es
    using True by (cases "st_order t") auto
  then show thesis
    using True that(1) by (simp add: StateTable_insert_new_def)
next
  case False
  then obtain oldest ks where o: "st_order t = oldest # ks" "length (st_order t) = st_capacity t"
    using assms(1) by (cases "st_order t") (auto simp: st_wf_def)
  have "oldest \<in> fst ` set (st_entries t)"
    using assms(1) o by (auto simp: st_wf_def)
  then have ne: "oldest \<noteq> k"
    using assms(2) by (auto simp: map_of_eq_None_iff)
  have "evict_excess (st_capacity t) (ks @ [k]) es = (ks @ [k], es)" for es
    using o by (cases ks) auto
  then have "evict_excess (st_capacity t) (st_order t @ [k]) es = (ks @ [k], om_remove oldest es)" for es
    using o by simp
  then show thesis
    using that(2) [OF o ne] by (simp add: StateTable_insert_new_def)
qed

lemma st_wf_update:
  assumes "st_wf t"
  shows "st_wf (fst (StateTable_update key gen sq mid t))"
proof (cases "map_of (st_entries t) (StateKey_to_u48 key)")
  case None
  then have "StateKey_to_u48 key \<notin> set (st_order t)"
    using assms by (auto simp: st_wf_def map_of_eq_None_iff)
  with None show ?thesis
    using assms
    by (cases rule: insert_new_cases [OF assms None, of "(gen, sq, mid)"])
       (auto simp: StateTable_update_def Let_def st_wf_def fst_set_om_insert keys_om_remove)
next
  case (Some e)
  then have "StateKey_to_u48 key \<in> fst ` set (st_entries t)"
    by (metis image_eqI fst_conv map_of_SomeD)
  with Some show ?thesis
    using assms by (auto simp: StateTable_update_def Let_def st_wf_def fst_set_om_insert split: prod.split)
qed

section \<open>Properties\<close>

text \<open>
  The state table is bounded and only moves forward. From a well-formed table, an update keeps
  the table well formed and within capacity; an update that \<^verbatim>\<open>should_admit\<close> accepts is recorded, one
  it refuses changes nothing; any other key keeps its entry, except that a new key may displace the
  single oldest one of a full table; and the superseded message is reported exactly when an older
  entry was replaced.
\<close>

theorem state_table_bounded_and_fresh:
  assumes "st_wf t" and "StateTable_update key gen sq mid t = (t', old)"
  shows "st_wf t' \<and> StateTable_len t' \<le> st_capacity t \<and>
    (if should_admit key gen sq t
     then map_of (st_entries t') (StateKey_to_u48 key) = Some (gen, sq, mid) else t' = t) \<and>
    (\<forall>k. k \<noteq> StateKey_to_u48 key \<longrightarrow>
       map_of (st_entries t') k = map_of (st_entries t) k \<or>
       (map_of (st_entries t') k = None \<and> StateTable_len t = st_capacity t \<and> k = hd (st_order t))) \<and>
    old = (if should_admit key gen sq t
           then map_option (snd \<circ> snd) (map_of (st_entries t) (StateKey_to_u48 key)) else None)"
proof -
  let ?k = "StateKey_to_u48 key"
  have wf': "st_wf t'" using st_wf_update [OF assms(1), of key gen sq mid] assms(2) by simp
  have cap: "st_capacity t' = st_capacity t"
    using assms(2) by (auto simp: StateTable_update_def StateTable_insert_new_def Let_def
        split: option.splits if_splits prod.splits)
  have len: "StateTable_len t' \<le> st_capacity t"
    using st_wf_length [OF wf'] wf' cap by (simp add: st_wf_def)
  show ?thesis
  proof (cases "map_of (st_entries t) ?k")
    case None
    have t': "t' = StateTable_insert_new ?k (gen, sq, mid) t" "old = None"
      using assms(2) None by (simp_all add: StateTable_update_def Let_def)
    have adm: "should_admit key gen sq t" using None by (simp add: should_admit_def)
    show ?thesis
      using wf' len adm t' None st_wf_length [OF assms(1)]
      by (cases rule: insert_new_cases [OF assms(1) None, of "(gen, sq, mid)"]) auto
  next
    case (Some e)
    obtain cg cs om where e: "e = (cg, cs, om)" by (cases e)
    have adm: "should_admit key gen sq t \<longleftrightarrow> GenerationId_is_newer_than gen cg \<or>
        (gen = cg \<and> StateSequence_is_newer_than sq cs)"
      using Some e by (auto simp: should_admit_def)
    show ?thesis
      using wf' len adm assms(2) Some e by (auto simp: StateTable_update_def Let_def split: if_splits)
  qed
qed

theorem state_table_bounded_and_fresh_witness:
  "let (t', old) = StateTable_update (StateKey_new 1 2) 0 5 9 (StateTable_with_capacity 1)
   in st_wf t' \<and> StateTable_len t' \<le> 1 \<and> map_of (st_entries t') (StateKey_to_u48 (StateKey_new 1 2)) = Some (0, 5, 9)"
proof -
  obtain t' old where u: "StateTable_update (StateKey_new 1 2) 0 5 9 (StateTable_with_capacity 1) = (t', old)"
    by fastforce
  have "should_admit (StateKey_new 1 2) 0 5 (StateTable_with_capacity 1)"
    by (simp add: should_admit_def StateTable_with_capacity_def)
  then show ?thesis
    using state_table_bounded_and_fresh [OF st_wf_new u] u by (simp add: StateTable_with_capacity_def)
qed

end
