(* ===== verification/Scheduler.thy ===== *)
theory Scheduler
  imports State_Table "HOL-Library.Multiset"
begin

text \<open>
  The priority scheduler (\<^verbatim>\<open>gtp-scheduler/src/item.rs\<close>, \<^verbatim>\<open>scheduler.rs\<close>): five bounded queues,
  strict priority for tier 0 and deficit round robin over tiers 1 to 4 with a persistent cursor. The
  five-element arrays of the code are functions on tier indices, used below index 5 only; the byte
  and item counters are the totals of the queues, which is the invariant \<open>sched_wf\<close>.
\<close>

section \<open>Items\<close>

record schedulable_item =
  si_message_id :: message_id
  si_class :: message_class
  si_priority :: priority_tier
  si_created_at :: monotonic_time
  si_deadline :: "monotonic_time option"
  si_supersedable :: bool
  si_payload :: bytes
  si_fragment_id :: fragment_id
  si_total_fragments :: u16

definition is_expired :: "schedulable_item \<Rightarrow> monotonic_time \<Rightarrow> bool" where
  "is_expired i now \<longleftrightarrow> (case si_deadline i of Some dl \<Rightarrow> now \<ge> dl | None \<Rightarrow> False)"

definition size_bytes :: "schedulable_item \<Rightarrow> nat" where
  "size_bytes i = length (si_payload i)"

section \<open>State\<close>

definition NUM_PRIORITY_TIERS :: nat where
  "NUM_PRIORITY_TIERS = 5"

definition DEFAULT_MAX_QUEUE_ITEMS_PER_TIER :: nat where
  "DEFAULT_MAX_QUEUE_ITEMS_PER_TIER = 4096"

definition DRR_FIRST_TIER :: nat where
  "DRR_FIRST_TIER = 1"

definition DRR_TIER_COUNT :: nat where
  "DRR_TIER_COUNT = 4"

definition DEFICIT_CAP_FACTOR :: nat where
  "DEFICIT_CAP_FACTOR = 4"

definition tier_quantum :: "nat \<Rightarrow> nat" where
  "tier_quantum idx = default_weight (PriorityTier_ALL ! idx) * 100"

record game_scheduler =
  gs_queues :: "nat \<Rightarrow> schedulable_item list"
  gs_deficits :: "nat \<Rightarrow> nat"
  gs_accrued :: "nat \<Rightarrow> bool"
  gs_drr_pointer :: nat
  gs_state_table :: state_table
  gs_max_queue_bytes_per_tier :: "nat \<Rightarrow> nat"
  gs_max_queue_items_per_tier :: nat
  gs_queue_bytes :: "nat \<Rightarrow> nat"
  gs_queue_items :: "nat \<Rightarrow> nat"

definition with_per_tier_caps_and_item_limit :: "(nat \<Rightarrow> nat) \<Rightarrow> nat \<Rightarrow> game_scheduler" where
  "with_per_tier_caps_and_item_limit caps item_limit =
     \<lparr> gs_queues = (\<lambda>_. []), gs_deficits = (\<lambda>_. 0), gs_accrued = (\<lambda>_. False),
       gs_drr_pointer = DRR_FIRST_TIER, gs_state_table = StateTable_default,
       gs_max_queue_bytes_per_tier = caps, gs_max_queue_items_per_tier = item_limit,
       gs_queue_bytes = (\<lambda>_. 0), gs_queue_items = (\<lambda>_. 0) \<rparr>"

definition with_item_limit :: "nat \<Rightarrow> nat \<Rightarrow> game_scheduler" where
  "with_item_limit max_bytes item_limit = with_per_tier_caps_and_item_limit (\<lambda>_. max_bytes) item_limit"

definition with_per_tier_byte_caps :: "(nat \<Rightarrow> nat) \<Rightarrow> game_scheduler" where
  "with_per_tier_byte_caps caps = with_per_tier_caps_and_item_limit caps DEFAULT_MAX_QUEUE_ITEMS_PER_TIER"

definition GameScheduler_new :: "nat \<Rightarrow> game_scheduler" where
  "GameScheduler_new max_bytes = with_item_limit max_bytes DEFAULT_MAX_QUEUE_ITEMS_PER_TIER"

definition GameScheduler_default :: game_scheduler where
  "GameScheduler_default = GameScheduler_new (512 * 1024)"

section \<open>Admission\<close>

definition admission_error :: "schedulable_item \<Rightarrow> monotonic_time \<Rightarrow> game_scheduler \<Rightarrow> transport_error option" where
  "admission_error item now s =
     (let t = tier_index (si_priority item) in
      if is_expired item now then Some MessageExpired
      else if gs_queue_bytes s t + size_bytes item > gs_max_queue_bytes_per_tier s t
        then Some (ResourceLimitExceeded ''Scheduler queue tier capacity reached'')
      else if gs_queue_items s t + 1 > gs_max_queue_items_per_tier s
        then Some (ResourceLimitExceeded ''Scheduler queue tier item capacity reached'')
      else None)"

text \<open>\<^verbatim>\<open>queues[t].retain(..)\<close> with the bytes and items it removed taken off the counters.\<close>

definition retain_tier :: "nat \<Rightarrow> (schedulable_item \<Rightarrow> bool) \<Rightarrow> game_scheduler \<Rightarrow> game_scheduler" where
  "retain_tier t keep s =
     (let removed = filter (\<lambda>i. \<not> keep i) (gs_queues s t) in
      s\<lparr> gs_queues := (gs_queues s)(t := filter keep (gs_queues s t)),
         gs_queue_bytes := (gs_queue_bytes s)(t := sat_sub (gs_queue_bytes s t) (sum_list (map size_bytes removed))),
         gs_queue_items := (gs_queue_items s)(t := sat_sub (gs_queue_items s t) (length removed)) \<rparr>)"

text \<open>Counters and queue of an admitted item; \<open>place\<close> is \<^verbatim>\<open>push_back\<close> or \<^verbatim>\<open>push_front\<close>.\<close>

definition push_item ::
  "(schedulable_item \<Rightarrow> schedulable_item list \<Rightarrow> schedulable_item list) \<Rightarrow> schedulable_item \<Rightarrow> game_scheduler \<Rightarrow> game_scheduler" where
  "push_item place item s =
     (let t = tier_index (si_priority item) in
      s\<lparr> gs_queue_bytes := (gs_queue_bytes s)(t := gs_queue_bytes s t + size_bytes item),
         gs_queue_items := (gs_queue_items s)(t := gs_queue_items s t + 1),
         gs_queues := (gs_queues s)(t := place item (gs_queues s t)) \<rparr>)"

definition push_back :: "'a \<Rightarrow> 'a list \<Rightarrow> 'a list" where
  "push_back x q = q @ [x]"

definition push_front :: "'a \<Rightarrow> 'a list \<Rightarrow> 'a list" where
  "push_front x q = x # q"

definition enqueue :: "schedulable_item \<Rightarrow> monotonic_time \<Rightarrow> game_scheduler \<Rightarrow> game_scheduler \<times> unit result" where
  "enqueue item now s =
     (case admission_error item now s of
        Some e \<Rightarrow> (s, Err e)
      | None \<Rightarrow>
          (case si_class item of
             UnreliableSequenced key sq gen \<Rightarrow>
               if \<not> should_admit key gen sq (gs_state_table s) then (s, Ok ())
               else (case StateTable_update key gen sq (si_message_id item) (gs_state_table s) of
                   (tbl, None) \<Rightarrow> (push_item push_back item (s\<lparr> gs_state_table := tbl \<rparr>), Ok ())
                 | (tbl, Some superseded) \<Rightarrow>
                     (push_item push_back item
                        (retain_tier (tier_index (si_priority item)) (\<lambda>i. si_message_id i \<noteq> superseded)
                           (s\<lparr> gs_state_table := tbl \<rparr>)), Ok ()))
           | _ \<Rightarrow> (push_item push_back item s, Ok ())))"

definition requeue :: "schedulable_item \<Rightarrow> monotonic_time \<Rightarrow> game_scheduler \<Rightarrow> game_scheduler \<times> unit result" where
  "requeue item now s =
     (case admission_error item now s of
        Some e \<Rightarrow> (s, Err e)
      | None \<Rightarrow> (push_item push_front item s, Ok ()))"

section \<open>Service\<close>

definition discard :: "nat \<Rightarrow> schedulable_item \<Rightarrow> game_scheduler \<Rightarrow> game_scheduler" where
  "discard t item s =
     s\<lparr> gs_queue_bytes := (gs_queue_bytes s)(t := sat_sub (gs_queue_bytes s t) (size_bytes item)),
        gs_queue_items := (gs_queue_items s)(t := sat_sub (gs_queue_items s t) 1) \<rparr>"

text \<open>
  The \<^verbatim>\<open>while let Some(item) = queues[t].pop_front()\<close> loop of both service classes: drop expired
  items, serve the first live one if it \<open>fits\<close>, else put it back. Recursion is on the queue, which
  is passed separately and written back when the loop ends.
\<close>

fun serve_loop :: "(nat \<Rightarrow> bool) \<Rightarrow> monotonic_time \<Rightarrow> nat \<Rightarrow> schedulable_item list \<Rightarrow> game_scheduler \<Rightarrow>
    game_scheduler \<times> schedulable_item option" where
  "serve_loop fits now t [] s = (s\<lparr> gs_queues := (gs_queues s)(t := []) \<rparr>, None)"
| "serve_loop fits now t (item # q) s =
     (if is_expired item now then serve_loop fits now t q (discard t item s)
      else if fits (size_bytes item) then
        ((discard t item s)\<lparr> gs_queues := (gs_queues s)(t := q) \<rparr>, Some item)
      else (s\<lparr> gs_queues := (gs_queues s)(t := item # q) \<rparr>, None))"

definition serve_tier :: "(nat \<Rightarrow> bool) \<Rightarrow> monotonic_time \<Rightarrow> nat \<Rightarrow> game_scheduler \<Rightarrow> game_scheduler \<times> schedulable_item option" where
  "serve_tier fits now t s = serve_loop fits now t (gs_queues s t) s"

text \<open>The cyclic scan for the next non-empty tier; empty tiers lose deficit and accrual.\<close>

fun find_tier :: "nat list \<Rightarrow> game_scheduler \<Rightarrow> game_scheduler \<times> nat option" where
  "find_tier [] s = (s, None)"
| "find_tier (step # steps) s =
     (let t = DRR_FIRST_TIER + (gs_drr_pointer s - DRR_FIRST_TIER + step) mod DRR_TIER_COUNT in
      if gs_queues s t = [] then
        find_tier steps (s\<lparr> gs_deficits := (gs_deficits s)(t := 0), gs_accrued := (gs_accrued s)(t := False) \<rparr>)
      else (s, Some t))"

definition accrue :: "nat \<Rightarrow> game_scheduler \<Rightarrow> game_scheduler" where
  "accrue idx s =
     (if \<not> gs_accrued s idx then
        s\<lparr> gs_deficits := (gs_deficits s)(idx :=
              min (gs_deficits s idx + tier_quantum idx) (tier_quantum idx * DEFICIT_CAP_FACTOR)),
           gs_accrued := (gs_accrued s)(idx := True) \<rparr>
      else s)"

fun drr_loop :: "nat \<Rightarrow> nat \<Rightarrow> monotonic_time \<Rightarrow> game_scheduler \<Rightarrow> game_scheduler \<times> schedulable_item option" where
  "drr_loop 0 budget now s = (s, None)"
| "drr_loop (Suc rounds) budget now s =
     (case find_tier [0..<DRR_TIER_COUNT] s of
        (s1, None) \<Rightarrow> (s1, None)
      | (s1, Some idx) \<Rightarrow>
          let s2 = accrue idx s1 in
          (case serve_tier (\<lambda>size. size \<le> budget \<and> gs_deficits s2 idx \<ge> size) now idx s2 of
             (s3, Some item) \<Rightarrow>
               (s3\<lparr> gs_deficits := (gs_deficits s3)(idx := gs_deficits s3 idx - size_bytes item),
                    gs_drr_pointer := idx \<rparr>, Some item)
           | (s3, None) \<Rightarrow>
               drr_loop rounds budget now
                 (s3\<lparr> gs_accrued := (gs_accrued s3)(idx := False),
                      gs_drr_pointer := DRR_FIRST_TIER + (idx - DRR_FIRST_TIER + 1) mod DRR_TIER_COUNT \<rparr>)))"

definition pop_next :: "nat \<Rightarrow> monotonic_time \<Rightarrow> game_scheduler \<Rightarrow> game_scheduler \<times> schedulable_item option" where
  "pop_next budget now s =
     (if budget = 0 then (s, None)
      else case serve_tier (\<lambda>size. size \<le> budget) now 0 s of
          (s1, Some item) \<Rightarrow> (s1, Some item)
        | (s1, None) \<Rightarrow> drr_loop DRR_TIER_COUNT budget now s1)"

section \<open>Maintenance and observers\<close>

definition prune_stale :: "monotonic_time \<Rightarrow> game_scheduler \<Rightarrow> game_scheduler \<times> nat" where
  "prune_stale now s =
     fold (\<lambda>t (s, pruned). (retain_tier t (\<lambda>i. \<not> is_expired i now) s,
                             pruned + length (filter (\<lambda>i. is_expired i now) (gs_queues s t))))
       [0..<NUM_PRIORITY_TIERS] (s, 0)"

definition effective_queue_bytes :: "monotonic_time \<Rightarrow> game_scheduler \<Rightarrow> nat" where
  "effective_queue_bytes now s =
     sum_list (map size_bytes (filter (\<lambda>i. \<not> is_expired i now)
       (concat (map (gs_queues s) [0..<NUM_PRIORITY_TIERS]))))"

definition queue_tier_bytes :: "priority_tier \<Rightarrow> game_scheduler \<Rightarrow> nat" where
  "queue_tier_bytes p s = gs_queue_bytes s (tier_index p)"

definition queue_tier_items :: "priority_tier \<Rightarrow> game_scheduler \<Rightarrow> nat" where
  "queue_tier_items p s = gs_queue_items s (tier_index p)"

definition GameScheduler_is_empty :: "game_scheduler \<Rightarrow> bool" where
  "GameScheduler_is_empty s \<longleftrightarrow> list_all (\<lambda>t. gs_queues s t = []) [0..<NUM_PRIORITY_TIERS]"

section \<open>Invariant\<close>

definition queue_size :: "schedulable_item list \<Rightarrow> nat" where
  "queue_size q = sum_list (map size_bytes q)"

lemma queue_size_simps [simp]:
  "queue_size [] = 0" "queue_size (i # q) = size_bytes i + queue_size q"
  "queue_size (q @ q') = queue_size q + queue_size q'"
  by (simp_all add: queue_size_def)

lemma queue_size_filter: "queue_size (filter P q) + queue_size (filter (\<lambda>i. \<not> P i) q) = queue_size q"
  by (induction q) auto

definition tier_ok :: "game_scheduler \<Rightarrow> nat \<Rightarrow> bool" where
  "tier_ok s t \<longleftrightarrow>
     gs_queue_bytes s t = queue_size (gs_queues s t) \<and> gs_queue_items s t = length (gs_queues s t) \<and>
     (\<forall>i \<in> set (gs_queues s t). tier_index (si_priority i) = t) \<and>
     gs_queue_bytes s t \<le> gs_max_queue_bytes_per_tier s t \<and>
     gs_queue_items s t \<le> gs_max_queue_items_per_tier s"

definition sched_base :: "game_scheduler \<Rightarrow> bool" where
  "sched_base s \<longleftrightarrow> (\<forall>t < 5. tier_ok s t) \<and> 1 \<le> gs_drr_pointer s \<and> gs_drr_pointer s \<le> 4 \<and>
     st_wf (gs_state_table s) \<and>
     (\<forall>t. gs_deficits s t \<le> tier_quantum t * DEFICIT_CAP_FACTOR)"

definition accrued_at :: "nat \<Rightarrow> game_scheduler \<Rightarrow> bool" where
  "accrued_at p s \<longleftrightarrow> (\<forall>t. gs_accrued s t \<longrightarrow> t = p)"

definition sched_wf :: "game_scheduler \<Rightarrow> bool" where
  "sched_wf s \<longleftrightarrow> sched_base s \<and> accrued_at (gs_drr_pointer s) s"

lemma sched_wf_new: "sched_wf (with_per_tier_caps_and_item_limit caps n)"
  by (simp add: sched_wf_def sched_base_def accrued_at_def tier_ok_def StateTable_default_def st_wf_new
      with_per_tier_caps_and_item_limit_def DRR_FIRST_TIER_def)

section \<open>Admission lemmas\<close>

lemma retain_tier_ok:
  assumes "tier_ok s t"
  shows "tier_ok (retain_tier t' keep s) t"
proof (cases "t' = t")
  case True
  have "queue_size (gs_queues s t) - queue_size (filter (\<lambda>i. \<not> keep i) (gs_queues s t)) =
      queue_size (filter keep (gs_queues s t))"
    using queue_size_filter [of keep "gs_queues s t"] by linarith
  moreover have "length (gs_queues s t) - length (filter (\<lambda>i. \<not> keep i) (gs_queues s t)) =
      length (filter keep (gs_queues s t))"
    using sum_length_filter_compl [of keep "gs_queues s t"] by linarith
  ultimately show ?thesis
    using assms True
    by (auto simp: tier_ok_def retain_tier_def Let_def sat_sub_def queue_size_def [symmetric])
qed (use assms in \<open>auto simp: tier_ok_def retain_tier_def Let_def\<close>)

lemma retain_tier_wf: "sched_wf s \<Longrightarrow> sched_wf (retain_tier t keep s)"
  using retain_tier_ok
  by (auto simp: sched_wf_def sched_base_def accrued_at_def) (simp_all add: retain_tier_def Let_def)

lemma retain_tier_le:
  "gs_queue_bytes (retain_tier t keep s) t' \<le> gs_queue_bytes s t'"
  "gs_queue_items (retain_tier t keep s) t' \<le> gs_queue_items s t'"
  "gs_max_queue_bytes_per_tier (retain_tier t keep s) = gs_max_queue_bytes_per_tier s"
  "gs_max_queue_items_per_tier (retain_tier t keep s) = gs_max_queue_items_per_tier s"
  by (simp_all add: retain_tier_def Let_def sat_sub_def)

definition place_ok :: "(schedulable_item \<Rightarrow> schedulable_item list \<Rightarrow> schedulable_item list) \<Rightarrow> bool" where
  "place_ok place \<longleftrightarrow> (\<forall>i q. mset (place i q) = add_mset i (mset q))"

lemma place_ok_push: "place_ok push_back" "place_ok push_front"
  by (simp_all add: place_ok_def push_back_def push_front_def)

lemma place_ok_facts:
  assumes "place_ok place"
  shows "queue_size (place i q) = size_bytes i + queue_size q" and "length (place i q) = Suc (length q)"
    and "set (place i q) = insert i (set q)"
proof -
  have m: "mset (place i q) = mset (i # q)" using assms by (simp add: place_ok_def)
  show "queue_size (place i q) = size_bytes i + queue_size q"
    using m by (metis mset_map queue_size_def queue_size_simps(2) sum_mset_sum_list)
  show "length (place i q) = Suc (length q)"
    using m by (metis length_Cons size_mset)
  show "set (place i q) = insert i (set q)"
    using m by (metis list.simps(15) set_mset_mset)
qed

lemma push_item_wf:
  assumes "sched_wf s" and "place_ok place"
    and "gs_queue_bytes s (tier_index (si_priority i)) + size_bytes i \<le>
         gs_max_queue_bytes_per_tier s (tier_index (si_priority i))"
    and "gs_queue_items s (tier_index (si_priority i)) + 1 \<le> gs_max_queue_items_per_tier s"
  shows "sched_wf (push_item place i s)"
proof -
  have "tier_ok (push_item place i s) t" if "tier_ok s t" for t
    using that assms(3,4) place_ok_facts [OF assms(2)]
    by (auto simp: tier_ok_def push_item_def Let_def)
  then show ?thesis
    using assms(1)
    by (auto simp: sched_wf_def sched_base_def accrued_at_def) (simp_all add: push_item_def Let_def)
qed

lemma admission_None:
  "admission_error item now s = None \<longleftrightarrow> \<not> is_expired item now \<and>
     gs_queue_bytes s (tier_index (si_priority item)) + size_bytes item \<le>
       gs_max_queue_bytes_per_tier s (tier_index (si_priority item)) \<and>
     gs_queue_items s (tier_index (si_priority item)) + 1 \<le> gs_max_queue_items_per_tier s"
  by (auto simp: admission_error_def Let_def)

lemma sched_wf_table: "sched_wf s \<Longrightarrow> st_wf tbl \<Longrightarrow> sched_wf (s\<lparr> gs_state_table := tbl \<rparr>)"
  by (auto simp: sched_wf_def sched_base_def accrued_at_def tier_ok_def)

lemma enqueue_wf:
  assumes "sched_wf s"
  shows "sched_wf (fst (enqueue item now s))"
proof (cases "admission_error item now s")
  case None
  let ?t = "tier_index (si_priority item)"
  note adm = None [unfolded admission_None]
  show ?thesis
  proof (cases "si_class item")
    case (UnreliableSequenced key sq gen)
    obtain tbl old where u: "StateTable_update key gen sq (si_message_id item) (gs_state_table s) = (tbl, old)"
      by fastforce
    have "st_wf tbl"
      using st_wf_update [of "gs_state_table s" key gen sq "si_message_id item"] u assms
      by (simp add: sched_wf_def sched_base_def)
    note wf1 = sched_wf_table [OF assms this]
    let ?s = "s\<lparr> gs_state_table := tbl \<rparr>"
    have "sched_wf (push_item push_back item (retain_tier ?t keep ?s))" for keep
      using adm retain_tier_le(1) [of ?t keep ?s ?t] retain_tier_le(2) [of ?t keep ?s ?t]
      by (intro push_item_wf retain_tier_wf [OF wf1] place_ok_push) (auto simp: retain_tier_le)
    moreover have "sched_wf (push_item push_back item ?s)"
      using adm by (intro push_item_wf wf1 place_ok_push) auto
    ultimately show ?thesis
      using assms None UnreliableSequenced u by (simp add: enqueue_def split: option.split)
  qed (use assms None adm in \<open>simp_all add: enqueue_def push_item_wf place_ok_push\<close>)
qed (use assms in \<open>simp add: enqueue_def\<close>)

lemma requeue_wf: "sched_wf s \<Longrightarrow> sched_wf (fst (requeue item now s))"
  by (simp add: requeue_def admission_None push_item_wf place_ok_push split: option.split)

section \<open>Service lemmas\<close>

text \<open>The counters of a tier recomputed from its queue: what a service loop leaves behind.\<close>

definition set_tier :: "nat \<Rightarrow> schedulable_item list \<Rightarrow> game_scheduler \<Rightarrow> game_scheduler" where
  "set_tier t q s =
     s\<lparr> gs_queues := (gs_queues s)(t := q), gs_queue_bytes := (gs_queue_bytes s)(t := queue_size q),
        gs_queue_items := (gs_queue_items s)(t := length q) \<rparr>"

abbreviation live :: "monotonic_time \<Rightarrow> schedulable_item list \<Rightarrow> schedulable_item list" where
  "live now q \<equiv> dropWhile (\<lambda>i. is_expired i now) q"

lemma serve_loop_eq:
  assumes "gs_queue_bytes s t = queue_size q" and "gs_queue_items s t = length q"
  shows "serve_loop fits now t q s = (case live now q of
      [] \<Rightarrow> (set_tier t [] s, None)
    | i # r \<Rightarrow> if fits (size_bytes i) then (set_tier t r s, Some i) else (set_tier t (i # r) s, None))"
  using assms
proof (induction q arbitrary: s)
  case (Cons i q)
  have "set_tier t q' (discard t i s) = set_tier t q' s" for q'
    by (simp add: set_tier_def discard_def)
  moreover have "gs_queue_bytes (discard t i s) t = queue_size q" "gs_queue_items (discard t i s) t = length q"
    using Cons.prems by (simp_all add: discard_def sat_sub_def)
  moreover have "(discard t i s)\<lparr> gs_queues := (gs_queues s)(t := q) \<rparr> = set_tier t q s"
    "s\<lparr> gs_queues := (gs_queues s)(t := i # q) \<rparr> = set_tier t (i # q) s"
    using Cons.prems by (simp_all add: set_tier_def discard_def sat_sub_def fun_upd_idem)
  ultimately show ?case
    using Cons.IH [of "discard t i s"] by (simp split: list.split del: dropWhile_eq_Nil_conv)
qed (simp add: set_tier_def fun_upd_idem)

lemma serve_tier_eq:
  assumes "tier_ok s t"
  shows "serve_tier fits now t s = (case live now (gs_queues s t) of
      [] \<Rightarrow> (set_tier t [] s, None)
    | i # r \<Rightarrow> if fits (size_bytes i) then (set_tier t r s, Some i) else (set_tier t (i # r) s, None))"
  unfolding serve_tier_def using assms by (intro serve_loop_eq) (simp_all add: tier_ok_def)

text \<open>Replacing a queue by a suffix of itself.\<close>

lemma set_tier_suffix_ok:
  assumes "sched_base s" and "gs_queues s t = d @ q" and "t < 5"
  shows "sched_base (set_tier t q s)"
proof -
  have t: "tier_ok s t" using assms by (simp add: sched_base_def)
  have "tier_ok (set_tier t q s) t'" if "tier_ok s t'" for t'
    using that t assms(2) by (auto simp: tier_ok_def set_tier_def)
  then show ?thesis
    using assms(1) unfolding sched_base_def by (auto simp: set_tier_def)
qed

lemma set_tier_simps [simp]:
  "gs_queues (set_tier t q s) = (gs_queues s)(t := q)" "gs_deficits (set_tier t q s) = gs_deficits s"
  "gs_accrued (set_tier t q s) = gs_accrued s" "gs_drr_pointer (set_tier t q s) = gs_drr_pointer s"
  "gs_state_table (set_tier t q s) = gs_state_table s"
  by (simp_all add: set_tier_def)

text \<open>
  What a tier went through when item \<open>r\<close> was served: a prefix of expired items was dropped, and then
  the served item, if it belongs to the tier, was the next one.
\<close>

definition tier_served :: "monotonic_time \<Rightarrow> schedulable_item option \<Rightarrow> schedulable_item list \<Rightarrow> schedulable_item list \<Rightarrow> nat \<Rightarrow> bool" where
  "tier_served now r q q' t \<longleftrightarrow> (\<exists>d. (\<forall>i \<in> set d. is_expired i now) \<and>
     q = d @ (case r of
        Some i \<Rightarrow> if tier_index (si_priority i) = t then i # q' else q'
      | None \<Rightarrow> q'))"

lemma tier_served_refl: "tier_served now None q q t"
  by (simp add: tier_served_def)

lemma tier_served_trans:
  assumes "tier_served now None q q1 t" and "tier_served now r q1 q2 t"
  shows "tier_served now r q q2 t"
proof -
  obtain d d1 where "\<forall>i \<in> set (d @ d1). is_expired i now" and "q = d @ q1"
    and "q1 = d1 @ (case r of Some i \<Rightarrow> if tier_index (si_priority i) = t then i # q2 else q2 | None \<Rightarrow> q2)"
    using assms by (auto simp: tier_served_def)
  then show ?thesis
    unfolding tier_served_def by (intro exI [of _ "d @ d1"]) simp
qed

lemma live_split: "q = takeWhile (\<lambda>i. is_expired i now) q @ live now q" and
  "\<forall>i \<in> set (takeWhile (\<lambda>i. is_expired i now) q). is_expired i now"
  by (auto dest: set_takeWhileD)

lemma serve_tier_result:
  assumes "sched_base s" and "t < 5" and "serve_tier fits now t s = (s', r)"
  shows "sched_base s' \<and> (\<forall>u. tier_served now r (gs_queues s u) (gs_queues s' u) u) \<and>
    gs_deficits s' = gs_deficits s \<and> gs_accrued s' = gs_accrued s \<and> gs_drr_pointer s' = gs_drr_pointer s \<and>
    (\<forall>i. r = Some i \<longrightarrow> fits (size_bytes i) \<and> \<not> is_expired i now \<and> tier_index (si_priority i) = t \<and>
       (\<exists>q. live now (gs_queues s t) = i # q)) \<and>
    (r = None \<longrightarrow> gs_queues s' t = live now (gs_queues s t) \<and>
       (\<forall>i q. live now (gs_queues s t) = i # q \<longrightarrow> \<not> fits (size_bytes i)))"
proof -
  let ?q = "gs_queues s t" and ?d = "takeWhile (\<lambda>i. is_expired i now) (gs_queues s t)"
  have ok: "tier_ok s t" using assms(1,2) by (simp add: sched_base_def)
  have exp: "\<forall>i \<in> set ?d. is_expired i now" by (auto dest: set_takeWhileD)
  have tier: "tier_index (si_priority i) = t" if "i \<in> set ?q" for i
    using ok that by (simp add: tier_ok_def)
  show ?thesis
  proof (cases "live now ?q")
    case Nil
    have split: "?q = ?d @ []" using live_split [of ?q now] Nil by simp
    have "s' = set_tier t [] s" "r = None"
      using assms(3) serve_tier_eq [OF ok, of fits now] Nil by auto
    then show ?thesis
      using set_tier_suffix_ok [OF assms(1) split assms(2)] exp split Nil tier_served_refl
      by (auto simp: tier_served_def simp del: dropWhile_eq_Nil_conv)
  next
    case (Cons i rest)
    have split: "?q = ?d @ i # rest" using live_split [of ?q now] Cons by simp
    then have split': "?q = (?d @ [i]) @ rest" by simp
    have live_i: "\<not> is_expired i now" using Cons by (metis hd_dropWhile list.distinct(1) list.sel(1))
    have ti: "tier_index (si_priority i) = t" using tier [of i] split by (metis in_set_conv_decomp)
    show ?thesis
    proof (cases "fits (size_bytes i)")
      case True
      have "s' = set_tier t rest s" "r = Some i"
        using assms(3) serve_tier_eq [OF ok, of fits now] Cons True by auto
      moreover have "tier_served now (Some i) ?q rest t"
        unfolding tier_served_def using exp split ti by (intro exI [of _ ?d]) simp
      moreover have "tier_served now (Some i) (gs_queues s u) (gs_queues s u) u" if "u \<noteq> t" for u
        using that ti by (simp add: tier_served_def)
      ultimately show ?thesis
        using set_tier_suffix_ok [OF assms(1) split' assms(2)] True live_i ti Cons by auto
    next
      case False
      have "s' = set_tier t (i # rest) s" "r = None"
        using assms(3) serve_tier_eq [OF ok, of fits now] Cons False by auto
      moreover have "tier_served now None ?q (i # rest) t"
        unfolding tier_served_def using exp split by (intro exI [of _ ?d]) simp
      ultimately show ?thesis
        using set_tier_suffix_ok [OF assms(1) split assms(2)] False Cons tier_served_refl by auto
    qed
  qed
qed

section \<open>Round robin lemmas\<close>

text \<open>What the tier scan may change: deficits and accruals of empty tiers only, downwards.\<close>

lemma find_tier_frame:
  assumes "find_tier steps s = (s', r)"
  shows "gs_queues s' = gs_queues s \<and> gs_queue_bytes s' = gs_queue_bytes s \<and>
    gs_queue_items s' = gs_queue_items s \<and> gs_drr_pointer s' = gs_drr_pointer s \<and>
    gs_state_table s' = gs_state_table s \<and> gs_max_queue_bytes_per_tier s' = gs_max_queue_bytes_per_tier s \<and>
    gs_max_queue_items_per_tier s' = gs_max_queue_items_per_tier s \<and>
    (\<forall>t. gs_deficits s' t \<le> gs_deficits s t) \<and> (\<forall>t. gs_accrued s' t \<longrightarrow> gs_accrued s t)"
  using assms
proof (induction steps arbitrary: s)
  case (Cons step steps)
  let ?t = "DRR_FIRST_TIER + (gs_drr_pointer s - DRR_FIRST_TIER + step) mod DRR_TIER_COUNT"
  show ?case
  proof (cases "gs_queues s ?t = []")
    case True
    let ?s = "s\<lparr> gs_deficits := (gs_deficits s)(?t := 0), gs_accrued := (gs_accrued s)(?t := False) \<rparr>"
    have "find_tier steps ?s = (s', r)" using Cons.prems True by (simp add: Let_def)
    note IH = Cons.IH [OF this]
    have "gs_deficits s' t \<le> gs_deficits s t" for t
    proof -
      have "gs_deficits s' t \<le> gs_deficits ?s t" using IH by blast
      also have "\<dots> \<le> gs_deficits s t" by simp
      finally show ?thesis .
    qed
    moreover have "gs_accrued s' t \<longrightarrow> gs_accrued s t" for t
    proof -
      have "gs_accrued s' t \<longrightarrow> gs_accrued ?s t" using IH by blast
      then show ?thesis by (auto split: if_splits)
    qed
    ultimately show ?thesis using IH by simp
  qed (use Cons.prems in \<open>simp add: Let_def\<close>)
qed simp

lemma find_tier_result:
  assumes "find_tier steps s = (s', r)"
  shows "(\<forall>t. r = Some t \<longrightarrow> 1 \<le> t \<and> t \<le> 4 \<and> gs_queues s t \<noteq> []) \<and>
    (r = None \<longrightarrow> (\<forall>step \<in> set steps. gs_queues s (1 + (gs_drr_pointer s - 1 + step) mod 4) = []))"
  using assms
proof (induction steps arbitrary: s)
  case (Cons step steps)
  let ?t = "DRR_FIRST_TIER + (gs_drr_pointer s - DRR_FIRST_TIER + step) mod DRR_TIER_COUNT"
  have range: "1 \<le> ?t" "?t \<le> 4" "?t = 1 + (gs_drr_pointer s - 1 + step) mod 4"
    by (simp_all add: DRR_FIRST_TIER_def DRR_TIER_COUNT_def Suc_leI)
  show ?case
  proof (cases "gs_queues s ?t = []")
    case True
    let ?s = "s\<lparr> gs_deficits := (gs_deficits s)(?t := 0), gs_accrued := (gs_accrued s)(?t := False) \<rparr>"
    have "find_tier steps ?s = (s', r)" using Cons.prems True by (simp add: Let_def)
    from Cons.IH [OF this] True range(3) show ?thesis by simp
  next
    case False
    then show ?thesis using Cons.prems range by (auto simp: Let_def)
  qed
qed simp

lemma find_tier_accrued:
  assumes "sched_wf s" and "find_tier [0..<DRR_TIER_COUNT] s = (s', Some idx)"
  shows "accrued_at idx s'"
proof -
  have p: "1 \<le> gs_drr_pointer s" "gs_drr_pointer s \<le> 4" and acc: "accrued_at (gs_drr_pointer s) s"
    using assms(1) by (auto simp: sched_wf_def sched_base_def)
  have t0: "DRR_FIRST_TIER + (gs_drr_pointer s - DRR_FIRST_TIER + 0) mod DRR_TIER_COUNT = gs_drr_pointer s"
    using p by (simp add: DRR_FIRST_TIER_def DRR_TIER_COUNT_def)
  have steps: "[0..<DRR_TIER_COUNT] = 0 # [1..<DRR_TIER_COUNT]"
    by (simp add: DRR_TIER_COUNT_def upt_conv_Cons)
  show ?thesis
  proof (cases "gs_queues s (gs_drr_pointer s) = []")
    case False
    then have "s' = s" "idx = gs_drr_pointer s"
      using assms(2) unfolding steps find_tier.simps Let_def t0 by auto
    then show ?thesis using acc by simp
  next
    case True
    let ?s = "s\<lparr> gs_deficits := (gs_deficits s)(gs_drr_pointer s := 0),
                gs_accrued := (gs_accrued s)(gs_drr_pointer s := False) \<rparr>"
    have "find_tier [1..<DRR_TIER_COUNT] ?s = (s', Some idx)"
      using assms(2) True unfolding steps find_tier.simps Let_def t0 by simp
    then have "\<forall>t. gs_accrued s' t \<longrightarrow> gs_accrued ?s t"
      using find_tier_frame by blast
    then show ?thesis
      using acc by (auto simp: accrued_at_def split: if_splits)
  qed
qed

lemma find_tier_None:
  assumes "1 \<le> gs_drr_pointer s" and "gs_drr_pointer s \<le> 4"
    and "find_tier [0..<DRR_TIER_COUNT] s = (s', None)" and "1 \<le> t" and "t \<le> 4"
  shows "gs_queues s t = []"
proof -
  define step where "step = (t + 4 - gs_drr_pointer s) mod 4"
  have "step < 4" by (simp add: step_def)
  then have mem: "step \<in> set [0..<DRR_TIER_COUNT]" by (simp add: DRR_TIER_COUNT_def)
  have "gs_drr_pointer s \<in> {1, 2, 3, 4}" "t \<in> {1, 2, 3, 4}" using assms by auto
  then have "1 + (gs_drr_pointer s - 1 + step) mod 4 = t"
    unfolding step_def by auto
  then show ?thesis
    using find_tier_result [OF assms(3)] mem by metis
qed

lemma find_tier_base:
  assumes "sched_base s" and "find_tier steps s = (s', r)"
  shows "sched_base s'"
  using find_tier_frame [OF assms(2)] assms(1)
  by (auto simp: sched_base_def tier_ok_def) (meson order_trans)

lemma accrue_result:
  assumes "sched_base s" and "accrued_at idx s"
  shows "sched_base (accrue idx s)" and "accrued_at idx (accrue idx s)"
    and "gs_queues (accrue idx s) = gs_queues s" and "gs_drr_pointer (accrue idx s) = gs_drr_pointer s"
    and "\<not> gs_accrued s idx \<Longrightarrow> tier_quantum idx \<le> gs_deficits (accrue idx s) idx"
  using assms
  by (auto simp: accrue_def sched_base_def accrued_at_def tier_ok_def DEFICIT_CAP_FACTOR_def)

text \<open>One round of the loop, with the intermediate states named.\<close>

lemma drr_round_cases:
  assumes "sched_wf s"
  obtains (empty) s1 where "find_tier [0..<DRR_TIER_COUNT] s = (s1, None)" and "sched_wf s1"
      and "gs_queues s1 = gs_queues s" and "drr_loop (Suc n) budget now s = (s1, None)"
  | (served) s1 idx s3 item s' where "find_tier [0..<DRR_TIER_COUNT] s = (s1, Some idx)"
      and "sched_base (accrue idx s1)" and "gs_queues (accrue idx s1) = gs_queues s" and "1 \<le> idx" and "idx \<le> 4"
      and "serve_tier (\<lambda>size. size \<le> budget \<and> gs_deficits (accrue idx s1) idx \<ge> size) now idx (accrue idx s1) =
        (s3, Some item)"
      and "gs_queues s' = gs_queues s3" and "sched_wf s'" and "drr_loop (Suc n) budget now s = (s', Some item)"
  | (passed) s1 idx s3 s' where "find_tier [0..<DRR_TIER_COUNT] s = (s1, Some idx)"
      and "sched_base (accrue idx s1)" and "gs_queues (accrue idx s1) = gs_queues s" and "1 \<le> idx" and "idx \<le> 4"
      and "serve_tier (\<lambda>size. size \<le> budget \<and> gs_deficits (accrue idx s1) idx \<ge> size) now idx (accrue idx s1) =
        (s3, None)"
      and "gs_queues s' = gs_queues s3" and "sched_wf s'" and "\<forall>t. \<not> gs_accrued s' t"
      and "drr_loop (Suc n) budget now s = drr_loop n budget now s'"
proof -
  obtain s1 r where f: "find_tier [0..<DRR_TIER_COUNT] s = (s1, r)" by fastforce
  have base: "sched_base s" using assms by (simp add: sched_wf_def)
  note fr = find_tier_frame [OF f] and b1 = find_tier_base [OF base f]
  show thesis
  proof (cases r)
    case None
    have "accrued_at (gs_drr_pointer s1) s1"
      using fr assms by (auto simp: sched_wf_def accrued_at_def)
    then show thesis
      using empty f fr b1 None by (simp add: sched_wf_def)
  next
    case (Some idx)
    have idx: "1 \<le> idx" "idx \<le> 4" using find_tier_result [OF f] Some by auto
    have acc: "accrued_at idx s1" using find_tier_accrued [OF assms] f Some by simp
    note A = accrue_result [OF b1 acc]
    let ?fits = "\<lambda>size. size \<le> budget \<and> gs_deficits (accrue idx s1) idx \<ge> size"
    obtain s3 o3 where sv: "serve_tier ?fits now idx (accrue idx s1) = (s3, o3)" by fastforce
    have i5: "idx < 5" using idx by simp
    note S = serve_tier_result [OF A(1) i5 sv]
    have acc3: "accrued_at idx s3" using S A(2) by (simp add: accrued_at_def)
    show thesis
    proof (cases o3)
      case None
      let ?s' = "s3\<lparr> gs_accrued := (gs_accrued s3)(idx := False),
            gs_drr_pointer := DRR_FIRST_TIER + (idx - DRR_FIRST_TIER + 1) mod DRR_TIER_COUNT \<rparr>"
      have "sched_wf ?s'"
        using S acc3
        by (auto simp: sched_wf_def sched_base_def accrued_at_def tier_ok_def DRR_FIRST_TIER_def
            DRR_TIER_COUNT_def Suc_leI)
      moreover have "\<forall>t. \<not> gs_accrued ?s' t" using acc3 by (auto simp: accrued_at_def)
      moreover have "drr_loop (Suc n) budget now s = drr_loop n budget now ?s'"
        using f Some sv None by (simp add: Let_def)
      ultimately show thesis
        using passed [of s1 idx s3 ?s'] f Some A fr idx sv None by simp
    next
      case (Some item)
      let ?s' = "s3\<lparr> gs_deficits := (gs_deficits s3)(idx := gs_deficits s3 idx - size_bytes item),
            gs_drr_pointer := idx \<rparr>"
      have "sched_wf ?s'"
        using S acc3 idx by (auto simp: sched_wf_def sched_base_def accrued_at_def tier_ok_def intro: le_trans diff_le_self)
      moreover have "drr_loop (Suc n) budget now s = (?s', Some item)"
        using f \<open>r = Some idx\<close> sv Some by (simp add: Let_def)
      ultimately show thesis
        using served [of s1 idx s3 item ?s'] f \<open>r = Some idx\<close> A fr idx sv Some by simp
    qed
  qed
qed

lemma drr_loop_result:
  assumes "sched_wf s" and "drr_loop n budget now s = (s', r)"
  shows "sched_wf s' \<and> (\<forall>u. tier_served now r (gs_queues s u) (gs_queues s' u) u) \<and>
    (\<forall>i. r = Some i \<longrightarrow> size_bytes i \<le> budget \<and> \<not> is_expired i now)"
  using assms
proof (induction n arbitrary: s)
  case (Suc n)
  show ?case
  proof (cases rule: drr_round_cases [OF Suc.prems(1), of n budget now])
    case (1 s1)
    show ?thesis using Suc.prems 1 tier_served_refl by auto
  next
    case (2 s1 idx s3 item s'')
    have "idx < 5" using 2 by simp
    note S = serve_tier_result [OF 2(2) this 2(6)]
    show ?thesis using 2 S Suc.prems by auto
  next
    case (3 s1 idx s3 s'')
    have "idx < 5" using 3 by simp
    note S = serve_tier_result [OF 3(2) this 3(6)]
    have "drr_loop n budget now s'' = (s', r)" using 3 Suc.prems by simp
    from Suc.IH [OF 3(8) this] show ?thesis
      using S 3(3,7) tier_served_trans by (metis (no_types, lifting))
  qed
qed (simp add: tier_served_refl)

lemma sched_wf_serve0:
  assumes "sched_wf s" and "serve_tier fits now 0 s = (s', r)"
  shows "sched_wf s'"
  using serve_tier_result [OF _ _ assms(2)] assms(1) by (auto simp: sched_wf_def accrued_at_def)

lemma pop_next_result:
  assumes "sched_wf s" and "pop_next budget now s = (s', r)"
  shows "sched_wf s' \<and> (\<forall>u. tier_served now r (gs_queues s u) (gs_queues s' u) u) \<and>
    (\<forall>i. r = Some i \<longrightarrow> size_bytes i \<le> budget \<and> \<not> is_expired i now)"
proof (cases "budget = 0")
  case True
  then show ?thesis using assms tier_served_refl by (auto simp: pop_next_def)
next
  case False
  obtain s1 r1 where sv: "serve_tier (\<lambda>size. size \<le> budget) now 0 s = (s1, r1)" by fastforce
  have base: "sched_base s" using assms(1) by (simp add: sched_wf_def)
  have "0 < (5 :: nat)" by simp
  note S = serve_tier_result [OF base this sv] and wf1 = sched_wf_serve0 [OF assms(1) sv]
  show ?thesis
  proof (cases r1)
    case None
    then have "drr_loop DRR_TIER_COUNT budget now s1 = (s', r)"
      using assms(2) False sv by (simp add: pop_next_def)
    from drr_loop_result [OF wf1 this] show ?thesis
      using S None tier_served_trans by (metis (no_types, lifting))
  next
    case (Some i)
    then show ?thesis
      using S wf1 assms(2) False sv by (auto simp: pop_next_def)
  qed
qed

section \<open>Work conservation lemmas\<close>

text \<open>Every queued item is live, within the budget, and no larger than its tier's quantum.\<close>

definition servable :: "nat \<Rightarrow> monotonic_time \<Rightarrow> (nat \<Rightarrow> schedulable_item list) \<Rightarrow> bool" where
  "servable budget now qs \<longleftrightarrow> (\<forall>t < 5. \<forall>i \<in> set (qs t). \<not> is_expired i now \<and> size_bytes i \<le> budget \<and>
     (1 \<le> t \<longrightarrow> size_bytes i \<le> tier_quantum t))"

lemma servable_live:
  assumes "servable budget now qs" and "t < 5"
  shows "live now (qs t) = qs t"
  using assms by (simp add: servable_def dropWhile_eq_self_iff)

lemma tier_served_live:
  assumes "servable budget now qs" and "t < 5" and "tier_served now None (qs t) q' t"
  shows "q' = qs t"
proof -
  obtain d where "\<forall>i \<in> set d. is_expired i now" "qs t = d @ q'"
    using assms(3) by (auto simp: tier_served_def)
  then have "d = []" using assms(1,2) by (cases d) (auto simp: servable_def)
  then show ?thesis using \<open>qs t = d @ q'\<close> by simp
qed

lemma find_tier_exists:
  assumes "sched_wf s" and "1 \<le> t" and "t \<le> 4" and "gs_queues s t \<noteq> []"
  shows "find_tier [0..<DRR_TIER_COUNT] s \<noteq> (s1, None)"
  using find_tier_None [of s s1 t] assms by (auto simp: sched_wf_def sched_base_def)

lemma fresh_round_serves:
  assumes "sched_wf s" and "\<forall>t. \<not> gs_accrued s t" and "servable budget now (gs_queues s)"
    and "1 \<le> t" and "t \<le> 4" and "gs_queues s t \<noteq> []"
  shows "snd (drr_loop (Suc n) budget now s) \<noteq> None"
proof (cases rule: drr_round_cases [OF assms(1), of n budget now])
  case (1 s1)
  then show ?thesis using find_tier_exists [OF assms(1,4,5,6)] by blast
next
  case (2 s1 idx s3 item s')
  then show ?thesis by simp
next
  case (3 s1 idx s3 s')
  have i5: "idx < 5" using 3 by simp
  have ne: "gs_queues s idx \<noteq> []" using find_tier_result [OF 3(1)] by simp
  then obtain i q where q: "gs_queues s idx = i # q" by (cases "gs_queues s idx") auto
  have small: "size_bytes i \<le> budget" "size_bytes i \<le> tier_quantum idx"
    using assms(3) i5 3(4) q by (auto simp: servable_def)
  have "\<not> gs_accrued s1 idx" using find_tier_frame [OF 3(1)] assms(2) by blast
  then have "tier_quantum idx \<le> gs_deficits (accrue idx s1) idx"
    using find_tier_base [OF _ 3(1)] find_tier_accrued [OF assms(1) 3(1)] assms(1)
    by (intro accrue_result(5)) (auto simp: sched_wf_def)
  moreover have "live now (gs_queues (accrue idx s1) idx) = i # q"
    using servable_live [OF assms(3) i5] 3(3) q by simp
  ultimately show ?thesis
    using serve_tier_result [OF 3(2) i5 3(6)] small by auto
qed

lemma drr_serves:
  assumes "sched_wf s" and "servable budget now (gs_queues s)"
    and "1 \<le> t" and "t \<le> 4" and "gs_queues s t \<noteq> []"
  shows "snd (drr_loop (Suc (Suc n)) budget now s) \<noteq> None"
proof (cases rule: drr_round_cases [OF assms(1), of "Suc n" budget now])
  case (1 s1)
  then show ?thesis using find_tier_exists [OF assms(1,3-5)] by blast
next
  case (2 s1 idx s3 item s')
  then show ?thesis by simp
next
  case (3 s1 idx s3 s')
  have i5: "idx < 5" using 3 by simp
  note S = serve_tier_result [OF 3(2) i5 3(6)]
  have same: "gs_queues s' u = gs_queues s u" if "u < 5" for u
    using tier_served_live [OF assms(2) that] S 3(3,7) by metis
  have "servable budget now (gs_queues s')"
    using assms(2) same by (simp add: servable_def)
  moreover have "gs_queues s' t \<noteq> []" using same [of t] assms(4,5) by simp
  ultimately show ?thesis
    using fresh_round_serves [OF 3(8,9) _ assms(3,4)] 3(10) by simp
qed

section \<open>Reachable schedulers\<close>

inductive sched_step :: "game_scheduler \<Rightarrow> game_scheduler \<Rightarrow> bool" where
  step_enqueue: "enqueue item now s = (s', r) \<Longrightarrow> sched_step s s'"
| step_requeue: "requeue item now s = (s', r) \<Longrightarrow> sched_step s s'"
| step_pop: "pop_next budget now s = (s', r) \<Longrightarrow> sched_step s s'"
| step_prune: "prune_stale now s = (s', n) \<Longrightarrow> sched_step s s'"

inductive sched_reachable :: "(nat \<Rightarrow> nat) \<Rightarrow> nat \<Rightarrow> game_scheduler \<Rightarrow> bool" for caps item_limit where
  reach_new: "sched_reachable caps item_limit (with_per_tier_caps_and_item_limit caps item_limit)"
| reach_step: "sched_reachable caps item_limit s \<Longrightarrow> sched_step s s' \<Longrightarrow> sched_reachable caps item_limit s'"

lemma prune_fold_wf:
  "sched_wf s \<Longrightarrow> sched_wf (fst (fold (\<lambda>t (s, pruned). (retain_tier t (keep now) s, pruned + f t s)) ts (s, n)))"
  by (induction ts arbitrary: s n) (simp_all add: retain_tier_wf)

lemma sched_step_wf: "sched_step s s' \<Longrightarrow> sched_wf s \<Longrightarrow> sched_wf s'"
proof (induction rule: sched_step.induct)
  case (step_enqueue item now s s' r)
  then show ?case using enqueue_wf [of s item now] by simp
next
  case (step_requeue item now s s' r)
  then show ?case using requeue_wf [of s item now] by simp
next
  case (step_pop budget now s s' r)
  then show ?case using pop_next_result by blast
next
  case (step_prune now s s' n)
  then show ?case
    using prune_fold_wf [of s "\<lambda>now i. \<not> is_expired i now" now
        "\<lambda>t s. length (filter (\<lambda>i. is_expired i now) (gs_queues s t))" "[0..<NUM_PRIORITY_TIERS]" 0]
    by (simp add: prune_stale_def)
qed

text \<open>No operation touches the configured limits.\<close>

definition caps_of :: "game_scheduler \<Rightarrow> (nat \<Rightarrow> nat) \<times> nat" where
  "caps_of s = (gs_max_queue_bytes_per_tier s, gs_max_queue_items_per_tier s)"

lemma caps_frame [simp]:
  "caps_of (push_item place i s) = caps_of s" "caps_of (retain_tier t keep s) = caps_of s"
  "caps_of (discard t i s) = caps_of s" "caps_of (accrue t s) = caps_of s"
  "caps_of (s\<lparr> gs_queues := q \<rparr>) = caps_of s" "caps_of (s\<lparr> gs_state_table := tbl \<rparr>) = caps_of s"
  "caps_of (s\<lparr> gs_deficits := d, gs_accrued := a \<rparr>) = caps_of s"
  "caps_of (s\<lparr> gs_deficits := d, gs_drr_pointer := k \<rparr>) = caps_of s"
  "caps_of (s\<lparr> gs_accrued := a, gs_drr_pointer := k \<rparr>) = caps_of s"
  by (simp_all add: caps_of_def push_item_def retain_tier_def discard_def accrue_def Let_def)

lemma caps_serve: "caps_of (fst (serve_loop fits now t q s)) = caps_of s"
  by (induction q arbitrary: s) simp_all

lemma caps_find: "caps_of (fst (find_tier steps s)) = caps_of s"
  by (induction steps arbitrary: s) (simp_all add: Let_def)

lemma caps_drr: "caps_of (fst (drr_loop n budget now s)) = caps_of s"
proof (induction n arbitrary: s)
  case (Suc n)
  have "caps_of s1 = caps_of s" if "find_tier [0..<DRR_TIER_COUNT] s = (s1, r)" for s1 r
    using caps_find [of "[0..<DRR_TIER_COUNT]" s] that by simp
  moreover have "caps_of s3 = caps_of s2" if "serve_tier fits now idx s2 = (s3, r)" for fits idx s2 s3 r
    using caps_serve [of fits now idx "gs_queues s2 idx" s2] that by (simp add: serve_tier_def)
  ultimately show ?case
    using Suc.IH by (simp add: Let_def split: prod.split option.split)
qed simp

lemma caps_step: "sched_step s s' \<Longrightarrow> caps_of s' = caps_of s"
proof (induction rule: sched_step.induct)
  case (step_enqueue item now s s' r)
  then show ?case
    by (auto simp: enqueue_def split: option.splits message_class.splits prod.splits if_splits)
next
  case (step_requeue item now s s' r)
  then show ?case by (auto simp: requeue_def split: option.splits)
next
  case (step_pop budget now s s' r)
  have "caps_of (fst (serve_tier fits now 0 s)) = caps_of s" for fits
    by (simp add: serve_tier_def caps_serve)
  then show ?case
    using step_pop caps_drr [of DRR_TIER_COUNT budget now]
    by (auto simp: pop_next_def split: if_splits prod.splits option.splits dest!: arg_cong [where f = fst])
next
  case (step_prune now s s' n)
  have "caps_of (fst (fold (\<lambda>t (s, pruned). (retain_tier t (keep now) s, pruned + f t s)) ts (s, m))) = caps_of s"
    for keep f ts m
    by (induction ts arbitrary: s m) simp_all
  from this [of "\<lambda>now i. \<not> is_expired i now" "\<lambda>t s. length (filter (\<lambda>i. is_expired i now) (gs_queues s t))"
      "[0..<NUM_PRIORITY_TIERS]" 0]
  show ?case using step_prune by (simp add: prune_stale_def)
qed

lemma sched_reachable_caps: "sched_reachable caps item_limit s \<Longrightarrow> caps_of s = (caps, item_limit)"
  by (induction rule: sched_reachable.induct)
     (simp_all add: caps_step, simp add: caps_of_def with_per_tier_caps_and_item_limit_def)

lemma sched_reachable_wf: "sched_reachable caps item_limit s \<Longrightarrow> sched_wf s"
  by (induction rule: sched_reachable.induct) (auto simp: sched_wf_new sched_step_wf)

section \<open>Properties\<close>

text \<open>
  C21: in every scheduler that any sequence of enqueues, requeues, pops and prunes can reach, the
  constant-time byte and item counters of each tier are exact, no tier exceeds its byte cap or the
  item cap, every item waits in the queue of its own priority, and no tier's deficit exceeds four of
  its quanta.
\<close>

theorem scheduler_counters_exact_and_capped:
  assumes "sched_reachable caps item_limit s" and "t < NUM_PRIORITY_TIERS"
  shows "gs_queue_bytes s t = sum_list (map size_bytes (gs_queues s t)) \<and>
    gs_queue_items s t = length (gs_queues s t) \<and>
    gs_queue_bytes s t \<le> caps t \<and> gs_queue_items s t \<le> item_limit \<and>
    (\<forall>i \<in> set (gs_queues s t). tier_index (si_priority i) = t) \<and>
    gs_deficits s t \<le> tier_quantum t * DEFICIT_CAP_FACTOR"
proof -
  have "tier_ok s t" "gs_deficits s t \<le> tier_quantum t * DEFICIT_CAP_FACTOR"
    using sched_reachable_wf [OF assms(1)] assms(2)
    by (auto simp: sched_wf_def sched_base_def NUM_PRIORITY_TIERS_def)
  then show ?thesis
    using sched_reachable_caps [OF assms(1)] by (auto simp: tier_ok_def queue_size_def caps_of_def)
qed

theorem scheduler_counters_exact_and_capped_witness:
  "sched_reachable (\<lambda>_. 100) 3 (with_per_tier_caps_and_item_limit (\<lambda>_. 100) 3) \<and>
   gs_queue_items (with_per_tier_caps_and_item_limit (\<lambda>_. 100) 3) 2 \<le> 3"
proof -
  have r: "sched_reachable (\<lambda>_. 100) 3 (with_per_tier_caps_and_item_limit (\<lambda>_. 100) 3)"
    by (rule reach_new)
  then show ?thesis
    using scheduler_counters_exact_and_capped [OF r, of 2]
    by (simp add: NUM_PRIORITY_TIERS_def with_per_tier_caps_and_item_limit_def)
qed

text \<open>
  C29: a pop serves each tier first in, first out, and loses nothing. The item returned is live and
  fits the budget; in every tier the queue before is the queue after, preceded by the served item if
  it belongs to that tier, preceded by expired items only. Nothing else leaves or moves.
\<close>

theorem pop_next_fifo_and_conservative:
  assumes "sched_wf s" and "pop_next budget now s = (s', r)"
  shows "(\<forall>i. r = Some i \<longrightarrow> size_bytes i \<le> budget \<and> \<not> is_expired i now) \<and>
    (\<forall>t. \<exists>dropped. (\<forall>i \<in> set dropped. is_expired i now) \<and>
       gs_queues s t = dropped @ (case r of
           Some i \<Rightarrow> if tier_index (si_priority i) = t then i # gs_queues s' t else gs_queues s' t
         | None \<Rightarrow> gs_queues s' t))"
  using pop_next_result [OF assms] by (simp add: tier_served_def)

text \<open>
  Control traffic has strict priority. Whenever the first live control item fits a non-zero
  budget, it is the item served, whatever the other tiers hold and whatever their deficits are.
\<close>

theorem control_tier_served_first:
  assumes "sched_wf s" and "live now (gs_queues s 0) = i # q" and "size_bytes i \<le> budget" and "0 < budget"
  shows "snd (pop_next budget now s) = Some i \<and> gs_queues (fst (pop_next budget now s)) 0 = q"
proof -
  have "tier_ok s 0" using assms(1) by (simp add: sched_wf_def sched_base_def)
  then show ?thesis
    using assms by (simp add: pop_next_def serve_tier_eq)
qed

text \<open>
  C32: the scheduler is work conserving. If every queued item is live, fits the budget and is no
  larger than its tier's quantum, then a pop returns an item whenever any queue is non-empty,
  wherever the round-robin cursor stands and whatever deficits remain from earlier rounds. Nothing is
  said here of queues that hold an expired item, one above the budget, or one above the quantum of
  its tier, which may need several rounds of credit.
\<close>

theorem scheduler_work_conserving:
  assumes "sched_wf s" and "servable budget now (gs_queues s)" and "0 < budget"
    and "\<not> GameScheduler_is_empty s"
  shows "snd (pop_next budget now s) \<noteq> None"
proof -
  obtain t where t: "t < 5" "gs_queues s t \<noteq> []"
    using assms(4) by (auto simp: GameScheduler_is_empty_def list_all_iff NUM_PRIORITY_TIERS_def)
  obtain s1 r where sv: "serve_tier (\<lambda>size. size \<le> budget) now 0 s = (s1, r)" by fastforce
  have base: "sched_base s" using assms(1) by (simp add: sched_wf_def)
  have z: "0 < (5 :: nat)" by simp
  note S = serve_tier_result [OF base z sv] and wf1 = sched_wf_serve0 [OF assms(1) sv]
  show ?thesis
  proof (cases r)
    case None
    have same: "gs_queues s1 u = gs_queues s u" if "u < 5" for u
      using tier_served_live [OF assms(2) that] S None by metis
    have "gs_queues s 0 = []"
      using S None servable_live [OF assms(2) z] assms(2) [unfolded servable_def, rule_format, OF z]
      by (cases "gs_queues s 0") auto
    then have t1: "1 \<le> t" "t \<le> 4" using t by (auto intro: Suc_leI gr0I)
    have "servable budget now (gs_queues s1)" using assms(2) same by (simp add: servable_def)
    then have "snd (drr_loop (Suc (Suc 2)) budget now s1) \<noteq> None"
      using same [OF t(1)] t by (intro drr_serves [OF wf1 _ t1]) auto
    moreover have "DRR_TIER_COUNT = Suc (Suc 2)" by (simp add: DRR_TIER_COUNT_def)
    ultimately show ?thesis
      using sv None assms(3) by (simp add: pop_next_def)
  qed (use sv assms(3) in \<open>simp add: pop_next_def\<close>)
qed

text \<open>A scheduler holding one world-state update, for concrete instances.\<close>

definition sample_item :: "priority_tier \<Rightarrow> schedulable_item" where
  "sample_item p = \<lparr> si_message_id = 1, si_class = Unreliable, si_priority = p, si_created_at = 0,
     si_deadline = None, si_supersedable = True, si_payload = [1, 2, 3], si_fragment_id = 0, si_total_fragments = 1 \<rparr>"

definition sample_scheduler :: "priority_tier \<Rightarrow> game_scheduler" where
  "sample_scheduler p = fst (enqueue (sample_item p) 0 (GameScheduler_new 1000))"

lemma sample_scheduler_wf: "sched_wf (sample_scheduler p)"
  unfolding sample_scheduler_def
  by (intro enqueue_wf) (simp add: GameScheduler_new_def with_item_limit_def sched_wf_new)

lemma sample_scheduler_queues:
  "gs_queues (sample_scheduler p) = (\<lambda>_. [])(tier_index p := [sample_item p])"
proof -
  have "admission_error (sample_item p) 0 (GameScheduler_new 1000) = None"
    by (simp add: admission_None sample_item_def is_expired_def size_bytes_def GameScheduler_new_def
        with_item_limit_def with_per_tier_caps_and_item_limit_def DEFAULT_MAX_QUEUE_ITEMS_PER_TIER_def)
  then show ?thesis
    by (simp add: sample_scheduler_def enqueue_def sample_item_def push_item_def push_back_def Let_def
        GameScheduler_new_def with_item_limit_def with_per_tier_caps_and_item_limit_def)
qed

lemma sample_scheduler_pops:
  "pop_next 1200 7 (sample_scheduler P0Control) = (fst (pop_next 1200 7 (sample_scheduler P0Control)), Some (sample_item P0Control))"
proof -
  have "live 7 (gs_queues (sample_scheduler P0Control) 0) = [sample_item P0Control]"
    by (simp add: sample_scheduler_queues is_expired_def sample_item_def)
  moreover have "tier_ok (sample_scheduler P0Control) 0" using sample_scheduler_wf by (simp add: sched_wf_def sched_base_def)
  ultimately have "snd (pop_next 1200 7 (sample_scheduler P0Control)) = Some (sample_item P0Control)"
    by (simp add: pop_next_def serve_tier_eq sample_item_def size_bytes_def)
  then show ?thesis by (metis prod.collapse)
qed

theorem pop_next_fifo_and_conservative_witness:
  "\<exists>s'. pop_next 1200 7 (sample_scheduler P0Control) = (s', Some (sample_item P0Control)) \<and>
     size_bytes (sample_item P0Control) \<le> 1200 \<and> gs_queues s' 0 = []"
proof -
  obtain s' where p: "pop_next 1200 7 (sample_scheduler P0Control) = (s', Some (sample_item P0Control))" using sample_scheduler_pops by blast
  note f = pop_next_fifo_and_conservative [OF sample_scheduler_wf p]
  obtain dropped where d: "gs_queues (sample_scheduler P0Control) 0 =
      dropped @ (if tier_index (si_priority (sample_item P0Control)) = 0 then sample_item P0Control # gs_queues s' 0 else gs_queues s' 0)"
    using conjunct2 [OF f, rule_format, of 0] by auto
  have "tier_index (si_priority (sample_item P0Control)) = 0" by (simp add: sample_item_def)
  then have "[sample_item P0Control] = dropped @ sample_item P0Control # gs_queues s' 0"
    using d by (simp add: sample_scheduler_queues)
  then have "gs_queues s' 0 = []" by (cases dropped) auto
  then show ?thesis using p f by blast
qed

theorem control_tier_served_first_witness:
  "snd (pop_next 1200 7 (sample_scheduler P0Control)) = Some (sample_item P0Control)"
proof -
  have "live 7 (gs_queues (sample_scheduler P0Control) 0) = [sample_item P0Control]"
    by (simp add: sample_scheduler_queues is_expired_def sample_item_def)
  from control_tier_served_first [OF sample_scheduler_wf this, of 1200] show ?thesis
    by (simp add: sample_item_def size_bytes_def)
qed

theorem scheduler_work_conserving_witness:
  "snd (pop_next 1200 7 (sample_scheduler P2WorldState)) \<noteq> None"
proof (rule scheduler_work_conserving [OF sample_scheduler_wf])
  show "servable 1200 7 (gs_queues (sample_scheduler P2WorldState))"
    by (simp add: sample_scheduler_queues servable_def is_expired_def size_bytes_def sample_item_def
        tier_quantum_def PriorityTier_ALL_def numeral_2_eq_2)
  show "\<not> GameScheduler_is_empty (sample_scheduler P2WorldState)"
    by (simp add: GameScheduler_is_empty_def sample_scheduler_queues NUM_PRIORITY_TIERS_def list_all_iff)
qed simp

end
