(* ===== verification/Path.thy ===== *)
theory Path
  imports GTP_Types
begin

text \<open>
  Path management (\<^verbatim>\<open>gtp-path\<close>): the connection lifecycle, path validation by challenge and
  response, the anti-amplification limiter and the stateless cookie. Socket addresses are a type
  variable (only equality is used). The cookie's HMAC-SHA256 is a parameter \<open>hmac\<close> (key, message),
  and the text form of an address a parameter \<open>addr_text\<close>.
\<close>

section \<open>Connection lifecycle\<close>

datatype connection_state = Initial | Handshaking | Validated | Established | Draining | Closed

definition is_active :: "connection_state \<Rightarrow> bool" where
  "is_active st \<longleftrightarrow> (case st of Established \<Rightarrow> True | _ \<Rightarrow> False)"

definition is_closed :: "connection_state \<Rightarrow> bool" where
  "is_closed st \<longleftrightarrow> (case st of Closed \<Rightarrow> True | _ \<Rightarrow> False)"

fun legal_transition :: "connection_state \<Rightarrow> connection_state \<Rightarrow> bool" where
  "legal_transition Initial Handshaking = True"
| "legal_transition Initial Validated = True"
| "legal_transition Initial Closed = True"
| "legal_transition Handshaking Validated = True"
| "legal_transition Validated Established = True"
| "legal_transition Established Draining = True"
| "legal_transition Established Closed = True"
| "legal_transition Draining Closed = True"
| "legal_transition Handshaking Closed = True"
| "legal_transition Validated Closed = True"
| "legal_transition _ _ = False"

definition transition_to :: "connection_state \<Rightarrow> connection_state \<Rightarrow> connection_state \<times> unit result" where
  "transition_to cur nxt =
     (if legal_transition cur nxt then (nxt, Ok ())
      else (cur, Err (ProtocolViolation ''Illegal state transition'')))"

text \<open>Runs of the lifecycle: requests are made in any order, illegal ones leave the state alone.\<close>

definition run_transitions :: "connection_state list \<Rightarrow> connection_state \<Rightarrow> connection_state" where
  "run_transitions reqs st = fold (\<lambda>nxt cur. fst (transition_to cur nxt)) reqs st"

fun visited :: "connection_state list \<Rightarrow> connection_state \<Rightarrow> connection_state list" where
  "visited [] st = [st]"
| "visited (nxt # reqs) st = st # visited reqs (fst (transition_to st nxt))"

fun life_rank :: "connection_state \<Rightarrow> nat" where
  "life_rank Initial = 5"
| "life_rank Handshaking = 4"
| "life_rank Validated = 3"
| "life_rank Established = 2"
| "life_rank Draining = 1"
| "life_rank Closed = 0"

lemma legal_rank: "legal_transition a b \<Longrightarrow> life_rank b < life_rank a"
  by (cases a; cases b) simp_all

lemma legal_Established: "legal_transition a Established \<Longrightarrow> a = Validated"
  by (cases a) simp_all

lemma transition_rank: "life_rank (fst (transition_to a b)) \<le> life_rank a"
  using legal_rank [of a b] by (auto simp: transition_to_def)

lemma visited_hd: "hd (visited reqs st) = st" and visited_nonempty: "visited reqs st \<noteq> []"
  by (cases reqs; simp)+

lemma visited_last: "last (visited reqs st) = run_transitions reqs st"
  by (induction reqs arbitrary: st) (simp_all add: run_transitions_def visited_nonempty)

lemma visited_sorted: "sorted_wrt (\<lambda>a b. life_rank b \<le> life_rank a) (visited reqs st)"
proof (induction reqs arbitrary: st)
  case (Cons nxt reqs)
  let ?st = "fst (transition_to st nxt)"
  have "life_rank x \<le> life_rank ?st" if "x \<in> set (visited reqs ?st)" for x
  proof -
    obtain ys where "visited reqs ?st = ?st # ys"
      using visited_hd [of reqs ?st] visited_nonempty [of reqs ?st] by (metis list.collapse)
    then show ?thesis using that Cons.IH [of ?st] by auto
  qed
  then show ?case using Cons.IH transition_rank [of st nxt] by (auto intro: order_trans)
qed simp

lemma established_via_validated:
  assumes "Established \<in> set (visited reqs st)" and "st \<noteq> Established"
  shows "Validated \<in> set (visited reqs st)"
  using assms
proof (induction reqs arbitrary: st)
  case (Cons nxt reqs)
  let ?st = "fst (transition_to st nxt)"
  show ?case
  proof (cases "?st = Established")
    case True
    then have "st = Validated"
      using Cons.prems(2) legal_Established [of st] by (auto simp: transition_to_def split: if_splits)
    then show ?thesis by simp
  next
    case False
    then show ?thesis using Cons by auto
  qed
qed simp

section \<open>Path validation\<close>

definition PATH_CHALLENGE_TIMEOUT :: duration where
  "PATH_CHALLENGE_TIMEOUT = Duration_from_secs 3"

record 'addr path_validator =
  pv_pending_challenge :: "('addr \<times> bytes \<times> monotonic_time) option"

definition PathValidator_new :: "'addr path_validator" where
  "PathValidator_new = \<lparr> pv_pending_challenge = None \<rparr>"

definition start_challenge :: "'addr \<Rightarrow> bytes \<Rightarrow> monotonic_time \<Rightarrow> 'addr path_validator \<Rightarrow> 'addr path_validator" where
  "start_challenge addr nonce now v = v\<lparr> pv_pending_challenge := Some (addr, nonce, now) \<rparr>"

definition PathValidator_expire :: "monotonic_time \<Rightarrow> 'addr path_validator \<Rightarrow> 'addr path_validator" where
  "PathValidator_expire now v = (case pv_pending_challenge v of
       Some (_, _, start) \<Rightarrow>
         if duration_since now start > PATH_CHALLENGE_TIMEOUT then v\<lparr> pv_pending_challenge := None \<rparr> else v
     | None \<Rightarrow> v)"

definition pending_addr :: "'addr path_validator \<Rightarrow> 'addr option" where
  "pending_addr v = map_option fst (pv_pending_challenge v)"

definition validate_response ::
  "'addr \<Rightarrow> bytes \<Rightarrow> monotonic_time \<Rightarrow> 'addr path_validator \<Rightarrow> 'addr path_validator \<times> bool" where
  "validate_response addr data now v = (case pv_pending_challenge v of
       Some (paddr, nonce, start) \<Rightarrow>
         if addr = paddr \<and> data = nonce \<and> duration_since now start \<le> PATH_CHALLENGE_TIMEOUT
         then (v\<lparr> pv_pending_challenge := None \<rparr>, True) else (v, False)
     | None \<Rightarrow> (v, False))"

text \<open>A run of responses against one validator: the verdicts in order.\<close>

fun validate_all :: "('addr \<times> bytes \<times> monotonic_time) list \<Rightarrow> 'addr path_validator \<Rightarrow> bool list" where
  "validate_all [] v = []"
| "validate_all ((addr, data, now) # rs) v =
     (let (v', ok) = validate_response addr data now v in ok # validate_all rs v')"

lemma validate_all_None: "pv_pending_challenge v = None \<Longrightarrow> validate_all rs v = replicate (length rs) False"
  by (induction rs) (auto simp: validate_response_def)

lemma validate_all_once: "length (filter id (validate_all rs v)) \<le> 1"
proof (induction rs)
  case (Cons r rs)
  obtain addr data now where r: "r = (addr, data, now)" by (cases r)
  obtain v' ok where vr: "validate_response addr data now v = (v', ok)" by fastforce
  show ?case
  proof (cases ok)
    case True
    then have "pv_pending_challenge v' = None"
      using vr by (auto simp: validate_response_def split: option.splits if_splits)
    then show ?thesis using r vr by (simp add: validate_all_None)
  next
    case False
    then have "v' = v" using vr by (auto simp: validate_response_def split: option.splits if_splits)
    then show ?thesis using r vr False Cons.IH by simp
  qed
qed simp

section \<open>Anti-amplification\<close>

record anti_amplification_limiter =
  aa_bytes_received :: nat
  aa_bytes_sent :: nat
  aa_factor :: nat
  aa_validated :: bool

definition AntiAmplificationLimiter_default :: anti_amplification_limiter where
  "AntiAmplificationLimiter_default =
     \<lparr> aa_bytes_received = 0, aa_bytes_sent = 0, aa_factor = 3, aa_validated = False \<rparr>"

definition with_factor :: "nat \<Rightarrow> anti_amplification_limiter" where
  "with_factor factor = AntiAmplificationLimiter_default\<lparr> aa_factor := max factor 1 \<rparr>"

definition set_factor :: "nat \<Rightarrow> anti_amplification_limiter \<Rightarrow> anti_amplification_limiter" where
  "set_factor factor l = l\<lparr> aa_factor := max factor 1 \<rparr>"

definition on_bytes_received :: "nat \<Rightarrow> anti_amplification_limiter \<Rightarrow> anti_amplification_limiter" where
  "on_bytes_received n l = l\<lparr> aa_bytes_received := sat_add64 (aa_bytes_received l) n \<rparr>"

definition can_send :: "nat \<Rightarrow> anti_amplification_limiter \<Rightarrow> bool" where
  "can_send n l \<longleftrightarrow>
     (if aa_validated l then True
      else sat_add64 (aa_bytes_sent l) n \<le> sat_mul64 (aa_bytes_received l) (aa_factor l))"

definition on_bytes_sent :: "nat \<Rightarrow> anti_amplification_limiter \<Rightarrow> anti_amplification_limiter" where
  "on_bytes_sent n l =
     (if \<not> aa_validated l then l\<lparr> aa_bytes_sent := sat_add64 (aa_bytes_sent l) n \<rparr> else l)"

definition mark_validated :: "anti_amplification_limiter \<Rightarrow> anti_amplification_limiter" where
  "mark_validated l = l\<lparr> aa_validated := True \<rparr>"

section \<open>Stateless cookies\<close>

definition TOKEN_LIFETIME :: duration where
  "TOKEN_LIFETIME = Duration_from_secs 10"

definition cookie_label :: bytes where
  "cookie_label = map (\<lambda>c. of_nat (of_char c)) ''GTP-COOKIE-V1''"

definition cookie_mac :: "(bytes \<Rightarrow> bytes \<Rightarrow> bytes) \<Rightarrow> ('addr \<Rightarrow> bytes) \<Rightarrow> bytes \<Rightarrow> 'addr \<Rightarrow> bytes \<Rightarrow> bytes" where
  "cookie_mac hmac addr_text secret addr ts_bytes = hmac secret (cookie_label @ addr_text addr @ ts_bytes)"

definition generate_cookie ::
  "(bytes \<Rightarrow> bytes \<Rightarrow> bytes) \<Rightarrow> ('addr \<Rightarrow> bytes) \<Rightarrow> bytes \<Rightarrow> 'addr \<Rightarrow> monotonic_time \<Rightarrow> bytes" where
  "generate_cookie hmac addr_text secret addr now =
     (let ts_bytes = to_be 8 now in ts_bytes @ take 24 (cookie_mac hmac addr_text secret addr ts_bytes))"

definition verify_cookie ::
  "(bytes \<Rightarrow> bytes \<Rightarrow> bytes) \<Rightarrow> ('addr \<Rightarrow> bytes) \<Rightarrow> bytes \<Rightarrow> 'addr \<Rightarrow> bytes \<Rightarrow> monotonic_time \<Rightarrow> bool" where
  "verify_cookie hmac addr_text secret addr cookie now =
     (let ts_bytes = take 8 cookie; token_time = be_nat ts_bytes in
      if token_time > now then False
      else if duration_since now token_time > TOKEN_LIFETIME then False
      else drop 8 cookie = take 24 (cookie_mac hmac addr_text secret addr ts_bytes))"

section \<open>Properties\<close>

text \<open>
  The connection lifecycle only moves forward. For any sequence of transition requests from any
  state: a closed connection stays closed; \<^verbatim>\<open>Established\<close> is entered only from \<^verbatim>\<open>Validated\<close>; the
  states passed through never go back up the lifecycle order, so at most five requests change
  anything; and a refused request leaves the state as it was.
\<close>

theorem lifecycle_only_forward:
  "run_transitions reqs Closed = Closed \<and>
   (Established \<in> set (visited reqs Initial) \<longrightarrow> Validated \<in> set (visited reqs Initial)) \<and>
   sorted_wrt (\<lambda>a b. life_rank b \<le> life_rank a) (visited reqs st) \<and>
   last (visited reqs st) = run_transitions reqs st \<and>
   (snd (transition_to st nxt) \<noteq> Ok () \<longrightarrow> fst (transition_to st nxt) = st) \<and>
   (snd (transition_to st nxt) = Ok () \<longrightarrow> life_rank (fst (transition_to st nxt)) < life_rank st)"
proof -
  have "run_transitions reqs Closed = Closed"
    by (induction reqs) (simp_all add: run_transitions_def transition_to_def)
  moreover have "Established \<in> set (visited reqs Initial) \<longrightarrow> Validated \<in> set (visited reqs Initial)"
    using established_via_validated [of reqs Initial] by blast
  ultimately show ?thesis
    using visited_sorted visited_last legal_rank by (auto simp: transition_to_def)
qed

theorem lifecycle_only_forward_witness:
  "Established \<in> set (visited [Handshaking, Established, Validated, Established] Initial) \<and>
   Validated \<in> set (visited [Handshaking, Established, Validated, Established] Initial)"
  using lifecycle_only_forward [of "[Handshaking, Established, Validated, Established]" Initial Closed]
  by (simp add: transition_to_def)

text \<open>
  A path response is accepted only for the outstanding challenge and at most once. A response
  is accepted exactly when a challenge is pending, it comes from the challenged address, carries
  the challenge's nonce and arrives within three seconds; and of any sequence of responses after a
  challenge at most one is accepted.
\<close>

theorem path_response_single_use:
  "(snd (validate_response addr data now v) \<longleftrightarrow>
      (\<exists>start. pv_pending_challenge v = Some (addr, data, start) \<and> duration_since now start \<le> 3000000)) \<and>
   length (filter id (validate_all rs v)) \<le> 1"
proof -
  have "PATH_CHALLENGE_TIMEOUT = 3000000"
    by (simp add: PATH_CHALLENGE_TIMEOUT_def Duration_from_secs_def sat_mul64_def u64_max_def)
  then show ?thesis
    using validate_all_once [of rs v] by (auto simp: validate_response_def split: option.split)
qed

text \<open>
  A stateless cookie proves a recent exchange with the address it was issued to. A cookie that
  was generated is accepted for ten seconds; a cookie is accepted only if its tag is the MAC of that
  very address and timestamp and the timestamp is at most ten seconds old and not in the future.
  The MAC is arbitrary.
\<close>

theorem cookie_verifies:
  assumes "issued < 2 ^ 64"
  shows "(verify_cookie hmac addr_text secret addr (generate_cookie hmac addr_text secret addr issued) now
       \<longleftrightarrow> issued \<le> now \<and> now - issued \<le> 10000000) \<and>
    (verify_cookie hmac addr_text secret addr cookie now \<longrightarrow>
       be_nat (take 8 cookie) \<le> now \<and> now - be_nat (take 8 cookie) \<le> 10000000 \<and>
       drop 8 cookie = take 24 (hmac secret (cookie_label @ addr_text addr @ take 8 cookie)))"
proof -
  have life: "TOKEN_LIFETIME = 10000000"
    by (simp add: TOKEN_LIFETIME_def Duration_from_secs_def sat_mul64_def u64_max_def)
  have "be_nat (to_be 8 issued) = issued"
    using assms by (simp add: be_nat_to_be)
  then have "verify_cookie hmac addr_text secret addr (generate_cookie hmac addr_text secret addr issued) now
       \<longleftrightarrow> issued \<le> now \<and> now - issued \<le> 10000000"
    by (auto simp: verify_cookie_def generate_cookie_def Let_def duration_since_def sat_sub_def life)
  then show ?thesis
    by (auto simp: verify_cookie_def Let_def duration_since_def sat_sub_def life cookie_mac_def split: if_splits)
qed

theorem cookie_verifies_witness:
  "verify_cookie (\<lambda>key msg. take 32 (key @ msg)) (\<lambda>port. to_be 2 port) [1, 2] 443
     (generate_cookie (\<lambda>key msg. take 32 (key @ msg)) (\<lambda>port. to_be 2 port) [1, 2] 443 5000) 6000"
  using cookie_verifies [of 5000 "\<lambda>key msg. take 32 (key @ msg)" "\<lambda>port. to_be 2 port" "[1, 2]" 443 6000 "[]"]
  by simp

end
