(* ===== verification/Fragment.thy ===== *)
theory Fragment
  imports Ordered_Map GTP_Types
begin

text \<open>
  Fragment reassembly of oversized reliable messages (\<^verbatim>\<open>gtp-core/src/fragment.rs\<close>). The hash map of
  incomplete messages is an association list; its iteration order only decides in which order stale
  entries are removed, which does not matter. The byte counter is the total of a weighted store.
  \<^verbatim>\<open>expect\<close> on a missing part is a panic of the model.
\<close>

section \<open>State\<close>

definition MAX_REASSEMBLY_MESSAGES :: nat where
  "MAX_REASSEMBLY_MESSAGES = 64"

definition MAX_REASSEMBLY_BYTES :: nat where
  "MAX_REASSEMBLY_BYTES = 4 * 1024 * 1024"

definition REASSEMBLY_TTL :: duration where
  "REASSEMBLY_TTL = Duration_from_secs 5"

text \<open>\<^verbatim>\<open>len.div_ceil(budget)\<close> for a positive budget.\<close>

definition message_fragment_count :: "nat \<Rightarrow> nat \<Rightarrow> u16 result" where
  "message_fragment_count len budget =
     (let b = max budget 1; n = (len + b - 1) div b in
      if n = 0 \<or> n > 65535 then Err (PayloadTooLarge (b * 65535)) else Ok (of_nat n))"

text \<open>\<^verbatim>\<open>payload.chunks(budget)\<close>: the slices a sender cuts an oversized message into.\<close>

function chunks :: "nat \<Rightarrow> 'a list \<Rightarrow> 'a list list" where
  "chunks n xs = (if xs = [] \<or> n = 0 then [] else take n xs # chunks n (drop n xs))"
  by pat_completeness auto
termination by (relation "measure (length \<circ> snd)") auto

declare chunks.simps [simp del]

datatype push_outcome = Delivered bytes | PartialPush | Dropped

record partial =
  pr_total :: u16
  pr_parts :: "bytes option list"
  pr_received :: u16
  pr_bytes :: nat
  pr_last_touch :: monotonic_time

record message_reassembler =
  mr_entries :: "(u64 \<times> partial) list"
  mr_order :: "u64 list"
  mr_total_bytes :: nat

definition MessageReassembler_new :: message_reassembler where
  "MessageReassembler_new = \<lparr> mr_entries = [], mr_order = [], mr_total_bytes = 0 \<rparr>"

definition MessageReassembler_len :: "message_reassembler \<Rightarrow> nat" where
  "MessageReassembler_len m = length (mr_entries m)"

definition MessageReassembler_is_empty :: "message_reassembler \<Rightarrow> bool" where
  "MessageReassembler_is_empty m \<longleftrightarrow> mr_entries m = []"

definition buffered_bytes :: "message_reassembler \<Rightarrow> nat" where
  "buffered_bytes m = mr_total_bytes m"

section \<open>Operations\<close>

definition remove_entry :: "u64 \<Rightarrow> message_reassembler \<Rightarrow> message_reassembler" where
  "remove_entry mid m =
     (let m1 = (case map_of (mr_entries m) mid of
                  Some e \<Rightarrow> m\<lparr> mr_entries := om_remove mid (mr_entries m),
                              mr_total_bytes := sat_sub (mr_total_bytes m) (pr_bytes e) \<rparr>
                | None \<Rightarrow> m)
      in m1\<lparr> mr_order := filter (\<lambda>x. x \<noteq> mid) (mr_order m1) \<rparr>)"

definition sweep :: "monotonic_time \<Rightarrow> message_reassembler \<Rightarrow> message_reassembler" where
  "sweep now m =
     fold remove_entry
       (map fst (filter (\<lambda>(_, e). duration_since now (pr_last_touch e) > REASSEMBLY_TTL) (mr_entries m))) m"

text \<open>The loop that makes room for a new message: the front of the order goes first.\<close>

fun evict_loop :: "u64 list \<Rightarrow> (u64 \<times> partial) list \<Rightarrow> nat \<Rightarrow> u64 list \<times> (u64 \<times> partial) list \<times> nat" where
  "evict_loop [] es tb = ([], es, tb)"
| "evict_loop (oldest # ord) es tb =
     (if length es \<ge> MAX_REASSEMBLY_MESSAGES then
        (case map_of es oldest of
           Some e \<Rightarrow> evict_loop ord (om_remove oldest es) (sat_sub tb (pr_bytes e))
         | None \<Rightarrow> evict_loop ord es tb)
      else (oldest # ord, es, tb))"

fun join_parts :: "bytes option list \<Rightarrow> bytes result" where
  "join_parts [] = Ok []"
| "join_parts (None # ps) = Panic"
| "join_parts (Some p # ps) = omap (\<lambda>q. p @ q) (join_parts ps)"

text \<open>Taking out a complete message and joining its parts.\<close>

definition deliver :: "u64 \<Rightarrow> partial \<Rightarrow> message_reassembler \<Rightarrow> message_reassembler \<times> push_outcome result" where
  "deliver mid e m =
     (m\<lparr> mr_entries := om_remove mid (mr_entries m), mr_order := filter (\<lambda>x. x \<noteq> mid) (mr_order m),
         mr_total_bytes := sat_sub (mr_total_bytes m) (pr_bytes e) \<rparr>, omap Delivered (join_parts (pr_parts e)))"

definition push_existing ::
  "u64 \<Rightarrow> u16 \<Rightarrow> u16 \<Rightarrow> bytes \<Rightarrow> monotonic_time \<Rightarrow> partial \<Rightarrow> message_reassembler \<Rightarrow> message_reassembler \<times> push_outcome result" where
  "push_existing mid idx frags payload now e m =
     (if pr_total e \<noteq> frags then (m, Ok Dropped)
      else let e1 = e\<lparr> pr_last_touch := now \<rparr>;
               m1 = m\<lparr> mr_entries := om_insert mid e1 (mr_entries m) \<rparr>
           in case slice_index (pr_parts e1) (unat idx) of
                Panic \<Rightarrow> (m1, Panic)
              | Err er \<Rightarrow> (m1, Err er)
              | Ok (Some _) \<Rightarrow> (m1, Ok PartialPush)
              | Ok None \<Rightarrow>
                  if pr_bytes e1 + length payload > MAX_REASSEMBLY_BYTES \<or>
                     mr_total_bytes m1 + length payload > MAX_REASSEMBLY_BYTES then (m1, Ok Dropped)
                  else let e2 = e1\<lparr> pr_parts := (pr_parts e1)[unat idx := Some payload],
                                   pr_bytes := pr_bytes e1 + length payload, pr_received := pr_received e1 + 1 \<rparr>;
                           m2 = m1\<lparr> mr_entries := om_insert mid e2 (mr_entries m1),
                                   mr_total_bytes := mr_total_bytes m1 + length payload \<rparr>
                       in if pr_received e2 = pr_total e2 then deliver mid e2 m2 else (m2, Ok PartialPush))"

definition push_new ::
  "u64 \<Rightarrow> u16 \<Rightarrow> u16 \<Rightarrow> bytes \<Rightarrow> monotonic_time \<Rightarrow> message_reassembler \<Rightarrow> message_reassembler \<times> push_outcome result" where
  "push_new mid idx frags payload now m =
     (if idx \<noteq> 0 then (m, Ok Dropped)
      else if length payload > MAX_REASSEMBLY_BYTES then (m, Ok Dropped)
      else let (ord, es, tb) = evict_loop (mr_order m) (mr_entries m) (mr_total_bytes m);
               m1 = m\<lparr> mr_order := ord, mr_entries := es, mr_total_bytes := tb \<rparr>
           in if mr_total_bytes m1 + length payload > MAX_REASSEMBLY_BYTES then (m1, Ok Dropped)
              else let e = \<lparr> pr_total = frags, pr_parts = (replicate (unat frags) None)[0 := Some payload],
                            pr_received = 1, pr_bytes = length payload, pr_last_touch = now \<rparr>;
                       m2 = m1\<lparr> mr_entries := om_insert mid e (mr_entries m1), mr_order := mr_order m1 @ [mid],
                               mr_total_bytes := mr_total_bytes m1 + length payload \<rparr>
                   in if frags = 1 then deliver mid e m2 else (m2, Ok PartialPush))"

definition push ::
  "u64 \<Rightarrow> u16 \<Rightarrow> u16 \<Rightarrow> bytes \<Rightarrow> monotonic_time \<Rightarrow> message_reassembler \<Rightarrow> message_reassembler \<times> push_outcome result" where
  "push mid idx frags payload now m =
     (if frags = 0 then (m, Ok Dropped)
      else if idx \<ge> frags then (m, Ok Dropped)
      else let m1 = sweep now m in
        case map_of (mr_entries m1) mid of
          Some e \<Rightarrow> push_existing mid idx frags payload now e m1
        | None \<Rightarrow> push_new mid idx frags payload now m1)"

section \<open>Invariant\<close>

definition part_count :: "bytes option list \<Rightarrow> nat" where
  "part_count ps = length (filter (\<lambda>p. p \<noteq> None) ps)"

definition part_bytes :: "bytes option list \<Rightarrow> nat" where
  "part_bytes ps = sum_list (map (\<lambda>p. case p of Some b \<Rightarrow> length b | None \<Rightarrow> 0) ps)"

definition entry_wf :: "partial \<Rightarrow> bool" where
  "entry_wf e \<longleftrightarrow> length (pr_parts e) = unat (pr_total e) \<and> unat (pr_received e) = part_count (pr_parts e) \<and>
     pr_received e < pr_total e \<and> pr_bytes e = part_bytes (pr_parts e)"

definition mr_wf :: "message_reassembler \<Rightarrow> bool" where
  "mr_wf m \<longleftrightarrow> om_wf (mr_entries m) \<and> distinct (mr_order m) \<and> set (mr_order m) = fst ` set (mr_entries m) \<and>
     mr_total_bytes m = om_total pr_bytes (mr_entries m) \<and> mr_total_bytes m \<le> MAX_REASSEMBLY_BYTES \<and>
     length (mr_entries m) \<le> MAX_REASSEMBLY_MESSAGES \<and> (\<forall>(_, e) \<in> set (mr_entries m). entry_wf e)"

lemma mr_wf_new: "mr_wf MessageReassembler_new"
  by (simp add: mr_wf_def MessageReassembler_new_def)

lemma part_count_le: "part_count ps \<le> length ps"
  by (simp add: part_count_def)

lemma part_count_full: "part_count ps = length ps \<longleftrightarrow> None \<notin> set ps"
proof -
  have "part_count ps + length (filter (\<lambda>p. p = None) ps) = length ps"
    using sum_length_filter_compl [of "\<lambda>p. p \<noteq> None" ps] by (simp add: part_count_def)
  then have "part_count ps = length ps \<longleftrightarrow> filter (\<lambda>p. p = None) ps = []"
    by (auto simp: length_0_conv [symmetric] simp del: length_0_conv)
  then show ?thesis by (auto simp: filter_empty_conv)
qed

lemma part_count_update: "i < length ps \<Longrightarrow> ps ! i = None \<Longrightarrow> part_count (ps[i := Some b]) = Suc (part_count ps)"
proof (induction ps arbitrary: i)
  case (Cons p ps)
  then show ?case by (cases i) (auto simp: part_count_def)
qed simp

lemma part_bytes_update: "i < length ps \<Longrightarrow> ps ! i = None \<Longrightarrow> part_bytes (ps[i := Some b]) = part_bytes ps + length b"
proof (induction ps arbitrary: i)
  case (Cons p ps)
  then show ?case by (cases i) (auto simp: part_bytes_def)
qed simp

lemma join_parts_full: "None \<notin> set ps \<Longrightarrow> join_parts ps = Ok (concat (map the ps))"
  by (induction ps rule: join_parts.induct) auto

lemma remove_entry_wf:
  assumes "mr_wf m"
  shows "mr_wf (remove_entry mid m)"
    and "map_of (mr_entries (remove_entry mid m)) = (map_of (mr_entries m))(mid := None)"
proof -
  have wf: "om_wf (mr_entries m)" using assms by (simp add: mr_wf_def)
  have keys: "set (filter (\<lambda>x. x \<noteq> mid) (mr_order m)) = fst ` set (om_remove mid (mr_entries m))"
    using assms by (auto simp: mr_wf_def set_om_remove)
  show "map_of (mr_entries (remove_entry mid m)) = (map_of (mr_entries m))(mid := None)"
    by (auto simp: remove_entry_def Let_def split: option.split)
  show "mr_wf (remove_entry mid m)"
  proof (cases "map_of (mr_entries m) mid")
    case None
    then have "om_remove mid (mr_entries m) = mr_entries m" by (rule om_remove_absent)
    then show ?thesis
      using assms None keys by (auto simp: remove_entry_def Let_def mr_wf_def)
  next
    case (Some e)
    have "mr_total_bytes m - pr_bytes e = om_total pr_bytes (om_remove mid (mr_entries m))"
      using om_store.counter_del [OF wf Some, of pr_bytes] assms by (simp add: mr_wf_def)
    moreover have "length (om_remove mid (mr_entries m)) \<le> length (mr_entries m)"
      by (simp add: om_remove_def)
    ultimately show ?thesis
      using assms Some keys
      by (fastforce simp: remove_entry_def Let_def mr_wf_def sat_sub_def set_om_remove)
  qed
qed

lemma sweep_fold_wf:
  "mr_wf m \<Longrightarrow> mr_wf (fold remove_entry ids m) \<and>
     map_of (mr_entries (fold remove_entry ids m)) = (\<lambda>k. if k \<in> set ids then None else map_of (mr_entries m) k)"
  by (induction ids arbitrary: m) (auto simp: remove_entry_wf fun_eq_iff)

lemma sweep_wf: "mr_wf m \<Longrightarrow> mr_wf (sweep now m)"
  by (simp add: sweep_def sweep_fold_wf)

lemma sweep_lookup:
  assumes "mr_wf m"
  shows "map_of (mr_entries (sweep now m)) k = (case map_of (mr_entries m) k of
      None \<Rightarrow> None
    | Some e \<Rightarrow> if duration_since now (pr_last_touch e) > REASSEMBLY_TTL then None else Some e)"
proof -
  have wf: "om_wf (mr_entries m)" using assms by (simp add: mr_wf_def)
  have "k \<in> set (map fst (filter (\<lambda>(_, e). duration_since now (pr_last_touch e) > REASSEMBLY_TTL) (mr_entries m))) \<longleftrightarrow>
      (\<exists>e. map_of (mr_entries m) k = Some e \<and> duration_since now (pr_last_touch e) > REASSEMBLY_TTL)"
    by (force simp: om_wf_lookup [OF wf])
  then show ?thesis
    using sweep_fold_wf [OF assms] by (auto simp: sweep_def split: option.split)
qed

section \<open>Every push keeps the invariant\<close>

lemma mr_wf_entry: "mr_wf m \<Longrightarrow> map_of (mr_entries m) mid = Some e \<Longrightarrow> entry_wf e"
  by (auto simp: mr_wf_def dest: map_of_SomeD)

lemma set_om_insert_sub: "set (om_insert k v xs) \<subseteq> insert (k, v) (set xs)"
  by (induction k v xs rule: om_insert.induct) auto

text \<open>Replacing an entry in place: order and size stay, the byte total moves by the difference.\<close>

lemma replace_entry:
  assumes "mr_wf m" and "map_of (mr_entries m) mid = Some e" and "entry_wf e'"
  shows "om_wf (om_insert mid e' (mr_entries m))"
    and "set (mr_order m) = fst ` set (om_insert mid e' (mr_entries m))"
    and "length (om_insert mid e' (mr_entries m)) \<le> MAX_REASSEMBLY_MESSAGES"
    and "\<forall>(_, e) \<in> set (om_insert mid e' (mr_entries m)). entry_wf e"
    and "om_total pr_bytes (om_insert mid e' (mr_entries m)) + pr_bytes e =
         om_total pr_bytes (mr_entries m) + pr_bytes e'"
proof -
  have wf: "om_wf (mr_entries m)" using assms(1) by (simp add: mr_wf_def)
  then show "om_wf (om_insert mid e' (mr_entries m))" by simp
  have "mid \<in> fst ` set (mr_entries m)" using map_of_SomeD [OF assms(2)] by force
  then show "set (mr_order m) = fst ` set (om_insert mid e' (mr_entries m))"
    using assms(1) by (auto simp: mr_wf_def fst_set_om_insert)
  show "length (om_insert mid e' (mr_entries m)) \<le> MAX_REASSEMBLY_MESSAGES"
    using om_insert_old_length [OF wf assms(2)] assms(1) by (simp add: mr_wf_def)
  show "\<forall>(_, e) \<in> set (om_insert mid e' (mr_entries m)). entry_wf e"
    using set_om_insert_sub [of mid e' "mr_entries m"] assms(1,3) by (fastforce simp: mr_wf_def)
  show "om_total pr_bytes (om_insert mid e' (mr_entries m)) + pr_bytes e =
         om_total pr_bytes (mr_entries m) + pr_bytes e'"
    using om_total_om_insert_old [OF wf assms(2), of pr_bytes e'] .
qed

text \<open>An entry after one more part: complete, or well formed again.\<close>

lemma entry_after_part:
  fixes payload :: bytes
  assumes "entry_wf e" and "i < length (pr_parts e)"
    and "e' = e\<lparr> pr_parts := (pr_parts e)[i := Some payload], pr_bytes := pr_bytes e + length payload,
                 pr_received := pr_received e + 1 \<rparr>"
  shows "pr_parts e ! i = None \<Longrightarrow>
    (if pr_received e' = pr_total e' then None \<notin> set (pr_parts e') else entry_wf e')"
proof -
  assume none: "pr_parts e ! i = None"
  have lt: "unat (pr_received e) < unat (pr_total e)"
    using assms(1) by (simp add: entry_wf_def word_less_nat_alt)
  have "unat (pr_received e + 1) = unat (pr_received e) + 1"
    using lt unat_lt_exp [of "pr_total e"] by (simp add: unat_word_ariths)
  then have cnt: "unat (pr_received e') = part_count (pr_parts e')" and "pr_total e' = pr_total e"
    using assms(1,2) none by (simp_all add: assms(3) entry_wf_def part_count_update)
  moreover have "length (pr_parts e') = unat (pr_total e')" "pr_bytes e' = part_bytes (pr_parts e')"
    using assms(1,2) none by (simp_all add: assms(3) entry_wf_def part_bytes_update)
  moreover have "pr_received e' \<noteq> pr_total e' \<Longrightarrow> pr_received e' < pr_total e'"
    using cnt part_count_le [of "pr_parts e'"] \<open>length (pr_parts e') = unat (pr_total e')\<close>
    by (metis le_neq_implies_less unat_eqI word_less_nat_alt)
  ultimately show ?thesis
    using part_count_full [of "pr_parts e'"] by (auto simp: entry_wf_def)
qed

lemma om_remove_om_insert: "om_remove k (om_insert k v xs) = om_remove k xs"
  by (induction k v xs rule: om_insert.induct) (auto simp: om_remove_def)

lemma deliver_wf:
  assumes "mr_wf (m\<lparr> mr_entries := om_remove mid (mr_entries m), mr_order := filter (\<lambda>x. x \<noteq> mid) (mr_order m),
         mr_total_bytes := sat_sub (mr_total_bytes m) (pr_bytes e) \<rparr>)" and "None \<notin> set (pr_parts e)"
  shows "mr_wf (fst (deliver mid e m))" and "snd (deliver mid e m) = Ok (Delivered (concat (map the (pr_parts e))))"
  using assms by (simp_all add: deliver_def join_parts_full)

lemma push_existing_wf:
  assumes "mr_wf m" and "map_of (mr_entries m) mid = Some e" and "idx < frags"
    and "push_existing mid idx frags payload now e m = (m', r)"
  shows "mr_wf m' \<and> r \<noteq> Panic \<and> (\<forall>er. r \<noteq> Err er) \<and>
    (\<forall>full. r = Ok (Delivered full) \<longrightarrow> (\<exists>ps. length ps = unat frags \<and> full = concat ps \<and> ps ! unat idx = payload \<and>
       (\<forall>i < unat frags. i \<noteq> unat idx \<longrightarrow> pr_parts e ! i = Some (ps ! i))))"
proof (cases "pr_total e = frags")
  case False
  then show ?thesis using assms by (auto simp: push_existing_def)
next
  case True
  have ewf: "entry_wf e" using assms(1,2) by (rule mr_wf_entry)
  define e1 where "e1 = e\<lparr> pr_last_touch := now \<rparr>"
  define m1 where "m1 = m\<lparr> mr_entries := om_insert mid e1 (mr_entries m) \<rparr>"
  have e1: "entry_wf e1" "pr_bytes e1 = pr_bytes e" "pr_parts e1 = pr_parts e" "pr_total e1 = frags"
    using ewf True by (simp_all add: e1_def entry_wf_def)
  note R1 = replace_entry [OF assms(1,2) e1(1)]
  have wf1: "mr_wf m1" using assms(1) R1 e1(2) by (auto simp: mr_wf_def m1_def)
  have look1: "map_of (mr_entries m1) mid = Some e1" by (simp add: m1_def)
  have bound: "unat idx < length (pr_parts e1)"
    using e1(1,4) assms(3) by (simp add: entry_wf_def word_less_nat_alt)
  have unfold: "push_existing mid idx frags payload now e m = (case pr_parts e1 ! unat idx of
      Some _ \<Rightarrow> (m1, Ok PartialPush)
    | None \<Rightarrow> if pr_bytes e1 + length payload > MAX_REASSEMBLY_BYTES \<or>
                 mr_total_bytes m1 + length payload > MAX_REASSEMBLY_BYTES then (m1, Ok Dropped)
        else let e2 = e1\<lparr> pr_parts := (pr_parts e1)[unat idx := Some payload],
                         pr_bytes := pr_bytes e1 + length payload, pr_received := pr_received e1 + 1 \<rparr>;
                 m2 = m1\<lparr> mr_entries := om_insert mid e2 (mr_entries m1),
                         mr_total_bytes := mr_total_bytes m1 + length payload \<rparr>
             in if pr_received e2 = pr_total e2 then deliver mid e2 m2 else (m2, Ok PartialPush))"
    using True bound unfolding push_existing_def
    by (simp add: Let_def e1_def [symmetric] m1_def [symmetric] slice_index_ok split: option.split)
  show ?thesis
  proof (cases "pr_parts e1 ! unat idx = None \<and> pr_bytes e1 + length payload \<le> MAX_REASSEMBLY_BYTES \<and>
      mr_total_bytes m1 + length payload \<le> MAX_REASSEMBLY_BYTES")
    case False
    then show ?thesis using assms(4) unfold wf1 by (auto split: option.splits)
  next
    case take: True
    define e2 where "e2 = e1\<lparr> pr_parts := (pr_parts e1)[unat idx := Some payload],
        pr_bytes := pr_bytes e1 + length payload, pr_received := pr_received e1 + 1 \<rparr>"
    define m2 where "m2 = m1\<lparr> mr_entries := om_insert mid e2 (mr_entries m1),
        mr_total_bytes := mr_total_bytes m1 + length payload \<rparr>"
    have eq: "push_existing mid idx frags payload now e m =
        (if pr_received e2 = pr_total e2 then deliver mid e2 m2 else (m2, Ok PartialPush))"
      using unfold take by (simp add: Let_def e2_def m2_def)
    note E2 = entry_after_part [OF e1(1) bound e2_def]
    have tot: "pr_total e2 = frags" "length (pr_parts e2) = unat frags"
      using e1 by (simp_all add: e2_def entry_wf_def)
    show ?thesis
    proof (cases "pr_received e2 = pr_total e2")
      case True
      have full: "None \<notin> set (pr_parts e2)" using E2 take True by simp
      have nexts: "om_remove mid (mr_entries m2) = om_remove mid (mr_entries m1)"
        by (simp add: m2_def om_remove_om_insert)
      have bts: "mr_total_bytes m2 - pr_bytes e2 = mr_total_bytes m1 - pr_bytes e1"
        by (simp add: m2_def e2_def)
      have "mr_wf (remove_entry mid m1)" using wf1 by (rule remove_entry_wf)
      then have "mr_wf (m2\<lparr> mr_entries := om_remove mid (mr_entries m2), mr_order := filter (\<lambda>x. x \<noteq> mid) (mr_order m2),
         mr_total_bytes := sat_sub (mr_total_bytes m2) (pr_bytes e2) \<rparr>)"
        using look1 nexts bts by (simp add: remove_entry_def Let_def sat_sub_def) (simp add: m2_def mr_wf_def)
      note D = deliver_wf [OF this full]
      have "deliver mid e2 m2 = (m', r)" using eq True assms(4) by simp
      with D have r: "r = Ok (Delivered (concat (map the (pr_parts e2))))" and wf': "mr_wf m'"
        by simp_all
      have parts: "pr_parts e ! i = Some (map the (pr_parts e2) ! i)" if "i < unat frags" "i \<noteq> unat idx" for i
      proof -
        have "pr_parts e2 ! i = pr_parts e ! i" using that e1(3) by (simp add: e2_def)
        moreover have "pr_parts e2 ! i \<noteq> None" using full that tot(2) by (metis nth_mem)
        ultimately show ?thesis using that tot(2) by auto
      qed
      have "map the (pr_parts e2) ! unat idx = payload"
        using bound by (simp add: e2_def)
      with parts show ?thesis
        using r wf' tot(2) by (auto intro!: exI [of _ "map the (pr_parts e2)"])
    next
      case False
      have e2wf: "entry_wf e2" using E2 take False by simp
      note R2 = replace_entry [OF wf1 look1 e2wf]
      have "mr_total_bytes m2 = om_total pr_bytes (mr_entries m2)"
        using R2(5) wf1 by (simp add: m2_def e2_def mr_wf_def)
      then have "mr_wf m2" using wf1 R2 take by (auto simp: mr_wf_def m2_def)
      then show ?thesis using eq False assms(4) by auto
    qed
  qed
qed

text \<open>Making room keeps the books and leaves a free slot.\<close>

lemma evict_loop_wf:
  assumes "om_wf es" and "distinct ord" and "set ord = fst ` set es" and "tb = om_total pr_bytes es"
    and "\<forall>(_, e) \<in> set es. entry_wf e" and "evict_loop ord es tb = (ord', es', tb')"
  shows "om_wf es' \<and> distinct ord' \<and> set ord' = fst ` set es' \<and> tb' = om_total pr_bytes es' \<and>
    (\<forall>(_, e) \<in> set es'. entry_wf e) \<and> length es' < MAX_REASSEMBLY_MESSAGES \<and> tb' \<le> tb \<and>
    set es' \<subseteq> set es"
  using assms
proof (induction ord arbitrary: es tb)
  case Nil
  then show ?case by (auto simp: MAX_REASSEMBLY_MESSAGES_def)
next
  case (Cons oldest ord)
  show ?case
  proof (cases "length es \<ge> MAX_REASSEMBLY_MESSAGES")
    case True
    have "oldest \<in> fst ` set es" using Cons.prems(3) by auto
    then obtain e where e: "map_of es oldest = Some e"
      by (metis map_of_eq_None_iff not_None_eq)
    have run: "evict_loop ord (om_remove oldest es) (sat_sub tb (pr_bytes e)) = (ord', es', tb')"
      using Cons.prems(6) True e by simp
    have keys: "set ord = fst ` set (om_remove oldest es)"
      using Cons.prems(2,3) by (auto simp: set_om_remove)
    have bytes: "sat_sub tb (pr_bytes e) = om_total pr_bytes (om_remove oldest es)"
      using om_store.counter_del [OF Cons.prems(1) e, of pr_bytes] Cons.prems(4) by (simp add: sat_sub_def)
    have wf: "\<forall>(_, e) \<in> set (om_remove oldest es). entry_wf e"
      using Cons.prems(5) by (auto simp: set_om_remove)
    from Cons.IH [OF _ _ keys bytes wf run] show ?thesis
      using Cons.prems(1,2) by (auto simp: sat_sub_def set_om_remove)
  next
    case False
    then have "ord' = oldest # ord" "es' = es" "tb' = tb" using Cons.prems(6) by auto
    then show ?thesis using Cons.prems(1-5) False by simp
  qed
qed

lemma push_new_wf:
  assumes "mr_wf m" and "map_of (mr_entries m) mid = None" and "idx < frags"
    and "push_new mid idx frags payload now m = (m', r)"
  shows "mr_wf m' \<and> r \<noteq> Panic \<and> (\<forall>er. r \<noteq> Err er) \<and>
    (\<forall>full. r = Ok (Delivered full) \<longrightarrow> frags = 1 \<and> full = payload)"
proof -
  obtain ord es tb where ev: "evict_loop (mr_order m) (mr_entries m) (mr_total_bytes m) = (ord, es, tb)"
    by (metis prod_cases3)
  have E: "om_wf es" "distinct ord" "set ord = fst ` set es" "tb = om_total pr_bytes es"
    "\<forall>(_, e) \<in> set es. entry_wf e" "length es < MAX_REASSEMBLY_MESSAGES" "tb \<le> mr_total_bytes m"
    "set es \<subseteq> set (mr_entries m)"
    using evict_loop_wf [OF _ _ _ _ _ ev] assms(1) by (auto simp: mr_wf_def)
  define m1 where "m1 = m\<lparr> mr_order := ord, mr_entries := es, mr_total_bytes := tb \<rparr>"
  have wf1: "mr_wf m1" using E assms(1) by (auto simp: mr_wf_def m1_def)
  have "mid \<notin> fst ` set (mr_entries m)" using assms(2) by (simp add: map_of_eq_None_iff)
  then have absent: "mid \<notin> fst ` set es" using E(8) by force
  then have none: "map_of es mid = None" by (simp add: map_of_eq_None_iff)
  define e where "e = \<lparr> pr_total = frags, pr_parts = (replicate (unat frags) None)[0 := Some payload],
      pr_received = (1 :: u16), pr_bytes = length payload, pr_last_touch = now \<rparr>"
  define m2 where "m2 = m1\<lparr> mr_entries := om_insert mid e (mr_entries m1), mr_order := mr_order m1 @ [mid],
      mr_total_bytes := mr_total_bytes m1 + length payload \<rparr>"
  have pos: "0 < unat frags" using assms(3) by (simp add: word_less_nat_alt)
  have "part_count (replicate n (None :: bytes option)) = 0" "part_bytes (replicate n None) = 0" for n
    by (simp_all add: part_count_def part_bytes_def)
  then have cnt: "part_count (pr_parts e) = 1" "part_bytes (pr_parts e) = length payload"
    using pos by (simp_all add: e_def part_count_update part_bytes_update)
  have unfold: "push_new mid idx frags payload now m =
    (if idx \<noteq> 0 \<or> length payload > MAX_REASSEMBLY_BYTES then (m, Ok Dropped)
     else if mr_total_bytes m1 + length payload > MAX_REASSEMBLY_BYTES then (m1, Ok Dropped)
     else if frags = 1 then deliver mid e m2 else (m2, Ok PartialPush))"
    by (simp add: push_new_def ev m1_def m2_def e_def Let_def)
  consider (drop) "idx \<noteq> 0 \<or> length payload > MAX_REASSEMBLY_BYTES"
    | (full) "mr_total_bytes m1 + length payload > MAX_REASSEMBLY_BYTES"
        "\<not> (idx \<noteq> 0 \<or> length payload > MAX_REASSEMBLY_BYTES)"
    | (ok) "mr_total_bytes m1 + length payload \<le> MAX_REASSEMBLY_BYTES"
        "\<not> (idx \<noteq> 0 \<or> length payload > MAX_REASSEMBLY_BYTES)"
    by linarith
  then show ?thesis
  proof cases
    case drop
    then show ?thesis using assms(1,4) unfold by auto
  next
    case full
    then show ?thesis using assms(4) wf1 unfold by auto
  next
    case ok
    show ?thesis
    proof (cases "frags = 1")
      case True
      have "om_remove mid (mr_entries m2) = es"
        using none by (simp add: m2_def m1_def om_remove_om_insert om_remove_absent)
      moreover have "filter (\<lambda>x. x \<noteq> mid) (mr_order m2) = ord"
        using absent E(3) by (auto simp: m2_def m1_def filter_id_conv)
      moreover have "sat_sub (mr_total_bytes m2) (pr_bytes e) = tb"
        by (simp add: m2_def m1_def e_def sat_sub_def)
      ultimately have "m2\<lparr> mr_entries := om_remove mid (mr_entries m2),
          mr_order := filter (\<lambda>x. x \<noteq> mid) (mr_order m2),
          mr_total_bytes := sat_sub (mr_total_bytes m2) (pr_bytes e) \<rparr> = m1"
        by (simp add: m2_def m1_def)
      then have d: "deliver mid e m2 = (m1, Ok (Delivered payload))"
        using True by (simp add: deliver_def e_def)
      show ?thesis using d unfold ok True assms(4) wf1 by auto
    next
      case False
      have "(1 :: u16) < frags" using pos False by (metis One_nat_def Suc_leI le_neq_implies_less unat_1 unat_eqI word_less_nat_alt)
      then have "entry_wf e" using cnt by (simp add: entry_wf_def) (simp add: e_def)
      then have "mr_wf m2"
        using E ok absent none set_om_insert_sub [of mid e es]
        by (fastforce simp: mr_wf_def m2_def m1_def om_total_insert om_insert_new_length fst_set_om_insert e_def)
      then show ?thesis using unfold ok False assms(4) by auto
    qed
  qed
qed

section \<open>A complete set of fragments\<close>

lemma concat_chunks: "n > 0 \<Longrightarrow> concat (chunks n xs) = xs"
proof (induction n xs rule: chunks.induct)
  case (1 n xs)
  then show ?case by (subst chunks.simps) auto
qed

lemma length_chunks: "n > 0 \<Longrightarrow> length (chunks n xs) = (length xs + n - 1) div n"
proof (induction n xs rule: chunks.induct)
  case (1 n xs)
  show ?case
  proof (cases "xs = []")
    case True
    then show ?thesis using 1 by (subst chunks.simps) auto
  next
    case False
    have "(length xs + n - 1) div n = Suc ((length (drop n xs) + n - 1) div n)"
    proof (cases "n \<le> length xs")
      case True
      then have eq: "length xs + n - 1 = (length (drop n xs) + n - 1) + n" using 1(2) by simp
      have "(a + n) div n = Suc (a div n)" for a using div_add_self2 [of n a] 1(2) by linarith
      then show ?thesis by (simp only: eq)
    next
      case small: False
      then have "(length xs + n - 1) div n = 1"
        using False by (intro div_nat_eqI) (auto simp: Suc_le_eq neq_Nil_conv)
      then show ?thesis using small 1 by simp
    qed
    moreover have "chunks n xs = take n xs # chunks n (drop n xs)"
      using 1(2) False by (subst chunks.simps) simp
    ultimately show ?thesis using 1 False by simp
  qed
qed

text \<open>
  A run of the reassembler: fragments of any messages in any interleaving, each with the time of its
  arrival, and what the reassembler answers to each.
\<close>

type_synonym arrival = "u64 \<times> u16 \<times> u16 \<times> bytes \<times> monotonic_time"

fun push_seq :: "arrival list \<Rightarrow> message_reassembler \<Rightarrow> message_reassembler \<times> (u64 \<times> push_outcome result) list" where
  "push_seq [] m = (m, [])"
| "push_seq ((mid, idx, frags, payload, now) # arrivals) m =
     (let (m1, r) = push mid idx frags payload now m; (m2, rs) = push_seq arrivals m1
      in (m2, (mid, r) # rs))"

definition fragments_of :: "u64 \<Rightarrow> arrival list \<Rightarrow> arrival list" where
  "fragments_of mid arrivals = filter (\<lambda>(k, _). k = mid) arrivals"

definition answers_to :: "u64 \<Rightarrow> (u64 \<times> push_outcome result) list \<Rightarrow> push_outcome result list" where
  "answers_to mid rs = map snd (filter (\<lambda>(k, _). k = mid) rs)"

definition cut_fragment :: "u64 \<Rightarrow> u16 \<Rightarrow> bytes list \<Rightarrow> nat \<times> monotonic_time \<Rightarrow> arrival" where
  "cut_fragment mid frags ps = (\<lambda>(i, now). (mid, of_nat i, frags, ps ! i, now))"

definition arriving_bytes :: "arrival list \<Rightarrow> nat" where
  "arriving_bytes arrivals = sum_list (map (\<lambda>(_, _, _, payload, _). length payload) arrivals)"

definition openings :: "arrival list \<Rightarrow> nat" where
  "openings arrivals = length (filter (\<lambda>(_, idx, _). idx = 0) arrivals)"

text \<open>Nothing arrives more than the lifetime of an incomplete message after the last fragment of message \<open>mid\<close>.\<close>

fun in_time :: "u64 \<Rightarrow> monotonic_time option \<Rightarrow> arrival list \<Rightarrow> bool" where
  "in_time mid touch [] = True"
| "in_time mid touch ((k, _, _, _, now) # arrivals) =
     ((\<forall>t. touch = Some t \<longrightarrow> duration_since now t \<le> REASSEMBLY_TTL) \<and> in_time mid (if k = mid then Some now else touch) arrivals)"

text \<open>An entry of which exactly the parts with index in \<open>is\<close> are missing.\<close>

definition entry_missing :: "u16 \<Rightarrow> bytes list \<Rightarrow> monotonic_time \<Rightarrow> nat list \<Rightarrow> partial \<Rightarrow> bool" where
  "entry_missing frags ps now is e \<longleftrightarrow> pr_total e = frags \<and> pr_last_touch e = now \<and>
     pr_parts e = map (\<lambda>i. if i \<in> set is then None else Some (ps ! i)) [0..<unat frags]"

lemma push_at_existing:
  assumes "mr_wf m" and "map_of (mr_entries m) mid = Some e" and "duration_since now (pr_last_touch e) \<le> REASSEMBLY_TTL" and "idx < frags"
  shows "push mid idx frags payload now m = push_existing mid idx frags payload now e (sweep now m)"
    and "map_of (mr_entries (sweep now m)) mid = Some e"
proof -
  show look: "map_of (mr_entries (sweep now m)) mid = Some e"
    using sweep_lookup [OF assms(1), of now mid] assms(2,3) by simp
  have "frags \<noteq> 0" using assms(4) by auto
  then show "push mid idx frags payload now m = push_existing mid idx frags payload now e (sweep now m)"
    using look assms(4) by (auto simp: push_def Let_def)
qed

lemma sweep_bytes: "mr_total_bytes (sweep now m) \<le> mr_total_bytes m"
proof -
  have "mr_total_bytes (fold remove_entry ids m) \<le> mr_total_bytes m" for ids
  proof (induction ids arbitrary: m)
    case (Cons k ids)
    have "mr_total_bytes (remove_entry k m) \<le> mr_total_bytes m"
      by (simp add: remove_entry_def Let_def sat_sub_def split: option.split)
    then show ?case using Cons [of "remove_entry k m"] by simp
  qed simp
  then show ?thesis by (simp add: sweep_def)
qed

lemma entry_missing_none: "entry_missing frags ps now is e \<Longrightarrow> None \<in> set (pr_parts e) \<longleftrightarrow> (\<exists>i \<in> set is. i < unat frags)"
  by (auto simp: entry_missing_def)

lemma entry_missing_step:
  assumes "entry_missing frags ps t (i # is) e" and "i \<notin> set is" and "i < unat frags"
    and "e' = e\<lparr> pr_last_touch := now, pr_parts := (pr_parts e)[i := Some (ps ! i)], pr_bytes := b, pr_received := c \<rparr>"
  shows "entry_missing frags ps now is e'"
  using assms by (auto simp: entry_missing_def intro!: nth_equalityI simp: nth_list_update)

text \<open>One more of the missing fragments: the message stays open until the last one completes it.\<close>

lemma push_missing_fragment:
  assumes "mr_wf m" and "map_of (mr_entries m) mid = Some e" and "entry_missing frags ps t (i # is) e"
    and "duration_since now t \<le> REASSEMBLY_TTL" and "i \<notin> set is" and "set (i # is) \<subseteq> {..<unat frags}" and "length ps = unat frags"
    and "mr_total_bytes m + length (ps ! i) \<le> MAX_REASSEMBLY_BYTES"
    and "push mid (of_nat i) frags (ps ! i) now m = (m', r)"
  shows "if is = [] then r = Ok (Delivered (concat ps)) \<and> map_of (mr_entries m') mid = None
     else r = Ok PartialPush \<and> (\<exists>e'. map_of (mr_entries m') mid = Some e' \<and> entry_missing frags ps now is e')"
proof -
  have ewf: "entry_wf e" using assms(1,2) by (rule mr_wf_entry)
  have ui: "unat (of_nat i :: u16) = i" and lt: "(of_nat i :: u16) < frags"
    using assms(6) unat_lt_exp [of frags] by (simp_all add: unat_of_nat word_less_nat_alt)
  have miss: "pr_total e = frags" "pr_last_touch e = t" "length (pr_parts e) = unat frags" "pr_parts e ! i = None"
    using assms(3,6) by (simp_all add: entry_missing_def)
  note P = push_at_existing [OF assms(1,2) assms(4) [folded miss(2)] lt]
  define m1 where "m1 = sweep now m"
  have m1: "mr_wf m1" "map_of (mr_entries m1) mid = Some e" "mr_total_bytes m1 \<le> mr_total_bytes m"
    using P(2) assms(1) sweep_bytes by (simp_all add: m1_def sweep_wf)
  have "pr_bytes e \<le> mr_total_bytes m1"
    using om_store.weight_le_total [of "mr_entries m1" mid e pr_bytes] m1 by (simp add: mr_wf_def)
  then have room: "pr_bytes e + length (ps ! i) \<le> MAX_REASSEMBLY_BYTES"
    "mr_total_bytes m1 + length (ps ! i) \<le> MAX_REASSEMBLY_BYTES"
    using assms(8) m1(3) by simp_all
  define e1 where "e1 = e\<lparr> pr_last_touch := now \<rparr>"
  define e2 where "e2 = e1\<lparr> pr_parts := (pr_parts e1)[i := Some (ps ! i)],
      pr_bytes := pr_bytes e1 + length (ps ! i), pr_received := pr_received e1 + 1 \<rparr>"
  define m2 where "m2 = m1\<lparr> mr_entries := om_insert mid e2 (om_insert mid e1 (mr_entries m1)),
      mr_total_bytes := mr_total_bytes m1 + length (ps ! i) \<rparr>"
  have "push_existing mid (of_nat i) frags (ps ! i) now e m1 =
      (if pr_received e2 = frags then deliver mid e2 m2 else (m2, Ok PartialPush))"
    using ui miss room assms(6) by (simp add: push_existing_def Let_def slice_index_ok e1_def e2_def m2_def)
  then have run: "(m', r) = (if pr_received e2 = frags then deliver mid e2 m2 else (m2, Ok PartialPush))"
    using assms(9) P(1) by (simp add: m1_def)
  have e2m: "entry_missing frags ps now is e2"
    using entry_missing_step [OF assms(3), where e' = e2] assms(5,6) by (simp add: e1_def e2_def)
  have "entry_wf e1" using ewf by (simp add: e1_def entry_wf_def)
  then have "if pr_received e2 = pr_total e2 then None \<notin> set (pr_parts e2) else entry_wf e2"
    using entry_after_part [OF _ _ e2_def] miss assms(6) by (simp add: e1_def)
  moreover have "entry_wf e2 \<Longrightarrow> None \<in> set (pr_parts e2)"
    using part_count_full [of "pr_parts e2"] by (auto simp: entry_wf_def word_less_nat_alt)
  ultimately have last: "pr_received e2 = frags \<longleftrightarrow> is = []"
    using entry_missing_none [OF e2m] assms(6) miss(1) e2_def e1_def by (cases "is") (auto split: if_splits)
  show ?thesis
  proof (cases "is = []")
    case True
    then have "pr_parts e2 = map Some ps" using e2m assms(7) by (auto simp: entry_missing_def intro!: nth_equalityI)
    then have "join_parts (pr_parts e2) = Ok (concat ps)" by (simp add: join_parts_full comp_def)
    then show ?thesis using True run last by (simp add: deliver_def)
  next
    case False
    then show ?thesis using run last e2m by (auto simp: m2_def)
  qed
qed

lemma push_wf:
  assumes "mr_wf m" and "push mid idx frags payload now m = (m', r)"
  shows "mr_wf m' \<and> r \<noteq> Panic"
proof (cases "frags = 0 \<or> idx \<ge> frags")
  case True
  then show ?thesis using assms by (auto simp: push_def split: if_splits)
next
  case False
  then have lt: "idx < frags" by (simp add: not_le)
  have wf1: "mr_wf (sweep now m)" using assms(1) by (rule sweep_wf)
  show ?thesis
  proof (cases "map_of (mr_entries (sweep now m)) mid")
    case None
    then show ?thesis
      using push_new_wf [OF wf1 None lt, of payload now m' r] assms(2) False by (simp add: push_def Let_def)
  next
    case (Some e)
    then show ?thesis
      using push_existing_wf [OF wf1 Some lt, of payload now m' r] assms(2) False by (simp add: push_def Let_def)
  qed
qed

text \<open>What any push can do to the size of the table and to the entries of other messages, while there is a free slot.\<close>

lemma sweep_shrinks: "length (mr_entries (sweep now m)) \<le> length (mr_entries m)"
proof -
  have "length (mr_entries (fold remove_entry ids m)) \<le> length (mr_entries m)" for ids
  proof (induction ids arbitrary: m)
    case (Cons k ids)
    have "length (mr_entries (remove_entry k m)) \<le> length (mr_entries m)"
      by (simp add: remove_entry_def Let_def om_remove_def split: option.split)
    then show ?case using Cons [of "remove_entry k m"] by simp
  qed simp
  then show ?thesis by (simp add: sweep_def)
qed

lemma evict_loop_idle: "length es < MAX_REASSEMBLY_MESSAGES \<Longrightarrow> evict_loop ord es tb = (ord, es, tb)"
  by (cases ord) simp_all

definition grows :: "u64 \<Rightarrow> nat \<Rightarrow> nat \<Rightarrow> message_reassembler \<Rightarrow> message_reassembler \<Rightarrow> bool" where
  "grows k b n m m' \<longleftrightarrow> mr_total_bytes m' \<le> mr_total_bytes m + b \<and> length (mr_entries m') \<le> length (mr_entries m) + n \<and>
     (\<forall>mid. mid \<noteq> k \<longrightarrow> map_of (mr_entries m') mid = map_of (mr_entries m) mid)"

lemma deliver_grows:
  assumes "grows k b n m m1"
  shows "grows k b n m (fst (deliver k e m1))"
proof -
  have "length (om_remove k (mr_entries m1)) \<le> length (mr_entries m1)" by (simp add: om_remove_def)
  then show ?thesis using assms by (auto simp: grows_def deliver_def sat_sub_def)
qed

lemma push_existing_grows:
  assumes "mr_wf m" and "map_of (mr_entries m) k = Some e" and "push_existing k idx frags payload now e m = (m', r)"
  shows "grows k (length payload) 0 m m'"
proof -
  have wf: "om_wf (mr_entries m)" using assms(1) by (simp add: mr_wf_def)
  have len: "length (om_insert k e' (mr_entries m)) = length (mr_entries m)"
    "length (om_insert k e'' (om_insert k e' (mr_entries m))) = length (mr_entries m)" for e' e''
    using om_insert_old_length [OF wf assms(2)] om_insert_old_length [of "om_insert k e' (mr_entries m)" k e'] wf by simp_all
  consider "m' = m" | e1 where "m' = m\<lparr> mr_entries := om_insert k e1 (mr_entries m) \<rparr>"
    | e1 e2 where "m' = m\<lparr> mr_entries := om_insert k e2 (om_insert k e1 (mr_entries m)), mr_total_bytes := mr_total_bytes m + length payload \<rparr>"
    | e1 e2 where "m' = fst (deliver k e2 (m\<lparr> mr_entries := om_insert k e2 (om_insert k e1 (mr_entries m)), mr_total_bytes := mr_total_bytes m + length payload \<rparr>))"
    using assms(3) by (auto simp: push_existing_def Let_def split: if_splits outcome.splits option.splits) (metis fst_conv)
  moreover have stored: "grows k (length payload) 0 m (m\<lparr> mr_entries := om_insert k e2 (om_insert k e1 (mr_entries m)), mr_total_bytes := mr_total_bytes m + length payload \<rparr>)"
    for e1 e2 by (simp add: grows_def len)
  ultimately show ?thesis
    using deliver_grows [OF stored] by cases (simp_all add: grows_def len)
qed

lemma push_new_grows:
  assumes "mr_wf m" and "map_of (mr_entries m) k = None" and "push_new k idx frags payload now m = (m', r)"
    and "idx = 0 \<Longrightarrow> length (mr_entries m) < MAX_REASSEMBLY_MESSAGES"
  shows "grows k (length payload) (if idx = 0 then 1 else 0) m m'"
proof (cases "idx = 0")
  case False
  then show ?thesis using assms(3) by (simp add: push_new_def grows_def)
next
  case True
  have idle: "evict_loop (mr_order m) (mr_entries m) (mr_total_bytes m) = (mr_order m, mr_entries m, mr_total_bytes m)"
    using assms(4) True by (simp add: evict_loop_idle)
  define e where "e = \<lparr> pr_total = frags, pr_parts = (replicate (unat frags) None)[0 := Some payload],
      pr_received = 1, pr_bytes = length payload, pr_last_touch = now \<rparr>"
  define m2 where "m2 = m\<lparr> mr_entries := om_insert k e (mr_entries m), mr_order := mr_order m @ [k],
      mr_total_bytes := mr_total_bytes m + length payload \<rparr>"
  have "m' = m \<or> m' = m2 \<or> m' = fst (deliver k e m2)"
    using assms(3) True idle by (auto simp: push_new_def Let_def m2_def e_def split: if_splits)
  moreover have stored: "grows k (length payload) 1 m m2"
    using om_insert_new_length [OF assms(2), of e] by (simp add: grows_def m2_def)
  ultimately show ?thesis using deliver_grows [OF stored] True by (auto simp: grows_def)
qed

lemma push_grows:
  assumes "mr_wf m" and "push k idx frags payload now m = (m', r)" and "idx = 0 \<Longrightarrow> length (mr_entries m) < MAX_REASSEMBLY_MESSAGES"
  shows "mr_total_bytes m' \<le> mr_total_bytes m + length payload"
    and "length (mr_entries m') \<le> length (mr_entries m) + (if idx = 0 then 1 else 0)"
    and "mid \<noteq> k \<Longrightarrow> \<forall>e. map_of (mr_entries m) mid = Some e \<longrightarrow> duration_since now (pr_last_touch e) \<le> REASSEMBLY_TTL \<Longrightarrow>
      map_of (mr_entries m') mid = map_of (mr_entries m) mid"
proof -
  have "m' = m \<or> grows k (length payload) (if idx = 0 then 1 else 0) (sweep now m) m'"
  proof (cases "map_of (mr_entries (sweep now m)) k")
    case None
    have "idx = 0 \<Longrightarrow> length (mr_entries (sweep now m)) < MAX_REASSEMBLY_MESSAGES"
      using assms(3) sweep_shrinks [of now m] by simp
    note grow = push_new_grows [OF sweep_wf [OF assms(1)] None _ this]
    have "m' = m \<or> push_new k idx frags payload now (sweep now m) = (m', r)"
      using assms(2) None by (simp add: push_def Let_def split: if_splits)
    then show ?thesis using grow by blast
  next
    case (Some e)
    then have "m' = m \<or> grows k (length payload) 0 (sweep now m) m'"
      using push_existing_grows [OF sweep_wf [OF assms(1)] Some] assms(2) by (auto simp: push_def Let_def split: if_splits)
    then show ?thesis by (auto simp: grows_def)
  qed
  moreover have "map_of (mr_entries (sweep now m)) mid = map_of (mr_entries m) mid"
    if "\<forall>e. map_of (mr_entries m) mid = Some e \<longrightarrow> duration_since now (pr_last_touch e) \<le> REASSEMBLY_TTL"
    using sweep_lookup [OF assms(1), of now mid] that by (cases "map_of (mr_entries m) mid") auto
  ultimately show "mr_total_bytes m' \<le> mr_total_bytes m + length payload"
    "length (mr_entries m') \<le> length (mr_entries m) + (if idx = 0 then 1 else 0)"
    "mid \<noteq> k \<Longrightarrow> \<forall>e. map_of (mr_entries m) mid = Some e \<longrightarrow> duration_since now (pr_last_touch e) \<le> REASSEMBLY_TTL \<Longrightarrow>
      map_of (mr_entries m') mid = map_of (mr_entries m) mid"
    using sweep_bytes [of now m] sweep_shrinks [of now m] by (auto simp: grows_def)
qed

lemma arrival_simps [simp]:
  "fragments_of mid [] = []" "fragments_of mid ((k, rest) # arrivals) = (if k = mid then (k, rest) # fragments_of mid arrivals else fragments_of mid arrivals)"
  "answers_to mid [] = []" "answers_to mid ((k, r) # rs) = (if k = mid then r # answers_to mid rs else answers_to mid rs)"
  "arriving_bytes [] = 0" "arriving_bytes ((k, idx, frags, payload, now) # arrivals) = length payload + arriving_bytes arrivals"
  "openings [] = 0" "openings ((k, idx, tail) # arrivals) = (if idx = 0 then 1 else 0) + openings arrivals"
  by (simp_all add: fragments_of_def answers_to_def arriving_bytes_def openings_def)

text \<open>A reassembler that has room for everything still to come.\<close>

definition has_room :: "arrival list \<Rightarrow> message_reassembler \<Rightarrow> bool" where
  "has_room arrivals m \<longleftrightarrow> mr_wf m \<and> mr_total_bytes m + arriving_bytes arrivals \<le> MAX_REASSEMBLY_BYTES \<and>
     length (mr_entries m) + openings arrivals \<le> MAX_REASSEMBLY_MESSAGES"

lemma has_room_step:
  assumes "has_room ((k, idx, frags, payload, now) # arrivals) m" and "push k idx frags payload now m = (m', r)"
  shows "has_room arrivals m'"
    and "mid \<noteq> k \<Longrightarrow> \<forall>e. map_of (mr_entries m) mid = Some e \<longrightarrow> duration_since now (pr_last_touch e) \<le> REASSEMBLY_TTL \<Longrightarrow>
      map_of (mr_entries m') mid = map_of (mr_entries m) mid"
proof -
  have wf: "mr_wf m" and slot: "idx = 0 \<Longrightarrow> length (mr_entries m) < MAX_REASSEMBLY_MESSAGES" using assms(1) by (simp_all add: has_room_def)
  note g = push_grows [OF wf assms(2) slot]
  show "has_room arrivals m'" using assms(1) g(1,2) push_wf [OF wf assms(2)] by (auto simp: has_room_def)
  show "mid \<noteq> k \<Longrightarrow> \<forall>e. map_of (mr_entries m) mid = Some e \<longrightarrow> duration_since now (pr_last_touch e) \<le> REASSEMBLY_TTL \<Longrightarrow>
      map_of (mr_entries m') mid = map_of (mr_entries m) mid" by (rule g(3))
qed

lemma push_others:
  assumes "has_room arrivals m" and "map_of (mr_entries m) mid = None" and "fragments_of mid arrivals = []"
  shows "\<exists>m' rs. push_seq arrivals m = (m', rs) \<and> answers_to mid rs = [] \<and> mr_wf m' \<and> map_of (mr_entries m') mid = None"
  using assms
proof (induction arrivals arbitrary: m)
  case (Cons a arrivals)
  obtain k idx frags payload now where a: "a = (k, idx, frags, payload, now)" by (cases a) auto
  obtain m1 r where p: "push k idx frags payload now m = (m1, r)" by fastforce
  have k: "mid \<noteq> k" using Cons.prems(3) a by auto
  have "has_room arrivals m1" "map_of (mr_entries m1) mid = None"
    using has_room_step [OF Cons.prems(1) [unfolded a] p] k Cons.prems(2) by simp_all
  then show ?case using Cons.IH [of m1] Cons.prems(3) a p k by auto
qed (simp add: has_room_def)

lemma push_missing_all:
  assumes "has_room arrivals m" and "map_of (mr_entries m) mid = Some e" and "entry_missing frags ps t is e"
    and "distinct is" and "is \<noteq> []" and "set is \<subseteq> {..<unat frags}" and "length ps = unat frags"
    and "in_time mid (Some t) arrivals" and "fragments_of mid arrivals = map (cut_fragment mid frags ps) (zip is ts)" and "length ts = length is"
  shows "\<exists>m' rs. push_seq arrivals m = (m', rs) \<and> answers_to mid rs = replicate (length is - 1) (Ok PartialPush) @ [Ok (Delivered (concat ps))] \<and>
     mr_wf m' \<and> map_of (mr_entries m') mid = None"
  using assms
proof (induction arrivals arbitrary: m e t "is" ts)
  case Nil
  then show ?case by (cases "is"; cases ts) simp_all
next
  case (Cons a arrivals)
  obtain k idx frags' payload now where a: "a = (k, idx, frags', payload, now)" by (cases a) auto
  obtain m1 r where p: "push k idx frags' payload now m = (m1, r)" by fastforce
  note room = has_room_step [OF Cons.prems(1) [unfolded a] p]
  have t: "duration_since now t \<le> REASSEMBLY_TTL" using Cons.prems(8) a by simp
  show ?case
  proof (cases "k = mid")
    case False
    have "pr_last_touch e = t" using Cons.prems(3) by (simp add: entry_missing_def)
    then have "map_of (mr_entries m1) mid = Some e" using room(2) [of mid] False t Cons.prems(2) by simp
    from Cons.IH [OF room(1) this Cons.prems(3-7) _ _ Cons.prems(10)] show ?thesis
      using Cons.prems(8,9) a p False by auto
  next
    case True
    obtain i js where "is": "is = i # js" using Cons.prems(5) by (cases "is") auto
    obtain now' ts' where ts: "ts = now' # ts'" using Cons.prems(10) "is" by (cases ts) auto
    have cut: "idx = of_nat i" "frags' = frags" "payload = ps ! i" "now' = now" "fragments_of mid arrivals = map (cut_fragment mid frags ps) (zip js ts')"
      using Cons.prems(9) a True "is" ts by (auto simp: cut_fragment_def)
    have wf: "mr_wf m" and fit: "mr_total_bytes m + length (ps ! i) \<le> MAX_REASSEMBLY_BYTES"
      using Cons.prems(1) a cut(3) by (simp_all add: has_room_def)
    note S = push_missing_fragment [OF wf Cons.prems(2) Cons.prems(3) [unfolded "is"] t _ _ Cons.prems(7) fit, of m1 r]
    show ?thesis
    proof (cases "js = []")
      case last: True
      then have "r = Ok (Delivered (concat ps))" "map_of (mr_entries m1) mid = None"
        using S p cut True Cons.prems(4,6) "is" by simp_all
      then show ?thesis using push_others [OF room(1), of mid] cut(5) last a p True "is" by auto
    next
      case more: False
      then obtain e' where e': "r = Ok PartialPush" "map_of (mr_entries m1) mid = Some e'" "entry_missing frags ps now js e'"
        using S p cut True Cons.prems(4,6) "is" by auto
      obtain m' rs where run: "push_seq arrivals m1 = (m', rs)" "answers_to mid rs = replicate (length js - 1) (Ok PartialPush) @ [Ok (Delivered (concat ps))]"
          "mr_wf m'" "map_of (mr_entries m') mid = None"
        using Cons.IH [OF room(1) e'(2,3) _ more _ Cons.prems(7) _ cut(5)] Cons.prems(4,6,8,10) "is" ts a True by auto
      have "replicate (length js) (Ok PartialPush :: push_outcome result) = Ok PartialPush # replicate (length js - 1) (Ok PartialPush)"
        using more by (cases js) simp_all
      then show ?thesis using run e'(1) a p True "is" by simp
    qed
  qed
qed

text \<open>Fragment 0 of an unknown message opens an entry, or completes a message of one fragment.\<close>

lemma push_new_opens:
  assumes "mr_wf m" and "map_of (mr_entries m) mid = None" and "0 < unat frags"
    and "mr_total_bytes m + length payload \<le> MAX_REASSEMBLY_BYTES"
    and "push_new mid 0 frags payload now m = (m', r)"
  shows "if frags = 1 then r = Ok (Delivered payload) \<and> map_of (mr_entries m') mid = None
    else r = Ok PartialPush \<and> mr_total_bytes m' \<le> mr_total_bytes m + length payload \<and>
      map_of (mr_entries m') mid = Some \<lparr> pr_total = frags, pr_parts = (replicate (unat frags) None)[0 := Some payload],
        pr_received = 1, pr_bytes = length payload, pr_last_touch = now \<rparr>"
proof -
  obtain ord es tb where ev: "evict_loop (mr_order m) (mr_entries m) (mr_total_bytes m) = (ord, es, tb)"
    by (metis prod_cases3)
  then have "tb \<le> mr_total_bytes m"
    using evict_loop_wf [OF _ _ _ _ _ ev] assms(1) by (auto simp: mr_wf_def)
  then show ?thesis
    using assms(4,5) ev by (auto simp: push_new_def Let_def deliver_def join_parts_full)
qed

lemma opened_entry_missing:
  assumes "0 < unat frags" and "set is = {1..<unat frags}"
  shows "entry_missing frags ps now is \<lparr> pr_total = frags, pr_parts = (replicate (unat frags) None)[0 := Some (ps ! 0)],
        pr_received = 1, pr_bytes = b, pr_last_touch = now \<rparr>"
proof -
  have "\<not> Suc 0 \<le> i \<longleftrightarrow> i = 0" for i by auto
  then show ?thesis
    using assms by (simp add: entry_missing_def list_eq_iff_nth_eq nth_list_update)
qed

section \<open>Properties\<close>

text \<open>
  Reassembly is bounded and cannot be crashed. Whatever fragments arrive in whatever order and
  at whatever times, the reassembler never panics (no part of a message taken as complete is
  missing), it holds at most 64 incomplete messages and at most 4 MiB of fragment bytes, its byte
  counter is exact, and its order list is exactly the set of incomplete messages.
\<close>

theorem reassembly_bounded:
  assumes "mr_wf m" and "push mid idx frags payload now m = (m', r)"
  shows "mr_wf m' \<and> r \<noteq> Panic \<and> MessageReassembler_len m' \<le> 64 \<and> buffered_bytes m' \<le> 4194304 \<and>
    buffered_bytes m' = sum_list (map (pr_bytes \<circ> snd) (mr_entries m')) \<and>
    set (mr_order m') = fst ` set (mr_entries m')"
proof -
  have "mr_wf m' \<and> r \<noteq> Panic" using push_wf [OF assms] .
  then show ?thesis
    by (simp add: mr_wf_def MessageReassembler_len_def buffered_bytes_def MAX_REASSEMBLY_BYTES_def
        MAX_REASSEMBLY_MESSAGES_def om_total_def)
qed

theorem reassembly_bounded_witness:
  "\<exists>m' r. push 7 0 2 [1, 2] 5 MessageReassembler_new = (m', r) \<and> mr_wf m' \<and> MessageReassembler_len m' \<le> 64"
proof -
  obtain m' r where p: "push 7 0 2 [1, 2] 5 MessageReassembler_new = (m', r)" by fastforce
  show ?thesis using reassembly_bounded [OF mr_wf_new p] p by blast
qed

text \<open>The first fragment opens the message, after any number of fragments of other messages.\<close>

lemma push_opening:
  assumes "has_room arrivals m" and "map_of (mr_entries m) mid = None" and "0 < unat frags" and "length ps = unat frags"
    and "distinct is" and "set is = {1..<unat frags}" and "in_time mid None arrivals"
    and "fragments_of mid arrivals = map (cut_fragment mid frags ps) (zip (0 # is) ts)" and "length ts = Suc (length is)"
  shows "\<exists>m' rs. push_seq arrivals m = (m', rs) \<and> answers_to mid rs = replicate (length is) (Ok PartialPush) @ [Ok (Delivered (concat ps))] \<and>
     mr_wf m' \<and> map_of (mr_entries m') mid = None"
  using assms
proof (induction arrivals arbitrary: m)
  case Nil
  then show ?case by (cases ts) simp_all
next
  case (Cons a arrivals)
  obtain k idx frags' payload now where a: "a = (k, idx, frags', payload, now)" by (cases a) auto
  obtain m1 r where p: "push k idx frags' payload now m = (m1, r)" by fastforce
  note room = has_room_step [OF Cons.prems(1) [unfolded a] p]
  show ?case
  proof (cases "k = mid")
    case False
    have "map_of (mr_entries m1) mid = None" using room(2) [of mid] False Cons.prems(2) by simp
    from Cons.IH [OF room(1) this Cons.prems(3-6) _ _ Cons.prems(9)] show ?thesis using Cons.prems(7,8) a p False by auto
  next
    case True
    obtain ts' where ts: "ts = now # ts'" "length ts' = length is"
      and cut: "idx = 0" "frags' = frags" "payload = ps ! 0" "fragments_of mid arrivals = map (cut_fragment mid frags ps) (zip is ts')"
      using Cons.prems(8,9) a True by (cases ts) (auto simp: cut_fragment_def)
    have wf: "mr_wf m" and fit: "mr_total_bytes (sweep now m) + length (ps ! 0) \<le> MAX_REASSEMBLY_BYTES"
      using Cons.prems(1) a cut(3) sweep_bytes [of now m] by (simp_all add: has_room_def)
    have none: "map_of (mr_entries (sweep now m)) mid = None" using sweep_lookup [OF wf, of now mid] Cons.prems(2) by simp
    then have n: "push_new mid 0 frags (ps ! 0) now (sweep now m) = (m1, r)"
      using p True cut(1-3) Cons.prems(3) by (auto simp: push_def Let_def word_less_nat_alt word_le_nat_alt split: if_splits)
    note O = push_new_opens [OF sweep_wf [OF wf] none Cons.prems(3) fit n]
    show ?thesis
    proof (cases "frags = 1")
      case one: True
      then have "is = []" "concat ps = ps ! 0" using Cons.prems(4,6) by (auto simp: length_Suc_conv)
      then show ?thesis using O one push_others [OF room(1), of mid] cut(4) a p True by auto
    next
      case more: False
      then obtain e where e: "r = Ok PartialPush" "map_of (mr_entries m1) mid = Some e" "entry_missing frags ps now is e"
        using O opened_entry_missing [OF Cons.prems(3,6)] by auto
      have ne: "is \<noteq> []" using more Cons.prems(3,6) unat_eqI [of frags 1] by (cases "is") auto
      have sub: "set is \<subseteq> {..<unat frags}" using Cons.prems(6) by auto
      obtain m' rs where run: "push_seq arrivals m1 = (m', rs)" "answers_to mid rs = replicate (length is - 1) (Ok PartialPush) @ [Ok (Delivered (concat ps))]"
          "mr_wf m'" "map_of (mr_entries m') mid = None"
        using push_missing_all [OF room(1) e(2,3) Cons.prems(5) ne sub Cons.prems(4) _ cut(4) ts(2)] Cons.prems(7) a True by auto
      have "replicate (length is) (Ok PartialPush :: push_outcome result) = Ok PartialPush # replicate (length is - 1) (Ok PartialPush)"
        using ne by (cases "is") simp_all
      then show ?thesis using run e(1) a p True by simp
    qed
  qed
qed

text \<open>
  C25: an oversized message survives fragmentation. The sender cuts a payload into chunks of the
  fragment budget, at most 65535 of them, and announces their number. At the receiver the fragments
  arrive in a stream that may hold fragments of any other messages, well-formed or not, between and
  around them: fragment 0 first and the others in any order, each at its own time. If the message is
  not known yet, the byte limit has room for everything in the stream, the table has a slot for every
  message the stream opens, and nothing arrives more than five seconds after the last fragment of the
  message, then its fragments are answered \<^verbatim>\<open>Partial\<close> until the last one, which
  delivers exactly the original payload, and the message is forgotten. Without fragment 0 first the
  fragments are dropped. The comment at the head of the file caps a message at 256 fragments; the
  code, and this theorem, go to 65535.
\<close>

theorem fragmentation_roundtrip:
  assumes "message_fragment_count (length payload) budget = Ok frags" and "0 < budget" and "mr_wf m"
    and "map_of (mr_entries m) mid = None" and "mr_total_bytes m + arriving_bytes arrivals \<le> MAX_REASSEMBLY_BYTES"
    and "length (mr_entries m) + openings arrivals \<le> MAX_REASSEMBLY_MESSAGES"
    and "distinct is" and "set is = {1..<unat frags}" and "length ts = Suc (length is)"
    and "fragments_of mid arrivals = map (cut_fragment mid frags (chunks budget payload)) (zip (0 # is) ts)" and "in_time mid None arrivals"
  shows "\<exists>m' rs. push_seq arrivals m = (m', rs) \<and>
     answers_to mid rs = replicate (length is) (Ok PartialPush) @ [Ok (Delivered payload)] \<and>
     mr_wf m' \<and> map_of (mr_entries m') mid = None"
proof -
  have count: "length (chunks budget payload) = (length payload + budget - 1) div budget" and whole: "concat (chunks budget payload) = payload"
    using assms(2) by (simp_all add: length_chunks concat_chunks)
  have b: "max budget 1 = budget" using assms(2) by simp
  from count have len: "length (chunks budget payload) = unat frags" and pos: "0 < unat frags"
    using assms(1) b by (auto simp: message_fragment_count_def Let_def unat_of_nat simp del: One_nat_def split: if_splits)
  have "has_room arrivals m" using assms(3,5,6) by (simp add: has_room_def)
  from push_opening [OF this assms(4) pos len assms(7,8,11,10,9)] show ?thesis by (simp add: whole)
qed

text \<open>Three fragments, out of order, over six seconds, with a fragment of another message in between.\<close>

theorem fragmentation_roundtrip_witness:
  "message_fragment_count (length [10, 20, 30, 40, 50 :: u8]) 2 = Ok 3 \<and>
   (\<exists>m' rs. push_seq [(9, 0, 3, [10, 20], 1000), (4, 0, 2, [7], 2000), (9, 2, 3, [50], 3001000), (9, 1, 3, [30, 40], 6001000)] MessageReassembler_new = (m', rs) \<and>
      answers_to 9 rs = [Ok PartialPush, Ok PartialPush, Ok (Delivered [10, 20, 30, 40, 50])])"
proof -
  let ?as = "[(9, 0, 3, [10, 20], 1000), (4, 0, 2, [7], 2000), (9, 2, 3, [50], 3001000), (9, 1, 3, [30, 40], 6001000)] :: arrival list"
  have "length [10, 20, 30, 40, 50 :: u8] = 5" by simp
  then have n: "message_fragment_count (length [10, 20, 30, 40, 50 :: u8]) 2 = Ok 3"
    by (simp only:) (simp add: message_fragment_count_def Let_def max_def)
  have chunks: "chunks 2 [10, 20, 30, 40, 50 :: u8] = [[10, 20], [30, 40], [50]]" by (simp add: chunks.simps)
  have "set [2, 1] = {1..<unat (3 :: u16)}" by auto
  moreover have "fragments_of 9 ?as = map (cut_fragment 9 3 (chunks 2 [10, 20, 30, 40, 50])) (zip (0 # [2, 1]) [1000, 3001000, 6001000])"
    unfolding chunks by (simp add: cut_fragment_def)
  moreover have "in_time 9 None ?as" by (simp add: duration_since_def sat_sub_def REASSEMBLY_TTL_def Duration_from_secs_def sat_mul64_def u64_max_def)
  moreover have "mr_total_bytes MessageReassembler_new + arriving_bytes ?as \<le> MAX_REASSEMBLY_BYTES"
      "length (mr_entries MessageReassembler_new) + openings ?as \<le> MAX_REASSEMBLY_MESSAGES" "map_of (mr_entries MessageReassembler_new) 9 = None"
    by (simp_all add: MessageReassembler_new_def MAX_REASSEMBLY_BYTES_def MAX_REASSEMBLY_MESSAGES_def)
  moreover have "0 < (2 :: nat)" "distinct [2, 1 :: nat]" "length [1000, 3001000, 6001000 :: nat] = Suc (length [2, 1 :: nat])" by simp_all
  ultimately have "\<exists>m' rs. push_seq ?as MessageReassembler_new = (m', rs) \<and>
      answers_to 9 rs = replicate (length [2, 1 :: nat]) (Ok PartialPush) @ [Ok (Delivered [10, 20, 30, 40, 50])] \<and>
      mr_wf m' \<and> map_of (mr_entries m') 9 = None"
    using fragmentation_roundtrip [OF n _ mr_wf_new, of 9 ?as "[2, 1]" "[1000, 3001000, 6001000]"] by blast
  then show ?thesis using n by (auto simp: numeral_2_eq_2)
qed

end
