(* ===== verification/Ordered_Group.thy ===== *)
theory Ordered_Group
  imports Ordered_Map GTP_Types
begin

text \<open>
  In-order delivery of one ordered group (\<^verbatim>\<open>gtp-scheduler/src/ordered_group.rs\<close>): a cursor and a
  bounded reorder buffer over wrapping 32-bit sequence numbers. The buffer is a weighted store
  (weight: payload bytes), so its byte counter is an instance of the accounting contract.
\<close>

section \<open>The receiver\<close>

definition DEFAULT_MAX_GROUP_BUFFER_BYTES :: nat where
  "DEFAULT_MAX_GROUP_BUFFER_BYTES = 256 * 1024"

definition DEFAULT_MAX_GROUP_BUFFER_ITEMS :: nat where
  "DEFAULT_MAX_GROUP_BUFFER_ITEMS = 1024"

record ordered_group_receiver =
  og_group_id :: ordered_group_id
  og_next_expected :: u32
  og_reorder_buffer :: "(u32 \<times> bytes) list"
  og_max_buffer_bytes :: nat
  og_current_buffer_bytes :: nat
  og_max_buffer_items :: nat

definition OrderedGroupReceiver_new :: "ordered_group_id \<Rightarrow> ordered_group_receiver" where
  "OrderedGroupReceiver_new gid =
     \<lparr> og_group_id = gid, og_next_expected = 0, og_reorder_buffer = [],
       og_max_buffer_bytes = DEFAULT_MAX_GROUP_BUFFER_BYTES, og_current_buffer_bytes = 0,
       og_max_buffer_items = DEFAULT_MAX_GROUP_BUFFER_ITEMS \<rparr>"

definition seq_is_stale :: "u32 \<Rightarrow> u32 \<Rightarrow> bool" where
  "seq_is_stale sq next_expected \<longleftrightarrow> (let diff = sq - next_expected in diff \<ge> 0x80000000 \<and> diff \<noteq> 0)"

lemma om_remove_shrinks: "map_of xs k = Some v \<Longrightarrow> length (om_remove k xs) < length xs"
  by (induction xs) (auto simp: om_remove_def le_imp_less_Suc split: if_splits)

text \<open>The drain loop: cursor, buffer, byte counter and the items drained, in order.\<close>

function drain_ready :: "u32 \<Rightarrow> (u32 \<times> bytes) list \<Rightarrow> nat \<Rightarrow> u32 \<times> (u32 \<times> bytes) list \<times> nat \<times> (u32 \<times> bytes) list" where
  "drain_ready nxt buf cur = (case map_of buf nxt of
       None \<Rightarrow> (nxt, buf, cur, [])
     | Some buffered \<Rightarrow>
         let (nxt', buf', cur', ready) = drain_ready (nxt + 1) (om_remove nxt buf) (sat_sub cur (length buffered))
         in (nxt', buf', cur', (nxt, buffered) # ready))"
  by pat_completeness auto
termination
  by (relation "measure (\<lambda>(_, buf, _). length buf)") (auto simp: om_remove_shrinks)

declare drain_ready.simps [simp del]

definition on_incoming ::
  "u32 \<Rightarrow> bytes \<Rightarrow> ordered_group_receiver \<Rightarrow> ordered_group_receiver \<times> (u32 \<times> bytes) list result" where
  "on_incoming order_seq payload g =
     (if seq_is_stale order_seq (og_next_expected g) then (g, Ok [])
      else if order_seq = og_next_expected g then
        let (nxt, buf, cur, drained) =
              drain_ready (og_next_expected g + 1) (og_reorder_buffer g) (og_current_buffer_bytes g)
        in (g\<lparr> og_next_expected := nxt, og_reorder_buffer := buf, og_current_buffer_bytes := cur \<rparr>,
            Ok ((order_seq, payload) # drained))
      else if length (og_reorder_buffer g) + 1 > og_max_buffer_items g then
        (g, Err (ResourceLimitExceeded ''Ordered group buffer item capacity exceeded''))
      else if og_current_buffer_bytes g + length payload > og_max_buffer_bytes g then
        (g, Err (ResourceLimitExceeded ''Ordered group buffer capacity exceeded''))
      else if map_of (og_reorder_buffer g) order_seq = None then
        (g\<lparr> og_current_buffer_bytes := og_current_buffer_bytes g + length payload,
            og_reorder_buffer := om_insert order_seq payload (og_reorder_buffer g) \<rparr>, Ok [])
      else (g, Ok []))"

section \<open>Invariant\<close>

definition ahead :: "u32 \<Rightarrow> u32 \<Rightarrow> bool" where
  "ahead nxt k \<longleftrightarrow> 0 < unat (k - nxt) \<and> unat (k - nxt) < 2 ^ 31"

definition buffer_ok :: "u32 \<Rightarrow> (u32 \<times> bytes) list \<Rightarrow> nat \<Rightarrow> bool" where
  "buffer_ok nxt buf cur \<longleftrightarrow> om_wf buf \<and> cur = om_total length buf \<and>
     (\<forall>k \<in> fst ` set buf. k = nxt \<or> ahead nxt k)"

definition og_wf :: "ordered_group_receiver \<Rightarrow> bool" where
  "og_wf g \<longleftrightarrow> om_wf (og_reorder_buffer g) \<and>
     og_current_buffer_bytes g = om_total length (og_reorder_buffer g) \<and>
     (\<forall>k \<in> fst ` set (og_reorder_buffer g). ahead (og_next_expected g) k) \<and>
     og_current_buffer_bytes g \<le> og_max_buffer_bytes g \<and>
     length (og_reorder_buffer g) \<le> og_max_buffer_items g"

lemma og_wf_new: "og_wf (OrderedGroupReceiver_new gid)"
  by (simp add: og_wf_def OrderedGroupReceiver_new_def)

lemma not_stale_iff: "\<not> seq_is_stale sq nxt \<longleftrightarrow> sq = nxt \<or> ahead nxt sq"
  by (auto simp: seq_is_stale_def ahead_def Let_def word_le_nat_alt not_le unat_gt_0)

text \<open>Moving the cursor one step keeps what is ahead ahead, or lands on it.\<close>

lemma ahead_Suc:
  assumes "ahead nxt k"
  shows "k = nxt + 1 \<or> ahead (nxt + 1) k"
proof -
  have "1 \<le> k - nxt" using assms by (simp add: ahead_def word_le_nat_alt)
  from unat_sub [OF this] have u: "unat (k - (nxt + 1)) = unat (k - nxt) - 1"
    by (simp add: diff_diff_eq)
  show ?thesis
  proof (cases "unat (k - (nxt + 1)) = 0")
    case True
    then have "k - (nxt + 1) = 0" by (simp only: unat_eq_0)
    then show ?thesis by simp
  next
    case False
    then have "ahead (nxt + 1) k" using u assms unfolding ahead_def by linarith
    then show ?thesis ..
  qed
qed

lemma drain_ready_result:
  assumes "buffer_ok nxt buf cur" and "drain_ready nxt buf cur = (nxt', buf', cur', ready)"
  shows "buffer_ok nxt' buf' cur' \<and> map_of buf' nxt' = None \<and> length buf' \<le> length buf \<and> cur' \<le> cur \<and>
    map fst ready = map (\<lambda>i. nxt + of_nat i) [0..<length ready] \<and> nxt' = nxt + of_nat (length ready) \<and>
    set buf = set buf' \<union> set ready \<and> set buf' \<inter> set ready = {}"
  using assms
proof (induction nxt buf cur arbitrary: nxt' buf' cur' ready rule: drain_ready.induct)
  case (1 nxt buf cur)
  show ?case
  proof (cases "map_of buf nxt")
    case None
    then show ?thesis
      using "1.prems" by (subst (asm) drain_ready.simps) auto
  next
    case (Some b)
    obtain n1 b1 c1 ready1 where rec1: "drain_ready (nxt + 1) (om_remove nxt buf) (sat_sub cur (length b)) =
        (n1, b1, c1, ready1)"
      by (metis prod_cases4)
    then have "drain_ready nxt buf cur = (n1, b1, c1, (nxt, b) # ready1)"
      by (subst drain_ready.simps) (simp add: Some Let_def)
    then have ready: "ready = (nxt, b) # ready1" and eqs: "n1 = nxt'" "b1 = buf'" "c1 = cur'"
      using "1.prems"(2) by simp_all
    note rec = rec1 [unfolded eqs]
    have wf: "om_wf buf" and cur: "cur = om_total length buf" using "1.prems"(1) by (auto simp: buffer_ok_def)
    have mem: "(nxt, b) \<in> set buf" using Some by (rule map_of_SomeD)
    have "sat_sub cur (length b) = om_total length (om_remove nxt buf)"
      using om_store.counter_del [OF wf Some, of length] cur by (simp add: sat_sub_def)
    then have ok: "buffer_ok (nxt + 1) (om_remove nxt buf) (sat_sub cur (length b))"
      using "1.prems"(1) ahead_Suc by (fastforce simp: buffer_ok_def set_om_remove)
    note IH = "1.IH" [OF Some ok rec]
    have split: "set buf = insert (nxt, b) (set (om_remove nxt buf))"
      using mem wf Some by (auto simp: set_om_remove om_wf_lookup [symmetric])
    have "map (\<lambda>i. nxt + of_nat i) [0..<Suc (length ready1)] =
        nxt # map (\<lambda>i. nxt + 1 + of_nat i) [0..<length ready1]"
      by (simp add: upt_conv_Cons map_Suc_upt [symmetric] add.assoc comp_def del: upt_Suc)
    moreover have "(nxt, b) \<notin> set (om_remove nxt buf)" by (simp add: set_om_remove)
    then have "(nxt, b) \<notin> set buf'" using IH by blast
    moreover have "length (om_remove nxt buf) \<le> length buf" by (simp add: om_remove_def)
    moreover have "sat_sub cur (length b) \<le> cur" by (simp add: sat_sub_def)
    ultimately show ?thesis
      using IH split by (auto simp: ready add.assoc)
  qed
qed

section \<open>One arrival\<close>

definition consecutive :: "u32 \<Rightarrow> u32 list \<Rightarrow> bool" where
  "consecutive start sqs \<longleftrightarrow> sqs = map (\<lambda>i. start + of_nat i) [0..<length sqs]"

lemma consecutive_Nil [simp]: "consecutive start []"
  by (simp add: consecutive_def)

lemma consecutive_nth: "consecutive start xs \<longleftrightarrow> (\<forall>i < length xs. xs ! i = start + of_nat i)"
  unfolding consecutive_def list_eq_iff_nth_eq by simp

lemma consecutive_append:
  "consecutive start (xs @ ys) \<longleftrightarrow> consecutive start xs \<and> consecutive (start + of_nat (length xs)) ys"
proof -
  have "(\<forall>i < length xs + length ys. (xs @ ys) ! i = start + of_nat i) \<longleftrightarrow>
      (\<forall>i < length xs. xs ! i = start + of_nat i) \<and>
      (\<forall>j < length ys. ys ! j = start + of_nat (length xs) + of_nat j)" (is "?L \<longleftrightarrow> ?R")
  proof
    assume L: ?L
    have "ys ! j = start + of_nat (length xs) + of_nat j" if "j < length ys" for j
      using L [rule_format, of "length xs + j"] that by (simp add: add.assoc)
    moreover have "xs ! i = start + of_nat i" if "i < length xs" for i
      using L [rule_format, of i] that by (simp add: nth_append)
    ultimately show ?R by blast
  next
    assume R: ?R
    show ?L
    proof (intro allI impI)
      fix i assume "i < length xs + length ys"
      then show "(xs @ ys) ! i = start + of_nat i"
        using R by (cases "i < length xs") (auto simp: nth_append)
    qed
  qed
  then show ?thesis by (simp add: consecutive_nth)
qed

lemma ahead_irrefl [simp]: "\<not> ahead k k"
  by (simp add: ahead_def)

text \<open>What the receiver holds: the sequence-payload pairs waiting in the buffer.\<close>

lemma on_incoming_result:
  assumes "og_wf g" and "on_incoming sq p g = (g', r)"
  shows "og_wf g' \<and> og_max_buffer_bytes g' = og_max_buffer_bytes g \<and> og_max_buffer_items g' = og_max_buffer_items g \<and>
    (case r of
       Panic \<Rightarrow> False
     | Err e \<Rightarrow> g' = g
     | Ok ready \<Rightarrow>
         consecutive (og_next_expected g) (map fst ready) \<and>
         og_next_expected g' = og_next_expected g + of_nat (length ready) \<and>
         set ready \<inter> set (og_reorder_buffer g') = {} \<and>
         set ready \<union> set (og_reorder_buffer g') =
           (if seq_is_stale sq (og_next_expected g) \<or> map_of (og_reorder_buffer g) sq \<noteq> None
            then set (og_reorder_buffer g) else insert (sq, p) (set (og_reorder_buffer g))))"
proof -
  have wf: "om_wf (og_reorder_buffer g)" and ah: "\<forall>k \<in> fst ` set (og_reorder_buffer g). ahead (og_next_expected g) k"
    using assms(1) by (auto simp: og_wf_def)
  consider (stale) "seq_is_stale sq (og_next_expected g)"
    | (now) "\<not> seq_is_stale sq (og_next_expected g)" "sq = og_next_expected g"
    | (later) "ahead (og_next_expected g) sq" "\<not> seq_is_stale sq (og_next_expected g)" "sq \<noteq> og_next_expected g"
    using not_stale_iff by blast
  then show ?thesis
  proof cases
    case stale
    then show ?thesis using assms by (auto simp: on_incoming_def)
  next
    case now
    obtain nxt buf cur dr where d:
      "drain_ready (og_next_expected g + 1) (og_reorder_buffer g) (og_current_buffer_bytes g) = (nxt, buf, cur, dr)"
      by (metis prod_cases4)
    have ok: "buffer_ok (og_next_expected g + 1) (og_reorder_buffer g) (og_current_buffer_bytes g)"
      using assms(1) ahead_Suc by (fastforce simp: buffer_ok_def og_wf_def)
    note D = drain_ready_result [OF ok d]
    have res: "g' = g\<lparr> og_next_expected := nxt, og_reorder_buffer := buf, og_current_buffer_bytes := cur \<rparr>"
      "r = Ok ((sq, p) # dr)"
      using assms(2) now d by (auto simp: on_incoming_def)
    have nokey: "sq \<notin> fst ` set (og_reorder_buffer g)" using ah now by auto
    then have new: "map_of (og_reorder_buffer g) sq = None" "(sq, p) \<notin> set (og_reorder_buffer g)"
      by (force simp: map_of_eq_None_iff)+
    have "consecutive (og_next_expected g) (map fst ((sq, p) # dr))"
      using D now consecutive_append [of sq "[sq]" "map fst dr"] by (simp add: consecutive_def)
    moreover have "\<forall>k \<in> fst ` set buf. ahead nxt k"
      using D by (force simp: buffer_ok_def map_of_eq_None_iff)
    ultimately show ?thesis
      using D new now assms(1) res by (auto simp: og_wf_def buffer_ok_def add.assoc)
  next
    case later
    have ah': "ahead (og_next_expected g) k" if "(k, b) \<in> set (og_reorder_buffer g)" for k b
      using ah that by force
    show ?thesis
    proof (cases "map_of (og_reorder_buffer g) sq")
      case None
      then have "set (om_insert sq p (og_reorder_buffer g)) = insert (sq, p) (set (og_reorder_buffer g))"
        using wf by (auto simp: om_wf_lookup [symmetric] split: if_splits)
      then show ?thesis
        using assms later None wf
        by (auto simp: on_incoming_def og_wf_def om_total_insert om_insert_new_length fst_set_om_insert
            split: if_splits dest: ah')
    next
      case (Some b)
      then show ?thesis
        using assms later by (auto simp: on_incoming_def split: if_splits)
    qed
  qed
qed

section \<open>Histories\<close>

fun og_run :: "(u32 \<times> bytes) list \<Rightarrow> ordered_group_receiver \<Rightarrow> ordered_group_receiver \<times> (u32 \<times> bytes) list" where
  "og_run [] g = (g, [])"
| "og_run ((sq, p) # arrivals) g =
     (case on_incoming sq p g of
        (g1, Ok ready) \<Rightarrow> let (g2, rest) = og_run arrivals g1 in (g2, ready @ rest)
      | (g1, _) \<Rightarrow> og_run arrivals g1)"

lemma og_run_result:
  assumes "og_wf g" and "og_run arrivals g = (g', delivered)"
  shows "og_wf g' \<and> consecutive (og_next_expected g) (map fst delivered) \<and>
    og_next_expected g' = og_next_expected g + of_nat (length delivered) \<and>
    set delivered \<union> set (og_reorder_buffer g') \<subseteq> set arrivals \<union> set (og_reorder_buffer g)"
  using assms
proof (induction arrivals arbitrary: g delivered)
  case (Cons a arrivals)
  obtain sq p where a: "a = (sq, p)" by (cases a)
  obtain g1 r where one: "on_incoming sq p g = (g1, r)" by fastforce
  note R = on_incoming_result [OF Cons.prems(1) one]
  show ?case
  proof (cases r)
    case (Ok ready)
    obtain g2 rest where run: "og_run arrivals g1 = (g2, rest)" by fastforce
    have eqs: "g' = g2" "delivered = ready @ rest" using Cons.prems(2) a one Ok run by auto
    have "og_wf g1" using R by simp
    note IH = Cons.IH [OF this run [folded eqs(1)]]
    have sub: "set ready \<union> set (og_reorder_buffer g1) \<subseteq> insert (sq, p) (set (og_reorder_buffer g))"
      using R Ok by (auto split: if_splits)
    have "set delivered \<union> set (og_reorder_buffer g') \<subseteq> set (a # arrivals) \<union> set (og_reorder_buffer g)"
      using IH sub unfolding eqs a by auto
    moreover have "consecutive (og_next_expected g) (map fst ready)"
      "og_next_expected g1 = og_next_expected g + of_nat (length ready)"
      using R Ok by simp_all
    ultimately show ?thesis
      using IH by (simp add: eqs consecutive_append add.assoc)
  next
    case (Err e)
    then show ?thesis using R Cons a one by auto
  next
    case Panic
    then show ?thesis using R by simp
  qed
qed simp

section \<open>Properties\<close>

text \<open>
  C26: an ordered group delivers in order, exactly once, without loss or invention. For any history
  of arrivals (any order, duplicates, any payloads), the sequence numbers delivered are the
  consecutive numbers from the cursor on, wrapping at \<open>2 ^ 32\<close>; the cursor advances by exactly the
  number delivered; everything delivered or still buffered arrived; and the buffer keeps within its
  byte and item limits.
\<close>

theorem ordered_group_in_order_once:
  assumes "og_wf g" and "og_run arrivals g = (g', delivered)"
  shows "map fst delivered = map (\<lambda>i. og_next_expected g + of_nat i) [0..<length delivered] \<and>
    og_next_expected g' = og_next_expected g + of_nat (length delivered) \<and>
    set delivered \<subseteq> set arrivals \<union> set (og_reorder_buffer g) \<and>
    og_current_buffer_bytes g' \<le> og_max_buffer_bytes g' \<and>
    length (og_reorder_buffer g') \<le> og_max_buffer_items g' \<and>
    og_current_buffer_bytes g' = om_total length (og_reorder_buffer g')"
  using og_run_result [OF assms] by (simp add: consecutive_def og_wf_def)

theorem ordered_group_in_order_once_witness:
  "\<exists>g' delivered. og_run [(1, [7]), (0, [5]), (1, [7])] (OrderedGroupReceiver_new 3) = (g', delivered) \<and>
     map fst delivered = map (\<lambda>i. 0 + of_nat i) [0..<length delivered]"
proof -
  obtain g' delivered where r: "og_run [(1, [7]), (0, [5]), (1, [7])] (OrderedGroupReceiver_new 3) = (g', delivered)"
    by fastforce
  show ?thesis
    using ordered_group_in_order_once [OF og_wf_new r] r by (simp add: OrderedGroupReceiver_new_def)
qed

text \<open>
  An arrival the group accepts is never dropped. If a non-stale arrival is answered without an
  error, then its sequence number was already buffered or its payload is now delivered or buffered,
  and whatever was buffered before is delivered or still buffered; an arrival that overflows the
  limits is refused with an error and leaves the group unchanged.
\<close>

theorem ordered_group_keeps_accepted:
  assumes "og_wf g" and "on_incoming sq p g = (g', r)"
  shows "r \<noteq> Panic \<and> (\<forall>e. r = Err e \<longrightarrow> g' = g) \<and>
    (\<forall>ready. r = Ok ready \<longrightarrow>
       set (og_reorder_buffer g) \<subseteq> set ready \<union> set (og_reorder_buffer g') \<and>
       (\<not> seq_is_stale sq (og_next_expected g) \<and> map_of (og_reorder_buffer g) sq = None \<longrightarrow>
          (sq, p) \<in> set ready \<union> set (og_reorder_buffer g')))"
  using on_incoming_result [OF assms] by (cases r) (auto split: if_splits)

theorem ordered_group_keeps_accepted_witness:
  "\<exists>g' r. on_incoming 1 [7] (OrderedGroupReceiver_new 3) = (g', r) \<and> r \<noteq> Panic"
proof -
  obtain g' r where o: "on_incoming 1 [7] (OrderedGroupReceiver_new 3) = (g', r)" by fastforce
  show ?thesis using ordered_group_keeps_accepted [OF og_wf_new o] o by blast
qed

end
