(* ===== verification/Owd.thy ===== *)
theory Owd
  imports GTP_Types
begin

text \<open>
  The one-way-delay estimator (\<^verbatim>\<open>gtp-recovery/src/owd.rs\<close>). The wire timestamps are 32-bit
  microsecond counters that wrap, so differences are taken on words and read back as signed
  integers; the jitter filter computes in \<^verbatim>\<open>i64\<close> and is modelled on integers with the truncating
  division written out.

  The main result is what the estimator is for: with two clocks of unknown constant offset it
  reports exactly the delay above the smallest delay seen, across the wrap of the counters.
\<close>

section \<open>State\<close>

definition FLOOR_REANCHOR_WINDOW :: duration where
  "FLOOR_REANCHOR_WINDOW = 30000000"

record owd_sample =
  os_owd_var_us :: u32
  os_jitter_us :: u32
  os_epoch :: u8

record owd_estimator =
  oe_base_d :: u32
  oe_prev_owd_var :: u32
  oe_jitter :: u32
  oe_floor_time :: monotonic_time
  oe_has_sample :: bool

definition OwdEstimator_default :: owd_estimator where
  "OwdEstimator_default =
     \<lparr> oe_base_d = 0, oe_prev_owd_var = 0, oe_jitter = 0, oe_floor_time = MonotonicTime_ZERO, oe_has_sample = False \<rparr>"

section \<open>Operations\<close>

definition OwdEstimator_sample :: "owd_estimator \<Rightarrow> owd_sample" where
  "OwdEstimator_sample e = \<lparr> os_owd_var_us = oe_prev_owd_var e, os_jitter_us = oe_jitter e, os_epoch = 0 \<rparr>"

text \<open>Division of an \<^verbatim>\<open>i64\<close> by 16 truncates towards zero.\<close>

definition div16 :: "int \<Rightarrow> int" where
  "div16 x = (if x \<ge> 0 then x div 16 else - ((- x) div 16))"

definition jitter_step :: "u32 \<Rightarrow> u32 \<Rightarrow> u32 \<Rightarrow> u32" where
  "jitter_step owd_var prev jit =
     (let diff = \<bar>uint owd_var - uint prev\<bar>;
          adjustment = div16 (diff - uint jit)
      in word_of_int (max 0 (uint jit + adjustment)))"

definition OwdEstimator_on_packet :: "u32 \<Rightarrow> monotonic_time \<Rightarrow> owd_estimator \<Rightarrow> owd_estimator \<times> owd_sample" where
  "OwdEstimator_on_packet ts_peer now e =
     (let ts_local = (of_nat now :: u32);
          d = ts_local - ts_peer
      in if \<not> oe_has_sample e then
           let e' = e\<lparr> oe_has_sample := True, oe_base_d := d, oe_floor_time := now, oe_prev_owd_var := 0 \<rparr>
           in (e', OwdEstimator_sample e')
         else
           let e1 = (if time_sub now (oe_floor_time e) > FLOOR_REANCHOR_WINDOW
                     then e\<lparr> oe_base_d := d, oe_floor_time := now \<rparr> else e);
               delta = sint (d - oe_base_d e1);
               e2 = (if delta < 0 then e1\<lparr> oe_base_d := d, oe_floor_time := now \<rparr> else e1);
               owd_var = (word_of_int (max 0 delta) :: u32);
               e3 = e2\<lparr> oe_jitter := jitter_step owd_var (oe_prev_owd_var e2) (oe_jitter e2),
                        oe_prev_owd_var := owd_var \<rparr>
           in (e3, OwdEstimator_sample e3))"

definition is_ready :: "owd_estimator \<Rightarrow> bool" where
  "is_ready e \<longleftrightarrow> oe_has_sample e"

definition owd_var :: "owd_estimator \<Rightarrow> duration option" where
  "owd_var e = (if oe_has_sample e then Some (unat (oe_prev_owd_var e)) else None)"

definition jitter :: "owd_estimator \<Rightarrow> duration option" where
  "jitter e = (if oe_has_sample e then Some (unat (oe_jitter e)) else None)"

definition OwdEstimator_reset_for_new_path :: "owd_estimator \<Rightarrow> owd_estimator" where
  "OwdEstimator_reset_for_new_path e = OwdEstimator_default"

section \<open>The jitter filter\<close>

lemma uint_u32_bound: "0 \<le> uint (w :: u32)" "uint (w :: u32) < 4294967296"
  using uint_bounded [of w] by simp_all

lemma div16_between: "0 \<le> j \<Longrightarrow> 0 \<le> x \<Longrightarrow> min j x \<le> j + div16 (x - j) \<and> j + div16 (x - j) \<le> max j x"
proof -
  assume nn: "0 \<le> j" "0 \<le> x"
  have quarter: "0 \<le> y div 16 \<and> y div 16 \<le> y" if "0 \<le> y" for y :: int
    using that by presburger
  show ?thesis
  proof (cases "j \<le> x")
    case True
    then show ?thesis using quarter [of "x - j"] by (simp add: div16_def min_def max_def)
  next
    case False
    then show ?thesis using quarter [of "j - x"] by (simp add: div16_def min_def max_def)
  qed
qed

lemma jitter_step_le:
  assumes "unat ov \<le> b" and "unat prev \<le> b" and "unat j \<le> b"
  shows "unat (jitter_step ov prev j) \<le> b"
proof -
  define x where "x = \<bar>uint ov - uint prev\<bar>"
  have b: "uint ov \<le> int b" "uint prev \<le> int b" "uint j \<le> int b"
    using assms by (simp_all only: uint_nat of_nat_le_iff)
  have x: "0 \<le> x" "x \<le> int b" "x < 4294967296"
    unfolding x_def using b uint_u32_bound [of ov] uint_u32_bound [of prev] by linarith+
  define y where "y = uint j + div16 (x - uint j)"
  have y: "0 \<le> y" "y \<le> max (uint j) x"
    unfolding y_def using div16_between [of "uint j" x] uint_u32_bound [of j] x(1) by linarith+
  then have "y < 4294967296" using x(3) uint_u32_bound [of j] by (auto simp: max_def split: if_splits)
  then have "uint (jitter_step ov prev j) = y"
    using y(1) by (simp add: jitter_step_def Let_def uint_word_of_int x_def [symmetric] y_def [symmetric])
  then have "uint (jitter_step ov prev j) \<le> int b"
    using y(2) b(3) x(2) by (auto simp: max_def split: if_splits)
  then show ?thesis by (simp only: uint_nat of_nat_le_iff)
qed

section \<open>What the samples mean\<close>

text \<open>
  Packets that spent \<open>dl\<close> microseconds on the wire and arrive at local time \<open>t\<close>, sent by a peer whose
  clock is \<open>off\<close> ahead of ours.
\<close>

definition owd_feed :: "u32 \<Rightarrow> nat \<times> nat \<Rightarrow> owd_estimator \<Rightarrow> owd_estimator" where
  "owd_feed off p e = fst (OwdEstimator_on_packet (of_nat (fst p) - of_nat (snd p) + off) (fst p) e)"

lemma sint_diff:
  assumes "a < 2 ^ 31" and "b < 2 ^ 31"
  shows "sint (of_nat a - of_nat b :: u32) = int a - int b"
proof -
  have "(of_nat a - of_nat b :: u32) = word_of_int (int a - int b)" by simp
  moreover have "signed_take_bit 31 (int a - int b) = int a - int b"
    using assms by (simp add: signed_take_bit_int_eq_self_iff)
  ultimately show ?thesis by (simp add: sint_sbintrunc' del: of_int_diff)
qed

text \<open>The state after packets with delays \<open>dls\<close>: the floor is the smallest delay, and no jitter exceeds the spread.\<close>

definition owd_tracks :: "u32 \<Rightarrow> nat \<Rightarrow> nat list \<Rightarrow> nat \<Rightarrow> owd_estimator \<Rightarrow> bool" where
  "owd_tracks off t0 dls b e \<longleftrightarrow> oe_has_sample e \<and> oe_base_d e = of_nat (Min (set dls)) - off \<and>
     t0 \<le> oe_floor_time e \<and> oe_prev_owd_var e = of_nat (last dls - Min (set dls)) \<and>
     unat (oe_prev_owd_var e) \<le> b \<and> unat (oe_jitter e) \<le> b"

lemma owd_tracks_first:
  assumes "t0 \<le> t"
  shows "owd_tracks off t0 [dl] b (owd_feed off (t, dl) OwdEstimator_default)"
  using assms by (simp add: owd_tracks_def owd_feed_def OwdEstimator_on_packet_def OwdEstimator_default_def Let_def)

lemma owd_tracks_next:
  assumes tr: "owd_tracks off t0 dls b e" and ne: "dls \<noteq> []" and t: "t \<le> t0 + FLOOR_REANCHOR_WINDOW" "t0 \<le> t"
    and lo: "\<forall>x \<in> set (dls @ [dl]). lo \<le> x \<and> x \<le> lo + b \<and> x < 2 ^ 31"
  shows "owd_tracks off t0 (dls @ [dl]) b (owd_feed off (t, dl) e)"
proof -
  define m where "m = Min (set dls)"
  have m: "m \<in> set dls" using ne by (simp add: m_def)
  have mn: "Min (set (dls @ [dl])) = min m dl" using ne by (simp add: m_def min.commute)
  have lim: "m < 2 ^ 31" "dl < 2 ^ 31" "dl - m \<le> b" "lo \<le> m" using lo m by (auto simp: le_diff_conv)
  have d: "(of_nat t :: u32) - (of_nat t - of_nat dl + off) = of_nat dl - off" by simp
  have delta: "sint ((of_nat dl :: u32) - of_nat m) = int dl - int m" using sint_diff lim by simp
  have base: "oe_base_d e = of_nat m - off" using tr by (simp add: owd_tracks_def m_def)
  have win: "\<not> time_sub t (oe_floor_time e) > FLOOR_REANCHOR_WINDOW"
    using t tr by (auto simp: owd_tracks_def time_sub_def sat_sub_def not_less)
  have var: "(word_of_int (max 0 (int dl - int m)) :: u32) = of_nat (dl - m)"
  proof -
    have "max 0 (int dl - int m) = int (dl - m)" by simp
    then show ?thesis by (simp only: of_int_of_nat_eq)
  qed
  have small: "unat (of_nat (dl - m) :: u32) = dl - m" using lim by (simp add: unat_of_nat)
  have j: "unat (jitter_step (of_nat (dl - m)) (oe_prev_owd_var e) (oe_jitter e)) \<le> b"
    using tr small lim unfolding owd_tracks_def by (intro jitter_step_le) (blast | linarith)+
  have hs: "oe_has_sample e" using tr by (simp add: owd_tracks_def)
  define e2 where "e2 = (if dl < m then e\<lparr> oe_base_d := of_nat dl - off, oe_floor_time := t \<rparr> else e)"
  define w where "w = (of_nat (dl - m) :: u32)"
  have feed: "owd_feed off (t, dl) e = e2\<lparr> oe_jitter := jitter_step w (oe_prev_owd_var e) (oe_jitter e), oe_prev_owd_var := w \<rparr>"
    using hs win by (simp add: owd_feed_def OwdEstimator_on_packet_def Let_def d base delta var [folded w_def] e2_def)
  have has: "oe_has_sample e2" "t0 \<le> oe_floor_time e2" "oe_base_d e2 = of_nat (min m dl) - off"
    using tr t(2) base by (auto simp: e2_def owd_tracks_def min_def)
  have "w = of_nat (last (dls @ [dl]) - Min (set (dls @ [dl])))"
    unfolding mn by (auto simp: w_def min_def)
  then show ?thesis
    unfolding owd_tracks_def feed mn
    using has lim(3) j small unfolding w_def [symmetric] by simp
qed

lemma owd_tracks_run:
  assumes "feeds \<noteq> []"
    and "\<forall>(t, dl) \<in> set feeds. t0 \<le> t \<and> t \<le> t0 + FLOOR_REANCHOR_WINDOW \<and> lo \<le> dl \<and> dl \<le> lo + b \<and> dl < 2 ^ 31"
  shows "owd_tracks off t0 (map snd feeds) b (fold (owd_feed off) feeds OwdEstimator_default)"
  using assms
proof (induction feeds rule: rev_induct)
  case (snoc p feeds)
  obtain t dl where p: "p = (t, dl)" by fastforce
  show ?case
  proof (cases "feeds = []")
    case True
    then show ?thesis using snoc.prems p owd_tracks_first by simp
  next
    case False
    then have "owd_tracks off t0 (map snd feeds) b (fold (owd_feed off) feeds OwdEstimator_default)"
      using snoc by simp
    then have "owd_tracks off t0 (map snd feeds @ [dl]) b
        (owd_feed off (t, dl) (fold (owd_feed off) feeds OwdEstimator_default))"
      using False snoc.prems p by (intro owd_tracks_next [where lo = lo]) fastforce+
    then show ?thesis by (simp add: p)
  qed
qed simp

section \<open>Properties\<close>

text \<open>
  C39: the one-way-delay estimate is exact and independent of the clocks. For any constant offset
  between the two clocks (any 32-bit value, so also across the 71-minute wrap of the microsecond
  counters), after packets received within one 30-second floor window the reported variance is the
  last packet's delay above the smallest delay seen, and the jitter never exceeds the spread of the
  delays.
\<close>

theorem owd_variance_exact:
  assumes "feeds \<noteq> []" and "Min (set (map snd feeds)) + b < 2 ^ 31"
    and "\<forall>(t, dl) \<in> set feeds. t0 \<le> t \<and> t \<le> t0 + 30000000 \<and> dl \<le> Min (set (map snd feeds)) + b"
  shows "owd_var (fold (owd_feed off) feeds OwdEstimator_default) =
      Some (last (map snd feeds) - Min (set (map snd feeds))) \<and>
    (\<exists>j. jitter (fold (owd_feed off) feeds OwdEstimator_default) = Some j \<and> j \<le> b)"
proof -
  define lo where "lo = Min (set (map snd feeds))"
  have "\<forall>(t, dl) \<in> set feeds. t0 \<le> t \<and> t \<le> t0 + FLOOR_REANCHOR_WINDOW \<and> lo \<le> dl \<and> dl \<le> lo + b \<and> dl < 2 ^ 31"
    using assms by (force simp: lo_def FLOOR_REANCHOR_WINDOW_def intro: Min_le)
  from owd_tracks_run [OF assms(1) this, of off]
  have tr: "owd_tracks off t0 (map snd feeds) b (fold (owd_feed off) feeds OwdEstimator_default)" .
  have "last (map snd feeds) \<in> set (map snd feeds)" using assms(1) by (intro last_in_set) simp
  then have "last (map snd feeds) - lo < 2 ^ 32" using assms(2,3) by (fastforce simp: lo_def)
  then have "unat (of_nat (last (map snd feeds) - lo) :: u32) = last (map snd feeds) - lo"
    by (simp add: unat_of_nat)
  then show ?thesis using tr by (simp add: owd_tracks_def owd_var_def jitter_def lo_def)
qed

theorem owd_variance_exact_witness:
  "owd_var (fold (owd_feed 0xFFFFFFF0) [(5000000, 20000), (5016000, 21500), (5032000, 20300)] OwdEstimator_default) = Some 300"
  using owd_variance_exact [of "[(5000000, 20000), (5016000, 21500), (5032000, 20300)]" 1500 5000000 "0xFFFFFFF0"]
  by simp

end
