(* ===== verification/Wire_Frame.thy ===== *)
theory Wire_Frame
  imports Codec_Contract Utf8
begin

unbundle bit_operations_syntax

text \<open>
  \<^verbatim>\<open>gtp-wire/src/frame.rs\<close>: the sixteen typed frames, their encoder into a caller buffer and
  their decoder. Fixed arrays are byte lists whose length is part of \<open>frame_wf\<close>, the invariant the
  Rust types enforce; a \<^verbatim>\<open>&str\<close> is a byte list that is valid UTF-8. The encoder returns the
  buffer together with its result, because it writes the type byte before it checks the capacity.
  Each match arm of \<^verbatim>\<open>encode\<close> and \<^verbatim>\<open>decode\<close> is a definition of its own; the two dispatchers
  put them together.
\<close>

section \<open>Frame types\<close>

definition MAX_ACK_RANGES :: nat where
  "MAX_ACK_RANGES = 32"

definition FRAME_TYPE_PADDING :: u8 where "FRAME_TYPE_PADDING = 0x00"
definition FRAME_TYPE_ACK :: u8 where "FRAME_TYPE_ACK = 0x01"
definition FRAME_TYPE_DATA :: u8 where "FRAME_TYPE_DATA = 0x02"
definition FRAME_TYPE_RELIABLE_DATA :: u8 where "FRAME_TYPE_RELIABLE_DATA = 0x03"
definition FRAME_TYPE_RETX :: u8 where "FRAME_TYPE_RETX = 0x04"
definition FRAME_TYPE_PING :: u8 where "FRAME_TYPE_PING = 0x05"
definition FRAME_TYPE_PATH_CHALLENGE :: u8 where "FRAME_TYPE_PATH_CHALLENGE = 0x06"
definition FRAME_TYPE_PATH_RESPONSE :: u8 where "FRAME_TYPE_PATH_RESPONSE = 0x07"
definition FRAME_TYPE_MTU_PROBE :: u8 where "FRAME_TYPE_MTU_PROBE = 0x08"
definition FRAME_TYPE_CLOSE :: u8 where "FRAME_TYPE_CLOSE = 0x09"
definition FRAME_TYPE_ACK_FREQUENCY :: u8 where "FRAME_TYPE_ACK_FREQUENCY = 0x0A"
definition FRAME_TYPE_HANDSHAKE_INIT :: u8 where "FRAME_TYPE_HANDSHAKE_INIT = 0x0B"
definition FRAME_TYPE_CLIENT_HELLO :: u8 where "FRAME_TYPE_CLIENT_HELLO = 0x0B"
definition FRAME_TYPE_HANDSHAKE_RESPONSE :: u8 where "FRAME_TYPE_HANDSHAKE_RESPONSE = 0x0C"
definition FRAME_TYPE_SERVER_HELLO :: u8 where "FRAME_TYPE_SERVER_HELLO = 0x0C"
definition FRAME_TYPE_HANDSHAKE_FINISH :: u8 where "FRAME_TYPE_HANDSHAKE_FINISH = 0x0D"
definition FRAME_TYPE_SERVER_FINISH :: u8 where "FRAME_TYPE_SERVER_FINISH = 0x0E"
definition FRAME_TYPE_KEY_UPDATE :: u8 where "FRAME_TYPE_KEY_UPDATE = 0x10"

definition PROTOCOL_VERSION :: u32 where
  "PROTOCOL_VERSION = 0x00000003"

lemmas frame_type_defs =
  FRAME_TYPE_PADDING_def FRAME_TYPE_ACK_def FRAME_TYPE_DATA_def FRAME_TYPE_RELIABLE_DATA_def
  FRAME_TYPE_RETX_def FRAME_TYPE_PING_def FRAME_TYPE_PATH_CHALLENGE_def FRAME_TYPE_PATH_RESPONSE_def
  FRAME_TYPE_MTU_PROBE_def FRAME_TYPE_CLOSE_def FRAME_TYPE_ACK_FREQUENCY_def
  FRAME_TYPE_HANDSHAKE_INIT_def FRAME_TYPE_CLIENT_HELLO_def FRAME_TYPE_HANDSHAKE_RESPONSE_def
  FRAME_TYPE_SERVER_HELLO_def FRAME_TYPE_HANDSHAKE_FINISH_def FRAME_TYPE_SERVER_FINISH_def
  FRAME_TYPE_KEY_UPDATE_def

record ack_range =
  ar_gap :: u32
  ar_length :: u32

definition AckRange_default :: ack_range where
  "AckRange_default = \<lparr>ar_gap = 0, ar_length = 0\<rparr>"

datatype frame =
    Ack (largest_acked: packet_number) (ack_delay_us: u32) (ranges: "ack_range list") (range_count: u8)
      (ect0_count: u32) (ect1_count: u32) (ce_count: u32)
  | Data (data_message_id: message_id) (data_state_key: state_key) (data_sequence: state_sequence)
      (data_generation: generation_id) (deadline_ms: u16) (data_payload: bytes)
  | ReliableData (rel_message_id: message_id) (rel_fragment_id: fragment_id) (total_fragments: u16)
      (rel_group_id: ordered_group_id) (rel_order_seq: u32) (rel_payload: bytes)
  | Retx (retx_message_id: message_id) (retx_fragment_id: fragment_id)
      (retx_transmission_id: transmission_id) (retx_payload: bytes)
  | Ping (ping_nonce: u64)
  | PathChallenge (challenge_data: bytes)
  | PathResponse (response_data: bytes)
  | MtuProbe (probe_id: u32) (padding_len: nat)
  | Close (error_code: u16) (reason: bytes)
  | AckFrequency (ack_frequency_packets: u8) (max_ack_delay_ms: u16) (reorder_threshold: u8)
  | ClientHello (client_public_key: bytes) (client_nonce: bytes) (hello_version: u32)
  | ServerHello (server_public_key: bytes) (server_nonce: bytes) (stateless_cookie: bytes)
      (assigned_cid: connection_id) (server_static_pk: bytes)
  | HandshakeFinish (cookie_echo: bytes) (client_proof: bytes)
  | ServerFinish (server_proof: bytes)
  | KeyUpdate (next_phase: u64) (initiator_proof: bytes)
  | Padding (pad_len: nat)

fun frame_type :: "frame \<Rightarrow> u8" where
  "frame_type (Ack _ _ _ _ _ _ _) = FRAME_TYPE_ACK"
| "frame_type (Data _ _ _ _ _ _) = FRAME_TYPE_DATA"
| "frame_type (ReliableData _ _ _ _ _ _) = FRAME_TYPE_RELIABLE_DATA"
| "frame_type (Retx _ _ _ _) = FRAME_TYPE_RETX"
| "frame_type (Ping _) = FRAME_TYPE_PING"
| "frame_type (PathChallenge _) = FRAME_TYPE_PATH_CHALLENGE"
| "frame_type (PathResponse _) = FRAME_TYPE_PATH_RESPONSE"
| "frame_type (MtuProbe _ _) = FRAME_TYPE_MTU_PROBE"
| "frame_type (Close _ _) = FRAME_TYPE_CLOSE"
| "frame_type (AckFrequency _ _ _) = FRAME_TYPE_ACK_FREQUENCY"
| "frame_type (ClientHello _ _ _) = FRAME_TYPE_CLIENT_HELLO"
| "frame_type (ServerHello _ _ _ _ _) = FRAME_TYPE_SERVER_HELLO"
| "frame_type (HandshakeFinish _ _) = FRAME_TYPE_HANDSHAKE_FINISH"
| "frame_type (ServerFinish _) = FRAME_TYPE_SERVER_FINISH"
| "frame_type (KeyUpdate _ _) = FRAME_TYPE_KEY_UPDATE"
| "frame_type (Padding _) = FRAME_TYPE_PADDING"

fun is_ack_eliciting :: "frame \<Rightarrow> bool" where
  "is_ack_eliciting (Ack _ _ _ _ _ _ _) = False"
| "is_ack_eliciting (Padding _) = False"
| "is_ack_eliciting _ = True"

text \<open>What the Rust types guarantee of every frame value: array lengths, UTF-8, \<^verbatim>\<open>usize\<close>.\<close>

fun frame_wf :: "frame \<Rightarrow> bool" where
  "frame_wf (Ack _ _ rs _ _ _ _) = (length rs = MAX_ACK_RANGES)"
| "frame_wf (PathChallenge d) = (length d = 8)"
| "frame_wf (PathResponse d) = (length d = 8)"
| "frame_wf (MtuProbe _ n) = (n < u64_modulus)"
| "frame_wf (Close _ r) = utf8_valid r"
| "frame_wf (ClientHello k n _) = (length k = 32 \<and> length n = 32)"
| "frame_wf (ServerHello k n c _ s) = (length k = 32 \<and> length n = 32 \<and> length c = 32 \<and> length s = 32)"
| "frame_wf (HandshakeFinish c p) = (length c = 32 \<and> length p = 32)"
| "frame_wf (ServerFinish p) = (length p = 32)"
| "frame_wf (KeyUpdate _ p) = (length p = 32)"
| "frame_wf (Padding n) = (n < u64_modulus)"
| "frame_wf _ = True"

section \<open>Encoding\<close>

text \<open>The buffer after a run of writes, or the buffer as it was when the run did not happen.\<close>

definition written :: "bytes \<Rightarrow> (bytes \<times> nat) result \<Rightarrow> bytes \<times> nat result" where
  "written buf m = (case m of Ok (b, n) \<Rightarrow> (b, Ok n) | Err e \<Rightarrow> (buf, Err e) | Panic \<Rightarrow> (buf, Panic))"

definition range_bytes :: "ack_range \<Rightarrow> bytes list" where
  "range_bytes r = [to_be_bytes (ar_gap r), to_be_bytes (ar_length r)]"

definition encode_Ack ::
  "packet_number \<Rightarrow> u32 \<Rightarrow> ack_range list \<Rightarrow> u8 \<Rightarrow> u32 \<Rightarrow> u32 \<Rightarrow> u32 \<Rightarrow> bytes \<Rightarrow> bytes \<times> nat result" where
  "encode_Ack largest delay rs rc e0 e1 ce buf =
     (let count = min (unat rc) MAX_ACK_RANGES;
          needed = 1 + 8 + 4 + 1 + count * 8 + 4 + 4 + 4
      in if length buf < needed then (buf, Err BufferOverflow)
         else written buf (puts ([to_be_bytes largest, to_be_bytes delay, [of_nat count]]
                @ concat (map range_bytes (take count rs))
                @ [to_be_bytes e0, to_be_bytes e1, to_be_bytes ce]) buf 1))"

definition encode_Data ::
  "message_id \<Rightarrow> state_key \<Rightarrow> state_sequence \<Rightarrow> generation_id \<Rightarrow> u16 \<Rightarrow> bytes \<Rightarrow> bytes \<Rightarrow> bytes \<times> nat result" where
  "encode_Data mid key sq gen dl payload buf =
     (let needed = 1 + 8 + 6 + 4 + 4 + 2 + 2 + length payload
      in if length buf < needed \<or> length payload > 65535 then (buf, Err BufferOverflow)
         else let key_bytes = to_be_bytes (StateKey_to_u48 key)
              in written buf (puts [to_be_bytes mid, drop 2 key_bytes, to_be_bytes sq, to_be_bytes gen,
                   to_be_bytes dl, to_be_bytes (of_nat (length payload) :: u16), payload] buf 1))"

definition encode_ReliableData ::
  "message_id \<Rightarrow> fragment_id \<Rightarrow> u16 \<Rightarrow> ordered_group_id \<Rightarrow> u32 \<Rightarrow> bytes \<Rightarrow> bytes \<Rightarrow> bytes \<times> nat result" where
  "encode_ReliableData mid fid tot gid sq payload buf =
     (let needed = 1 + 8 + 2 + 2 + 2 + 4 + 2 + length payload
      in if length buf < needed \<or> length payload > 65535 then (buf, Err BufferOverflow)
         else written buf (puts [to_be_bytes mid, to_be_bytes fid, to_be_bytes tot, to_be_bytes gid,
                to_be_bytes sq, to_be_bytes (of_nat (length payload) :: u16), payload] buf 1))"

definition encode_Retx ::
  "message_id \<Rightarrow> fragment_id \<Rightarrow> transmission_id \<Rightarrow> bytes \<Rightarrow> bytes \<Rightarrow> bytes \<times> nat result" where
  "encode_Retx mid fid tid payload buf =
     (let needed = 1 + 8 + 2 + 1 + 2 + length payload
      in if length buf < needed \<or> length payload > 65535 then (buf, Err BufferOverflow)
         else written buf (puts [to_be_bytes mid, to_be_bytes fid, [tid],
                to_be_bytes (of_nat (length payload) :: u16), payload] buf 1))"

definition encode_Ping :: "u64 \<Rightarrow> bytes \<Rightarrow> bytes \<times> nat result" where
  "encode_Ping nonce buf =
     (if length buf < 1 + 8 then (buf, Err BufferOverflow)
      else written buf (puts [to_be_bytes nonce] buf 1))"

definition encode_PathChallenge :: "bytes \<Rightarrow> bytes \<Rightarrow> bytes \<times> nat result" where
  "encode_PathChallenge d buf =
     (if length buf < 1 + 8 then (buf, Err BufferOverflow) else written buf (puts [d] buf 1))"

definition encode_PathResponse :: "bytes \<Rightarrow> bytes \<Rightarrow> bytes \<times> nat result" where
  "encode_PathResponse d buf =
     (if length buf < 1 + 8 then (buf, Err BufferOverflow) else written buf (puts [d] buf 1))"

definition encode_MtuProbe :: "u32 \<Rightarrow> nat \<Rightarrow> bytes \<Rightarrow> bytes \<times> nat result" where
  "encode_MtuProbe pid pad buf =
     (if length buf < wadd64 (1 + 4) pad then (buf, Err BufferOverflow)
      else written buf (puts [to_be_bytes pid, replicate pad 0] buf 1))"

definition encode_Close :: "u16 \<Rightarrow> bytes \<Rightarrow> bytes \<Rightarrow> bytes \<times> nat result" where
  "encode_Close code rsn buf =
     (let reason_len = (of_nat (utf8_trim rsn (min (length rsn) 255)) :: u8)
      in if length buf < 1 + 2 + 1 + unat reason_len then (buf, Err BufferOverflow)
         else written buf (obind (slice_range rsn 0 (unat reason_len)) (\<lambda>r.
                puts [to_be_bytes code, [reason_len], r] buf 1)))"

definition encode_AckFrequency :: "u8 \<Rightarrow> u16 \<Rightarrow> u8 \<Rightarrow> bytes \<Rightarrow> bytes \<times> nat result" where
  "encode_AckFrequency freq delay thr buf =
     (if length buf < 1 + 1 + 2 + 1 then (buf, Err BufferOverflow)
      else written buf (puts [[freq], to_be_bytes delay, [thr]] buf 1))"

definition encode_ClientHello :: "bytes \<Rightarrow> bytes \<Rightarrow> u32 \<Rightarrow> bytes \<Rightarrow> bytes \<times> nat result" where
  "encode_ClientHello pk nonce ver buf =
     (if length buf < 1 + 32 + 32 + 4 then (buf, Err BufferOverflow)
      else written buf (puts [pk, nonce, to_be_bytes ver] buf 1))"

definition encode_ServerHello ::
  "bytes \<Rightarrow> bytes \<Rightarrow> bytes \<Rightarrow> connection_id \<Rightarrow> bytes \<Rightarrow> bytes \<Rightarrow> bytes \<times> nat result" where
  "encode_ServerHello pk nonce cookie cid spk buf =
     (if length buf < 1 + 32 + 32 + 32 + 8 + 32 then (buf, Err BufferOverflow)
      else written buf (puts [pk, nonce, cookie, to_be_bytes cid, spk] buf 1))"

definition encode_ServerFinish :: "bytes \<Rightarrow> bytes \<Rightarrow> bytes \<times> nat result" where
  "encode_ServerFinish proof_bytes buf =
     (if length buf < 1 + 32 then (buf, Err BufferOverflow)
      else written buf (puts [proof_bytes] buf 1))"

definition encode_KeyUpdate :: "u64 \<Rightarrow> bytes \<Rightarrow> bytes \<Rightarrow> bytes \<times> nat result" where
  "encode_KeyUpdate phase proof_bytes buf =
     (if length buf < 1 + 8 + 32 then (buf, Err BufferOverflow)
      else written buf (puts [to_be_bytes phase, proof_bytes] buf 1))"

definition encode_HandshakeFinish :: "bytes \<Rightarrow> bytes \<Rightarrow> bytes \<Rightarrow> bytes \<times> nat result" where
  "encode_HandshakeFinish cookie proof_bytes buf =
     (if length buf < 1 + 32 + 32 then (buf, Err BufferOverflow)
      else written buf (puts [cookie, proof_bytes] buf 1))"

definition encode_Padding :: "nat \<Rightarrow> bytes \<Rightarrow> bytes \<times> nat result" where
  "encode_Padding n buf =
     (if length buf < wadd64 1 n then (buf, Err BufferOverflow)
      else written buf (puts [replicate n 0] buf 1))"

fun encode_body :: "frame \<Rightarrow> bytes \<Rightarrow> bytes \<times> nat result" where
  "encode_body (Ack la d rs rc e0 e1 ce) buf = encode_Ack la d rs rc e0 e1 ce buf"
| "encode_body (Data m k s g dl p) buf = encode_Data m k s g dl p buf"
| "encode_body (ReliableData m f t g s p) buf = encode_ReliableData m f t g s p buf"
| "encode_body (Retx m f t p) buf = encode_Retx m f t p buf"
| "encode_body (Ping n) buf = encode_Ping n buf"
| "encode_body (PathChallenge d) buf = encode_PathChallenge d buf"
| "encode_body (PathResponse d) buf = encode_PathResponse d buf"
| "encode_body (MtuProbe i n) buf = encode_MtuProbe i n buf"
| "encode_body (Close c r) buf = encode_Close c r buf"
| "encode_body (AckFrequency f d t) buf = encode_AckFrequency f d t buf"
| "encode_body (ClientHello k n v) buf = encode_ClientHello k n v buf"
| "encode_body (ServerHello k n c i s) buf = encode_ServerHello k n c i s buf"
| "encode_body (HandshakeFinish c p) buf = encode_HandshakeFinish c p buf"
| "encode_body (ServerFinish p) buf = encode_ServerFinish p buf"
| "encode_body (KeyUpdate ph p) buf = encode_KeyUpdate ph p buf"
| "encode_body (Padding n) buf = encode_Padding n buf"

definition Frame_encode :: "frame \<Rightarrow> bytes \<Rightarrow> bytes \<times> nat result" where
  "Frame_encode f buf =
     (if buf = [] then (buf, Err BufferOverflow) else encode_body f (buf[0 := frame_type f]))"

section \<open>Decoding\<close>

definition read_u8 :: "bytes \<Rightarrow> nat \<Rightarrow> (u8 \<times> nat) result" where
  "read_u8 buf off =
     (if length buf < off + 1 then Err (TruncatedFrame 1 (sat_sub (length buf) off))
      else obind (slice_index buf off) (\<lambda>b. Ok (b, off + 1)))"

definition read_u16 :: "bytes \<Rightarrow> nat \<Rightarrow> (u16 \<times> nat) result" where
  "read_u16 buf off =
     (if length buf < off + 2 then Err (TruncatedFrame 2 (sat_sub (length buf) off))
      else obind (slice_range buf off (off + 2)) (\<lambda>bs. Ok (from_be_bytes bs, off + 2)))"

definition read_u32 :: "bytes \<Rightarrow> nat \<Rightarrow> (u32 \<times> nat) result" where
  "read_u32 buf off =
     (if length buf < off + 4 then Err (TruncatedFrame 4 (sat_sub (length buf) off))
      else obind (slice_range buf off (off + 4)) (\<lambda>bs. Ok (from_be_bytes bs, off + 4)))"

definition read_u64 :: "bytes \<Rightarrow> nat \<Rightarrow> (u64 \<times> nat) result" where
  "read_u64 buf off =
     (if length buf < off + 8 then Err (TruncatedFrame 8 (sat_sub (length buf) off))
      else obind (slice_range buf off (off + 8)) (\<lambda>bs. Ok (from_be_bytes bs, off + 8)))"

definition read_bytes :: "bytes \<Rightarrow> nat \<Rightarrow> nat \<Rightarrow> (bytes \<times> nat) result" where
  "read_bytes buf off len =
     (if length buf < off + len then Err (TruncatedFrame len (sat_sub (length buf) off))
      else obind (slice_range buf off (off + len)) (\<lambda>bs. Ok (bs, off + len)))"

text \<open>\<^verbatim>\<open>for range in ranges.iter_mut().take(n)\<close>: the first \<open>n\<close> entries are read, the rest keep the default.\<close>

fun read_ranges :: "bytes \<Rightarrow> nat \<Rightarrow> nat \<Rightarrow> (ack_range list \<times> nat) result" where
  "read_ranges buf 0 off = Ok ([], off)"
| "read_ranges buf (Suc n) off =
     obind (read_u32 buf off) (\<lambda>(gap, off).
     obind (read_u32 buf off) (\<lambda>(len, off).
     obind (read_ranges buf n off) (\<lambda>(rs, off).
     Ok (\<lparr>ar_gap = gap, ar_length = len\<rparr> # rs, off))))"

definition decode_Ack :: "bytes \<Rightarrow> nat \<Rightarrow> (frame \<times> nat) result" where
  "decode_Ack buf off =
     obind (read_u64 buf off) (\<lambda>(largest, off).
     obind (read_u32 buf off) (\<lambda>(delay, off).
     obind (read_u8 buf off) (\<lambda>(rc, off).
     if unat rc > MAX_ACK_RANGES then Err (ResourceLimitExceeded ''Too many ACK ranges'')
     else obind (read_ranges buf (unat rc) off) (\<lambda>(rs, off).
     obind (read_u32 buf off) (\<lambda>(e0, off).
     obind (read_u32 buf off) (\<lambda>(e1, off).
     obind (read_u32 buf off) (\<lambda>(ce, off).
     Ok (Ack largest delay (rs @ replicate (MAX_ACK_RANGES - length rs) AckRange_default) rc e0 e1 ce,
         off))))))))"

definition decode_Data :: "bytes \<Rightarrow> nat \<Rightarrow> (frame \<times> nat) result" where
  "decode_Data buf off =
     obind (read_u64 buf off) (\<lambda>(mid, off).
     obind (read_bytes buf off 6) (\<lambda>(key_slice, off).
     let key = StateKey_from_u48 (from_be_bytes ([0, 0] @ key_slice)) in
     obind (read_u32 buf off) (\<lambda>(sq, off).
     obind (read_u32 buf off) (\<lambda>(gen, off).
     obind (read_u16 buf off) (\<lambda>(dl, off).
     obind (read_u16 buf off) (\<lambda>(payload_len, off).
     obind (read_bytes buf off (unat payload_len)) (\<lambda>(payload, off).
     Ok (Data mid key sq gen dl payload, off))))))))"

definition decode_ReliableData :: "bytes \<Rightarrow> nat \<Rightarrow> (frame \<times> nat) result" where
  "decode_ReliableData buf off =
     obind (read_u64 buf off) (\<lambda>(mid, off).
     obind (read_u16 buf off) (\<lambda>(fid, off).
     obind (read_u16 buf off) (\<lambda>(tot, off).
     obind (read_u16 buf off) (\<lambda>(gid, off).
     obind (read_u32 buf off) (\<lambda>(sq, off).
     obind (read_u16 buf off) (\<lambda>(payload_len, off).
     obind (read_bytes buf off (unat payload_len)) (\<lambda>(payload, off).
     Ok (ReliableData mid fid tot gid sq payload, off))))))))"

definition decode_Retx :: "bytes \<Rightarrow> nat \<Rightarrow> (frame \<times> nat) result" where
  "decode_Retx buf off =
     obind (read_u64 buf off) (\<lambda>(mid, off).
     obind (read_u16 buf off) (\<lambda>(fid, off).
     obind (read_u8 buf off) (\<lambda>(tid, off).
     obind (read_u16 buf off) (\<lambda>(payload_len, off).
     obind (read_bytes buf off (unat payload_len)) (\<lambda>(payload, off).
     Ok (Retx mid fid tid payload, off))))))"

definition decode_Ping :: "bytes \<Rightarrow> nat \<Rightarrow> (frame \<times> nat) result" where
  "decode_Ping buf off = obind (read_u64 buf off) (\<lambda>(nonce, off). Ok (Ping nonce, off))"

definition decode_PathChallenge :: "bytes \<Rightarrow> nat \<Rightarrow> (frame \<times> nat) result" where
  "decode_PathChallenge buf off = obind (read_bytes buf off 8) (\<lambda>(d, off). Ok (PathChallenge d, off))"

definition decode_PathResponse :: "bytes \<Rightarrow> nat \<Rightarrow> (frame \<times> nat) result" where
  "decode_PathResponse buf off = obind (read_bytes buf off 8) (\<lambda>(d, off). Ok (PathResponse d, off))"

definition decode_MtuProbe :: "bytes \<Rightarrow> nat \<Rightarrow> (frame \<times> nat) result" where
  "decode_MtuProbe buf off =
     obind (read_u32 buf off) (\<lambda>(pid, off). Ok (MtuProbe pid (sat_sub (length buf) off), length buf))"

definition decode_Close :: "bytes \<Rightarrow> nat \<Rightarrow> (frame \<times> nat) result" where
  "decode_Close buf off =
     obind (read_u16 buf off) (\<lambda>(code, off).
     obind (read_u8 buf off) (\<lambda>(reason_len, off).
     obind (read_bytes buf off (unat reason_len)) (\<lambda>(reason_bytes, off).
     if utf8_valid reason_bytes then Ok (Close code reason_bytes, off)
     else Err (MalformedFrame ''Malformed UTF-8 close reason''))))"

definition decode_AckFrequency :: "bytes \<Rightarrow> nat \<Rightarrow> (frame \<times> nat) result" where
  "decode_AckFrequency buf off =
     obind (read_u8 buf off) (\<lambda>(freq, off).
     obind (read_u16 buf off) (\<lambda>(delay, off).
     obind (read_u8 buf off) (\<lambda>(thr, off).
     Ok (AckFrequency freq delay thr, off))))"

definition decode_ClientHello :: "bytes \<Rightarrow> nat \<Rightarrow> (frame \<times> nat) result" where
  "decode_ClientHello buf off =
     obind (read_bytes buf off 32) (\<lambda>(pk, off).
     obind (read_bytes buf off 32) (\<lambda>(nonce, off).
     obind (read_u32 buf off) (\<lambda>(ver, off).
     Ok (ClientHello pk nonce ver, off))))"

definition decode_ServerHello :: "bytes \<Rightarrow> nat \<Rightarrow> (frame \<times> nat) result" where
  "decode_ServerHello buf off =
     obind (read_bytes buf off 32) (\<lambda>(pk, off).
     obind (read_bytes buf off 32) (\<lambda>(nonce, off).
     obind (read_bytes buf off 32) (\<lambda>(cookie, off).
     obind (read_u64 buf off) (\<lambda>(cid, off).
     obind (read_bytes buf off 32) (\<lambda>(spk, off).
     Ok (ServerHello pk nonce cookie cid spk, off))))))"

definition decode_HandshakeFinish :: "bytes \<Rightarrow> nat \<Rightarrow> (frame \<times> nat) result" where
  "decode_HandshakeFinish buf off =
     obind (read_bytes buf off 32) (\<lambda>(cookie, off).
     obind (read_bytes buf off 32) (\<lambda>(prf, off).
     Ok (HandshakeFinish cookie prf, off)))"

definition decode_ServerFinish :: "bytes \<Rightarrow> nat \<Rightarrow> (frame \<times> nat) result" where
  "decode_ServerFinish buf off = obind (read_bytes buf off 32) (\<lambda>(prf, off). Ok (ServerFinish prf, off))"

definition decode_KeyUpdate :: "bytes \<Rightarrow> nat \<Rightarrow> (frame \<times> nat) result" where
  "decode_KeyUpdate buf off =
     obind (read_u64 buf off) (\<lambda>(phase, off).
     obind (read_bytes buf off 32) (\<lambda>(prf, off).
     Ok (KeyUpdate phase prf, off)))"

definition decode_Padding :: "bytes \<Rightarrow> nat \<Rightarrow> (frame \<times> nat) result" where
  "decode_Padding buf off = Ok (Padding (sat_sub (length buf) off), length buf)"

definition Frame_decode :: "bytes \<Rightarrow> (frame \<times> nat) result" where
  "Frame_decode buf =
     obind (read_u8 buf 0) (\<lambda>(ty, off).
       if ty = FRAME_TYPE_ACK then decode_Ack buf off
       else if ty = FRAME_TYPE_DATA then decode_Data buf off
       else if ty = FRAME_TYPE_RELIABLE_DATA then decode_ReliableData buf off
       else if ty = FRAME_TYPE_RETX then decode_Retx buf off
       else if ty = FRAME_TYPE_PING then decode_Ping buf off
       else if ty = FRAME_TYPE_PATH_CHALLENGE then decode_PathChallenge buf off
       else if ty = FRAME_TYPE_PATH_RESPONSE then decode_PathResponse buf off
       else if ty = FRAME_TYPE_MTU_PROBE then decode_MtuProbe buf off
       else if ty = FRAME_TYPE_CLOSE then decode_Close buf off
       else if ty = FRAME_TYPE_ACK_FREQUENCY then decode_AckFrequency buf off
       else if ty = FRAME_TYPE_HANDSHAKE_INIT then decode_ClientHello buf off
       else if ty = FRAME_TYPE_HANDSHAKE_RESPONSE then decode_ServerHello buf off
       else if ty = FRAME_TYPE_HANDSHAKE_FINISH then decode_HandshakeFinish buf off
       else if ty = FRAME_TYPE_SERVER_FINISH then decode_ServerFinish buf off
       else if ty = FRAME_TYPE_KEY_UPDATE then decode_KeyUpdate buf off
       else if ty = FRAME_TYPE_PADDING then decode_Padding buf off
       else Err (MalformedFrame ''Unknown TLV frame type''))"

lemmas read_defs = read_u8_def read_u16_def read_u32_def read_u64_def read_bytes_def

lemmas decode_defs = decode_Ack_def decode_Data_def decode_ReliableData_def decode_Retx_def
  decode_Ping_def decode_PathChallenge_def decode_PathResponse_def decode_MtuProbe_def
  decode_Close_def decode_AckFrequency_def decode_ClientHello_def decode_ServerHello_def
  decode_HandshakeFinish_def decode_ServerFinish_def decode_KeyUpdate_def decode_Padding_def

lemmas encode_defs = encode_Ack_def encode_Data_def encode_ReliableData_def encode_Retx_def
  encode_Ping_def encode_PathChallenge_def encode_PathResponse_def encode_MtuProbe_def
  encode_Close_def encode_AckFrequency_def encode_ClientHello_def encode_ServerHello_def
  encode_HandshakeFinish_def encode_ServerFinish_def encode_KeyUpdate_def encode_Padding_def

end
