(* ===== verification/Rtt.thy ===== *)
theory Rtt
  imports GTP_Types
begin

text \<open>
  The RTT estimator of \<^verbatim>\<open>gtp-recovery/src/rtt.rs\<close>. Durations are microseconds in \<open>nat\<close>;
  \<^verbatim>\<open>Duration + Duration\<close> and \<^verbatim>\<open>-\<close> saturate, while the products and sums on the raw microsecond
  counts inside \<^verbatim>\<open>update\<close> are plain 64-bit operations and wrap.
\<close>

definition INITIAL_RTT :: duration where
  "INITIAL_RTT = Duration_from_millis 100"

definition DEFAULT_MAX_ACK_DELAY :: duration where
  "DEFAULT_MAX_ACK_DELAY = Duration_from_millis 25"

record rtt_stats =
  latest_rtt :: duration
  smoothed_rtt :: duration
  rttvar :: duration
  min_rtt :: duration
  max_ack_delay :: duration
  first_sample :: bool

definition RttStats_default :: rtt_stats where
  "RttStats_default =
     \<lparr> latest_rtt = INITIAL_RTT, smoothed_rtt = INITIAL_RTT, rttvar = INITIAL_RTT div 2,
       min_rtt = u64_max, max_ack_delay = DEFAULT_MAX_ACK_DELAY, first_sample = True \<rparr>"

definition min_rtt_sample :: "rtt_stats \<Rightarrow> duration option" where
  "min_rtt_sample r = (if first_sample r then None else Some (min_rtt r))"

definition reset_for_new_path :: "rtt_stats \<Rightarrow> rtt_stats" where
  "reset_for_new_path r = RttStats_default\<lparr> max_ack_delay := max_ack_delay r \<rparr>"

definition adjusted_rtt :: "duration \<Rightarrow> duration \<Rightarrow> rtt_stats \<Rightarrow> duration" where
  "adjusted_rtt raw_rtt ack_delay r =
     (if first_sample r then raw_rtt
      else let clamped = min ack_delay (max_ack_delay r) in
        if raw_rtt > duration_add (min_rtt r) clamped then duration_sub raw_rtt clamped else raw_rtt)"

definition RttStats_update :: "duration \<Rightarrow> duration \<Rightarrow> rtt_stats \<Rightarrow> rtt_stats" where
  "RttStats_update raw_rtt ack_delay r =
     (let r1 = r\<lparr> min_rtt := min (min_rtt r) raw_rtt \<rparr>;
          adj = adjusted_rtt raw_rtt ack_delay r1;
          r2 = r1\<lparr> latest_rtt := adj \<rparr>
      in if first_sample r2 then
           r2\<lparr> first_sample := False, smoothed_rtt := adj, rttvar := adj div 2 \<rparr>
         else
           let rtt_diff = (if smoothed_rtt r2 \<ge> adj then duration_sub (smoothed_rtt r2) adj
                           else duration_sub adj (smoothed_rtt r2))
           in r2\<lparr> rttvar := wadd64 (wmul64 (rttvar r2) 3) rtt_diff div 4,
                  smoothed_rtt := wadd64 (wmul64 (smoothed_rtt r2) 7) adj div 8 \<rparr>)"

definition pto_duration :: "rtt_stats \<Rightarrow> duration" where
  "pto_duration r =
     max (duration_add (duration_add (smoothed_rtt r) (wmul64 (rttvar r) 4)) (max_ack_delay r))
       (Duration_from_millis 1)"

section \<open>Invariant\<close>

text \<open>
  No product of the estimator overflows while every sample is below \<open>2 ^ 60\<close> microseconds
  (36 thousand years); the estimate then stays between the smallest and the largest sample.
\<close>

definition RTT_LIMIT :: nat where
  "RTT_LIMIT = 2 ^ 60"

definition rtt_within :: "nat \<Rightarrow> nat \<Rightarrow> rtt_stats \<Rightarrow> bool" where
  "rtt_within lo hi r \<longleftrightarrow>
     (if first_sample r then min_rtt r = u64_max
      else lo \<le> smoothed_rtt r \<and> smoothed_rtt r \<le> hi \<and> lo \<le> latest_rtt r \<and> latest_rtt r \<le> hi \<and>
           rttvar r \<le> hi \<and> lo \<le> min_rtt r \<and> min_rtt r \<le> hi)"

lemma rtt_within_default: "rtt_within lo hi RttStats_default"
  by (simp add: rtt_within_def RttStats_default_def)

lemma rtt_within_reset: "rtt_within lo hi (reset_for_new_path r)"
  by (simp add: rtt_within_def reset_for_new_path_def RttStats_default_def)

lemma adjusted_rtt_le: "adjusted_rtt raw d r \<le> raw"
  by (auto simp: adjusted_rtt_def Let_def duration_sub_def sat_sub_def)

text \<open>The adjustment never pushes a sample below the observed minimum.\<close>

lemma adjusted_rtt_ge:
  "lo \<le> raw \<Longrightarrow> lo \<le> min_rtt r \<Longrightarrow> raw \<le> u64_max \<Longrightarrow> lo \<le> adjusted_rtt raw d r"
  by (auto simp: adjusted_rtt_def Let_def duration_sub_def sat_sub_def duration_add_def sat_add64_def)

lemma RTT_LIMIT_mul: "n < RTT_LIMIT \<Longrightarrow> k \<le> 8 \<Longrightarrow> n * k < u64_modulus"
proof -
  assume "n < RTT_LIMIT" and "k \<le> 8"
  then have "n * k \<le> n * 8" by simp
  also have "\<dots> < RTT_LIMIT * 8" using \<open>n < RTT_LIMIT\<close> by simp
  also have "\<dots> < u64_modulus" by (simp add: RTT_LIMIT_def u64_modulus_def)
  finally show ?thesis .
qed

lemma rtt_within_update:
  assumes "rtt_within lo hi r" and "lo \<le> raw" and "raw \<le> hi" and "hi < RTT_LIMIT"
  shows "rtt_within lo hi (RttStats_update raw d r)"
proof -
  define r1 where "r1 = r\<lparr> min_rtt := min (min_rtt r) raw \<rparr>"
  define adj where "adj = adjusted_rtt raw d r1"
  have hi: "hi \<le> u64_max" "n \<le> hi \<Longrightarrow> k \<le> 8 \<Longrightarrow> n * k < u64_modulus" for n k
    using assms(4) RTT_LIMIT_mul [of n k] by (auto simp: RTT_LIMIT_def u64_max_def)
  have adj: "lo \<le> adj" "adj \<le> hi"
    using assms adjusted_rtt_le [of raw d r1] adjusted_rtt_ge [of lo raw r1 d] hi(1)
    by (auto simp: adj_def r1_def rtt_within_def split: if_splits)
  show ?thesis
  proof (cases "first_sample r")
    case True
    then have "RttStats_update raw d r =
        r1\<lparr> latest_rtt := adj, first_sample := False, smoothed_rtt := adj, rttvar := adj div 2 \<rparr>"
      by (simp add: RttStats_update_def Let_def adj_def r1_def)
    then show ?thesis
      using True assms adj hi(1) by (simp add: rtt_within_def r1_def)
  next
    case False
    have s: "smoothed_rtt r \<le> hi" "lo \<le> smoothed_rtt r" "rttvar r \<le> hi"
      using False assms(1) by (auto simp: rtt_within_def)
    have le8: "8 * hi < u64_modulus" using hi(2) [of hi 8] by (simp add: mult.commute)
    define diff where
      "diff = (if smoothed_rtt r \<ge> adj then smoothed_rtt r - adj else adj - smoothed_rtt r)"
    have diff: "diff \<le> hi" using s adj by (auto simp: diff_def)
    have upd: "RttStats_update raw d r =
        r1\<lparr> latest_rtt := adj, rttvar := wadd64 (wmul64 (rttvar r) 3) diff div 4,
            smoothed_rtt := wadd64 (wmul64 (smoothed_rtt r) 7) adj div 8 \<rparr>"
      using False
      by (simp add: RttStats_update_def Let_def adj_def r1_def diff_def duration_sub_def sat_sub_def)
    have "wadd64 (wmul64 (rttvar r) 3) diff = rttvar r * 3 + diff"
      using s diff le8 by simp
    moreover have "wadd64 (wmul64 (smoothed_rtt r) 7) adj = smoothed_rtt r * 7 + adj"
      using s adj le8 by simp
    ultimately show ?thesis
      using False assms adj s diff by (simp add: upd rtt_within_def r1_def) linarith
  qed
qed

text \<open>Feeding a history of samples, oldest first.\<close>

definition rtt_run :: "(duration \<times> duration) list \<Rightarrow> rtt_stats \<Rightarrow> rtt_stats" where
  "rtt_run samples r = fold (\<lambda>(raw, d). RttStats_update raw d) samples r"

lemma first_sample_update [simp]: "\<not> first_sample (RttStats_update raw d r)"
  by (simp add: RttStats_update_def Let_def)

lemma max_ack_delay_update [simp]: "max_ack_delay (RttStats_update raw d r) = max_ack_delay r"
  by (simp add: RttStats_update_def Let_def)

lemma min_rtt_update [simp]: "min_rtt (RttStats_update raw d r) = min (min_rtt r) raw"
  by (simp add: RttStats_update_def Let_def)

lemma rtt_run_within:
  assumes "hi < RTT_LIMIT"
  shows "\<forall>(raw, d) \<in> set samples. lo \<le> raw \<and> raw \<le> hi \<Longrightarrow> rtt_within lo hi r \<Longrightarrow>
    rtt_within lo hi (rtt_run samples r)"
  by (induction samples arbitrary: r) (auto simp: rtt_run_def rtt_within_update assms)

lemma first_sample_run: "samples \<noteq> [] \<Longrightarrow> \<not> first_sample (rtt_run samples r)"
  by (cases samples rule: rev_cases) (auto simp: rtt_run_def)

lemma min_rtt_run: "min_rtt (rtt_run samples r) = fold min (map fst samples) (min_rtt r)"
  by (induction samples arbitrary: r) (auto simp: rtt_run_def min.commute)

lemma pto_duration_ge: "1000 \<le> pto_duration r"
  by (simp add: pto_duration_def Duration_from_millis_def sat_mul64_def u64_max_def)

lemma pto_duration_le:
  assumes "hi < RTT_LIMIT" and "rtt_within lo hi r" and "\<not> first_sample r"
  shows "pto_duration r \<le> max 1000 (5 * hi + max_ack_delay r)"
proof -
  have "rttvar r * 4 < u64_modulus"
    using assms RTT_LIMIT_mul [of "rttvar r" 4] by (auto simp: rtt_within_def)
  then have "duration_add (duration_add (smoothed_rtt r) (wmul64 (rttvar r) 4)) (max_ack_delay r)
      \<le> smoothed_rtt r + rttvar r * 4 + max_ack_delay r"
    by (simp add: duration_add_def sat_add64_def)
  also have "\<dots> \<le> 5 * hi + max_ack_delay r"
    using assms by (simp add: rtt_within_def)
  finally show ?thesis
    by (auto simp: pto_duration_def Duration_from_millis_def sat_mul64_def)
qed

section \<open>Properties\<close>

text \<open>
  The RTT estimator stays inside its observations. After any non-empty history of samples that
  all lie between \<open>lo\<close> and \<open>hi\<close> (and below the overflow limit), whatever acknowledgement delays the
  peer reports, the smoothed estimate, the latest adjusted sample and the minimum lie between \<open>lo\<close>
  and \<open>hi\<close>, the minimum is the least raw sample, and the probe timeout is at least 1 ms and at most
  five times \<open>hi\<close> plus the acknowledgement delay.
\<close>

theorem rtt_estimate_within_samples:
  assumes "samples \<noteq> []" and "\<forall>(raw, d) \<in> set samples. lo \<le> raw \<and> raw \<le> hi" and "hi < RTT_LIMIT"
  shows "let r = rtt_run samples RttStats_default in
    lo \<le> smoothed_rtt r \<and> smoothed_rtt r \<le> hi \<and> lo \<le> latest_rtt r \<and> latest_rtt r \<le> hi \<and>
    min_rtt r = fold min (map fst samples) u64_max \<and> lo \<le> min_rtt r \<and>
    1000 \<le> pto_duration r \<and> pto_duration r \<le> max 1000 (5 * hi + max_ack_delay r)"
proof -
  let ?r = "rtt_run samples RttStats_default"
  have w: "rtt_within lo hi ?r" and f: "\<not> first_sample ?r"
    using rtt_run_within [OF assms(3,2) rtt_within_default] first_sample_run [OF assms(1)] by auto
  have "min_rtt ?r = fold min (map fst samples) u64_max"
    by (simp add: min_rtt_run RttStats_default_def)
  then show ?thesis
    using w f pto_duration_ge [of ?r] pto_duration_le [OF assms(3) w f] by (simp add: Let_def rtt_within_def)
qed

theorem rtt_estimate_within_samples_witness:
  "let r = rtt_run [(20000, 0), (60000, 25000)] RttStats_default in
     20000 \<le> smoothed_rtt r \<and> smoothed_rtt r \<le> 60000 \<and> pto_duration r \<le> max 1000 (5 * 60000 + max_ack_delay r)"
  using rtt_estimate_within_samples [of "[(20000, 0), (60000, 25000)]" 20000 60000]
  by (simp add: Let_def RTT_LIMIT_def)

end
