(* ===== verification/Loss_Detector.thy ===== *)
theory Loss_Detector
  imports Wire_Frame Ordered_Map Rtt F64
begin

text \<open>
  Sender-side recovery (\<^verbatim>\<open>gtp-recovery/src/loss_detector.rs\<close>, \<^verbatim>\<open>sent_packet.rs\<close>): the table of
  outstanding packets, acknowledgement processing, loss declaration and the probe timeout. The
  \<^verbatim>\<open>BTreeMap\<close> of sent packets is an ordered association list; the in-flight counter is the total of
  that store under the weight \<open>flight_weight\<close>.
\<close>

section \<open>Records\<close>

definition PACKET_THRESHOLD :: nat where
  "PACKET_THRESHOLD = 3"

definition TIME_THRESHOLD_FACTOR_NUM :: nat where
  "TIME_THRESHOLD_FACTOR_NUM = 9"

definition TIME_THRESHOLD_FACTOR_DEN :: nat where
  "TIME_THRESHOLD_FACTOR_DEN = 8"

definition MAX_ACKED_PER_FRAME :: nat where
  "MAX_ACKED_PER_FRAME = 16384"

definition MAX_PTO_RETRANSMIT_BURST :: nat where
  "MAX_PTO_RETRANSMIT_BURST = 2"

definition MAX_PTO_BACKOFF_EXPONENT :: nat where
  "MAX_PTO_BACKOFF_EXPONENT = 8"

record retransmission_record =
  rr_message_id :: message_id
  rr_fragment_id :: fragment_id
  rr_transmission_id :: transmission_id
  rr_group_id :: u16
  rr_order_seq :: u32
  rr_total_fragments :: u16
  rr_payload :: bytes

record sent_packet_record =
  sp_packet_number :: nat
  sp_send_time :: monotonic_time
  sp_bytes :: nat
  sp_ack_eliciting :: bool
  sp_in_flight :: bool
  sp_retransmittable_frames :: "retransmission_record list"

record ack_event =
  ae_largest_acked :: nat
  ae_acked_packets :: "sent_packet_record list"
  ae_bytes_acked :: nat
  ae_rtt_sample :: "duration option"

record loss_event =
  le_lost_packets :: "sent_packet_record list"
  le_bytes_lost :: nat
  le_retransmittable :: "retransmission_record list"

record delivery_rate_sample =
  dr_delivered_bytes :: nat
  dr_interval :: duration
  dr_rate_bytes_per_sec :: nat

record loss_detector =
  ld_rtt_stats :: rtt_stats
  ld_sent_packets :: "(nat \<times> sent_packet_record) list"
  ld_inflight_bytes :: nat
  ld_largest_acked_packet :: "nat option"
  ld_largest_sent_packet :: nat
  ld_time_of_last_ack_eliciting_packet :: monotonic_time
  ld_pto_count :: nat
  ld_total_bytes_sent :: nat
  ld_total_bytes_acked :: nat
  ld_last_delivery_rate_time :: monotonic_time
  ld_last_delivery_rate_bytes :: nat
  ld_rtt_sample_floor :: nat

definition LossDetector_default :: loss_detector where
  "LossDetector_default =
     \<lparr> ld_rtt_stats = RttStats_default, ld_sent_packets = [], ld_inflight_bytes = 0,
       ld_largest_acked_packet = None, ld_largest_sent_packet = 0,
       ld_time_of_last_ack_eliciting_packet = MonotonicTime_ZERO, ld_pto_count = 0,
       ld_total_bytes_sent = 0, ld_total_bytes_acked = 0,
       ld_last_delivery_rate_time = MonotonicTime_ZERO, ld_last_delivery_rate_bytes = 0,
       ld_rtt_sample_floor = 0 \<rparr>"

section \<open>Sending\<close>

definition on_path_migration :: "nat \<Rightarrow> loss_detector \<Rightarrow> loss_detector" where
  "on_path_migration first_pn d =
     d\<lparr> ld_rtt_stats := reset_for_new_path (ld_rtt_stats d), ld_rtt_sample_floor := first_pn \<rparr>"

definition LossDetector_on_packet_sent :: "sent_packet_record \<Rightarrow> loss_detector \<Rightarrow> loss_detector" where
  "LossDetector_on_packet_sent r d =
     (let d1 = (if sp_ack_eliciting r
                then d\<lparr> ld_time_of_last_ack_eliciting_packet := sp_send_time r \<rparr> else d);
          d2 = d1\<lparr> ld_total_bytes_sent := wadd64 (ld_total_bytes_sent d1) (sp_bytes r),
                  ld_largest_sent_packet := max (ld_largest_sent_packet d1) (sp_packet_number r) \<rparr>;
          d3 = (if sp_in_flight r
                then d2\<lparr> ld_inflight_bytes := sat_add64 (ld_inflight_bytes d2) (sp_bytes r) \<rparr> else d2)
      in d3\<lparr> ld_sent_packets := om_insert (sp_packet_number r) r (ld_sent_packets d3) \<rparr>)"

definition has_received_ack :: "loss_detector \<Rightarrow> bool" where
  "has_received_ack d \<longleftrightarrow> ld_largest_acked_packet d \<noteq> None"

definition pto_duration_with_backoff :: "duration \<Rightarrow> loss_detector \<Rightarrow> duration" where
  "pto_duration_with_backoff max_pto d =
     min (sat_mul64 (pto_duration (ld_rtt_stats d)) (2 ^ min (ld_pto_count d) MAX_PTO_BACKOFF_EXPONENT))
       max_pto"

section \<open>Acknowledgement ranges\<close>

text \<open>
  The walk of \<^verbatim>\<open>parse_ack_ranges\<close>: \<open>first\<close> is \<^verbatim>\<open>i == 0\<close>, and \<open>block_high\<close>, \<open>prev_low\<close>, \<open>claimed\<close> (\<^verbatim>\<open>total\<close>)
  are the loop variables. \<open>rev [l..<h + 1]\<close> is \<^verbatim>\<open>(l..=h).rev()\<close>.
\<close>

fun parse_walk :: "bool \<Rightarrow> nat \<Rightarrow> nat \<Rightarrow> nat \<Rightarrow> ack_range list \<Rightarrow> nat list" where
  "parse_walk first block_high prev_low claimed [] = []"
| "parse_walk first block_high prev_low claimed (r # rs) =
     (if \<not> first \<and> unat (ar_gap r) + 1 > prev_low then []
      else let high = (if first then block_high else prev_low - unat (ar_gap r) - 1);
               len = unat (ar_length r)
           in if len > high then []
              else let low = high - len; count = len + 1
                   in if claimed + count > MAX_ACKED_PER_FRAME then []
                      else rev [low..<high + 1] @ parse_walk False high low (claimed + count) rs)"

definition parse_ack_ranges :: "nat \<Rightarrow> ack_range list \<Rightarrow> nat \<Rightarrow> nat list" where
  "parse_ack_ranges largest_pn rs rcount =
     parse_walk True largest_pn largest_pn 0 (take rcount rs)"

section \<open>Acknowledgement processing\<close>

text \<open>
  The loop over the acknowledged numbers. Its state is the detector together with the three
  accumulators \<^verbatim>\<open>newly_acked\<close>, \<^verbatim>\<open>bytes_acked\<close> and \<^verbatim>\<open>rtt_sample\<close>.
\<close>

type_synonym ack_acc = "sent_packet_record list \<times> nat \<times> duration option"

definition ack_one ::
  "nat \<Rightarrow> duration \<Rightarrow> monotonic_time \<Rightarrow> nat \<Rightarrow> loss_detector \<times> ack_acc \<Rightarrow> loss_detector \<times> ack_acc" where
  "ack_one largest_pn ack_delay now pn st =
     (let (d, newly, bytes, sample) = st in
      case map_of (ld_sent_packets d) pn of
        None \<Rightarrow> st
      | Some r \<Rightarrow>
          let d1 = d\<lparr> ld_sent_packets := om_remove pn (ld_sent_packets d) \<rparr>;
              d2 = (if sp_in_flight r
                    then d1\<lparr> ld_inflight_bytes := sat_sub (ld_inflight_bytes d1) (sp_bytes r) \<rparr> else d1);
              bytes' = (if sp_in_flight r then wadd64 bytes (sp_bytes r) else bytes);
              s = duration_since now (sp_send_time r)
          in if pn = largest_pn \<and> pn \<ge> ld_rtt_sample_floor d2
             then (d2\<lparr> ld_rtt_stats := RttStats_update s ack_delay (ld_rtt_stats d2) \<rparr>,
                   newly @ [r], bytes', Some s)
             else (d2, newly @ [r], bytes', sample))"

definition delivery_rate_step ::
  "monotonic_time \<Rightarrow> loss_detector \<Rightarrow> loss_detector \<times> delivery_rate_sample option" where
  "delivery_rate_step now d =
     (if ld_last_delivery_rate_time d \<noteq> MonotonicTime_ZERO then
        let interval = duration_since now (ld_last_delivery_rate_time d) in
        if interval > 1000 then
          let delivered = sat_sub (ld_total_bytes_acked d) (ld_last_delivery_rate_bytes d);
              rate = to_u64 (fdiv (of_u64 delivered) (as_secs_f64 interval))
          in (d\<lparr> ld_last_delivery_rate_time := now, ld_last_delivery_rate_bytes := ld_total_bytes_acked d \<rparr>,
              Some \<lparr> dr_delivered_bytes = delivered, dr_interval = interval, dr_rate_bytes_per_sec = rate \<rparr>)
        else (d, None)
      else (d\<lparr> ld_last_delivery_rate_time := now, ld_last_delivery_rate_bytes := ld_total_bytes_acked d \<rparr>,
            None))"

definition time_threshold :: "loss_detector \<Rightarrow> duration" where
  "time_threshold d =
     wmul64 (max (smoothed_rtt (ld_rtt_stats d)) (latest_rtt (ld_rtt_stats d))) TIME_THRESHOLD_FACTOR_NUM
       div TIME_THRESHOLD_FACTOR_DEN"

definition is_lost :: "nat \<Rightarrow> monotonic_time \<Rightarrow> duration \<Rightarrow> nat \<Rightarrow> sent_packet_record \<Rightarrow> bool" where
  "is_lost largest_pn now threshold pn r \<longleftrightarrow>
     (if pn > largest_pn \<or> \<not> sp_in_flight r \<or> \<not> sp_ack_eliciting r then False
      else largest_pn \<ge> wadd64 pn PACKET_THRESHOLD \<or> duration_since now (sp_send_time r) \<ge> threshold)"

definition lost_pns :: "nat \<Rightarrow> monotonic_time \<Rightarrow> loss_detector \<Rightarrow> nat list" where
  "lost_pns largest_pn now d =
     map fst (filter (\<lambda>(pn, r). is_lost largest_pn now (time_threshold d) pn r) (ld_sent_packets d))"

type_synonym loss_acc = "sent_packet_record list \<times> nat \<times> retransmission_record list"

definition lose_one :: "nat \<Rightarrow> loss_detector \<times> loss_acc \<Rightarrow> loss_detector \<times> loss_acc" where
  "lose_one pn st =
     (let (d, lost, bytes, retr) = st in
      case map_of (ld_sent_packets d) pn of
        None \<Rightarrow> st
      | Some r \<Rightarrow>
          let d1 = d\<lparr> ld_sent_packets := om_remove pn (ld_sent_packets d) \<rparr>;
              d2 = (if sp_in_flight r
                    then d1\<lparr> ld_inflight_bytes := sat_sub (ld_inflight_bytes d1) (sp_bytes r) \<rparr> else d1)
          in (d2, lost @ [r], wadd64 bytes (sp_bytes r), retr @ sp_retransmittable_frames r))"

definition ack_phase ::
  "nat \<Rightarrow> u32 \<Rightarrow> ack_range list \<Rightarrow> nat \<Rightarrow> monotonic_time \<Rightarrow> loss_detector \<Rightarrow> loss_detector \<times> ack_acc" where
  "ack_phase largest_pn delay_us rs rcount now d =
     (let (d1, newly, bytes, sample) =
            fold (ack_one largest_pn (unat delay_us) now) (parse_ack_ranges largest_pn rs rcount)
              (d, [], 0, None);
          d2 = d1\<lparr> ld_total_bytes_acked := wadd64 (ld_total_bytes_acked d1) bytes \<rparr>;
          d3 = (case ld_largest_acked_packet d2 of
                  None \<Rightarrow> d2\<lparr> ld_largest_acked_packet := Some largest_pn \<rparr>
                | Some l \<Rightarrow> if largest_pn > l then d2\<lparr> ld_largest_acked_packet := Some largest_pn \<rparr> else d2);
          d4 = (if newly \<noteq> [] then d3\<lparr> ld_pto_count := 0 \<rparr> else d3)
      in (d4, newly, bytes, sample))"

definition loss_phase :: "nat \<Rightarrow> monotonic_time \<Rightarrow> loss_detector \<Rightarrow> loss_detector \<times> loss_acc" where
  "loss_phase largest_pn now d = fold lose_one (lost_pns largest_pn now d) (d, [], 0, [])"

definition LossDetector_on_ack_received ::
  "nat \<Rightarrow> u32 \<Rightarrow> ack_range list \<Rightarrow> nat \<Rightarrow> monotonic_time \<Rightarrow> loss_detector \<Rightarrow>
   loss_detector \<times> ack_event \<times> loss_event \<times> delivery_rate_sample option" where
  "LossDetector_on_ack_received largest_pn delay_us rs rcount now d =
     (if largest_pn > ld_largest_sent_packet d then
        (d, \<lparr> ae_largest_acked = largest_pn, ae_acked_packets = [], ae_bytes_acked = 0, ae_rtt_sample = None \<rparr>,
         \<lparr> le_lost_packets = [], le_bytes_lost = 0, le_retransmittable = [] \<rparr>, None)
      else
        let (d1, newly, bytes, sample) = ack_phase largest_pn delay_us rs rcount now d;
            (d2, delivery) = delivery_rate_step now d1;
            (d3, lost, bytes_lost, retr) = loss_phase largest_pn now d2
        in (d3, \<lparr> ae_largest_acked = largest_pn, ae_acked_packets = newly, ae_bytes_acked = bytes,
                   ae_rtt_sample = sample \<rparr>,
            \<lparr> le_lost_packets = lost, le_bytes_lost = bytes_lost, le_retransmittable = retr \<rparr>, delivery))"

section \<open>Probe timeout\<close>

text \<open>The loop that selects the probes: \<open>drained\<close> and \<open>retr\<close> are its accumulators.\<close>

fun pto_scan :: "(nat \<times> sent_packet_record) list \<Rightarrow> nat list \<Rightarrow> retransmission_record list \<Rightarrow>
    nat list \<times> retransmission_record list" where
  "pto_scan [] drained retr = (drained, retr)"
| "pto_scan ((pn, r) # rest) drained retr =
     (if length drained \<ge> MAX_PTO_RETRANSMIT_BURST then (drained, retr)
      else if \<not> sp_in_flight r then pto_scan rest drained retr
      else pto_scan rest (drained @ [pn]) (retr @ sp_retransmittable_frames r))"

definition drain_one :: "nat \<Rightarrow> (nat \<times> sent_packet_record) list \<times> nat \<Rightarrow>
    (nat \<times> sent_packet_record) list \<times> nat" where
  "drain_one pn st = (let (sent, bytes) = st in
     case map_of sent pn of
       None \<Rightarrow> st
     | Some r \<Rightarrow> (om_remove pn sent, if sp_in_flight r then sat_add64 bytes (sp_bytes r) else bytes))"

definition LossDetector_on_timeout :: "loss_detector \<Rightarrow> loss_detector \<times> loss_event" where
  "LossDetector_on_timeout d =
     (let d1 = d\<lparr> ld_pto_count := min u32_max (ld_pto_count d + 1) \<rparr>;
          (drained, retr) = pto_scan (ld_sent_packets d1) [] [];
          (sent, bytes) = fold drain_one drained (ld_sent_packets d1, 0)
      in (d1\<lparr> ld_sent_packets := sent, ld_inflight_bytes := sat_sub (ld_inflight_bytes d1) bytes \<rparr>,
          \<lparr> le_lost_packets = [], le_bytes_lost = bytes, le_retransmittable = retr \<rparr>))"

section \<open>Parsing never inflates the acknowledged set\<close>

lemma parse_walk_cases:
  obtains "parse_walk first high prev claimed (r # rs) = []"
  | h l c where "l \<le> h" and "h \<le> (if first then high else prev - 1)"
      and "c = claimed + (h - l) + 1" and "c \<le> MAX_ACKED_PER_FRAME"
      and "parse_walk first high prev claimed (r # rs) = rev [l..<h + 1] @ parse_walk False h l c rs"
proof (cases "parse_walk first high prev claimed (r # rs) = []")
  case False
  define h where "h = (if first then high else prev - unat (ar_gap r) - 1)"
  define l where "l = h - unat (ar_length r)"
  have g: "\<not> (\<not> first \<and> unat (ar_gap r) + 1 > prev)" "\<not> unat (ar_length r) > h"
    "\<not> claimed + (unat (ar_length r) + 1) > MAX_ACKED_PER_FRAME"
    using False by (auto simp: Let_def h_def split: if_splits)
  have "parse_walk first high prev claimed (r # rs) =
      rev [l..<h + 1] @ parse_walk False h l (claimed + (unat (ar_length r) + 1)) rs"
    using g by (auto simp: Let_def h_def [symmetric] l_def [symmetric] simp del: upt_Suc)
  moreover have "unat (ar_length r) = h - l" "l \<le> h" using g by (simp_all add: l_def)
  moreover have "h \<le> (if first then high else prev - 1)" by (simp add: h_def diff_le_mono2)
  ultimately show thesis using g that(2) [of l h "claimed + (h - l) + 1"] by simp
qed (rule that(1))

lemma parse_walk_bounds:
  "p \<in> set (parse_walk first high prev claimed rs) \<Longrightarrow> p \<le> (if first then high else prev - 1)"
proof (induction rs arbitrary: first high prev claimed)
  case (Cons r rs)
  show ?case
  proof (cases rule: parse_walk_cases [of first high prev claimed r rs])
    case (2 h l c)
    have "p \<le> h"
      using Cons.prems Cons.IH [of False h l c] 2(1) unfolding 2(5) by (auto simp del: upt_Suc)
    then show ?thesis using 2(2) by linarith
  qed (use Cons.prems in simp)
qed simp

lemma sorted_rev_upt: "sorted_wrt (>) (rev [a..<b])"
  by (simp add: sorted_wrt_rev)

lemma parse_walk_sorted: "sorted_wrt (>) (parse_walk first high prev claimed rs)"
proof (induction rs arbitrary: first high prev claimed)
  case (Cons r rs)
  show ?case
  proof (cases rule: parse_walk_cases [of first high prev claimed r rs])
    case (2 h l c)
    have "p < q" if "p \<in> set (parse_walk False h l c rs)" "l \<le> q" "0 < l" for p q
      using parse_walk_bounds [OF that(1)] that(2,3) by simp
    moreover have "parse_walk False h 0 c rs = []"
      by (cases rs) simp_all
    ultimately show ?thesis
      unfolding 2(5) sorted_wrt_append
      using Cons.IH [of False h l c] sorted_rev_upt [of l "h + 1"]
      by (cases "l = 0") (auto simp del: upt_Suc)
  qed simp
qed simp

lemma parse_walk_length:
  "claimed \<le> MAX_ACKED_PER_FRAME \<Longrightarrow>
   claimed + length (parse_walk first high prev claimed rs) \<le> MAX_ACKED_PER_FRAME"
proof (induction rs arbitrary: first high prev claimed)
  case (Cons r rs)
  show ?case
  proof (cases rule: parse_walk_cases [of first high prev claimed r rs])
    case (2 h l c)
    then show ?thesis
      unfolding 2(5) using Cons.IH [of c False h l] by (simp del: upt_Suc)
  qed (use Cons.prems in simp)
qed simp

lemma parse_ack_ranges_le: "p \<in> set (parse_ack_ranges l rs n) \<Longrightarrow> p \<le> l"
  using parse_walk_bounds [of p True l l 0 "take n rs"] by (auto simp: parse_ack_ranges_def)

lemma parse_ack_ranges_distinct: "distinct (parse_ack_ranges l rs n)"
proof -
  have "sorted_wrt (>) xs \<Longrightarrow> distinct xs" for xs :: "nat list"
    by (induction xs) auto
  then show ?thesis
    using parse_walk_sorted by (simp add: parse_ack_ranges_def)
qed

lemma parse_ack_ranges_length: "length (parse_ack_ranges l rs n) \<le> MAX_ACKED_PER_FRAME"
  using parse_walk_length [of 0] by (simp add: parse_ack_ranges_def)

section \<open>In-flight accounting\<close>

definition flight_weight :: "sent_packet_record \<Rightarrow> nat" where
  "flight_weight r = (if sp_in_flight r then sp_bytes r else 0)"

text \<open>
  The invariant of the detector: the running counter is the scan over the table that the debug
  assertion of \<^verbatim>\<open>inflight_bytes\<close> computes, and no outstanding packet is above the largest sent.
\<close>

definition inflight_scan :: "loss_detector \<Rightarrow> nat" where
  "inflight_scan d = om_total flight_weight (ld_sent_packets d)"

definition ld_wf :: "loss_detector \<Rightarrow> bool" where
  "ld_wf d \<longleftrightarrow> om_wf (ld_sent_packets d) \<and> ld_inflight_bytes d = inflight_scan d \<and>
     inflight_scan d \<le> u64_max \<and>
     (\<forall>(pn, r) \<in> set (ld_sent_packets d). sp_packet_number r = pn \<and> pn \<le> ld_largest_sent_packet d)"

lemma ld_wf_default: "ld_wf LossDetector_default"
  by (simp add: ld_wf_def LossDetector_default_def inflight_scan_def)

lemma ld_wf_migration: "ld_wf d \<Longrightarrow> ld_wf (on_path_migration pn d)"
  by (simp add: ld_wf_def on_path_migration_def inflight_scan_def)

lemma set_om_insert_subset: "set (om_insert k v xs) \<subseteq> insert (k, v) (set xs)"
  by (induction k v xs rule: om_insert.induct) auto

lemma on_packet_sent_sent:
  "ld_sent_packets (LossDetector_on_packet_sent r d) = om_insert (sp_packet_number r) r (ld_sent_packets d)"
  "ld_largest_sent_packet (LossDetector_on_packet_sent r d) = max (ld_largest_sent_packet d) (sp_packet_number r)"
  "ld_inflight_bytes (LossDetector_on_packet_sent r d) =
     (if sp_in_flight r then sat_add64 (ld_inflight_bytes d) (sp_bytes r) else ld_inflight_bytes d)"
  by (simp_all add: LossDetector_on_packet_sent_def Let_def)

lemma ld_wf_sent:
  assumes "ld_wf d" and "map_of (ld_sent_packets d) (sp_packet_number r) = None"
    and "inflight_scan d + sp_bytes r \<le> u64_max"
  shows "ld_wf (LossDetector_on_packet_sent r d)"
proof -
  have "inflight_scan (LossDetector_on_packet_sent r d) = inflight_scan d + flight_weight r"
    using assms by (simp add: inflight_scan_def on_packet_sent_sent om_store.total_ins ld_wf_def)
  then show ?thesis
    using assms set_om_insert_subset [of "sp_packet_number r" r "ld_sent_packets d"]
    by (fastforce simp: ld_wf_def on_packet_sent_sent flight_weight_def sat_add64_def)
qed

text \<open>
  Taking one packet out of the table, the step shared by acknowledgement, loss and probe: the
  counter sheds the packet's in-flight bytes and the invariant is kept.
\<close>

lemma ld_wf_remove:
  assumes "ld_wf d" and "map_of (ld_sent_packets d) pn = Some r"
    and "ld_sent_packets d' = om_remove pn (ld_sent_packets d)"
    and "ld_inflight_bytes d' = ld_inflight_bytes d - flight_weight r"
    and "ld_largest_sent_packet d' = ld_largest_sent_packet d"
  shows "ld_wf d'" and "inflight_scan d = inflight_scan d' + flight_weight r"
proof -
  show scan: "inflight_scan d = inflight_scan d' + flight_weight r"
    using assms by (simp add: inflight_scan_def ld_wf_def om_store.total_del)
  show "ld_wf d'"
    using assms scan by (auto simp: ld_wf_def set_om_remove)
qed

lemma ack_one_step:
  assumes "ld_wf d" and "bytes + inflight_scan d \<le> u64_max"
    and "ack_one l delay now pn (d, newly, bytes, sample) = (d', newly', bytes', sample')"
  shows "ld_wf d'" and "bytes' + inflight_scan d' = bytes + inflight_scan d"
    and "ld_sent_packets d' = om_remove pn (ld_sent_packets d)"
    and "newly' = newly @ (case map_of (ld_sent_packets d) pn of None \<Rightarrow> [] | Some r \<Rightarrow> [r])"
    and "ld_largest_sent_packet d' = ld_largest_sent_packet d"
proof -
  have "ld_wf d' \<and> bytes' + inflight_scan d' = bytes + inflight_scan d \<and>
    ld_sent_packets d' = om_remove pn (ld_sent_packets d) \<and>
    newly' = newly @ (case map_of (ld_sent_packets d) pn of None \<Rightarrow> [] | Some r \<Rightarrow> [r]) \<and>
    ld_largest_sent_packet d' = ld_largest_sent_packet d"
  proof (cases "map_of (ld_sent_packets d) pn")
    case None
    then show ?thesis using assms by (simp add: ack_one_def om_remove_absent)
  next
    case (Some r)
    have frame: "ld_sent_packets d' = om_remove pn (ld_sent_packets d)"
      "ld_inflight_bytes d' = ld_inflight_bytes d - flight_weight r"
      "ld_largest_sent_packet d' = ld_largest_sent_packet d" "newly' = newly @ [r]"
      "bytes' = (if sp_in_flight r then wadd64 bytes (sp_bytes r) else bytes)"
      using assms(3) Some
      by (auto simp: ack_one_def Let_def flight_weight_def sat_sub_def split: if_splits)
    note rm = ld_wf_remove [OF assms(1) Some frame(1-3)]
    have "flight_weight r \<le> inflight_scan d" using rm(2) by simp
    then have "bytes' = bytes + flight_weight r"
      using assms(2) frame(5) by (auto simp: flight_weight_def u64_max_modulus)
    then show ?thesis using rm frame Some by simp
  qed
  then show "ld_wf d'" and "bytes' + inflight_scan d' = bytes + inflight_scan d"
    and "ld_sent_packets d' = om_remove pn (ld_sent_packets d)"
    and "newly' = newly @ (case map_of (ld_sent_packets d) pn of None \<Rightarrow> [] | Some r \<Rightarrow> [r])"
    and "ld_largest_sent_packet d' = ld_largest_sent_packet d"
    by blast+
qed

text \<open>The records a list of distinct packet numbers selects from the table, in that order.\<close>

definition records_of :: "(nat \<times> sent_packet_record) list \<Rightarrow> nat list \<Rightarrow> sent_packet_record list" where
  "records_of sent pns = List.map_filter (map_of sent) pns"

lemma records_of_simps [simp]:
  "records_of sent [] = []"
  "records_of sent (pn # pns) =
     (case map_of sent pn of None \<Rightarrow> records_of sent pns | Some r \<Rightarrow> r # records_of sent pns)"
  by (simp_all add: records_of_def List.map_filter_def split: option.split)

lemma records_of_remove: "pn \<notin> set pns \<Longrightarrow> records_of (om_remove pn sent) pns = records_of sent pns"
  by (induction pns) (auto split: option.split)

lemma ack_fold:
  assumes "ld_wf d" and "bytes + inflight_scan d \<le> u64_max" and "distinct pns"
    and "fold (ack_one l delay now) pns (d, newly, bytes, sample) = (d', newly', bytes', sample')"
  shows "ld_wf d' \<and> bytes' + inflight_scan d' = bytes + inflight_scan d \<and>
    ld_sent_packets d' = fold om_remove pns (ld_sent_packets d) \<and>
    newly' = newly @ records_of (ld_sent_packets d) pns \<and>
    ld_largest_sent_packet d' = ld_largest_sent_packet d"
  using assms
proof (induction pns arbitrary: d newly bytes sample)
  case (Cons pn pns)
  obtain d1 newly1 bytes1 sample1
    where one: "ack_one l delay now pn (d, newly, bytes, sample) = (d1, newly1, bytes1, sample1)"
    by (metis prod_cases4)
  note step = ack_one_step [OF Cons.prems(1,2) one]
  have "fold (ack_one l delay now) pns (d1, newly1, bytes1, sample1) = (d', newly', bytes', sample')"
    using Cons.prems(4) one by simp
  from Cons.IH [OF step(1) _ _ this] show ?case
    using step Cons.prems by (auto simp: records_of_remove split: option.split)
qed simp

lemma lose_one_step:
  assumes "ld_wf d" and "bytes + inflight_scan d \<le> u64_max"
    and "map_of (ld_sent_packets d) pn = Some r" and "sp_in_flight r"
    and "lose_one pn (d, lost, bytes, retr) = (d', lost', bytes', retr')"
  shows "ld_wf d'" and "bytes' + inflight_scan d' = bytes + inflight_scan d"
    and "ld_sent_packets d' = om_remove pn (ld_sent_packets d)" and "lost' = lost @ [r]"
    and "retr' = retr @ sp_retransmittable_frames r"
    and "ld_largest_sent_packet d' = ld_largest_sent_packet d"
proof -
  have frame: "ld_sent_packets d' = om_remove pn (ld_sent_packets d)"
    "ld_inflight_bytes d' = ld_inflight_bytes d - flight_weight r"
    "ld_largest_sent_packet d' = ld_largest_sent_packet d"
    and out: "lost' = lost @ [r]" "retr' = retr @ sp_retransmittable_frames r"
      "bytes' = wadd64 bytes (sp_bytes r)"
    using assms(3-5) by (auto simp: lose_one_def Let_def flight_weight_def sat_sub_def)
  note rm = ld_wf_remove [OF assms(1,3) frame]
  have "flight_weight r \<le> inflight_scan d" using rm(2) by simp
  then have "bytes' = bytes + flight_weight r"
    using assms(2,4) out(3) by (simp add: flight_weight_def u64_max_modulus)
  with rm frame out show "ld_wf d'" "bytes' + inflight_scan d' = bytes + inflight_scan d"
    "ld_sent_packets d' = om_remove pn (ld_sent_packets d)" "lost' = lost @ [r]"
    "retr' = retr @ sp_retransmittable_frames r"
    "ld_largest_sent_packet d' = ld_largest_sent_packet d"
    by simp_all
qed

lemma lose_fold:
  assumes "ld_wf d" and "bytes + inflight_scan d \<le> u64_max" and "distinct pns"
    and "\<forall>pn \<in> set pns. \<exists>r. map_of (ld_sent_packets d) pn = Some r \<and> sp_in_flight r"
    and "fold lose_one pns (d, lost, bytes, retr) = (d', lost', bytes', retr')"
  shows "ld_wf d' \<and> bytes' + inflight_scan d' = bytes + inflight_scan d \<and>
    ld_sent_packets d' = fold om_remove pns (ld_sent_packets d) \<and>
    lost' = lost @ records_of (ld_sent_packets d) pns \<and>
    retr' = retr @ concat (map sp_retransmittable_frames (records_of (ld_sent_packets d) pns)) \<and>
    ld_largest_sent_packet d' = ld_largest_sent_packet d"
  using assms
proof (induction pns arbitrary: d lost bytes retr)
  case (Cons pn pns)
  obtain r where r: "map_of (ld_sent_packets d) pn = Some r" "sp_in_flight r"
    using Cons.prems(4) by auto
  obtain d1 lost1 bytes1 retr1
    where one: "lose_one pn (d, lost, bytes, retr) = (d1, lost1, bytes1, retr1)"
    by (metis prod_cases4)
  note step = lose_one_step [OF Cons.prems(1,2) r one]
  have rest: "fold lose_one pns (d1, lost1, bytes1, retr1) = (d', lost', bytes', retr')"
    using Cons.prems(5) one by simp
  have "\<forall>p \<in> set pns. \<exists>r. map_of (ld_sent_packets d1) p = Some r \<and> sp_in_flight r"
    using Cons.prems(3,4) step(3) by auto
  from Cons.IH [OF step(1) _ _ this rest] show ?case
    using step r Cons.prems by (auto simp: records_of_remove)
qed simp

lemma lost_pns_props:
  assumes "ld_wf d"
  shows "distinct (lost_pns l now d)"
    and "pn \<in> set (lost_pns l now d) \<longleftrightarrow>
      (\<exists>r. map_of (ld_sent_packets d) pn = Some r \<and> is_lost l now (time_threshold d) pn r)"
proof -
  have wf: "om_wf (ld_sent_packets d)" using assms by (simp add: ld_wf_def)
  show "distinct (lost_pns l now d)"
    unfolding lost_pns_def by (intro om_wf_distinct om_wf_filter wf)
  show "pn \<in> set (lost_pns l now d) \<longleftrightarrow>
      (\<exists>r. map_of (ld_sent_packets d) pn = Some r \<and> is_lost l now (time_threshold d) pn r)"
    by (auto simp: lost_pns_def om_wf_lookup [OF wf] image_iff split: prod.splits)
qed

lemma loss_phase_result:
  assumes "ld_wf d" and "loss_phase l now d = (d', lost, bytes, retr)"
  shows "ld_wf d' \<and> bytes + inflight_scan d' = inflight_scan d \<and>
    ld_sent_packets d' = fold om_remove (lost_pns l now d) (ld_sent_packets d) \<and>
    lost = records_of (ld_sent_packets d) (lost_pns l now d) \<and>
    retr = concat (map sp_retransmittable_frames lost) \<and>
    ld_largest_sent_packet d' = ld_largest_sent_packet d"
proof -
  have "\<forall>pn \<in> set (lost_pns l now d). \<exists>r. map_of (ld_sent_packets d) pn = Some r \<and> sp_in_flight r"
    by (auto simp: lost_pns_props [OF assms(1)] is_lost_def split: if_splits)
  then show ?thesis
    using lose_fold [OF assms(1) _ _ _ assms(2) [unfolded loss_phase_def]] assms(1)
      lost_pns_props(1) [OF assms(1)]
    by (auto simp: ld_wf_def)
qed

text \<open>Fields that the bookkeeping between the phases does not touch.\<close>

lemma ld_wf_frame:
  "ld_sent_packets d' = ld_sent_packets d \<Longrightarrow> ld_inflight_bytes d' = ld_inflight_bytes d \<Longrightarrow>
   ld_largest_sent_packet d' = ld_largest_sent_packet d \<Longrightarrow> ld_wf d \<Longrightarrow> ld_wf d'"
  by (simp add: ld_wf_def inflight_scan_def)

lemma ack_phase_result:
  assumes "ld_wf d" and "ack_phase l delay rs n now d = (d', newly, bytes, sample)"
  shows "ld_wf d' \<and> bytes + inflight_scan d' = inflight_scan d \<and>
    ld_sent_packets d' = fold om_remove (parse_ack_ranges l rs n) (ld_sent_packets d) \<and>
    newly = records_of (ld_sent_packets d) (parse_ack_ranges l rs n) \<and>
    ld_largest_sent_packet d' = ld_largest_sent_packet d"
proof -
  obtain d1 newly1 bytes1 sample1 where f:
    "fold (ack_one l (unat delay) now) (parse_ack_ranges l rs n) (d, [], 0, None) =
       (d1, newly1, bytes1, sample1)"
    by (metis prod_cases4)
  have eqs: "newly1 = newly" "bytes1 = bytes"
    and fr: "ld_sent_packets d' = ld_sent_packets d1" "ld_inflight_bytes d' = ld_inflight_bytes d1"
      "ld_largest_sent_packet d' = ld_largest_sent_packet d1"
    using assms(2) unfolding ack_phase_def f
    by (auto simp: Let_def split: option.splits if_splits)
  have "0 + inflight_scan d \<le> u64_max" using assms(1) by (simp add: ld_wf_def)
  from ack_fold [OF assms(1) this parse_ack_ranges_distinct f] show ?thesis
    using fr eqs ld_wf_frame [OF fr] by (auto simp: inflight_scan_def)
qed

lemma delivery_rate_frame:
  "delivery_rate_step now d = (d', s) \<Longrightarrow>
   ld_sent_packets d' = ld_sent_packets d \<and> ld_inflight_bytes d' = ld_inflight_bytes d \<and>
   ld_largest_sent_packet d' = ld_largest_sent_packet d \<and> ld_rtt_stats d' = ld_rtt_stats d"
  by (auto simp: delivery_rate_step_def Let_def split: if_splits)

section \<open>The whole acknowledgement handler\<close>

lemma records_of_numbers:
  assumes "ld_wf d"
  shows "map sp_packet_number (records_of (ld_sent_packets d) pns) =
      filter (\<lambda>pn. map_of (ld_sent_packets d) pn \<noteq> None) pns"
proof -
  have "sp_packet_number r = pn" if "map_of (ld_sent_packets d) pn = Some r" for pn r
    using assms map_of_SomeD [OF that] by (auto simp: ld_wf_def)
  then show ?thesis
    by (induction pns) (auto split: option.split)
qed

lemma records_of_set: "r \<in> set (records_of sent pns) \<longleftrightarrow> (\<exists>pn \<in> set pns. map_of sent pn = Some r)"
  by (induction pns) (auto split: option.splits)

text \<open>The phases of an accepted acknowledgement, with the intermediate states named.\<close>

lemma on_ack_received_phases:
  assumes "ld_wf d" and "\<not> l > ld_largest_sent_packet d"
    and "LossDetector_on_ack_received l delay rs n now d = (d', ae, le, smp)"
  obtains d2 where "ld_wf d2" and "ld_wf d'"
    and "ae_bytes_acked ae + inflight_scan d2 = inflight_scan d"
    and "le_bytes_lost le + inflight_scan d' = inflight_scan d2"
    and "ld_sent_packets d2 = fold om_remove (parse_ack_ranges l rs n) (ld_sent_packets d)"
    and "ld_sent_packets d' = fold om_remove (lost_pns l now d2) (ld_sent_packets d2)"
    and "ae_acked_packets ae = records_of (ld_sent_packets d) (parse_ack_ranges l rs n)"
    and "le_lost_packets le = records_of (ld_sent_packets d2) (lost_pns l now d2)"
    and "le_retransmittable le = concat (map sp_retransmittable_frames (le_lost_packets le))"
proof -
  obtain d1 newly bytes sample where a: "ack_phase l delay rs n now d = (d1, newly, bytes, sample)"
    by (metis prod_cases4)
  obtain d2 del where r: "delivery_rate_step now d1 = (d2, del)"
    by fastforce
  obtain d3 lost lbytes retr where b: "loss_phase l now d2 = (d3, lost, lbytes, retr)"
    by (metis prod_cases4)
  note A = ack_phase_result [OF assms(1) a]
  note R = delivery_rate_frame [OF r]
  have wf2: "ld_wf d2" using A R ld_wf_frame by blast
  note B = loss_phase_result [OF wf2 b]
  have "d' = d3" "ae_acked_packets ae = newly" "ae_bytes_acked ae = bytes"
    "le_lost_packets le = lost" "le_bytes_lost le = lbytes" "le_retransmittable le = retr"
    using assms(2,3) a r b by (auto simp: LossDetector_on_ack_received_def)
  then show thesis
    using A R B wf2 by (intro that [of d2]) (auto simp: inflight_scan_def)
qed

lemma records_of_number_set:
  "ld_wf d \<Longrightarrow> sp_packet_number ` set (records_of (ld_sent_packets d) pns) =
      {pn \<in> set pns. map_of (ld_sent_packets d) pn \<noteq> None}"
  using records_of_numbers [of d pns] by (metis set_map set_filter)

lemma lookup_after_removals:
  assumes "ld_wf d"
  shows "map_of (fold om_remove pns (ld_sent_packets d)) =
    map_of (ld_sent_packets d) |` (- sp_packet_number ` set (records_of (ld_sent_packets d) pns))"
proof
  fix pn
  have "map_of (fold om_remove pns (ld_sent_packets d)) pn =
      (if pn \<in> set pns then None else map_of (ld_sent_packets d) pn)"
    using assms by (simp add: om_store.lookup_fold_del ld_wf_def)
  then show "map_of (fold om_remove pns (ld_sent_packets d)) pn =
    (map_of (ld_sent_packets d) |` (- sp_packet_number ` set (records_of (ld_sent_packets d) pns))) pn"
    unfolding records_of_number_set [OF assms] by (auto simp: restrict_map_def)
qed

lemma on_ack_received_partition:
  assumes "ld_wf d" and "LossDetector_on_ack_received l delay rs n now d = (d', ae, le, smp)"
  shows "map_of (ld_sent_packets d') =
      map_of (ld_sent_packets d) |` (- sp_packet_number ` set (ae_acked_packets ae @ le_lost_packets le))"
    and "distinct (map sp_packet_number (ae_acked_packets ae @ le_lost_packets le))"
    and "set (ae_acked_packets ae @ le_lost_packets le) \<subseteq> ran (map_of (ld_sent_packets d))"
proof -
  consider (ignored) "l > ld_largest_sent_packet d" | (taken) "\<not> l > ld_largest_sent_packet d" by blast
  then have "map_of (ld_sent_packets d') =
      map_of (ld_sent_packets d) |` (- sp_packet_number ` set (ae_acked_packets ae @ le_lost_packets le)) \<and>
    distinct (map sp_packet_number (ae_acked_packets ae @ le_lost_packets le)) \<and>
    set (ae_acked_packets ae @ le_lost_packets le) \<subseteq> ran (map_of (ld_sent_packets d))"
  proof cases
    case ignored
    then show ?thesis
      using assms(2) by (auto simp: LossDetector_on_ack_received_def)
  next
    case taken
    obtain d2 where wf: "ld_wf d2" "ld_wf d'"
      and s2: "ld_sent_packets d2 = fold om_remove (parse_ack_ranges l rs n) (ld_sent_packets d)"
      and s': "ld_sent_packets d' = fold om_remove (lost_pns l now d2) (ld_sent_packets d2)"
      and ae: "ae_acked_packets ae = records_of (ld_sent_packets d) (parse_ack_ranges l rs n)"
      and le: "le_lost_packets le = records_of (ld_sent_packets d2) (lost_pns l now d2)"
      by (rule on_ack_received_phases [OF assms(1) taken assms(2)])
    have m2: "map_of (ld_sent_packets d2) =
        map_of (ld_sent_packets d) |` (- sp_packet_number ` set (ae_acked_packets ae))"
      unfolding s2 ae by (rule lookup_after_removals [OF assms(1)])
    have m': "map_of (ld_sent_packets d') =
        map_of (ld_sent_packets d2) |` (- sp_packet_number ` set (le_lost_packets le))"
      unfolding s' le by (rule lookup_after_removals [OF wf(1)])
    have da: "distinct (map sp_packet_number (ae_acked_packets ae))"
      unfolding ae records_of_numbers [OF assms(1)] by (simp add: parse_ack_ranges_distinct)
    have dl: "distinct (map sp_packet_number (le_lost_packets le))"
      unfolding le records_of_numbers [OF wf(1)] by (simp add: lost_pns_props [OF wf(1)])
    have "sp_packet_number ` set (le_lost_packets le) \<subseteq> dom (map_of (ld_sent_packets d2))"
      unfolding le records_of_number_set [OF wf(1)] by auto
    moreover have "dom (map_of (ld_sent_packets d2)) \<subseteq> - sp_packet_number ` set (ae_acked_packets ae)"
      unfolding m2 by auto
    ultimately have disj: "sp_packet_number ` set (ae_acked_packets ae) \<inter>
        sp_packet_number ` set (le_lost_packets le) = {}"
      by blast
    have "set (ae_acked_packets ae) \<subseteq> ran (map_of (ld_sent_packets d))"
      unfolding ae by (auto simp: records_of_set intro: ranI)
    moreover have "set (le_lost_packets le) \<subseteq> ran (map_of (ld_sent_packets d2))"
      unfolding le by (auto simp: records_of_set intro: ranI)
    moreover have "ran (map_of (ld_sent_packets d2)) \<subseteq> ran (map_of (ld_sent_packets d))"
      unfolding m2 by (auto simp: ran_def restrict_map_def split: if_splits)
    ultimately show ?thesis
      using da dl disj m2 m' by (auto simp: fun_eq_iff restrict_map_def)
  qed
  then show "map_of (ld_sent_packets d') =
      map_of (ld_sent_packets d) |` (- sp_packet_number ` set (ae_acked_packets ae @ le_lost_packets le))"
    and "distinct (map sp_packet_number (ae_acked_packets ae @ le_lost_packets le))"
    and "set (ae_acked_packets ae @ le_lost_packets le) \<subseteq> ran (map_of (ld_sent_packets d))"
    by blast+
qed

section \<open>Probe timeout lemmas\<close>

lemma pto_scan_eq:
  "pto_scan sent drained retr =
     (let victims = take (MAX_PTO_RETRANSMIT_BURST - length drained) (filter (\<lambda>(_, r). sp_in_flight r) sent)
      in (drained @ map fst victims, retr @ concat (map (sp_retransmittable_frames \<circ> snd) victims)))"
proof (induction sent drained retr rule: pto_scan.induct)
  case (2 pn r rest drained retr)
  show ?case
  proof (cases "length drained \<ge> MAX_PTO_RETRANSMIT_BURST")
    case False
    then have "MAX_PTO_RETRANSMIT_BURST - length drained =
        Suc (MAX_PTO_RETRANSMIT_BURST - length (drained @ [pn]))"
      by simp
    then show ?thesis
      using 2 False by (simp add: Let_def)
  qed simp
qed simp

lemma drain_fold:
  assumes "om_wf sent" and "distinct (map fst victims)" and "set victims \<subseteq> set sent"
    and "\<forall>(_, r) \<in> set victims. sp_in_flight r"
    and "bytes + om_total flight_weight sent \<le> u64_max"
  shows "\<exists>b. fold drain_one (map fst victims) (sent, bytes) = (fold om_remove (map fst victims) sent, b) \<and>
    b + om_total flight_weight (fold om_remove (map fst victims) sent) =
      bytes + om_total flight_weight sent"
  using assms
proof (induction victims arbitrary: sent bytes)
  case (Cons v victims)
  obtain pn r where v: "v = (pn, r)" by (cases v)
  have look: "map_of sent pn = Some r" and fl: "sp_in_flight r"
    using Cons.prems v by (auto simp: om_wf_lookup)
  have tot: "om_total flight_weight sent = om_total flight_weight (om_remove pn sent) + sp_bytes r"
    using om_store.total_del [OF Cons.prems(1) look, of flight_weight] fl by (simp add: flight_weight_def)
  then have one: "drain_one pn (sent, bytes) = (om_remove pn sent, bytes + sp_bytes r)"
    using look fl Cons.prems(5) by (simp add: drain_one_def sat_add64_def)
  have "set victims \<subseteq> set (om_remove pn sent)"
    using Cons.prems(2,3) v by (force simp: set_om_remove)
  then have "\<exists>b. fold drain_one (map fst victims) (om_remove pn sent, bytes + sp_bytes r) =
      (fold om_remove (map fst victims) (om_remove pn sent), b) \<and>
    b + om_total flight_weight (fold om_remove (map fst victims) (om_remove pn sent)) =
      bytes + sp_bytes r + om_total flight_weight (om_remove pn sent)"
    using Cons.prems tot by (intro Cons.IH) auto
  then show ?case
    using v one tot by (auto simp: add.assoc)
qed simp

lemma on_timeout_result:
  assumes "ld_wf d" and "LossDetector_on_timeout d = (d', le)"
  defines "victims \<equiv> take MAX_PTO_RETRANSMIT_BURST (filter (\<lambda>(_, r). sp_in_flight r) (ld_sent_packets d))"
  shows "ld_wf d'" and "le_bytes_lost le + inflight_scan d' = inflight_scan d"
    and "ld_sent_packets d' = fold om_remove (map fst victims) (ld_sent_packets d)"
    and "le_retransmittable le = concat (map (sp_retransmittable_frames \<circ> snd) victims)"
    and "le_lost_packets le = []"
proof -
  have wf: "om_wf (ld_sent_packets d)" and cap: "om_total flight_weight (ld_sent_packets d) \<le> u64_max"
    using assms(1) by (auto simp: ld_wf_def inflight_scan_def)
  have sub: "set victims \<subseteq> set (ld_sent_packets d)" and fl: "\<forall>(_, r) \<in> set victims. sp_in_flight r"
    unfolding victims_def by (auto dest: in_set_takeD)
  have dist: "distinct (map fst victims)"
    unfolding victims_def take_map [symmetric]
    by (intro distinct_take om_wf_distinct om_wf_filter wf)
  obtain b where b: "fold drain_one (map fst victims) (ld_sent_packets d, 0) =
      (fold om_remove (map fst victims) (ld_sent_packets d), b)"
    and tot: "b + om_total flight_weight (fold om_remove (map fst victims) (ld_sent_packets d)) =
      om_total flight_weight (ld_sent_packets d)"
    using drain_fold [OF wf dist sub fl, of 0] cap by auto
  have eq: "d' = d\<lparr> ld_pto_count := min u32_max (ld_pto_count d + 1),
        ld_sent_packets := fold om_remove (map fst victims) (ld_sent_packets d),
        ld_inflight_bytes := ld_inflight_bytes d - b \<rparr>"
    "le = \<lparr> le_lost_packets = [], le_bytes_lost = b,
        le_retransmittable = concat (map (sp_retransmittable_frames \<circ> snd) victims) \<rparr>"
    using assms(2) b by (simp_all add: LossDetector_on_timeout_def pto_scan_eq victims_def Let_def sat_sub_def)
  then show "ld_sent_packets d' = fold om_remove (map fst victims) (ld_sent_packets d)"
    "le_bytes_lost le + inflight_scan d' = inflight_scan d" "le_lost_packets le = []"
    "le_retransmittable le = concat (map (sp_retransmittable_frames \<circ> snd) victims)"
    using tot by (simp_all add: inflight_scan_def)
  have "set (fold om_remove ks xs) \<subseteq> set xs" for ks :: "nat list" and xs :: "(nat \<times> sent_packet_record) list"
    by (induction ks arbitrary: xs) (fastforce simp: set_om_remove)+
  then show "ld_wf d'"
    using assms(1) tot eq om_store.wf_fold_del [OF wf]
    by (fastforce simp: ld_wf_def inflight_scan_def)
qed

section \<open>Path migration and stale samples\<close>

lemma ack_one_stale:
  assumes "l < ld_rtt_sample_floor d" and "ack_one l delay now pn (d, newly, bytes, sample) = (d', newly', bytes', sample')"
  shows "ld_rtt_stats d' = ld_rtt_stats d \<and> sample' = sample \<and> ld_rtt_sample_floor d' = ld_rtt_sample_floor d"
  using assms by (auto simp: ack_one_def Let_def split: option.splits if_splits)

lemma ack_fold_stale:
  "l < ld_rtt_sample_floor d \<Longrightarrow>
   fold (ack_one l delay now) pns (d, newly, bytes, sample) = (d', newly', bytes', sample') \<Longrightarrow>
   ld_rtt_stats d' = ld_rtt_stats d \<and> sample' = sample"
proof (induction pns arbitrary: d newly bytes sample)
  case (Cons pn pns)
  obtain d1 newly1 bytes1 sample1
    where one: "ack_one l delay now pn (d, newly, bytes, sample) = (d1, newly1, bytes1, sample1)"
    by (metis prod_cases4)
  then show ?case
    using Cons.IH [of d1 newly1 bytes1 sample1] Cons.prems ack_one_stale [OF Cons.prems(1) one] by simp
qed simp

lemma lose_fold_rtt: "ld_rtt_stats (fst (fold lose_one pns st)) = ld_rtt_stats (fst st)"
proof (induction pns arbitrary: st)
  case (Cons pn pns)
  have "ld_rtt_stats (fst (lose_one pn st)) = ld_rtt_stats (fst st)"
    by (auto simp: lose_one_def Let_def split: prod.split option.split)
  then show ?case using Cons.IH by simp
qed simp

section \<open>Properties\<close>

text \<open>A detector with two outstanding packets, for the concrete instances below.\<close>

definition sample_packet :: "nat \<Rightarrow> monotonic_time \<Rightarrow> sent_packet_record" where
  "sample_packet pn t = \<lparr> sp_packet_number = pn, sp_send_time = t, sp_bytes = 1200,
     sp_ack_eliciting = True, sp_in_flight = True, sp_retransmittable_frames = [] \<rparr>"

definition sample_detector :: loss_detector where
  "sample_detector = LossDetector_on_packet_sent (sample_packet 2 900000)
     (LossDetector_on_packet_sent (sample_packet 1 5) LossDetector_default)"

lemma sample_detector_wf: "ld_wf sample_detector"
proof -
  let ?d = "LossDetector_on_packet_sent (sample_packet 1 5) LossDetector_default"
  have "ld_wf ?d"
    by (rule ld_wf_sent [OF ld_wf_default])
       (simp_all add: LossDetector_default_def inflight_scan_def sample_packet_def u64_max_def)
  then show ?thesis
    unfolding sample_detector_def
    by (rule ld_wf_sent)
       (simp_all add: LossDetector_default_def inflight_scan_def sample_packet_def u64_max_def
         on_packet_sent_sent flight_weight_def)
qed

text \<open>
  C12: acknowledgement processing conserves packets and bytes. From a consistent detector, an ACK
  frame with arbitrary contents leaves a consistent detector (the running in-flight counter equals
  the scan that the debug assertion computes); every outstanding packet is afterwards in exactly
  one of three places (still outstanding, acknowledged, declared lost); and the in-flight bytes
  before are the in-flight bytes after plus the bytes reported acknowledged plus the bytes reported
  lost.
\<close>

theorem ack_processing_conserves:
  assumes "ld_wf d" and "LossDetector_on_ack_received l delay rs n now d = (d', ae, le, smp)"
  shows "ld_wf d' \<and>
    map_of (ld_sent_packets d') =
      map_of (ld_sent_packets d) |` (- sp_packet_number ` set (ae_acked_packets ae @ le_lost_packets le)) \<and>
    distinct (map sp_packet_number (ae_acked_packets ae @ le_lost_packets le)) \<and>
    set (ae_acked_packets ae @ le_lost_packets le) \<subseteq> ran (map_of (ld_sent_packets d)) \<and>
    ld_inflight_bytes d = ld_inflight_bytes d' + ae_bytes_acked ae + le_bytes_lost le"
proof -
  have "ld_wf d' \<and> inflight_scan d = inflight_scan d' + ae_bytes_acked ae + le_bytes_lost le"
  proof (cases "l > ld_largest_sent_packet d")
    case True
    then show ?thesis using assms by (auto simp: LossDetector_on_ack_received_def)
  next
    case False
    show ?thesis by (rule on_ack_received_phases [OF assms(1) False assms(2)]) linarith
  qed
  then show ?thesis
    using on_ack_received_partition [OF assms] assms(1) by (simp add: ld_wf_def)
qed

theorem ack_processing_conserves_witness:
  "\<exists>d' ae le smp. LossDetector_on_ack_received 2 0 [\<lparr>ar_gap = 0, ar_length = 0\<rparr>] 1 1000000 sample_detector =
      (d', ae, le, smp) \<and> ld_wf d' \<and> ld_inflight_bytes d' + ae_bytes_acked ae + le_bytes_lost le = 2400"
proof -
  obtain d' ae le smp where r:
    "LossDetector_on_ack_received 2 0 [\<lparr>ar_gap = 0, ar_length = 0\<rparr>] 1 1000000 sample_detector = (d', ae, le, smp)"
    by (metis prod_cases4)
  have "ld_inflight_bytes sample_detector = 2400"
    by (simp add: sample_detector_def on_packet_sent_sent sample_packet_def LossDetector_default_def
        sat_add64_def u64_max_def)
  then show ?thesis
    using ack_processing_conserves [OF sample_detector_wf r] r by auto
qed

text \<open>
  A peer cannot acknowledge what was never sent. An ACK frame whose largest packet number is
  above the largest number sent leaves the detector untouched and reports nothing; and whatever the
  ranges say, the parsed packet numbers are distinct, at most the frame's largest, and at most
  16384 of them.
\<close>

theorem optimistic_ack_rejected:
  "(l > ld_largest_sent_packet d \<longrightarrow>
     (\<exists>ae le. LossDetector_on_ack_received l delay rs n now d = (d, ae, le, None) \<and>
        ae_acked_packets ae = [] \<and> ae_bytes_acked ae = 0 \<and> ae_rtt_sample ae = None \<and>
        le_lost_packets le = [] \<and> le_bytes_lost le = 0 \<and> le_retransmittable le = [])) \<and>
   distinct (parse_ack_ranges l rs n) \<and> (\<forall>p \<in> set (parse_ack_ranges l rs n). p \<le> l) \<and>
   length (parse_ack_ranges l rs n) \<le> MAX_ACKED_PER_FRAME"
  by (auto simp: LossDetector_on_ack_received_def parse_ack_ranges_distinct parse_ack_ranges_length
      parse_ack_ranges_le)

theorem optimistic_ack_rejected_witness:
  "\<exists>ae le. LossDetector_on_ack_received 5 0 [\<lparr>ar_gap = 0, ar_length = 5\<rparr>] 1 10 LossDetector_default =
     (LossDetector_default, ae, le, None) \<and> ae_acked_packets ae = []"
  using optimistic_ack_rejected [of LossDetector_default 5 0 "[\<lparr>ar_gap = 0, ar_length = 5\<rparr>]" 1 10]
  by (auto simp: LossDetector_default_def)

text \<open>
  Loss is declared only for what may be lost. Every packet an ACK declares lost was outstanding,
  in flight and ack-eliciting, its number is not above the acknowledged one, and it is either at
  least three packet numbers behind or at least the time threshold old; the frames handed back for
  retransmission are exactly those of the lost packets.
\<close>

theorem loss_declared_only_for_cause:
  assumes "ld_wf d" and "LossDetector_on_ack_received l delay rs n now d = (d', ae, le, smp)"
    and "r \<in> set (le_lost_packets le)" and "l + PACKET_THRESHOLD < u64_modulus"
  shows "r \<in> ran (map_of (ld_sent_packets d)) \<and> sp_in_flight r \<and> sp_ack_eliciting r \<and>
    sp_packet_number r \<le> l \<and> sp_packet_number r \<notin> set (parse_ack_ranges l rs n) \<and>
    (sp_packet_number r + PACKET_THRESHOLD \<le> l \<or>
     time_threshold d' \<le> duration_since now (sp_send_time r)) \<and>
    le_retransmittable le = concat (map sp_retransmittable_frames (le_lost_packets le))"
proof -
  have taken: "\<not> l > ld_largest_sent_packet d"
    using assms(2,3) by (auto simp: LossDetector_on_ack_received_def)
  obtain d1 newly bytes sample where a: "ack_phase l delay rs n now d = (d1, newly, bytes, sample)"
    by (metis prod_cases4)
  obtain d2 del where dr: "delivery_rate_step now d1 = (d2, del)" by fastforce
  obtain d3 lost lbytes retr where b: "loss_phase l now d2 = (d3, lost, lbytes, retr)"
    by (metis prod_cases4)
  have eqs: "d' = d3" "le_lost_packets le = lost" "le_retransmittable le = retr"
    using assms(2) taken a dr b by (auto simp: LossDetector_on_ack_received_def)
  note A = ack_phase_result [OF assms(1) a] and R = delivery_rate_frame [OF dr]
  have wf2: "ld_wf d2" using A R ld_wf_frame by blast
  note B = loss_phase_result [OF wf2 b]
  obtain pn where pn: "pn \<in> set (lost_pns l now d2)" "map_of (ld_sent_packets d2) pn = Some r"
    using assms(3) B eqs by (auto simp: records_of_set)
  have num: "sp_packet_number r = pn"
    using wf2 map_of_SomeD [OF pn(2)] by (auto simp: ld_wf_def)
  have "is_lost l now (time_threshold d2) pn r"
    using pn lost_pns_props(2) [OF wf2] by auto
  moreover have "time_threshold d3 = time_threshold d2"
    using lose_fold_rtt [of "lost_pns l now d2" "(d2, [], 0, [])"] b
    by (simp add: loss_phase_def time_threshold_def)
  moreover have "pn \<notin> set (parse_ack_ranges l rs n)"
    using pn(2) A R assms(1) by (auto simp: om_store.lookup_fold_del ld_wf_def split: if_splits)
  moreover have "pn \<le> l \<Longrightarrow> wadd64 pn PACKET_THRESHOLD = pn + PACKET_THRESHOLD"
    using assms(4) by simp
  ultimately show ?thesis
    using num eqs B on_ack_received_partition(3) [OF assms(1,2)] assms(3)
    by (auto simp: is_lost_def split: if_splits)
qed

theorem loss_declared_only_for_cause_witness:
  "\<exists>d' ae le smp. LossDetector_on_ack_received 2 0 [\<lparr>ar_gap = 0, ar_length = 0\<rparr>] 1 1000000 sample_detector =
      (d', ae, le, smp) \<and> le_lost_packets le = [sample_packet 1 5] \<and>
      time_threshold d' \<le> duration_since 1000000 (sp_send_time (sample_packet 1 5))"
proof -
  obtain d' ae le smp where r:
    "LossDetector_on_ack_received 2 0 [\<lparr>ar_gap = 0, ar_length = 0\<rparr>] 1 1000000 sample_detector = (d', ae, le, smp)"
    by (metis prod_cases4)
  then have lost: "le_lost_packets le = [sample_packet 1 5]"
    by (auto simp: LossDetector_on_ack_received_def sample_detector_def sample_packet_def
        LossDetector_on_packet_sent_def LossDetector_default_def ack_phase_def loss_phase_def
        parse_ack_ranges_def MAX_ACKED_PER_FRAME_def ack_one_def om_remove_def duration_since_def sat_sub_def
        RttStats_update_def RttStats_default_def adjusted_rtt_def delivery_rate_step_def MonotonicTime_ZERO_def
        lost_pns_def is_lost_def PACKET_THRESHOLD_def time_threshold_def TIME_THRESHOLD_FACTOR_NUM_def
        TIME_THRESHOLD_FACTOR_DEN_def wmul64_def wadd64_def u64_modulus_def lose_one_def Let_def)
  have cap: "(2 :: nat) + PACKET_THRESHOLD < u64_modulus"
    by (simp add: PACKET_THRESHOLD_def u64_modulus_def)
  have mem: "sample_packet 1 5 \<in> set (le_lost_packets le)" using lost by simp
  show ?thesis
    using loss_declared_only_for_cause [OF sample_detector_wf r mem cap] r lost
    by (auto simp: sample_packet_def PACKET_THRESHOLD_def)
qed

text \<open>
  A probe timeout drains a bounded burst and keeps the books. At most two packets leave the
  outstanding table, they are the oldest in flight, no packet is declared lost, the bytes reported
  are exactly what the in-flight counter sheds, and the detector stays consistent.
\<close>

theorem pto_drains_bounded_burst:
  assumes "ld_wf d" and "LossDetector_on_timeout d = (d', le)"
  defines "victims \<equiv> take 2 (filter (\<lambda>(_, r). sp_in_flight r) (ld_sent_packets d))"
  shows "ld_wf d' \<and> le_lost_packets le = [] \<and>
    ld_inflight_bytes d = ld_inflight_bytes d' + le_bytes_lost le \<and>
    map_of (ld_sent_packets d') = map_of (ld_sent_packets d) |` (- set (map fst victims)) \<and>
    le_retransmittable le = concat (map (sp_retransmittable_frames \<circ> snd) victims)"
proof -
  note t = on_timeout_result [OF assms(1,2)]
  have "map_of (ld_sent_packets d') = map_of (ld_sent_packets d) |` (- set (map fst victims))"
    using t(3) assms(1) unfolding victims_def MAX_PTO_RETRANSMIT_BURST_def
    by (auto simp: fun_eq_iff restrict_map_def om_store.lookup_fold_del ld_wf_def)
  then show ?thesis
    using t assms(1) unfolding victims_def by (simp add: ld_wf_def MAX_PTO_RETRANSMIT_BURST_def)
qed

theorem pto_drains_bounded_burst_witness:
  "\<exists>d' le. LossDetector_on_timeout sample_detector = (d', le) \<and> ld_wf d' \<and> le_lost_packets le = [] \<and>
     ld_inflight_bytes sample_detector = ld_inflight_bytes d' + le_bytes_lost le"
proof -
  obtain d' le where r: "LossDetector_on_timeout sample_detector = (d', le)"
    by fastforce
  show ?thesis
    using pto_drains_bounded_burst [OF sample_detector_wf r] r by blast
qed

text \<open>
  Acknowledgements of the old path never seed the new path's estimator. After a path migration,
  an ACK whose largest packet number was sent before the migration leaves the freshly reset RTT
  estimator untouched and reports no RTT sample.
\<close>

theorem stale_ack_never_seeds_rtt:
  assumes "l < first_pn"
    and "LossDetector_on_ack_received l delay rs n now (on_path_migration first_pn d) = (d', ae, le, smp)"
  shows "ld_rtt_stats d' = reset_for_new_path (ld_rtt_stats d) \<and> ae_rtt_sample ae = None"
proof -
  let ?d = "on_path_migration first_pn d"
  have floor: "l < ld_rtt_sample_floor ?d" and stats: "ld_rtt_stats ?d = reset_for_new_path (ld_rtt_stats d)"
    using assms(1) by (simp_all add: on_path_migration_def)
  show ?thesis
  proof (cases "l > ld_largest_sent_packet ?d")
    case True
    then show ?thesis using assms(2) stats by (auto simp: LossDetector_on_ack_received_def)
  next
    case False
    obtain d1 newly bytes sample where f:
      "fold (ack_one l (unat delay) now) (parse_ack_ranges l rs n) (?d, [], 0, None) = (d1, newly, bytes, sample)"
      by (metis prod_cases4)
    obtain d2 where a: "ack_phase l delay rs n now ?d = (d2, newly, bytes, sample)"
      and r2: "ld_rtt_stats d2 = ld_rtt_stats d1"
      by (auto simp: ack_phase_def f Let_def split: option.split)
    obtain d3 del where dr: "delivery_rate_step now d2 = (d3, del)" by fastforce
    obtain d4 lost lbytes retr where b: "loss_phase l now d3 = (d4, lost, lbytes, retr)"
      by (metis prod_cases4)
    have "d' = d4" "ae_rtt_sample ae = sample"
      using assms(2) False a dr b by (auto simp: LossDetector_on_ack_received_def)
    moreover have "ld_rtt_stats d4 = ld_rtt_stats d3"
      using lose_fold_rtt [of "lost_pns l now d3" "(d3, [], 0, [])"] b by (simp add: loss_phase_def)
    ultimately show ?thesis
      using ack_fold_stale [OF floor f] stats r2 delivery_rate_frame [OF dr] by simp
  qed
qed

theorem stale_ack_never_seeds_rtt_witness:
  "\<exists>d' ae le smp. LossDetector_on_ack_received 2 0 [\<lparr>ar_gap = 0, ar_length = 0\<rparr>] 1 1000000
      (on_path_migration 3 sample_detector) = (d', ae, le, smp) \<and> ae_rtt_sample ae = None"
proof -
  obtain d' ae le smp where r:
    "LossDetector_on_ack_received 2 0 [\<lparr>ar_gap = 0, ar_length = 0\<rparr>] 1 1000000
      (on_path_migration 3 sample_detector) = (d', ae, le, smp)"
    by (metis prod_cases4)
  show ?thesis
    using stale_ack_never_seeds_rtt [OF _ r] r by simp
qed

end
