(* ===== verification/Congestion.thy ===== *)
theory Congestion
  imports F64 Loss_Detector
begin

text \<open>
  The crate \<^verbatim>\<open>gtp-cc\<close>: the CUBIC controller, the token-bucket pacer and the backpressure signal.
  Floating point is that of the theory \<open>F64\<close>; decimal literals are rounded to doubles where they
  are written. The cube root is a function of the C library whose last bit is not specified, so it
  is the parameter \<open>cbrt\<close>. Configuration values are finite.
\<close>

section \<open>CUBIC state\<close>

definition DEFAULT_SMSS :: nat where
  "DEFAULT_SMSS = 1200"

definition INITIAL_CWND_PACKETS :: nat where
  "INITIAL_CWND_PACKETS = 10"

definition MIN_CWND_PACKETS :: nat where
  "MIN_CWND_PACKETS = 2"

definition BETA_CUBIC :: rat where
  "BETA_CUBIC = f64_round (7 / 10)"

definition C_CUBIC :: rat where
  "C_CUBIC = f64_round (4 / 10)"

record cubic =
  cu_smss :: nat
  cu_initial_cwnd :: nat
  cu_min_cwnd_bytes :: nat
  cu_beta :: rat
  cu_c_const :: rat
  cu_pacing_gain :: rat
  cu_cwnd :: nat
  cu_ssthresh :: nat
  cu_w_max :: nat
  cu_w_last_max :: nat
  cu_k :: rat
  cu_epoch_start :: "monotonic_time option"
  cu_origin_point :: nat
  cu_smoothed_rtt :: duration
  cu_last_loss_time :: "monotonic_time option"

record cubic_config =
  cf_smss :: nat
  cf_initial_cwnd_packets :: nat
  cf_min_cwnd_packets :: nat
  cf_beta :: rat
  cf_c :: rat
  cf_pacing_gain :: rat

definition CubicConfig_default :: cubic_config where
  "CubicConfig_default = \<lparr> cf_smss = DEFAULT_SMSS, cf_initial_cwnd_packets = INITIAL_CWND_PACKETS,
     cf_min_cwnd_packets = MIN_CWND_PACKETS, cf_beta = BETA_CUBIC, cf_c = C_CUBIC, cf_pacing_gain = f64_round (12 / 10) \<rparr>"

definition clamp :: "rat \<Rightarrow> rat \<Rightarrow> rat \<Rightarrow> rat" where
  "clamp lo hi x = (if x < lo then lo else if x > hi then hi else x)"

definition Cubic_with_config :: "cubic_config \<Rightarrow> cubic" where
  "Cubic_with_config cfg =
     (let initial = wmul64 (max (cf_initial_cwnd_packets cfg) 1) (max (cf_smss cfg) 1)
      in \<lparr> cu_smss = max (cf_smss cfg) 1, cu_initial_cwnd = initial,
           cu_min_cwnd_bytes = wmul64 (max (cf_min_cwnd_packets cfg) 1) (max (cf_smss cfg) 1),
           cu_beta = clamp (1 / 2) (f64_round (95 / 100)) (cf_beta cfg),
           cu_c_const = max (cf_c cfg) (f64_round (5 / 100)), cu_pacing_gain = max (cf_pacing_gain cfg) 1,
           cu_cwnd = initial, cu_ssthresh = u64_max, cu_w_max = initial, cu_w_last_max = initial, cu_k = 0,
           cu_epoch_start = None, cu_origin_point = initial, cu_smoothed_rtt = Duration_from_millis 50,
           cu_last_loss_time = None \<rparr>)"

definition Cubic_new :: "nat \<Rightarrow> cubic" where
  "Cubic_new smss = Cubic_with_config (CubicConfig_default\<lparr> cf_smss := smss \<rparr>)"

definition Cubic_default :: cubic where
  "Cubic_default = Cubic_new DEFAULT_SMSS"

section \<open>CUBIC operations\<close>

definition min_cwnd :: "cubic \<Rightarrow> nat" where
  "min_cwnd c = cu_min_cwnd_bytes c"

text \<open>The window the cubic and TCP-friendly curves prescribe \<open>t\<close> seconds into the epoch.\<close>

definition w_target :: "rat \<Rightarrow> cubic \<Rightarrow> nat" where
  "w_target t c =
     (let target_diff = fsub t (cu_k c);
          w_cubic = fadd (fmul (fmul (cu_c_const c) (fmul (fmul target_diff target_diff) target_diff)) (of_u64 (cu_smss c)))
                      (of_u64 (cu_origin_point c));
          rtt_secs = max (as_secs_f64 (cu_smoothed_rtt c)) (f64_round (1 / 1000));
          beta = cu_beta c;
          tcp_factor = fdiv (fmul 3 (fsub 1 beta)) (fadd 1 beta);
          w_tcp = fadd (fmul (of_u64 (cu_w_max c)) beta) (fmul (fmul tcp_factor (fdiv t rtt_secs)) (of_u64 (cu_smss c)));
          w = (if w_tcp > w_cubic then w_tcp else w_cubic)
      in to_u64 (max w (of_u64 (min_cwnd c))))"

definition update_w_cubic :: "monotonic_time \<Rightarrow> cubic \<Rightarrow> cubic" where
  "update_w_cubic now c =
     (let (epoch_start, c1) = (case cu_epoch_start c of
            Some t \<Rightarrow> (t, c) | None \<Rightarrow> (now, c\<lparr> cu_epoch_start := Some now \<rparr>));
          w_cubic_clamped = w_target (as_secs_f64 (duration_since now epoch_start)) c1
      in if cu_cwnd c1 < cu_ssthresh c1 then c1\<lparr> cu_cwnd := sat_add64 (cu_cwnd c1) (cu_smss c1) \<rparr>
         else c1\<lparr> cu_cwnd := max (cu_cwnd c1) w_cubic_clamped \<rparr>)"

text \<open>The window after a multiplicative decrease.\<close>

definition decreased :: "cubic \<Rightarrow> nat" where
  "decreased c = max (to_u64 (fmul (of_u64 (cu_cwnd c)) (cu_beta c))) (min_cwnd c)"

definition on_congestion_event :: "(rat \<Rightarrow> rat) \<Rightarrow> monotonic_time \<Rightarrow> cubic \<Rightarrow> cubic" where
  "on_congestion_event cbrt now c =
     (if (case cu_last_loss_time c of Some last_loss \<Rightarrow> duration_since now last_loss < cu_smoothed_rtt c | None \<Rightarrow> False)
      then c
      else
        let c1 = c\<lparr> cu_last_loss_time := Some now \<rparr>;
            c2 = (if cu_cwnd c1 < cu_w_last_max c1
                  then c1\<lparr> cu_w_last_max := cu_cwnd c1,
                           cu_w_max := max (to_u64 (fdiv (fmul (of_u64 (cu_cwnd c1)) (fadd 1 (cu_beta c1))) 2)) (min_cwnd c1) \<rparr>
                  else c1\<lparr> cu_w_last_max := cu_cwnd c1, cu_w_max := cu_cwnd c1 \<rparr>);
            c3 = c2\<lparr> cu_ssthresh := decreased c2 \<rparr>;
            c4 = c3\<lparr> cu_cwnd := cu_ssthresh c3, cu_origin_point := cu_w_max c3 \<rparr>;
            w_diff = fdiv (fmul (of_u64 (cu_w_max c4)) (fsub 1 (cu_beta c4))) (fmul (cu_c_const c4) (of_u64 (cu_smss c4)))
        in c4\<lparr> cu_k := (if w_diff > 0 then cbrt w_diff else 0), cu_epoch_start := Some now \<rparr>)"

definition Cubic_on_ack :: "ack_event \<Rightarrow> monotonic_time \<Rightarrow> cubic \<Rightarrow> cubic" where
  "Cubic_on_ack ev now c = (if ae_bytes_acked ev > 0 then update_w_cubic now c else c)"

definition Cubic_on_loss :: "(rat \<Rightarrow> rat) \<Rightarrow> loss_event \<Rightarrow> monotonic_time \<Rightarrow> cubic \<Rightarrow> cubic" where
  "Cubic_on_loss cbrt ev now c = (if le_lost_packets ev \<noteq> [] then on_congestion_event cbrt now c else c)"

definition Cubic_on_ecn :: "(rat \<Rightarrow> rat) \<Rightarrow> nat \<Rightarrow> monotonic_time \<Rightarrow> cubic \<Rightarrow> cubic" where
  "Cubic_on_ecn cbrt ces now c = (if ces > 0 then on_congestion_event cbrt now c else c)"

definition Cubic_on_rtt :: "duration \<Rightarrow> cubic \<Rightarrow> cubic" where
  "Cubic_on_rtt srtt c = c\<lparr> cu_smoothed_rtt := srtt \<rparr>"

definition Cubic_on_timeout :: "monotonic_time \<Rightarrow> cubic \<Rightarrow> cubic" where
  "Cubic_on_timeout now c =
     (let c1 = c\<lparr> cu_ssthresh := decreased c \<rparr>;
          c2 = c1\<lparr> cu_cwnd := min_cwnd c1, cu_w_max := cu_ssthresh c1, cu_w_last_max := cu_ssthresh c1 \<rparr>
      in c2\<lparr> cu_origin_point := cu_w_max c2, cu_k := 0, cu_epoch_start := Some now \<rparr>)"

definition pacing_rate :: "cubic \<Rightarrow> nat" where
  "pacing_rate c =
     (let rtt_secs = max (as_secs_f64 (cu_smoothed_rtt c)) (f64_round (1 / 1000));
          base_rate = fmul (fdiv (of_u64 (cu_cwnd c)) rtt_secs) (cu_pacing_gain c)
      in to_u64 (max base_rate 10000))"

section \<open>Pacing\<close>

record pacing_engine =
  pe_tokens_bytes :: nat
  pe_last_update_time :: monotonic_time
  pe_max_burst_bytes :: nat
  pe_fractional_remainder :: rat

definition PacingEngine_new :: "nat \<Rightarrow> pacing_engine" where
  "PacingEngine_new burst = \<lparr> pe_tokens_bytes = burst, pe_last_update_time = MonotonicTime_ZERO,
     pe_max_burst_bytes = burst, pe_fractional_remainder = 0 \<rparr>"

definition PacingEngine_default :: pacing_engine where
  "PacingEngine_default = PacingEngine_new 12000"

definition update_tokens :: "nat \<Rightarrow> monotonic_time \<Rightarrow> pacing_engine \<Rightarrow> pacing_engine" where
  "update_tokens rate now p =
     (if pe_last_update_time p = MonotonicTime_ZERO then
        p\<lparr> pe_last_update_time := now, pe_tokens_bytes := pe_max_burst_bytes p \<rparr>
      else
        let elapsed = duration_since now (pe_last_update_time p)
        in if elapsed > 0 then
             let exact = fadd (fmul (of_u64 rate) (as_secs_f64 elapsed)) (pe_fractional_remainder p);
                 added = to_u64 (of_int \<lfloor>exact\<rfloor>)
             in p\<lparr> pe_fractional_remainder := fsub exact (of_int \<lfloor>exact\<rfloor>),
                   pe_tokens_bytes := min (wadd64 (pe_tokens_bytes p) added) (pe_max_burst_bytes p),
                   pe_last_update_time := now \<rparr>
           else p)"

definition PacingEngine_can_send :: "nat \<Rightarrow> nat \<Rightarrow> nat \<Rightarrow> pacing_engine \<Rightarrow> bool" where
  "PacingEngine_can_send bytes cwnd inflight p \<longleftrightarrow>
     wadd64 inflight bytes \<le> cwnd \<and> bytes \<le> pe_tokens_bytes p"

definition consume :: "nat \<Rightarrow> pacing_engine \<Rightarrow> pacing_engine" where
  "consume bytes p = p\<lparr> pe_tokens_bytes := sat_sub (pe_tokens_bytes p) bytes \<rparr>"

definition send_budget :: "nat \<Rightarrow> nat \<Rightarrow> pacing_engine \<Rightarrow> nat" where
  "send_budget cwnd inflight p = min (sat_sub cwnd inflight) (pe_tokens_bytes p)"

section \<open>Backpressure\<close>

datatype backpressure_level = Low | Medium | High | Critical

fun level_rank :: "backpressure_level \<Rightarrow> nat" where
  "level_rank Low = 0"
| "level_rank Medium = 1"
| "level_rank High = 2"
| "level_rank Critical = 3"

definition calculate_backpressure :: "nat \<Rightarrow> nat \<Rightarrow> duration \<Rightarrow> duration option \<Rightarrow> backpressure_level" where
  "calculate_backpressure queued cwnd current_rtt floor_rtt =
     (let rtt_inflation = (case floor_rtt of
            Some m \<Rightarrow> if m > 0 then fdiv (of_u64 current_rtt) (of_u64 m) else 1
          | None \<Rightarrow> 1);
          queue_ratio = fdiv (of_u64 queued) (of_u64 (max cwnd 1200))
      in if queue_ratio > 3 \<or> rtt_inflation > f64_round (25 / 10) then Critical
         else if queue_ratio > f64_round (15 / 10) \<or> rtt_inflation > f64_round (18 / 10) then High
         else if queue_ratio > f64_round (8 / 10) \<or> rtt_inflation > f64_round (13 / 10) then Medium
         else Low)"

section \<open>The controller's invariant\<close>

text \<open>
  What every operation keeps: a positive segment size, a decrease factor between one half and 0.95,
  and a window between the configured minimum and the largest machine integer.
\<close>

definition cc_wf :: "cubic \<Rightarrow> bool" where
  "cc_wf c \<longleftrightarrow> 1 / 2 \<le> cu_beta c \<and> cu_beta c \<le> f64_round (95 / 100) \<and> 1 \<le> cu_smss c \<and>
     min_cwnd c \<le> cu_cwnd c \<and> cu_cwnd c \<le> u64_max \<and> 1 \<le> cu_pacing_gain c"

lemma lit_95: "f64_round (95 / 100) \<le> 96 / 100"
proof -
  have "f64_round (95 / 100) \<le> 95 / 100 * (1 + 1 / 2 ^ 53)" by (rule f64_round_upper) simp
  also have "\<dots> \<le> 96 / 100" by simp
  finally show ?thesis .
qed

lemma half_le_lit_95: "1 / 2 \<le> f64_round (95 / 100)"
proof -
  have "representable (1 / 2)"
    unfolding representable_def by (intro exI [of _ 1] exI [of _ "-1"]) (simp add: pow2_def)
  then show ?thesis by (intro ieee.rnd_ge) simp_all
qed

text \<open>A decrease never leaves a larger window, at any window size.\<close>

lemma two_roundings: "x * (1 + 1 / 2 ^ 53) * (96 / 100) * (1 + 1 / 2 ^ 53) \<le> x" if "0 \<le> x" for x :: rat
proof -
  have "(1 + 1 / 2 ^ 53) * (96 / 100) * (1 + 1 / 2 ^ 53) \<le> (1 :: rat)" by simp
  then have "x * ((1 + 1 / 2 ^ 53) * (96 / 100) * (1 + 1 / 2 ^ 53)) \<le> x * 1"
    using that by (rule mult_left_mono)
  then show ?thesis by (simp only: mult.assoc mult_1_right)
qed

lemma beta_product_le:
  assumes "0 \<le> b" and "b \<le> f64_round (95 / 100)"
  shows "to_u64 (fmul (of_u64 n) b) \<le> n"
proof (rule to_u64_le)
  have "b \<le> 96 / 100" using assms(2) lit_95 by linarith
  then have "of_u64 n * b \<le> (of_nat n * (1 + 1 / 2 ^ 53)) * (96 / 100)"
    using assms(1) of_u64_upper [of n] by (intro mult_mono) simp_all
  then have "(of_u64 n * b) * (1 + 1 / 2 ^ 53) \<le> (of_nat n * (1 + 1 / 2 ^ 53)) * (96 / 100) * (1 + 1 / 2 ^ 53)"
    by (intro mult_right_mono) simp_all
  moreover have "f64_round (of_u64 n * b) \<le> (of_u64 n * b) * (1 + 1 / 2 ^ 53)"
    using assms(1) by (intro f64_round_upper) simp
  ultimately have "f64_round (of_u64 n * b) \<le> (of_nat n * (1 + 1 / 2 ^ 53)) * (96 / 100) * (1 + 1 / 2 ^ 53)"
    by (rule order_trans [rotated])
  also have "\<dots> \<le> of_nat n" by (rule two_roundings) simp
  finally show "fmul (of_u64 n) b \<le> of_nat n" by (simp add: fmul_def)
qed

text \<open>A decrease takes at most half of the window (up to integer truncation).\<close>

lemma beta_product_ge:
  assumes "1 / 2 \<le> b" and "n \<le> 2 ^ 53"
  shows "n div 2 \<le> to_u64 (fmul (of_u64 n) b)"
proof (rule to_u64_ge)
  have rep: "representable (of_nat n / 2)"
    unfolding representable_def using assms(2)
    by (intro exI [of _ "int n"] exI [of _ "-1"]) (simp add: pow2_def)
  have "of_nat (n div 2) \<le> (of_nat n / 2 :: rat)"
    by (metis of_nat_numeral of_nat_div_le_of_nat)
  also have "\<dots> \<le> f64_round (of_nat n * b)"
  proof (rule ieee.rnd_ge [OF _ rep])
    have "of_nat n * (1 / 2) \<le> of_nat n * b" using assms(1) by (rule mult_left_mono) simp
    then show "of_nat n / 2 \<le> of_nat n * b" by simp
  qed
  finally show "of_nat (n div 2) \<le> fmul (of_u64 n) b" using assms(2) by (simp add: fmul_def of_u64_exact)
  show "n div 2 \<le> u64_max" using assms(2) by (simp add: u64_max_def)
qed

lemma decreased_bounds:
  assumes "cc_wf c"
  shows "min_cwnd c \<le> decreased c" and "decreased c \<le> cu_cwnd c" and "cu_cwnd c \<le> 2 ^ 53 \<Longrightarrow> cu_cwnd c div 2 \<le> decreased c"
proof -
  have b: "0 \<le> cu_beta c" "1 / 2 \<le> cu_beta c" "cu_beta c \<le> f64_round (95 / 100)"
    using assms by (simp_all add: cc_wf_def)
  show "min_cwnd c \<le> decreased c" by (simp add: decreased_def)
  show "decreased c \<le> cu_cwnd c"
    using beta_product_le [OF b(1,3)] assms by (simp add: decreased_def cc_wf_def)
  show "cu_cwnd c div 2 \<le> decreased c" if "cu_cwnd c \<le> 2 ^ 53"
    using beta_product_ge [OF b(2) that] by (simp add: decreased_def)
qed

lemma cc_wf_congestion:
  assumes "cc_wf c"
  shows "cc_wf (on_congestion_event cbrt now c)"
proof -
  have d: "decreased (c\<lparr> cu_last_loss_time := Some now, cu_w_last_max := cu_cwnd c, cu_w_max := w \<rparr>) = decreased c" for w
    by (simp add: decreased_def min_cwnd_def)
  show ?thesis
    using assms decreased_bounds [OF assms]
    by (auto simp: on_congestion_event_def Let_def d cc_wf_def min_cwnd_def split: option.splits)
qed

lemma cwnd_congestion:
  "cu_cwnd (on_congestion_event cbrt now c) =
     (case cu_last_loss_time c of
        Some t \<Rightarrow> if duration_since now t < cu_smoothed_rtt c then cu_cwnd c else decreased c
      | None \<Rightarrow> decreased c)"
  by (auto simp: on_congestion_event_def Let_def decreased_def min_cwnd_def split: option.splits)

lemma cc_wf_ack: "cc_wf c \<Longrightarrow> cc_wf (update_w_cubic now c) \<and> cu_cwnd c \<le> cu_cwnd (update_w_cubic now c)"
  by (auto simp: update_w_cubic_def Let_def cc_wf_def min_cwnd_def w_target_def sat_add64_ge
      intro: le_trans [OF _ sat_add64_ge] split: option.splits)

lemma cc_wf_timeout: "cc_wf c \<Longrightarrow> cc_wf (Cubic_on_timeout now c) \<and> cu_cwnd (Cubic_on_timeout now c) = min_cwnd c"
  by (auto simp: Cubic_on_timeout_def Let_def cc_wf_def min_cwnd_def)

lemma cc_wf_with_config:
  assumes "max (cf_initial_cwnd_packets cfg) 1 * max (cf_smss cfg) 1 < u64_modulus"
    and "cf_min_cwnd_packets cfg \<le> cf_initial_cwnd_packets cfg"
  shows "cc_wf (Cubic_with_config cfg)"
proof -
  have le: "max (cf_min_cwnd_packets cfg) 1 * max (cf_smss cfg) 1 \<le> max (cf_initial_cwnd_packets cfg) 1 * max (cf_smss cfg) 1"
    using assms(2) by (intro mult_right_mono) auto
  then have ex: "wmul64 (max (cf_min_cwnd_packets cfg) 1) (max (cf_smss cfg) 1) = max (cf_min_cwnd_packets cfg) 1 * max (cf_smss cfg) 1"
    "wmul64 (max (cf_initial_cwnd_packets cfg) 1) (max (cf_smss cfg) 1) = max (cf_initial_cwnd_packets cfg) 1 * max (cf_smss cfg) 1"
    using assms(1) by (simp_all only: wmul64_exact order_le_less_trans)
  show ?thesis
    unfolding cc_wf_def Cubic_with_config_def Let_def ex
    using le assms(1) half_le_lit_95 by (auto simp: min_cwnd_def clamp_def u64_max_modulus less_Suc_eq_le)
qed

section \<open>Histories of the controller\<close>

datatype cc_event = AckOf ack_event | LossOf loss_event | EcnOf nat | RttOf duration | TimeoutEv

fun cc_step :: "(rat \<Rightarrow> rat) \<Rightarrow> monotonic_time \<times> cc_event \<Rightarrow> cubic \<Rightarrow> cubic" where
  "cc_step cbrt (now, AckOf ev) c = Cubic_on_ack ev now c"
| "cc_step cbrt (now, LossOf ev) c = Cubic_on_loss cbrt ev now c"
| "cc_step cbrt (now, EcnOf n) c = Cubic_on_ecn cbrt n now c"
| "cc_step cbrt (now, RttOf srtt) c = Cubic_on_rtt srtt c"
| "cc_step cbrt (now, TimeoutEv) c = Cubic_on_timeout now c"

lemma cc_wf_step: "cc_wf c \<Longrightarrow> cc_wf (cc_step cbrt e c)"
  by (induction cbrt e c rule: cc_step.induct)
     (auto simp: Cubic_on_ack_def Cubic_on_loss_def Cubic_on_ecn_def Cubic_on_rtt_def cc_wf_ack cc_wf_congestion cc_wf_timeout,
      simp add: cc_wf_def min_cwnd_def)

lemma cc_wf_run: "cc_wf c \<Longrightarrow> cc_wf (fold (cc_step cbrt) es c)"
  by (induction es arbitrary: c) (auto simp: cc_wf_step)

section \<open>Pacing and backpressure lemmas\<close>

definition pacing_wf :: "pacing_engine \<Rightarrow> bool" where
  "pacing_wf p \<longleftrightarrow> pe_tokens_bytes p \<le> pe_max_burst_bytes p"

lemma pacing_wf_ops:
  "pacing_wf (PacingEngine_new burst)"
  "pacing_wf p \<Longrightarrow> pacing_wf (update_tokens rate now p)"
  "pacing_wf p \<Longrightarrow> pacing_wf (consume n p)"
  by (auto simp: pacing_wf_def PacingEngine_new_def update_tokens_def consume_def sat_sub_def Let_def)

lemma burst_const [simp]:
  "pe_max_burst_bytes (update_tokens rate now p) = pe_max_burst_bytes p"
  "pe_max_burst_bytes (consume n p) = pe_max_burst_bytes p"
  by (simp_all add: update_tokens_def consume_def Let_def)

text \<open>A level is the number of thresholds a load exceeds; more load never lowers it.\<close>

definition level_of :: "rat \<Rightarrow> rat \<Rightarrow> backpressure_level" where
  "level_of q r =
     (if q > 3 \<or> r > f64_round (25 / 10) then Critical
      else if q > f64_round (15 / 10) \<or> r > f64_round (18 / 10) then High
      else if q > f64_round (8 / 10) \<or> r > f64_round (13 / 10) then Medium
      else Low)"

lemma level_of_mono: "q \<le> q' \<Longrightarrow> r \<le> r' \<Longrightarrow> level_rank (level_of q r) \<le> level_rank (level_of q' r')"
  by (auto simp: level_of_def)

section \<open>Properties\<close>

text \<open>
  C30: the congestion window is safe over any history. For every configuration whose minimum window
  does not exceed its initial window, and after any sequence of acknowledgements, losses, ECN marks,
  RTT updates and timeouts, the window is at least the configured minimum; an acknowledgement never
  shrinks it and an empty one changes nothing; a loss never enlarges it, takes at most half of it
  (for windows up to \<open>2 ^ 53\<close> bytes) and within one smoothed RTT of the previous reduction changes
  nothing; a timeout collapses it to the minimum.
\<close>

theorem cubic_window_safe:
  assumes "max (cf_initial_cwnd_packets cfg) 1 * max (cf_smss cfg) 1 < u64_modulus"
    and "cf_min_cwnd_packets cfg \<le> cf_initial_cwnd_packets cfg"
    and "c = fold (cc_step cbrt) history (Cubic_with_config cfg)"
  shows "min_cwnd c \<le> cu_cwnd c \<and> cu_cwnd c \<le> u64_max \<and>
    cu_cwnd c \<le> cu_cwnd (Cubic_on_ack a now c) \<and> (ae_bytes_acked a = 0 \<longrightarrow> Cubic_on_ack a now c = c) \<and>
    cu_cwnd (Cubic_on_loss cbrt l now c) \<le> cu_cwnd c \<and>
    (cu_cwnd c \<le> 2 ^ 53 \<longrightarrow> cu_cwnd c div 2 \<le> cu_cwnd (Cubic_on_loss cbrt l now c)) \<and>
    (\<forall>t. cu_last_loss_time c = Some t \<and> duration_since now t < cu_smoothed_rtt c \<longrightarrow> Cubic_on_loss cbrt l now c = c) \<and>
    (Cubic_on_loss cbrt l now c \<noteq> c \<longrightarrow> cu_last_loss_time (Cubic_on_loss cbrt l now c) = Some now) \<and>
    cu_cwnd (Cubic_on_timeout now c) = min_cwnd c"
proof -
  have wf: "cc_wf c"
    unfolding assms(3) by (intro cc_wf_run cc_wf_with_config assms)
  have ack: "cu_cwnd c \<le> cu_cwnd (Cubic_on_ack a now c)"
    using cc_wf_ack [OF wf, of now] by (simp add: Cubic_on_ack_def)
  have loss: "cu_cwnd (Cubic_on_loss cbrt l now c) \<le> cu_cwnd c"
    "cu_cwnd c \<le> 2 ^ 53 \<Longrightarrow> cu_cwnd c div 2 \<le> cu_cwnd (Cubic_on_loss cbrt l now c)"
    using decreased_bounds [OF wf] by (auto simp: Cubic_on_loss_def cwnd_congestion split: option.split)
  have "Cubic_on_loss cbrt l now c = c"
    if "cu_last_loss_time c = Some t" "duration_since now t < cu_smoothed_rtt c" for t
    using that by (simp add: Cubic_on_loss_def on_congestion_event_def)
  moreover have "cu_last_loss_time (Cubic_on_loss cbrt l now c) = Some now" if "Cubic_on_loss cbrt l now c \<noteq> c"
    using that by (auto simp: Cubic_on_loss_def on_congestion_event_def Let_def split: option.splits if_splits)
  ultimately show ?thesis
    using wf ack loss cc_wf_timeout [OF wf, of now] by (auto simp: cc_wf_def Cubic_on_ack_def)
qed

theorem cubic_window_safe_witness:
  "min_cwnd (Cubic_with_config CubicConfig_default) \<le> cu_cwnd (Cubic_with_config CubicConfig_default) \<and>
   cu_cwnd (Cubic_on_timeout 5 (Cubic_with_config CubicConfig_default)) = 2400"
proof -
  have "max (cf_initial_cwnd_packets CubicConfig_default) 1 * max (cf_smss CubicConfig_default) 1 < u64_modulus"
    "cf_min_cwnd_packets CubicConfig_default \<le> cf_initial_cwnd_packets CubicConfig_default"
    by (simp_all add: CubicConfig_default_def DEFAULT_SMSS_def INITIAL_CWND_PACKETS_def MIN_CWND_PACKETS_def u64_modulus_def)
  moreover have "min_cwnd (Cubic_with_config CubicConfig_default) = 2400"
    by (simp add: min_cwnd_def Cubic_with_config_def Let_def CubicConfig_default_def DEFAULT_SMSS_def MIN_CWND_PACKETS_def
        wmul64_def u64_modulus_def)
  ultimately show ?thesis
    using cubic_window_safe [of CubicConfig_default "Cubic_with_config CubicConfig_default" id "[]" undefined 5 undefined]
    by simp
qed

text \<open>
  Backpressure is monotone. More queued bytes, a higher current RTT or a smaller window never
  lower the level reported to the game, and without an RTT sample only the queue can raise it.
\<close>

theorem backpressure_monotone:
  assumes "queued \<le> queued'" and "cwnd' \<le> cwnd" and "rtt \<le> rtt'"
  shows "level_rank (calculate_backpressure queued cwnd rtt m) \<le> level_rank (calculate_backpressure queued' cwnd' rtt' m) \<and>
    calculate_backpressure queued cwnd rtt None = calculate_backpressure queued cwnd rtt' None"
proof -
  have level: "calculate_backpressure q c r s = level_of (fdiv (of_u64 q) (of_u64 (max c 1200)))
      (case s of Some f \<Rightarrow> if f > 0 then fdiv (of_u64 r) (of_u64 f) else 1 | None \<Rightarrow> 1)" for q c r s
    by (simp add: calculate_backpressure_def level_of_def Let_def)
  have "fdiv (of_u64 queued) (of_u64 (max cwnd 1200)) \<le> fdiv (of_u64 queued') (of_u64 (max cwnd' 1200))"
    using assms by (intro fdiv_mono of_u64_mono of_u64_pos) auto
  moreover have "fdiv (of_u64 rtt) (of_u64 f) \<le> fdiv (of_u64 rtt') (of_u64 f)" if "0 < f" for f
    using assms that by (intro fdiv_mono of_u64_mono of_u64_pos) auto
  ultimately show ?thesis
    unfolding level by (auto intro!: level_of_mono split: option.split)
qed

theorem backpressure_monotone_witness:
  "level_rank (calculate_backpressure 1000 12000 50000 (Some 40000)) \<le>
     level_rank (calculate_backpressure 90000 12000 60000 (Some 40000))"
  using backpressure_monotone [of 1000 90000 12000 12000 50000 60000 "Some 40000"] by simp

text \<open>
  The pacer never grants more than it may. Whatever rates and times it is driven with, the
  bucket never holds more than the configured burst, and a send within the granted budget keeps the
  bytes in flight within the congestion window.
\<close>

theorem pacing_budget_safe:
  assumes "pacing_wf p" and "n \<le> send_budget cwnd inflight (update_tokens rate now p)"
    and "inflight \<le> cwnd"
  shows "n \<le> pe_max_burst_bytes p \<and> inflight + n \<le> cwnd \<and>
    pacing_wf (consume n (update_tokens rate now p)) \<and>
    pe_tokens_bytes (consume n (update_tokens rate now p)) + n = pe_tokens_bytes (update_tokens rate now p)"
  using assms pacing_wf_ops(2) [OF assms(1), of rate now] pacing_wf_ops(3)
  by (auto simp: send_budget_def sat_sub_def pacing_wf_def consume_def)

theorem pacing_budget_safe_witness:
  "1200 \<le> pe_max_burst_bytes (PacingEngine_new 12000) \<and> (5000 :: nat) + 1200 \<le> 24000"
  using pacing_budget_safe [of "PacingEngine_new 12000" 1200 24000 5000 100000 77] pacing_wf_ops(1) [of 12000]
  by (simp add: send_budget_def PacingEngine_new_def update_tokens_def MonotonicTime_ZERO_def sat_sub_def)

end
