(* ===== verification/Protector.thy ===== *)
theory Protector
  imports GTP_Types
begin

unbundle bit_operations_syntax

text \<open>
  Packet protection (\<^verbatim>\<open>gtp-crypto/src/aead.rs\<close>, \<^verbatim>\<open>protector.rs\<close>, \<^verbatim>\<open>plaintext.rs\<close>). The cipher
  itself is the crate \<^verbatim>\<open>chacha20poly1305\<close>, which is not part of the sources: it is the parameter
  \<open>aead_cipher\<close>, a pair of the in-place detached operations the code calls. \<open>aead_ok\<close> states what
  the code relies on and the crate documents: the tag has 16 bytes, lengths are kept, decryption
  inverts encryption, and a ciphertext is accepted only when its tag is the one encryption computes.

  Sealing and opening work in place on a buffer, so both return the buffer with their result. That a
  failed decryption leaves the buffer as it was is documented of the crate (the tag is checked before
  anything is deciphered) and is part of the parameter's type here: \<open>decrypt_in_place_detached\<close>
  returns the plaintext or nothing.
\<close>

section \<open>The cipher\<close>

record aead_cipher =
  encrypt_in_place_detached :: "bytes \<Rightarrow> bytes \<Rightarrow> bytes \<Rightarrow> bytes \<Rightarrow> (bytes \<times> bytes) option"
  decrypt_in_place_detached :: "bytes \<Rightarrow> bytes \<Rightarrow> bytes \<Rightarrow> bytes \<Rightarrow> bytes \<Rightarrow> bytes option"

definition AEAD_TAG_LEN :: nat where
  "AEAD_TAG_LEN = 16"

definition aead_ok :: "aead_cipher \<Rightarrow> bool" where
  "aead_ok ci \<longleftrightarrow>
     (\<forall>k n a pt ct tag. encrypt_in_place_detached ci k n a pt = Some (ct, tag) \<longrightarrow>
        length ct = length pt \<and> length tag = AEAD_TAG_LEN \<and> decrypt_in_place_detached ci k n a ct tag = Some pt) \<and>
     (\<forall>k n a pt ct tag. decrypt_in_place_detached ci k n a ct tag = Some pt \<longrightarrow>
        encrypt_in_place_detached ci k n a pt = Some (ct, tag))"

section \<open>The AEAD protector\<close>

record aead_protector =
  ap_key :: bytes
  ap_iv :: bytes
  ap_bound_cid :: "u64 option"

definition AeadProtector_new :: "bytes \<Rightarrow> bytes \<Rightarrow> aead_protector" where
  "AeadProtector_new key iv = \<lparr> ap_key = key, ap_iv = iv, ap_bound_cid = None \<rparr>"

definition new_for_cid :: "bytes \<Rightarrow> bytes \<Rightarrow> connection_id \<Rightarrow> aead_protector" where
  "new_for_cid key iv cid = \<lparr> ap_key = key, ap_iv = iv, ap_bound_cid = Some cid \<rparr>"

definition check_binding :: "aead_protector \<Rightarrow> connection_id \<Rightarrow> unit result" where
  "check_binding p cid = (case ap_bound_cid p of
     Some bound \<Rightarrow> if bound \<noteq> cid then Err CryptoFailure else Ok ()
   | None \<Rightarrow> Ok ())"

text \<open>The 12 bytes of the IV, xored with four bytes of the connection id and all eight of the packet number.\<close>

definition derive_nonce :: "aead_protector \<Rightarrow> connection_id \<Rightarrow> packet_number \<Rightarrow> bytes" where
  "derive_nonce p cid pn = map2 (XOR) (ap_iv p) (take 4 (to_be_bytes cid) @ to_be_bytes pn)"

definition AeadProtector_seal ::
  "aead_cipher \<Rightarrow> aead_protector \<Rightarrow> packet_number \<Rightarrow> connection_id \<Rightarrow> bytes \<Rightarrow> bytes \<Rightarrow> nat \<Rightarrow> bytes \<times> nat result" where
  "AeadProtector_seal ci p pn cid aad buf plen =
     (case check_binding p cid of
        Err e \<Rightarrow> (buf, Err e)
      | Panic \<Rightarrow> (buf, Panic)
      | Ok _ \<Rightarrow>
          if plen + AEAD_TAG_LEN > u64_max then (buf, Err BufferOverflow)
          else if length buf < plen + AEAD_TAG_LEN then (buf, Err BufferTooShort)
          else case encrypt_in_place_detached ci (ap_key p) (derive_nonce p cid pn) aad (take plen buf) of
                 None \<Rightarrow> (buf, Err CryptoFailure)
               | Some (ct, tag) \<Rightarrow> (ct @ tag @ drop (plen + AEAD_TAG_LEN) buf, Ok (plen + AEAD_TAG_LEN)))"

definition AeadProtector_open ::
  "aead_cipher \<Rightarrow> aead_protector \<Rightarrow> packet_number \<Rightarrow> connection_id \<Rightarrow> bytes \<Rightarrow> bytes \<Rightarrow> nat \<Rightarrow> bytes \<times> nat result" where
  "AeadProtector_open ci p pn cid aad buf clen =
     (case check_binding p cid of
        Err e \<Rightarrow> (buf, Err e)
      | Panic \<Rightarrow> (buf, Panic)
      | Ok _ \<Rightarrow>
          if clen < AEAD_TAG_LEN \<or> length buf < clen then (buf, Err BufferTooShort)
          else let plen = clen - AEAD_TAG_LEN in
               case decrypt_in_place_detached ci (ap_key p) (derive_nonce p cid pn) aad (take plen buf)
                      (take AEAD_TAG_LEN (drop plen buf)) of
                 None \<Rightarrow> (buf, Err CryptoFailure)
               | Some pt \<Rightarrow> (pt @ drop plen buf, Ok plen))"

section \<open>Static dispatch\<close>

text \<open>The null cipher exists in test builds and under the feature \<^verbatim>\<open>insecure-plaintext\<close> only.\<close>

datatype protector = Aead aead_protector | Plaintext

definition Plaintext_seal :: "bytes \<Rightarrow> nat \<Rightarrow> bytes \<times> nat result" where
  "Plaintext_seal buf plen = (buf, Ok plen)"

definition Plaintext_open :: "bytes \<Rightarrow> nat \<Rightarrow> bytes \<times> nat result" where
  "Plaintext_open buf clen = (buf, Ok clen)"

fun Protector_seal ::
  "aead_cipher \<Rightarrow> protector \<Rightarrow> packet_number \<Rightarrow> connection_id \<Rightarrow> bytes \<Rightarrow> bytes \<Rightarrow> nat \<Rightarrow> bytes \<times> nat result" where
  "Protector_seal ci (Aead p) pn cid aad buf plen = AeadProtector_seal ci p pn cid aad buf plen"
| "Protector_seal ci Plaintext pn cid aad buf plen = Plaintext_seal buf plen"

fun Protector_open ::
  "aead_cipher \<Rightarrow> protector \<Rightarrow> packet_number \<Rightarrow> connection_id \<Rightarrow> bytes \<Rightarrow> bytes \<Rightarrow> nat \<Rightarrow> bytes \<times> nat result" where
  "Protector_open ci (Aead p) pn cid aad buf clen = AeadProtector_open ci p pn cid aad buf clen"
| "Protector_open ci Plaintext pn cid aad buf clen = Plaintext_open buf clen"

fun tag_len :: "protector \<Rightarrow> nat" where
  "tag_len (Aead p) = AEAD_TAG_LEN"
| "tag_len Plaintext = 0"

section \<open>Nonces\<close>

lemma map2_xor_inj:
  fixes iv :: bytes
  assumes "length xs = length iv" and "length ys = length iv" and "map2 (XOR) iv xs = map2 (XOR) iv ys"
  shows "xs = ys"
proof (rule nth_equalityI)
  show "length xs = length ys" using assms by simp
  fix i assume i: "i < length xs"
  then have "map2 (XOR) iv xs ! i = map2 (XOR) iv ys ! i" using assms(3) by simp
  then have "iv ! i XOR xs ! i = iv ! i XOR ys ! i" using i assms(1,2) by simp
  then have "iv ! i XOR (iv ! i XOR xs ! i) = iv ! i XOR (iv ! i XOR ys ! i)" by simp
  then show "xs ! i = ys ! i" by (simp only: xor.assoc [symmetric] xor_self_eq xor.left_neutral)
qed

lemma to_be_bytes_inj: "to_be_bytes (a :: u64) = to_be_bytes b \<Longrightarrow> a = b"
proof -
  assume eq: "to_be_bytes a = to_be_bytes b"
  have "from_be_bytes (to_be_bytes a) = a" "from_be_bytes (to_be_bytes b) = b"
    by (intro from_to_be_bytes; simp)+
  then show "a = b" using eq by metis
qed

lemma derive_nonce_inj:
  assumes "length (ap_iv p) = 12" and "derive_nonce p cid pn = derive_nonce p cid pn'"
  shows "pn = pn'"
proof -
  have len: "length (take 4 (to_be_bytes cid) @ to_be_bytes x) = length (ap_iv p)" for x :: u64
    using assms(1) by simp
  have "take 4 (to_be_bytes cid) @ to_be_bytes pn = take 4 (to_be_bytes cid) @ to_be_bytes pn'"
    by (rule map2_xor_inj [OF len len assms(2) [unfolded derive_nonce_def]])
  then show ?thesis by (simp add: to_be_bytes_inj)
qed

section \<open>Sealing and opening\<close>

lemma aead_okD:
  assumes "aead_ok ci"
  shows "encrypt_in_place_detached ci k n a pt = Some (ct, tag) \<Longrightarrow> length ct = length pt"
    and "encrypt_in_place_detached ci k n a pt = Some (ct, tag) \<Longrightarrow> length tag = AEAD_TAG_LEN"
    and "encrypt_in_place_detached ci k n a pt = Some (ct, tag) \<Longrightarrow> decrypt_in_place_detached ci k n a ct tag = Some pt"
    and "decrypt_in_place_detached ci k n a ct tag = Some pt \<Longrightarrow> encrypt_in_place_detached ci k n a pt = Some (ct, tag)"
  using assms unfolding aead_ok_def by blast+

lemma check_binding_bound [simp]: "ap_bound_cid p = Some cid \<Longrightarrow> check_binding p cid = Ok ()"
  by (simp add: check_binding_def)

lemma check_binding_not_Panic [simp]: "check_binding p cid \<noteq> Panic"
  by (simp add: check_binding_def split: option.split)

lemma Protector_open_failed: "Protector_open ci p pn cid aad buf clen = (buf', r) \<Longrightarrow> (\<forall>n. r \<noteq> Ok n) \<Longrightarrow> buf' = buf"
  by (cases p) (auto simp: AeadProtector_open_def Plaintext_open_def Let_def split: outcome.splits option.splits if_splits)

lemma Protector_open_no_panic: "Protector_open ci p pn cid aad buf clen \<noteq> (buf', Panic)"
  by (cases p) (auto simp: AeadProtector_open_def Plaintext_open_def Let_def split: outcome.splits option.splits if_splits)

lemma Protector_open_length:
  assumes "aead_ok ci" and "Protector_open ci p pn cid aad buf clen = (buf', Ok n)" and "clen \<le> length buf"
  shows "n + tag_len p = clen \<and> length buf' = length buf"
proof (cases p)
  case (Aead q)
  then show ?thesis
    using assms aead_okD(1) [OF assms(1) aead_okD(4) [OF assms(1)]]
    by (fastforce simp: AeadProtector_open_def Let_def AEAD_TAG_LEN_def split: outcome.splits option.splits if_splits)
qed (use assms in \<open>auto simp: Plaintext_open_def\<close>)

lemma Protector_seal_no_panic: "Protector_seal ci p pn cid aad buf plen \<noteq> (buf', Panic)"
  by (cases p) (auto simp: AeadProtector_seal_def Plaintext_seal_def Let_def split: outcome.splits option.splits if_splits)

text \<open>What a successful seal writes.\<close>

lemma Protector_seal_ok:
  assumes "aead_ok ci" and "Protector_seal ci p pn cid aad buf plen = (buf', Ok n)" and "plen \<le> length buf"
  shows "n = plen + tag_len p \<and> n \<le> length buf \<and> length buf' = length buf \<and>
    (\<exists>rest. Protector_open ci p pn cid aad (take n buf') n = (take plen buf @ rest, Ok plen))"
proof (cases p)
  case Plaintext
  then show ?thesis using assms by (auto simp: Plaintext_seal_def Plaintext_open_def)
next
  case (Aead q)
  then obtain ct tag where e: "encrypt_in_place_detached ci (ap_key q) (derive_nonce q cid pn) aad (take plen buf) = Some (ct, tag)"
    and b: "check_binding q cid = Ok ()" "plen + AEAD_TAG_LEN \<le> length buf"
      "buf' = ct @ tag @ drop (plen + AEAD_TAG_LEN) buf" "n = plen + AEAD_TAG_LEN"
    using assms by (auto simp: AeadProtector_seal_def Let_def split: outcome.splits option.splits if_splits)
  have l: "length ct = plen" "length tag = AEAD_TAG_LEN"
    using aead_okD(1,2) [OF assms(1) e] b(2) by simp_all
  show ?thesis
    using Aead b l aead_okD(3) [OF assms(1) e] by (auto simp: AeadProtector_open_def Let_def)
qed

text \<open>Whatever opens is what sealing under the same key produces.\<close>

lemma AeadProtector_open_genuine:
  assumes "aead_ok ci" and "AeadProtector_open ci p pn cid aad buf clen = (buf', Ok n)"
  shows "encrypt_in_place_detached ci (ap_key p) (derive_nonce p cid pn) aad (take n buf') =
    Some (take n buf, take AEAD_TAG_LEN (drop n buf))"
proof -
  obtain pt where d: "decrypt_in_place_detached ci (ap_key p) (derive_nonce p cid pn) aad (take n buf)
      (take AEAD_TAG_LEN (drop n buf)) = Some pt" and b: "buf' = pt @ drop n buf" "n \<le> length buf"
    using assms(2) by (auto simp: AeadProtector_open_def Let_def split: outcome.splits option.splits if_splits)
  have e: "encrypt_in_place_detached ci (ap_key p) (derive_nonce p cid pn) aad pt = Some (take n buf, take AEAD_TAG_LEN (drop n buf))"
    by (rule aead_okD(4) [OF assms(1) d])
  then have "length pt = n" using aead_okD(1) [OF assms(1) e] b(2) by simp
  then show ?thesis using e b(1) by simp
qed

lemma AeadProtector_open_resealed:
  assumes "aead_ok ci" and "AeadProtector_open ci p pn cid aad buf clen = (buf', Ok n)" and "clen \<le> u64_max"
  shows "clen = n + 16 \<and> clen \<le> length buf \<and> buf' = take n buf' @ drop n buf \<and>
    AeadProtector_seal ci p pn cid aad (take n buf' @ replicate 16 0) n = (take clen buf, Ok clen)"
proof -
  obtain pt where b: "buf' = pt @ drop n buf" "n + 16 \<le> length buf" "clen = n + 16" "check_binding p cid = Ok ()"
    using assms(2) by (auto simp: AeadProtector_open_def AEAD_TAG_LEN_def Let_def split: outcome.splits option.splits if_splits)
  have e: "encrypt_in_place_detached ci (ap_key p) (derive_nonce p cid pn) aad (take n buf') = Some (take n buf, take 16 (drop n buf))"
    using AeadProtector_open_genuine [OF assms(1,2)] by (simp add: AEAD_TAG_LEN_def)
  have "length buf' = length buf" using Protector_open_length [OF assms(1), of "Aead p" pn cid aad buf clen] assms(2) b(2,3) by simp
  then have "length pt = n" using b(1,2) by simp
  then show ?thesis using b e assms(3) by (simp add: AeadProtector_seal_def AEAD_TAG_LEN_def take_add)
qed

lemma AeadProtector_seal_ok:
  assumes "aead_ok ci" and "AeadProtector_seal ci p pn cid aad buf plen = (buf', Ok n)"
  shows "n = plen + 16 \<and> n \<le> length buf \<and> length buf' = length buf \<and> drop n buf' = drop n buf \<and>
    AeadProtector_open ci p pn cid aad (take n buf') n = (take plen buf @ drop plen (take n buf'), Ok plen)"
proof -
  obtain ct tag where e: "encrypt_in_place_detached ci (ap_key p) (derive_nonce p cid pn) aad (take plen buf) = Some (ct, tag)"
    and b: "check_binding p cid = Ok ()" "plen + 16 \<le> length buf" "buf' = ct @ tag @ drop (plen + 16) buf" "n = plen + 16"
    using assms(2) by (auto simp: AeadProtector_seal_def AEAD_TAG_LEN_def Let_def split: outcome.splits option.splits if_splits)
  have "length ct = plen" "length tag = 16"
    using aead_okD(1,2) [OF assms(1) e] b(2) by (simp_all add: AEAD_TAG_LEN_def)
  then show ?thesis using b aead_okD(3) [OF assms(1) e] by (auto simp: AeadProtector_open_def AEAD_TAG_LEN_def Let_def)
qed

section \<open>Properties\<close>

text \<open>
  C23: packet protection is correct. A protector refuses to seal and to open for any connection
  other than its own, leaving the buffer alone. Sealing needs 16 bytes of room after the payload and
  refuses without them; what it seals is 16 bytes longer than the payload, the buffer behind it is
  untouched, and the peer that holds the same key, connection id, packet number and header opens it
  to the original payload. Opening refuses less than a tag or more than the buffer holds; whatever
  it does open, in a buffer of any content, is byte for byte what \<^verbatim>\<open>seal\<close> of the same protector
  writes for the plaintext it returns. Two different packet numbers never share a nonce under one
  key.
\<close>

theorem packet_protection_correct:
  assumes "aead_ok ci" and "ap_bound_cid p = Some cid" and "length (ap_iv p) = 12"
  shows "(\<forall>cid' buf len. cid' \<noteq> cid \<longrightarrow> AeadProtector_seal ci p pn cid' aad buf len = (buf, Err CryptoFailure) \<and>
        AeadProtector_open ci p pn cid' aad buf len = (buf, Err CryptoFailure)) \<and>
     (\<forall>buf plen. plen + 16 \<le> u64_max \<and> length buf < plen + 16 \<longrightarrow>
        AeadProtector_seal ci p pn cid aad buf plen = (buf, Err BufferTooShort)) \<and>
     (\<forall>buf plen buf' n. AeadProtector_seal ci p pn cid aad buf plen = (buf', Ok n) \<longrightarrow>
        n = plen + 16 \<and> n \<le> length buf \<and> length buf' = length buf \<and> drop n buf' = drop n buf \<and>
        AeadProtector_open ci p pn cid aad (take n buf') n = (take plen buf @ drop plen (take n buf'), Ok plen)) \<and>
     (\<forall>buf clen. clen < 16 \<or> length buf < clen \<longrightarrow> AeadProtector_open ci p pn cid aad buf clen = (buf, Err BufferTooShort)) \<and>
     (\<forall>buf clen buf' n. AeadProtector_open ci p pn cid aad buf clen = (buf', Ok n) \<and> clen \<le> u64_max \<longrightarrow>
        clen = n + 16 \<and> buf' = take n buf' @ drop n buf \<and>
        AeadProtector_seal ci p pn cid aad (take n buf' @ replicate 16 0) n = (take clen buf, Ok clen)) \<and>
     (\<forall>pn'. derive_nonce p cid pn = derive_nonce p cid pn' \<longrightarrow> pn = pn')"
proof (intro conjI allI impI)
  show "AeadProtector_seal ci p pn cid' aad buf len = (buf, Err CryptoFailure)"
       "AeadProtector_open ci p pn cid' aad buf len = (buf, Err CryptoFailure)" if "cid' \<noteq> cid" for cid' buf len
    using assms(2) that by (auto simp: AeadProtector_seal_def AeadProtector_open_def check_binding_def)
  show "AeadProtector_seal ci p pn cid aad buf plen = (buf, Err BufferTooShort)" if "plen + 16 \<le> u64_max \<and> length buf < plen + 16" for buf plen
    using assms(2) that by (simp add: AeadProtector_seal_def AEAD_TAG_LEN_def)
  show "AeadProtector_open ci p pn cid aad buf clen = (buf, Err BufferTooShort)" if "clen < 16 \<or> length buf < clen" for buf clen
    using assms(2) that by (auto simp: AeadProtector_open_def AEAD_TAG_LEN_def)
qed (use AeadProtector_seal_ok [OF assms(1)] AeadProtector_open_resealed [OF assms(1)] derive_nonce_inj [OF assms(3)] in blast)+

text \<open>A concrete cipher that satisfies the assumptions, for the witnesses.\<close>

definition test_cipher :: aead_cipher where
  "test_cipher = \<lparr>
     encrypt_in_place_detached = (\<lambda>k n a pt. Some (pt, take 16 (k @ replicate 16 0))),
     decrypt_in_place_detached = (\<lambda>k n a ct tag. if tag = take 16 (k @ replicate 16 0) then Some ct else None) \<rparr>"

lemma test_cipher_ok: "aead_ok test_cipher"
  by (auto simp: aead_ok_def test_cipher_def AEAD_TAG_LEN_def split: if_splits)

theorem packet_protection_correct_witness:
  "\<exists>buf' rest. AeadProtector_seal test_cipher (new_for_cid [9] (replicate 12 7) 5) 1 5 [] (8 # 6 # replicate 20 0) 2 = (buf', Ok 18) \<and>
     AeadProtector_open test_cipher (new_for_cid [9] (replicate 12 7) 5) 1 5 [] (take 18 buf') 18 = ([8, 6] @ rest, Ok 2) \<and>
     AeadProtector_seal test_cipher (new_for_cid [9] (replicate 12 7) 5) 1 4 [] (8 # 6 # replicate 20 0) 2 =
       (8 # 6 # replicate 20 0, Err CryptoFailure)"
proof -
  let ?p = "new_for_cid [9] (replicate 12 7) 5" and ?buf = "8 # 6 # replicate 20 (0 :: u8)"
  have p: "ap_bound_cid ?p = Some 5" "length (ap_iv ?p) = 12" by (simp_all add: new_for_cid_def)
  obtain buf' where s: "AeadProtector_seal test_cipher ?p 1 5 [] ?buf 2 = (buf', Ok 18)"
    by (simp add: AeadProtector_seal_def check_binding_def new_for_cid_def test_cipher_def AEAD_TAG_LEN_def u64_max_def)
  note c = packet_protection_correct [OF test_cipher_ok p, of 1 "[]"]
  have "AeadProtector_open test_cipher ?p 1 5 [] (take 18 buf') 18 = (take 2 ?buf @ drop 2 (take 18 buf'), Ok 2)"
    using c s by blast
  moreover have "AeadProtector_seal test_cipher ?p 1 4 [] ?buf 2 = (?buf, Err CryptoFailure)"
    using c by simp
  ultimately show ?thesis using s by simp
qed

end
