(* ===== verification/Handshake.thy ===== *)
theory Handshake
  imports GTP_Types
begin

text \<open>
  The key schedule (\<^verbatim>\<open>gtp-crypto/src/kdf.rs\<close>, \<^verbatim>\<open>gtp-crypto/src/handshake.rs\<close>). X25519,
  HKDF-SHA256 and HMAC-SHA256 are crates outside the sources and parameters here: \<open>x25519\<close> bundles
  public-key derivation, the Diffie-Hellman function and the contributory check, \<open>hkdf\<close> takes the
  salt, the input key material, the info string and the output length, \<open>hmac\<close> the key and the
  message. Fixed-size arrays are byte lists; the randomness of a key pair is an argument of its
  construction.
\<close>

section \<open>Parameters\<close>

record 'sk x25519 =
  x_public :: "'sk \<Rightarrow> bytes"
  x_dh :: "'sk \<Rightarrow> bytes \<Rightarrow> bytes"
  x_contributory :: "bytes \<Rightarrow> bool"

type_synonym hkdf_fn = "bytes option \<Rightarrow> bytes \<Rightarrow> bytes \<Rightarrow> nat \<Rightarrow> bytes"
type_synonym hmac_fn = "bytes \<Rightarrow> bytes \<Rightarrow> bytes"
type_synonym 'a handshake_result = "(string, 'a) outcome"

text \<open>The bytes of an ASCII literal \<^verbatim>\<open>b"..."\<close>.\<close>

definition ascii :: "string \<Rightarrow> bytes" where
  "ascii s = map of_char s"

lemma length_ascii [simp]: "length (ascii s) = length s"
  by (simp add: ascii_def)

section \<open>Static-secret derivation\<close>

definition KEY_LEN :: nat where
  "KEY_LEN = 32"

definition IV_LEN :: nat where
  "IV_LEN = 12"

record directional_keys =
  dk_client_tx_key :: bytes
  dk_client_tx_iv :: bytes
  dk_server_tx_key :: bytes
  dk_server_tx_iv :: bytes

definition derive_session_keys :: "hkdf_fn \<Rightarrow> bytes \<Rightarrow> connection_id \<Rightarrow> bytes \<times> bytes" where
  "derive_session_keys hkdf secret cid =
     (hkdf None secret (ascii ''gtp_key_'' @ to_be_bytes cid) KEY_LEN,
      hkdf None secret (ascii ''gtp__iv_'' @ to_be_bytes cid) IV_LEN)"

text \<open>The closure \<^verbatim>\<open>expand\<close>: \<^verbatim>\<open>info = label(8) || suffix(8) || cid(8)\<close>.\<close>

definition traffic_info :: "string \<Rightarrow> string \<Rightarrow> connection_id \<Rightarrow> bytes" where
  "traffic_info label suffix cid = ascii label @ ascii suffix @ to_be_bytes cid"

definition expand_directional :: "hkdf_fn \<Rightarrow> bytes option \<Rightarrow> bytes \<Rightarrow> connection_id \<Rightarrow> directional_keys" where
  "expand_directional hkdf salt ikm cid =
     \<lparr> dk_client_tx_key = hkdf salt ikm (traffic_info ''c2s key '' ''gtp/v1  '' cid) KEY_LEN,
       dk_client_tx_iv = hkdf salt ikm (traffic_info ''c2s iv  '' ''gtp/v1  '' cid) IV_LEN,
       dk_server_tx_key = hkdf salt ikm (traffic_info ''s2c key '' ''gtp/v1  '' cid) KEY_LEN,
       dk_server_tx_iv = hkdf salt ikm (traffic_info ''s2c iv  '' ''gtp/v1  '' cid) IV_LEN \<rparr>"

definition derive_directional_session_keys :: "hkdf_fn \<Rightarrow> bytes \<Rightarrow> connection_id \<Rightarrow> directional_keys" where
  "derive_directional_session_keys hkdf master_secret cid = expand_directional hkdf None master_secret cid"

section \<open>Key agreement\<close>

record 'sk ephemeral_key_pair =
  ek_secret :: 'sk
  ek_public_key :: bytes
  ek_nonce :: bytes

definition EphemeralKeyPair_generate :: "'sk x25519 \<Rightarrow> 'sk \<Rightarrow> bytes \<Rightarrow> 'sk ephemeral_key_pair" where
  "EphemeralKeyPair_generate x random_secret random_nonce =
     \<lparr> ek_secret = random_secret, ek_public_key = x_public x random_secret, ek_nonce = random_nonce \<rparr>"

definition HandshakeSharedSecret_new :: "bytes \<Rightarrow> bytes" where
  "HandshakeSharedSecret_new secret = secret @ replicate 32 0"

definition compute_shared_secret_raw :: "'sk x25519 \<Rightarrow> 'sk \<Rightarrow> bytes \<Rightarrow> bytes handshake_result" where
  "compute_shared_secret_raw x secret peer =
     (let shared = x_dh x secret peer in
      if \<not> x_contributory x shared then Err ''non-contributory X25519 public key rejected'' else Ok shared)"

definition compute_shared_secret :: "'sk x25519 \<Rightarrow> 'sk ephemeral_key_pair \<Rightarrow> bytes \<Rightarrow> bytes handshake_result" where
  "compute_shared_secret x pair peer =
     omap HandshakeSharedSecret_new (compute_shared_secret_raw x (ek_secret pair) peer)"

definition compute_shared_secret_with_static ::
  "'sk x25519 \<Rightarrow> 'sk ephemeral_key_pair \<Rightarrow> bytes \<Rightarrow> bytes \<Rightarrow> bytes handshake_result" where
  "compute_shared_secret_with_static x pair peer_ephemeral server_static =
     obind (compute_shared_secret_raw x (ek_secret pair) peer_ephemeral) (\<lambda>ephemeral.
       let static_ss = x_dh x (ek_secret pair) server_static in
       if \<not> x_contributory x static_ss then Err ''non-contributory static server public key rejected''
       else Ok (ephemeral @ static_ss))"

definition complete_server_session ::
  "'sk x25519 \<Rightarrow> 'sk \<Rightarrow> 'sk ephemeral_key_pair \<Rightarrow> bytes \<Rightarrow> bytes handshake_result" where
  "complete_server_session x identity pair client_public =
     obind (compute_shared_secret_raw x (ek_secret pair) client_public) (\<lambda>ephemeral.
       let static_ss = x_dh x identity client_public in
       if \<not> x_contributory x static_ss then Err ''non-contributory client public key rejected''
       else Ok (ephemeral @ static_ss))"

section \<open>Traffic keys\<close>

definition for_role :: "directional_keys \<Rightarrow> bool \<Rightarrow> (bytes \<times> bytes) \<times> (bytes \<times> bytes)" where
  "for_role k as_client =
     (if as_client then ((dk_client_tx_key k, dk_client_tx_iv k), (dk_server_tx_key k, dk_server_tx_iv k))
      else ((dk_server_tx_key k, dk_server_tx_iv k), (dk_client_tx_key k, dk_client_tx_iv k)))"

definition derive_directional_handshake_session_keys ::
  "hkdf_fn \<Rightarrow> bytes \<Rightarrow> bytes \<Rightarrow> bytes \<Rightarrow> connection_id \<Rightarrow> directional_keys" where
  "derive_directional_handshake_session_keys hkdf shared_secret client_nonce server_nonce cid =
     (let ikm = shared_secret @ client_nonce @ server_nonce;
          master_key = hkdf (Some (ascii ''GTP_V1_1_X25519_SESSION_KEY_EXCHANGE'')) ikm
                         (traffic_info ''master  '' ''key     '' cid) 32
      in expand_directional hkdf (Some (ascii ''GTP_V1_1_TRAFFIC_KEY_SCHEDULE'')) master_key cid)"

definition ratchet_info :: "connection_id \<Rightarrow> u64 \<Rightarrow> string \<Rightarrow> bytes" where
  "ratchet_info cid phase label = to_be_bytes cid @ to_be_bytes phase @ ascii label"

definition ratchet_key :: "hkdf_fn \<Rightarrow> bytes \<Rightarrow> connection_id \<Rightarrow> u64 \<Rightarrow> bytes \<times> bytes" where
  "ratchet_key hkdf current_key cid phase =
     (let salt = Some (ascii ''GTP_V1_1_KEY_RATCHET_SALT'')
      in (hkdf salt current_key (ratchet_info cid phase ''KEYPHASE'') 32,
          hkdf salt current_key (ratchet_info cid phase ''KEYPH-IV'') 12))"

section \<open>Key confirmation\<close>

record handshake_transcript =
  ht_client_pk :: bytes
  ht_server_pk :: bytes
  ht_client_nonce :: bytes
  ht_server_nonce :: bytes
  ht_connection_id :: connection_id
  ht_version :: u32

definition confirmation_key :: "hkdf_fn \<Rightarrow> bytes \<Rightarrow> bytes" where
  "confirmation_key hkdf shared_secret =
     hkdf (Some (ascii ''GTP_V1_1_CONFIRM_SALT'')) shared_secret (ascii ''gtp/v1 handshake finished key'') 32"

definition update_with_transcript :: "bytes \<Rightarrow> handshake_transcript \<Rightarrow> bytes" where
  "update_with_transcript label t =
     label @ ht_client_pk t @ ht_server_pk t @ ht_client_nonce t @ ht_server_nonce t @
     to_be_bytes (ht_connection_id t) @ to_be_bytes (ht_version t)"

definition compute_client_proof :: "hkdf_fn \<Rightarrow> hmac_fn \<Rightarrow> bytes \<Rightarrow> handshake_transcript \<Rightarrow> bytes" where
  "compute_client_proof hkdf hmac shared_secret t =
     hmac (confirmation_key hkdf shared_secret) (update_with_transcript (ascii ''gtp-handshake-finish'') t)"

definition verify_client_proof :: "hkdf_fn \<Rightarrow> hmac_fn \<Rightarrow> bytes \<Rightarrow> handshake_transcript \<Rightarrow> bytes \<Rightarrow> bool" where
  "verify_client_proof hkdf hmac shared_secret t candidate \<longleftrightarrow> compute_client_proof hkdf hmac shared_secret t = candidate"

definition compute_server_proof :: "hkdf_fn \<Rightarrow> hmac_fn \<Rightarrow> bytes \<Rightarrow> handshake_transcript \<Rightarrow> bytes" where
  "compute_server_proof hkdf hmac shared_secret t =
     hmac (confirmation_key hkdf shared_secret) (update_with_transcript (ascii ''gtp-handshake-server-finish'') t)"

definition verify_server_proof :: "hkdf_fn \<Rightarrow> hmac_fn \<Rightarrow> bytes \<Rightarrow> handshake_transcript \<Rightarrow> bytes \<Rightarrow> bool" where
  "verify_server_proof hkdf hmac shared_secret t candidate \<longleftrightarrow> compute_server_proof hkdf hmac shared_secret t = candidate"

section \<open>Domain separation\<close>

text \<open>A transcript as the wire delivers it: the key and nonce fields are 32-byte arrays.\<close>

definition transcript_wf :: "handshake_transcript \<Rightarrow> bool" where
  "transcript_wf t \<longleftrightarrow> length (ht_client_pk t) = 32 \<and> length (ht_server_pk t) = 32 \<and>
     length (ht_client_nonce t) = 32 \<and> length (ht_server_nonce t) = 32"

lemma to_be_bytes_word_inj:
  assumes "8 dvd LENGTH('a::len)" and "to_be_bytes (a :: 'a word) = to_be_bytes b"
  shows "a = b"
  using from_to_be_bytes [OF assms(1), of a] from_to_be_bytes [OF assms(1), of b] assms(2) by metis

lemma update_with_transcript_inj:
  assumes "transcript_wf t" and "transcript_wf t'" and "update_with_transcript l t = update_with_transcript l t'"
  shows "t = t'"
proof -
  have l: "length (ht_client_pk t) = length (ht_client_pk t')" "length (ht_server_pk t) = length (ht_server_pk t')"
    "length (ht_client_nonce t) = length (ht_client_nonce t')" "length (ht_server_nonce t) = length (ht_server_nonce t')"
    using assms(1,2) by (simp_all add: transcript_wf_def)
  have eqs: "ht_client_pk t = ht_client_pk t'" "ht_server_pk t = ht_server_pk t'"
    "ht_client_nonce t = ht_client_nonce t'" "ht_server_nonce t = ht_server_nonce t'"
    "to_be_bytes (ht_connection_id t) = to_be_bytes (ht_connection_id t')" "to_be_bytes (ht_version t) = to_be_bytes (ht_version t')"
    using assms(3) l by (simp_all add: update_with_transcript_def append_eq_append_conv)
  have "ht_connection_id t = ht_connection_id t'" "ht_version t = ht_version t'"
    using to_be_bytes_word_inj [OF _ eqs(5)] to_be_bytes_word_inj [OF _ eqs(6)] by simp_all
  then show ?thesis using eqs by simp
qed

lemma proof_inputs_disjoint:
  assumes "transcript_wf t" and "transcript_wf t'"
  shows "update_with_transcript (ascii ''gtp-handshake-finish'') t \<noteq> update_with_transcript (ascii ''gtp-handshake-server-finish'') t'"
proof
  assume "update_with_transcript (ascii ''gtp-handshake-finish'') t = update_with_transcript (ascii ''gtp-handshake-server-finish'') t'"
  from arg_cong [OF this, of length] show False
    using assms by (simp add: update_with_transcript_def transcript_wf_def)
qed

lemma proof_binding:
  assumes "transcript_wf t" and "transcript_wf t'"
  shows "inj_on (hmac (confirmation_key hkdf secret)) {update_with_transcript (ascii ''gtp-handshake-finish'') t,
        update_with_transcript (ascii ''gtp-handshake-finish'') t', update_with_transcript (ascii ''gtp-handshake-server-finish'') t'} \<Longrightarrow>
      (verify_client_proof hkdf hmac secret t (compute_client_proof hkdf hmac secret t') \<longleftrightarrow> t' = t) \<and>
      \<not> verify_client_proof hkdf hmac secret t (compute_server_proof hkdf hmac secret t')"
proof -
  let ?h = "hmac (confirmation_key hkdf secret)" and ?m = "update_with_transcript (ascii ''gtp-handshake-finish'') t"
    and ?m' = "update_with_transcript (ascii ''gtp-handshake-finish'') t'" and ?s' = "update_with_transcript (ascii ''gtp-handshake-server-finish'') t'"
  assume inj: "inj_on ?h {?m, ?m', ?s'}"
  have "?h ?m = ?h ?m' \<Longrightarrow> ?m = ?m'" by (rule inj_onD [OF inj]) simp_all
  moreover have "?h ?m = ?h ?s' \<Longrightarrow> ?m = ?s'" by (rule inj_onD [OF inj]) simp_all
  ultimately show ?thesis
    unfolding verify_client_proof_def compute_client_proof_def compute_server_proof_def
    using update_with_transcript_inj [OF assms] proof_inputs_disjoint [OF assms] by metis
qed

section \<open>Properties\<close>

text \<open>What the code relies on of X25519: the function is symmetric in the two key pairs.\<close>

definition x25519_ok :: "'sk x25519 \<Rightarrow> bool" where
  "x25519_ok x \<longleftrightarrow> (\<forall>a b. x_dh x a (x_public x b) = x_dh x b (x_public x a))"

text \<open>
  The handshake agrees. When a client with a pinned server key and the server complete the
  handshake with each other's public values, they succeed or fail together and hold the same 64-byte
  secret; the traffic keys are mirrored (what one side seals with, the other opens with); each
  side's confirmation proof verifies at the other side; and an accepted proof is the MAC of exactly
  the verifier's own transcript, so that, unless the MAC collides on these messages, no proof verifies for
  another transcript or in the other direction.
\<close>

theorem handshake_agreement:
  assumes "x25519_ok x" and "pair_c = EphemeralKeyPair_generate x cs cn" and "pair_s = EphemeralKeyPair_generate x ss sn"
    and "transcript_wf t" and "transcript_wf t'"
  shows "(\<forall>s. compute_shared_secret_with_static x pair_c (ek_public_key pair_s) (x_public x identity) = Ok s \<longleftrightarrow>
            complete_server_session x identity pair_s (ek_public_key pair_c) = Ok s) \<and>
     (\<forall>s. compute_shared_secret x pair_c (ek_public_key pair_s) = Ok s \<longleftrightarrow> compute_shared_secret x pair_s (ek_public_key pair_c) = Ok s) \<and>
     prod.swap (for_role keys True) = for_role keys False \<and>
     verify_client_proof hkdf hmac secret t (compute_client_proof hkdf hmac secret t) \<and>
     verify_server_proof hkdf hmac secret t (compute_server_proof hkdf hmac secret t) \<and>
     (inj_on (hmac (confirmation_key hkdf secret)) {update_with_transcript (ascii ''gtp-handshake-finish'') t,
          update_with_transcript (ascii ''gtp-handshake-finish'') t', update_with_transcript (ascii ''gtp-handshake-server-finish'') t'} \<longrightarrow>
        (verify_client_proof hkdf hmac secret t (compute_client_proof hkdf hmac secret t') \<longleftrightarrow> t' = t) \<and>
        \<not> verify_client_proof hkdf hmac secret t (compute_server_proof hkdf hmac secret t'))"
proof -
  have dh: "x_dh x cs (x_public x ss) = x_dh x ss (x_public x cs)" "x_dh x cs (x_public x identity) = x_dh x identity (x_public x cs)"
    using assms(1) by (auto simp: x25519_ok_def)
  note proof_binding [OF assms(4,5), of hmac hkdf secret]
  then show ?thesis
    using assms(2,3) dh
    by (auto simp: compute_shared_secret_with_static_def complete_server_session_def compute_shared_secret_def
        compute_shared_secret_raw_def EphemeralKeyPair_generate_def for_role_def Let_def
        verify_client_proof_def verify_server_proof_def)
qed

text \<open>A commutative group action standing for X25519 in the witness.\<close>

definition test_x25519 :: "nat x25519" where
  "test_x25519 = \<lparr> x_public = (\<lambda>s. replicate 32 (of_nat s)), x_dh = (\<lambda>s p. map (\<lambda>b. b * of_nat s) p),
     x_contributory = (\<lambda>s. s \<noteq> replicate 32 0) \<rparr>"

lemma test_x25519_ok: "x25519_ok test_x25519"
  by (simp add: x25519_ok_def test_x25519_def mult.commute)

definition test_transcript :: handshake_transcript where
  "test_transcript = \<lparr> ht_client_pk = replicate 32 3, ht_server_pk = replicate 32 5, ht_client_nonce = replicate 32 1,
     ht_server_nonce = replicate 32 2, ht_connection_id = 9, ht_version = 1 \<rparr>"

theorem handshake_agreement_witness:
  "(\<forall>s. compute_shared_secret_with_static test_x25519 (EphemeralKeyPair_generate test_x25519 3 []) (replicate 32 5) (replicate 32 7) = Ok s
     \<longleftrightarrow> complete_server_session test_x25519 7 (EphemeralKeyPair_generate test_x25519 5 []) (replicate 32 3) = Ok s) \<and>
   verify_client_proof (\<lambda>_ i _ _. i) (\<lambda>k m. k @ m) [4] test_transcript
     (compute_client_proof (\<lambda>_ i _ _. i) (\<lambda>k m. k @ m) [4] test_transcript)"
proof -
  have wf: "transcript_wf test_transcript" by (simp add: transcript_wf_def test_transcript_def)
  show ?thesis
    using handshake_agreement [OF test_x25519_ok refl refl wf wf, of 3 "[]" 5 "[]" 7 undefined
        "\<lambda>_ i _ _. i" "\<lambda>k m. k @ m" "[4]"]
    by (simp add: test_x25519_def EphemeralKeyPair_generate_def)
qed

end
