(* ===== verification/Replay.thy ===== *)
theory Replay
  imports GTP_Types
begin

text \<open>
  The replay window of \<^verbatim>\<open>gtp-crypto/src/replay.rs\<close>: a 128-packet sliding bitmap in two 64-bit
  words. The bitmap is kept at its width; the abstract view is the set of packet numbers committed
  so far. The locale \<open>replay_filter\<close> is what the receive path relies on (check first, authenticate,
  then commit) and its client lemma is the anti-replay guarantee over a whole history of arrivals.
\<close>

unbundle bit_operations_syntax

section \<open>The window\<close>

definition REPLAY_WINDOW_SIZE :: u64 where
  "REPLAY_WINDOW_SIZE = 128"

record replay_window =
  rw_largest_seen :: u64
  rw_bitmap :: "u64 \<times> u64"
  rw_initialized :: bool

definition ReplayWindow_new :: replay_window where
  "ReplayWindow_new = \<lparr> rw_largest_seen = 0, rw_bitmap = (0, 0), rw_initialized = False \<rparr>"

text \<open>The shift amount \<^verbatim>\<open>64 - shift\<close> is masked to six bits, as a release build does.\<close>

definition shift_bitmap :: "nat \<Rightarrow> u64 \<times> u64 \<Rightarrow> u64 \<times> u64" where
  "shift_bitmap shift bm =
     (if shift \<ge> 128 then (0, 0)
      else if shift \<ge> 64 then (0, push_bit (shift - 64) (fst bm))
      else (push_bit shift (fst bm),
            push_bit shift (snd bm) OR drop_bit ((64 - shift) mod 64) (fst bm)))"

definition set_bitmap :: "nat \<Rightarrow> u64 \<times> u64 \<Rightarrow> u64 \<times> u64" where
  "set_bitmap index bm =
     (if index < 64 then (fst bm OR push_bit index 1, snd bm)
      else if index < 128 then (fst bm, snd bm OR push_bit (index - 64) 1)
      else bm)"

definition is_bit_set :: "nat \<Rightarrow> u64 \<times> u64 \<Rightarrow> bool" where
  "is_bit_set index bm =
     (if index < 64 then fst bm AND push_bit index 1 \<noteq> 0
      else if index < 128 then snd bm AND push_bit (index - 64) 1 \<noteq> 0
      else False)"

definition ReplayWindow_check :: "replay_window \<Rightarrow> u64 \<Rightarrow> unit result" where
  "ReplayWindow_check w pn =
     (if \<not> rw_initialized w then Ok ()
      else if pn > rw_largest_seen w then Ok ()
      else let diff = rw_largest_seen w - pn in
        if diff \<ge> REPLAY_WINDOW_SIZE then Err ReplayDetected
        else if is_bit_set (unat diff) (rw_bitmap w) then Err ReplayDetected
        else Ok ())"

definition ReplayWindow_commit :: "replay_window \<Rightarrow> u64 \<Rightarrow> replay_window" where
  "ReplayWindow_commit w pn =
     (if \<not> rw_initialized w then
        w\<lparr> rw_initialized := True, rw_largest_seen := pn, rw_bitmap := (1, snd (rw_bitmap w)) \<rparr>
      else if pn > rw_largest_seen w then
        let shift = pn - rw_largest_seen w;
            bm = (if shift \<ge> REPLAY_WINDOW_SIZE then (0, 0)
                  else shift_bitmap (unat shift) (rw_bitmap w))
        in w\<lparr> rw_largest_seen := pn, rw_bitmap := set_bitmap 0 bm \<rparr>
      else
        let diff = rw_largest_seen w - pn in
        if diff < REPLAY_WINDOW_SIZE then w\<lparr> rw_bitmap := set_bitmap (unat diff) (rw_bitmap w) \<rparr>
        else w)"

definition check_and_update :: "replay_window \<Rightarrow> u64 \<Rightarrow> replay_window \<times> unit result" where
  "check_and_update w pn =
     (case ReplayWindow_check w pn of
        Ok _ \<Rightarrow> (ReplayWindow_commit w pn, Ok ())
      | r \<Rightarrow> (w, r))"

section \<open>Bitmap lemmas\<close>

lemma and_push_bit_1_neq_0: "(x :: u64) AND push_bit n 1 \<noteq> 0 \<longleftrightarrow> n < 64 \<and> bit x n"
proof -
  have "x AND push_bit n 1 \<noteq> 0 \<longleftrightarrow> (\<exists>i. bit (x AND push_bit n 1) i)"
    by (metis bit_0_eq bit_eqI bot_apply bot_bool_def)
  also have "\<dots> \<longleftrightarrow> n < 64 \<and> bit x n"
    by (auto simp: bit_simps)
  finally show ?thesis .
qed

lemma is_bit_set_iff:
  "is_bit_set i bm \<longleftrightarrow> i < 128 \<and> (if i < 64 then bit (fst bm) i else bit (snd bm) (i - 64))"
  unfolding is_bit_set_def and_push_bit_1_neq_0 by auto

lemma is_bit_set_set:
  "is_bit_set i (set_bitmap j bm) \<longleftrightarrow> is_bit_set i bm \<or> (i = j \<and> i < 128)"
  by (auto simp: is_bit_set_iff set_bitmap_def bit_simps)

lemma is_bit_set_shift:
  assumes "0 < s"
  shows "is_bit_set i (shift_bitmap s bm) \<longleftrightarrow> s \<le> i \<and> i < 128 \<and> is_bit_set (i - s) bm"
proof -
  have "bit (fst bm) n \<Longrightarrow> n < 64" for n
    using bit_imp_le_length by fastforce
  then show ?thesis
    using assms
    by (auto simp: is_bit_set_iff shift_bitmap_def bit_simps add.commute dest: bit_imp_le_length)
qed

lemma is_bit_set_zero [simp]: "\<not> is_bit_set i (0, 0)"
  by (simp add: is_bit_set_iff)

section \<open>Abstract view\<close>

text \<open>
  \<open>sees w S\<close>: the window \<open>w\<close> represents the set \<open>S\<close> of all packet numbers committed so far. Only
  the last 128 numbers below the largest are represented bit by bit.
\<close>

definition sees :: "replay_window \<Rightarrow> u64 set \<Rightarrow> bool" where
  "sees w S \<longleftrightarrow>
     (if rw_initialized w then
        rw_largest_seen w \<in> S \<and> (\<forall>p \<in> S. p \<le> rw_largest_seen w) \<and>
        (\<forall>p. p \<le> rw_largest_seen w \<longrightarrow> unat (rw_largest_seen w) - unat p < 128 \<longrightarrow>
           (is_bit_set (unat (rw_largest_seen w) - unat p) (rw_bitmap w) \<longleftrightarrow> p \<in> S))
      else S = {} \<and> rw_bitmap w = (0, 0))"

text \<open>The specification: accept what was not accepted before and is less than 128 behind the largest.\<close>

definition in_window :: "u64 set \<Rightarrow> u64 \<Rightarrow> bool" where
  "in_window S p \<longleftrightarrow> (\<forall>q \<in> S. unat q < unat p + 128)"

lemma word_sub_lt_window:
  "p \<le> l \<Longrightarrow> (l - p < REPLAY_WINDOW_SIZE) \<longleftrightarrow> unat l - unat p < 128" for p l :: u64
  by (simp add: REPLAY_WINDOW_SIZE_def word_less_nat_alt unat_sub)

lemma sees_new: "sees ReplayWindow_new {}"
  by (simp add: sees_def ReplayWindow_new_def)

lemma check_iff:
  assumes "sees w S"
  shows "ReplayWindow_check w p = Ok () \<longleftrightarrow> p \<notin> S \<and> in_window S p"
proof (cases "rw_initialized w")
  case False
  with assms show ?thesis
    by (simp add: sees_def ReplayWindow_check_def in_window_def)
next
  case True
  define l where "l = rw_largest_seen w"
  have mem: "l \<in> S" and max: "\<And>q. q \<in> S \<Longrightarrow> unat q \<le> unat l"
    and bits: "\<And>q. q \<le> l \<Longrightarrow> unat l - unat q < 128 \<Longrightarrow>
       is_bit_set (unat l - unat q) (rw_bitmap w) \<longleftrightarrow> q \<in> S"
    using assms True by (auto simp: sees_def l_def word_le_nat_alt)
  have win: "in_window S p \<longleftrightarrow> unat l < unat p + 128"
    using mem max by (fastforce simp: in_window_def)
  show ?thesis
  proof (cases "p > l")
    case True
    then have "unat l < unat p" by (simp add: word_less_nat_alt)
    moreover from this have "p \<notin> S" using max by fastforce
    ultimately show ?thesis
      using win True by (simp add: ReplayWindow_check_def l_def)
  next
    case False
    then have le: "p \<le> l" by simp
    moreover have "unat (l - p) = unat l - unat p"
      using le by (simp add: unat_sub)
    ultimately show ?thesis
      using win bits [of p] True False word_sub_lt_window [OF le]
      by (auto simp: ReplayWindow_check_def l_def [symmetric] Let_def not_le)
  qed
qed

lemma sees_advance:
  assumes "sees w S" and "rw_initialized w" and "p > rw_largest_seen w"
  shows "sees (ReplayWindow_commit w p) (insert p S)"
proof -
  define l where "l = rw_largest_seen w"
  define bm where "bm = (if p - l \<ge> REPLAY_WINDOW_SIZE then (0, 0)
                         else shift_bitmap (unat (p - l)) (rw_bitmap w))"
  have max: "\<And>q. q \<in> S \<Longrightarrow> q \<le> l"
    and bits: "\<And>q. q \<le> l \<Longrightarrow> unat l - unat q < 128 \<Longrightarrow>
       is_bit_set (unat l - unat q) (rw_bitmap w) \<longleftrightarrow> q \<in> S"
    using assms by (auto simp: sees_def l_def)
  have pl: "unat l < unat p" "l \<le> p" and s: "unat (p - l) = unat p - unat l"
    using assms(3) by (auto simp: l_def word_less_nat_alt word_le_nat_alt unat_sub)
  have "is_bit_set (unat p - unat q) (set_bitmap 0 bm) \<longleftrightarrow> q \<in> insert p S"
    if q: "q \<le> p" "unat p - unat q < 128" for q
  proof (cases "q \<le> l")
    case True
    then have ql: "unat q \<le> unat l" by (simp add: word_le_nat_alt)
    have "p - l < REPLAY_WINDOW_SIZE"
      using q ql pl by (simp add: word_sub_lt_window)
    then have "is_bit_set (unat p - unat q) bm \<longleftrightarrow> is_bit_set (unat l - unat q) (rw_bitmap w)"
      using q ql pl s by (auto simp: bm_def is_bit_set_shift not_le diff_le_mono2)
    then show ?thesis
      using bits [OF True] q ql pl by (auto simp: is_bit_set_set)
  next
    case False
    then have ql: "unat l < unat q" "q \<notin> S" using max by (auto simp: word_le_nat_alt)
    have "\<not> is_bit_set (unat p - unat q) bm"
      using ql pl s by (auto simp: bm_def is_bit_set_shift)
    moreover have "unat p = unat q \<longleftrightarrow> p = q"
      by (auto intro: unat_eqI)
    ultimately show ?thesis
      using ql q by (auto simp: is_bit_set_set word_le_nat_alt)
  qed
  moreover have "\<forall>q \<in> insert p S. q \<le> p"
    using max pl by fastforce
  moreover have "ReplayWindow_commit w p = w\<lparr> rw_largest_seen := p, rw_bitmap := set_bitmap 0 bm \<rparr>"
    using assms(2,3) by (simp add: ReplayWindow_commit_def Let_def l_def bm_def)
  ultimately show ?thesis
    using assms(2) by (simp add: sees_def)
qed

lemma sees_commit:
  assumes "sees w S"
  shows "sees (ReplayWindow_commit w p) (insert p S)"
proof (cases "rw_initialized w")
  case False
  then have "rw_bitmap w = (0, 0)" "S = {}"
    using assms by (auto simp: sees_def)
  moreover have "is_bit_set n (1, 0) \<longleftrightarrow> n = 0" for n
    by (auto simp: is_bit_set_iff bit_1_iff)
  moreover have "unat p - unat q = 0 \<longleftrightarrow> q = p" if "q \<le> p" for q
    using that by (auto simp: word_le_nat_alt intro: unat_eqI)
  ultimately show ?thesis
    using False by (auto simp: sees_def ReplayWindow_commit_def)
next
  case init: True
  show ?thesis
  proof (cases "p > rw_largest_seen w")
    case True
    then show ?thesis using assms init by (simp add: sees_advance)
  next
    case False
    define l where "l = rw_largest_seen w"
    have le: "p \<le> l" using False by (simp add: l_def)
    have d: "unat (l - p) = unat l - unat p" using le by (simp add: unat_sub)
    have "unat l - unat q = unat l - unat p \<longleftrightarrow> q = p" if "q \<le> l" for q
      using that le by (auto simp: word_le_nat_alt intro: unat_eqI)
    then show ?thesis
      using assms init False le d word_sub_lt_window [OF le]
      by (auto simp: sees_def ReplayWindow_commit_def Let_def is_bit_set_set l_def [symmetric])
  qed
qed

section \<open>The receive path as client\<close>

text \<open>
  What \<^verbatim>\<open>Connection::process_datagram\<close> does with the window: check the packet number, open the
  packet, and commit only what authenticated. An arrival is a packet number with the verdict of the
  AEAD; the result is the list of accepted packet numbers.
\<close>

fun receive_all ::
  "('s \<Rightarrow> 'p \<Rightarrow> unit result) \<Rightarrow> ('s \<Rightarrow> 'p \<Rightarrow> 's) \<Rightarrow> 's \<Rightarrow> ('p \<times> bool) list \<Rightarrow> 's \<times> 'p list" where
  "receive_all check commit s [] = (s, [])"
| "receive_all check commit s ((p, authentic) # ps) =
     (if check s p = Ok () \<and> authentic
      then (let (s', acc) = receive_all check commit (commit s p) ps in (s', p # acc))
      else receive_all check commit s ps)"

text \<open>The reference: the same arrivals against the set of packet numbers accepted so far.\<close>

fun accept_spec :: "('p set \<Rightarrow> 'p \<Rightarrow> bool) \<Rightarrow> 'p set \<Rightarrow> ('p \<times> bool) list \<Rightarrow> 'p list" where
  "accept_spec window S [] = []"
| "accept_spec window S ((p, authentic) # ps) =
     (if p \<notin> S \<and> window S p \<and> authentic then p # accept_spec window (insert p S) ps
      else accept_spec window S ps)"

lemma receive_all_filter: "receive_all check commit s (filter snd ps) = receive_all check commit s ps"
  by (induction check commit s ps rule: receive_all.induct) auto

locale replay_filter =
  fixes view :: "'s \<Rightarrow> 'p set \<Rightarrow> bool"
    and window :: "'p set \<Rightarrow> 'p \<Rightarrow> bool"
    and check :: "'s \<Rightarrow> 'p \<Rightarrow> unit result"
    and commit :: "'s \<Rightarrow> 'p \<Rightarrow> 's"
  assumes check_view: "view s S \<Longrightarrow> check s p = Ok () \<longleftrightarrow> p \<notin> S \<and> window S p"
    and commit_view: "view s S \<Longrightarrow> view (commit s p) (insert p S)"
begin

lemma receive_refines: "view s S \<Longrightarrow> snd (receive_all check commit s ps) = accept_spec window S ps"
proof (induction ps arbitrary: s S)
  case (Cons pa ps)
  obtain p authentic where pa: "pa = (p, authentic)" by (cases pa)
  have "snd (receive_all check commit (commit s p) ps) = accept_spec window (insert p S) ps"
    using Cons by (simp add: commit_view)
  then show ?case
    using Cons pa by (auto simp: check_view case_prod_beta)
qed simp

lemma spec_distinct: "distinct (accept_spec window S ps) \<and> set (accept_spec window S ps) \<inter> S = {}"
  by (induction window S ps rule: accept_spec.induct) auto

lemma at_most_once:
  "view s S \<Longrightarrow> distinct (snd (receive_all check commit s ps)) \<and>
     set (snd (receive_all check commit s ps)) \<inter> S = {}"
  using spec_distinct receive_refines by metis

lemma spec_authentic: "set (accept_spec window S ps) \<subseteq> {p. (p, True) \<in> set ps}"
  by (induction window S ps rule: accept_spec.induct) auto

lemma only_authentic:
  "view s S \<Longrightarrow> set (snd (receive_all check commit s ps)) \<subseteq> {p. (p, True) \<in> set ps}"
  using spec_authentic receive_refines by metis

end

interpretation replay: replay_filter sees in_window ReplayWindow_check ReplayWindow_commit
  by unfold_locales (simp_all add: check_iff sees_commit)

section \<open>Properties\<close>

text \<open>
  C22: the bitmap window implements its specification. Over any history of arrivals, starting from
  a new window, the packet numbers the receive path accepts are exactly those that a window keeping
  the complete set of accepted numbers would accept: authentic, not accepted before, and less than
  128 behind the largest accepted number.
\<close>

theorem replay_window_refines:
  "snd (receive_all ReplayWindow_check ReplayWindow_commit ReplayWindow_new ps) = accept_spec in_window {} ps"
  by (rule replay.receive_refines [OF sees_new])

text \<open>
  No packet number is accepted twice, and no unauthenticated packet is accepted or changes the
  window, in any history of arrivals: the accepted list is duplicate-free and contains authentic
  arrivals only. Dropping the arrivals that failed authentication leaves the result unchanged.
\<close>

theorem replay_accepts_once:
  "distinct (snd (receive_all ReplayWindow_check ReplayWindow_commit ReplayWindow_new ps)) \<and>
   set (snd (receive_all ReplayWindow_check ReplayWindow_commit ReplayWindow_new ps)) \<subseteq> {p. (p, True) \<in> set ps} \<and>
   receive_all ReplayWindow_check ReplayWindow_commit ReplayWindow_new (filter snd ps) =
     receive_all ReplayWindow_check ReplayWindow_commit ReplayWindow_new ps"
  using replay.at_most_once [OF sees_new, of ps] replay.only_authentic [OF sees_new, of ps]
    receive_all_filter [of ReplayWindow_check ReplayWindow_commit ReplayWindow_new ps]
  by simp

end
