(* ===== verification/Ack_Tracker.thy ===== *)
theory Ack_Tracker
  imports Wire_Frame
begin

text \<open>
  The receiver side of acknowledgement (\<^verbatim>\<open>gtp-recovery/src/ack_tracker.rs\<close>): the descending list
  of received packet-number intervals, the ACK policy and the ACK frame builder. Packet numbers and
  times are \<open>nat\<close>; the two places where the code adds one to a packet number wrap at 64 bits. The
  abstract view of the interval list is the set of packet numbers it covers.
\<close>

section \<open>State\<close>

record packet_interval =
  iv_start :: nat
  iv_end :: nat

definition ACK_RETENTION_WINDOW :: nat where
  "ACK_RETENTION_WINDOW = 1024"

record ack_tracker =
  at_intervals :: "packet_interval list"
  at_largest_received :: "nat option"
  at_largest_received_time :: monotonic_time
  at_unacked_packet_count :: u8
  at_last_ack_sent_time :: "monotonic_time option"
  at_ack_frequency :: u8
  at_max_ack_delay :: duration
  at_ect0_count :: u32
  at_ect1_count :: u32
  at_ce_count :: u32
  at_has_gap :: bool

definition AckTracker_default :: ack_tracker where
  "AckTracker_default =
     \<lparr> at_intervals = [], at_largest_received = None, at_largest_received_time = MonotonicTime_ZERO,
       at_unacked_packet_count = 0, at_last_ack_sent_time = None, at_ack_frequency = 2,
       at_max_ack_delay = Duration_from_millis 25, at_ect0_count = 0, at_ect1_count = 0,
       at_ce_count = 0, at_has_gap = False \<rparr>"

definition AckTracker_with_policy :: "u8 \<Rightarrow> duration \<Rightarrow> ack_tracker" where
  "AckTracker_with_policy freq delay =
     AckTracker_default\<lparr> at_ack_frequency := max freq 1, at_max_ack_delay := delay \<rparr>"

definition AckTracker_set_policy :: "u8 \<Rightarrow> duration \<Rightarrow> ack_tracker \<Rightarrow> ack_tracker" where
  "AckTracker_set_policy freq delay t = t\<lparr> at_ack_frequency := max freq 1, at_max_ack_delay := delay \<rparr>"

definition interval_count :: "ack_tracker \<Rightarrow> nat" where
  "interval_count t = length (at_intervals t)"

section \<open>Interval maintenance\<close>

text \<open>One pass over adjacent pairs; a merged interval is compared again with its new successor.\<close>

fun merge_adjacent :: "packet_interval list \<Rightarrow> packet_interval list" where
  "merge_adjacent (a # b # ivs) =
     (if iv_start a \<le> wadd64 (iv_end b) 1
      then merge_adjacent (a\<lparr> iv_start := iv_start b \<rparr> # ivs)
      else a # merge_adjacent (b # ivs))"
| "merge_adjacent ivs = ivs"

text \<open>
  The scan of \<^verbatim>\<open>insert_packet\<close>: the updated list and whether \<^verbatim>\<open>merge_adjacent\<close> is called on it.
\<close>

fun insert_scan :: "nat \<Rightarrow> packet_interval list \<Rightarrow> packet_interval list \<times> bool" where
  "insert_scan pn [] = ([\<lparr> iv_start = pn, iv_end = pn \<rparr>], False)"
| "insert_scan pn (iv # ivs) =
     (if pn \<ge> iv_start iv \<and> pn \<le> iv_end iv then (iv # ivs, False)
      else if wadd64 pn 1 = iv_start iv then (iv\<lparr> iv_start := pn \<rparr> # ivs, True)
      else if pn = wadd64 (iv_end iv) 1 then (iv\<lparr> iv_end := pn \<rparr> # ivs, True)
      else if pn > iv_end iv then (\<lparr> iv_start = pn, iv_end = pn \<rparr> # iv # ivs, False)
      else (let (ivs', merge) = insert_scan pn ivs in (iv # ivs', merge)))"

definition insert_packet :: "nat \<Rightarrow> packet_interval list \<Rightarrow> packet_interval list" where
  "insert_packet pn ivs = (let (ivs', merge) = insert_scan pn ivs in
     if merge then merge_adjacent ivs' else ivs')"

definition prune_old_intervals :: "nat option \<Rightarrow> packet_interval list \<Rightarrow> packet_interval list" where
  "prune_old_intervals largest_received ivs = (case largest_received of
       None \<Rightarrow> ivs
     | Some largest \<Rightarrow> filter (\<lambda>iv. iv_end iv > sat_sub largest ACK_RETENTION_WINDOW) ivs)"

section \<open>Operations\<close>

definition count_ecn :: "u8 \<Rightarrow> ack_tracker \<Rightarrow> ack_tracker" where
  "count_ecn ecn t =
     (if ecn = 1 then t\<lparr> at_ect1_count := sat_add32 (at_ect1_count t) 1 \<rparr>
      else if ecn = 2 then t\<lparr> at_ect0_count := sat_add32 (at_ect0_count t) 1 \<rparr>
      else if ecn = 3 then t\<lparr> at_ce_count := sat_add32 (at_ce_count t) 1 \<rparr>
      else t)"

definition update_largest :: "nat \<Rightarrow> monotonic_time \<Rightarrow> ack_tracker \<Rightarrow> ack_tracker" where
  "update_largest pn now t = (case at_largest_received t of
       None \<Rightarrow> t\<lparr> at_largest_received := Some pn, at_largest_received_time := now \<rparr>
     | Some prev \<Rightarrow>
         if pn > prev then
           t\<lparr> at_has_gap := (at_has_gap t \<or> pn > wadd64 prev 1),
              at_largest_received := Some pn, at_largest_received_time := now \<rparr>
         else t)"

definition AckTracker_on_packet_received ::
  "nat \<Rightarrow> bool \<Rightarrow> u8 \<Rightarrow> monotonic_time \<Rightarrow> ack_tracker \<Rightarrow> ack_tracker" where
  "AckTracker_on_packet_received pn ack_eliciting ecn now t =
     (let t1 = count_ecn ecn t;
          t2 = (if at_last_ack_sent_time t1 = None then t1\<lparr> at_last_ack_sent_time := Some now \<rparr> else t1);
          t3 = update_largest pn now t2;
          ivs = prune_old_intervals (at_largest_received t3) (insert_packet pn (at_intervals t3));
          t4 = t3\<lparr> at_intervals := ivs \<rparr>
      in if ack_eliciting
         then t4\<lparr> at_unacked_packet_count := sat_add8 (at_unacked_packet_count t4) 1 \<rparr> else t4)"

definition should_send_ack :: "monotonic_time \<Rightarrow> ack_tracker \<Rightarrow> bool" where
  "should_send_ack now t \<longleftrightarrow>
     (if at_unacked_packet_count t = 0 then False
      else if at_has_gap t then True
      else if at_unacked_packet_count t \<ge> at_ack_frequency t then True
      else case at_last_ack_sent_time t of
          None \<Rightarrow> False
        | Some last_ack \<Rightarrow> duration_since now last_ack \<ge> at_max_ack_delay t)"

text \<open>The loop over the intervals after the first; \<open>prev_start\<close> is its loop variable.\<close>

fun ack_ranges_from :: "nat \<Rightarrow> packet_interval list \<Rightarrow> ack_range list" where
  "ack_ranges_from prev_start [] = []"
| "ack_ranges_from prev_start (iv # ivs) =
     \<lparr> ar_gap = of_nat (sat_sub prev_start (wadd64 (iv_end iv) 1)),
       ar_length = of_nat (iv_end iv - iv_start iv) \<rparr> # ack_ranges_from (iv_start iv) ivs"

fun ack_ranges :: "packet_interval list \<Rightarrow> ack_range list" where
  "ack_ranges [] = []"
| "ack_ranges (first # ivs) =
     \<lparr> ar_gap = 0, ar_length = of_nat (iv_end first - iv_start first) \<rparr> #
       ack_ranges_from (iv_start first) (take (MAX_ACK_RANGES - 1) ivs)"

definition peek_ack_frame :: "monotonic_time \<Rightarrow> ack_tracker \<Rightarrow> frame option" where
  "peek_ack_frame now t = (case at_largest_received t of
       None \<Rightarrow> None
     | Some largest \<Rightarrow>
         let delay = duration_since now (at_largest_received_time t);
             rs = ack_ranges (at_intervals t)
         in Some (Ack (of_nat largest) (if delay \<le> u32_max then of_nat delay else 0xFFFFFFFF)
                   (rs @ replicate (MAX_ACK_RANGES - length rs) AckRange_default)
                   (of_nat (length rs))
                   (at_ect0_count t) (at_ect1_count t) (at_ce_count t)))"

definition commit_ack_sent :: "monotonic_time \<Rightarrow> ack_tracker \<Rightarrow> ack_tracker" where
  "commit_ack_sent now t =
     t\<lparr> at_unacked_packet_count := 0, at_has_gap := False, at_last_ack_sent_time := Some now \<rparr>"

definition generate_ack_frame :: "monotonic_time \<Rightarrow> ack_tracker \<Rightarrow> ack_tracker \<times> frame option" where
  "generate_ack_frame now t = (case peek_ack_frame now t of
       None \<Rightarrow> (t, None)
     | Some f \<Rightarrow> (commit_ack_sent now t, Some f))"

section \<open>The interval list as a set\<close>

definition iv_set :: "packet_interval \<Rightarrow> nat set" where
  "iv_set iv = {iv_start iv .. iv_end iv}"

definition ivs_set :: "packet_interval list \<Rightarrow> nat set" where
  "ivs_set ivs = (\<Union>iv \<in> set ivs. iv_set iv)"

definition iv_ok :: "packet_interval \<Rightarrow> bool" where
  "iv_ok iv \<longleftrightarrow> iv_start iv \<le> iv_end iv \<and> iv_end iv < u64_max"

text \<open>Descending and disjoint (\<open>weak\<close>), and with a hole between neighbours (\<open>ivs_wf\<close>).\<close>

definition ivs_weak :: "packet_interval list \<Rightarrow> bool" where
  "ivs_weak ivs \<longleftrightarrow> (\<forall>iv \<in> set ivs. iv_ok iv) \<and> sorted_wrt (\<lambda>a b. iv_end b < iv_start a) ivs"

definition ivs_wf :: "packet_interval list \<Rightarrow> bool" where
  "ivs_wf ivs \<longleftrightarrow> (\<forall>iv \<in> set ivs. iv_ok iv) \<and> sorted_wrt (\<lambda>a b. iv_end b + 1 < iv_start a) ivs"

lemma ivs_set_simps [simp]: "ivs_set [] = {}" "ivs_set (iv # ivs) = iv_set iv \<union> ivs_set ivs"
  by (auto simp: ivs_set_def)

lemma ivs_wf_Nil [simp]: "ivs_wf []"
  by (simp add: ivs_wf_def)

lemma ivs_wf_weak: "ivs_wf ivs \<Longrightarrow> ivs_weak ivs"
  by (auto simp: ivs_wf_def ivs_weak_def elim!: sorted_wrt_mono_rel [rotated])

lemma end_in_set: "iv_ok iv \<Longrightarrow> iv \<in> set ivs \<Longrightarrow> iv_end iv \<in> ivs_set ivs"
  by (auto simp: ivs_set_def iv_set_def iv_ok_def)

lemma wadd64_suc [simp]: "n < u64_max \<Longrightarrow> wadd64 n (Suc 0) = Suc n"
  by (simp add: u64_max_modulus)

lemma iv_set_update [simp]:
  "iv_set (iv\<lparr> iv_start := s \<rparr>) = {s .. iv_end iv}" "iv_set (iv\<lparr> iv_end := e \<rparr>) = {iv_start iv .. e}"
  by (simp_all add: iv_set_def)

text \<open>Consing an interval that lies above everything covered.\<close>

lemma ivs_wf_Cons:
  "ivs_wf (iv # ivs) \<longleftrightarrow> iv_ok iv \<and> ivs_wf ivs \<and> (\<forall>x \<in> ivs_set ivs. x + 1 < iv_start iv)"
proof -
  have "(\<forall>x \<in> ivs_set ivs. x + 1 < iv_start iv) \<longleftrightarrow> (\<forall>b \<in> set ivs. iv_end b + 1 < iv_start iv)"
    if "\<forall>b \<in> set ivs. iv_ok b"
  proof
    assume "\<forall>x \<in> ivs_set ivs. x + 1 < iv_start iv"
    with that show "\<forall>b \<in> set ivs. iv_end b + 1 < iv_start iv"
      by (auto intro: end_in_set)
  next
    assume "\<forall>b \<in> set ivs. iv_end b + 1 < iv_start iv"
    then show "\<forall>x \<in> ivs_set ivs. x + 1 < iv_start iv"
      by (fastforce simp: ivs_set_def iv_set_def)
  qed
  then show ?thesis
    by (auto simp: ivs_wf_def)
qed

lemma ivs_weak_Cons:
  "ivs_weak (iv # ivs) \<longleftrightarrow> iv_ok iv \<and> ivs_weak ivs \<and> (\<forall>x \<in> ivs_set ivs. x < iv_start iv)"
proof -
  have "(\<forall>x \<in> ivs_set ivs. x < iv_start iv) \<longleftrightarrow> (\<forall>b \<in> set ivs. iv_end b < iv_start iv)"
    if "\<forall>b \<in> set ivs. iv_ok b"
  proof
    assume "\<forall>x \<in> ivs_set ivs. x < iv_start iv"
    with that show "\<forall>b \<in> set ivs. iv_end b < iv_start iv"
      by (auto intro: end_in_set)
  next
    assume "\<forall>b \<in> set ivs. iv_end b < iv_start iv"
    then show "\<forall>x \<in> ivs_set ivs. x < iv_start iv"
      by (fastforce simp: ivs_set_def iv_set_def)
  qed
  then show ?thesis
    by (auto simp: ivs_weak_def)
qed

lemma merge_adjacent_wf:
  "ivs_weak ivs \<Longrightarrow> ivs_wf (merge_adjacent ivs) \<and> ivs_set (merge_adjacent ivs) = ivs_set ivs"
proof (induction ivs rule: merge_adjacent.induct)
  case (1 a b ivs)
  then have a: "iv_ok a" "iv_end b < iv_start a" "\<forall>x \<in> ivs_set ivs. x < iv_start a"
    and b: "iv_ok b" "\<forall>x \<in> ivs_set ivs. x < iv_start b" "ivs_weak ivs"
    by (auto simp: ivs_weak_Cons iv_set_def iv_ok_def)
  show ?case
  proof (cases "iv_start a \<le> wadd64 (iv_end b) 1")
    case True
    with a b have "iv_start a = iv_end b + 1"
      by (simp add: iv_ok_def)
    then have "{iv_start b .. iv_end a} = iv_set a \<union> iv_set b"
      using a b by (auto simp: iv_set_def iv_ok_def)
    moreover have "ivs_weak (a\<lparr> iv_start := iv_start b \<rparr> # ivs)"
      using a b by (auto simp: ivs_weak_Cons iv_ok_def)
    ultimately show ?thesis
      using "1.IH"(1) [OF True] True by auto
  next
    case False
    have "ivs_weak (b # ivs)"
      using b by (simp add: ivs_weak_Cons)
    moreover have "\<forall>x \<in> ivs_set (b # ivs). x + 1 < iv_start a"
      using False a b by (fastforce simp: iv_set_def iv_ok_def)
    ultimately show ?thesis
      using "1.IH"(2) [OF False] False a by (auto simp: ivs_wf_Cons)
  qed
qed (auto simp: ivs_weak_def ivs_wf_def)

lemma insert_scan_wf:
  assumes "ivs_wf ivs" and "pn < u64_max" and "insert_scan pn ivs = (ivs', m)"
  shows "ivs_weak ivs' \<and> ivs_set ivs' = insert pn (ivs_set ivs) \<and> (\<not> m \<longrightarrow> ivs_wf ivs')"
  using assms
proof (induction ivs arbitrary: ivs' m)
  case Nil
  then show ?case
    by (auto simp: ivs_weak_def ivs_wf_def iv_set_def iv_ok_def)
next
  case (Cons iv ivs)
  have iv: "iv_start iv \<le> iv_end iv" "iv_end iv < u64_max" and wf: "ivs_wf ivs" "ivs_weak ivs"
    and low: "\<And>x. x \<in> ivs_set ivs \<Longrightarrow> x + 1 < iv_start iv"
    using Cons.prems(1) by (auto simp: ivs_wf_Cons iv_ok_def ivs_wf_weak)
  consider (covered) "iv_start iv \<le> pn" "pn \<le> iv_end iv"
    | (below) "pn + 1 = iv_start iv"
    | (above) "pn = iv_end iv + 1"
    | (beyond) "iv_end iv + 1 < pn"
    | (rest) "pn + 1 < iv_start iv"
    using iv by linarith
  then show ?case
  proof cases
    case covered
    then show ?thesis
      using Cons.prems by (auto simp: iv_set_def ivs_wf_weak)
  next
    case below
    then have "ivs' = iv\<lparr> iv_start := pn \<rparr> # ivs" "m"
      using Cons.prems by auto
    then show ?thesis
      using below iv wf low by (fastforce simp: ivs_weak_Cons iv_ok_def iv_set_def)
  next
    case above
    then have "ivs' = iv\<lparr> iv_end := pn \<rparr> # ivs" "m"
      using Cons.prems iv by auto
    then show ?thesis
      using above iv wf low Cons.prems(2) by (fastforce simp: ivs_weak_Cons iv_ok_def iv_set_def)
  next
    case beyond
    then have "ivs' = \<lparr> iv_start = pn, iv_end = pn \<rparr> # iv # ivs" "\<not> m"
      using Cons.prems iv by auto
    moreover have "ivs_wf (\<lparr> iv_start = pn, iv_end = pn \<rparr> # iv # ivs)"
      using beyond iv low Cons.prems(1,2)
      by (subst ivs_wf_Cons) (fastforce simp: iv_ok_def iv_set_def)
    ultimately show ?thesis
      by (auto simp: iv_set_def ivs_wf_weak)
  next
    case rest
    obtain r where r: "insert_scan pn ivs = (r, m)" "ivs' = iv # r"
      using Cons.prems rest iv by (auto split: prod.splits)
    then have "ivs_weak r \<and> ivs_set r = insert pn (ivs_set ivs) \<and> (\<not> m \<longrightarrow> ivs_wf r)"
      using Cons wf by blast
    then show ?thesis
      using r rest low iv by (fastforce simp: ivs_weak_Cons ivs_wf_Cons iv_ok_def)
  qed
qed

lemma insert_packet_wf:
  assumes "ivs_wf ivs" and "pn < u64_max"
  shows "ivs_wf (insert_packet pn ivs)" and "ivs_set (insert_packet pn ivs) = insert pn (ivs_set ivs)"
  using insert_scan_wf [OF assms] merge_adjacent_wf
  by (auto simp: insert_packet_def split: prod.split)

section \<open>Tracker invariant\<close>

text \<open>
  \<open>tracks t R\<close>: the tracker after the packet numbers \<open>R\<close> were received. It never acknowledges what
  was not received, and it remembers everything received above the retention floor.
\<close>

definition tracks :: "ack_tracker \<Rightarrow> nat set \<Rightarrow> bool" where
  "tracks t R \<longleftrightarrow> ivs_wf (at_intervals t) \<and> ivs_set (at_intervals t) \<subseteq> R \<and>
     (case at_largest_received t of
        None \<Rightarrow> R = {}
      | Some l \<Rightarrow> l \<in> R \<and> l < u64_max \<and> (\<forall>p \<in> R. p \<le> l) \<and>
          (\<forall>iv \<in> set (at_intervals t). iv_end iv > l - ACK_RETENTION_WINDOW) \<and>
          (\<forall>p \<in> R. p > l - ACK_RETENTION_WINDOW \<longrightarrow> p \<in> ivs_set (at_intervals t)))"

lemma tracks_default: "tracks AckTracker_default {}"
  by (simp add: tracks_def AckTracker_default_def)

lemma tracks_set_policy: "tracks t R \<Longrightarrow> tracks (AckTracker_set_policy f d t) R"
  by (simp add: tracks_def AckTracker_set_policy_def split: option.splits)

lemma tracks_commit: "tracks t R \<Longrightarrow> tracks (commit_ack_sent now t) R"
  by (simp add: tracks_def commit_ack_sent_def split: option.splits)

lemma ivs_wf_filter: "ivs_wf ivs \<Longrightarrow> ivs_wf (filter P ivs)"
  by (simp add: ivs_wf_def sorted_wrt_filter)

lemma ivs_set_filter: "ivs_set (filter P ivs) \<subseteq> ivs_set ivs"
  by (auto simp: ivs_set_def)

lemma prune_keeps:
  "x \<in> ivs_set ivs \<Longrightarrow> x > f \<Longrightarrow> x \<in> ivs_set (filter (\<lambda>iv. iv_end iv > f) ivs)"
  by (fastforce simp: ivs_set_def iv_set_def)

lemma received_intervals:
  "at_intervals (AckTracker_on_packet_received pn e ecn now t) =
     prune_old_intervals (at_largest_received (AckTracker_on_packet_received pn e ecn now t))
       (insert_packet pn (at_intervals t))"
  by (simp add: AckTracker_on_packet_received_def update_largest_def count_ecn_def Let_def
      split: option.split)

lemma received_largest:
  "at_largest_received (AckTracker_on_packet_received pn e ecn now t) =
     Some (case at_largest_received t of None \<Rightarrow> pn | Some l \<Rightarrow> max l pn)"
  by (auto simp: AckTracker_on_packet_received_def update_largest_def count_ecn_def Let_def max_def
      split: option.split)

lemma tracks_received:
  assumes "tracks t R" and "pn < u64_max"
  shows "tracks (AckTracker_on_packet_received pn e ecn now t) (insert pn R)"
proof -
  let ?t = "AckTracker_on_packet_received pn e ecn now t"
  define l where "l = (case at_largest_received t of None \<Rightarrow> pn | Some l \<Rightarrow> max l pn)"
  define ivs where "ivs = insert_packet pn (at_intervals t)"
  have wf: "ivs_wf ivs" and cover: "ivs_set ivs = insert pn (ivs_set (at_intervals t))"
    using assms by (simp_all add: tracks_def ivs_def insert_packet_wf)
  have eq: "at_intervals ?t = filter (\<lambda>iv. iv_end iv > l - ACK_RETENTION_WINDOW) ivs"
    by (simp add: received_intervals received_largest prune_old_intervals_def l_def ivs_def sat_sub_def)
  have "p \<in> ivs_set ivs" if "p \<in> insert pn R" "p > l - ACK_RETENTION_WINDOW" for p
    using that assms(1) cover by (auto simp: tracks_def l_def split: option.splits)
  moreover have "ivs_set (at_intervals ?t) \<subseteq> insert pn R"
    using assms(1) cover ivs_set_filter [of _ ivs] by (fastforce simp: tracks_def eq)
  moreover have "l \<in> insert pn R" "l < u64_max" "\<forall>p \<in> insert pn R. p \<le> l"
    using assms by (auto simp: tracks_def l_def max_def split: option.splits)
  ultimately show ?thesis
    unfolding tracks_def eq received_largest
    using wf ivs_wf_filter prune_keeps by (simp add: l_def [symmetric])
qed

text \<open>The first interval ends in the largest received packet number (packet numbers start at 1).\<close>

lemma tracks_first:
  assumes "tracks t R" and "at_largest_received t = Some l" and "0 < l"
  obtains iv ivs where "at_intervals t = iv # ivs" and "iv_end iv = l"
proof -
  have l: "l \<in> ivs_set (at_intervals t)" and le: "\<And>x. x \<in> ivs_set (at_intervals t) \<Longrightarrow> x \<le> l"
    and wf: "ivs_wf (at_intervals t)"
    using assms by (auto simp: tracks_def ACK_RETENTION_WINDOW_def)
  then obtain iv ivs where eq: "at_intervals t = iv # ivs"
    by (cases "at_intervals t") auto
  have "iv_ok iv" and "\<forall>x \<in> ivs_set ivs. x + 1 < iv_start iv"
    using wf by (simp_all add: eq ivs_wf_Cons)
  then have "iv_end iv = l"
    using l le [of "iv_end iv"] by (fastforce simp: eq iv_set_def iv_ok_def)
  with eq show thesis by (rule that)
qed

lemma ack_ranges_length: "length (ack_ranges ivs) = min (length ivs) MAX_ACK_RANGES"
proof -
  have "length (ack_ranges_from p xs) = length xs" for p xs
    by (induction p xs rule: ack_ranges_from.induct) simp_all
  then show ?thesis
    by (cases ivs) (auto simp: MAX_ACK_RANGES_def)
qed

section \<open>Properties\<close>

text \<open>
  The interval list is a faithful set of received packet numbers. Inserting a packet number
  into a descending list of disjoint, non-adjacent intervals gives such a list again, covering
  exactly the old packet numbers and the new one, whatever merges that takes.
\<close>

theorem insert_packet_refines_insert:
  assumes "ivs_wf ivs" and "pn < u64_max"
  shows "ivs_wf (insert_packet pn ivs) \<and> ivs_set (insert_packet pn ivs) = insert pn (ivs_set ivs)"
  using insert_packet_wf [OF assms] by blast

theorem insert_packet_refines_insert_witness:
  "ivs_wf (insert_packet 3 [\<lparr> iv_start = 4, iv_end = 6 \<rparr>, \<lparr> iv_start = 1, iv_end = 2 \<rparr>]) \<and>
   ivs_set (insert_packet 3 [\<lparr> iv_start = 4, iv_end = 6 \<rparr>, \<lparr> iv_start = 1, iv_end = 2 \<rparr>]) = {1..6}"
proof -
  let ?ivs = "[\<lparr> iv_start = 4, iv_end = 6 \<rparr>, \<lparr> iv_start = 1, iv_end = 2 \<rparr>]"
  have wf: "ivs_wf ?ivs" "(3 :: nat) < u64_max" by (simp_all add: ivs_wf_def iv_ok_def u64_max_def)
  have cover: "{1..6} = insert 3 (ivs_set ?ivs)" by (auto simp: iv_set_def)
  show ?thesis unfolding cover by (rule insert_packet_refines_insert [OF wf])
qed

text \<open>Histories of the tracker: arrivals, transmitted ACKs and policy changes.\<close>

datatype tracker_op = Receive nat bool u8 monotonic_time | Commit monotonic_time | Policy u8 duration

fun tracker_step :: "tracker_op \<Rightarrow> ack_tracker \<Rightarrow> ack_tracker" where
  "tracker_step (Receive pn e ecn now) t = AckTracker_on_packet_received pn e ecn now t"
| "tracker_step (Commit now) t = commit_ack_sent now t"
| "tracker_step (Policy f d) t = AckTracker_set_policy f d t"

fun received_by :: "tracker_op \<Rightarrow> nat set" where
  "received_by (Receive pn e ecn now) = {pn}"
| "received_by _ = {}"

lemma tracks_step:
  assumes "tracks t R" and "received_by op \<subseteq> {..<u64_max}"
  shows "tracks (tracker_step op t) (R \<union> received_by op)"
  using assms by (cases op) (simp_all add: tracks_received tracks_commit tracks_set_policy)

lemma tracks_run:
  assumes "tracks t R" and "\<forall>op \<in> set ops. received_by op \<subseteq> {..<u64_max}"
  shows "tracks (fold tracker_step ops t) (R \<union> (\<Union>op \<in> set ops. received_by op))"
  using assms
proof (induction ops arbitrary: t R)
  case (Cons op ops)
  have "tracks (tracker_step op t) (R \<union> received_by op)"
    using Cons.prems by (intro tracks_step) simp_all
  from Cons.IH [OF this] Cons.prems show ?case
    by (simp add: Un_assoc)
qed simp

text \<open>
  The tracker never acknowledges what it did not receive and remembers everything recent. After
  any history of arrivals, interleaved with committed ACKs and policy changes, every covered packet
  number was received, every received number less than 1024 below the largest is covered, and the
  largest is recorded.
\<close>

theorem tracker_history_sound:
  assumes "\<forall>op \<in> set ops. received_by op \<subseteq> {..<u64_max}"
    and "R = (\<Union>op \<in> set ops. received_by op)"
    and "t = fold tracker_step ops AckTracker_default"
  shows "ivs_wf (at_intervals t) \<and> ivs_set (at_intervals t) \<subseteq> R \<and>
    (R = {} \<and> at_largest_received t = None \<or>
     (\<exists>l \<in> R. at_largest_received t = Some l \<and> (\<forall>p \<in> R. p \<le> l) \<and>
        (\<forall>p \<in> R. p > l - ACK_RETENTION_WINDOW \<longrightarrow> p \<in> ivs_set (at_intervals t))))"
  using tracks_run [OF tracks_default assms(1)] assms(2,3)
  by (simp add: tracks_def split: option.splits)

theorem tracker_history_sound_witness:
  "let t = fold tracker_step [Receive 2 True 0 5, Commit 6, Receive 1 True 3 7] AckTracker_default in
     ivs_set (at_intervals t) \<subseteq> {1, 2}"
  using tracker_history_sound [of "[Receive 2 True 0 5, Commit 6, Receive 1 True 3 7]" "{1, 2}", OF _ _ refl]
  by (simp add: u64_max_def Let_def insert_commute)

end
