(* ===== verification/Wire_Header.thy ===== *)
theory Wire_Header
  imports Codec_Contract
begin

unbundle bit_operations_syntax

text \<open>
  \<^verbatim>\<open>gtp-wire/src/header.rs\<close>: the flag byte and the long/short packet header. The encoder is a
  sequence of writes at consecutive offsets of the caller's buffer (\<open>puts\<close>), the decoder reads the
  fields through checked slices, so that its freedom from panics is a theorem. A header is
  well-formed when its constructors could have built it: the version is present exactly on long
  headers and \<^verbatim>\<open>header_len\<close> is the flags-derived length.
\<close>

definition GTP_V1_1 :: u32 where
  "GTP_V1_1 = 0x00010001"

definition MIN_COMMON_HEADER_LEN :: nat where
  "MIN_COMMON_HEADER_LEN = 24"

definition MIN_LONG_HEADER_LEN :: nat where
  "MIN_LONG_HEADER_LEN = 28"

section \<open>Flags\<close>

definition LONG_HEADER :: u8 where
  "LONG_HEADER = 0x80"

definition KEY_PHASE :: u8 where
  "KEY_PHASE = 0x40"

definition ACK_PRESENT :: u8 where
  "ACK_PRESENT = 0x20"

definition ECN_MASK :: u8 where
  "ECN_MASK = 0x18"

definition is_long_header :: "u8 \<Rightarrow> bool" where
  "is_long_header fl \<longleftrightarrow> fl AND LONG_HEADER \<noteq> 0"

definition set_long_header :: "u8 \<Rightarrow> bool \<Rightarrow> u8" where
  "set_long_header fl is_long = (if is_long then fl OR LONG_HEADER else fl AND NOT LONG_HEADER)"

definition key_phase :: "u8 \<Rightarrow> bool" where
  "key_phase fl \<longleftrightarrow> fl AND KEY_PHASE \<noteq> 0"

definition set_key_phase :: "u8 \<Rightarrow> bool \<Rightarrow> u8" where
  "set_key_phase fl ph = (if ph then fl OR KEY_PHASE else fl AND NOT KEY_PHASE)"

definition has_ack :: "u8 \<Rightarrow> bool" where
  "has_ack fl \<longleftrightarrow> fl AND ACK_PRESENT \<noteq> 0"

definition set_ack_present :: "u8 \<Rightarrow> bool \<Rightarrow> u8" where
  "set_ack_present fl p = (if p then fl OR ACK_PRESENT else fl AND NOT ACK_PRESENT)"

definition ecn_bits :: "u8 \<Rightarrow> u8" where
  "ecn_bits fl = drop_bit 3 (fl AND ECN_MASK)"

definition set_ecn_bits :: "u8 \<Rightarrow> u8 \<Rightarrow> u8" where
  "set_ecn_bits fl ecn = (fl AND NOT ECN_MASK) OR push_bit 3 (ecn AND 0x03)"

section \<open>Headers\<close>

record packet_header =
  ph_flags :: u8
  ph_version :: "u32 option"
  ph_header_len :: u8
  ph_connection_id :: connection_id
  ph_packet_number :: packet_number
  ph_timestamp_micros :: u32
  ph_payload_len :: u16

definition PacketHeader_new_short :: "connection_id \<Rightarrow> packet_number \<Rightarrow> u32 \<Rightarrow> u16 \<Rightarrow> packet_header" where
  "PacketHeader_new_short cid pn ts len =
     \<lparr>ph_flags = set_long_header 0 False, ph_version = None, ph_header_len = of_nat MIN_COMMON_HEADER_LEN,
      ph_connection_id = cid, ph_packet_number = pn, ph_timestamp_micros = ts, ph_payload_len = len\<rparr>"

definition PacketHeader_new_long ::
  "u32 \<Rightarrow> connection_id \<Rightarrow> packet_number \<Rightarrow> u32 \<Rightarrow> u16 \<Rightarrow> packet_header" where
  "PacketHeader_new_long ver cid pn ts len =
     \<lparr>ph_flags = set_long_header 0 True, ph_version = Some ver, ph_header_len = of_nat MIN_LONG_HEADER_LEN,
      ph_connection_id = cid, ph_packet_number = pn, ph_timestamp_micros = ts, ph_payload_len = len\<rparr>"

definition min_header_len :: "u8 \<Rightarrow> nat" where
  "min_header_len fl = (if is_long_header fl then MIN_LONG_HEADER_LEN else MIN_COMMON_HEADER_LEN)"

text \<open>The fields in wire order; the version is written on long headers only.\<close>

definition PacketHeader_fields :: "packet_header \<Rightarrow> bytes list" where
  "PacketHeader_fields h =
     [[ph_flags h]]
     @ (if is_long_header (ph_flags h)
        then [to_be_bytes (case ph_version h of Some v \<Rightarrow> v | None \<Rightarrow> GTP_V1_1)] else [])
     @ [[ph_header_len h], to_be_bytes (ph_connection_id h), to_be_bytes (ph_packet_number h),
        to_be_bytes (ph_timestamp_micros h), to_be_bytes (ph_payload_len h)]"

definition PacketHeader_encode :: "packet_header \<Rightarrow> bytes \<Rightarrow> (bytes \<times> nat) result" where
  "PacketHeader_encode h buf =
     (if length buf < min_header_len (ph_flags h) then Err BufferTooShort
      else puts (PacketHeader_fields h) buf 0)"

definition PacketHeader_decode :: "bytes \<Rightarrow> (packet_header \<times> nat) result" where
  "PacketHeader_decode buf =
     (if length buf = 0 then Err BufferTooShort
      else obind (slice_index buf 0) (\<lambda>flags.
        let is_long = is_long_header flags;
            min_len = (if is_long then MIN_LONG_HEADER_LEN else MIN_COMMON_HEADER_LEN)
        in if length buf < min_len then Err BufferTooShort
        else obind (if is_long then omap (\<lambda>bs. (Some (from_be_bytes bs), 5)) (slice_range buf 1 5)
                    else Ok (None, 1)) (\<lambda>(version, off).
        obind (slice_index buf off) (\<lambda>header_len.
        let off = off + 1
        in if unat header_len < min_len \<or> length buf < unat header_len
           then Err (InvalidPacket ''Invalid header length'')
        else obind (slice_range buf off (off + 8)) (\<lambda>cid.
        let off = off + 8 in
        obind (slice_range buf off (off + 8)) (\<lambda>pn.
        let off = off + 8 in
        obind (slice_range buf off (off + 4)) (\<lambda>ts.
        let off = off + 4 in
        obind (slice_range buf off (off + 2)) (\<lambda>len.
        Ok (\<lparr>ph_flags = flags, ph_version = version, ph_header_len = header_len,
             ph_connection_id = from_be_bytes cid, ph_packet_number = from_be_bytes pn,
             ph_timestamp_micros = from_be_bytes ts, ph_payload_len = from_be_bytes len\<rparr>,
            unat header_len)))))))))"

definition header_wf :: "packet_header \<Rightarrow> bool" where
  "header_wf h \<longleftrightarrow> (is_long_header (ph_flags h) \<longleftrightarrow> ph_version h \<noteq> None)
     \<and> unat (ph_header_len h) = min_header_len (ph_flags h)"

section \<open>Flag algebra\<close>

lemma flag_masks:
  "LONG_HEADER = push_bit 7 1" "KEY_PHASE = push_bit 6 1" "ACK_PRESENT = push_bit 5 1"
  by (simp_all add: LONG_HEADER_def KEY_PHASE_def ACK_PRESENT_def)

lemma flag_bits:
  "is_long_header fl \<longleftrightarrow> bit fl 7" "key_phase fl \<longleftrightarrow> bit fl 6" "has_ack fl \<longleftrightarrow> bit fl 5"
  by (simp_all only: is_long_header_def key_phase_def has_ack_def flag_masks
      bit_iff_and_push_bit_not_eq_0)

lemma bit_set_flag:
  "k < 8 \<Longrightarrow> bit (if b then fl OR push_bit k 1 else fl AND NOT (push_bit k 1) :: u8) n =
     (if n = k then b else bit fl n)"
  by (auto simp: bit_simps bit_1_iff dest: bit_imp_le_length)

lemma bit_set_flags:
  "bit (set_long_header fl b) n = (if n = 7 then b else bit fl n)"
  "bit (set_key_phase fl b) n = (if n = 6 then b else bit fl n)"
  "bit (set_ack_present fl b) n = (if n = 5 then b else bit fl n)"
  unfolding set_long_header_def set_key_phase_def set_ack_present_def flag_masks
  by (rule bit_set_flag; simp)+

lemma bit_24: "bit (24 :: int) n \<longleftrightarrow> n = 3 \<or> n = 4"
proof -
  have "(24 :: int) = push_bit 3 1 OR push_bit 4 1" by simp
  then show ?thesis by (auto simp only: bit_simps) (auto simp: bit_1_iff)
qed

lemma bit_3: "bit (3 :: int) n \<longleftrightarrow> n = 0 \<or> n = 1"
proof -
  have "(3 :: int) = push_bit 0 1 OR push_bit 1 1" by simp
  then show ?thesis by (auto simp only: bit_simps) (auto simp: bit_1_iff)
qed

lemma bit_set_ecn_bits:
  "bit (set_ecn_bits fl e) n = (if n = 3 \<or> n = 4 then bit e (n - 3) else bit fl n)"
  by (auto simp: set_ecn_bits_def bit_simps bit_24 ECN_MASK_def bit_3 dest: bit_imp_le_length)

lemma bit_ecn_bits: "bit (ecn_bits fl) n \<longleftrightarrow> n < 2 \<and> bit fl (n + 3)"
  by (auto simp: ecn_bits_def bit_simps bit_24 ECN_MASK_def add.commute)

lemmas flag_simps = flag_bits bit_set_flags bit_set_ecn_bits bit_ecn_bits

section \<open>Encoding\<close>

definition PacketHeader_bytes :: "packet_header \<Rightarrow> bytes" where
  "PacketHeader_bytes h = concat (PacketHeader_fields h)"

lemma length_PacketHeader_bytes [simp]: "length (PacketHeader_bytes h) = min_header_len (ph_flags h)"
  by (simp add: PacketHeader_bytes_def PacketHeader_fields_def min_header_len_def
      MIN_COMMON_HEADER_LEN_def MIN_LONG_HEADER_LEN_def)

lemma PacketHeader_encode_eq:
  "PacketHeader_encode h buf =
     (if length buf < min_header_len (ph_flags h) then Err BufferTooShort
      else Ok (PacketHeader_bytes h @ drop (min_header_len (ph_flags h)) buf, min_header_len (ph_flags h)))"
  using length_PacketHeader_bytes [of h]
  by (simp add: PacketHeader_encode_def puts_concat PacketHeader_bytes_def [symmetric])

lemma min_header_len_bounds: "24 \<le> min_header_len fl" "min_header_len fl \<le> 28"
  by (simp_all add: min_header_len_def MIN_COMMON_HEADER_LEN_def MIN_LONG_HEADER_LEN_def)

section \<open>Decoding\<close>

text \<open>Reading a field of known width out of a concatenation.\<close>

lemma slice_range_field:
  "length pre = i \<Longrightarrow> j = i + length fld \<Longrightarrow> slice_range (pre @ fld @ post) i j = Ok fld"
  by (simp add: slice_range_def)

lemma be_bytes_roundtrip [simp]:
  "(from_be_bytes (to_be_bytes w) :: u16) = w" "(from_be_bytes (to_be_bytes x) :: u32) = x"
  "(from_be_bytes (to_be_bytes y) :: u64) = y"
  by (simp_all add: from_to_be_bytes)

lemma PacketHeader_decode_short:
  assumes "\<not> is_long_header fl" and "unat hl = 24"
  shows "PacketHeader_decode ([fl, hl] @ to_be_bytes (cid :: u64) @ to_be_bytes (pn :: u64)
      @ to_be_bytes (ts :: u32) @ to_be_bytes (len :: u16) @ rest) =
    Ok (\<lparr>ph_flags = fl, ph_version = None, ph_header_len = hl, ph_connection_id = cid,
         ph_packet_number = pn, ph_timestamp_micros = ts, ph_payload_len = len\<rparr>, 24)"
  using assms
  by (simp add: PacketHeader_decode_def slice_index_def slice_range_def Let_def MIN_COMMON_HEADER_LEN_def)

lemma PacketHeader_decode_long:
  assumes "is_long_header fl" and "unat hl = 28"
  shows "PacketHeader_decode ([fl] @ to_be_bytes (ver :: u32) @ [hl] @ to_be_bytes (cid :: u64)
      @ to_be_bytes (pn :: u64) @ to_be_bytes (ts :: u32) @ to_be_bytes (len :: u16) @ rest) =
    Ok (\<lparr>ph_flags = fl, ph_version = Some ver, ph_header_len = hl, ph_connection_id = cid,
         ph_packet_number = pn, ph_timestamp_micros = ts, ph_payload_len = len\<rparr>, 28)"
  using assms
  by (simp add: PacketHeader_decode_def slice_index_def slice_range_def Let_def MIN_LONG_HEADER_LEN_def
      nth_append)

lemma PacketHeader_decode_bytes:
  assumes "header_wf h"
  shows "PacketHeader_decode (PacketHeader_bytes h @ rest) = Ok (h, length (PacketHeader_bytes h))"
proof (cases "is_long_header (ph_flags h)")
  case True
  with assms obtain v where "ph_version h = Some v" and "unat (ph_header_len h) = 28"
    by (auto simp: header_wf_def min_header_len_def MIN_LONG_HEADER_LEN_def)
  with True PacketHeader_decode_long [of "ph_flags h" "ph_header_len h" v] show ?thesis
    by (simp add: PacketHeader_bytes_def PacketHeader_fields_def min_header_len_def MIN_LONG_HEADER_LEN_def)
next
  case False
  with assms have "ph_version h = None" and "unat (ph_header_len h) = 24"
    by (auto simp: header_wf_def min_header_len_def MIN_COMMON_HEADER_LEN_def)
  with False PacketHeader_decode_short [of "ph_flags h" "ph_header_len h"] show ?thesis
    by (simp add: PacketHeader_bytes_def PacketHeader_fields_def min_header_len_def MIN_COMMON_HEADER_LEN_def)
qed

interpretation header: prefix_codec header_wf PacketHeader_bytes PacketHeader_decode
  by unfold_locales (rule PacketHeader_decode_bytes)

lemma PacketHeader_decode_no_panic: "PacketHeader_decode buf \<noteq> Panic"
  by (cases buf)
     (auto simp: PacketHeader_decode_def slice_index_def slice_range_def Let_def MIN_COMMON_HEADER_LEN_def
       MIN_LONG_HEADER_LEN_def)

text \<open>What an accepted header guarantees about the datagram it was read from.\<close>

lemma PacketHeader_decode_OkD:
  assumes "PacketHeader_decode buf = Ok (h, n)"
  shows "n = unat (ph_header_len h)" and "min_header_len (ph_flags h) \<le> n" and "n \<le> length buf"
    and "is_long_header (ph_flags h) \<longleftrightarrow> ph_version h \<noteq> None"
  using assms
  by (auto simp: PacketHeader_decode_def outcome_convs Let_def min_header_len_def omap_def split: if_splits)

section \<open>Properties\<close>

text \<open>
  A packet header whose version field and stated length agree with its flags survives the wire:
  what \<^verbatim>\<open>PacketHeader::encode\<close> writes, \<^verbatim>\<open>PacketHeader::decode\<close> reads back field by field, whatever
  follows in the datagram.
\<close>

theorem packet_header_roundtrip:
  assumes "header_wf h" and "PacketHeader_encode h buf = Ok (buf', n)"
  shows "PacketHeader_decode buf' = Ok (h, n) \<and> length buf' = length buf"
  using assms PacketHeader_decode_bytes [OF assms(1), of "drop n buf"]
  by (auto simp: PacketHeader_encode_eq split: if_splits)

theorem packet_header_roundtrip_witness:
  "\<exists>buf'. PacketHeader_encode (PacketHeader_new_long GTP_V1_1 7 9 11 5) (replicate 40 0) = Ok (buf', 28) \<and>
     PacketHeader_decode buf' = Ok (PacketHeader_new_long GTP_V1_1 7 9 11 5, 28)"
proof -
  let ?h = "PacketHeader_new_long GTP_V1_1 7 9 11 5"
  have wf: "header_wf ?h" by code_simp
  have "min_header_len (ph_flags ?h) = 28" by code_simp
  then have enc: "PacketHeader_encode ?h (replicate 40 0) = Ok (PacketHeader_bytes ?h @ drop 28 (replicate 40 0), 28)"
    by (simp add: PacketHeader_encode_eq)
  show ?thesis using packet_header_roundtrip [OF wf enc] enc by blast
qed

text \<open>
  Header decoding is total on arbitrary bytes. It never panics, and a header it accepts states
  its own length, lies inside the datagram, and carries a version exactly when the long-header bit
  is set.
\<close>

theorem packet_header_decode_safe:
  "PacketHeader_decode buf \<noteq> Panic \<and>
   (\<forall>h n. PacketHeader_decode buf = Ok (h, n) \<longrightarrow>
      n = unat (ph_header_len h) \<and> min_header_len (ph_flags h) \<le> n \<and> n \<le> length buf \<and>
      (is_long_header (ph_flags h) \<longleftrightarrow> ph_version h \<noteq> None))"
  using PacketHeader_decode_no_panic PacketHeader_decode_OkD by blast

theorem packet_header_decode_safe_witness:
  "PacketHeader_decode (PacketHeader_bytes (PacketHeader_new_short 1 2 3 4) @ [0]) =
     Ok (PacketHeader_new_short 1 2 3 4, 24) \<and> unat (ph_header_len (PacketHeader_new_short 1 2 3 4)) = 24"
proof -
  let ?h = "PacketHeader_new_short 1 2 3 4"
  have "header_wf ?h" and "min_header_len (ph_flags ?h) = 24" by code_simp+
  then have "PacketHeader_decode (PacketHeader_bytes ?h @ [0]) = Ok (?h, 24)"
    using PacketHeader_decode_bytes [of ?h "[0]"] by simp
  then show ?thesis
    using packet_header_decode_safe [of "PacketHeader_bytes ?h @ [0]"] by fastforce
qed

end
