(* ===== verification/Wire_Frame_Laws.thy ===== *)
theory Wire_Frame_Laws
  imports Wire_Frame Wire_Header
begin

unbundle bit_operations_syntax

text \<open>
  Laws of the frame codec: the reference byte string of a frame, the encoder as a function of it,
  the round trip, and the guarantees of the decoder on arbitrary input (no panic, progress,
  well-formed results). \<open>prefix_codec\<close> is interpreted on the self-delimiting frames.
\<close>

section \<open>Readers\<close>

lemma read_no_panic [simp]:
  "read_u8 buf off \<noteq> Panic" "read_u16 buf off \<noteq> Panic" "read_u32 buf off \<noteq> Panic"
  "read_u64 buf off \<noteq> Panic" "read_bytes buf off n \<noteq> Panic"
  by (auto simp: read_defs obind_eq_Panic_conv slice_range_panic)

lemma read_OkD:
  "read_u8 buf off = Ok (b, off') \<Longrightarrow> off' = off + 1 \<and> off' \<le> length buf"
  "read_u16 buf off = Ok (x, off') \<Longrightarrow> off' = off + 2 \<and> off' \<le> length buf"
  "read_u32 buf off = Ok (y, off') \<Longrightarrow> off' = off + 4 \<and> off' \<le> length buf"
  "read_u64 buf off = Ok (z, off') \<Longrightarrow> off' = off + 8 \<and> off' \<le> length buf"
  "read_bytes buf off n = Ok (bs, off') \<Longrightarrow> off' = off + n \<and> off' \<le> length buf \<and> length bs = n"
  by (auto simp: read_defs obind_eq_Ok_conv slice_range_def split: if_splits)

lemma read_ranges_no_panic [simp]: "read_ranges buf n off \<noteq> Panic"
  by (induction buf n off rule: read_ranges.induct) (auto simp: obind_eq_Panic_conv)

lemma read_ranges_OkD:
  "read_ranges buf n off = Ok (rs, off') \<Longrightarrow>
     off' = off + 8 * n \<and> (0 < n \<longrightarrow> off' \<le> length buf) \<and> length rs = n"
proof (induction n arbitrary: off rs off')
  case (Suc n)
  then obtain g o1 l o2 rs' where
    "read_u32 buf off = Ok (g, o1)" "read_u32 buf o1 = Ok (l, o2)" "read_ranges buf n o2 = Ok (rs', off')"
    "rs = \<lparr>ar_gap = g, ar_length = l\<rparr> # rs'"
    by (auto simp: obind_eq_Ok_conv)
  with Suc.IH [of o2 rs' off'] show ?case
    by (cases n) (auto dest!: read_OkD)
qed simp

text \<open>Every arm of the decoder: no panic, and on success the offset lies within the buffer.\<close>

lemma decode_arms_no_panic:
  "decode_Ack buf off \<noteq> Panic" "decode_Data buf off \<noteq> Panic" "decode_ReliableData buf off \<noteq> Panic"
  "decode_Retx buf off \<noteq> Panic" "decode_Ping buf off \<noteq> Panic" "decode_PathChallenge buf off \<noteq> Panic"
  "decode_PathResponse buf off \<noteq> Panic" "decode_MtuProbe buf off \<noteq> Panic"
  "decode_Close buf off \<noteq> Panic" "decode_AckFrequency buf off \<noteq> Panic"
  "decode_ClientHello buf off \<noteq> Panic" "decode_ServerHello buf off \<noteq> Panic"
  "decode_HandshakeFinish buf off \<noteq> Panic" "decode_ServerFinish buf off \<noteq> Panic"
  "decode_KeyUpdate buf off \<noteq> Panic" "decode_Padding buf off \<noteq> Panic"
  by (auto simp: decode_defs obind_eq_Panic_conv Let_def)

lemma Frame_decode_no_panic: "Frame_decode buf \<noteq> Panic"
  by (auto simp: Frame_decode_def obind_eq_Panic_conv decode_arms_no_panic)

lemma decode_arm_bounds:
  "off \<le> length buf \<Longrightarrow> decode_Ack buf off = Ok (f, n) \<Longrightarrow> off \<le> n \<and> n \<le> length buf"
  "off \<le> length buf \<Longrightarrow> decode_Data buf off = Ok (f, n) \<Longrightarrow> off \<le> n \<and> n \<le> length buf"
  "off \<le> length buf \<Longrightarrow> decode_ReliableData buf off = Ok (f, n) \<Longrightarrow> off \<le> n \<and> n \<le> length buf"
  "off \<le> length buf \<Longrightarrow> decode_Retx buf off = Ok (f, n) \<Longrightarrow> off \<le> n \<and> n \<le> length buf"
  "off \<le> length buf \<Longrightarrow> decode_Ping buf off = Ok (f, n) \<Longrightarrow> off \<le> n \<and> n \<le> length buf"
  "off \<le> length buf \<Longrightarrow> decode_PathChallenge buf off = Ok (f, n) \<Longrightarrow> off \<le> n \<and> n \<le> length buf"
  "off \<le> length buf \<Longrightarrow> decode_PathResponse buf off = Ok (f, n) \<Longrightarrow> off \<le> n \<and> n \<le> length buf"
  "off \<le> length buf \<Longrightarrow> decode_MtuProbe buf off = Ok (f, n) \<Longrightarrow> off \<le> n \<and> n \<le> length buf"
  "off \<le> length buf \<Longrightarrow> decode_Close buf off = Ok (f, n) \<Longrightarrow> off \<le> n \<and> n \<le> length buf"
  "off \<le> length buf \<Longrightarrow> decode_AckFrequency buf off = Ok (f, n) \<Longrightarrow> off \<le> n \<and> n \<le> length buf"
  "off \<le> length buf \<Longrightarrow> decode_ClientHello buf off = Ok (f, n) \<Longrightarrow> off \<le> n \<and> n \<le> length buf"
  "off \<le> length buf \<Longrightarrow> decode_ServerHello buf off = Ok (f, n) \<Longrightarrow> off \<le> n \<and> n \<le> length buf"
  "off \<le> length buf \<Longrightarrow> decode_HandshakeFinish buf off = Ok (f, n) \<Longrightarrow> off \<le> n \<and> n \<le> length buf"
  "off \<le> length buf \<Longrightarrow> decode_ServerFinish buf off = Ok (f, n) \<Longrightarrow> off \<le> n \<and> n \<le> length buf"
  "off \<le> length buf \<Longrightarrow> decode_KeyUpdate buf off = Ok (f, n) \<Longrightarrow> off \<le> n \<and> n \<le> length buf"
  "off \<le> length buf \<Longrightarrow> decode_Padding buf off = Ok (f, n) \<Longrightarrow> off \<le> n \<and> n \<le> length buf"
  by (fastforce simp: decode_defs obind_eq_Ok_conv Let_def split: if_splits
      dest!: read_OkD read_ranges_OkD)+

lemma Frame_decode_bounds:
  assumes "Frame_decode buf = Ok (f, n)"
  shows "0 < n \<and> n \<le> length buf"
proof -
  from assms obtain ty k where r: "read_u8 buf 0 = Ok (ty, k)"
    by (auto simp: Frame_decode_def obind_eq_Ok_conv)
  from read_OkD(1) [OF r] have "k = 1" and "1 \<le> length buf" by auto
  have "1 \<le> n \<and> n \<le> length buf"
    using assms r \<open>k = 1\<close>
    by (simp add: Frame_decode_def split: if_split_asm)
       (use decode_arm_bounds [of 1 buf f n] \<open>1 \<le> length buf\<close> in simp_all)
  then show ?thesis by simp
qed

lemma Frame_decode_wf:
  "length buf < u64_modulus \<Longrightarrow> Frame_decode buf = Ok (f, n) \<Longrightarrow> frame_wf f"
  by (auto simp: Frame_decode_def decode_defs obind_eq_Ok_conv Let_def sat_sub_def MAX_ACK_RANGES_def
      split: if_splits dest!: read_OkD read_ranges_OkD)

section \<open>The bytes of a frame\<close>

text \<open>The reason of a close frame as the encoder sends it.\<close>

definition close_reason :: "bytes \<Rightarrow> bytes" where
  "close_reason r = take (utf8_trim r (min (length r) 255)) r"

fun Frame_fields :: "frame \<Rightarrow> bytes list" where
  "Frame_fields (Ack la d rs rc e0 e1 ce) =
     (let count = min (unat rc) MAX_ACK_RANGES in
      [to_be_bytes la, to_be_bytes d, [of_nat count]] @ concat (map range_bytes (take count rs))
      @ [to_be_bytes e0, to_be_bytes e1, to_be_bytes ce])"
| "Frame_fields (Data m k s g dl p) =
     [to_be_bytes m, drop 2 (to_be_bytes (StateKey_to_u48 k)), to_be_bytes s, to_be_bytes g, to_be_bytes dl,
      to_be_bytes (of_nat (length p) :: u16), p]"
| "Frame_fields (ReliableData m f t g s p) =
     [to_be_bytes m, to_be_bytes f, to_be_bytes t, to_be_bytes g, to_be_bytes s,
      to_be_bytes (of_nat (length p) :: u16), p]"
| "Frame_fields (Retx m f t p) =
     [to_be_bytes m, to_be_bytes f, [t], to_be_bytes (of_nat (length p) :: u16), p]"
| "Frame_fields (Ping n) = [to_be_bytes n]"
| "Frame_fields (PathChallenge d) = [d]"
| "Frame_fields (PathResponse d) = [d]"
| "Frame_fields (MtuProbe i n) = [to_be_bytes i, replicate n 0]"
| "Frame_fields (Close c r) = [to_be_bytes c, [of_nat (length (close_reason r))], close_reason r]"
| "Frame_fields (AckFrequency f d t) = [[f], to_be_bytes d, [t]]"
| "Frame_fields (ClientHello k n v) = [k, n, to_be_bytes v]"
| "Frame_fields (ServerHello k n c i s) = [k, n, c, to_be_bytes i, s]"
| "Frame_fields (HandshakeFinish c p) = [c, p]"
| "Frame_fields (ServerFinish p) = [p]"
| "Frame_fields (KeyUpdate ph p) = [to_be_bytes ph, p]"
| "Frame_fields (Padding n) = [replicate n 0]"

definition Frame_bytes :: "frame \<Rightarrow> bytes" where
  "Frame_bytes f = frame_type f # concat (Frame_fields f)"

text \<open>Frames whose payload length fits the 16-bit length field.\<close>

fun frame_sendable :: "frame \<Rightarrow> bool" where
  "frame_sendable (Data _ _ _ _ _ p) = (length p \<le> 65535)"
| "frame_sendable (ReliableData _ _ _ _ _ p) = (length p \<le> 65535)"
| "frame_sendable (Retx _ _ _ p) = (length p \<le> 65535)"
| "frame_sendable _ = True"

text \<open>What arrives: surplus ACK ranges are cut at the wire cap, a long reason at a character boundary.\<close>

fun frame_canon :: "frame \<Rightarrow> frame" where
  "frame_canon (Ack la d rs rc e0 e1 ce) =
     (let count = min (unat rc) MAX_ACK_RANGES in
      Ack la d (take count rs @ replicate (MAX_ACK_RANGES - count) AckRange_default) (of_nat count) e0 e1 ce)"
| "frame_canon (Close c r) = Close c (close_reason r)"
| "frame_canon f = f"

lemma close_reason_len:
  assumes "utf8_valid r"
  shows "utf8_trim r (min (length r) 255) \<le> 255" and "utf8_trim r (min (length r) 255) \<le> length r"
    and "length (close_reason r) = utf8_trim r (min (length r) 255)"
  using utf8_trim_le [OF assms, of "min (length r) 255"] by (auto simp: close_reason_def)

lemma length_concat_ranges [simp]: "length (concat (concat (map range_bytes rs))) = 8 * length rs"
  by (induction rs) (simp_all add: range_bytes_def)

lemma length_StateKey_bytes [simp]: "length (to_be_bytes (StateKey_to_u48 k)) = 8"
  by simp

lemma puts_after_type:
  assumes "buf \<noteq> []" and "1 + length (concat flds) \<le> length buf"
  shows "written (buf[0 := t]) (puts flds (buf[0 := t]) 1) =
     ((t # concat flds) @ drop (1 + length (concat flds)) buf, Ok (1 + length (concat flds)))"
proof -
  obtain b bs where buf: "buf = b # bs" using assms(1) by (cases buf) auto
  show ?thesis
    using assms(2) unfolding buf by (simp add: written_def puts_concat)
qed

text \<open>
  The encoder as a function of the reference bytes. Padding-like frames need the side condition that
  the capacity check itself does not wrap.
\<close>

fun pad_in_range :: "frame \<Rightarrow> bool" where
  "pad_in_range (MtuProbe _ n) = (n + 5 < u64_modulus)"
| "pad_in_range (Padding n) = (n + 1 < u64_modulus)"
| "pad_in_range _ = True"

lemma encode_body_eq:
  assumes "frame_wf f" and "pad_in_range f" and "buf \<noteq> []"
  shows "encode_body f (buf[0 := frame_type f]) =
    (if frame_sendable f \<and> length (Frame_bytes f) \<le> length buf
     then (Frame_bytes f @ drop (length (Frame_bytes f)) buf, Ok (length (Frame_bytes f)))
     else (buf[0 := frame_type f], Err BufferOverflow))"
proof -
  note puts = puts_after_type [OF assms(3), of _ "frame_type f"]
  have fields: "length (Frame_bytes f) = 1 + length (concat (Frame_fields f))"
    by (simp add: Frame_bytes_def)
  show ?thesis
  proof (cases f)
    case (Close c r)
    then have v: "utf8_valid r" using assms(1) by simp
    note len = close_reason_len [OF v]
    have "unat (of_nat (length (close_reason r)) :: u8) = length (close_reason r)"
      using len by (simp add: unat_of_nat)
    with len Close fields puts [of "Frame_fields f"] show ?thesis
      by (auto simp: encode_Close_def slice_range_def Let_def close_reason_def [symmetric] Frame_bytes_def)
  qed (use assms(1,2) fields puts [of "Frame_fields f"] in
        \<open>auto simp: encode_defs Let_def Frame_bytes_def add.commute add.left_commute min_def MAX_ACK_RANGES_def\<close>)
qed

section \<open>Round trip\<close>

fun self_delimiting :: "frame \<Rightarrow> bool" where
  "self_delimiting (MtuProbe _ _) = False"
| "self_delimiting (Padding _) = False"
| "self_delimiting _ = True"

lemma read_u8_at: "length pre = off \<Longrightarrow> read_u8 (pre @ b # post) off = Ok (b, off + 1)"
  by (auto simp: read_u8_def slice_index_def nth_append)

lemma read_u32_at: "length pre = off \<Longrightarrow> read_u32 (pre @ to_be_bytes (w :: u32) @ post) off = Ok (w, off + 4)"
  by (simp add: read_u32_def slice_range_def)

lemma read_ranges_at:
  "length pre = off \<Longrightarrow>
   read_ranges (pre @ concat (concat (map range_bytes rs)) @ post) (length rs) off = Ok (rs, off + 8 * length rs)"
proof (induction rs arbitrary: pre off)
  case (Cons r rs)
  let ?g = "to_be_bytes (ar_gap r)" and ?l = "to_be_bytes (ar_length r)"
  let ?tl = "concat (concat (map range_bytes rs)) @ post"
  have "read_u32 (pre @ ?g @ ?l @ ?tl) off = Ok (ar_gap r, off + 4)"
    using Cons.prems by (rule read_u32_at)
  moreover have "read_u32 ((pre @ ?g) @ ?l @ ?tl) (off + 4) = Ok (ar_length r, off + 8)"
    using Cons.prems read_u32_at [of "pre @ ?g" "off + 4"] by simp
  moreover have "read_ranges ((pre @ ?g @ ?l) @ ?tl) (length rs) (off + 8) = Ok (rs, off + 8 + 8 * length rs)"
    using Cons.prems by (intro Cons.IH) simp
  ultimately show ?case
    by (simp add: range_bytes_def [of r])
qed simp

lemma StateKey_bytes_roundtrip:
  "StateKey_from_u48 (from_be_bytes ([0, 0] @ drop 2 (to_be_bytes (StateKey_to_u48 k)))) = k"
proof -
  let ?v = "StateKey_to_u48 k"
  have "unat ?v < 2 ^ 48"
  proof -
    have "?v = take_bit 48 ?v"
      by (rule bit_word_eqI) (auto simp: StateKey_to_u48_def bit_simps dest: bit_imp_le_length)
    then show ?thesis
      by (metis take_bit_nat_less_exp unsigned_take_bit_eq)
  qed
  moreover have "to_be_bytes ?v =
      [of_nat (unat ?v div 256 ^ 7 mod 256), of_nat (unat ?v div 256 ^ 6 mod 256)] @ to_be 6 (unat ?v)"
    using to_be_Cons [of 7 "unat ?v"] to_be_Cons [of 6 "unat ?v"] by (simp add: to_be_bytes_def del: to_be.simps)
  ultimately have "to_be_bytes ?v = [0, 0] @ drop 2 (to_be_bytes ?v)"
    by simp
  then have "from_be_bytes ([0, 0] @ drop 2 (to_be_bytes ?v)) = ?v"
    by (metis be_bytes_roundtrip(3))
  then show ?thesis
    by (simp add: StateKey_from_to_u48)
qed

lemma unat_payload_len: "length p \<le> 65535 \<Longrightarrow> unat (of_nat (length p) :: u16) = length p"
  by (simp add: unat_of_nat)

lemma decode_type_byte: "read_u8 (b # bs) 0 = Ok (b, 1)"
  by (simp add: read_u8_def slice_index_def)

lemmas field_reads = nth_append read_defs slice_index_def slice_range_def decode_type_byte unat_payload_len

lemma decode_Ack_bytes:
  assumes "length rs = MAX_ACK_RANGES"
  shows "Frame_decode (Frame_bytes (Ack la d rs rc e0 e1 ce) @ rest) =
    Ok (frame_canon (Ack la d rs rc e0 e1 ce), length (Frame_bytes (Ack la d rs rc e0 e1 ce)))"
proof -
  let ?n = "min (unat rc) MAX_ACK_RANGES"
  let ?rs = "take ?n rs"
  let ?R = "concat (concat (map range_bytes ?rs))"
  let ?E = "to_be_bytes e0 @ to_be_bytes e1 @ to_be_bytes ce @ rest"
  let ?pre = "FRAME_TYPE_ACK # to_be_bytes la @ to_be_bytes d @ [of_nat ?n]"
  have n: "unat (of_nat ?n :: u8) = ?n" "length ?rs = ?n"
    using assms by (simp_all add: unat_of_nat MAX_ACK_RANGES_def)
  have rr: "read_ranges (?pre @ ?R @ ?E) ?n 14 = Ok (?rs, 14 + 8 * ?n)"
    using read_ranges_at [of ?pre 14 ?rs ?E] n(2) by simp
  have e: "read_u32 (?pre @ ?R @ ?E) (14 + 8 * ?n) = Ok (e0, 18 + 8 * ?n)"
      "read_u32 (?pre @ ?R @ ?E) (18 + 8 * ?n) = Ok (e1, 22 + 8 * ?n)"
      "read_u32 (?pre @ ?R @ ?E) (22 + 8 * ?n) = Ok (ce, 26 + 8 * ?n)"
    using read_u32_at [of "?pre @ ?R" "14 + 8 * ?n" e0 "to_be_bytes e1 @ to_be_bytes ce @ rest"]
      read_u32_at [of "?pre @ ?R @ to_be_bytes e0" "18 + 8 * ?n" e1 "to_be_bytes ce @ rest"]
      read_u32_at [of "?pre @ ?R @ to_be_bytes e0 @ to_be_bytes e1" "22 + 8 * ?n" ce rest] n(2)
    by simp_all
  have h: "read_u64 (?pre @ ?R @ ?E) 1 = Ok (la, 9)" "read_u32 (?pre @ ?R @ ?E) 9 = Ok (d, 13)"
      "read_u8 (?pre @ ?R @ ?E) 13 = Ok (of_nat ?n, 14)"
    by (simp_all add: field_reads)
  have "decode_Ack (?pre @ ?R @ ?E) 1 =
     Ok (frame_canon (Ack la d rs rc e0 e1 ce), 26 + 8 * ?n)"
    unfolding decode_Ack_def h n obind.simps prod.case rr e by (simp add: n Let_def)
  moreover have "Frame_bytes (Ack la d rs rc e0 e1 ce) @ rest = ?pre @ ?R @ ?E"
    by (simp add: Frame_bytes_def Let_def)
  moreover have "length (Frame_bytes (Ack la d rs rc e0 e1 ce)) = 26 + 8 * ?n"
    using n(2) by (simp add: Frame_bytes_def Let_def)
  ultimately show ?thesis
    by (simp add: Frame_decode_def decode_type_byte)
qed

lemma decode_Close_bytes:
  assumes "utf8_valid r"
  shows "Frame_decode (Frame_bytes (Close c r) @ rest) =
    Ok (frame_canon (Close c r), length (Frame_bytes (Close c r)))"
proof -
  have "unat (of_nat (length (close_reason r)) :: u8) = length (close_reason r)"
    using close_reason_len [OF assms] by (simp add: unat_of_nat)
  moreover have "utf8_valid (close_reason r)"
    using assms by (simp add: close_reason_def utf8_trim_valid)
  ultimately show ?thesis
    by (simp add: Frame_decode_def Frame_bytes_def decode_Close_def field_reads frame_type_defs)
qed

lemma decode_Data_bytes:
  assumes "length p \<le> 65535"
  shows "Frame_decode (Frame_bytes (Data m k s g dl p) @ rest) =
    Ok (Data m k s g dl p, length (Frame_bytes (Data m k s g dl p)))"
  using assms StateKey_bytes_roundtrip [of k]
  by (simp add: Frame_decode_def Frame_bytes_def decode_Data_def field_reads frame_type_defs Let_def)

lemma Frame_decode_bytes:
  assumes "frame_wf f" and "frame_sendable f" and "self_delimiting f"
  shows "Frame_decode (Frame_bytes f @ rest) = Ok (frame_canon f, length (Frame_bytes f))"
proof (cases f)
  case (Ack la d rs rc e0 e1 ce)
  with assms(1) show ?thesis by (simp only: decode_Ack_bytes frame_wf.simps)
next
  case (Close c r)
  with assms(1) show ?thesis by (simp only: decode_Close_bytes frame_wf.simps)
next
  case (Data m k s g dl p)
  with assms(2) show ?thesis by (simp only: decode_Data_bytes frame_sendable.simps frame_canon.simps)
qed (use assms in \<open>simp_all add: Frame_decode_def Frame_bytes_def decode_defs field_reads frame_type_defs\<close>)

lemma Frame_decode_greedy:
  assumes "\<not> self_delimiting f"
  shows "Frame_decode (Frame_bytes f) = Ok (f, length (Frame_bytes f))"
  using assms by (cases f) (simp_all add: Frame_decode_def Frame_bytes_def decode_defs field_reads frame_type_defs sat_sub_def)

lemma Frame_decode_exact:
  assumes "frame_wf f" and "frame_sendable f"
  shows "Frame_decode (Frame_bytes f) = Ok (frame_canon f, length (Frame_bytes f))"
proof (cases "self_delimiting f")
  case True
  from Frame_decode_bytes [OF assms True, of "[]"] show ?thesis by simp
next
  case False
  then have "frame_canon f = f" by (cases f) simp_all
  with Frame_decode_greedy [OF False] show ?thesis by simp
qed

text \<open>The frames that travel unchanged and may be followed by others in one payload.\<close>

definition frame_stream_wf :: "frame \<Rightarrow> bool" where
  "frame_stream_wf f \<longleftrightarrow> frame_wf f \<and> frame_sendable f \<and> self_delimiting f \<and> frame_canon f = f"

interpretation frames: prefix_codec frame_stream_wf Frame_bytes Frame_decode
  by unfold_locales (simp add: frame_stream_wf_def Frame_decode_bytes)

section \<open>Properties\<close>

text \<open>
  C31: frame decoding is total on arbitrary bytes. \<^verbatim>\<open>Frame::decode\<close> never panics; a frame it
  accepts consumes at least one byte and at most the buffer, and is well formed (every fixed-size
  field has its size, the reason of a close frame is UTF-8).
\<close>

theorem frame_decode_safe:
  "Frame_decode buf \<noteq> Panic \<and>
   (\<forall>f n. Frame_decode buf = Ok (f, n) \<longrightarrow>
      0 < n \<and> n \<le> length buf \<and> (length buf < u64_modulus \<longrightarrow> frame_wf f))"
  using Frame_decode_no_panic Frame_decode_bounds Frame_decode_wf by blast

theorem frame_decode_safe_witness:
  "Frame_decode (Frame_bytes (Ping 5)) = Ok (Ping 5, 9) \<and> 9 \<le> length (Frame_bytes (Ping 5))"
proof -
  have "length (Frame_bytes (Ping 5)) = 9" by (simp add: Frame_bytes_def)
  moreover from this have "Frame_decode (Frame_bytes (Ping 5)) = Ok (Ping 5, 9)"
    using Frame_decode_exact [of "Ping 5"] by simp
  ultimately show ?thesis
    using frame_decode_safe [of "Frame_bytes (Ping 5)"] by blast
qed

end
