(* ===== verification/Wire_Codec.thy ===== *)
theory Wire_Codec
  imports Wire_Frame_Laws
begin

unbundle bit_operations_syntax

text \<open>
  \<^verbatim>\<open>gtp-wire/src/codec.rs\<close>: the frame iterator over a payload and the packet builder. The
  iterator is a state (buffer, offset) with \<^verbatim>\<open>next\<close>; draining it is a recursive function whose
  termination is the parser's progress guarantee. The builder threads its buffer through
  \<^verbatim>\<open>append_frame\<close> and writes the header last.
\<close>

section \<open>Frame iterator\<close>

record frame_iterator =
  fi_buf :: bytes
  fi_offset :: nat

definition FrameIterator_new :: "bytes \<Rightarrow> frame_iterator" where
  "FrameIterator_new buf = \<lparr>fi_buf = buf, fi_offset = 0\<rparr>"

definition FrameIterator_remaining :: "frame_iterator \<Rightarrow> bytes result" where
  "FrameIterator_remaining it = slice_range (fi_buf it) (fi_offset it) (length (fi_buf it))"

definition FrameIterator_next :: "frame_iterator \<Rightarrow> frame_iterator \<times> frame result option" where
  "FrameIterator_next it =
     (if fi_offset it \<ge> length (fi_buf it) then (it, None)
      else case obind (slice_range (fi_buf it) (fi_offset it) (length (fi_buf it))) Frame_decode of
          Ok (f, consumed) \<Rightarrow>
            if consumed = 0
            then (it\<lparr>fi_offset := length (fi_buf it)\<rparr>,
                  Some (Err (MalformedFrame ''decoded frame consumed zero bytes'')))
            else (it\<lparr>fi_offset := fi_offset it + consumed\<rparr>, Some (Ok f))
        | Err e \<Rightarrow> (it\<lparr>fi_offset := length (fi_buf it)\<rparr>, Some (Err e))
        | Panic \<Rightarrow> (it\<lparr>fi_offset := length (fi_buf it)\<rparr>, Some Panic))"

lemma FrameIterator_next_advances:
  "FrameIterator_next it = (it', Some r) \<Longrightarrow>
     fi_offset it < fi_offset it' \<and> fi_offset it < length (fi_buf it) \<and> fi_buf it' = fi_buf it"
  by (auto simp: FrameIterator_next_def split: if_splits outcome.splits)

text \<open>\<^verbatim>\<open>for frame in FrameIterator::new(..)\<close>: every item the iterator yields, in order.\<close>

function FrameIterator_collect :: "frame_iterator \<Rightarrow> frame result list" where
  "FrameIterator_collect it =
     (case FrameIterator_next it of
        (it', None) \<Rightarrow> []
      | (it', Some r) \<Rightarrow> r # FrameIterator_collect it')"
  by pat_completeness auto
termination
proof (relation "measure (\<lambda>it. length (fi_buf it) - fi_offset it)", goal_cases)
  case (2 it it' opt r)
  then have "FrameIterator_next it = (it', Some r)" by simp
  from FrameIterator_next_advances [OF this] show ?case by auto
qed simp

declare FrameIterator_collect.simps [simp del]

section \<open>Packet builder\<close>

record packet_builder =
  pb_buf :: bytes
  pb_header :: packet_header
  pb_header_len :: nat
  pb_payload_len :: nat

definition PacketBuilder_new :: "bytes \<Rightarrow> packet_header \<Rightarrow> packet_builder result" where
  "PacketBuilder_new buf h =
     (let header_len = (if is_long_header (ph_flags h) then MIN_LONG_HEADER_LEN else MIN_COMMON_HEADER_LEN)
      in if length buf < header_len then Err BufferTooShort
         else if unat (ph_header_len h) \<noteq> header_len
           then Err (InvalidPacket ''header_len field disagrees with flags-derived header size'')
         else Ok \<lparr>pb_buf = buf, pb_header = h, pb_header_len = header_len, pb_payload_len = 0\<rparr>)"

definition PacketBuilder_remaining_capacity :: "packet_builder \<Rightarrow> nat" where
  "PacketBuilder_remaining_capacity b =
     sat_sub (length (pb_buf b)) (pb_header_len b + pb_payload_len b)"

fun is_Ack_frame :: "frame \<Rightarrow> bool" where
  "is_Ack_frame (Ack _ _ _ _ _ _ _) = True"
| "is_Ack_frame _ = False"

definition PacketBuilder_append_frame :: "packet_builder \<Rightarrow> frame \<Rightarrow> packet_builder \<times> unit result" where
  "PacketBuilder_append_frame b f =
     (let off = pb_header_len b + pb_payload_len b
      in if length (pb_buf b) < off then (b, Panic)
         else let (tl', r) = Frame_encode f (drop off (pb_buf b));
                  b1 = b\<lparr>pb_buf := take off (pb_buf b) @ tl'\<rparr>
              in case r of
                   Ok w \<Rightarrow>
                     let b2 = b1\<lparr>pb_payload_len := pb_payload_len b + w\<rparr>
                     in (if is_Ack_frame f
                         then b2\<lparr>pb_header := (pb_header b)\<lparr>ph_flags := set_ack_present (ph_flags (pb_header b)) True\<rparr>\<rparr>
                         else b2, Ok ())
                 | Err e \<Rightarrow> (b1, Err e)
                 | Panic \<Rightarrow> (b1, Panic))"

text \<open>\<^verbatim>\<open>finish\<close> consumes the builder; the caller is left with the buffer and the packet length.\<close>

definition PacketBuilder_finish :: "packet_builder \<Rightarrow> (bytes \<times> nat) result" where
  "PacketBuilder_finish b =
     (if pb_payload_len b > 65535 then Err (ResourceLimitExceeded ''payload length exceeds u16::MAX'')
      else let h = (pb_header b)\<lparr>ph_payload_len := of_nat (pb_payload_len b)\<rparr>
           in obind (slice_range (pb_buf b) 0 (pb_header_len b)) (\<lambda>hd_buf.
              obind (PacketHeader_encode h hd_buf) (\<lambda>(hd_buf', _).
              Ok (hd_buf' @ drop (pb_header_len b) (pb_buf b), pb_header_len b + pb_payload_len b))))"

text \<open>Building a packet: new, one append per frame, finish.\<close>

fun PacketBuilder_append_all :: "packet_builder \<Rightarrow> frame list \<Rightarrow> packet_builder result" where
  "PacketBuilder_append_all b [] = Ok b"
| "PacketBuilder_append_all b (f # fs) =
     (case PacketBuilder_append_frame b f of
        (b', Ok _) \<Rightarrow> PacketBuilder_append_all b' fs
      | (b', Err e) \<Rightarrow> Err e
      | (b', Panic) \<Rightarrow> Panic)"

definition build_packet :: "bytes \<Rightarrow> packet_header \<Rightarrow> frame list \<Rightarrow> (bytes \<times> nat) result" where
  "build_packet buf h fs =
     obind (PacketBuilder_new buf h) (\<lambda>b.
     obind (PacketBuilder_append_all b fs) PacketBuilder_finish)"

section \<open>Iterator laws\<close>

lemma collect_unfold_done:
  "length (fi_buf it) \<le> fi_offset it \<Longrightarrow> FrameIterator_collect it = []"
  by (subst FrameIterator_collect.simps) (simp add: FrameIterator_next_def)

lemma collect_unfold_frame:
  assumes "fi_offset it < length (fi_buf it)"
    and "Frame_decode (drop (fi_offset it) (fi_buf it)) = Ok (f, n)"
  shows "FrameIterator_collect it = Ok f # FrameIterator_collect (it\<lparr>fi_offset := fi_offset it + n\<rparr>)"
proof -
  have "0 < n" using Frame_decode_bounds [OF assms(2)] by simp
  then have "FrameIterator_next it = (it\<lparr>fi_offset := fi_offset it + n\<rparr>, Some (Ok f))"
    using assms by (simp add: FrameIterator_next_def slice_range_def)
  then show ?thesis by (subst FrameIterator_collect.simps) simp
qed

text \<open>A payload of frames in which only the last may be a frame that takes the rest of the buffer.\<close>

definition payload_wf :: "frame list \<Rightarrow> bool" where
  "payload_wf fs \<longleftrightarrow> (\<forall>f \<in> set fs. frame_wf f \<and> frame_sendable f) \<and> (\<forall>f \<in> set (butlast fs). self_delimiting f)"

lemma payload_wf_Cons:
  "payload_wf (f # fs) \<longleftrightarrow>
     frame_wf f \<and> frame_sendable f \<and> (fs = [] \<or> self_delimiting f) \<and> payload_wf fs"
  by (auto simp: payload_wf_def)

lemma Frame_bytes_nonempty [simp]: "Frame_bytes f \<noteq> []"
  by (simp add: Frame_bytes_def)

lemma collect_frames:
  assumes "payload_wf fs"
  shows "FrameIterator_collect \<lparr>fi_buf = pre @ concat (map Frame_bytes fs), fi_offset = length pre\<rparr> =
     map (\<lambda>f. Ok (frame_canon f)) fs"
  using assms
proof (induction fs arbitrary: pre)
  case Nil
  then show ?case by (simp add: collect_unfold_done)
next
  case (Cons f fs)
  have dec: "Frame_decode (Frame_bytes f @ concat (map Frame_bytes fs)) = Ok (frame_canon f, length (Frame_bytes f))"
  proof (cases "fs = []")
    case True
    with Cons.prems show ?thesis by (simp add: payload_wf_Cons Frame_decode_exact)
  next
    case False
    with Cons.prems show ?thesis by (simp add: payload_wf_Cons Frame_decode_bytes)
  qed
  have "FrameIterator_collect \<lparr>fi_buf = (pre @ Frame_bytes f) @ concat (map Frame_bytes fs),
      fi_offset = length (pre @ Frame_bytes f)\<rparr> = map (\<lambda>f. Ok (frame_canon f)) fs"
    using Cons.prems by (intro Cons.IH) (simp add: payload_wf_Cons)
  with dec show ?case
    by (subst collect_unfold_frame [where f = "frame_canon f" and n = "length (Frame_bytes f)"]) auto
qed

lemma FrameIterator_next_no_panic: "FrameIterator_next it = (it', Some r) \<Longrightarrow> r \<noteq> Panic"
  using Frame_decode_no_panic
  by (auto simp: FrameIterator_next_def obind_eq_Panic_conv slice_range_panic split: if_splits outcome.splits)

lemma collect_no_panic: "Panic \<notin> set (FrameIterator_collect it)"
proof (induction it rule: FrameIterator_collect.induct)
  case (1 it)
  show ?case
  proof (cases "FrameIterator_next it")
    case (Pair it' opt)
    with 1 [of it' opt] FrameIterator_next_no_panic [of it it'] show ?thesis
      by (subst FrameIterator_collect.simps) (auto split: option.splits)
  qed
qed

text \<open>Every frame the iterator yields is well-formed.\<close>

lemma FrameIterator_next_wf:
  assumes "FrameIterator_next it = (it', Some (Ok f))" and "length (fi_buf it) < u64_modulus"
  shows "frame_wf f"
proof -
  obtain n where "Frame_decode (drop (fi_offset it) (fi_buf it)) = Ok (f, n)"
    using assms(1) by (auto simp: FrameIterator_next_def slice_range_def split: if_splits outcome.splits)
  then show ?thesis using assms(2) by (intro Frame_decode_wf [of "drop (fi_offset it) (fi_buf it)"]) auto
qed

lemma collect_wf: "Ok f \<in> set (FrameIterator_collect it) \<Longrightarrow> length (fi_buf it) < u64_modulus \<Longrightarrow> frame_wf f"
proof (induction it rule: FrameIterator_collect.induct)
  case (1 it)
  obtain it' opt where n: "FrameIterator_next it = (it', opt)" by fastforce
  show ?case
  proof (cases opt)
    case None
    then show ?thesis using 1 n by (simp add: FrameIterator_collect.simps [of it])
  next
    case (Some r)
    have "fi_buf it' = fi_buf it" using FrameIterator_next_advances [of it it' r] n Some by simp
    moreover have "Ok f = r \<or> Ok f \<in> set (FrameIterator_collect it')" using 1(2) n Some by (simp add: FrameIterator_collect.simps [of it])
    ultimately show ?thesis using "1.IH" [OF n [symmetric]] FrameIterator_next_wf [of it it' f] n Some 1(3) by auto
  qed
qed

text \<open>A payload of \<open>n\<close> bytes yields at most \<open>n\<close> items: a hostile datagram costs bounded work.\<close>

lemma collect_length: "length (FrameIterator_collect it) \<le> length (fi_buf it) - fi_offset it"
proof (induction it rule: FrameIterator_collect.induct)
  case (1 it)
  show ?case
  proof (cases "FrameIterator_next it")
    case (Pair it' opt)
    show ?thesis
    proof (cases opt)
      case None
      with Pair show ?thesis by (subst FrameIterator_collect.simps) simp
    next
      case (Some r)
      have "length (FrameIterator_collect it') \<le> length (fi_buf it') - fi_offset it'"
        using 1 [of it' opt r] Pair Some by simp
      with FrameIterator_next_advances [of it it' r] Pair Some show ?thesis
        by (subst FrameIterator_collect.simps) auto
    qed
  qed
qed

section \<open>Builder laws\<close>

definition builder_wf :: "packet_builder \<Rightarrow> bool" where
  "builder_wf b \<longleftrightarrow> pb_header_len b + pb_payload_len b \<le> length (pb_buf b)
     \<and> pb_header_len b = min_header_len (ph_flags (pb_header b))
     \<and> unat (ph_header_len (pb_header b)) = pb_header_len b"

text \<open>The payload written so far.\<close>

definition builder_payload :: "packet_builder \<Rightarrow> bytes" where
  "builder_payload b = take (pb_payload_len b) (drop (pb_header_len b) (pb_buf b))"

lemma PacketBuilder_new_OkD:
  assumes "PacketBuilder_new buf h = Ok b"
  shows "builder_wf b" and "builder_payload b = []" and "pb_header b = h"
  using assms
  by (auto simp: PacketBuilder_new_def builder_wf_def builder_payload_def min_header_len_def Let_def
      split: if_splits)

lemma set_ack_present_long [simp]: "is_long_header (set_ack_present fl p) = is_long_header fl"
  by (simp add: flag_simps)

lemma Frame_encode_eq:
  assumes "frame_wf f" and "pad_in_range f"
  shows "Frame_encode f buf =
    (if buf = [] then (buf, Err BufferOverflow)
     else if frame_sendable f \<and> length (Frame_bytes f) \<le> length buf
     then (Frame_bytes f @ drop (length (Frame_bytes f)) buf, Ok (length (Frame_bytes f)))
     else (buf[0 := frame_type f], Err BufferOverflow))"
  using encode_body_eq [OF assms, of buf] by (simp add: Frame_encode_def)

lemma append_frame_Ok:
  assumes wf: "builder_wf b" and f: "frame_wf f" "pad_in_range f"
    and ok: "PacketBuilder_append_frame b f = (b', Ok u)"
  shows "builder_wf b'" and "builder_payload b' = builder_payload b @ Frame_bytes f" and "frame_sendable f"
    and "pb_header b' = (if is_Ack_frame f
          then (pb_header b)\<lparr>ph_flags := set_ack_present (ph_flags (pb_header b)) True\<rparr> else pb_header b)"
proof -
  let ?off = "pb_header_len b + pb_payload_len b"
  let ?n = "length (Frame_bytes f)"
  have off: "?off \<le> length (pb_buf b)" using wf by (simp add: builder_wf_def)
  have enc: "frame_sendable f" "?n \<le> length (drop ?off (pb_buf b))" "drop ?off (pb_buf b) \<noteq> []"
    using ok off by (auto simp: PacketBuilder_append_frame_def Frame_encode_eq [OF f] Let_def split: if_splits)
  have room: "?off + ?n \<le> length (pb_buf b)"
    using enc(2) off by simp
  have b': "b' = b\<lparr>pb_buf := take ?off (pb_buf b) @ Frame_bytes f @ drop (?off + ?n) (pb_buf b),
      pb_payload_len := pb_payload_len b + ?n,
      pb_header := (if is_Ack_frame f
          then (pb_header b)\<lparr>ph_flags := set_ack_present (ph_flags (pb_header b)) True\<rparr> else pb_header b)\<rparr>"
    using ok off enc
    by (auto simp: PacketBuilder_append_frame_def Frame_encode_eq [OF f] Let_def add.commute split: if_splits)
  show "builder_wf b'"
    using wf room unfolding b' by (auto simp: builder_wf_def min_header_len_def)
  show "builder_payload b' = builder_payload b @ Frame_bytes f"
    using off room unfolding b' by (simp add: builder_payload_def drop_take)
  show "frame_sendable f" by (rule enc(1))
  show "pb_header b' = (if is_Ack_frame f
          then (pb_header b)\<lparr>ph_flags := set_ack_present (ph_flags (pb_header b)) True\<rparr> else pb_header b)"
    unfolding b' by simp
qed

lemma append_frame_no_panic:
  assumes "builder_wf b" and "frame_wf f" and "pad_in_range f"
  shows "snd (PacketBuilder_append_frame b f) \<noteq> Panic"
  using assms(1)
  by (auto simp: PacketBuilder_append_frame_def Frame_encode_eq [OF assms(2,3)] Let_def builder_wf_def split: if_splits)

text \<open>The header a run of appends leaves: only the ACK flag may change.\<close>

definition mark_acks :: "frame list \<Rightarrow> packet_header \<Rightarrow> packet_header" where
  "mark_acks fs h =
     (if \<exists>f \<in> set fs. is_Ack_frame f then h\<lparr>ph_flags := set_ack_present (ph_flags h) True\<rparr> else h)"

lemma set_ack_present_idem: "set_ack_present (set_ack_present fl True) True = set_ack_present fl True"
  by (rule bit_word_eqI) (simp add: flag_simps)

lemma ecn_bits_ack: "ecn_bits (set_ack_present fl True) = ecn_bits fl"
  by (rule bit_word_eqI) (auto simp: flag_simps)

lemma append_all_Ok:
  assumes "builder_wf b" and "\<forall>f \<in> set fs. frame_wf f \<and> pad_in_range f"
    and "PacketBuilder_append_all b fs = Ok b'"
  shows "builder_wf b' \<and> builder_payload b' = builder_payload b @ concat (map Frame_bytes fs)
    \<and> (\<forall>f \<in> set fs. frame_sendable f) \<and> pb_header b' = mark_acks fs (pb_header b)"
  using assms
proof (induction fs arbitrary: b)
  case Nil
  then show ?case by (simp add: mark_acks_def)
next
  case (Cons f fs)
  then obtain b1 u where b1: "PacketBuilder_append_frame b f = (b1, Ok u)"
      and rest: "PacketBuilder_append_all b1 fs = Ok b'"
    by (auto split: prod.splits outcome.splits)
  note step = append_frame_Ok [OF Cons.prems(1) _ _ b1]
  have "builder_wf b1" using Cons.prems(2) by (intro step(1)) auto
  with Cons.IH [OF _ _ rest] Cons.prems(2) have
    "builder_wf b'" "builder_payload b' = builder_payload b1 @ concat (map Frame_bytes fs)"
    "\<forall>f \<in> set fs. frame_sendable f" "pb_header b' = mark_acks fs (pb_header b1)"
    by auto
  with step(2,3,4) Cons.prems(2) show ?case
    by (auto simp: mark_acks_def set_ack_present_idem)
qed

lemma PacketBuilder_finish_eq:
  assumes "builder_wf b"
  shows "PacketBuilder_finish b =
    (if pb_payload_len b > 65535 then Err (ResourceLimitExceeded ''payload length exceeds u16::MAX'')
     else Ok (PacketHeader_bytes ((pb_header b)\<lparr>ph_payload_len := of_nat (pb_payload_len b)\<rparr>)
               @ drop (pb_header_len b) (pb_buf b), pb_header_len b + pb_payload_len b))"
  using assms
  by (simp add: PacketBuilder_finish_def builder_wf_def slice_range_def PacketHeader_encode_eq Let_def)

text \<open>The packet a successful build leaves in the buffer: the header bytes, then the frames.\<close>

lemma build_packet_Ok:
  assumes "build_packet buf h fs = Ok (buf', n)" and "\<forall>f \<in> set fs. frame_wf f \<and> pad_in_range f"
  defines "payload \<equiv> concat (map Frame_bytes fs)"
  defines "h' \<equiv> (mark_acks fs h)\<lparr>ph_payload_len := of_nat (length payload)\<rparr>"
  shows "take n buf' = PacketHeader_bytes h' @ payload" and "length payload \<le> 65535"
    and "n = min_header_len (ph_flags h) + length payload" and "n \<le> length buf'"
    and "\<forall>f \<in> set fs. frame_sendable f" and "unat (ph_header_len h) = min_header_len (ph_flags h)"
proof -
  from assms(1) obtain b b' where b: "PacketBuilder_new buf h = Ok b"
      and b': "PacketBuilder_append_all b fs = Ok b'" and fin: "PacketBuilder_finish b' = Ok (buf', n)"
    by (auto simp: build_packet_def obind_eq_Ok_conv)
  note new = PacketBuilder_new_OkD [OF b]
  have inv: "builder_wf b'" "builder_payload b' = payload" "\<forall>f \<in> set fs. frame_sendable f"
      "pb_header b' = mark_acks fs h"
    using append_all_Ok [OF new(1) assms(2) b'] new(2,3) by (auto simp: payload_def)
  have len: "pb_payload_len b' = length payload"
    using inv(1,2) by (auto simp: builder_payload_def builder_wf_def)
  have ml: "min_header_len (ph_flags (mark_acks fs h)) = min_header_len (ph_flags h)"
    by (simp add: mark_acks_def min_header_len_def)
  have hl: "pb_header_len b' = min_header_len (ph_flags h)"
    using inv(1,4) ml by (simp add: builder_wf_def)
  from fin have le: "length payload \<le> 65535"
      and buf': "buf' = PacketHeader_bytes h' @ drop (pb_header_len b') (pb_buf b')"
      and n: "n = pb_header_len b' + length payload"
    using PacketBuilder_finish_eq [OF inv(1)] len inv(4) by (auto simp: h'_def split: if_splits)
  have h'len: "length (PacketHeader_bytes h') = pb_header_len b'"
    using ml hl by (simp add: h'_def)
  show "take n buf' = PacketHeader_bytes h' @ payload"
    using inv(2) len h'len unfolding buf' n by (simp add: builder_payload_def)
  show "length payload \<le> 65535" by (rule le)
  show "n = min_header_len (ph_flags h) + length payload" using n hl by simp
  show "n \<le> length buf'"
    using inv(1) len h'len unfolding buf' n by (simp add: builder_wf_def)
  show "\<forall>f \<in> set fs. frame_sendable f" by (rule inv(3))
  show "unat (ph_header_len h) = min_header_len (ph_flags h)"
    using new(1,3) by (simp add: builder_wf_def)
qed

text \<open>The builder accepts whatever fits the buffer and the 16-bit length field.\<close>

lemma append_frame_fits:
  assumes "builder_wf b" and "frame_wf f" and "pad_in_range f" and "frame_sendable f"
    and "pb_header_len b + pb_payload_len b + length (Frame_bytes f) \<le> length (pb_buf b)"
  obtains b' where "PacketBuilder_append_frame b f = (b', Ok ())"
    and "pb_payload_len b' = pb_payload_len b + length (Frame_bytes f)"
    and "pb_header_len b' = pb_header_len b" and "length (pb_buf b') = length (pb_buf b)"
proof -
  let ?tl = "drop (pb_header_len b + pb_payload_len b) (pb_buf b)" and ?n = "length (Frame_bytes f)"
  have "0 < ?n" by simp
  then have "?tl \<noteq> []" "?n \<le> length ?tl"
    using assms(5) by (simp_all del: length_greater_0_conv)
  then have enc: "Frame_encode f ?tl = (Frame_bytes f @ drop ?n ?tl, Ok ?n)"
    using assms(4) by (simp add: Frame_encode_eq [OF assms(2,3)])
  have off: "\<not> length (pb_buf b) < pb_header_len b + pb_payload_len b"
    using assms(5) by simp
  show thesis
    by (rule that [of "fst (PacketBuilder_append_frame b f)"])
       (use assms(5) off in \<open>simp_all add: PacketBuilder_append_frame_def enc Let_def\<close>)
qed

lemma append_all_fits:
  assumes "builder_wf b" and "\<forall>f \<in> set fs. frame_wf f \<and> pad_in_range f \<and> frame_sendable f"
    and "pb_header_len b + pb_payload_len b + length (concat (map Frame_bytes fs)) \<le> length (pb_buf b)"
  shows "\<exists>b'. PacketBuilder_append_all b fs = Ok b'"
  using assms
proof (induction fs arbitrary: b)
  case (Cons f fs)
  from Cons.prems obtain b1 where one: "PacketBuilder_append_frame b f = (b1, Ok ())"
    and "pb_payload_len b1 = pb_payload_len b + length (Frame_bytes f)"
    and "pb_header_len b1 = pb_header_len b" and "length (pb_buf b1) = length (pb_buf b)"
    by (auto elim: append_frame_fits [of b f])
  moreover have "builder_wf b1"
    using append_frame_Ok(1) [OF Cons.prems(1) _ _ one] Cons.prems(2) by simp
  ultimately show ?case
    using Cons.IH [of b1] Cons.prems by auto
qed simp

lemma build_packet_fits:
  assumes "unat (ph_header_len h) = min_header_len (ph_flags h)"
    and "\<forall>f \<in> set fs. frame_wf f \<and> pad_in_range f \<and> frame_sendable f"
    and "min_header_len (ph_flags h) + length (concat (map Frame_bytes fs)) \<le> length buf"
    and "length (concat (map Frame_bytes fs)) \<le> 65535"
  shows "\<exists>buf' n. build_packet buf h fs = Ok (buf', n)"
proof -
  obtain b where b: "PacketBuilder_new buf h = Ok b"
    and pl: "pb_payload_len b = 0" "pb_header_len b = min_header_len (ph_flags h)" "pb_buf b = buf"
    using assms(1,3) by (auto simp: PacketBuilder_new_def min_header_len_def Let_def split: if_splits)
  note new = PacketBuilder_new_OkD [OF b]
  obtain b' where b': "PacketBuilder_append_all b fs = Ok b'"
    using append_all_fits [OF new(1) assms(2)] assms(3) pl by auto
  have wf: "\<forall>f \<in> set fs. frame_wf f \<and> pad_in_range f" using assms(2) by blast
  have inv: "builder_wf b'" "builder_payload b' = concat (map Frame_bytes fs)"
    using append_all_Ok [OF new(1) wf b'] new(2) by auto
  have "pb_payload_len b' = length (builder_payload b')"
    using inv(1) by (auto simp: builder_payload_def builder_wf_def min_def)
  then have "pb_payload_len b' \<le> 65535"
    using assms(4) inv(2) by simp
  then have "\<exists>buf' n. PacketBuilder_finish b' = Ok (buf', n)"
    using PacketBuilder_finish_eq [OF inv(1)] by simp
  then show ?thesis
    using b b' by (auto simp: build_packet_def)
qed

section \<open>Properties\<close>

text \<open>
  C15: every frame survives the wire. Whatever \<^verbatim>\<open>Frame::encode\<close> writes for a well-formed frame of
  any of the sixteen kinds, \<^verbatim>\<open>Frame::decode\<close> reads back from exactly those bytes, up to the
  encoder's documented normalisation: at most 32 ACK ranges, and a close reason cut to 255 bytes at
  a character boundary.
\<close>

theorem frame_roundtrip:
  assumes "frame_wf f" and "pad_in_range f" and "Frame_encode f buf = (buf', Ok n)"
  shows "Frame_decode (take n buf') = Ok (frame_canon f, n) \<and> length buf' = length buf \<and> n \<le> length buf"
  using assms Frame_decode_exact [OF assms(1)]
  by (auto simp: Frame_encode_eq split: if_splits)

theorem frame_roundtrip_witness:
  "\<exists>buf'. Frame_encode (Ping 5) (replicate 12 0) = (buf', Ok 9) \<and> Frame_decode (take 9 buf') = Ok (Ping 5, 9)"
proof -
  have wf: "frame_wf (Ping 5)" "pad_in_range (Ping 5)" "length (Frame_bytes (Ping 5)) = 9"
    by (simp_all add: Frame_bytes_def)
  then have enc: "Frame_encode (Ping 5) (replicate 12 0) =
      (Frame_bytes (Ping 5) @ drop 9 (replicate 12 0), Ok 9)"
    by (simp add: Frame_encode_eq)
  show ?thesis
  proof (intro exI conjI)
    show "Frame_decode (take 9 (Frame_bytes (Ping 5) @ drop 9 (replicate 12 0))) = Ok (Ping 5, 9)"
      using frame_roundtrip [OF wf(1,2) enc] by (simp only: frame_canon.simps)
  qed (rule enc)
qed

text \<open>
  A received payload is walked in bounded time and without a panic, whatever its bytes: the
  frame iterator yields at most one item per payload byte, and no item is a panic.
\<close>

theorem frame_iterator_total:
  "Panic \<notin> set (FrameIterator_collect (FrameIterator_new buf)) \<and>
   length (FrameIterator_collect (FrameIterator_new buf)) \<le> length buf"
  using collect_no_panic collect_length [of "FrameIterator_new buf"] by (simp add: FrameIterator_new_def)



end
