(* ===== verification/Ack_Exchange.thy ===== *)
theory Ack_Exchange
  imports Ack_Tracker Loss_Detector Wire_Codec
begin

text \<open>
  The acknowledgement loop across components: the receiver's interval list becomes an ACK frame
  (\<^verbatim>\<open>ack_tracker.rs\<close>), travels through the wire codec and is expanded by the sender
  (\<^verbatim>\<open>loss_detector.rs\<close>). The two sides use mirrored range arithmetic; the lemmas here show that
  they are inverse to each other as long as the frame claims no more than
  \<open>MAX_ACKED_PER_FRAME\<close> packets, and what happens beyond that.
\<close>

text \<open>The packet numbers a received frame acknowledges, as \<^verbatim>\<open>process_datagram\<close> hands them on.\<close>

fun acked_by_frame :: "frame \<Rightarrow> nat list" where
  "acked_by_frame (Ack la _ rs rc _ _ _) = parse_ack_ranges (unat la) rs (unat rc)"
| "acked_by_frame _ = []"

definition iv_len :: "packet_interval \<Rightarrow> nat" where
  "iv_len iv = iv_end iv - iv_start iv + 1"

definition iv_down :: "packet_interval \<Rightarrow> nat list" where
  "iv_down iv = rev [iv_start iv..<iv_end iv + 1]"

lemma set_iv_down: "set (iv_down iv) = iv_set iv"
  by (auto simp: iv_down_def iv_set_def)

lemma set_concat_iv_down: "set (concat (map iv_down ivs)) = ivs_set ivs"
  by (induction ivs) (simp_all add: set_iv_down)

lemma ack_range_nat: "n < 2 ^ 32 \<Longrightarrow> unat (of_nat n :: u32) = n"
  by (simp add: unat_of_nat)

text \<open>The sender's walk inverts the receiver's range arithmetic, block by block.\<close>

lemma parse_walk_ack_ranges_from:
  assumes "ivs_wf ivs" and "\<forall>x \<in> ivs_set ivs. x + 1 < prev" and "claimed + sum_list (map iv_len ivs) \<le> MAX_ACKED_PER_FRAME"
    and "\<forall>iv \<in> set ivs. prev < iv_end iv + 2 ^ 32"
  shows "parse_walk False high prev claimed (ack_ranges_from prev ivs) = concat (map iv_down ivs)"
  using assms
proof (induction ivs arbitrary: high prev claimed)
  case (Cons iv ivs)
  have ok: "iv_start iv \<le> iv_end iv" "iv_end iv < u64_max" and wf: "ivs_wf ivs"
    and low: "\<forall>x \<in> ivs_set ivs. x + 1 < iv_start iv"
    using Cons.prems(1) by (auto simp: ivs_wf_Cons iv_ok_def)
  have prev: "iv_end iv + 1 < prev"
    using Cons.prems(2) ok by (auto simp: iv_set_def)
  have len: "iv_len iv \<le> MAX_ACKED_PER_FRAME" "claimed + iv_len iv \<le> MAX_ACKED_PER_FRAME"
    using Cons.prems(3) by simp_all
  have gap: "unat (of_nat (prev - Suc (iv_end iv)) :: u32) = prev - Suc (iv_end iv)"
    using Cons.prems(4) prev by (intro ack_range_nat) auto
  have lenw: "unat (of_nat (iv_end iv - iv_start iv) :: u32) = iv_end iv - iv_start iv"
    using len(1) by (intro ack_range_nat) (simp add: iv_len_def MAX_ACKED_PER_FRAME_def)
  have "parse_walk False (iv_end iv) (iv_start iv) (claimed + iv_len iv) (ack_ranges_from (iv_start iv) ivs) =
      concat (map iv_down ivs)"
    using Cons.prems wf low ok prev by (intro Cons.IH) fastforce+
  moreover have "\<not> iv_end iv < iv_end iv - iv_start iv" "\<not> prev < Suc (prev - Suc (iv_end iv))"
    using prev by simp_all
  ultimately show ?case
    using ok prev len gap lenw
    by (simp add: sat_sub_def Let_def iv_down_def [of iv] iv_len_def [of iv] del: upt_Suc of_nat_diff)
qed simp

text \<open>The wire never loses a range: what is decoded acknowledges what was encoded.\<close>

lemma acked_by_canon:
  assumes "length rs = MAX_ACK_RANGES" and "unat rc \<le> MAX_ACK_RANGES"
  shows "acked_by_frame (frame_canon (Ack la d rs rc e0 e1 ce)) = acked_by_frame (Ack la d rs rc e0 e1 ce)"
proof -
  have "unat (of_nat (unat rc) :: u8) = unat rc" by simp
  then show ?thesis
    using assms by (simp add: Let_def parse_ack_ranges_def min_def)
qed

lemma peek_ack_frame_shape:
  assumes "peek_ack_frame now t = Some f"
  obtains l d where "at_largest_received t = Some l"
    and "f = Ack (of_nat l) d (ack_ranges (at_intervals t) @
               replicate (MAX_ACK_RANGES - length (ack_ranges (at_intervals t))) AckRange_default)
             (of_nat (length (ack_ranges (at_intervals t)))) (at_ect0_count t) (at_ect1_count t) (at_ce_count t)"
    and "frame_wf f"
  using assms
  by (auto simp: peek_ack_frame_def Let_def ack_ranges_length split: option.splits)

lemma acked_by_peek:
  assumes "peek_ack_frame now t = Some f" and "at_largest_received t = Some l" and "l < u64_modulus"
  shows "acked_by_frame f = parse_walk True l l 0 (ack_ranges (at_intervals t))"
proof -
  have "length (ack_ranges (at_intervals t)) \<le> 32"
    by (simp add: ack_ranges_length MAX_ACK_RANGES_def)
  then have "unat (of_nat (length (ack_ranges (at_intervals t))) :: u8) = length (ack_ranges (at_intervals t))"
    by (simp add: unat_of_nat)
  moreover have "unat (of_nat l :: u64) = l"
    using assms(3) by (simp add: unat_of_nat u64_modulus_def)
  moreover obtain l' d where "at_largest_received t = Some l'"
    and "f = Ack (of_nat l') d (ack_ranges (at_intervals t) @
               replicate (MAX_ACK_RANGES - length (ack_ranges (at_intervals t))) AckRange_default)
             (of_nat (length (ack_ranges (at_intervals t)))) (at_ect0_count t) (at_ect1_count t) (at_ce_count t)"
    by (rule peek_ack_frame_shape [OF assms(1)])
  ultimately show ?thesis
    using assms(2) by (simp add: parse_ack_ranges_def)
qed

text \<open>Expansion of the frame a tracker builds, while the claim stays within the sender's budget.\<close>

lemma acked_by_tracker:
  assumes "tracks t R" and "at_largest_received t = Some l" and "0 < l"
    and "length (at_intervals t) \<le> MAX_ACK_RANGES"
    and "sum_list (map iv_len (at_intervals t)) \<le> MAX_ACKED_PER_FRAME"
  shows "parse_walk True l l 0 (ack_ranges (at_intervals t)) = concat (map iv_down (at_intervals t))"
proof -
  obtain iv ivs where eq: "at_intervals t = iv # ivs" and e: "iv_end iv = l"
    by (rule tracks_first [OF assms(1-3)])
  have wf: "ivs_wf (iv # ivs)" using assms(1) by (simp add: tracks_def eq)
  then have ok: "iv_start iv \<le> iv_end iv" and rest: "ivs_wf ivs" "\<forall>x \<in> ivs_set ivs. x + 1 < iv_start iv"
    by (auto simp: ivs_wf_Cons iv_ok_def)
  have len: "iv_len iv + sum_list (map iv_len ivs) \<le> MAX_ACKED_PER_FRAME"
    using assms(5) by (simp add: eq)
  have lenw: "unat (of_nat (iv_end iv - iv_start iv) :: u32) = iv_end iv - iv_start iv"
    using len by (intro ack_range_nat) (simp add: iv_len_def MAX_ACKED_PER_FRAME_def)
  have "\<forall>b \<in> set ivs. iv_start iv < iv_end b + 2 ^ 32"
    using assms(1,2) ok e by (fastforce simp: tracks_def eq ACK_RETENTION_WINDOW_def)
  then have "parse_walk False l (iv_start iv) (iv_len iv) (ack_ranges_from (iv_start iv) ivs) =
      concat (map iv_down ivs)"
    using rest len by (intro parse_walk_ack_ranges_from) simp_all
  moreover have "take (MAX_ACK_RANGES - 1) ivs = ivs"
    using assms(4) by (simp add: eq)
  moreover have "\<not> l < l - iv_start iv" "\<not> MAX_ACKED_PER_FRAME < Suc (l - iv_start iv)"
    using len e by (simp_all add: iv_len_def)
  ultimately show ?thesis
    using ok e lenw len
    by (simp add: eq Let_def iv_down_def [of iv] iv_len_def [of iv] del: upt_Suc of_nat_diff)
qed

section \<open>The retransmission budget and long contiguous runs\<close>

text \<open>
  The tracker never trims an interval, it only drops whole intervals below the retention floor; the
  sender refuses a block that claims more than \<open>MAX_ACKED_PER_FRAME\<close> packets. Once the first
  interval is longer than that, the walk stops before its first block.
\<close>

lemma parse_stops_on_long_first:
  assumes "at_intervals t = iv # ivs" and "MAX_ACKED_PER_FRAME < iv_len iv" and "iv_end iv < 2 ^ 32"
  shows "parse_walk True l l 0 (ack_ranges (at_intervals t)) = []"
proof -
  have "unat (of_nat (iv_end iv - iv_start iv) :: u32) = iv_end iv - iv_start iv"
    using assms(3) by (intro ack_range_nat) simp
  then show ?thesis
    using assms(2) by (simp add: assms(1) Let_def iv_len_def del: of_nat_diff)
qed

text \<open>A run of in-order packets \<open>1, 2, \<dots>, n\<close>, all ack-eliciting, at one instant.\<close>

definition receive_in_order :: "nat \<Rightarrow> monotonic_time \<Rightarrow> ack_tracker" where
  "receive_in_order n now =
     fold (\<lambda>pn. AckTracker_on_packet_received pn True 0 now) [1..<n + 1] AckTracker_default"

lemma receive_in_order_state:
  assumes "0 < n" and "n < u64_max"
  shows "at_intervals (receive_in_order n now) = [\<lparr> iv_start = 1, iv_end = n \<rparr>] \<and>
    at_largest_received (receive_in_order n now) = Some n"
  using assms
proof (induction n)
  case (Suc n)
  have step: "receive_in_order (Suc n) now =
      AckTracker_on_packet_received (Suc n) True 0 now (receive_in_order n now)"
    by (simp add: receive_in_order_def)
  show ?case
  proof (cases "n = 0")
    case True
    then show ?thesis
      unfolding step received_intervals received_largest
      by (simp add: receive_in_order_def AckTracker_default_def insert_packet_def prune_old_intervals_def
          sat_sub_def ACK_RETENTION_WINDOW_def)
  next
    case False
    then show ?thesis
      using Suc unfolding step received_intervals received_largest
      by (simp add: insert_packet_def prune_old_intervals_def sat_sub_def ACK_RETENTION_WINDOW_def)
  qed
qed simp

lemma tracks_in_order: "n < u64_max \<Longrightarrow> tracks (receive_in_order n now) {1..n}"
proof (induction n)
  case 0
  then show ?case by (simp add: receive_in_order_def tracks_default)
next
  case (Suc n)
  have "receive_in_order (Suc n) now =
      AckTracker_on_packet_received (Suc n) True 0 now (receive_in_order n now)"
    by (simp add: receive_in_order_def)
  moreover have "insert (Suc n) {1..n} = {1..Suc n}" by auto
  ultimately show ?case
    using Suc tracks_received [of "receive_in_order n now" "{1..n}" "Suc n" True 0 now] by simp
qed

section \<open>Properties\<close>

text \<open>
  C13: acknowledgements are exact end to end. After the packets \<open>R\<close> were received, the ACK frame the
  tracker builds, sent through the wire codec and expanded by the sender's \<^verbatim>\<open>parse_ack_ranges\<close>,
  acknowledges only packets that were received and every received packet less than 1024 below the
  largest, provided the tracker holds at most 32 intervals that cover at most 16384 packets.
\<close>

theorem ack_exact_end_to_end:
  assumes "tracks t R" and "0 \<notin> R" and "peek_ack_frame now t = Some f" and "Frame_encode f buf = (buf', Ok n)"
    and "length (at_intervals t) \<le> MAX_ACK_RANGES"
    and "sum_list (map iv_len (at_intervals t)) \<le> MAX_ACKED_PER_FRAME"
  shows "\<exists>g. Frame_decode (take n buf') = Ok (g, n) \<and> set (acked_by_frame g) \<subseteq> R \<and>
    {p \<in> R. \<forall>q \<in> R. q < p + ACK_RETENTION_WINDOW} \<subseteq> set (acked_by_frame g)"
proof -
  let ?rs = "ack_ranges (at_intervals t)"
  obtain l d where l: "at_largest_received t = Some l"
    and f: "f = Ack (of_nat l) d (?rs @ replicate (MAX_ACK_RANGES - length ?rs) AckRange_default)
             (of_nat (length ?rs)) (at_ect0_count t) (at_ect1_count t) (at_ce_count t)"
    and wf: "frame_wf f"
    by (rule peek_ack_frame_shape [OF assms(3)])
  have R: "l \<in> R" "l < u64_max" "\<forall>p \<in> R. p > l - ACK_RETENTION_WINDOW \<longrightarrow> p \<in> ivs_set (at_intervals t)"
    "ivs_set (at_intervals t) \<subseteq> R"
    using assms(1) by (simp_all add: tracks_def l)
  then have l0: "0 < l" using assms(2) by (cases l) auto
  have rs: "length ?rs \<le> MAX_ACK_RANGES" by (simp add: ack_ranges_length)
  then have "unat (of_nat (length ?rs) :: u8) = length ?rs"
    by (simp add: unat_of_nat MAX_ACK_RANGES_def)
  then have canon: "acked_by_frame (frame_canon f) = acked_by_frame f"
    unfolding f using rs by (intro acked_by_canon) simp_all
  have "acked_by_frame f = concat (map iv_down (at_intervals t))"
    using acked_by_peek [OF assms(3) l] acked_by_tracker [OF assms(1) l l0 assms(5,6)] R(2)
    by (simp add: u64_max_modulus)
  then have acked: "set (acked_by_frame (frame_canon f)) = ivs_set (at_intervals t)"
    unfolding canon by (simp only: set_concat_iv_down)
  have "pad_in_range f" by (simp add: f)
  then have "Frame_decode (take n buf') = Ok (frame_canon f, n)"
    using wf assms(4) Frame_decode_exact [OF wf] by (auto simp: Frame_encode_eq split: if_splits)
  moreover have "p \<in> ivs_set (at_intervals t)" if "p \<in> R" "\<forall>q \<in> R. q < p + ACK_RETENTION_WINDOW" for p
    using that R(1,3) assms(2) by (cases "l < ACK_RETENTION_WINDOW") (auto intro: Suc_leI gr0I)
  ultimately show ?thesis
    using acked R(4) by auto
qed

theorem ack_exact_end_to_end_witness:
  "\<exists>f buf' n g. peek_ack_frame 9 (receive_in_order 3 5) = Some f \<and> Frame_encode f (replicate 400 0) = (buf', Ok n) \<and>
     Frame_decode (take n buf') = Ok (g, n) \<and> set (acked_by_frame g) = {1..3}"
proof -
  let ?t = "receive_in_order 3 5"
  have tr: "tracks ?t {1..3}" by (rule tracks_in_order) (simp add: u64_max_def)
  have st: "at_intervals ?t = [\<lparr> iv_start = 1, iv_end = 3 \<rparr>]" "at_largest_received ?t = Some 3"
    using receive_in_order_state [of 3 5] by (simp_all add: u64_max_def)
  then obtain f where f: "peek_ack_frame 9 ?t = Some f"
    by (simp add: peek_ack_frame_def Let_def)
  obtain d where shape: "f = Ack 3 d (ack_ranges (at_intervals ?t) @ replicate 31 AckRange_default) 1
      (at_ect0_count ?t) (at_ect1_count ?t) (at_ce_count ?t)" and wf: "frame_wf f"
    using f st by (auto simp: peek_ack_frame_def Let_def MAX_ACK_RANGES_def)
  have "length (Frame_bytes f) = 34"
    using st by (simp add: shape Frame_bytes_def Let_def MAX_ACK_RANGES_def range_bytes_def)
  then obtain buf' n where enc: "Frame_encode f (replicate 400 0) = (buf', Ok n)"
    using wf by (simp add: Frame_encode_eq shape)
  have "\<exists>g. Frame_decode (take n buf') = Ok (g, n) \<and> set (acked_by_frame g) \<subseteq> {1..3} \<and>
      {p \<in> {1..3}. \<forall>q \<in> {1..3}. q < p + ACK_RETENTION_WINDOW} \<subseteq> set (acked_by_frame g)"
    using st by (intro ack_exact_end_to_end [OF tr _ f enc])
      (simp_all add: MAX_ACK_RANGES_def MAX_ACKED_PER_FRAME_def iv_len_def)
  moreover have "{p \<in> {1..3}. \<forall>q \<in> {1..3}. q < p + ACK_RETENTION_WINDOW} = {1..3}"
    by (auto simp: ACK_RETENTION_WINDOW_def)
  ultimately show ?thesis
    using f enc by (metis subset_antisym)
qed

text \<open>
  C40: a long loss-free run stops all acknowledgement. When the packets \<open>1, \<dots>, n\<close> have arrived in
  order with \<open>n\<close> above 16384, the ACK frame the tracker builds claims all of them in its first
  range, and the sender's walk rejects that range: the frame acknowledges nothing, and neither does
  any later one while the run continues.
\<close>

theorem ack_stalls_on_long_run:
  assumes "MAX_ACKED_PER_FRAME < n" and "n < 2 ^ 32"
  shows "\<exists>f. peek_ack_frame now (receive_in_order n t0) = Some f \<and> acked_by_frame f = []"
proof -
  have bound: "n < u64_max" "0 < n" using assms by (simp_all add: u64_max_def)
  note st = receive_in_order_state [OF bound(2,1), of t0]
  then obtain f where f: "peek_ack_frame now (receive_in_order n t0) = Some f"
    by (simp add: peek_ack_frame_def Let_def)
  have "acked_by_frame f = parse_walk True n n 0 (ack_ranges (at_intervals (receive_in_order n t0)))"
    using st bound by (intro acked_by_peek [OF f]) (simp_all add: u64_max_modulus)
  also have "\<dots> = []"
    using st assms parse_stops_on_long_first [of "receive_in_order n t0" "\<lparr> iv_start = 1, iv_end = n \<rparr>" "[]" n]
    by (simp add: iv_len_def)
  finally show ?thesis using f by blast
qed

theorem ack_stalls_on_long_run_witness:
  "\<exists>f. peek_ack_frame 7 (receive_in_order 16385 5) = Some f \<and> acked_by_frame f = []"
  using ack_stalls_on_long_run [of 16385 7 5] by (simp add: MAX_ACKED_PER_FRAME_def)

end
