(* ===== verification/Conn_State.thy ===== *)
theory Conn_State
  imports Scheduler Path Fragment Ordered_Group Owd Congestion Protector Handshake Replay Ack_Exchange Route_Switch
begin

text \<open>
  The state of a connection (\<^verbatim>\<open>gtp-core/src/state.rs\<close>, \<^verbatim>\<open>control/config.rs\<close>,
  \<^verbatim>\<open>control/events.rs\<close>): configuration presets, events, queued control frames, the index of delivered
  messages, the hot and cold state with their constructors, the bounded map of ordered groups and
  the key ratchet. Socket addresses are a type parameter. The AEAD cipher, the key derivation and
  \<^verbatim>\<open>cbrt\<close> are library code; they are the fields of an environment that the operations take.

  The lemmas show that the two indices are exact and bounded, and what the ratchet does to the keys.
\<close>

record conn_env =
  env_cipher :: aead_cipher
  env_hkdf :: hkdf_fn
  env_cbrt :: "rat \<Rightarrow> rat"

section \<open>Configuration\<close>

record gtp_config =
  cfg_initial_mtu :: nat
  cfg_min_mtu :: nat
  cfg_max_mtu :: nat
  cfg_mtu_probe_interval :: duration
  cfg_ack_frequency_packets :: u8
  cfg_max_ack_delay :: duration
  cfg_ack_reorder_threshold :: u8
  cfg_immediate_ack_on_gap :: bool
  cfg_initial_cwnd_packets :: nat
  cfg_min_cwnd_packets :: nat
  cfg_smss :: nat
  cfg_cubic_beta :: rat
  cfg_cubic_c :: rat
  cfg_pacing_gain :: rat
  cfg_max_pacing_burst_bytes :: nat
  cfg_max_queue_bytes_per_tier :: "nat list"
  cfg_tier_weights :: "nat list"
  cfg_auto_state_supersession :: bool
  cfg_enable_deadline_pruning :: bool
  cfg_idle_timeout :: duration
  cfg_keepalive_ping_interval :: duration
  cfg_pto_max_duration :: duration
  cfg_owd_sample_interval :: duration
  cfg_event_queue_capacity :: nat
  cfg_anti_amplification_factor :: nat
  cfg_stateless_token_lifetime :: duration
  cfg_replay_window_size :: nat
  cfg_key_rotation_interval_packets :: nat

definition competitive_fps :: gtp_config where
  "competitive_fps = \<lparr> cfg_initial_mtu = 1200, cfg_min_mtu = 1200, cfg_max_mtu = 1450, cfg_mtu_probe_interval = Duration_from_secs 10,
     cfg_ack_frequency_packets = 1, cfg_max_ack_delay = Duration_from_millis 5, cfg_ack_reorder_threshold = 1, cfg_immediate_ack_on_gap = True,
     cfg_initial_cwnd_packets = 20, cfg_min_cwnd_packets = 4, cfg_smss = 1200, cfg_cubic_beta = f64_round (75 / 100),
     cfg_cubic_c = f64_round (4 / 10), cfg_pacing_gain = f64_round (125 / 100), cfg_max_pacing_burst_bytes = 24000,
     cfg_max_queue_bytes_per_tier = [128 * 1024, 512 * 1024, 1024 * 1024, 512 * 1024, 256 * 1024], cfg_tier_weights = [15, 40, 30, 10, 5],
     cfg_auto_state_supersession = True, cfg_enable_deadline_pruning = True, cfg_idle_timeout = Duration_from_secs 15,
     cfg_keepalive_ping_interval = Duration_from_secs 1, cfg_pto_max_duration = Duration_from_millis 500,
     cfg_owd_sample_interval = Duration_from_millis 100, cfg_event_queue_capacity = 1024, cfg_anti_amplification_factor = 3,
     cfg_stateless_token_lifetime = Duration_from_secs 10, cfg_replay_window_size = 128, cfg_key_rotation_interval_packets = 1000000 \<rparr>"

definition mmo_world :: gtp_config where
  "mmo_world = \<lparr> cfg_initial_mtu = 1200, cfg_min_mtu = 1200, cfg_max_mtu = 1400, cfg_mtu_probe_interval = Duration_from_secs 30,
     cfg_ack_frequency_packets = 2, cfg_max_ack_delay = Duration_from_millis 25, cfg_ack_reorder_threshold = 2, cfg_immediate_ack_on_gap = True,
     cfg_initial_cwnd_packets = 10, cfg_min_cwnd_packets = 2, cfg_smss = 1200, cfg_cubic_beta = f64_round (70 / 100),
     cfg_cubic_c = f64_round (4 / 10), cfg_pacing_gain = f64_round (120 / 100), cfg_max_pacing_burst_bytes = 12000,
     cfg_max_queue_bytes_per_tier = [64 * 1024, 256 * 1024, 1024 * 1024, 1024 * 1024, 512 * 1024], cfg_tier_weights = [15, 30, 30, 20, 5],
     cfg_auto_state_supersession = True, cfg_enable_deadline_pruning = True, cfg_idle_timeout = Duration_from_secs 30,
     cfg_keepalive_ping_interval = Duration_from_secs 3, cfg_pto_max_duration = Duration_from_secs 2,
     cfg_owd_sample_interval = Duration_from_millis 100, cfg_event_queue_capacity = 1024, cfg_anti_amplification_factor = 3,
     cfg_stateless_token_lifetime = Duration_from_secs 10, cfg_replay_window_size = 128, cfg_key_rotation_interval_packets = 2000000 \<rparr>"

definition mobile_wireless :: gtp_config where
  "mobile_wireless = \<lparr> cfg_initial_mtu = 1200, cfg_min_mtu = 1200, cfg_max_mtu = 1350, cfg_mtu_probe_interval = Duration_from_secs 15,
     cfg_ack_frequency_packets = 1, cfg_max_ack_delay = Duration_from_millis 15, cfg_ack_reorder_threshold = 3, cfg_immediate_ack_on_gap = True,
     cfg_initial_cwnd_packets = 8, cfg_min_cwnd_packets = 2, cfg_smss = 1200, cfg_cubic_beta = f64_round (65 / 100),
     cfg_cubic_c = f64_round (35 / 100), cfg_pacing_gain = f64_round (115 / 100), cfg_max_pacing_burst_bytes = 8000,
     cfg_max_queue_bytes_per_tier = [64 * 1024, 256 * 1024, 512 * 1024, 512 * 1024, 128 * 1024], cfg_tier_weights = [20, 40, 25, 10, 5],
     cfg_auto_state_supersession = True, cfg_enable_deadline_pruning = True, cfg_idle_timeout = Duration_from_secs 20,
     cfg_keepalive_ping_interval = Duration_from_secs 2, cfg_pto_max_duration = Duration_from_secs 1,
     cfg_owd_sample_interval = Duration_from_millis 100, cfg_event_queue_capacity = 1024, cfg_anti_amplification_factor = 3,
     cfg_stateless_token_lifetime = Duration_from_secs 15, cfg_replay_window_size = 128, cfg_key_rotation_interval_packets = 500000 \<rparr>"

definition lan_cluster :: gtp_config where
  "lan_cluster = \<lparr> cfg_initial_mtu = 1450, cfg_min_mtu = 1200, cfg_max_mtu = 1450, cfg_mtu_probe_interval = Duration_from_secs 60,
     cfg_ack_frequency_packets = 8, cfg_max_ack_delay = Duration_from_millis 2, cfg_ack_reorder_threshold = 1, cfg_immediate_ack_on_gap = True,
     cfg_initial_cwnd_packets = 50, cfg_min_cwnd_packets = 10, cfg_smss = 1450, cfg_cubic_beta = f64_round (85 / 100),
     cfg_cubic_c = f64_round (5 / 10), cfg_pacing_gain = f64_round (15 / 10), cfg_max_pacing_burst_bytes = 100000,
     cfg_max_queue_bytes_per_tier = [256 * 1024, 1024 * 1024, 2048 * 1024, 2048 * 1024, 1024 * 1024], cfg_tier_weights = [10, 35, 35, 15, 5],
     cfg_auto_state_supersession = True, cfg_enable_deadline_pruning = True, cfg_idle_timeout = Duration_from_secs 60,
     cfg_keepalive_ping_interval = Duration_from_secs 5, cfg_pto_max_duration = Duration_from_millis 100,
     cfg_owd_sample_interval = Duration_from_millis 100, cfg_event_queue_capacity = 1024, cfg_anti_amplification_factor = 10,
     cfg_stateless_token_lifetime = Duration_from_secs 30, cfg_replay_window_size = 256, cfg_key_rotation_interval_packets = 10000000 \<rparr>"

definition GtpConfig_default :: gtp_config where
  "GtpConfig_default = competitive_fps"

text \<open>The fluent builder is the configuration itself; each method sets what it names.\<close>

definition builder_ack_frequency :: "u8 \<Rightarrow> duration \<Rightarrow> gtp_config \<Rightarrow> gtp_config" where
  "builder_ack_frequency packets max_delay cfg = cfg\<lparr> cfg_ack_frequency_packets := packets, cfg_max_ack_delay := max_delay \<rparr>"

definition builder_initial_cwnd_packets :: "nat \<Rightarrow> gtp_config \<Rightarrow> gtp_config" where
  "builder_initial_cwnd_packets packets cfg = cfg\<lparr> cfg_initial_cwnd_packets := packets \<rparr>"

definition builder_tier_capacity :: "priority_tier \<Rightarrow> nat \<Rightarrow> gtp_config \<Rightarrow> gtp_config" where
  "builder_tier_capacity tier max_bytes cfg =
     cfg\<lparr> cfg_max_queue_bytes_per_tier := (cfg_max_queue_bytes_per_tier cfg)[tier_index tier := max_bytes] \<rparr>"

definition builder_tier_weight :: "priority_tier \<Rightarrow> nat \<Rightarrow> gtp_config \<Rightarrow> gtp_config" where
  "builder_tier_weight tier weight cfg = cfg\<lparr> cfg_tier_weights := (cfg_tier_weights cfg)[tier_index tier := weight] \<rparr>"

definition builder_idle_timeout :: "duration \<Rightarrow> gtp_config \<Rightarrow> gtp_config" where
  "builder_idle_timeout timeout cfg = cfg\<lparr> cfg_idle_timeout := timeout \<rparr>"

definition builder_event_queue_capacity :: "nat \<Rightarrow> gtp_config \<Rightarrow> gtp_config" where
  "builder_event_queue_capacity cap cfg = cfg\<lparr> cfg_event_queue_capacity := cap \<rparr>"

section \<open>Events and queued control frames\<close>

datatype path_event_kind = Reroute | Congested

datatype path_direction = Forward | Reverse

datatype 'addr control_event =
    StateChanged connection_state connection_state
  | BackpressureChanged backpressure_level backpressure_level nat
  | PathMigrated 'addr 'addr
  | PacketLossDetected nat nat
  | RetransmissionTriggered message_id fragment_id
  | PtoTriggered nat nat
  | MtuUpdated nat
  | KeyPhaseRotated bool
  | EcnExperienced u32
  | OwdSampleEvent u32 u32 u8
  | PathEventDetected path_event_kind u32 path_direction
  | CustomExtensionEvent u16 bytes
  | RouteHeld u32 string
  | RouteSwitched u32 u32 string
  | RouteReverted u32 u32

datatype 'addr outgoing_control_frame =
    OutPing u64
  | OutPathChallenge bytes 'addr
  | OutPathResponse bytes 'addr
  | OutMtuProbe u32 nat
  | OutAckFrequency u8 u16 u8
  | OutClose u16 bytes
  | OutKeyUpdate u64

fun is_out_path_response :: "'addr outgoing_control_frame \<Rightarrow> bool" where
  "is_out_path_response (OutPathResponse _ _) = True"
| "is_out_path_response _ = False"

fun is_out_close :: "'addr outgoing_control_frame \<Rightarrow> bool" where
  "is_out_close (OutClose _ _) = True"
| "is_out_close _ = False"

text \<open>The address a control frame is directed at, if it names one.\<close>

fun control_dest :: "'addr outgoing_control_frame \<Rightarrow> 'addr option" where
  "control_dest (OutPathChallenge _ dest) = Some dest"
| "control_dest (OutPathResponse _ dest) = Some dest"
| "control_dest _ = None"

section \<open>Delivered messages\<close>

record delivered_index =
  di_seen :: "u64 set"
  di_order :: "u64 list"
  di_capacity :: nat

definition DeliveredIndex_new :: "nat \<Rightarrow> delivered_index" where
  "DeliveredIndex_new capacity = \<lparr> di_seen = {}, di_order = [], di_capacity = max capacity 16 \<rparr>"

text \<open>The loop that pops the front while the order is longer than the capacity.\<close>

fun di_evict :: "nat \<Rightarrow> u64 list \<Rightarrow> u64 set \<Rightarrow> u64 list \<times> u64 set" where
  "di_evict cap [] seen = ([], seen)"
| "di_evict cap (old # order) seen =
     (if length (old # order) > cap then di_evict cap order (seen - {old}) else (old # order, seen))"

definition insert_if_new :: "u64 \<Rightarrow> delivered_index \<Rightarrow> delivered_index \<times> bool" where
  "insert_if_new key di =
     (if key \<in> di_seen di then (di, False)
      else let (order, seen) = di_evict (di_capacity di) (di_order di @ [key]) (insert key (di_seen di))
           in (di\<lparr> di_order := order, di_seen := seen \<rparr>, True))"

definition di_wf :: "delivered_index \<Rightarrow> bool" where
  "di_wf di \<longleftrightarrow> distinct (di_order di) \<and> di_seen di = set (di_order di) \<and> length (di_order di) \<le> di_capacity di \<and> 0 < di_capacity di"

lemma di_wf_new: "di_wf (DeliveredIndex_new cap)"
  by (simp add: di_wf_def DeliveredIndex_new_def)

lemma di_evict_eq:
  "distinct order \<Longrightarrow> seen = set order \<Longrightarrow>
   di_evict cap order seen = (drop (length order - cap) order, set (drop (length order - cap) order))"
proof (induction cap order seen rule: di_evict.induct)
  case (2 cap old order seen)
  show ?case
  proof (cases "length (old # order) > cap")
    case True
    moreover have "seen - {old} = set order" using 2 by auto
    moreover have "length (old # order) - cap = Suc (length order - cap)" using True by simp
    ultimately show ?thesis using 2 by simp
  qed (use 2 in simp)
qed simp

text \<open>Inserting a new key keeps the newest keys, up to the capacity.\<close>

lemma insert_if_new_new:
  assumes "di_wf di" and "key \<notin> set (di_order di)"
  shows "insert_if_new key di =
    (let order = drop (Suc (length (di_order di)) - di_capacity di) (di_order di @ [key])
     in (di\<lparr> di_order := order, di_seen := set order \<rparr>, True))"
  using assms di_evict_eq [of "di_order di @ [key]" "insert key (di_seen di)" "di_capacity di"]
  by (simp add: insert_if_new_def di_wf_def Let_def)

lemma insert_if_new_old: "di_wf di \<Longrightarrow> key \<in> set (di_order di) \<Longrightarrow> insert_if_new key di = (di, False)"
  by (simp add: insert_if_new_def di_wf_def)

lemma insert_if_new_wf: "di_wf di \<Longrightarrow> di_wf (fst (insert_if_new key di))"
proof (cases "key \<in> set (di_order di)")
  case False
  assume wf: "di_wf di"
  then have "distinct (di_order di @ [key])" using False by (simp add: di_wf_def)
  then show ?thesis
    using wf insert_if_new_new [OF wf False] by (simp add: di_wf_def Let_def distinct_drop del: drop_append)
qed (simp add: insert_if_new_old)

lemma insert_if_new_member: "di_wf di \<Longrightarrow> key \<in> set (di_order (fst (insert_if_new key di)))"
  by (cases "key \<in> set (di_order di)") (auto simp: insert_if_new_new insert_if_new_old Let_def di_wf_def)

section \<open>Hot and cold state\<close>

definition RX_PREV_KEY_GRACE_PACKETS :: nat where
  "RX_PREV_KEY_GRACE_PACKETS = 256"

definition MAX_ORDERED_GROUPS :: nat where
  "MAX_ORDERED_GROUPS = 256"

definition MAX_PATH_RESPONSES_PER_DATAGRAM :: nat where
  "MAX_PATH_RESPONSES_PER_DATAGRAM = 1"

definition MAX_PENDING_PATH_RESPONSES :: nat where
  "MAX_PENDING_PATH_RESPONSES = 2"

definition OFFLINE_SIM_MASTER_SECRET :: bytes where
  "OFFLINE_SIM_MASTER_SECRET = ascii ''gtp_offline_sim_master_secret_NOT_FOR_PRODUCTION''"

record 'addr connection_hot =
  ch_connection_id :: connection_id
  ch_next_packet_number :: packet_number
  ch_state :: connection_state
  ch_active_path :: 'addr
  ch_next_send_time :: monotonic_time
  ch_loss_detector :: loss_detector
  ch_ack_tracker :: ack_tracker
  ch_cc :: cubic
  ch_pacing :: pacing_engine
  ch_scheduler :: game_scheduler
  ch_ordered_groups :: "(u16 \<times> ordered_group_receiver) list"
  ch_group_gens :: "(u16 \<times> nat) list"
  ch_gen_counter :: nat
  ch_rx_state_table :: state_table
  ch_reassembler :: message_reassembler
  ch_delivered_index :: delivered_index
  ch_replay_window :: replay_window
  ch_tx_protector :: protector
  ch_rx_protector :: protector
  ch_rx_protector_prev :: "protector option"
  ch_rx_prev_grace_packets :: nat
  ch_tx_key :: bytes
  ch_rx_key :: bytes
  ch_tx_iv :: bytes
  ch_rx_iv :: bytes
  ch_key_phase :: bool
  ch_key_phase_counter :: u64
  ch_control_queue :: "'addr outgoing_control_frame list"
  ch_close_frame_sent :: bool
  ch_anti_amplification :: anti_amplification_limiter
  ch_anti_amplification_probe :: "('addr \<times> anti_amplification_limiter) option"
  ch_path_validator :: "'addr path_validator"
  ch_owd :: owd_estimator
  ch_last_owd_emit :: monotonic_time
  ch_last_rx_time :: "monotonic_time option"
  ch_next_message_id :: u64
  ch_next_order_seqs :: "u16 \<Rightarrow> u32 option"
  ch_packets_since_ratchet :: nat
  ch_pending_ratchet :: bool
  ch_route_controller :: "switch_controller option"
  ch_route_paths :: "(u32 \<times> 'addr) list"
  ch_route_stats :: "path_stats list"

record connection_cold =
  co_total_rx_packets :: nat
  co_total_tx_packets :: nat
  co_total_rx_bytes :: nat
  co_total_tx_bytes :: nat
  co_total_stale_drops :: nat
  co_total_retransmissions :: nat
  co_total_spurious_losses :: nat
  co_total_corrupted_packets :: nat
  co_total_dropped_frames :: nat
  co_total_duplicate_drops :: nat
  co_total_dropped_events :: nat
  co_total_fragment_drops :: nat

definition ConnectionCold_default :: connection_cold where
  "ConnectionCold_default = \<lparr> co_total_rx_packets = 0, co_total_tx_packets = 0, co_total_rx_bytes = 0, co_total_tx_bytes = 0,
     co_total_stale_drops = 0, co_total_retransmissions = 0, co_total_spurious_losses = 0, co_total_corrupted_packets = 0,
     co_total_dropped_frames = 0, co_total_duplicate_drops = 0, co_total_dropped_events = 0, co_total_fragment_drops = 0 \<rparr>"

definition build_with_config ::
  "connection_id \<Rightarrow> 'addr \<Rightarrow> protector \<Rightarrow> protector \<Rightarrow> protector option \<Rightarrow> bytes \<Rightarrow> bytes \<Rightarrow> bytes \<Rightarrow> bytes \<Rightarrow> bool \<Rightarrow> bool \<Rightarrow>
   gtp_config \<Rightarrow> 'addr connection_hot" where
  "build_with_config cid peer_addr tx rx rx_prev tx_key rx_key tx_iv rx_iv phase pre_validated config =
     (let anti_amp = with_factor (cfg_anti_amplification_factor config);
          anti_amp = (if pre_validated then mark_validated anti_amp else anti_amp)
      in \<lparr> ch_connection_id = cid, ch_next_packet_number = 1, ch_state = Established, ch_active_path = peer_addr,
           ch_next_send_time = MonotonicTime_ZERO, ch_loss_detector = LossDetector_default,
           ch_ack_tracker = AckTracker_with_policy (cfg_ack_frequency_packets config) (cfg_max_ack_delay config),
           ch_cc = Cubic_with_config \<lparr> cf_smss = cfg_smss config, cf_initial_cwnd_packets = cfg_initial_cwnd_packets config,
             cf_min_cwnd_packets = cfg_min_cwnd_packets config, cf_beta = cfg_cubic_beta config, cf_c = cfg_cubic_c config,
             cf_pacing_gain = cfg_pacing_gain config \<rparr>,
           ch_pacing = PacingEngine_new (cfg_max_pacing_burst_bytes config),
           ch_scheduler = with_per_tier_byte_caps ((!) (cfg_max_queue_bytes_per_tier config)),
           ch_ordered_groups = [], ch_group_gens = [], ch_gen_counter = 0, ch_rx_state_table = StateTable_default,
           ch_reassembler = MessageReassembler_new, ch_delivered_index = DeliveredIndex_new 4096,
           ch_replay_window = ReplayWindow_new, ch_tx_protector = tx, ch_rx_protector = rx, ch_rx_protector_prev = rx_prev,
           ch_rx_prev_grace_packets = 0, ch_tx_key = tx_key, ch_rx_key = rx_key, ch_tx_iv = tx_iv, ch_rx_iv = rx_iv,
           ch_key_phase = phase, ch_key_phase_counter = 0, ch_control_queue = [], ch_close_frame_sent = False,
           ch_anti_amplification = anti_amp, ch_anti_amplification_probe = None, ch_path_validator = PathValidator_new,
           ch_owd = OwdEstimator_default, ch_last_owd_emit = MonotonicTime_ZERO, ch_last_rx_time = None,
           ch_next_message_id = 1, ch_next_order_seqs = Map.empty, ch_packets_since_ratchet = 0, ch_pending_ratchet = False,
           ch_route_controller = None, ch_route_paths = [], ch_route_stats = [] \<rparr>)"

definition hot_build ::
  "connection_id \<Rightarrow> 'addr \<Rightarrow> protector \<Rightarrow> protector \<Rightarrow> protector option \<Rightarrow> bytes \<Rightarrow> bytes \<Rightarrow> bytes \<Rightarrow> bytes \<Rightarrow> bool \<Rightarrow> bool \<Rightarrow>
   'addr connection_hot" where
  "hot_build cid peer_addr tx rx rx_prev tx_key rx_key tx_iv rx_iv phase pre_validated =
     build_with_config cid peer_addr tx rx rx_prev tx_key rx_key tx_iv rx_iv phase pre_validated GtpConfig_default"

text \<open>\<open>plaintext_feature\<close> is the build configuration \<^verbatim>\<open>any(test, feature = "insecure-plaintext")\<close>.\<close>

definition hot_new_with_master_secret ::
  "conn_env \<Rightarrow> bool \<Rightarrow> connection_id \<Rightarrow> 'addr \<Rightarrow> bool \<Rightarrow> bytes \<Rightarrow> bool \<Rightarrow> 'addr connection_hot" where
  "hot_new_with_master_secret env plaintext_feature cid peer_addr secure master_secret as_client =
     (let dirs = derive_directional_session_keys (env_hkdf env) master_secret cid;
          (tx, rx) = (if as_client
             then ((dk_client_tx_key dirs, dk_client_tx_iv dirs), (dk_server_tx_key dirs, dk_server_tx_iv dirs))
             else ((dk_server_tx_key dirs, dk_server_tx_iv dirs), (dk_client_tx_key dirs, dk_client_tx_iv dirs)));
          (tx_p, rx_p) = (if secure \<or> \<not> plaintext_feature
             then (Aead (new_for_cid (fst tx) (snd tx) cid), Aead (new_for_cid (fst rx) (snd rx) cid))
             else (Plaintext, Plaintext))
      in hot_build cid peer_addr tx_p rx_p None (fst tx) (fst rx) (snd tx) (snd rx) False True)"

definition hot_new_with_directional_keys ::
  "connection_id \<Rightarrow> 'addr \<Rightarrow> directional_keys \<Rightarrow> bool \<Rightarrow> bool \<Rightarrow> 'addr connection_hot" where
  "hot_new_with_directional_keys cid peer_addr keys as_client pre_validated =
     (let ((tx_key, tx_iv), (rx_key, rx_iv)) = for_role keys as_client
      in hot_build cid peer_addr (Aead (new_for_cid tx_key tx_iv cid)) (Aead (new_for_cid rx_key rx_iv cid)) None
           tx_key rx_key tx_iv rx_iv False pre_validated)"

section \<open>Ordered groups\<close>

text \<open>\<^verbatim>\<open>iter().min_by_key(..)\<close>: the first entry with the least generation.\<close>

fun min_gen :: "(u16 \<times> nat) list \<Rightarrow> u16 option" where
  "min_gen [] = None"
| "min_gen ((k, g) # es) = (case min_gen es of
     None \<Rightarrow> Some k
   | Some k' \<Rightarrow> (case map_of es k' of Some g' \<Rightarrow> if g \<le> g' then Some k else Some k' | None \<Rightarrow> Some k))"

lemma min_gen_mem: "min_gen es = Some k \<Longrightarrow> k \<in> fst ` set es"
  by (induction es) (auto split: option.splits if_splits)

function evict_groups :: "(u16 \<times> ordered_group_receiver) list \<Rightarrow> (u16 \<times> nat) list \<Rightarrow>
    (u16 \<times> ordered_group_receiver) list \<times> (u16 \<times> nat) list" where
  "evict_groups groups gens =
     (if MAX_ORDERED_GROUPS \<le> length groups then
        (case min_gen gens of
           None \<Rightarrow> (groups, gens)
         | Some lru \<Rightarrow> evict_groups (om_remove lru groups) (om_remove lru gens))
      else (groups, gens))"
  by pat_completeness auto
termination
proof (relation "measure (length \<circ> snd)", goal_cases)
  case (2 groups gens lru)
  then obtain g where "(lru, g) \<in> set gens" using min_gen_mem by fastforce
  then show ?case by (auto simp: om_remove_def intro!: length_filter_less)
qed simp

declare evict_groups.simps [simp del]

definition ordered_group_mut :: "u16 \<Rightarrow> 'addr connection_hot \<Rightarrow> 'addr connection_hot \<times> ordered_group_receiver result" where
  "ordered_group_mut key h =
     (let h' = (case map_of (ch_group_gens h) key of
          Some _ \<Rightarrow> (let g = wadd64 (ch_gen_counter h) 1 in
            h\<lparr> ch_gen_counter := g, ch_group_gens := om_insert key g (ch_group_gens h) \<rparr>)
        | None \<Rightarrow> (let (groups, gens) = evict_groups (ch_ordered_groups h) (ch_group_gens h);
                       g = wadd64 (ch_gen_counter h) 1 in
            h\<lparr> ch_gen_counter := g, ch_group_gens := om_insert key g gens,
               ch_ordered_groups := om_insert key (OrderedGroupReceiver_new key) groups \<rparr>))
      in (h', case map_of (ch_ordered_groups h') key of Some g \<Rightarrow> Ok g | None \<Rightarrow> Panic))"

text \<open>Writing back through the returned reference.\<close>

definition put_group :: "u16 \<Rightarrow> ordered_group_receiver \<Rightarrow> 'addr connection_hot \<Rightarrow> 'addr connection_hot" where
  "put_group key g h = h\<lparr> ch_ordered_groups := om_insert key g (ch_ordered_groups h) \<rparr>"

definition ordered_group_count :: "'addr connection_hot \<Rightarrow> nat" where
  "ordered_group_count h = length (ch_ordered_groups h)"

definition ordered_group_contains :: "u16 \<Rightarrow> 'addr connection_hot \<Rightarrow> bool" where
  "ordered_group_contains key h \<longleftrightarrow> map_of (ch_ordered_groups h) key \<noteq> None"

section \<open>Key ratchet\<close>

definition grace_open :: "'addr connection_hot \<Rightarrow> bool" where
  "grace_open h \<longleftrightarrow> ch_rx_protector_prev h \<noteq> None \<and> 0 < ch_rx_prev_grace_packets h"

definition ratchet_session_key :: "conn_env \<Rightarrow> 'addr connection_hot \<Rightarrow> 'addr connection_hot" where
  "ratchet_session_key env h =
     (if grace_open h then h
      else if ch_tx_protector h = Plaintext then h
      else
        let next = ch_key_phase_counter h + 1;
            cid = ch_connection_id h;
            (new_tx_key, new_tx_iv) = ratchet_key (env_hkdf env) (ch_tx_key h) cid next;
            (new_rx_key, new_rx_iv) = ratchet_key (env_hkdf env) (ch_rx_key h) cid next
        in h\<lparr> ch_rx_protector := Aead (new_for_cid new_rx_key new_rx_iv cid), ch_rx_protector_prev := Some (ch_rx_protector h),
              ch_rx_prev_grace_packets := RX_PREV_KEY_GRACE_PACKETS,
              ch_tx_protector := Aead (new_for_cid new_tx_key new_tx_iv cid),
              ch_tx_key := new_tx_key, ch_rx_key := new_rx_key, ch_tx_iv := new_tx_iv, ch_rx_iv := new_rx_iv,
              ch_key_phase := \<not> ch_key_phase h, ch_key_phase_counter := next, ch_packets_since_ratchet := 0 \<rparr>)"

definition ratchet_and_announce :: "'addr connection_hot \<Rightarrow> 'addr connection_hot \<times> u64" where
  "ratchet_and_announce h =
     (if grace_open h then (h, 0)
      else if ch_tx_protector h = Plaintext then (h, 0)
      else let next = ch_key_phase_counter h + 1
           in (h\<lparr> ch_control_queue := ch_control_queue h @ [OutKeyUpdate next], ch_pending_ratchet := True \<rparr>, next))"

definition flush_pending_ratchet :: "conn_env \<Rightarrow> 'addr connection_hot \<Rightarrow> 'addr connection_hot" where
  "flush_pending_ratchet env h =
     (if ch_pending_ratchet h then ratchet_session_key env (h\<lparr> ch_pending_ratchet := False \<rparr>) else h)"

definition on_key_update :: "conn_env \<Rightarrow> u64 \<Rightarrow> 'addr connection_hot \<Rightarrow> 'addr connection_hot" where
  "on_key_update env announced_phase h =
     (if announced_phase > ch_key_phase_counter h then ratchet_session_key env h else h)"

definition tick_rx_key_grace :: "'addr connection_hot \<Rightarrow> 'addr connection_hot" where
  "tick_rx_key_grace h =
     (if ch_rx_protector_prev h = None then h
      else let h1 = h\<lparr> ch_rx_prev_grace_packets := sat_sub (ch_rx_prev_grace_packets h) 1 \<rparr>
           in if ch_rx_prev_grace_packets h1 = 0 then h1\<lparr> ch_rx_protector_prev := None \<rparr> else h1)"

end
