(* ===== verification/Conn_State_Laws.thy ===== *)
theory Conn_State_Laws
  imports Conn_State
begin

text \<open>
  Laws of the connection state: the map of ordered groups is bounded and evicts the least recently
  used group, the delivered index refuses duplicates while it remembers them, and a key ratchet
  keeps the two directions of a connection mirrored with the previous key open for a finite number
  of datagrams.
\<close>

section \<open>Ordered groups\<close>

definition groups_wf :: "'addr connection_hot \<Rightarrow> bool" where
  "groups_wf h \<longleftrightarrow> om_wf (ch_ordered_groups h) \<and> om_wf (ch_group_gens h) \<and>
     dom (map_of (ch_ordered_groups h)) = dom (map_of (ch_group_gens h)) \<and>
     length (ch_ordered_groups h) \<le> MAX_ORDERED_GROUPS \<and>
     (\<forall>k g. map_of (ch_ordered_groups h) k = Some g \<longrightarrow> og_wf g) \<and>
     (\<forall>k n. map_of (ch_group_gens h) k = Some n \<longrightarrow> n \<le> ch_gen_counter h) \<and>
     inj_on (map_of (ch_group_gens h)) (dom (map_of (ch_group_gens h)))"

lemma groups_wfD:
  assumes "groups_wf h"
  shows "om_wf (ch_ordered_groups h)" "om_wf (ch_group_gens h)"
    "dom (map_of (ch_ordered_groups h)) = dom (map_of (ch_group_gens h))"
    "length (ch_ordered_groups h) \<le> MAX_ORDERED_GROUPS"
    "map_of (ch_ordered_groups h) k = Some g \<Longrightarrow> og_wf g"
    "map_of (ch_group_gens h) k = Some n \<Longrightarrow> n \<le> ch_gen_counter h"
    "inj_on (map_of (ch_group_gens h)) (dom (map_of (ch_group_gens h)))"
  using assms by (auto simp: groups_wf_def)

lemma min_gen_None [simp]: "min_gen es = None \<longleftrightarrow> es = []"
  by (cases es) (auto split: option.splits if_splits)

lemma min_gen_least:
  "om_wf es \<Longrightarrow> min_gen es = Some k \<Longrightarrow> \<exists>g. map_of es k = Some g \<and> (\<forall>k' g'. map_of es k' = Some g' \<longrightarrow> g \<le> g')"
proof (induction es arbitrary: k)
  case (Cons e es)
  obtain k0 g0 where e: "e = (k0, g0)" by (cases e)
  have wf: "om_wf es" and above: "\<forall>k' \<in> fst ` set es. k0 < k'" using Cons.prems(1) by (simp_all add: e om_wf_Cons)
  show ?case
  proof (cases "min_gen es")
    case None
    then show ?thesis using Cons.prems(2) by (simp add: e)
  next
    case (Some k')
    then obtain g' where g': "map_of es k' = Some g'" "\<And>k'' g''. map_of es k'' = Some g'' \<Longrightarrow> g' \<le> g''"
      using Cons.IH [OF wf] by blast
    then have "k' \<noteq> k0" using above by (auto dest!: map_of_SomeD)
    show ?thesis
    proof (cases "g0 \<le> g'")
      case True
      then have "k = k0" using Cons.prems(2) Some g'(1) by (simp add: e)
      then show ?thesis using g'(2) True by (auto simp: e dest: order_trans)
    next
      case False
      then have "k = k'" using Cons.prems(2) Some g'(1) by (simp add: e)
      then show ?thesis using g' False \<open>k' \<noteq> k0\<close> by (auto simp: e)
    qed
  qed
qed simp

lemma evict_groups_room: "length gs < MAX_ORDERED_GROUPS \<Longrightarrow> evict_groups gs ns = (gs, ns)"
  by (simp add: evict_groups.simps)

lemma evict_groups_full:
  assumes "om_wf gs" and "length gs = MAX_ORDERED_GROUPS" and "min_gen ns = Some lru" and "lru \<in> dom (map_of gs)"
  shows "evict_groups gs ns = (om_remove lru gs, om_remove lru ns)"
proof -
  have "length (om_remove lru gs) < MAX_ORDERED_GROUPS" using om_remove_length [OF assms(1)] assms(2,4) by force
  then show ?thesis using assms(2,3) by (subst evict_groups.simps) (simp add: evict_groups_room)
qed

text \<open>The maps after making room: unchanged, or without the group of least generation.\<close>

lemma evict_groups_result:
  assumes "groups_wf h"
  obtains (room) "length (ch_ordered_groups h) < MAX_ORDERED_GROUPS"
      "evict_groups (ch_ordered_groups h) (ch_group_gens h) = (ch_ordered_groups h, ch_group_gens h)"
  | (full) lru n where "length (ch_ordered_groups h) = MAX_ORDERED_GROUPS" "map_of (ch_group_gens h) lru = Some n"
      "\<forall>k n'. map_of (ch_group_gens h) k = Some n' \<longrightarrow> n \<le> n'"
      "evict_groups (ch_ordered_groups h) (ch_group_gens h) = (om_remove lru (ch_ordered_groups h), om_remove lru (ch_group_gens h))"
proof (cases "length (ch_ordered_groups h) < MAX_ORDERED_GROUPS")
  case True
  then show thesis using room evict_groups_room by blast
next
  case False
  then have len: "length (ch_ordered_groups h) = MAX_ORDERED_GROUPS" using groups_wfD(4) [OF assms] by simp
  then have "ch_ordered_groups h \<noteq> []" by (auto simp: MAX_ORDERED_GROUPS_def)
  then have "ch_group_gens h \<noteq> []" using groups_wfD(3) [OF assms] by auto
  then obtain lru where lru: "min_gen (ch_group_gens h) = Some lru" by (meson min_gen_None option.exhaust)
  then obtain n where n: "map_of (ch_group_gens h) lru = Some n" "\<forall>k n'. map_of (ch_group_gens h) k = Some n' \<longrightarrow> n \<le> n'"
    using min_gen_least [OF groups_wfD(2) [OF assms]] by blast
  then have "lru \<in> dom (map_of (ch_ordered_groups h))" using groups_wfD(3) [OF assms] by auto
  then show thesis using full [OF len n] evict_groups_full [OF groups_wfD(1) [OF assms] len lru] by blast
qed

lemma inj_on_map_upd:
  "inj_on m (dom m) \<Longrightarrow> (\<And>k n. m k = Some n \<Longrightarrow> n < v) \<Longrightarrow> inj_on (m(key \<mapsto> v)) (dom (m(key \<mapsto> v)))" for v :: nat
  unfolding inj_on_def by (auto simp: dom_def) fastforce+

lemma inj_on_map_del: "inj_on m (dom m) \<Longrightarrow> inj_on (m(key := None)) (dom (m(key := None)))"
  by (auto simp: inj_on_def)

text \<open>A touch of a live group.\<close>

lemma ordered_group_mut_live:
  assumes "groups_wf h" and "ch_gen_counter h < u64_max" and "map_of (ch_ordered_groups h) key = Some g"
  shows "\<exists>h'. ordered_group_mut key h = (h', Ok g) \<and> groups_wf h' \<and> ch_ordered_groups h' = ch_ordered_groups h \<and>
    map_of (ch_group_gens h') = (map_of (ch_group_gens h))(key \<mapsto> Suc (ch_gen_counter h))"
proof -
  note wf = groups_wfD [OF assms(1)]
  obtain n where n: "map_of (ch_group_gens h) key = Some n" using assms(3) wf(3) by blast
  have next_gen: "wadd64 (ch_gen_counter h) 1 = Suc (ch_gen_counter h)" using assms(2) u64_max_modulus by simp
  define h' where "h' = h\<lparr> ch_gen_counter := Suc (ch_gen_counter h),
    ch_group_gens := om_insert key (Suc (ch_gen_counter h)) (ch_group_gens h) \<rparr>"
  have "ordered_group_mut key h = (h', Ok g)"
    using n next_gen assms(3) by (simp add: ordered_group_mut_def h'_def Let_def)
  moreover have "groups_wf h'"
    unfolding groups_wf_def h'_def using wf n inj_on_map_upd [OF wf(7), of "Suc (ch_gen_counter h)" key]
    by (auto simp: le_Suc_eq less_Suc_eq_le insert_absorb)
  ultimately show ?thesis by (auto simp: h'_def)
qed

text \<open>A new group on maps with room.\<close>

definition groups_after :: "u16 \<Rightarrow> 'addr connection_hot \<Rightarrow> (u16 \<times> ordered_group_receiver) list \<Rightarrow> (u16 \<times> nat) list \<Rightarrow> 'addr connection_hot" where
  "groups_after key h gs ns = h\<lparr> ch_gen_counter := Suc (ch_gen_counter h), ch_group_gens := om_insert key (Suc (ch_gen_counter h)) ns,
     ch_ordered_groups := om_insert key (OrderedGroupReceiver_new key) gs \<rparr>"

lemma groups_after_wf:
  assumes "om_wf gs" and "om_wf ns" and "dom (map_of gs) = dom (map_of ns)" and "length gs < MAX_ORDERED_GROUPS"
    and "\<And>k g. map_of gs k = Some g \<Longrightarrow> og_wf g" and "\<And>k n. map_of ns k = Some n \<Longrightarrow> n \<le> ch_gen_counter h"
    and "inj_on (map_of ns) (dom (map_of ns))"
  shows "groups_wf (groups_after key h gs ns)"
  unfolding groups_wf_def groups_after_def
  using assms inj_on_map_upd [OF assms(7), of "Suc (ch_gen_counter h)" key] om_insert_length_le [of key "OrderedGroupReceiver_new key" gs]
  by (auto simp: le_Suc_eq less_Suc_eq_le og_wf_new)

lemma ordered_group_mut_new:
  assumes "groups_wf h" and "ch_gen_counter h < u64_max" and "map_of (ch_ordered_groups h) key = None"
    and "evict_groups (ch_ordered_groups h) (ch_group_gens h) = (gs, ns)"
  shows "ordered_group_mut key h = (groups_after key h gs ns, Ok (OrderedGroupReceiver_new key))"
proof -
  have "map_of (ch_group_gens h) key = None" using assms(3) groups_wfD(3) [OF assms(1)] by blast
  moreover have "wadd64 (ch_gen_counter h) 1 = Suc (ch_gen_counter h)" using assms(2) u64_max_modulus by simp
  ultimately show ?thesis using assms(4) by (simp add: ordered_group_mut_def groups_after_def Let_def)
qed

lemma groups_after_evicted_wf:
  assumes "groups_wf h" and "length (ch_ordered_groups h) = MAX_ORDERED_GROUPS" and "map_of (ch_group_gens h) lru = Some n"
  shows "groups_wf (groups_after key h (om_remove lru (ch_ordered_groups h)) (om_remove lru (ch_group_gens h)))"
proof -
  note wf = groups_wfD [OF assms(1)]
  obtain g where "map_of (ch_ordered_groups h) lru = Some g" using assms(3) wf(3) by blast
  then have "length (om_remove lru (ch_ordered_groups h)) < MAX_ORDERED_GROUPS"
    using om_remove_length [OF wf(1)] assms(2) by force
  then show ?thesis
    using wf inj_on_map_del [OF wf(7)] by (intro groups_after_wf) (auto split: if_splits)
qed

lemma put_group_wf:
  assumes "groups_wf h" and "og_wf g" and "map_of (ch_ordered_groups h) key = Some g0"
  shows "groups_wf (put_group key g h)"
  using groups_wfD [OF assms(1)] assms(2,3) om_insert_old_length [OF groups_wfD(1) [OF assms(1)] assms(3)]
  unfolding groups_wf_def put_group_def by (auto simp: insert_absorb)

text \<open>
  The receive side keeps at most 256 ordered groups and evicts the least recently used one. Each
  access returns the group (the \<^verbatim>\<open>expect\<close> never fires) and keeps the invariant of the two maps. A
  live group comes back as it was, with every other group untouched; a new group starts fresh, drops
  nothing while there is room, and at the limit drops exactly one group, one whose last access is
  the oldest of all.
\<close>

theorem ordered_groups_bounded_lru:
  assumes "groups_wf h" and "ch_gen_counter h < u64_max" and "ordered_group_mut key h = (h', r)"
  shows "groups_wf h' \<and> ordered_group_count h' \<le> 256 \<and>
    (case map_of (ch_ordered_groups h) key of
       Some g \<Rightarrow> r = Ok g \<and> ch_ordered_groups h' = ch_ordered_groups h
     | None \<Rightarrow> r = Ok (OrderedGroupReceiver_new key) \<and>
        (if ordered_group_count h < 256
         then map_of (ch_ordered_groups h') = (map_of (ch_ordered_groups h))(key \<mapsto> OrderedGroupReceiver_new key)
         else \<exists>lru n. map_of (ch_group_gens h) lru = Some n \<and> (\<forall>k n'. map_of (ch_group_gens h) k = Some n' \<longrightarrow> n \<le> n') \<and>
           map_of (ch_ordered_groups h') = (map_of (ch_ordered_groups h))(lru := None, key \<mapsto> OrderedGroupReceiver_new key)))"
proof (cases "map_of (ch_ordered_groups h) key")
  case (Some g)
  then show ?thesis
    using ordered_group_mut_live [OF assms(1,2) Some] assms(3)
    by (auto simp: ordered_group_count_def MAX_ORDERED_GROUPS_def dest: groups_wfD(4))
next
  case None
  show ?thesis
    using assms(1)
  proof (cases rule: evict_groups_result)
    case room
    then have "h' = groups_after key h (ch_ordered_groups h) (ch_group_gens h)" "r = Ok (OrderedGroupReceiver_new key)"
      using ordered_group_mut_new [OF assms(1,2) None] assms(3) by simp_all
    moreover have "groups_wf (groups_after key h (ch_ordered_groups h) (ch_group_gens h))"
      using groups_wfD [OF assms(1)] room(1) by (intro groups_after_wf) auto
    ultimately show ?thesis
      using None room(1) groups_wfD(4) [of h'] by (simp add: ordered_group_count_def MAX_ORDERED_GROUPS_def groups_after_def)
  next
    case (full lru n)
    let ?h = "groups_after key h (om_remove lru (ch_ordered_groups h)) (om_remove lru (ch_group_gens h))"
    have "h' = ?h" "r = Ok (OrderedGroupReceiver_new key)"
      using ordered_group_mut_new [OF assms(1,2) None full(4)] assms(3) by simp_all
    moreover have wf: "groups_wf ?h" by (rule groups_after_evicted_wf [OF assms(1) full(1,2)])
    moreover have "map_of (ch_ordered_groups ?h) = (map_of (ch_ordered_groups h))(lru := None, key \<mapsto> OrderedGroupReceiver_new key)"
      by (simp add: groups_after_def)
    moreover have "\<not> ordered_group_count h < 256" using full(1) by (simp add: ordered_group_count_def MAX_ORDERED_GROUPS_def)
    moreover have "ordered_group_count ?h \<le> 256" using groups_wfD(4) [OF wf] by (simp add: ordered_group_count_def MAX_ORDERED_GROUPS_def)
    ultimately show ?thesis using None full(2,3) by auto
  qed
qed

text \<open>A connection for the witnesses: its keys are not used, its addresses are numbers.\<close>

definition sample_hot :: "nat connection_hot" where
  "sample_hot = hot_build 7 1 (Aead (new_for_cid [1] [2] 7)) (Aead (new_for_cid [3] [4] 7)) None [1] [3] [2] [4] False True"

lemma sample_hot_groups [simp]:
  "ch_ordered_groups sample_hot = []" "ch_group_gens sample_hot = []" "ch_gen_counter sample_hot = 0" "groups_wf sample_hot"
  by (simp_all add: sample_hot_def hot_build_def build_with_config_def groups_wf_def)

theorem ordered_groups_bounded_lru_witness:
  "snd (ordered_group_mut 5 sample_hot) = Ok (OrderedGroupReceiver_new 5)"
proof -
  obtain h' r where m: "ordered_group_mut 5 sample_hot = (h', r)" by fastforce
  from ordered_groups_bounded_lru [OF _ _ this] show ?thesis by (simp add: m u64_max_def)
qed

section \<open>Key ratchet\<close>

text \<open>The two ends of a connection hold the same keys, each in the opposite direction.\<close>

definition mirrored :: "'addr connection_hot \<Rightarrow> 'addr connection_hot \<Rightarrow> bool" where
  "mirrored a b \<longleftrightarrow> ch_connection_id a = ch_connection_id b \<and> ch_tx_protector a = ch_rx_protector b \<and>
     ch_rx_protector a = ch_tx_protector b \<and> ch_tx_key a = ch_rx_key b \<and> ch_rx_key a = ch_tx_key b \<and>
     ch_tx_iv a = ch_rx_iv b \<and> ch_rx_iv a = ch_tx_iv b \<and>
     ch_key_phase a = ch_key_phase b \<and> ch_key_phase_counter a = ch_key_phase_counter b"

definition ratchetable :: "'addr connection_hot \<Rightarrow> bool" where
  "ratchetable h \<longleftrightarrow> \<not> grace_open h \<and> ch_tx_protector h \<noteq> Plaintext"

lemma ratchet_refused: "\<not> ratchetable h \<Longrightarrow> ratchet_session_key env h = h"
  by (auto simp: ratchetable_def ratchet_session_key_def)

lemma ratchet_fields:
  assumes "ratchetable h"
  shows "ch_key_phase (ratchet_session_key env h) = (\<not> ch_key_phase h)"
    "ch_key_phase_counter (ratchet_session_key env h) = ch_key_phase_counter h + 1"
    "ch_rx_protector_prev (ratchet_session_key env h) = Some (ch_rx_protector h)"
    "ch_rx_prev_grace_packets (ratchet_session_key env h) = 256"
    "\<not> ratchetable (ratchet_session_key env h)"
  using assms
  by (auto simp: ratchetable_def ratchet_session_key_def Let_def grace_open_def RX_PREV_KEY_GRACE_PACKETS_def split: prod.splits)

lemma ratchet_mirrored:
  assumes "mirrored a b" and "ratchetable a" and "ratchetable b"
  shows "mirrored (ratchet_session_key env a) (ratchet_session_key env b)"
  using assms by (auto simp: mirrored_def ratchetable_def ratchet_session_key_def Let_def split: prod.splits)

lemma tick_step:
  assumes "ch_rx_protector_prev h = Some p" and "ch_rx_prev_grace_packets h = Suc n"
  shows "ch_rx_protector_prev (tick_rx_key_grace h) = (if n = 0 then None else Some p) \<and> ch_rx_prev_grace_packets (tick_rx_key_grace h) = n"
  using assms by (simp add: tick_rx_key_grace_def Let_def sat_sub_def)

lemma tick_closed: "ch_rx_protector_prev h = None \<Longrightarrow> (tick_rx_key_grace ^^ n) h = h"
  by (induction n) (simp_all add: tick_rx_key_grace_def)

lemma tick_many:
  "ch_rx_protector_prev h = Some p \<Longrightarrow> ch_rx_prev_grace_packets h = Suc g \<Longrightarrow>
   ch_rx_protector_prev ((tick_rx_key_grace ^^ n) h) = (if n < Suc g then Some p else None)"
proof (induction n arbitrary: h g)
  case (Suc n)
  note step = tick_step [OF Suc.prems]
  show ?case
  proof (cases g)
    case 0
    then show ?thesis using step by (simp add: funpow_Suc_right tick_closed del: funpow.simps(2))
  next
    case (Suc g')
    then show ?thesis using Suc.IH [of "tick_rx_key_grace h" g'] step by (simp add: funpow_Suc_right del: funpow.simps(2))
  qed
qed simp

text \<open>
  One phase later: the phase bit flipped, the counter one up, both directions keyed with the next
  KDF output of their own key, and the receive protector of the old phase kept for 256 datagrams.
\<close>

definition next_phase :: "conn_env \<Rightarrow> 'addr connection_hot \<Rightarrow> 'addr connection_hot \<Rightarrow> bool" where
  "next_phase env h h' \<longleftrightarrow>
     ch_connection_id h' = ch_connection_id h \<and> ch_key_phase h' = (\<not> ch_key_phase h) \<and>
     ch_key_phase_counter h' = ch_key_phase_counter h + 1 \<and>
     (ch_tx_key h', ch_tx_iv h') = ratchet_key (env_hkdf env) (ch_tx_key h) (ch_connection_id h) (ch_key_phase_counter h + 1) \<and>
     (ch_rx_key h', ch_rx_iv h') = ratchet_key (env_hkdf env) (ch_rx_key h) (ch_connection_id h) (ch_key_phase_counter h + 1) \<and>
     ch_tx_protector h' = Aead (new_for_cid (ch_tx_key h') (ch_tx_iv h') (ch_connection_id h)) \<and>
     ch_rx_protector h' = Aead (new_for_cid (ch_rx_key h') (ch_rx_iv h') (ch_connection_id h)) \<and>
     ch_rx_protector_prev h' = Some (ch_rx_protector h) \<and> ch_rx_prev_grace_packets h' = 256 \<and>
     ch_packets_since_ratchet h' = 0"

lemma ratchet_next_phase: "ratchetable h \<Longrightarrow> next_phase env h (ratchet_session_key env h)"
  by (auto simp: next_phase_def ratchetable_def ratchet_session_key_def Let_def RX_PREV_KEY_GRACE_PACKETS_def split: prod.splits)

lemma next_phase_prev:
  "next_phase env h h' \<Longrightarrow> ch_rx_protector_prev ((tick_rx_key_grace ^^ n) h') = (if n < 256 then Some (ch_rx_protector h) else None)"
  using tick_many [of h' "ch_rx_protector h" 255 n] by (simp add: next_phase_def)

lemma next_phase_refuses:
  "next_phase env h h' \<Longrightarrow> ratchet_session_key env h' = h' \<and> (p \<le> ch_key_phase_counter h' \<longrightarrow> on_key_update env p h' = h')"
  by (simp add: next_phase_def ratchet_session_key_def on_key_update_def grace_open_def not_less [symmetric])

text \<open>
  C24: an announced key update keeps both ends on the same keys. One end queues the announcement of
  phase \<open>p\<close>, keeps its keys, and rotates once the announcement has left; the other rotates when it
  reads it. If neither end is inside a grace window or in plaintext mode, \<open>p\<close> is the next phase and
  each end is one phase later than it was: phase bit flipped, phase counter one up, both directions
  keyed by the KDF from their previous keys and bound to the connection, and the two ends are
  mirrored again. Each still holds its previous receive key, which for the end that read the
  announcement is the key under which the announcement was sealed, for the next 255 datagrams and
  drops it at the 256th; a repeated announcement of \<open>p\<close> changes nothing at either end, and neither
  end can rotate again before its window has closed.
\<close>

theorem key_update_lockstep:
  assumes "mirrored a b" and "ratchetable a" and "ratchetable b" and "ch_key_phase_counter a \<noteq> - 1"
    and "ratchet_and_announce a = (a1, p)"
    and "a' = flush_pending_ratchet env a1" and "b' = on_key_update env p b"
  shows "p = ch_key_phase_counter a + 1 \<and>
    a1 = a\<lparr> ch_control_queue := ch_control_queue a @ [OutKeyUpdate p], ch_pending_ratchet := True \<rparr> \<and>
    mirrored a' b' \<and> next_phase env a a' \<and> next_phase env b b' \<and> \<not> ch_pending_ratchet a' \<and>
    (\<forall>n. ch_rx_protector_prev ((tick_rx_key_grace ^^ n) a') = (if n < 256 then Some (ch_tx_protector b) else None)) \<and>
    (\<forall>n. ch_rx_protector_prev ((tick_rx_key_grace ^^ n) b') = (if n < 256 then Some (ch_tx_protector a) else None)) \<and>
    on_key_update env p a' = a' \<and> on_key_update env p b' = b' \<and>
    ratchet_session_key env a' = a' \<and> ratchet_session_key env b' = b'"
proof -
  have p: "p = ch_key_phase_counter a + 1"
    and a1: "a1 = a\<lparr> ch_control_queue := ch_control_queue a @ [OutKeyUpdate p], ch_pending_ratchet := True \<rparr>"
    using assms(2,5) by (auto simp: ratchet_and_announce_def ratchetable_def Let_def)
  have same: "ch_key_phase_counter b = ch_key_phase_counter a" "ch_rx_protector b = ch_tx_protector a" "ch_rx_protector a = ch_tx_protector b"
    using assms(1) by (simp_all add: mirrored_def)
  have "1 + ch_key_phase_counter a \<noteq> 0" using assms(4) by (metis add_eq_0_iff add.commute)
  then have "ch_key_phase_counter b < p" unfolding p same by (simp add: word_less_nat_alt unatSuc add.commute)
  then have b': "b' = ratchet_session_key env b" by (simp add: assms(7) on_key_update_def)
  let ?a = "a\<lparr> ch_control_queue := ch_control_queue a @ [OutKeyUpdate p], ch_pending_ratchet := False \<rparr>"
  have a': "a' = ratchet_session_key env ?a" by (simp add: assms(6) a1 flush_pending_ratchet_def)
  have ra: "ratchetable ?a" and "mirrored ?a b" using assms(1,2) by (simp_all add: ratchetable_def grace_open_def mirrored_def)
  then have mir: "mirrored a' b'" using ratchet_mirrored [OF _ ra assms(3)] by (simp add: a' b')
  have "next_phase env ?a a'" using ratchet_next_phase [OF ra] by (simp add: a')
  then have na: "next_phase env a a'" by (simp add: next_phase_def)
  have nb: "next_phase env b b'" using ratchet_next_phase [OF assms(3)] by (simp add: b')
  have "\<not> ch_pending_ratchet a'" by (simp add: a' ratchet_session_key_def Let_def split: prod.split)
  moreover have "p \<le> ch_key_phase_counter a'" "p \<le> ch_key_phase_counter b'" using na nb p same(1) by (simp_all add: next_phase_def)
  ultimately show ?thesis
    using p a1 mir na nb next_phase_prev [OF na] next_phase_prev [OF nb] next_phase_refuses [OF na] next_phase_refuses [OF nb] same by simp
qed

definition sample_peer :: "nat connection_hot" where
  "sample_peer = hot_build 7 2 (Aead (new_for_cid [3] [4] 7)) (Aead (new_for_cid [1] [2] 7)) None [3] [1] [4] [2] False True"

lemma sample_mirrored: "mirrored sample_hot sample_peer" "ratchetable sample_hot" "ratchetable sample_peer"
    "ch_key_phase_counter sample_hot = 0"
  by (simp_all add: mirrored_def ratchetable_def grace_open_def sample_hot_def sample_peer_def hot_build_def build_with_config_def)

theorem key_update_lockstep_witness:
  "\<forall>env. mirrored (flush_pending_ratchet env (fst (ratchet_and_announce sample_hot))) (on_key_update env 1 sample_peer) \<and>
     ch_key_phase_counter (flush_pending_ratchet env (fst (ratchet_and_announce sample_hot))) = 1 \<and>
     ch_rx_protector_prev (on_key_update env 1 sample_peer) = Some (Aead (new_for_cid [1] [2] 7))"
proof
  fix env
  obtain a1 p where r: "ratchet_and_announce sample_hot = (a1, p)" by fastforce
  from key_update_lockstep [OF sample_mirrored(1-3) _ this refl refl, of env]
  have "p = 1" "mirrored (flush_pending_ratchet env a1) (on_key_update env p sample_peer)"
      "next_phase env sample_hot (flush_pending_ratchet env a1)" "next_phase env sample_peer (on_key_update env p sample_peer)"
    by (auto simp: sample_mirrored(4))
  then show "mirrored (flush_pending_ratchet env (fst (ratchet_and_announce sample_hot))) (on_key_update env 1 sample_peer) \<and>
     ch_key_phase_counter (flush_pending_ratchet env (fst (ratchet_and_announce sample_hot))) = 1 \<and>
     ch_rx_protector_prev (on_key_update env 1 sample_peer) = Some (Aead (new_for_cid [1] [2] 7))"
    using sample_mirrored(4) by (simp add: r next_phase_def sample_peer_def hot_build_def build_with_config_def)
qed

section \<open>Delivered messages\<close>

text \<open>A run of reliable message ids through the index: the verdicts in order.\<close>

fun insert_all :: "u64 list \<Rightarrow> delivered_index \<Rightarrow> delivered_index \<times> bool list" where
  "insert_all [] di = (di, [])"
| "insert_all (key # keys) di =
     (let (di1, fresh) = insert_if_new key di; (di2, rest) = insert_all keys di1 in (di2, fresh # rest))"

text \<open>
  What is remembered of a run: a key stays in the index until \<open>cap\<close> further fresh keys have been
  recorded after it.
\<close>

lemma insert_if_new_keeps:
  assumes "di_wf di" and "di_order di = xs @ k # ys" and "length ys + 1 < di_capacity di"
  shows "\<exists>xs' ys'. di_order (fst (insert_if_new key di)) = xs' @ k # ys' \<and>
    length ys' = length ys + (if snd (insert_if_new key di) then 1 else 0)"
proof (cases "key \<in> set (di_order di)")
  case True
  then show ?thesis using assms by (auto simp: insert_if_new_old)
next
  case False
  define n where "n = Suc (length (di_order di)) - di_capacity di"
  have "n \<le> length xs" using assms by (simp add: n_def di_wf_def)
  then have "drop n (di_order di @ [key]) = drop n xs @ k # (ys @ [key])" using assms(2) by simp
  then have "di_order (fst (insert_if_new key di)) = drop n xs @ k # (ys @ [key])" "snd (insert_if_new key di)"
    using insert_if_new_new [OF assms(1) False] by (simp_all add: n_def Let_def)
  then show ?thesis by (intro exI [of _ "drop n xs"] exI [of _ "ys @ [key]"]) simp
qed

lemma insert_all_no_dup:
  "di_wf di \<Longrightarrow> di_order di = xs @ k # ys \<Longrightarrow> length ys + length keys < di_capacity di \<Longrightarrow>
   insert_all keys di = (di', verdicts) \<Longrightarrow> (k, True) \<notin> set (zip keys verdicts)"
proof (induction keys arbitrary: di xs ys verdicts)
  case (Cons key keys)
  obtain di1 fresh rest where step: "insert_if_new key di = (di1, fresh)" "insert_all keys di1 = (di', rest)" "verdicts = fresh # rest"
    using Cons.prems(4) by (auto split: prod.splits)
  have cap: "di_capacity di1 = di_capacity di"
    using step(1) by (auto simp: insert_if_new_def split: if_splits prod.splits)
  have "length ys + 1 < di_capacity di \<or> keys = []" using Cons.prems(3) by (cases keys) auto
  moreover have "\<not> (key = k \<and> fresh)" using Cons.prems(1,2) step(1) insert_if_new_old [of di key] by auto
  moreover have "(k, True) \<notin> set (zip keys rest)" if room: "length ys + 1 < di_capacity di"
  proof -
    obtain xs' ys' where kept: "di_order di1 = xs' @ k # ys'" "length ys' \<le> length ys + 1"
      using insert_if_new_keeps [OF Cons.prems(1,2) room, of key] step(1) by (auto split: if_splits)
    show ?thesis
      using Cons.IH [OF _ kept(1) _ step(2)] insert_if_new_wf [OF Cons.prems(1), of key] step(1) kept(2) Cons.prems(3) cap by simp
  qed
  ultimately show ?case using step(3) by auto
qed simp

text \<open>
  A reliable message is delivered at most once while it is remembered. After a message id has
  been accepted by the index (of capacity 4096), none of the next 4095 ids that arrive makes the
  index accept it again, and the index never holds more ids than its capacity.
\<close>

theorem delivered_index_dedup:
  assumes "di_wf di" and "insert_if_new k di = (di1, True)" and "insert_all keys di1 = (di2, verdicts)"
    and "length keys < di_capacity di"
  shows "(k, True) \<notin> set (zip keys verdicts) \<and> di_wf di1 \<and> length (di_order di1) \<le> di_capacity di"
proof -
  have new: "k \<notin> set (di_order di)" using assms(1,2) insert_if_new_old [OF assms(1), of k] by auto
  have cap: "di_capacity di1 = di_capacity di" using assms(2) by (auto simp: insert_if_new_def split: if_splits prod.splits)
  have "di_order di1 = drop (Suc (length (di_order di)) - di_capacity di) (di_order di) @ [k]"
    using assms(1,2) insert_if_new_new [OF assms(1) new] by (auto simp: Let_def di_wf_def)
  then have "(k, True) \<notin> set (zip keys verdicts)"
    using insert_all_no_dup [of di1 _ k "[]" keys di2 verdicts] insert_if_new_wf [OF assms(1), of k] assms(2-4) cap by auto
  then show ?thesis using insert_if_new_wf [OF assms(1), of k] assms(2) cap by (auto simp: di_wf_def)
qed

theorem delivered_index_dedup_witness:
  "snd (insert_all [9, 5] (fst (insert_if_new 5 (DeliveredIndex_new 4096)))) = [True, False]"
proof -
  let ?d = "fst (insert_if_new 5 (DeliveredIndex_new 4096))"
  have d: "insert_if_new 5 (DeliveredIndex_new 4096) = (?d, True)" by (simp add: insert_if_new_def DeliveredIndex_new_def split: prod.split)
  obtain d2 vs where vs: "insert_all [9, 5] ?d = (d2, vs)" by fastforce
  have "(5, True) \<notin> set (zip [9 :: u64, 5] vs)"
    using delivered_index_dedup [OF di_wf_new d vs] by (simp add: DeliveredIndex_new_def)
  moreover have "length vs = 2" "hd vs = True"
    using vs by (auto simp: insert_if_new_def DeliveredIndex_new_def split: prod.splits if_splits)
  ultimately show ?thesis using vs by (cases vs; cases "tl vs") auto
qed

end
