(* ===== verification/Conn_Control.thy ===== *)
theory Conn_Control
  imports Conn_State_Laws
begin

text \<open>
  The connection object and its operations other than the two datagram pipelines
  (\<^verbatim>\<open>gtp-core/src/connection.rs\<close>, \<^verbatim>\<open>control/handle.rs\<close>, \<^verbatim>\<open>control/metrics.rs\<close>, \<^verbatim>\<open>api.rs\<close>):
  construction, the bounded event queue, the semantic send operations, route switching, the control
  handle and the telemetry snapshots.

  A send returns a state and a result, because a failing send leaves what it queued before.
  \<^verbatim>\<open>chunks(0)\<close> and an index out of range panic.
\<close>

section \<open>The connection object\<close>

record 'addr gtp_connection =
  gc_hot :: "'addr connection_hot"
  gc_cold :: connection_cold
  gc_config :: gtp_config
  gc_event_queue :: "'addr control_event list"
  gc_last_backpressure :: backpressure_level

definition MAX_MESSAGE_FRAME_OVERHEAD :: nat where
  "MAX_MESSAGE_FRAME_OVERHEAD = 27"

definition PERSISTENT_CONGESTION_PTO_COUNT :: nat where
  "PERSISTENT_CONGESTION_PTO_COUNT = 3"

definition GtpConnection_new_with_role ::
  "conn_env \<Rightarrow> bool \<Rightarrow> connection_id \<Rightarrow> 'addr \<Rightarrow> bool \<Rightarrow> bool \<Rightarrow> bytes \<Rightarrow> gtp_config \<Rightarrow> 'addr gtp_connection" where
  "GtpConnection_new_with_role env plaintext_feature cid peer_addr secure as_client master_secret config =
     (let hot = hot_new_with_master_secret env plaintext_feature cid peer_addr secure master_secret as_client;
          hot = hot\<lparr> ch_ack_tracker := AckTracker_set_policy (cfg_ack_frequency_packets config) (cfg_max_ack_delay config) (ch_ack_tracker hot) \<rparr>;
          hot = hot\<lparr> ch_anti_amplification := mark_validated (ch_anti_amplification hot) \<rparr>;
          hot = hot\<lparr> ch_anti_amplification := set_factor (cfg_anti_amplification_factor config) (ch_anti_amplification hot) \<rparr>
      in \<lparr> gc_hot = hot, gc_cold = ConnectionCold_default, gc_config = config, gc_event_queue = [], gc_last_backpressure = Low \<rparr>)"

definition GtpConnection_new_with_directional_keys ::
  "connection_id \<Rightarrow> 'addr \<Rightarrow> directional_keys \<Rightarrow> bool \<Rightarrow> bool \<Rightarrow> gtp_config \<Rightarrow> 'addr gtp_connection" where
  "GtpConnection_new_with_directional_keys cid peer_addr keys as_client pre_validated config =
     (let hot = hot_new_with_directional_keys cid peer_addr keys as_client pre_validated;
          hot = hot\<lparr> ch_anti_amplification := set_factor (cfg_anti_amplification_factor config) (ch_anti_amplification hot) \<rparr>
      in \<lparr> gc_hot = hot, gc_cold = ConnectionCold_default, gc_config = config, gc_event_queue = [], gc_last_backpressure = Low \<rparr>)"

definition connection_is_active :: "'addr gtp_connection \<Rightarrow> bool" where
  "connection_is_active c \<longleftrightarrow> is_active (ch_state (gc_hot c))"

text \<open>Field updates through the connection.\<close>

definition on_hot :: "('addr connection_hot \<Rightarrow> 'addr connection_hot) \<Rightarrow> 'addr gtp_connection \<Rightarrow> 'addr gtp_connection" where
  "on_hot f c = c\<lparr> gc_hot := f (gc_hot c) \<rparr>"

definition on_cold :: "(connection_cold \<Rightarrow> connection_cold) \<Rightarrow> 'addr gtp_connection \<Rightarrow> 'addr gtp_connection" where
  "on_cold f c = c\<lparr> gc_cold := f (gc_cold c) \<rparr>"

lemma on_hot_simps [simp]:
  "gc_hot (on_hot f c) = f (gc_hot c)" "gc_cold (on_hot f c) = gc_cold c" "gc_config (on_hot f c) = gc_config c"
  "gc_event_queue (on_hot f c) = gc_event_queue c" "gc_last_backpressure (on_hot f c) = gc_last_backpressure c"
  by (simp_all add: on_hot_def)

lemma on_cold_simps [simp]:
  "gc_hot (on_cold g c) = gc_hot c" "gc_cold (on_cold g c) = g (gc_cold c)" "gc_config (on_cold g c) = gc_config c"
  "gc_event_queue (on_cold g c) = gc_event_queue c" "gc_last_backpressure (on_cold g c) = gc_last_backpressure c"
  by (simp_all add: on_cold_def)

section \<open>Events\<close>

definition count_dropped_event :: "connection_cold \<Rightarrow> connection_cold" where
  "count_dropped_event k = k\<lparr> co_total_dropped_events := wadd64 (co_total_dropped_events k) 1 \<rparr>"

definition push_event :: "'addr control_event \<Rightarrow> 'addr gtp_connection \<Rightarrow> 'addr gtp_connection" where
  "push_event ev c =
     (let capacity = cfg_event_queue_capacity (gc_config c)
      in if capacity = 0 then on_cold count_dropped_event c
         else let c1 = (if capacity \<le> length (gc_event_queue c)
                        then on_cold count_dropped_event (c\<lparr> gc_event_queue := drop 1 (gc_event_queue c) \<rparr>) else c)
              in c1\<lparr> gc_event_queue := gc_event_queue c1 @ [ev] \<rparr>)"

definition push_unbounded :: "'addr control_event \<Rightarrow> 'addr gtp_connection \<Rightarrow> 'addr gtp_connection" where
  "push_unbounded ev c = c\<lparr> gc_event_queue := gc_event_queue c @ [ev] \<rparr>"

definition drain_events :: "'addr gtp_connection \<Rightarrow> 'addr gtp_connection \<times> 'addr control_event list" where
  "drain_events c = (c\<lparr> gc_event_queue := [] \<rparr>, gc_event_queue c)"

lemma push_event_hot [simp]: "gc_hot (push_event ev c) = gc_hot c" "gc_config (push_event ev c) = gc_config c"
    "gc_last_backpressure (push_event ev c) = gc_last_backpressure c"
  by (simp_all add: push_event_def Let_def)

lemma push_unbounded_hot [simp]: "gc_hot (push_unbounded ev c) = gc_hot c" "gc_config (push_unbounded ev c) = gc_config c"
    "gc_cold (push_unbounded ev c) = gc_cold c" "gc_last_backpressure (push_unbounded ev c) = gc_last_backpressure c"
  by (simp_all add: push_unbounded_def)

section \<open>Sending\<close>

definition max_message_payload :: "'addr gtp_connection \<Rightarrow> nat" where
  "max_message_payload c = sat_sub (cfg_min_mtu (gc_config c))
     (MIN_COMMON_HEADER_LEN + tag_len (ch_tx_protector (gc_hot c)) + MAX_MESSAGE_FRAME_OVERHEAD)"

definition take_message_id :: "'addr gtp_connection \<Rightarrow> 'addr gtp_connection \<times> message_id" where
  "take_message_id c = (on_hot (\<lambda>h. h\<lparr> ch_next_message_id := ch_next_message_id h + 1 \<rparr>) c, ch_next_message_id (gc_hot c))"

definition enqueue_item :: "schedulable_item \<Rightarrow> monotonic_time \<Rightarrow> 'addr gtp_connection \<Rightarrow> 'addr gtp_connection \<times> unit result" where
  "enqueue_item item now c =
     (let (s, r) = enqueue item now (ch_scheduler (gc_hot c)) in (on_hot (\<lambda>h. h\<lparr> ch_scheduler := s \<rparr>) c, r))"

definition send_single :: "(message_id \<Rightarrow> schedulable_item) \<Rightarrow> bytes \<Rightarrow> monotonic_time \<Rightarrow> 'addr gtp_connection \<Rightarrow>
    'addr gtp_connection \<times> message_id result" where
  "send_single mk payload now c =
     (if length payload > max_message_payload c then (c, Err (PayloadTooLarge (max_message_payload c)))
      else let (c1, mid) = take_message_id c;
               (c2, r) = enqueue_item (mk mid) now c1
           in (c2, omap (\<lambda>_. mid) r))"

definition send_unreliable :: "bytes \<Rightarrow> priority_tier \<Rightarrow> monotonic_time option \<Rightarrow> monotonic_time \<Rightarrow> 'addr gtp_connection \<Rightarrow>
    'addr gtp_connection \<times> message_id result" where
  "send_unreliable payload priority deadline now =
     send_single (\<lambda>mid. \<lparr> si_message_id = mid, si_class = Unreliable, si_priority = priority, si_created_at = now,
       si_deadline = deadline, si_supersedable = True, si_payload = payload, si_fragment_id = 0, si_total_fragments = 1 \<rparr>) payload now"

definition send_sequenced :: "state_key \<Rightarrow> state_sequence \<Rightarrow> generation_id \<Rightarrow> monotonic_time option \<Rightarrow> bytes \<Rightarrow> monotonic_time \<Rightarrow>
    'addr gtp_connection \<Rightarrow> 'addr gtp_connection \<times> message_id result" where
  "send_sequenced key sq gen deadline payload now =
     send_single (\<lambda>mid. \<lparr> si_message_id = mid, si_class = UnreliableSequenced key sq gen, si_priority = P2WorldState,
       si_created_at = now, si_deadline = deadline, si_supersedable = True, si_payload = payload, si_fragment_id = 0,
       si_total_fragments = 1 \<rparr>) payload now"

text \<open>One schedulable item per chunk; the first refused one ends the loop.\<close>

definition fragment_item :: "message_class \<Rightarrow> priority_tier \<Rightarrow> monotonic_time option \<Rightarrow> monotonic_time \<Rightarrow> message_id \<Rightarrow> u16 \<Rightarrow> nat \<Rightarrow> bytes \<Rightarrow>
    schedulable_item" where
  "fragment_item cls priority deadline now mid frags idx chunk = \<lparr> si_message_id = mid, si_class = cls, si_priority = priority,
     si_created_at = now, si_deadline = deadline, si_supersedable = False, si_payload = chunk, si_fragment_id = of_nat idx,
     si_total_fragments = frags \<rparr>"

fun enqueue_fragments :: "(nat \<Rightarrow> bytes \<Rightarrow> schedulable_item) \<Rightarrow> monotonic_time \<Rightarrow> nat \<Rightarrow> bytes list \<Rightarrow> 'addr gtp_connection \<Rightarrow>
    'addr gtp_connection \<times> unit result" where
  "enqueue_fragments mk now idx [] c = (c, Ok ())"
| "enqueue_fragments mk now idx (chunk # rest) c =
     (case enqueue_item (mk idx chunk) now c of
        (c1, Ok _) \<Rightarrow> enqueue_fragments mk now (Suc idx) rest c1
      | (c1, Err e) \<Rightarrow> (c1, Err e)
      | (c1, Panic) \<Rightarrow> (c1, Panic))"

definition enqueue_chunks :: "(nat \<Rightarrow> bytes \<Rightarrow> schedulable_item) \<Rightarrow> monotonic_time \<Rightarrow> nat \<Rightarrow> bytes \<Rightarrow> message_id \<Rightarrow> 'addr gtp_connection \<Rightarrow>
    'addr gtp_connection \<times> message_id result" where
  "enqueue_chunks mk now budget payload mid c =
     (if budget = 0 then (c, Panic)
      else let (c1, r) = enqueue_fragments mk now 0 (chunks budget payload) c in (c1, omap (\<lambda>_. mid) r))"

definition send_reliable_unordered :: "bytes \<Rightarrow> priority_tier \<Rightarrow> monotonic_time option \<Rightarrow> monotonic_time \<Rightarrow> 'addr gtp_connection \<Rightarrow>
    'addr gtp_connection \<times> message_id result" where
  "send_reliable_unordered payload priority deadline now c =
     (let (c1, mid) = take_message_id c; budget = max_message_payload c1
      in case message_fragment_count (length payload) budget of
           Ok frags \<Rightarrow> enqueue_chunks (fragment_item ReliableUnordered priority deadline now mid frags) now budget payload mid c1
         | Err e \<Rightarrow> (c1, Err e)
         | Panic \<Rightarrow> (c1, Panic))"

definition send_reliable_ordered :: "ordered_group_id \<Rightarrow> bytes \<Rightarrow> priority_tier \<Rightarrow> monotonic_time option \<Rightarrow> monotonic_time \<Rightarrow>
    'addr gtp_connection \<Rightarrow> 'addr gtp_connection \<times> message_id result" where
  "send_reliable_ordered gid payload priority deadline now c =
     (let budget = max_message_payload c
      in case message_fragment_count (length payload) budget of
           Ok frags \<Rightarrow>
             (let seqs = ch_next_order_seqs (gc_hot c);
                  current = (case seqs gid of Some q \<Rightarrow> q | None \<Rightarrow> 0);
                  c1 = on_hot (\<lambda>h. h\<lparr> ch_next_order_seqs := seqs(gid \<mapsto> current + 1) \<rparr>) c;
                  (c2, mid) = take_message_id c1
              in enqueue_chunks (fragment_item (ReliableOrdered gid current) priority deadline now mid frags) now budget payload mid c2)
         | Err e \<Rightarrow> (c, Err e)
         | Panic \<Rightarrow> (c, Panic))"

section \<open>Route switching\<close>

definition enable_route_switching :: "switch_policy \<Rightarrow> (u32 \<times> 'addr) list \<Rightarrow> 'addr gtp_connection \<Rightarrow> 'addr gtp_connection" where
  "enable_route_switching pol paths = on_hot (\<lambda>h. h\<lparr> ch_route_controller := Some (SwitchController_new pol),
     ch_route_paths := paths, ch_route_stats := replicate (length paths) PathStats_default \<rparr>)"

fun path_position :: "u32 \<Rightarrow> (u32 \<times> 'addr) list \<Rightarrow> nat option" where
  "path_position pid [] = None"
| "path_position pid ((i, _) # ps) = (if i = pid then Some 0 else map_option Suc (path_position pid ps))"

definition feed_route_stats :: "u32 \<Rightarrow> path_stats \<Rightarrow> 'addr gtp_connection \<Rightarrow> 'addr gtp_connection result" where
  "feed_route_stats pid stats c = (case path_position pid (ch_route_paths (gc_hot c)) of
     None \<Rightarrow> Ok c
   | Some pos \<Rightarrow> if pos < length (ch_route_stats (gc_hot c))
                 then Ok (on_hot (\<lambda>h. h\<lparr> ch_route_stats := (ch_route_stats h)[pos := stats] \<rparr>) c) else Panic)"

fun route_event :: "switch_decision \<Rightarrow> 'addr control_event" where
  "route_event (SwHold current why) = RouteHeld current (SelectionReason_code why)"
| "route_event (SwSwitch a b _) = RouteSwitched a b ''clear_winner''"
| "route_event (SwRevert a b) = RouteReverted a b"

definition adopt_path :: "u32 \<Rightarrow> 'addr connection_hot \<Rightarrow> 'addr connection_hot" where
  "adopt_path pid h = (case map_of (ch_route_paths h) pid of Some addr \<Rightarrow> h\<lparr> ch_active_path := addr \<rparr> | None \<Rightarrow> h)"

definition actuate :: "switch_decision \<Rightarrow> 'addr connection_hot \<Rightarrow> 'addr connection_hot" where
  "actuate d h = (case d of SwSwitch _ to _ \<Rightarrow> adopt_path to h | SwRevert _ to \<Rightarrow> adopt_path to h | SwHold _ _ \<Rightarrow> h)"

definition sync_selected :: "switch_controller \<Rightarrow> 'addr connection_hot \<Rightarrow> 'addr connection_hot" where
  "sync_selected ctl h = (if sw_policy ctl = PolicyEnforce
     then (case sw_selected ctl of Some pid \<Rightarrow> adopt_path pid h | None \<Rightarrow> h) else h)"

definition tick_route_evaluation :: "monotonic_time \<Rightarrow> 'addr gtp_connection \<Rightarrow> 'addr gtp_connection result" where
  "tick_route_evaluation now c = (case ch_route_controller (gc_hot c) of
     None \<Rightarrow> Ok c
   | Some controller \<Rightarrow>
       obind (evaluate controller (ch_route_stats (gc_hot c)) now (DecisionTracker_new 64)) (\<lambda>(decision, controller', _).
         let c1 = on_hot (\<lambda>h. h\<lparr> ch_route_controller := Some controller' \<rparr>) c;
             c2 = push_unbounded (route_event decision) c1
         in Ok (on_hot (sync_selected controller' \<circ> actuate decision) c2)))"

section \<open>The control handle\<close>

definition queue_control :: "'addr outgoing_control_frame \<Rightarrow> 'addr gtp_connection \<Rightarrow> 'addr gtp_connection" where
  "queue_control f = on_hot (\<lambda>h. h\<lparr> ch_control_queue := ch_control_queue h @ [f] \<rparr>)"

text \<open>The local side of the acknowledgement policy, set by the handle and by the peer's frame alike.\<close>

definition apply_ack_policy :: "u8 \<Rightarrow> u16 \<Rightarrow> u8 \<Rightarrow> 'addr gtp_connection \<Rightarrow> 'addr gtp_connection" where
  "apply_ack_policy freq delay_ms reorder c =
     (let delay = Duration_from_millis (unat delay_ms);
          c1 = c\<lparr> gc_config := (gc_config c)\<lparr> cfg_ack_frequency_packets := freq, cfg_max_ack_delay := delay,
                                              cfg_ack_reorder_threshold := reorder \<rparr> \<rparr>
      in on_hot (\<lambda>h. h\<lparr> ch_ack_tracker := AckTracker_set_policy freq delay (ch_ack_tracker h) \<rparr>) c1)"

definition set_ack_frequency :: "u8 \<Rightarrow> u16 \<Rightarrow> u8 \<Rightarrow> 'addr gtp_connection \<Rightarrow> 'addr gtp_connection \<times> unit result" where
  "set_ack_frequency freq delay_ms reorder c =
     (queue_control (OutAckFrequency freq delay_ms reorder) (apply_ack_policy freq delay_ms reorder c), Ok ())"

definition trigger_path_challenge :: "'addr \<Rightarrow> bytes \<Rightarrow> monotonic_time \<Rightarrow> 'addr gtp_connection \<Rightarrow> 'addr gtp_connection \<times> unit result" where
  "trigger_path_challenge new_addr nonce now c =
     (let c1 = on_hot (\<lambda>h. h\<lparr> ch_path_validator := start_challenge new_addr nonce now (ch_path_validator h) \<rparr>) c;
          c2 = on_hot (\<lambda>h. h\<lparr> ch_anti_amplification_probe :=
                 (if new_addr = ch_active_path h then None
                  else Some (new_addr, with_factor (cfg_anti_amplification_factor (gc_config c)))) \<rparr>) c1
      in (queue_control (OutPathChallenge nonce new_addr) c2, Ok ()))"

definition trigger_mtu_probe :: "u32 \<Rightarrow> nat \<Rightarrow> 'addr gtp_connection \<Rightarrow> 'addr gtp_connection \<times> unit result" where
  "trigger_mtu_probe probe probe_size c = (queue_control (OutMtuProbe probe (sat_sub probe_size 32)) c, Ok ())"

definition send_ping :: "u64 \<Rightarrow> 'addr gtp_connection \<Rightarrow> 'addr gtp_connection \<times> unit result" where
  "send_ping nonce c = (queue_control (OutPing nonce) c, Ok ())"

text \<open>\<^verbatim>\<open>self.hot.state.transition_to(next)?\<close> followed by the event.\<close>

definition change_state :: "connection_state \<Rightarrow> 'addr gtp_connection \<Rightarrow> 'addr gtp_connection \<times> unit result" where
  "change_state nxt c =
     (let old = ch_state (gc_hot c); (st, r) = transition_to old nxt; c1 = on_hot (\<lambda>h. h\<lparr> ch_state := st \<rparr>) c
      in case r of Ok _ \<Rightarrow> (push_event (StateChanged old nxt) c1, Ok ()) | Err e \<Rightarrow> (c1, Err e) | Panic \<Rightarrow> (c1, Panic))"

definition graceful_close :: "u16 \<Rightarrow> bytes \<Rightarrow> 'addr gtp_connection \<Rightarrow> 'addr gtp_connection \<times> unit result" where
  "graceful_close code why c = change_state Draining (queue_control (OutClose code why) c)"

definition force_close :: "u16 \<Rightarrow> 'addr gtp_connection \<Rightarrow> 'addr gtp_connection \<times> unit result" where
  "force_close code c = change_state Closed c"

definition handle_ratchet_key :: "conn_env \<Rightarrow> 'addr gtp_connection \<Rightarrow> 'addr gtp_connection" where
  "handle_ratchet_key env = on_hot (ratchet_session_key env)"

definition initiate_key_update :: "'addr gtp_connection \<Rightarrow> 'addr gtp_connection \<times> u64" where
  "initiate_key_update c = (let (h, phase) = ratchet_and_announce (gc_hot c) in (c\<lparr> gc_hot := h \<rparr>, phase))"

section \<open>Telemetry\<close>

record received_message =
  rm_class :: message_class
  rm_payload :: bytes

record network_feedback =
  nf_rtt :: duration
  nf_smoothed_rtt :: duration
  nf_min_rtt :: "duration option"
  nf_cwnd_bytes :: nat
  nf_inflight_bytes :: nat
  nf_pacing_rate_bps :: nat
  nf_backpressure :: backpressure_level
  nf_effective_queue_bytes :: nat

definition feedback :: "monotonic_time \<Rightarrow> 'addr gtp_connection \<Rightarrow> network_feedback" where
  "feedback now c =
     (let h = gc_hot c; rtt = ld_rtt_stats (ch_loss_detector h); eff = effective_queue_bytes now (ch_scheduler h)
      in \<lparr> nf_rtt = latest_rtt rtt, nf_smoothed_rtt = smoothed_rtt rtt, nf_min_rtt = min_rtt_sample rtt,
           nf_cwnd_bytes = cu_cwnd (ch_cc h), nf_inflight_bytes = ld_inflight_bytes (ch_loss_detector h),
           nf_pacing_rate_bps = pacing_rate (ch_cc h),
           nf_backpressure = calculate_backpressure eff (cu_cwnd (ch_cc h)) (smoothed_rtt rtt) (min_rtt_sample rtt),
           nf_effective_queue_bytes = eff \<rparr>)"

record detailed_metrics =
  dm_latest_rtt :: duration
  dm_smoothed_rtt :: duration
  dm_rttvar :: duration
  dm_min_rtt :: "duration option"
  dm_pto_duration :: duration
  dm_owd_var :: "duration option"
  dm_jitter :: "duration option"
  dm_since_last_rx :: "duration option"
  dm_cwnd_bytes :: nat
  dm_inflight_bytes :: nat
  dm_pacing_rate_bps :: nat
  dm_pacing_tokens_remaining :: nat
  dm_backpressure :: backpressure_level
  dm_queue_bytes_per_tier :: "nat list"
  dm_effective_queue_bytes :: nat
  dm_total_stale_drops :: nat
  dm_total_tx_packets :: nat
  dm_total_rx_packets :: nat
  dm_total_tx_bytes :: nat
  dm_total_rx_bytes :: nat
  dm_total_retransmissions :: nat
  dm_total_corrupted_packets :: nat
  dm_total_dropped_events :: nat
  dm_pto_count :: nat
  dm_ecn_ect0_count :: nat
  dm_ecn_ect1_count :: nat
  dm_ecn_ce_count :: nat

definition query_metrics :: "monotonic_time \<Rightarrow> 'addr gtp_connection \<Rightarrow> detailed_metrics" where
  "query_metrics now c =
     (let h = gc_hot c; k = gc_cold c; rtt = ld_rtt_stats (ch_loss_detector h); eff = effective_queue_bytes now (ch_scheduler h)
      in \<lparr> dm_latest_rtt = latest_rtt rtt, dm_smoothed_rtt = smoothed_rtt rtt, dm_rttvar = rttvar rtt, dm_min_rtt = min_rtt_sample rtt,
           dm_pto_duration = pto_duration rtt, dm_owd_var = owd_var (ch_owd h), dm_jitter = jitter (ch_owd h),
           dm_since_last_rx = map_option (\<lambda>t. time_sub now t) (ch_last_rx_time h),
           dm_cwnd_bytes = cu_cwnd (ch_cc h), dm_inflight_bytes = ld_inflight_bytes (ch_loss_detector h),
           dm_pacing_rate_bps = pacing_rate (ch_cc h), dm_pacing_tokens_remaining = pe_tokens_bytes (ch_pacing h),
           dm_backpressure = calculate_backpressure eff (cu_cwnd (ch_cc h)) (smoothed_rtt rtt) (min_rtt_sample rtt),
           dm_queue_bytes_per_tier = [0, 0, 0, 0, 0], dm_effective_queue_bytes = eff,
           dm_total_stale_drops = co_total_stale_drops k, dm_total_tx_packets = co_total_tx_packets k,
           dm_total_rx_packets = co_total_rx_packets k, dm_total_tx_bytes = co_total_tx_bytes k,
           dm_total_rx_bytes = co_total_rx_bytes k, dm_total_retransmissions = co_total_retransmissions k,
           dm_total_corrupted_packets = co_total_corrupted_packets k, dm_total_dropped_events = co_total_dropped_events k,
           dm_pto_count = ld_pto_count (ch_loss_detector h),
           dm_ecn_ect0_count = 0, dm_ecn_ect1_count = 0, dm_ecn_ce_count = 0 \<rparr>)"

definition loss_ratio :: "detailed_metrics \<Rightarrow> rat" where
  "loss_ratio m = (if dm_total_tx_packets m = 0 then 0
     else fdiv (of_u64 (dm_total_retransmissions m)) (of_u64 (dm_total_tx_packets m)))"

section \<open>Event queue lemmas\<close>

lemma push_event_queue:
  assumes "length (gc_event_queue c) \<le> cfg_event_queue_capacity (gc_config c)"
  shows "gc_event_queue (push_event ev c) =
    drop (Suc (length (gc_event_queue c)) - cfg_event_queue_capacity (gc_config c)) (gc_event_queue c @ [ev])"
  using assms by (auto simp: push_event_def Let_def Suc_diff_le le_Suc_eq)

definition events_of :: "'addr control_event list \<Rightarrow> 'addr gtp_connection \<Rightarrow> 'addr gtp_connection" where
  "events_of evs c = fold push_event evs c"

lemma events_of_frame [simp]: "gc_config (events_of evs c) = gc_config c" "gc_hot (events_of evs c) = gc_hot c"
  unfolding events_of_def by (induction evs arbitrary: c) simp_all

lemma push_event_dropped:
  assumes "co_total_dropped_events (gc_cold c) < u64_max"
  shows "co_total_dropped_events (gc_cold (push_event ev c)) =
    co_total_dropped_events (gc_cold c) + (if length (gc_event_queue c) < cfg_event_queue_capacity (gc_config c) then 0 else 1)"
  using assms u64_max_modulus by (auto simp: push_event_def Let_def count_dropped_event_def)

lemma events_of_queue:
  assumes "length (gc_event_queue c) \<le> cap" and "cap = cfg_event_queue_capacity (gc_config c)"
    and "co_total_dropped_events (gc_cold c) + length evs \<le> u64_max"
  shows "gc_event_queue (events_of evs c) = drop (length (gc_event_queue c) + length evs - cap) (gc_event_queue c @ evs) \<and>
    co_total_dropped_events (gc_cold (events_of evs c)) = co_total_dropped_events (gc_cold c) + (length (gc_event_queue c) + length evs - cap)"
  using assms
proof (induction evs arbitrary: c)
  case Nil
  then show ?case by (simp add: events_of_def)
next
  case (Cons ev evs)
  let ?c = "push_event ev c"
  have q: "gc_event_queue ?c = drop (Suc (length (gc_event_queue c)) - cap) (gc_event_queue c @ [ev])"
    using push_event_queue [of c ev] Cons.prems(1,2) by simp
  have len: "length (gc_event_queue ?c) = min cap (Suc (length (gc_event_queue c)))" using q Cons.prems(1) by auto
  have d: "co_total_dropped_events (gc_cold ?c) = co_total_dropped_events (gc_cold c) + (Suc (length (gc_event_queue c)) - cap)"
    using push_event_dropped [of c ev] Cons.prems by auto
  have "gc_event_queue (events_of evs ?c) = drop (length (gc_event_queue ?c) + length evs - cap) (gc_event_queue ?c @ evs) \<and>
    co_total_dropped_events (gc_cold (events_of evs ?c)) = co_total_dropped_events (gc_cold ?c) + (length (gc_event_queue ?c) + length evs - cap)"
    using Cons.prems len d by (intro Cons.IH) auto
  moreover have "drop (length (gc_event_queue ?c) + length evs - cap) (gc_event_queue ?c @ evs) =
    drop (length (gc_event_queue c) + length (ev # evs) - cap) (gc_event_queue c @ ev # evs)"
  proof -
    have "gc_event_queue ?c @ evs = drop (Suc (length (gc_event_queue c)) - cap) (gc_event_queue c @ ev # evs)"
      unfolding q using Cons.prems(1) by (cases "length (gc_event_queue c) = cap"; cases "gc_event_queue c") auto
    moreover have "length (gc_event_queue ?c) + length evs - cap + (Suc (length (gc_event_queue c)) - cap) =
      length (gc_event_queue c) + length (ev # evs) - cap"
      using len Cons.prems(1) by (auto simp: min_def)
    ultimately show ?thesis by (metis drop_drop)
  qed
  ultimately show ?case using d len Cons.prems(1) by (simp add: events_of_def)
qed

section \<open>Sending lemmas\<close>

fun is_reliable :: "message_class \<Rightarrow> bool" where
  "is_reliable ReliableUnordered = True"
| "is_reliable (ReliableOrdered _ _) = True"
| "is_reliable _ = False"

lemma enqueue_reliable:
  "is_reliable (si_class item) \<Longrightarrow> enqueue item now s =
     (case admission_error item now s of Some e \<Rightarrow> (s, Err e) | None \<Rightarrow> (push_item push_back item s, Ok ()))"
  by (cases "si_class item") (auto simp: enqueue_def split: option.split)

lemma enqueue_no_panic: "snd (enqueue item now s) \<noteq> Panic"
  by (auto simp: enqueue_def split: option.split message_class.split prod.split)

lemma enqueue_Err: "enqueue item now s = (s', Err e) \<Longrightarrow> s' = s"
  by (auto simp: enqueue_def split: option.splits message_class.splits prod.splits if_splits)

lemma enqueue_item_frame:
  "enqueue_item item now c = (c', r) \<Longrightarrow> c' = on_hot (\<lambda>h. h\<lparr> ch_scheduler := ch_scheduler (gc_hot c') \<rparr>) c"
  by (auto simp: enqueue_item_def split: prod.splits)

lemma enqueue_item_no_panic: "snd (enqueue_item item now c) \<noteq> Panic"
  using enqueue_no_panic [of item now "ch_scheduler (gc_hot c)"] by (auto simp: enqueue_item_def split: prod.split)

lemma enqueue_item_reliable:
  assumes "is_reliable (si_class item)" and "enqueue_item item now c = (c', Ok ())"
  shows "gs_queues (ch_scheduler (gc_hot c')) = (gs_queues (ch_scheduler (gc_hot c)))
    (tier_index (si_priority item) := gs_queues (ch_scheduler (gc_hot c)) (tier_index (si_priority item)) @ [item])"
  using assms by (auto simp: enqueue_item_def enqueue_reliable push_item_def push_back_def Let_def split: option.splits prod.splits)

lemma scheduler_frame_trans:
  "c1 = on_hot (\<lambda>h. h\<lparr> ch_scheduler := s1 \<rparr>) c \<Longrightarrow> c2 = on_hot (\<lambda>h. h\<lparr> ch_scheduler := s2 \<rparr>) c1 \<Longrightarrow>
   c2 = on_hot (\<lambda>h. h\<lparr> ch_scheduler := s2 \<rparr>) c"
  by (simp add: on_hot_def)

text \<open>A run that succeeds has appended one item per chunk and changed nothing but the scheduler.\<close>

lemma enqueue_fragments_ok:
  assumes "\<And>i ch. is_reliable (si_class (mk i ch)) \<and> tier_index (si_priority (mk i ch)) = t"
    and "enqueue_fragments mk now idx cs c = (c', Ok ())"
  shows "c' = on_hot (\<lambda>h. h\<lparr> ch_scheduler := ch_scheduler (gc_hot c') \<rparr>) c \<and>
    gs_queues (ch_scheduler (gc_hot c')) = (gs_queues (ch_scheduler (gc_hot c)))
      (t := gs_queues (ch_scheduler (gc_hot c)) t @ map2 mk [idx ..< idx + length cs] cs)"
  using assms(2)
proof (induction cs arbitrary: idx c)
  case Nil
  then show ?case by (simp add: on_hot_def)
next
  case (Cons ch cs)
  obtain c1 where c1: "enqueue_item (mk idx ch) now c = (c1, Ok ())" "enqueue_fragments mk now (Suc idx) cs c1 = (c', Ok ())"
    using Cons.prems by (auto split: prod.splits outcome.splits)
  have ids: "[idx ..< idx + length (ch # cs)] = idx # [Suc idx ..< Suc idx + length cs]" by (simp add: upt_conv_Cons del: upt_Suc)
  have "c' = on_hot (\<lambda>h. h\<lparr> ch_scheduler := ch_scheduler (gc_hot c') \<rparr>) c"
    using scheduler_frame_trans [OF enqueue_item_frame [OF c1(1)]] Cons.IH [OF c1(2)] by blast
  moreover have "gs_queues (ch_scheduler (gc_hot c')) = (gs_queues (ch_scheduler (gc_hot c)))
      (t := gs_queues (ch_scheduler (gc_hot c)) t @ map2 mk [idx ..< idx + length (ch # cs)] (ch # cs))"
    unfolding ids using Cons.IH [OF c1(2)] enqueue_item_reliable [OF _ c1(1)] assms(1) [of idx ch]
    by (auto simp: fun_eq_iff simp del: upt_Suc)
  ultimately show ?case ..
qed

lemma enqueue_fragments_no_panic: "snd (enqueue_fragments mk now idx cs c) \<noteq> Panic"
proof (induction cs arbitrary: idx c)
  case (Cons ch cs)
  then show ?case using enqueue_item_no_panic [of "mk idx ch" now c] by (auto split: prod.split outcome.split)
qed simp

lemma chunk_bound: "0 < n \<Longrightarrow> ch \<in> set (chunks n xs) \<Longrightarrow> 0 < length ch \<and> length ch \<le> n"
proof (induction n xs rule: chunks.induct)
  case (1 n xs)
  then show ?case using chunks.simps [of n xs] by (auto split: if_splits)
qed

lemma fragment_count_ok:
  assumes "message_fragment_count (length payload) budget = Ok frags" and "0 < budget"
  shows "unat frags = length (chunks budget payload) \<and> 0 < length (chunks budget payload)"
proof -
  have "max budget 1 = budget" using assms(2) by simp
  then show ?thesis
    using assms unfolding message_fragment_count_def Let_def by (auto simp: length_chunks unat_of_nat split: if_splits)
qed

lemma fragment_item_simps [simp]:
  "si_payload (fragment_item cls pri dl now mid frags i ch) = ch" "si_fragment_id (fragment_item cls pri dl now mid frags i ch) = of_nat i"
  "si_message_id (fragment_item cls pri dl now mid frags i ch) = mid" "si_class (fragment_item cls pri dl now mid frags i ch) = cls"
  "si_total_fragments (fragment_item cls pri dl now mid frags i ch) = frags" "si_priority (fragment_item cls pri dl now mid frags i ch) = pri"
  by (simp_all add: fragment_item_def)

lemma fragment_items_fields:
  "map si_payload (map2 (fragment_item cls pri dl now mid frags) [0 ..< length cs] cs) = cs"
  "map si_fragment_id (map2 (fragment_item cls pri dl now mid frags) [0 ..< length cs] cs) = map of_nat [0 ..< length cs]"
  by (auto intro!: nth_equalityI)

lemma send_reliable_ordered_ok:
  assumes "send_reliable_ordered gid payload priority deadline now c = (c', Ok mid)"
  obtains frags c2 where "0 < max_message_payload c" "message_fragment_count (length payload) (max_message_payload c) = Ok frags"
    "mid = ch_next_message_id (gc_hot c)"
    "c2 = on_hot (\<lambda>h. h\<lparr> ch_next_order_seqs := (ch_next_order_seqs h)(gid \<mapsto> (case ch_next_order_seqs h gid of Some q \<Rightarrow> q | None \<Rightarrow> 0) + 1),
        ch_next_message_id := ch_next_message_id h + 1 \<rparr>) c"
    "enqueue_fragments (fragment_item (ReliableOrdered gid (case ch_next_order_seqs (gc_hot c) gid of Some q \<Rightarrow> q | None \<Rightarrow> 0)) priority deadline now mid frags)
       now 0 (chunks (max_message_payload c) payload) c2 = (c', Ok ())"
proof -
  let ?q = "case ch_next_order_seqs (gc_hot c) gid of Some q \<Rightarrow> q | None \<Rightarrow> 0"
  let ?c2 = "on_hot (\<lambda>h. h\<lparr> ch_next_order_seqs := (ch_next_order_seqs h)(gid \<mapsto> (case ch_next_order_seqs h gid of Some q \<Rightarrow> q | None \<Rightarrow> 0) + 1),
        ch_next_message_id := ch_next_message_id h + 1 \<rparr>) c"
  obtain frags where f: "message_fragment_count (length payload) (max_message_payload c) = Ok frags"
    using assms by (auto simp: send_reliable_ordered_def Let_def split: outcome.splits)
  then have chunks: "enqueue_chunks (fragment_item (ReliableOrdered gid ?q) priority deadline now (ch_next_message_id (gc_hot c)) frags) now
      (max_message_payload c) payload (ch_next_message_id (gc_hot c)) ?c2 = (c', Ok mid)"
    using assms by (simp add: send_reliable_ordered_def take_message_id_def Let_def on_hot_def)
  then have b: "0 < max_message_payload c" by (auto simp: enqueue_chunks_def split: if_splits)
  obtain r where r: "enqueue_fragments (fragment_item (ReliableOrdered gid ?q) priority deadline now (ch_next_message_id (gc_hot c)) frags)
       now 0 (chunks (max_message_payload c) payload) ?c2 = (c', r)" "omap (\<lambda>_. ch_next_message_id (gc_hot c)) r = Ok mid"
    using chunks b by (auto simp: enqueue_chunks_def split: prod.splits)
  then have "r = Ok ()" "mid = ch_next_message_id (gc_hot c)" by (cases r; simp)+
  then show thesis using that [OF b f _ refl] r(1) by simp
qed

section \<open>Properties\<close>

text \<open>
  The bounded event queue keeps the newest events. A sequence of pushes leaves exactly the
  newest \<open>capacity\<close> events in order, counts every event it drops, and touches nothing else of the
  connection state.
\<close>

theorem event_queue_keeps_newest:
  assumes "length (gc_event_queue c) \<le> cfg_event_queue_capacity (gc_config c)"
    and "co_total_dropped_events (gc_cold c) + length evs \<le> u64_max"
  shows "gc_event_queue (events_of evs c) =
      drop (length (gc_event_queue c) + length evs - cfg_event_queue_capacity (gc_config c)) (gc_event_queue c @ evs) \<and>
    co_total_dropped_events (gc_cold (events_of evs c)) =
      co_total_dropped_events (gc_cold c) + (length (gc_event_queue c) + length evs - cfg_event_queue_capacity (gc_config c)) \<and>
    gc_hot (events_of evs c) = gc_hot c"
  using events_of_queue [OF assms(1) refl assms(2)] by simp

definition sample_conn :: "nat gtp_connection" where
  "sample_conn = \<lparr> gc_hot = sample_hot, gc_cold = ConnectionCold_default, gc_config = competitive_fps\<lparr> cfg_event_queue_capacity := 2 \<rparr>,
     gc_event_queue = [], gc_last_backpressure = Low \<rparr>"

theorem event_queue_keeps_newest_witness:
  "gc_event_queue (events_of [MtuUpdated 1, MtuUpdated 2, MtuUpdated 3] sample_conn) = [MtuUpdated 2, MtuUpdated 3]"
  using event_queue_keeps_newest [of sample_conn "[MtuUpdated 1, MtuUpdated 2, MtuUpdated 3]"]
  by (simp add: sample_conn_def ConnectionCold_default_def u64_max_def)

text \<open>
  A reliable ordered send queues the whole message, once. When the send succeeds, the queue of
  the chosen tier has grown by exactly the fragments of the message, in order: their payloads join
  to the payload that was given, each fits one datagram, they are numbered from 0, and all of them
  carry the message id, the fragment count and the one order sequence number that was taken for the
  message. The group's sequence number and the message id each advance by one, and no other tier and
  nothing else of the connection changes.
\<close>

theorem send_reliable_ordered_queues_message:
  assumes "send_reliable_ordered gid payload priority deadline now c = (c', Ok mid)"
  shows "\<exists>items. gs_queues (ch_scheduler (gc_hot c')) = (gs_queues (ch_scheduler (gc_hot c)))
        (tier_index priority := gs_queues (ch_scheduler (gc_hot c)) (tier_index priority) @ items) \<and>
      concat (map si_payload items) = payload \<and> 0 < length items \<and> length items \<le> 65535 \<and>
      map si_fragment_id items = map of_nat [0 ..< length items] \<and>
      (\<forall>item. item \<in> set items \<longrightarrow> length (si_payload item) \<le> max_message_payload c \<and> si_message_id item = mid \<and>
         si_class item = ReliableOrdered gid (case ch_next_order_seqs (gc_hot c) gid of Some q \<Rightarrow> q | None \<Rightarrow> 0) \<and>
         unat (si_total_fragments item) = length items) \<and>
      mid = ch_next_message_id (gc_hot c) \<and>
      gc_hot c' = (gc_hot c)\<lparr> ch_scheduler := ch_scheduler (gc_hot c'), ch_next_message_id := mid + 1,
        ch_next_order_seqs := (ch_next_order_seqs (gc_hot c))(gid \<mapsto> (case ch_next_order_seqs (gc_hot c) gid of Some q \<Rightarrow> q | None \<Rightarrow> 0) + 1) \<rparr>"
  using assms
proof (cases rule: send_reliable_ordered_ok)
  case (1 frags c2)
  let ?mk = "fragment_item (ReliableOrdered gid (case ch_next_order_seqs (gc_hot c) gid of Some q \<Rightarrow> q | None \<Rightarrow> 0)) priority deadline now mid frags"
  let ?cs = "chunks (max_message_payload c) payload"
  have q: "c' = on_hot (\<lambda>h. h\<lparr> ch_scheduler := ch_scheduler (gc_hot c') \<rparr>) c2"
    "gs_queues (ch_scheduler (gc_hot c')) = (gs_queues (ch_scheduler (gc_hot c2)))
      (tier_index priority := gs_queues (ch_scheduler (gc_hot c2)) (tier_index priority) @ map2 ?mk [0 ..< 0 + length ?cs] ?cs)"
    using enqueue_fragments_ok [OF _ 1(5), of "tier_index priority"] by simp_all
  note n = fragment_count_ok [OF 1(2,1)]
  have hot: "gc_hot c' = (gc_hot c2)\<lparr> ch_scheduler := ch_scheduler (gc_hot c') \<rparr>" by (subst q(1)) simp
  have c2: "gs_queues (ch_scheduler (gc_hot c2)) = gs_queues (ch_scheduler (gc_hot c))" using 1(4) by simp
  have frame: "gc_hot c' = (gc_hot c)\<lparr> ch_scheduler := ch_scheduler (gc_hot c'), ch_next_message_id := mid + 1,
        ch_next_order_seqs := (ch_next_order_seqs (gc_hot c))(gid \<mapsto> (case ch_next_order_seqs (gc_hot c) gid of Some q \<Rightarrow> q | None \<Rightarrow> 0) + 1) \<rparr>"
    by (subst hot) (simp add: 1(3,4))
  have "length ?cs \<le> 65535" using n unat_lt_exp [of frags] by simp
  then show ?thesis
    using q(2) [unfolded c2] 1(1,3) n frame chunk_bound [OF 1(1), of _ payload]
    by (intro exI [of _ "map2 ?mk [0 ..< length ?cs] ?cs"])
       (auto simp: concat_chunks fragment_items_fields dest!: set_zip_rightD simp del: map_map)
qed

lemma sample_conn_payload [simp]: "max_message_payload sample_conn = 1133"
  by (simp add: max_message_payload_def sample_conn_def competitive_fps_def sample_hot_def hot_build_def build_with_config_def
      sat_sub_def MIN_COMMON_HEADER_LEN_def AEAD_TAG_LEN_def MAX_MESSAGE_FRAME_OVERHEAD_def)

lemma sample_send:
  "\<exists>c'. send_reliable_ordered 3 [1, 2, 3] P3ReliableGameplay None 0 sample_conn = (c', Ok 1)"
proof -
  have one: "chunks 1133 [1, 2, 3 :: u8] = [[1, 2, 3]]" by (subst chunks.simps, subst chunks.simps) simp
  have count: "message_fragment_count (Suc (Suc (Suc 0))) 1133 = Ok 1" by (simp add: message_fragment_count_def)
  have "admission_error (fragment_item (ReliableOrdered 3 0) P3ReliableGameplay None 0 1 1 0 [1, 2, 3]) 0 (ch_scheduler (gc_hot sample_conn)) = None"
    by (simp add: admission_error_def is_expired_def fragment_item_def sample_conn_def sample_hot_def hot_build_def build_with_config_def
        with_per_tier_byte_caps_def with_per_tier_caps_and_item_limit_def GtpConfig_default_def competitive_fps_def size_bytes_def
        DEFAULT_MAX_QUEUE_ITEMS_PER_TIER_def)
  moreover have "ch_next_message_id (gc_hot sample_conn) = 1" "ch_next_order_seqs (gc_hot sample_conn) = Map.empty"
    by (simp_all add: sample_conn_def sample_hot_def hot_build_def build_with_config_def)
  ultimately show ?thesis
    by (simp add: send_reliable_ordered_def count one enqueue_chunks_def take_message_id_def Let_def enqueue_item_def enqueue_reliable)
qed

theorem send_reliable_ordered_queues_message_witness:
  "\<exists>items. gs_queues (ch_scheduler (gc_hot (fst (send_reliable_ordered 3 [1, 2, 3] P3ReliableGameplay None 0 sample_conn)))) 3 =
      gs_queues (ch_scheduler (gc_hot sample_conn)) 3 @ items \<and> concat (map si_payload items) = [1, 2, 3]"
proof -
  obtain c' where c': "send_reliable_ordered 3 [1, 2, 3] P3ReliableGameplay None 0 sample_conn = (c', Ok 1)" using sample_send by blast
  from send_reliable_ordered_queues_message [OF this] show ?thesis by (auto simp: c')
qed

text \<open>
  Sends fail cleanly. A payload that does not fit one datagram is refused by the unreliable sends
  with the limit in the error and no change to the connection, not even a message id; whenever an
  unreliable send fails, nothing was queued; and as long as the configured minimum datagram leaves
  room for a payload byte, no send panics.
\<close>

theorem send_errors:
  "(max_message_payload c < length payload \<longrightarrow>
      send_unreliable payload priority deadline now c = (c, Err (PayloadTooLarge (max_message_payload c))) \<and>
      send_sequenced key sq gen deadline payload now c = (c, Err (PayloadTooLarge (max_message_payload c)))) \<and>
   (send_unreliable payload priority deadline now c = (c1, Err e) \<longrightarrow> ch_scheduler (gc_hot c1) = ch_scheduler (gc_hot c)) \<and>
   (send_sequenced key sq gen deadline payload now c = (c2, Err e) \<longrightarrow> ch_scheduler (gc_hot c2) = ch_scheduler (gc_hot c)) \<and>
   (0 < max_message_payload c \<longrightarrow>
      snd (send_unreliable payload priority deadline now c) \<noteq> Panic \<and> snd (send_sequenced key sq gen deadline payload now c) \<noteq> Panic \<and>
      snd (send_reliable_unordered payload priority deadline now c) \<noteq> Panic \<and>
      snd (send_reliable_ordered gid payload priority deadline now c) \<noteq> Panic)"
proof -
  have single_Err: "ch_scheduler (gc_hot c') = ch_scheduler (gc_hot c)" if "send_single mk payload now c = (c', Err e)" for mk c'
  proof (cases "length payload > max_message_payload c")
    case False
    obtain s r where s: "enqueue (mk (ch_next_message_id (gc_hot c))) now (ch_scheduler (gc_hot c)) = (s, r)" by fastforce
    then have "ch_scheduler (gc_hot c') = s" "r = Err e"
      using that False by (auto simp: send_single_def take_message_id_def enqueue_item_def omap_def elim: obind.elims)
    then show ?thesis using enqueue_Err s by blast
  qed (use that in \<open>auto simp: send_single_def\<close>)
  have omap_panic: "omap f r \<noteq> Panic \<longleftrightarrow> r \<noteq> Panic" for f :: "unit \<Rightarrow> message_id" and r :: "unit result" by (cases r) simp_all
  have single_panic: "snd (send_single mk payload now c) \<noteq> Panic" for mk
    using enqueue_item_no_panic [of "mk (ch_next_message_id (gc_hot c))" now "fst (take_message_id c)"]
    by (auto simp: send_single_def take_message_id_def omap_panic split: prod.split)
  have chunks_panic: "snd (enqueue_chunks mk now budget payload mid c') \<noteq> Panic" if "0 < budget" for mk budget mid and c' :: "'a gtp_connection"
    using that enqueue_fragments_no_panic [of mk now 0 "chunks budget payload" c'] by (auto simp: enqueue_chunks_def omap_panic split: prod.split)
  have budget: "max_message_payload (fst (take_message_id c')) = max_message_payload c'" for c' :: "'a gtp_connection"
    by (simp add: max_message_payload_def take_message_id_def)
  have count: "message_fragment_count n m \<noteq> Panic" for n m by (simp add: message_fragment_count_def Let_def)
  have unordered: "snd (send_reliable_unordered payload priority deadline now c) \<noteq> Panic" if "0 < max_message_payload c"
    using that chunks_panic budget [of c] count
    by (auto simp: send_reliable_unordered_def Let_def split: prod.split outcome.split)
  have ordered: "snd (send_reliable_ordered gid payload priority deadline now c) \<noteq> Panic" if "0 < max_message_payload c"
    using that chunks_panic count by (auto simp: send_reliable_ordered_def Let_def split: prod.split outcome.split)
  show ?thesis
    using single_Err single_panic unordered ordered unfolding send_unreliable_def send_sequenced_def
    by (auto simp: send_single_def)
qed

theorem send_errors_witness:
  "send_unreliable (replicate 1200 0) P1Input None 0 sample_conn = (sample_conn, Err (PayloadTooLarge 1133))"
  using send_errors [of sample_conn "replicate 1200 0" P1Input None 0] by simp

end
