(* ===== verification/Conn_Rx.thy ===== *)
theory Conn_Rx
  imports Conn_Control Wire_Codec
begin

text \<open>
  The receive pipeline of a connection (\<^verbatim>\<open>handle_incoming_datagram_with_ecn\<close> of
  \<^verbatim>\<open>gtp-core/src/connection.rs\<close>): header, connection id, replay check, opening with the current or
  the previous key, the state changes that follow authentication, the dispatch of every frame, the
  acknowledgement, the backpressure event and the close. The model threads the datagram buffer
  through the attempts to open it, as the code does; the iterator over the frames is drained first,
  which is the same because it only reads the decrypted buffer.
\<close>

section \<open>Retransmission\<close>

definition retransmission_item :: "retransmission_record \<Rightarrow> monotonic_time \<Rightarrow> schedulable_item" where
  "retransmission_item rr now = \<lparr> si_message_id = rr_message_id rr,
     si_class = (if rr_group_id rr = 0 then ReliableUnordered else ReliableOrdered (rr_group_id rr) (rr_order_seq rr)),
     si_priority = P3ReliableGameplay, si_created_at = now, si_deadline = None, si_supersedable = False,
     si_payload = rr_payload rr, si_fragment_id = rr_fragment_id rr, si_total_fragments = rr_total_fragments rr \<rparr>"

definition count_retransmission :: "connection_cold \<Rightarrow> connection_cold" where
  "count_retransmission k = k\<lparr> co_total_retransmissions := wadd64 (co_total_retransmissions k) 1 \<rparr>"

definition count_dropped_frame :: "connection_cold \<Rightarrow> connection_cold" where
  "count_dropped_frame k = k\<lparr> co_total_dropped_frames := wadd64 (co_total_dropped_frames k) 1 \<rparr>"

definition is_Err :: "('e, 'a) outcome \<Rightarrow> bool" where
  "is_Err r \<longleftrightarrow> (case r of Err _ \<Rightarrow> True | _ \<Rightarrow> False)"

lemma is_Err_simps [simp]: "is_Err (Ok a) = False" "is_Err (Err e) = True" "is_Err Panic = False"
  by (simp_all add: is_Err_def)

definition retransmit :: "monotonic_time \<Rightarrow> retransmission_record \<Rightarrow> 'addr gtp_connection \<Rightarrow> 'addr gtp_connection" where
  "retransmit now rr c =
     (let c1 = push_unbounded (RetransmissionTriggered (rr_message_id rr) (rr_fragment_id rr)) (on_cold count_retransmission c);
          (c2, r) = enqueue_item (retransmission_item rr now) now c1
      in if is_Err r then on_cold count_dropped_frame c2 else c2)"

section \<open>Opening\<close>

definition rx_attempt :: "conn_env \<Rightarrow> packet_header \<Rightarrow> bytes \<Rightarrow> nat \<Rightarrow> protector \<Rightarrow> bytes \<Rightarrow> bytes \<times> nat result" where
  "rx_attempt env hdr aad clen p buf =
     Protector_open (env_cipher env) p (ph_packet_number hdr) (ph_connection_id hdr) aad buf clen"

definition rx_open :: "conn_env \<Rightarrow> 'addr connection_hot \<Rightarrow> packet_header \<Rightarrow> bytes \<Rightarrow> bytes \<Rightarrow> bytes \<times> nat result" where
  "rx_open env h hdr aad buf =
     (let clen = length buf;
          prefer_prev = (key_phase (ph_flags hdr) \<noteq> ch_key_phase h);
          s0 = (buf, Err CryptoFailure);
          s1 = (if prefer_prev then (case ch_rx_protector_prev h of Some p \<Rightarrow> rx_attempt env hdr aad clen p (fst s0) | None \<Rightarrow> s0) else s0);
          s2 = (if is_Err (snd s1) then rx_attempt env hdr aad clen (ch_rx_protector h) (fst s1) else s1)
      in if is_Err (snd s2) \<and> \<not> prefer_prev
         then (case ch_rx_protector_prev h of Some p \<Rightarrow> rx_attempt env hdr aad clen p (fst s2) | None \<Rightarrow> s2) else s2)"

section \<open>After authentication\<close>

definition credit_path :: "'addr \<Rightarrow> nat \<Rightarrow> 'addr connection_hot \<Rightarrow> 'addr connection_hot" where
  "credit_path src len h =
     (if src = ch_active_path h
      then h\<lparr> ch_anti_amplification := mark_validated (on_bytes_received len (ch_anti_amplification h)) \<rparr>
      else case ch_anti_amplification_probe h of
             Some (probe_addr, probe) \<Rightarrow>
               if probe_addr = src \<and> pending_addr (ch_path_validator h) = Some src
               then h\<lparr> ch_anti_amplification_probe := Some (probe_addr, on_bytes_received len probe) \<rparr> else h
           | None \<Rightarrow> h)"

definition rx_authenticated :: "'addr \<Rightarrow> nat \<Rightarrow> packet_header \<Rightarrow> monotonic_time \<Rightarrow> 'addr gtp_connection \<Rightarrow> 'addr gtp_connection" where
  "rx_authenticated src len hdr now c =
     (let c1 = on_hot (\<lambda>h. h\<lparr> ch_replay_window := ReplayWindow_commit (ch_replay_window h) (ph_packet_number hdr) \<rparr>) c;
          c2 = on_hot (\<lambda>h. (tick_rx_key_grace (credit_path src len h))\<lparr> ch_last_rx_time := Some now \<rparr>) c1;
          (owd', sample) = OwdEstimator_on_packet (ph_timestamp_micros hdr) now (ch_owd (gc_hot c2));
          c3 = on_hot (\<lambda>h. h\<lparr> ch_owd := owd' \<rparr>) c2
      in if cfg_owd_sample_interval (gc_config c3) \<le> time_sub now (ch_last_owd_emit (gc_hot c3))
         then push_event (OwdSampleEvent (os_owd_var_us sample) (os_jitter_us sample) (os_epoch sample))
                (on_hot (\<lambda>h. h\<lparr> ch_last_owd_emit := now \<rparr>) c3)
         else c3)"

section \<open>Frames\<close>

record 'addr rx_state =
  rx_conn :: "'addr gtp_connection"
  rx_delivered :: "received_message list"
  rx_ack_eliciting :: bool
  rx_close :: "u16 option"
  rx_path_responses :: nat

definition on_conn :: "('addr gtp_connection \<Rightarrow> 'addr gtp_connection) \<Rightarrow> 'addr rx_state \<Rightarrow> 'addr rx_state" where
  "on_conn f s = s\<lparr> rx_conn := f (rx_conn s) \<rparr>"

definition deliver_message :: "message_class \<Rightarrow> bytes \<Rightarrow> 'addr rx_state \<Rightarrow> 'addr rx_state" where
  "deliver_message cls payload s = s\<lparr> rx_delivered := rx_delivered s @ [\<lparr> rm_class = cls, rm_payload = payload \<rparr>] \<rparr>"

definition rx_ack :: "conn_env \<Rightarrow> monotonic_time \<Rightarrow> packet_number \<Rightarrow> u32 \<Rightarrow> ack_range list \<Rightarrow> u8 \<Rightarrow> 'addr gtp_connection \<Rightarrow> 'addr gtp_connection" where
  "rx_ack env now largest delay rs rcount c =
     (let (ld, ack_ev, loss_ev, _) = LossDetector_on_ack_received (unat largest) delay rs (unat rcount) now (ch_loss_detector (gc_hot c));
          c1 = on_hot (\<lambda>h. h\<lparr> ch_loss_detector := ld \<rparr>) c;
          c2 = on_hot (\<lambda>h. h\<lparr> ch_cc := Cubic_on_loss (env_cbrt env) loss_ev now
                 (Cubic_on_ack ack_ev now (Cubic_on_rtt (smoothed_rtt (ld_rtt_stats (ch_loss_detector h))) (ch_cc h))) \<rparr>) c1;
          c3 = (if le_lost_packets loss_ev \<noteq> []
                then push_event (PacketLossDetected (length (le_lost_packets loss_ev)) (le_bytes_lost loss_ev)) c2 else c2)
      in fold (retransmit now) (le_retransmittable loss_ev) c3)"

definition count_stale_drop :: "connection_cold \<Rightarrow> connection_cold" where
  "count_stale_drop k = k\<lparr> co_total_stale_drops := wadd64 (co_total_stale_drops k) 1 \<rparr>"

definition count_fragment_drop :: "connection_cold \<Rightarrow> connection_cold" where
  "count_fragment_drop k = k\<lparr> co_total_fragment_drops := wadd64 (co_total_fragment_drops k) 1 \<rparr>"

definition count_duplicate_drop :: "connection_cold \<Rightarrow> connection_cold" where
  "count_duplicate_drop k = k\<lparr> co_total_duplicate_drops := wadd64 (co_total_duplicate_drops k) 1 \<rparr>"

definition count_corrupted :: "connection_cold \<Rightarrow> connection_cold" where
  "count_corrupted k = k\<lparr> co_total_corrupted_packets := wadd64 (co_total_corrupted_packets k) 1 \<rparr>"

definition rx_data :: "message_id \<Rightarrow> state_key \<Rightarrow> state_sequence \<Rightarrow> generation_id \<Rightarrow> bytes \<Rightarrow> 'addr rx_state \<Rightarrow> 'addr rx_state" where
  "rx_data mid key sq gen payload s =
     (let plain = (key = StateKey_new 0 0 \<and> sq = 0 \<and> gen = 0);
          table = ch_rx_state_table (gc_hot (rx_conn s))
      in if \<not> plain \<and> \<not> should_admit key gen sq table then on_conn (on_cold count_stale_drop) s
         else let s1 = (if \<not> plain
                then on_conn (on_hot (\<lambda>h. h\<lparr> ch_rx_state_table := fst (StateTable_update key gen sq mid (ch_rx_state_table h)) \<rparr>)) s else s)
              in deliver_message (UnreliableSequenced key sq gen) payload s1)"

text \<open>Duplicate suppression of unordered reliable messages.\<close>

definition rx_deliver_unordered :: "message_id \<Rightarrow> bytes \<Rightarrow> 'addr rx_state \<Rightarrow> 'addr rx_state" where
  "rx_deliver_unordered mid payload s =
     (let (di, fresh) = insert_if_new mid (ch_delivered_index (gc_hot (rx_conn s)));
          s1 = on_conn (on_hot (\<lambda>h. h\<lparr> ch_delivered_index := di \<rparr>)) s
      in if fresh then deliver_message ReliableUnordered payload s1 else on_conn (on_cold count_duplicate_drop) s1)"

definition rx_deliver_ordered :: "ordered_group_id \<Rightarrow> u32 \<Rightarrow> bytes \<Rightarrow> 'addr rx_state \<Rightarrow> 'addr rx_state result" where
  "rx_deliver_ordered gid sq payload s =
     (let (h, rg) = ordered_group_mut gid (gc_hot (rx_conn s))
      in obind rg (\<lambda>g.
           let (g', ready) = on_incoming sq payload g;
               s1 = on_conn (on_hot (\<lambda>_. put_group gid g' h)) s
           in case ready of
                Ok items \<Rightarrow> Ok (fold (\<lambda>(q, item). deliver_message (ReliableOrdered gid q) item) items s1)
              | Err _ \<Rightarrow> Ok (on_conn (on_cold count_dropped_frame) s1)
              | Panic \<Rightarrow> Panic))"

definition rx_reliable_payload :: "message_id \<Rightarrow> ordered_group_id \<Rightarrow> u32 \<Rightarrow> bytes \<Rightarrow> 'addr rx_state \<Rightarrow> 'addr rx_state result" where
  "rx_reliable_payload mid gid sq payload s =
     (if gid = 0 then Ok (rx_deliver_unordered mid payload s) else rx_deliver_ordered gid sq payload s)"

definition rx_reliable :: "monotonic_time \<Rightarrow> message_id \<Rightarrow> fragment_id \<Rightarrow> u16 \<Rightarrow> ordered_group_id \<Rightarrow> u32 \<Rightarrow> bytes \<Rightarrow> 'addr rx_state \<Rightarrow>
    'addr rx_state result" where
  "rx_reliable now mid fid frags gid sq payload s =
     (if frags > 1 then
        (let (ra, out) = push mid fid frags payload now (ch_reassembler (gc_hot (rx_conn s)));
             s1 = on_conn (on_hot (\<lambda>h. h\<lparr> ch_reassembler := ra \<rparr>)) s
         in case out of
              Ok (Delivered full) \<Rightarrow> rx_reliable_payload mid gid sq full s1
            | Ok PartialPush \<Rightarrow> Ok s1
            | Ok Dropped \<Rightarrow> Ok (on_conn (on_cold count_fragment_drop) s1)
            | Err e \<Rightarrow> Err e
            | Panic \<Rightarrow> Panic)
      else rx_reliable_payload mid gid sq payload s)"

definition rx_path_challenge :: "'addr \<Rightarrow> bytes \<Rightarrow> 'addr rx_state \<Rightarrow> 'addr rx_state" where
  "rx_path_challenge src data s =
     (let h = gc_hot (rx_conn s);
          answerable = (src = ch_active_path h);
          queued = length (filter is_out_path_response (ch_control_queue h))
      in if answerable \<and> rx_path_responses s < MAX_PATH_RESPONSES_PER_DATAGRAM \<and> queued < MAX_PENDING_PATH_RESPONSES
         then (on_conn (queue_control (OutPathResponse data src)) s)\<lparr> rx_path_responses := rx_path_responses s + 1 \<rparr>
         else s)"

text \<open>A validated response from another address moves the connection there.\<close>

definition migrate :: "'addr \<Rightarrow> 'addr gtp_connection \<Rightarrow> 'addr gtp_connection" where
  "migrate src c =
     (let h = gc_hot c;
          promoted = (case ch_anti_amplification_probe h of
              Some (probe_addr, probe) \<Rightarrow> if probe_addr = src then probe else with_factor (cfg_anti_amplification_factor (gc_config c))
            | None \<Rightarrow> with_factor (cfg_anti_amplification_factor (gc_config c)))
      in push_event (PathMigrated (ch_active_path h) src)
           (on_hot (\<lambda>h. h\<lparr> ch_active_path := src, ch_anti_amplification_probe := None,
              ch_anti_amplification := mark_validated promoted,
              ch_loss_detector := on_path_migration (unat (ch_next_packet_number h)) (ch_loss_detector h),
              ch_owd := OwdEstimator_reset_for_new_path (ch_owd h) \<rparr>) c))"

definition rx_path_response :: "'addr \<Rightarrow> bytes \<Rightarrow> monotonic_time \<Rightarrow> 'addr gtp_connection \<Rightarrow> 'addr gtp_connection" where
  "rx_path_response src data now c =
     (let (v, valid) = validate_response src data now (ch_path_validator (gc_hot c));
          c1 = on_hot (\<lambda>h. h\<lparr> ch_path_validator := v \<rparr>) c
      in if valid \<and> src \<noteq> ch_active_path (gc_hot c1) then migrate src c1 else c1)"

fun rx_dispatch :: "conn_env \<Rightarrow> 'addr \<Rightarrow> monotonic_time \<Rightarrow> frame \<Rightarrow> 'addr rx_state \<Rightarrow> 'addr rx_state result" where
  "rx_dispatch env src now (Ack largest delay rs rcount _ _ _) s = Ok (on_conn (rx_ack env now largest delay rs rcount) s)"
| "rx_dispatch env src now (Data mid key sq gen _ payload) s = Ok (rx_data mid key sq gen payload s)"
| "rx_dispatch env src now (ReliableData mid fid frags gid sq payload) s = rx_reliable now mid fid frags gid sq payload s"
| "rx_dispatch env src now (Retx mid _ _ payload) s = Ok (rx_deliver_unordered mid payload s)"
| "rx_dispatch env src now (Ping _) s = Ok s"
| "rx_dispatch env src now (PathChallenge data) s = Ok (rx_path_challenge src data s)"
| "rx_dispatch env src now (PathResponse data) s = Ok (on_conn (rx_path_response src data now) s)"
| "rx_dispatch env src now (KeyUpdate phase _) s = Ok (on_conn (on_hot (on_key_update env phase)) s)"
| "rx_dispatch env src now (AckFrequency freq delay_ms reorder) s = Ok (on_conn (apply_ack_policy freq delay_ms reorder) s)"
| "rx_dispatch env src now (Close code _) s = Ok (s\<lparr> rx_close := Some code \<rparr>)"
| "rx_dispatch env src now _ s = Ok s"

definition rx_frame :: "conn_env \<Rightarrow> 'addr \<Rightarrow> monotonic_time \<Rightarrow> frame \<Rightarrow> 'addr rx_state \<Rightarrow> 'addr rx_state result" where
  "rx_frame env src now f s =
     rx_dispatch env src now f (if is_ack_eliciting f then s\<lparr> rx_ack_eliciting := True \<rparr> else s)"

fun rx_loop :: "conn_env \<Rightarrow> 'addr \<Rightarrow> monotonic_time \<Rightarrow> frame result list \<Rightarrow> 'addr rx_state \<Rightarrow> 'addr rx_state result" where
  "rx_loop env src now [] s = Ok s"
| "rx_loop env src now (Ok f # rest) s = obind (rx_frame env src now f s) (rx_loop env src now rest)"
| "rx_loop env src now (Err _ # rest) s = Ok (on_conn (on_cold count_corrupted) s)"
| "rx_loop env src now (Panic # rest) s = Panic"

section \<open>The pipeline\<close>

definition check_backpressure :: "monotonic_time \<Rightarrow> 'addr gtp_connection \<Rightarrow> 'addr gtp_connection" where
  "check_backpressure now c =
     (let fb = feedback now c
      in if nf_backpressure fb \<noteq> gc_last_backpressure c
         then (push_event (BackpressureChanged (gc_last_backpressure c) (nf_backpressure fb) (nf_effective_queue_bytes fb)) c)
                \<lparr> gc_last_backpressure := nf_backpressure fb \<rparr>
         else c)"

definition rx_finish :: "packet_header \<Rightarrow> u8 \<Rightarrow> monotonic_time \<Rightarrow> 'addr rx_state \<Rightarrow> 'addr gtp_connection \<times> received_message list result" where
  "rx_finish hdr ip_ecn now s =
     (let c1 = on_hot (\<lambda>h. h\<lparr> ch_ack_tracker := AckTracker_on_packet_received (unat (ph_packet_number hdr)) (rx_ack_eliciting s) ip_ecn now
                 (ch_ack_tracker h) \<rparr>) (rx_conn s);
          c2 = check_backpressure now c1
      in case rx_close s of
           Some code \<Rightarrow>
             (let old = ch_state (gc_hot c2);
                  c3 = on_hot (\<lambda>h. h\<lparr> ch_state := fst (transition_to (ch_state h) Closed) \<rparr>) c2
              in (push_event (StateChanged old Closed) c3, Err (ConnectionClosed code)))
         | None \<Rightarrow> (c2, Ok (rx_delivered s)))"

definition rx_payload :: "conn_env \<Rightarrow> 'addr \<Rightarrow> packet_header \<Rightarrow> nat \<Rightarrow> monotonic_time \<Rightarrow> u8 \<Rightarrow> bytes \<Rightarrow> 'addr gtp_connection \<Rightarrow>
    'addr gtp_connection \<times> received_message list result" where
  "rx_payload env src hdr len now ip_ecn plain c =
     (let c1 = rx_authenticated src len hdr now c
      in case rx_loop env src now (FrameIterator_collect (FrameIterator_new plain))
                \<lparr> rx_conn = c1, rx_delivered = [], rx_ack_eliciting = False, rx_close = None, rx_path_responses = 0 \<rparr> of
           Ok s \<Rightarrow> rx_finish hdr ip_ecn now s
         | Err e \<Rightarrow> (c1, Err e)
         | Panic \<Rightarrow> (c1, Panic))"

definition count_rx :: "nat \<Rightarrow> connection_cold \<Rightarrow> connection_cold" where
  "count_rx len k = k\<lparr> co_total_rx_packets := wadd64 (co_total_rx_packets k) 1, co_total_rx_bytes := wadd64 (co_total_rx_bytes k) len \<rparr>"

definition handle_incoming_datagram_with_ecn :: "conn_env \<Rightarrow> 'addr \<Rightarrow> bytes \<Rightarrow> monotonic_time \<Rightarrow> u8 \<Rightarrow> 'addr gtp_connection \<Rightarrow>
    'addr gtp_connection \<times> received_message list result" where
  "handle_incoming_datagram_with_ecn env src datagram now ip_ecn c =
     (if ch_state (gc_hot c) = Closed then (c, Ok [])
      else let c1 = on_cold (count_rx (length datagram)) c
      in case PacketHeader_decode datagram of
           Err e \<Rightarrow> (c1, Err e)
         | Panic \<Rightarrow> (c1, Panic)
         | Ok (hdr, consumed) \<Rightarrow>
             if ph_connection_id hdr \<noteq> ch_connection_id (gc_hot c1) then (c1, Err (InvalidPacket ''Mismatched Connection ID''))
             else (case ReplayWindow_check (ch_replay_window (gc_hot c1)) (ph_packet_number hdr) of
                Err e \<Rightarrow> (c1, Err e)
              | Panic \<Rightarrow> (c1, Panic)
              | Ok _ \<Rightarrow>
                  if length datagram < consumed then (c1, Panic)
                  else
                    (case rx_open env (gc_hot c1) hdr (take consumed datagram) (drop consumed datagram) of
                       (_, Err e) \<Rightarrow> (on_cold count_corrupted c1, Err e)
                     | (_, Panic) \<Rightarrow> (c1, Panic)
                     | (buf, Ok n) \<Rightarrow>
                         if length buf < n then (c1, Panic)
                         else rx_payload env src hdr (length datagram) now ip_ecn (take n buf) c1)))"

definition handle_incoming_datagram :: "conn_env \<Rightarrow> 'addr \<Rightarrow> bytes \<Rightarrow> monotonic_time \<Rightarrow> 'addr gtp_connection \<Rightarrow>
    'addr gtp_connection \<times> received_message list result" where
  "handle_incoming_datagram env src datagram now c = handle_incoming_datagram_with_ecn env src datagram now 0 c"

end
