(* ===== verification/Conn_Tx.thy ===== *)
theory Conn_Tx
  imports Conn_Rx
begin

text \<open>
  The transmit pipeline of a connection (\<^verbatim>\<open>produce_outgoing_datagram\<close> of
  \<^verbatim>\<open>gtp-core/src/connection.rs\<close> and its helpers): the probe timeout, the housekeeping, the gates, the
  assembly of a packet from the acknowledgement, the control queue and the scheduler, the sealing,
  the amplification gate, and the commit or the return of everything that was taken. The output
  buffer is threaded through as the code writes it.
\<close>

section \<open>Frames of queued work\<close>

fun build_control_frame :: "'addr outgoing_control_frame \<Rightarrow> frame" where
  "build_control_frame (OutPing nonce) = Ping nonce"
| "build_control_frame (OutPathChallenge data _) = PathChallenge data"
| "build_control_frame (OutPathResponse data _) = PathResponse data"
| "build_control_frame (OutMtuProbe probe padding) = MtuProbe probe padding"
| "build_control_frame (OutAckFrequency freq delay reorder) = AckFrequency freq delay reorder"
| "build_control_frame (OutClose code why) = Close code why"
| "build_control_frame (OutKeyUpdate phase) = KeyUpdate phase (replicate 32 0)"

definition item_frame :: "schedulable_item \<Rightarrow> frame" where
  "item_frame item = (case si_class item of
     Unreliable \<Rightarrow> Data (si_message_id item) (StateKey_new 0 0) 0 0 0 (si_payload item)
   | UnreliableSequenced key sq gen \<Rightarrow> Data (si_message_id item) key sq gen 0 (si_payload item)
   | ReliableUnordered \<Rightarrow> ReliableData (si_message_id item) (si_fragment_id item) (si_total_fragments item) 0 0 (si_payload item)
   | ReliableOrdered gid sq \<Rightarrow>
       ReliableData (si_message_id item) (si_fragment_id item) (si_total_fragments item) gid sq (si_payload item))"

definition retransmission_record_of :: "schedulable_item \<Rightarrow> u16 \<Rightarrow> u32 \<Rightarrow> retransmission_record" where
  "retransmission_record_of item gid sq = \<lparr> rr_message_id = si_message_id item, rr_fragment_id = si_fragment_id item,
     rr_transmission_id = 1, rr_group_id = gid, rr_order_seq = sq, rr_total_fragments = si_total_fragments item,
     rr_payload = si_payload item \<rparr>"

definition item_records :: "schedulable_item \<Rightarrow> retransmission_record list" where
  "item_records item = (case si_class item of
     ReliableUnordered \<Rightarrow> [retransmission_record_of item 0 0]
   | ReliableOrdered gid sq \<Rightarrow> [retransmission_record_of item gid sq]
   | _ \<Rightarrow> [])"

definition encode_scheduler_item :: "schedulable_item \<Rightarrow> packet_builder \<Rightarrow> retransmission_record list \<Rightarrow>
    packet_builder \<times> retransmission_record list \<times> unit result" where
  "encode_scheduler_item item b retr =
     (case PacketBuilder_append_frame b (item_frame item) of
        (b', Ok _) \<Rightarrow> (b', retr @ item_records item, Ok ())
      | (b', Err _) \<Rightarrow> (b', retr, Err BufferOverflow)
      | (b', Panic) \<Rightarrow> (b', retr, Panic))"

section \<open>Giving work back\<close>

definition requeue_one :: "monotonic_time \<Rightarrow> schedulable_item \<Rightarrow> game_scheduler \<times> connection_cold \<Rightarrow> game_scheduler \<times> connection_cold" where
  "requeue_one now item sk =
     (let (s, r) = requeue item now (fst sk) in (s, if is_Err r then count_dropped_frame (snd sk) else snd sk))"

definition requeue_popped :: "monotonic_time \<Rightarrow> schedulable_item list \<Rightarrow> game_scheduler \<times> connection_cold \<Rightarrow> game_scheduler \<times> connection_cold" where
  "requeue_popped now popped = fold (requeue_one now) (rev popped)"

definition requeue_controls :: "'addr outgoing_control_frame list \<Rightarrow> 'addr outgoing_control_frame list \<Rightarrow> 'addr outgoing_control_frame list" where
  "requeue_controls queue drained = fold push_front (rev drained) queue"

section \<open>Assembling a packet\<close>

text \<open>The local variables of the assembly.\<close>

record 'addr tx_packet =
  tp_builder :: packet_builder
  tp_retransmittables :: "retransmission_record list"
  tp_ack_eliciting :: bool
  tp_override_dest :: "'addr option"
  tp_ack_appended :: bool
  tp_drained_controls :: "'addr outgoing_control_frame list"
  tp_close_drained :: bool
  tp_popped :: "schedulable_item list"

definition tx_packet_new :: "packet_builder \<Rightarrow> 'addr tx_packet" where
  "tx_packet_new b = \<lparr> tp_builder = b, tp_retransmittables = [], tp_ack_eliciting = False, tp_override_dest = None,
     tp_ack_appended = False, tp_drained_controls = [], tp_close_drained = False, tp_popped = [] \<rparr>"

definition directed_away :: "'addr \<Rightarrow> 'addr outgoing_control_frame \<Rightarrow> bool" where
  "directed_away active f \<longleftrightarrow> (case control_dest f of Some dest \<Rightarrow> dest \<noteq> active | None \<Rightarrow> False)"

definition directed_ahead :: "'addr connection_hot \<Rightarrow> bool" where
  "directed_ahead h \<longleftrightarrow> list_ex (directed_away (ch_active_path h)) (ch_control_queue h)"

definition attach_ack :: "bool \<Rightarrow> monotonic_time \<Rightarrow> 'addr connection_hot \<Rightarrow> 'addr tx_packet \<Rightarrow> 'addr tx_packet result" where
  "attach_ack should_ack now h p =
     (if should_ack \<and> \<not> directed_ahead h then
        (case peek_ack_frame now (ch_ack_tracker h) of
           None \<Rightarrow> Ok p
         | Some f \<Rightarrow>
             (case PacketBuilder_append_frame (tp_builder p) f of
                (b, Ok _) \<Rightarrow> Ok (p\<lparr> tp_builder := b, tp_ack_appended := True \<rparr>)
              | (b, Err _) \<Rightarrow> Ok (p\<lparr> tp_builder := b \<rparr>)
              | (b, Panic) \<Rightarrow> Panic))
      else Ok p)"

text \<open>The \<^verbatim>\<open>while let Some(ctrl) = control_queue.pop_front()\<close> loop; what is left of the queue comes back.\<close>

fun drain_controls :: "'addr \<Rightarrow> 'addr outgoing_control_frame list \<Rightarrow> 'addr tx_packet \<Rightarrow>
    ('addr outgoing_control_frame list \<times> 'addr tx_packet) result" where
  "drain_controls active [] p = Ok ([], p)"
| "drain_controls active (ctrl # queue) p =
     (if tp_override_dest p \<noteq> None then Ok (ctrl # queue, p)
      else let p1 = (if directed_away active ctrl then p\<lparr> tp_override_dest := control_dest ctrl \<rparr> else p)
           in (case PacketBuilder_append_frame (tp_builder p1) (build_control_frame ctrl) of
                 (b, Ok _) \<Rightarrow>
                   drain_controls active queue (p1\<lparr> tp_builder := b, tp_ack_eliciting := True,
                     tp_close_drained := (tp_close_drained p1 \<or> is_out_close ctrl),
                     tp_drained_controls := tp_drained_controls p1 @ [ctrl] \<rparr>)
               | (b, Err _) \<Rightarrow> Ok (ctrl # queue, p1\<lparr> tp_builder := b \<rparr>)
               | (b, Panic) \<Rightarrow> Panic))"

text \<open>Every item \<^const>\<open>pop_next\<close> returns has left the queues, which bounds the filling loop.\<close>

definition queued_items :: "game_scheduler \<Rightarrow> nat" where
  "queued_items s = sum_list (map (\<lambda>t. length (gs_queues s t)) [0..<NUM_PRIORITY_TIERS])"

lemma queued_items_simps [simp]:
  "queued_items (s\<lparr> gs_deficits := d \<rparr>) = queued_items s" "queued_items (s\<lparr> gs_accrued := a \<rparr>) = queued_items s"
  "queued_items (s\<lparr> gs_drr_pointer := k \<rparr>) = queued_items s" "queued_items (accrue t s) = queued_items s"
  by (simp_all add: queued_items_def accrue_def)

lemma serve_loop_queues:
  "serve_loop fits now t q s = (s', r) \<Longrightarrow>
     \<exists>q'. gs_queues s' = (gs_queues s)(t := q') \<and> length q' + (if r = None then 0 else 1) \<le> length q"
proof (induction q arbitrary: s)
  case (Cons item q)
  show ?case
  proof (cases "is_expired item now")
    case True
    then have "serve_loop fits now t q (discard t item s) = (s', r)" using Cons.prems by simp
    from Cons.IH [OF this] obtain q' where
      "gs_queues s' = (gs_queues (discard t item s))(t := q')" "length q' + (if r = None then 0 else 1) \<le> length q" by blast
    then show ?thesis by (intro exI [of _ q']) (simp add: discard_def)
  next
    case False
    then show ?thesis
      using Cons.prems by (intro exI [of _ "if fits (size_bytes item) then q else item # q"]) (auto simp: discard_def split: if_splits)
  qed
qed auto

lemma serve_tier_queued:
  assumes "serve_tier fits now t s = (s', r)" and "t < NUM_PRIORITY_TIERS"
  shows "queued_items s' + (if r = None then 0 else 1) \<le> queued_items s"
proof -
  obtain q' where q: "gs_queues s' = (gs_queues s)(t := q')" "length q' + (if r = None then 0 else 1) \<le> length (gs_queues s t)"
    using assms(1) serve_loop_queues unfolding serve_tier_def by metis
  have ts: "[0..<NUM_PRIORITY_TIERS] = [0, 1, 2, 3, 4]" by (simp add: NUM_PRIORITY_TIERS_def upt_rec)
  have "t = 0 \<or> t = 1 \<or> t = 2 \<or> t = 3 \<or> t = 4" using assms(2) by (auto simp: NUM_PRIORITY_TIERS_def)
  then show ?thesis using q by (elim disjE) (simp_all add: queued_items_def ts)
qed

lemma find_tier_queues:
  "find_tier steps s = (s', r) \<Longrightarrow> gs_queues s' = gs_queues s \<and> (\<forall>t. r = Some t \<longrightarrow> t < NUM_PRIORITY_TIERS)"
  by (induction steps arbitrary: s)
     (auto simp: Let_def DRR_FIRST_TIER_def DRR_TIER_COUNT_def NUM_PRIORITY_TIERS_def split: if_splits)

lemma drr_loop_queued:
  "drr_loop n budget now s = (s', r) \<Longrightarrow> queued_items s' + (if r = None then 0 else 1) \<le> queued_items s"
proof (induction n arbitrary: s)
  case (Suc n)
  obtain s1 ot where f: "find_tier [0..<DRR_TIER_COUNT] s = (s1, ot)" by fastforce
  note ft = find_tier_queues [OF this]
  have q1: "queued_items s1 = queued_items s" using ft by (simp add: queued_items_def)
  show ?case
  proof (cases ot)
    case None
    then show ?thesis using Suc.prems f q1 by simp
  next
    case (Some t)
    obtain s3 oi where serve: "serve_tier (\<lambda>size. size \<le> budget \<and> gs_deficits (accrue t s1) t \<ge> size) now t (accrue t s1) = (s3, oi)"
      by fastforce
    have le: "queued_items s3 + (if oi = None then 0 else 1) \<le> queued_items s"
      using serve_tier_queued [OF serve] ft Some q1 by simp
    show ?thesis
    proof (cases oi)
      case None
      then have "drr_loop n budget now (s3\<lparr> gs_accrued := (gs_accrued s3)(t := False),
          gs_drr_pointer := DRR_FIRST_TIER + (t - DRR_FIRST_TIER + 1) mod DRR_TIER_COUNT \<rparr>) = (s', r)"
        using Suc.prems f Some serve by simp
      from Suc.IH [OF this] le show ?thesis by simp
    next
      case (Some i)
      then show ?thesis using Suc.prems f \<open>ot = Some t\<close> serve le by (auto simp: Let_def)
    qed
  qed
qed simp

lemma pop_next_queued:
  assumes "pop_next budget now s = (s', r)"
  shows "queued_items s' + (if r = None then 0 else 1) \<le> queued_items s"
proof (cases "budget = 0")
  case False
  obtain s1 oi where serve: "serve_tier (\<lambda>size. size \<le> budget) now 0 s = (s1, oi)" by fastforce
  then have le: "queued_items s1 + (if oi = None then 0 else 1) \<le> queued_items s"
    by (rule serve_tier_queued) (simp add: NUM_PRIORITY_TIERS_def)
  show ?thesis
  proof (cases oi)
    case None
    then have "drr_loop DRR_TIER_COUNT budget now s1 = (s', r)" using assms False serve by (simp add: pop_next_def)
    from drr_loop_queued [OF this] le show ?thesis by simp
  next
    case (Some i)
    then show ?thesis using assms False serve le by (auto simp: pop_next_def)
  qed
qed (use assms in \<open>simp add: pop_next_def\<close>)

function fill_data :: "nat \<Rightarrow> monotonic_time \<Rightarrow> game_scheduler \<Rightarrow> connection_cold \<Rightarrow> 'addr tx_packet \<Rightarrow>
    (game_scheduler \<times> connection_cold \<times> 'addr tx_packet) result" where
  "fill_data budget now s k p =
     (if 64 < PacketBuilder_remaining_capacity (tp_builder p) \<and> tp_override_dest p = None then
        (case pop_next (min budget (PacketBuilder_remaining_capacity (tp_builder p))) now s of
           (s1, None) \<Rightarrow> Ok (s1, k, p)
         | (s1, Some item) \<Rightarrow>
             (case encode_scheduler_item item (tp_builder p) (tp_retransmittables p) of
                (b, retr, Ok _) \<Rightarrow>
                  fill_data budget now s1 k (p\<lparr> tp_builder := b, tp_retransmittables := retr, tp_ack_eliciting := True,
                    tp_popped := tp_popped p @ [item] \<rparr>)
              | (b, retr, Err _) \<Rightarrow>
                  (let (s2, k2) = requeue_one now item (s1, k)
                   in Ok (s2, k2, p\<lparr> tp_builder := b, tp_retransmittables := retr \<rparr>))
              | (b, retr, Panic) \<Rightarrow> Panic))
      else Ok (s, k, p))"
  by pat_completeness auto
termination
  by (relation "measure (\<lambda>(budget, now, s, k, p). queued_items s)") (auto dest: pop_next_queued [OF sym])

declare fill_data.simps [simp del]

section \<open>The steps of the pipeline\<close>

text \<open>The probe timeout: a bounded burst of unacknowledged data goes back to the scheduler.\<close>

definition set_probe_time :: "monotonic_time \<Rightarrow> 'addr connection_hot \<Rightarrow> 'addr connection_hot" where
  "set_probe_time now h = h\<lparr> ch_loss_detector := (ch_loss_detector h)\<lparr> ld_time_of_last_ack_eliciting_packet := now \<rparr> \<rparr>"

definition pto_expired :: "monotonic_time \<Rightarrow> 'addr gtp_connection \<Rightarrow> bool" where
  "pto_expired now c \<longleftrightarrow> (let ld = ch_loss_detector (gc_hot c) in 0 < ld_inflight_bytes ld \<and>
     pto_duration_with_backoff (cfg_pto_max_duration (gc_config c)) ld \<le> duration_since now (ld_time_of_last_ack_eliciting_packet ld))"

definition tx_pto :: "monotonic_time \<Rightarrow> 'addr gtp_connection \<Rightarrow> 'addr gtp_connection" where
  "tx_pto now c =
     (if pto_expired now c then
        let (ld, loss_ev) = LossDetector_on_timeout (ch_loss_detector (gc_hot c));
            c1 = on_hot (\<lambda>h. h\<lparr> ch_loss_detector := ld \<rparr>) c;
            c2 = (if PERSISTENT_CONGESTION_PTO_COUNT \<le> ld_pto_count ld
                  then on_hot (\<lambda>h. h\<lparr> ch_cc := Cubic_on_timeout now (ch_cc h) \<rparr>) c1 else c1);
            c3 = push_event (PtoTriggered (ld_pto_count ld) (ld_inflight_bytes ld)) c2;
            c4 = fold (retransmit now) (le_retransmittable loss_ev) c3
        in on_hot (set_probe_time now) c4
      else c)"

definition count_pruned :: "nat \<Rightarrow> connection_cold \<Rightarrow> connection_cold" where
  "count_pruned n k = k\<lparr> co_total_stale_drops := wadd64 (co_total_stale_drops k) n \<rparr>"

definition tx_housekeeping :: "monotonic_time \<Rightarrow> 'addr gtp_connection \<Rightarrow> 'addr gtp_connection" where
  "tx_housekeeping now c =
     (let (s, pruned) = prune_stale now (ch_scheduler (gc_hot c));
          c1 = on_cold (count_pruned pruned) (on_hot (\<lambda>h. h\<lparr> ch_scheduler := s \<rparr>) c);
          c2 = on_hot (\<lambda>h. h\<lparr> ch_path_validator := PathValidator_expire now (ch_path_validator h) \<rparr>) c1
      in on_hot (\<lambda>h. h\<lparr> ch_pacing := update_tokens (pacing_rate (ch_cc h)) now (ch_pacing h) \<rparr>) c2)"

definition tx_budget :: "'addr connection_hot \<Rightarrow> nat" where
  "tx_budget h = send_budget (cu_cwnd (ch_cc h)) (ld_inflight_bytes (ch_loss_detector h)) (ch_pacing h)"

definition tx_wanted :: "monotonic_time \<Rightarrow> 'addr connection_hot \<Rightarrow> bool" where
  "tx_wanted now h \<longleftrightarrow>
     (let should_ack = should_send_ack now (ch_ack_tracker h);
          has_queued_data = (\<not> GameScheduler_is_empty (ch_scheduler h) \<and> ch_state h = Established);
          has_control = (ch_control_queue h \<noteq> [])
      in (should_ack \<or> has_queued_data \<or> has_control) \<and> (should_ack \<or> has_control \<or> 64 \<le> tx_budget h))"

definition tx_header :: "monotonic_time \<Rightarrow> 'addr connection_hot \<Rightarrow> packet_header" where
  "tx_header now h =
     (let header = PacketHeader_new_short (ch_connection_id h) (ch_next_packet_number h) (of_nat now) 0
      in header\<lparr> ph_flags := set_key_phase (ph_flags header) (ch_key_phase h) \<rparr>)"

definition tx_assemble :: "monotonic_time \<Rightarrow> packet_builder \<Rightarrow> 'addr gtp_connection \<Rightarrow> ('addr gtp_connection \<times> 'addr tx_packet) result" where
  "tx_assemble now b c =
     (let h = gc_hot c in
      obind (attach_ack (should_send_ack now (ch_ack_tracker h)) now h (tx_packet_new b)) (\<lambda>p1.
      obind (drain_controls (ch_active_path h) (ch_control_queue h) p1) (\<lambda>(queue, p2).
      let c1 = on_hot (\<lambda>h. h\<lparr> ch_control_queue := queue \<rparr>) c
      in if ch_state h = Established
         then omap (\<lambda>(s, k, p3). (on_cold (\<lambda>_. k) (on_hot (\<lambda>h. h\<lparr> ch_scheduler := s \<rparr>) c1), p3))
                (fill_data (tx_budget h) now (ch_scheduler h) (gc_cold c) p2)
         else Ok (c1, p2))))"

text \<open>
  Finishing and sealing: the declared payload length with the tag goes into the last two header
  bytes before the header becomes the associated data. The result is the buffer and the length of
  the datagram.
\<close>

definition tx_seal :: "conn_env \<Rightarrow> 'addr connection_hot \<Rightarrow> packet_builder \<Rightarrow> bytes \<times> nat result" where
  "tx_seal env h b = (case PacketBuilder_finish b of
     Err e \<Rightarrow> (pb_buf b, Err e)
   | Panic \<Rightarrow> (pb_buf b, Panic)
   | Ok (buf, len) \<Rightarrow>
       if len < MIN_COMMON_HEADER_LEN \<or> length buf < MIN_COMMON_HEADER_LEN then (buf, Panic)
       else let plen = len - MIN_COMMON_HEADER_LEN;
                final_len = plen + tag_len (ch_tx_protector h)
            in if final_len > 65535 then (buf, Err BufferOverflow)
               else let aad = take (MIN_COMMON_HEADER_LEN - 2) buf @ to_be_bytes (of_nat final_len :: u16);
                        (payload, r) = Protector_seal (env_cipher env) (ch_tx_protector h) (ch_next_packet_number h)
                          (ch_connection_id h) aad (drop MIN_COMMON_HEADER_LEN buf) plen
                    in (aad @ payload, omap (\<lambda>n. MIN_COMMON_HEADER_LEN + n) r))"

definition tx_reject :: "monotonic_time \<Rightarrow> 'addr tx_packet \<Rightarrow> 'addr gtp_connection \<Rightarrow> 'addr gtp_connection" where
  "tx_reject now p c =
     (let (s, k) = requeue_popped now (tp_popped p) (ch_scheduler (gc_hot c), gc_cold c)
      in on_cold (\<lambda>_. k) (on_hot (\<lambda>h. h\<lparr> ch_control_queue := requeue_controls (ch_control_queue h) (tp_drained_controls p),
           ch_scheduler := s \<rparr>) c))"

definition sent_record :: "monotonic_time \<Rightarrow> nat \<Rightarrow> packet_number \<Rightarrow> 'addr tx_packet \<Rightarrow> sent_packet_record" where
  "sent_record now len pn p = \<lparr> sp_packet_number = unat pn, sp_send_time = now, sp_bytes = len,
     sp_ack_eliciting = tp_ack_eliciting p, sp_in_flight = tp_ack_eliciting p, sp_retransmittable_frames = tp_retransmittables p \<rparr>"

definition count_tx :: "nat \<Rightarrow> connection_cold \<Rightarrow> connection_cold" where
  "count_tx len k = k\<lparr> co_total_tx_packets := wadd64 (co_total_tx_packets k) 1, co_total_tx_bytes := wadd64 (co_total_tx_bytes k) len \<rparr>"

definition record_sent :: "monotonic_time \<Rightarrow> nat \<Rightarrow> 'addr tx_packet \<Rightarrow> 'addr connection_hot \<Rightarrow> 'addr connection_hot" where
  "record_sent now len p h = h\<lparr>
     ch_anti_amplification := on_bytes_sent len (ch_anti_amplification h),
     ch_close_frame_sent := (ch_close_frame_sent h \<or> tp_close_drained p),
     ch_loss_detector := LossDetector_on_packet_sent (sent_record now len (ch_next_packet_number h) p) (ch_loss_detector h),
     ch_pacing := consume len (ch_pacing h),
     ch_next_packet_number := PacketNumber_next (ch_next_packet_number h),
     ch_packets_since_ratchet := wadd64 (ch_packets_since_ratchet h) 1,
     ch_ack_tracker := (if tp_ack_appended p then commit_ack_sent now (ch_ack_tracker h) else ch_ack_tracker h) \<rparr>"

definition tx_commit :: "conn_env \<Rightarrow> monotonic_time \<Rightarrow> nat \<Rightarrow> 'addr tx_packet \<Rightarrow> 'addr gtp_connection \<Rightarrow>
    'addr gtp_connection \<times> ('addr \<times> nat) option result" where
  "tx_commit env now len p c =
     (let c1 = on_cold (count_tx len) (on_hot (record_sent now len p) c);
          dest = (case tp_override_dest p of Some d \<Rightarrow> d | None \<Rightarrow> ch_active_path (gc_hot c1));
          c2 = on_hot (flush_pending_ratchet env) c1
      in case tick_route_evaluation now c2 of
           Ok c3 \<Rightarrow> (c3, Ok (Some (dest, len)))
         | Err e \<Rightarrow> (c2, Err e)
         | Panic \<Rightarrow> (c2, Panic))"

definition tx_transmit :: "conn_env \<Rightarrow> monotonic_time \<Rightarrow> 'addr tx_packet \<Rightarrow> 'addr gtp_connection \<Rightarrow>
    'addr gtp_connection \<times> bytes \<times> ('addr \<times> nat) option result" where
  "tx_transmit env now p c = (case tx_seal env (gc_hot c) (tp_builder p) of
     (buf, Err e) \<Rightarrow> (tx_reject now p c, buf, Err e)
   | (buf, Panic) \<Rightarrow> (c, buf, Panic)
   | (buf, Ok len) \<Rightarrow>
       if \<not> can_send len (ch_anti_amplification (gc_hot c)) then (tx_reject now p c, buf, Ok None)
       else let (c', r) = tx_commit env now len p c in (c', buf, r))"

definition produce_outgoing_datagram :: "conn_env \<Rightarrow> monotonic_time \<Rightarrow> bytes \<Rightarrow> 'addr gtp_connection \<Rightarrow>
    'addr gtp_connection \<times> bytes \<times> ('addr \<times> nat) option result" where
  "produce_outgoing_datagram env now out_buf c =
     (if ch_state (gc_hot c) = Closed then (c, out_buf, Ok None)
      else if ch_state (gc_hot c) = Draining \<and> ch_control_queue (gc_hot c) = []
        then (push_event (StateChanged Draining Closed)
                (on_hot (\<lambda>h. h\<lparr> ch_state := fst (transition_to (ch_state h) Closed) \<rparr>) c), out_buf, Ok None)
      else
        let c1 = tx_housekeeping now (tx_pto now c)
        in if \<not> tx_wanted now (gc_hot c1) then (c1, out_buf, Ok None)
           else case PacketBuilder_new out_buf (tx_header now (gc_hot c1)) of
                  Err e \<Rightarrow> (c1, out_buf, Err e)
                | Panic \<Rightarrow> (c1, out_buf, Panic)
                | Ok b \<Rightarrow>
                    (case tx_assemble now b c1 of
                       Ok (c2, p) \<Rightarrow> tx_transmit env now p c2
                     | Err e \<Rightarrow> (c1, out_buf, Err e)
                     | Panic \<Rightarrow> (c1, out_buf, Panic)))"

end
