(* ===== verification/Conn_Rx_Laws.thy ===== *)
theory Conn_Rx_Laws
  imports Conn_Rx
begin

text \<open>
  Laws of the receive pipeline. \<open>hot_inv\<close> collects the invariants of the components; every handler
  keeps it and none panics. A locale states what it takes for a relation between connection states
  to hold across the whole dispatch loop: it is reflexive and transitive and every frame respects
  it. It is interpreted for the relation that says what a received datagram can touch.
\<close>

section \<open>The invariant\<close>

definition pending_responses :: "'addr connection_hot \<Rightarrow> nat" where
  "pending_responses h = length (filter is_out_path_response (ch_control_queue h))"

definition hot_inv :: "'addr connection_hot \<Rightarrow> bool" where
  "hot_inv h \<longleftrightarrow> sched_wf (ch_scheduler h) \<and> groups_wf h \<and> mr_wf (ch_reassembler h) \<and> di_wf (ch_delivered_index h) \<and>
     st_wf (ch_rx_state_table h) \<and> ld_wf (ch_loss_detector h) \<and> cc_wf (ch_cc h) \<and> (\<exists>S. sees (ch_replay_window h) S) \<and>
     pending_responses h \<le> MAX_PENDING_PATH_RESPONSES"

lemma groups_wf_updates [simp]:
  "groups_wf (h\<lparr> ch_state := x0 \<rparr>) = groups_wf h"
  "groups_wf (h\<lparr> ch_active_path := x1 \<rparr>) = groups_wf h"
  "groups_wf (h\<lparr> ch_next_send_time := x2 \<rparr>) = groups_wf h"
  "groups_wf (h\<lparr> ch_loss_detector := x3 \<rparr>) = groups_wf h"
  "groups_wf (h\<lparr> ch_ack_tracker := x4 \<rparr>) = groups_wf h"
  "groups_wf (h\<lparr> ch_cc := x5 \<rparr>) = groups_wf h"
  "groups_wf (h\<lparr> ch_pacing := x6 \<rparr>) = groups_wf h"
  "groups_wf (h\<lparr> ch_scheduler := x7 \<rparr>) = groups_wf h"
  "groups_wf (h\<lparr> ch_rx_state_table := x8 \<rparr>) = groups_wf h"
  "groups_wf (h\<lparr> ch_reassembler := x9 \<rparr>) = groups_wf h"
  "groups_wf (h\<lparr> ch_delivered_index := x10 \<rparr>) = groups_wf h"
  "groups_wf (h\<lparr> ch_replay_window := x11 \<rparr>) = groups_wf h"
  "groups_wf (h\<lparr> ch_tx_protector := x12 \<rparr>) = groups_wf h"
  "groups_wf (h\<lparr> ch_rx_protector := x13 \<rparr>) = groups_wf h"
  "groups_wf (h\<lparr> ch_rx_protector_prev := x14 \<rparr>) = groups_wf h"
  "groups_wf (h\<lparr> ch_rx_prev_grace_packets := x15 \<rparr>) = groups_wf h"
  "groups_wf (h\<lparr> ch_tx_key := x16 \<rparr>) = groups_wf h"
  "groups_wf (h\<lparr> ch_rx_key := x17 \<rparr>) = groups_wf h"
  "groups_wf (h\<lparr> ch_tx_iv := x18 \<rparr>) = groups_wf h"
  "groups_wf (h\<lparr> ch_rx_iv := x19 \<rparr>) = groups_wf h"
  "groups_wf (h\<lparr> ch_key_phase := x20 \<rparr>) = groups_wf h"
  "groups_wf (h\<lparr> ch_key_phase_counter := x21 \<rparr>) = groups_wf h"
  "groups_wf (h\<lparr> ch_control_queue := x22 \<rparr>) = groups_wf h"
  "groups_wf (h\<lparr> ch_close_frame_sent := x23 \<rparr>) = groups_wf h"
  "groups_wf (h\<lparr> ch_anti_amplification := x24 \<rparr>) = groups_wf h"
  "groups_wf (h\<lparr> ch_anti_amplification_probe := x25 \<rparr>) = groups_wf h"
  "groups_wf (h\<lparr> ch_path_validator := x26 \<rparr>) = groups_wf h"
  "groups_wf (h\<lparr> ch_owd := x27 \<rparr>) = groups_wf h"
  "groups_wf (h\<lparr> ch_last_owd_emit := x28 \<rparr>) = groups_wf h"
  "groups_wf (h\<lparr> ch_last_rx_time := x29 \<rparr>) = groups_wf h"
  "groups_wf (h\<lparr> ch_next_message_id := x30 \<rparr>) = groups_wf h"
  "groups_wf (h\<lparr> ch_next_order_seqs := x31 \<rparr>) = groups_wf h"
  "groups_wf (h\<lparr> ch_packets_since_ratchet := x32 \<rparr>) = groups_wf h"
  "groups_wf (h\<lparr> ch_pending_ratchet := x33 \<rparr>) = groups_wf h"
  "groups_wf (h\<lparr> ch_route_controller := x34 \<rparr>) = groups_wf h"
  "groups_wf (h\<lparr> ch_next_packet_number := x35 \<rparr>) = groups_wf h"
  by (simp_all add: groups_wf_def)

lemmas hot_inv_simps = hot_inv_def pending_responses_def

lemma retransmit_hot: "\<exists>s. gc_hot (retransmit now rr c) = (gc_hot c)\<lparr> ch_scheduler := s \<rparr> \<and> (sched_wf (ch_scheduler (gc_hot c)) \<longrightarrow> sched_wf s)"
proof -
  obtain s r where s: "enqueue (retransmission_item rr now) now (ch_scheduler (gc_hot c)) = (s, r)" by fastforce
  then have "gc_hot (retransmit now rr c) = (gc_hot c)\<lparr> ch_scheduler := s \<rparr>"
    by (simp add: retransmit_def enqueue_item_def Let_def)
  then show ?thesis using enqueue_wf [of "ch_scheduler (gc_hot c)" "retransmission_item rr now" now] s by auto
qed

lemma retransmit_fold_hot:
  "\<exists>s. gc_hot (fold (retransmit now) rrs c) = (gc_hot c)\<lparr> ch_scheduler := s \<rparr> \<and> (sched_wf (ch_scheduler (gc_hot c)) \<longrightarrow> sched_wf s)"
proof (induction rrs arbitrary: c)
  case Nil
  then show ?case by (intro exI [of _ "ch_scheduler (gc_hot c)"]) simp
next
  case (Cons rr rrs)
  obtain s1 where s1: "gc_hot (retransmit now rr c) = (gc_hot c)\<lparr> ch_scheduler := s1 \<rparr>" "sched_wf (ch_scheduler (gc_hot c)) \<longrightarrow> sched_wf s1"
    using retransmit_hot by blast
  obtain s2 where "gc_hot (fold (retransmit now) rrs (retransmit now rr c)) = (gc_hot (retransmit now rr c))\<lparr> ch_scheduler := s2 \<rparr>"
    "sched_wf (ch_scheduler (gc_hot (retransmit now rr c))) \<longrightarrow> sched_wf s2"
    using Cons.IH by blast
  then show ?case using s1 by (intro exI [of _ s2]) simp
qed

lemma retransmit_frame [simp]: "gc_config (fold (retransmit now) rrs c) = gc_config c"
    "gc_last_backpressure (fold (retransmit now) rrs c) = gc_last_backpressure c"
proof -
  have "gc_config (retransmit now rr c) = gc_config c \<and> gc_last_backpressure (retransmit now rr c) = gc_last_backpressure c" for rr and c :: "'a gtp_connection"
    by (auto simp: retransmit_def enqueue_item_def Let_def split: prod.split)
  then show "gc_config (fold (retransmit now) rrs c) = gc_config c" "gc_last_backpressure (fold (retransmit now) rrs c) = gc_last_backpressure c"
    by (induction rrs arbitrary: c) simp_all
qed

text \<open>What an acknowledgement changes of the hot state.\<close>

lemma ld_wf_acked: "ld_wf d \<Longrightarrow> ld_wf (fst (LossDetector_on_ack_received l delay rs n now d))"
proof (cases "l > ld_largest_sent_packet d")
  case False
  assume "ld_wf d"
  moreover obtain d' ae le smp where "LossDetector_on_ack_received l delay rs n now d = (d', ae, le, smp)" by (metis prod_cases4)
  ultimately show ?thesis using on_ack_received_phases [OF _ False] by fastforce
qed (simp add: LossDetector_on_ack_received_def)

lemma rx_ack_hot:
  "\<exists>ld cc s. gc_hot (rx_ack env now l delay rs n c) = (gc_hot c)\<lparr> ch_loss_detector := ld, ch_cc := cc, ch_scheduler := s \<rparr> \<and>
     (ld_wf (ch_loss_detector (gc_hot c)) \<longrightarrow> ld_wf ld \<and>
        dom (map_of (ld_sent_packets ld)) \<subseteq> dom (map_of (ld_sent_packets (ch_loss_detector (gc_hot c))))) \<and> (cc_wf (ch_cc (gc_hot c)) \<longrightarrow> cc_wf cc) \<and>
     (sched_wf (ch_scheduler (gc_hot c)) \<longrightarrow> sched_wf s)"
proof -
  obtain ld ae le smp where ld: "LossDetector_on_ack_received (unat l) delay rs (unat n) now (ch_loss_detector (gc_hot c)) = (ld, ae, le, smp)"
    by (metis prod_cases4)
  define cc where "cc = Cubic_on_loss (env_cbrt env) le now (Cubic_on_ack ae now (Cubic_on_rtt (smoothed_rtt (ld_rtt_stats ld)) (ch_cc (gc_hot c))))"
  define c1 where "c1 = on_hot (\<lambda>h. h\<lparr> ch_loss_detector := ld, ch_cc := cc \<rparr>) c"
  define c2 where "c2 = (if le_lost_packets le \<noteq> [] then push_event (PacketLossDetected (length (le_lost_packets le)) (le_bytes_lost le)) c1 else c1)"
  have "rx_ack env now l delay rs n c = fold (retransmit now) (le_retransmittable le) c2"
    by (simp add: rx_ack_def ld Let_def c2_def c1_def cc_def on_hot_def)
  moreover have "gc_hot c2 = (gc_hot c)\<lparr> ch_loss_detector := ld, ch_cc := cc \<rparr>" by (simp add: c2_def c1_def)
  moreover obtain s where "gc_hot (fold (retransmit now) (le_retransmittable le) c2) = (gc_hot c2)\<lparr> ch_scheduler := s \<rparr>"
    "sched_wf (ch_scheduler (gc_hot c2)) \<longrightarrow> sched_wf s"
    using retransmit_fold_hot by blast
  moreover have "ld_wf (ch_loss_detector (gc_hot c)) \<longrightarrow> ld_wf ld \<and> dom (map_of (ld_sent_packets ld)) \<subseteq> dom (map_of (ld_sent_packets (ch_loss_detector (gc_hot c))))"
    using ld_wf_acked [of "ch_loss_detector (gc_hot c)" "unat l" delay rs "unat n" now] ld on_ack_received_partition [OF _ ld] by simp
  moreover have "cc_wf (ch_cc (gc_hot c)) \<longrightarrow> cc_wf cc"
    using cc_wf_run [of "ch_cc (gc_hot c)" "env_cbrt env" "[(now, RttOf (smoothed_rtt (ld_rtt_stats ld))), (now, AckOf ae), (now, LossOf le)]"]
    by (simp add: cc_def)
  ultimately show ?thesis by (intro exI [of _ ld] exI [of _ cc] exI [of _ s]) simp
qed

section \<open>Delivery\<close>

lemma push_not_Err:
  assumes "mr_wf m" and "push mid idx frags payload now m = (m', r)"
  shows "mr_wf m' \<and> (\<exists>out. r = Ok out)"
proof (cases "frags = 0 \<or> idx \<ge> frags")
  case True
  then have "m' = m" "r = Ok Dropped" using assms(2) by (auto simp: push_def split: if_splits)
  then show ?thesis using assms(1) by simp
next
  case False
  then have lt: "idx < frags" by (simp add: not_le)
  have wf: "mr_wf (sweep now m)" using assms(1) by (rule sweep_wf)
  show ?thesis
  proof (cases "map_of (mr_entries (sweep now m)) mid")
    case None
    then have "push_new mid idx frags payload now (sweep now m) = (m', r)" using assms(2) False by (simp add: push_def Let_def)
    from push_new_wf [OF wf None lt this] show ?thesis by (cases r) auto
  next
    case (Some e)
    then have "push_existing mid idx frags payload now e (sweep now m) = (m', r)" using assms(2) False by (simp add: push_def Let_def)
    from push_existing_wf [OF wf Some lt this] show ?thesis by (cases r) auto
  qed
qed

lemma deliver_message_conn [simp]: "rx_conn (deliver_message cls p s) = rx_conn s"
    "rx_path_responses (deliver_message cls p s) = rx_path_responses s" "rx_close (deliver_message cls p s) = rx_close s"
  by (simp_all add: deliver_message_def)

lemma deliver_fold_conn [simp]:
  "rx_conn (fold (\<lambda>(q, item). deliver_message (cls q) item) items s) = rx_conn s"
  "rx_delivered (fold (\<lambda>(q, item). deliver_message (cls q) item) items s) =
     rx_delivered s @ map (\<lambda>(q, item). \<lparr> rm_class = cls q, rm_payload = item \<rparr>) items"
proof -
  show "rx_conn (fold (\<lambda>(q, item). deliver_message (cls q) item) items s) = rx_conn s"
    by (induction items arbitrary: s) (simp_all add: case_prod_beta)
  show "rx_delivered (fold (\<lambda>(q, item). deliver_message (cls q) item) items s) =
     rx_delivered s @ map (\<lambda>(q, item). \<lparr> rm_class = cls q, rm_payload = item \<rparr>) items"
    by (induction items arbitrary: s) (simp_all add: case_prod_beta deliver_message_def)
qed

lemma on_conn_simps [simp]: "rx_conn (on_conn f s) = f (rx_conn s)" "rx_delivered (on_conn f s) = rx_delivered s"
    "rx_path_responses (on_conn f s) = rx_path_responses s" "rx_close (on_conn f s) = rx_close s"
    "rx_ack_eliciting (on_conn f s) = rx_ack_eliciting s"
  by (simp_all add: on_conn_def)

lemma ordered_group_mut_frame:
  obtains gs ns where "fst (ordered_group_mut key h) =
    h\<lparr> ch_ordered_groups := gs, ch_group_gens := ns, ch_gen_counter := wadd64 (ch_gen_counter h) 1 \<rparr>"
proof (cases "map_of (ch_group_gens h) key")
  case None
  obtain gs ns where "evict_groups (ch_ordered_groups h) (ch_group_gens h) = (gs, ns)" by fastforce
  then show thesis
    using that [where gs = "om_insert key (OrderedGroupReceiver_new key) gs" and ns = "om_insert key (wadd64 (ch_gen_counter h) 1) ns"] None
    by (simp add: ordered_group_mut_def Let_def)
next
  case (Some n)
  then show thesis
    using that [where gs = "ch_ordered_groups h" and ns = "om_insert key (wadd64 (ch_gen_counter h) 1) (ch_group_gens h)"]
    by (simp add: ordered_group_mut_def Let_def)
qed

text \<open>Delivery through an ordered group: the hot state changes only in its group map.\<close>

lemma rx_deliver_ordered_hot:
  assumes "groups_wf (gc_hot (rx_conn s))" and "ch_gen_counter (gc_hot (rx_conn s)) < u64_max"
  obtains s' gs ns where "rx_deliver_ordered gid sq payload s = Ok s'"
    "gc_hot (rx_conn s') = (gc_hot (rx_conn s))\<lparr> ch_ordered_groups := gs, ch_group_gens := ns, ch_gen_counter := Suc (ch_gen_counter (gc_hot (rx_conn s))) \<rparr>"
    "groups_wf (gc_hot (rx_conn s'))" "gc_config (rx_conn s') = gc_config (rx_conn s)"
proof -
  let ?h = "gc_hot (rx_conn s)"
  obtain h1 r where m: "ordered_group_mut gid ?h = (h1, r)" by fastforce
  obtain g where g: "r = Ok g" "groups_wf h1" "map_of (ch_ordered_groups h1) gid = Some g"
  proof (cases "map_of (ch_ordered_groups ?h) gid")
    case (Some g)
    then show thesis using ordered_group_mut_live [OF assms Some] m that by auto
  next
    case None
    obtain gs ns where e: "evict_groups (ch_ordered_groups ?h) (ch_group_gens ?h) = (gs, ns)" by fastforce
    have h1: "h1 = groups_after gid ?h gs ns" "r = Ok (OrderedGroupReceiver_new gid)"
      using ordered_group_mut_new [OF assms None e] m by simp_all
    have "groups_wf (groups_after gid ?h gs ns)"
      using assms(1)
    proof (cases rule: evict_groups_result)
      case room
      then show ?thesis using e groups_wfD [OF assms(1)] by (auto intro!: groups_after_wf)
    next
      case (full lru n)
      then show ?thesis using e groups_after_evicted_wf [OF assms(1) full(1,2)] by simp
    qed
    then show thesis using that h1 by (simp add: groups_after_def)
  qed
  have wrap: "wadd64 (ch_gen_counter ?h) 1 = Suc (ch_gen_counter ?h)" using assms(2) u64_max_modulus by simp
  obtain gs ns where "fst (ordered_group_mut gid ?h) = ?h\<lparr> ch_ordered_groups := gs, ch_group_gens := ns, ch_gen_counter := wadd64 (ch_gen_counter ?h) 1 \<rparr>"
    by (rule ordered_group_mut_frame)
  then have h1: "h1 = ?h\<lparr> ch_ordered_groups := gs, ch_group_gens := ns, ch_gen_counter := Suc (ch_gen_counter ?h) \<rparr>" using m wrap by simp
  obtain g' ready where i: "on_incoming sq payload g = (g', ready)" by fastforce
  have og: "og_wf g'" "ready \<noteq> Panic"
    using on_incoming_result [OF groups_wfD(5) [OF g(2,3)] i] by (auto split: outcome.splits)
  then have wf: "groups_wf (put_group gid g' h1)" by (intro put_group_wf [OF g(2) _ g(3)])
  have hot: "put_group gid g' h1 = ?h\<lparr> ch_ordered_groups := om_insert gid g' gs, ch_group_gens := ns, ch_gen_counter := Suc (ch_gen_counter ?h) \<rparr>"
    unfolding put_group_def h1 by simp
  define s1 where "s1 = on_conn (on_hot (\<lambda>_. put_group gid g' h1)) s"
  have s1: "gc_hot (rx_conn s1) = put_group gid g' h1" "gc_config (rx_conn s1) = gc_config (rx_conn s)" by (simp_all add: s1_def)
  have step: "rx_deliver_ordered gid sq payload s = (case ready of
      Ok items \<Rightarrow> Ok (fold (\<lambda>(q, item). deliver_message (ReliableOrdered gid q) item) items s1)
    | Err _ \<Rightarrow> Ok (on_conn (on_cold count_dropped_frame) s1) | Panic \<Rightarrow> Panic)"
    by (simp add: rx_deliver_ordered_def m g(1) i s1_def Let_def split: outcome.split)
  obtain s' where s': "rx_deliver_ordered gid sq payload s = Ok s'" "gc_hot (rx_conn s') = gc_hot (rx_conn s1)" "gc_config (rx_conn s') = gc_config (rx_conn s1)"
    using step og(2) by (cases ready) simp_all
  show thesis by (rule that [OF s'(1)]) (use s' s1 hot wf in simp_all)
qed

section \<open>Every handler keeps the invariant\<close>

definition step_ok :: "'addr rx_state \<Rightarrow> 'addr rx_state result \<Rightarrow> bool" where
  "step_ok s r \<longleftrightarrow> (\<exists>s'. r = Ok s' \<and> hot_inv (gc_hot (rx_conn s')) \<and>
     ch_gen_counter (gc_hot (rx_conn s')) \<le> Suc (ch_gen_counter (gc_hot (rx_conn s))))"

lemma hot_inv_ratchet [simp]: "hot_inv (ratchet_session_key env h) = hot_inv h"
    "ch_gen_counter (ratchet_session_key env h) = ch_gen_counter h"
  by (simp_all add: ratchet_session_key_def Let_def hot_inv_simps split: prod.split)

lemma hot_inv_migrate: "hot_inv (gc_hot c) \<Longrightarrow> hot_inv (gc_hot (migrate src c))" "ch_gen_counter (gc_hot (migrate src c)) = ch_gen_counter (gc_hot c)"
  by (auto simp: migrate_def Let_def hot_inv_simps ld_wf_migration)

lemma step_ok_data: "hot_inv (gc_hot (rx_conn s)) \<Longrightarrow> step_ok s (Ok (rx_data mid key sq gen payload s))"
  by (auto simp: step_ok_def rx_data_def Let_def hot_inv_simps st_wf_update)

lemma step_ok_unordered: "hot_inv (gc_hot (rx_conn s)) \<Longrightarrow> step_ok s (Ok (rx_deliver_unordered mid payload s))"
  using insert_if_new_wf [of "ch_delivered_index (gc_hot (rx_conn s))" mid]
  by (auto simp: step_ok_def rx_deliver_unordered_def Let_def hot_inv_simps split: prod.split)

lemma step_ok_ordered:
  assumes "hot_inv (gc_hot (rx_conn s))" and "ch_gen_counter (gc_hot (rx_conn s)) < u64_max"
  shows "step_ok s (rx_deliver_ordered gid sq payload s)"
proof -
  have "groups_wf (gc_hot (rx_conn s))" using assms(1) by (simp add: hot_inv_def)
  from rx_deliver_ordered_hot [OF this assms(2), of gid sq payload] obtain s' gs ns
    where s': "rx_deliver_ordered gid sq payload s = Ok s'"
    "gc_hot (rx_conn s') = (gc_hot (rx_conn s))\<lparr> ch_ordered_groups := gs, ch_group_gens := ns, ch_gen_counter := Suc (ch_gen_counter (gc_hot (rx_conn s))) \<rparr>"
    "groups_wf (gc_hot (rx_conn s'))" by blast
  then show ?thesis using assms(1) by (auto simp: step_ok_def hot_inv_def pending_responses_def)
qed

lemma step_ok_reliable_payload:
  assumes "hot_inv (gc_hot (rx_conn s))" and "ch_gen_counter (gc_hot (rx_conn s)) < u64_max"
  shows "step_ok s (rx_reliable_payload mid gid sq payload s)"
  using step_ok_unordered [OF assms(1)] step_ok_ordered [OF assms] by (simp add: rx_reliable_payload_def)

text \<open>A fragment of a longer message goes through the reassembler first.\<close>

lemma rx_reliable_fragment:
  assumes "frags > 1" and "push mid fid frags payload now (ch_reassembler (gc_hot (rx_conn s))) = (ra, out)"
    and "s1 = on_conn (on_hot (\<lambda>h. h\<lparr> ch_reassembler := ra \<rparr>)) s"
  shows "rx_reliable now mid fid frags gid sq payload s = (case out of
        Ok (Delivered full) \<Rightarrow> rx_reliable_payload mid gid sq full s1
      | Ok PartialPush \<Rightarrow> Ok s1 | Ok Dropped \<Rightarrow> Ok (on_conn (on_cold count_fragment_drop) s1) | Err e \<Rightarrow> Err e | Panic \<Rightarrow> Panic)"
  using assms(1) by (simp add: rx_reliable_def assms(2,3) Let_def split: outcome.split push_outcome.split)

lemma step_ok_reliable:
  assumes "hot_inv (gc_hot (rx_conn s))" and "ch_gen_counter (gc_hot (rx_conn s)) < u64_max"
  shows "step_ok s (rx_reliable now mid fid frags gid sq payload s)"
proof (cases "frags > 1")
  case False
  then show ?thesis using step_ok_reliable_payload [OF assms] by (simp add: rx_reliable_def)
next
  case True
  obtain ra out where p: "push mid fid frags payload now (ch_reassembler (gc_hot (rx_conn s))) = (ra, out)" by fastforce
  have wf: "mr_wf ra" "\<exists>o'. out = Ok o'" using push_not_Err [OF _ p] assms(1) by (auto simp: hot_inv_def)
  define s1 where "s1 = on_conn (on_hot (\<lambda>h. h\<lparr> ch_reassembler := ra \<rparr>)) s"
  have inv: "hot_inv (gc_hot (rx_conn s1))" "ch_gen_counter (gc_hot (rx_conn s1)) = ch_gen_counter (gc_hot (rx_conn s))"
    using assms(1) wf(1) by (simp_all add: s1_def hot_inv_simps)
  note step = rx_reliable_fragment [OF True p s1_def, of gid sq]
  have "step_ok s1 (rx_reliable_payload mid gid sq full s1)" for full
    using inv assms(2) by (intro step_ok_reliable_payload) simp_all
  then show ?thesis
    using inv wf(2) unfolding step by (auto simp: step_ok_def split: push_outcome.split)
qed

lemma step_ok_dispatch:
  assumes "hot_inv (gc_hot (rx_conn s))" and "ch_gen_counter (gc_hot (rx_conn s)) < u64_max"
  shows "step_ok s (rx_dispatch env src now f s)"
proof (cases f)
  case (Ack l d rs n e0 e1 ce)
  then show ?thesis
    using rx_ack_hot [of env now l d rs n "rx_conn s"] assms(1) by (auto simp: step_ok_def hot_inv_simps)
next
  case (ReliableData mid fid frags gid sq payload)
  then show ?thesis using step_ok_reliable [OF assms] by simp
next
  case (PathChallenge data)
  then show ?thesis
    using assms(1) by (auto simp: step_ok_def rx_path_challenge_def Let_def queue_control_def hot_inv_simps MAX_PENDING_PATH_RESPONSES_def)
next
  case (PathResponse data)
  obtain v ok where v: "validate_response src data now (ch_path_validator (gc_hot (rx_conn s))) = (v, ok)" by fastforce
  have "hot_inv (gc_hot (on_hot (\<lambda>h. h\<lparr> ch_path_validator := v \<rparr>) (rx_conn s)))" using assms(1) by (simp add: hot_inv_simps)
  then show ?thesis
    using PathResponse v hot_inv_migrate [where c = "on_hot (\<lambda>h. h\<lparr> ch_path_validator := v \<rparr>) (rx_conn s)" and src = src]
    by (auto simp: step_ok_def rx_path_response_def Let_def)
next
  case (KeyUpdate phase pf)
  then show ?thesis using assms(1) by (simp add: step_ok_def on_key_update_def)
next
  case (AckFrequency freq delay_ms reorder)
  then show ?thesis using assms(1) by (simp add: step_ok_def apply_ack_policy_def Let_def hot_inv_simps)
qed (use assms step_ok_data [OF assms(1)] step_ok_unordered [OF assms(1)] in \<open>simp_all add: step_ok_def\<close>)

lemma rx_loop_ok:
  assumes "hot_inv (gc_hot (rx_conn s))" and "ch_gen_counter (gc_hot (rx_conn s)) + length rs \<le> u64_max" and "Panic \<notin> set rs"
  shows "\<exists>s'. rx_loop env src now rs s = Ok s' \<and> hot_inv (gc_hot (rx_conn s')) \<and>
    ch_gen_counter (gc_hot (rx_conn s')) \<le> ch_gen_counter (gc_hot (rx_conn s)) + length rs"
  using assms
proof (induction rs arbitrary: s)
  case (Cons r rs)
  show ?case
  proof (cases r)
    case (Ok f)
    let ?s = "if is_ack_eliciting f then s\<lparr> rx_ack_eliciting := True \<rparr> else s"
    have "step_ok ?s (rx_dispatch env src now f ?s)"
      using Cons.prems by (intro step_ok_dispatch) auto
    then obtain s1 where s1: "rx_frame env src now f s = Ok s1" "hot_inv (gc_hot (rx_conn s1))"
      "ch_gen_counter (gc_hot (rx_conn s1)) \<le> Suc (ch_gen_counter (gc_hot (rx_conn s)))"
      by (auto simp: step_ok_def rx_frame_def split: if_splits)
    have "\<exists>s'. rx_loop env src now rs s1 = Ok s' \<and> hot_inv (gc_hot (rx_conn s')) \<and>
      ch_gen_counter (gc_hot (rx_conn s')) \<le> ch_gen_counter (gc_hot (rx_conn s1)) + length rs"
      using Cons.prems s1 by (intro Cons.IH) auto
    then show ?thesis using Ok s1 by fastforce
  next
    case (Err e)
    then show ?thesis using Cons.prems(1) by simp
  qed (use Cons.prems in simp)
qed simp

section \<open>What a frame can touch\<close>

text \<open>
  The fields of the hot state that no frame changes, the pending challenge (kept or consumed), the
  active path (kept, or moved to the sender because a pending challenge of it was answered), and the
  control queue (kept, or extended by responses to the sender).
\<close>

definition rx_fixed :: "'addr connection_hot \<Rightarrow> _" where
  "rx_fixed h = (ch_connection_id h, ch_replay_window h, ch_state h, ch_next_packet_number h, ch_next_message_id h, ch_next_order_seqs h,
     ch_pacing h, ch_close_frame_sent h, ch_pending_ratchet h, ch_route_controller h)"

definition path_touched :: "frame set \<Rightarrow> 'addr \<Rightarrow> monotonic_time \<Rightarrow> 'addr connection_hot \<Rightarrow> 'addr connection_hot \<Rightarrow> bool" where
  "path_touched F src now h h' \<longleftrightarrow>
     (ch_path_validator h' = ch_path_validator h \<or> pv_pending_challenge (ch_path_validator h') = None) \<and>
     (ch_active_path h' = ch_active_path h \<and> ch_anti_amplification h' = ch_anti_amplification h \<or>
       (ch_active_path h' = src \<and> aa_validated (ch_anti_amplification h') \<and>
         (\<exists>data start. PathResponse data \<in> F \<and> pv_pending_challenge (ch_path_validator h) = Some (src, data, start) \<and>
            duration_since now start \<le> PATH_CHALLENGE_TIMEOUT)))"

definition queue_touched :: "frame set \<Rightarrow> 'addr \<Rightarrow> 'addr connection_hot \<Rightarrow> 'addr connection_hot \<Rightarrow> bool" where
  "queue_touched F src h h' \<longleftrightarrow>
     (\<exists>rs. ch_control_queue h' = ch_control_queue h @ rs \<and> (\<forall>f \<in> set rs. \<exists>d. PathChallenge d \<in> F \<and> f = OutPathResponse d src) \<and>
       (rs \<noteq> [] \<longrightarrow> ch_active_path h' = src))"

definition sent_touched :: "'addr connection_hot \<Rightarrow> 'addr connection_hot \<Rightarrow> bool" where
  "sent_touched h h' \<longleftrightarrow> (ld_wf (ch_loss_detector h) \<longrightarrow> ld_wf (ch_loss_detector h') \<and>
     dom (map_of (ld_sent_packets (ch_loss_detector h'))) \<subseteq> dom (map_of (ld_sent_packets (ch_loss_detector h))))"

definition rx_touches :: "frame set \<Rightarrow> 'addr \<Rightarrow> monotonic_time \<Rightarrow> 'addr gtp_connection \<Rightarrow> 'addr gtp_connection \<Rightarrow> bool" where
  "rx_touches F src now c c' \<longleftrightarrow> rx_fixed (gc_hot c') = rx_fixed (gc_hot c) \<and> path_touched F src now (gc_hot c) (gc_hot c') \<and>
     queue_touched F src (gc_hot c) (gc_hot c') \<and> sent_touched (gc_hot c) (gc_hot c')"

lemma rx_touches_same_hot: "gc_hot c' = gc_hot c \<Longrightarrow> rx_touches F src now c c'"
  by (simp add: rx_touches_def path_touched_def queue_touched_def sent_touched_def)

lemma queue_touched_trans:
  assumes "queue_touched F src h h'" and "queue_touched F src h' h''" and "path_touched F src now h' h''"
  shows "queue_touched F src h h''"
proof -
  obtain rs rs' where "ch_control_queue h' = ch_control_queue h @ rs" "\<forall>f \<in> set rs. \<exists>d. PathChallenge d \<in> F \<and> f = OutPathResponse d src" "rs \<noteq> [] \<longrightarrow> ch_active_path h' = src"
    "ch_control_queue h'' = ch_control_queue h' @ rs'" "\<forall>f \<in> set rs'. \<exists>d. PathChallenge d \<in> F \<and> f = OutPathResponse d src" "rs' \<noteq> [] \<longrightarrow> ch_active_path h'' = src"
    using assms(1,2) unfolding queue_touched_def by blast
  then show ?thesis
    using assms(3) unfolding queue_touched_def by (intro exI [of _ "rs @ rs'"]) (auto simp: path_touched_def)
qed

lemma path_touched_trans: "path_touched F src now h h' \<Longrightarrow> path_touched F src now h' h'' \<Longrightarrow> path_touched F src now h h''"
  by (auto simp: path_touched_def)

lemma sent_touched_trans: "sent_touched h h' \<Longrightarrow> sent_touched h' h'' \<Longrightarrow> sent_touched h h''"
  unfolding sent_touched_def by blast

lemma rx_touches_trans: "rx_touches F src now c c' \<Longrightarrow> rx_touches F src now c' c'' \<Longrightarrow> rx_touches F src now c c''"
  unfolding rx_touches_def using path_touched_trans queue_touched_trans sent_touched_trans by metis

locale dispatch_relation =
  fixes env :: conn_env
    and src :: 'addr
    and now :: monotonic_time
    and frames :: "frame set"
    and rel :: "'addr gtp_connection \<Rightarrow> 'addr gtp_connection \<Rightarrow> bool"
  assumes same_hot: "gc_hot c' = gc_hot c \<Longrightarrow> rel c c'"
    and trans: "rel c c' \<Longrightarrow> rel c' c'' \<Longrightarrow> rel c c''"
    and frame: "f \<in> frames \<Longrightarrow> rx_dispatch env src now f s = Ok s' \<Longrightarrow> rel (rx_conn s) (rx_conn s')"
begin

lemma loop: "rx_loop env src now rs s = Ok s' \<Longrightarrow> \<forall>f. Ok f \<in> set rs \<longrightarrow> f \<in> frames \<Longrightarrow> rel (rx_conn s) (rx_conn s')"
proof (induction rs arbitrary: s)
  case (Cons r rs)
  show ?case
  proof (cases r)
    case (Ok f)
    then obtain s1 where s1: "rx_frame env src now f s = Ok s1" "rx_loop env src now rs s1 = Ok s'"
      using Cons.prems by (auto simp: obind_eq_Ok_conv)
    then have "rel (rx_conn s) (rx_conn s1)" using frame Ok Cons.prems(2) by (fastforce simp: rx_frame_def split: if_splits)
    then show ?thesis using Cons.IH [OF s1(2)] Cons.prems(2) trans by (meson list.set_intros(2))
  next
    case (Err e)
    then have "s' = on_conn (on_cold count_corrupted) s" using Cons.prems by simp
    then show ?thesis by (simp add: same_hot)
  next
    case Panic
    then show ?thesis using Cons.prems by simp
  qed
qed (simp add: same_hot)

end

lemma rx_ack_touches: "rx_touches F src now' c (rx_ack env now l delay rs n c)"
proof -
  obtain ld cc s where "gc_hot (rx_ack env now l delay rs n c) = (gc_hot c)\<lparr> ch_loss_detector := ld, ch_cc := cc, ch_scheduler := s \<rparr>"
    "ld_wf (ch_loss_detector (gc_hot c)) \<longrightarrow> ld_wf ld \<and> dom (map_of (ld_sent_packets ld)) \<subseteq> dom (map_of (ld_sent_packets (ch_loss_detector (gc_hot c))))"
    using rx_ack_hot [of env now l delay rs n c] by blast
  then show ?thesis by (simp add: rx_touches_def rx_fixed_def path_touched_def queue_touched_def sent_touched_def)
qed

lemma touches_ratchet: "rx_touches F src now c (on_hot (ratchet_session_key env) c)"
  by (simp add: rx_touches_def ratchet_session_key_def Let_def rx_fixed_def path_touched_def queue_touched_def sent_touched_def split: prod.split)

lemma touches_data: "rx_touches F src now (rx_conn s) (rx_conn (rx_data mid key sq gen payload s))"
  by (auto simp: rx_data_def Let_def rx_touches_def rx_fixed_def path_touched_def queue_touched_def sent_touched_def)

lemma touches_unordered: "rx_touches F src now (rx_conn s) (rx_conn (rx_deliver_unordered mid payload s))"
  by (auto simp: rx_deliver_unordered_def Let_def rx_touches_def rx_fixed_def path_touched_def queue_touched_def sent_touched_def split: prod.split)

lemma touches_ordered:
  assumes "rx_deliver_ordered gid sq payload s = Ok s'"
  shows "rx_touches F src now (rx_conn s) (rx_conn s')"
proof -
  obtain h rg where m: "ordered_group_mut gid (gc_hot (rx_conn s)) = (h, rg)" by fastforce
  obtain gs ns where h: "h = (gc_hot (rx_conn s))\<lparr> ch_ordered_groups := gs, ch_group_gens := ns, ch_gen_counter := wadd64 (ch_gen_counter (gc_hot (rx_conn s))) 1 \<rparr>"
    using ordered_group_mut_frame [of gid "gc_hot (rx_conn s)"] m by (metis fst_conv)
  obtain g where g: "rg = Ok g" using assms m by (cases rg) (simp_all add: rx_deliver_ordered_def)
  obtain g' ready where i: "on_incoming sq payload g = (g', ready)" by fastforce
  have "gc_hot (rx_conn s') = put_group gid g' h"
    using assms m g i by (auto simp: rx_deliver_ordered_def Let_def split: outcome.splits)
  then show ?thesis by (simp add: rx_touches_def rx_fixed_def path_touched_def queue_touched_def sent_touched_def put_group_def h)
qed

lemma touches_reliable_payload:
  "rx_reliable_payload mid gid sq payload s = Ok s' \<Longrightarrow> rx_touches F src now (rx_conn s) (rx_conn s')"
  using touches_unordered touches_ordered by (auto simp: rx_reliable_payload_def split: if_splits)

lemma touches_reliable:
  assumes "rx_reliable now mid fid frags gid sq payload s = Ok s'"
  shows "rx_touches F src now' (rx_conn s) (rx_conn s')"
proof (cases "frags > 1")
  case False
  then show ?thesis using assms touches_reliable_payload by (simp add: rx_reliable_def)
next
  case True
  obtain ra out where p: "push mid fid frags payload now (ch_reassembler (gc_hot (rx_conn s))) = (ra, out)" by fastforce
  define s1 where "s1 = on_conn (on_hot (\<lambda>h. h\<lparr> ch_reassembler := ra \<rparr>)) s"
  note step = assms [unfolded rx_reliable_fragment [OF True p s1_def]]
  have first: "rx_touches F src now' (rx_conn s) (rx_conn s1)"
    by (simp add: s1_def rx_touches_def rx_fixed_def path_touched_def queue_touched_def sent_touched_def)
  have "rx_touches F src now' (rx_conn s1) (rx_conn s')"
  proof (cases out)
    case (Ok o')
    show ?thesis
    proof (cases o')
      case (Delivered full)
      then have "rx_reliable_payload mid gid sq full s1 = Ok s'" using Ok step by simp
      then show ?thesis by (rule touches_reliable_payload)
    next
      case PartialPush
      then have "s' = s1" using Ok step by simp
      then show ?thesis by (simp add: rx_touches_same_hot)
    next
      case Dropped
      then have "s' = on_conn (on_cold count_fragment_drop) s1" using Ok step by simp
      then show ?thesis by (simp add: rx_touches_same_hot)
    qed
  qed (use step in simp_all)
  then show ?thesis by (rule rx_touches_trans [OF first])
qed

lemma touches_challenge: "PathChallenge data \<in> F \<Longrightarrow> rx_touches F src now (rx_conn s) (rx_conn (rx_path_challenge src data s))"
  by (simp add: rx_path_challenge_def Let_def queue_control_def rx_touches_def rx_fixed_def path_touched_def queue_touched_def sent_touched_def)

lemma touches_response:
  assumes "PathResponse data \<in> F"
  shows "rx_touches F src now c (rx_path_response src data now c)"
proof -
  obtain v ok where v: "validate_response src data now (ch_path_validator (gc_hot c)) = (v, ok)" by fastforce
  have pv: "v = ch_path_validator (gc_hot c) \<or> pv_pending_challenge v = None"
    and pend: "ok \<Longrightarrow> \<exists>start. pv_pending_challenge (ch_path_validator (gc_hot c)) = Some (src, data, start) \<and> duration_since now start \<le> PATH_CHALLENGE_TIMEOUT"
    using v by (auto simp: validate_response_def split: option.splits if_splits)
  show ?thesis
    using pv pend assms by (auto simp: rx_path_response_def v Let_def migrate_def mark_validated_def on_path_migration_def ld_wf_migration [unfolded on_path_migration_def] rx_touches_def rx_fixed_def path_touched_def queue_touched_def sent_touched_def)
qed

lemma touches_policy: "rx_touches F src now c (apply_ack_policy freq delay_ms reorder c)"
  by (simp add: apply_ack_policy_def Let_def rx_touches_def rx_fixed_def path_touched_def queue_touched_def sent_touched_def)

lemma dispatch_touches: "f \<in> F \<Longrightarrow> rx_dispatch env src now f s = Ok s' \<Longrightarrow> rx_touches F src now (rx_conn s) (rx_conn s')"
  using rx_ack_touches touches_data touches_reliable touches_unordered touches_challenge touches_response touches_ratchet touches_policy
  by (cases f) (auto simp: on_key_update_def on_hot_def rx_touches_same_hot)

interpretation touched: dispatch_relation env src now F "rx_touches F src now" for env src now F
  by unfold_locales (auto intro: rx_touches_same_hot rx_touches_trans dispatch_touches)

section \<open>The pipeline\<close>

text \<open>
  The header and the plaintext of a datagram that passes every check up to authentication. This is a
  predicate of the specification: it names the datagrams that count as genuine for a state, and the
  two lemmas below show that the pipeline accepts exactly those.
\<close>

definition authentic :: "conn_env \<Rightarrow> bytes \<Rightarrow> 'addr connection_hot \<Rightarrow> (packet_header \<times> bytes) option" where
  "authentic env datagram h = (case PacketHeader_decode datagram of
     Ok (hdr, k) \<Rightarrow>
       if ph_connection_id hdr = ch_connection_id h \<and> ReplayWindow_check (ch_replay_window h) (ph_packet_number hdr) = Ok ()
       then (case rx_open env h hdr (take k datagram) (drop k datagram) of (buf, Ok n) \<Rightarrow> Some (hdr, take n buf) | _ \<Rightarrow> None)
       else None
   | _ \<Rightarrow> None)"

lemma rx_attempt_facts:
  assumes "aead_ok (env_cipher env)" and "rx_attempt env hdr aad (length buf) p buf = (buf', r)"
  shows "r \<noteq> Panic" and "length buf' = length buf" and "r = Ok n \<Longrightarrow> n \<le> length buf'"
proof -
  show "r \<noteq> Panic" using assms(2) Protector_open_no_panic by (auto simp: rx_attempt_def)
  show len: "length buf' = length buf"
    using assms Protector_open_length [OF assms(1), of p _ _ aad buf "length buf"] Protector_open_failed \<open>r \<noteq> Panic\<close>
    by (cases r) (fastforce simp: rx_attempt_def)+
  show "r = Ok n \<Longrightarrow> n \<le> length buf'"
    using assms Protector_open_length [OF assms(1), of p _ _ aad buf "length buf"] len by (fastforce simp: rx_attempt_def)
qed

lemma rx_open_facts:
  assumes "aead_ok (env_cipher env)" and "rx_open env h hdr aad buf = (buf', r)"
  shows "r \<noteq> Panic \<and> length buf' = length buf \<and> (\<forall>n. r = Ok n \<longrightarrow> n \<le> length buf')"
proof -
  have P: "snd (rx_attempt env hdr aad (length buf) p b) \<noteq> Panic \<and> length (fst (rx_attempt env hdr aad (length buf) p b)) = length buf \<and>
      (\<forall>n. snd (rx_attempt env hdr aad (length buf) p b) = Ok n \<longrightarrow> n \<le> length buf)" if "length b = length buf" for p b
    using rx_attempt_facts [OF assms(1), of hdr aad b p] that by (cases "rx_attempt env hdr aad (length buf) p b") fastforce
  define s1 where "s1 = (if key_phase (ph_flags hdr) \<noteq> ch_key_phase h
    then (case ch_rx_protector_prev h of Some p \<Rightarrow> rx_attempt env hdr aad (length buf) p buf | None \<Rightarrow> (buf, Err CryptoFailure)) else (buf, Err CryptoFailure))"
  define s2 where "s2 = (if is_Err (snd s1) then rx_attempt env hdr aad (length buf) (ch_rx_protector h) (fst s1) else s1)"
  have ok1: "snd s1 \<noteq> Panic" "length (fst s1) = length buf" "\<forall>n. snd s1 = Ok n \<longrightarrow> n \<le> length buf"
    using P [of buf] by (auto simp: s1_def split: option.split)
  have ok2: "snd s2 \<noteq> Panic" "length (fst s2) = length buf" "\<forall>n. snd s2 = Ok n \<longrightarrow> n \<le> length buf"
    using P [OF ok1(2)] ok1 by (auto simp: s2_def)
  have "rx_open env h hdr aad buf = (if is_Err (snd s2) \<and> key_phase (ph_flags hdr) = ch_key_phase h
      then (case ch_rx_protector_prev h of Some p \<Rightarrow> rx_attempt env hdr aad (length buf) p (fst s2) | None \<Rightarrow> s2) else s2)"
    by (simp only: rx_open_def Let_def fst_conv s1_def s2_def simp_thms)
  then have "(buf', r) = s2 \<or> (\<exists>p. (buf', r) = rx_attempt env hdr aad (length buf) p (fst s2))"
    using assms(2) by (auto split: if_splits option.splits)
  then show ?thesis using P [OF ok2(2)] ok2 by (metis fst_conv snd_conv)
qed

text \<open>Every run of the pipeline on an open connection is one of two.\<close>

lemma handle_rejected:
  assumes "aead_ok (env_cipher env)" and "ch_state (gc_hot c) \<noteq> Closed" and "authentic env datagram (gc_hot c) = None"
  shows "\<exists>k e. handle_incoming_datagram_with_ecn env src datagram now ecn c = (on_cold k c, Err e)"
proof (cases "PacketHeader_decode datagram")
  case (Ok hk)
  obtain hdr k where hk: "hk = (hdr, k)" by (cases hk)
  have len: "k \<le> length datagram" using PacketHeader_decode_OkD(3) [of datagram hdr k] Ok hk by simp
  show ?thesis
  proof (cases "ph_connection_id hdr = ch_connection_id (gc_hot c) \<and> ReplayWindow_check (ch_replay_window (gc_hot c)) (ph_packet_number hdr) = Ok ()")
    case True
    obtain buf r where o: "rx_open env (gc_hot c) hdr (take k datagram) (drop k datagram) = (buf, r)" by fastforce
    then obtain e where "r = Err e"
      using rx_open_facts [OF assms(1) o] assms(3) Ok hk True by (cases r) (auto simp: authentic_def)
    then have "handle_incoming_datagram_with_ecn env src datagram now ecn c = (on_cold count_corrupted (on_cold (count_rx (length datagram)) c), Err e)"
      using assms(2) Ok hk True o len by (simp add: handle_incoming_datagram_with_ecn_def)
    then show ?thesis by (auto simp: on_cold_def intro!: exI [of _ "count_corrupted \<circ> count_rx (length datagram)"])
  next
    case False
    then show ?thesis
      using assms(2) Ok hk
      by (cases "ReplayWindow_check (ch_replay_window (gc_hot c)) (ph_packet_number hdr)")
         (auto simp: handle_incoming_datagram_with_ecn_def ReplayWindow_check_def Let_def split: if_splits)
  qed
next
  case (Err e)
  then show ?thesis using assms(2) by (auto simp: handle_incoming_datagram_with_ecn_def)
qed (use PacketHeader_decode_no_panic in simp)

lemma handle_accepted:
  assumes "aead_ok (env_cipher env)" and "ch_state (gc_hot c) \<noteq> Closed" and "authentic env datagram (gc_hot c) = Some (hdr, plain)"
  shows "handle_incoming_datagram_with_ecn env src datagram now ecn c =
    rx_payload env src hdr (length datagram) now ecn plain (on_cold (count_rx (length datagram)) c)"
proof -
  obtain k where d: "PacketHeader_decode datagram = Ok (hdr, k)" using assms(3) by (auto simp: authentic_def split: outcome.splits prod.splits if_splits)
  then have chk: "ph_connection_id hdr = ch_connection_id (gc_hot c)" "ReplayWindow_check (ch_replay_window (gc_hot c)) (ph_packet_number hdr) = Ok ()"
    using assms(3) by (auto simp: authentic_def split: if_splits)
  obtain buf n where o: "rx_open env (gc_hot c) hdr (take k datagram) (drop k datagram) = (buf, Ok n)" "plain = take n buf"
    using assms(3) d chk by (auto simp: authentic_def split: outcome.splits prod.splits)
  have "k \<le> length datagram" by (rule PacketHeader_decode_OkD(3) [OF d])
  then show ?thesis using assms(2) d chk o rx_open_facts [OF assms(1) o(1)] by (simp add: handle_incoming_datagram_with_ecn_def)
qed

text \<open>What authentication itself changes.\<close>

lemma rx_authenticated_hot:
  "ch_replay_window (gc_hot (rx_authenticated src len hdr now c)) = ReplayWindow_commit (ch_replay_window (gc_hot c)) (ph_packet_number hdr)"
  "hot_inv (gc_hot c) \<Longrightarrow> hot_inv (gc_hot (rx_authenticated src len hdr now c))"
  "ch_gen_counter (gc_hot (rx_authenticated src len hdr now c)) = ch_gen_counter (gc_hot c)"
  "ch_active_path (gc_hot (rx_authenticated src len hdr now c)) = ch_active_path (gc_hot c)"
  "ch_path_validator (gc_hot (rx_authenticated src len hdr now c)) = ch_path_validator (gc_hot c)"
  "ch_control_queue (gc_hot (rx_authenticated src len hdr now c)) = ch_control_queue (gc_hot c)"
  "ch_state (gc_hot (rx_authenticated src len hdr now c)) = ch_state (gc_hot c)"
  "ch_loss_detector (gc_hot (rx_authenticated src len hdr now c)) = ch_loss_detector (gc_hot c)"
  "ch_next_packet_number (gc_hot (rx_authenticated src len hdr now c)) = ch_next_packet_number (gc_hot c)"
  "ch_anti_amplification (gc_hot (rx_authenticated src len hdr now c)) = (if src = ch_active_path (gc_hot c)
     then mark_validated (on_bytes_received len (ch_anti_amplification (gc_hot c))) else ch_anti_amplification (gc_hot c))"
proof -
  have fields: "ch_replay_window (credit_path src len x) = ch_replay_window x" "ch_active_path (credit_path src len x) = ch_active_path x"
    "ch_path_validator (credit_path src len x) = ch_path_validator x" "ch_control_queue (credit_path src len x) = ch_control_queue x"
    "ch_state (credit_path src len x) = ch_state x" "ch_gen_counter (credit_path src len x) = ch_gen_counter x"
    "hot_inv (credit_path src len x) = hot_inv x" "ch_loss_detector (credit_path src len x) = ch_loss_detector x"
    "ch_next_packet_number (credit_path src len x) = ch_next_packet_number x"
    "ch_anti_amplification (credit_path src len x) =
       (if src = ch_active_path x then mark_validated (on_bytes_received len (ch_anti_amplification x)) else ch_anti_amplification x)" for x
    by (auto simp: credit_path_def hot_inv_simps split: option.split)
  have ticked: "ch_replay_window (tick_rx_key_grace x) = ch_replay_window x" "ch_active_path (tick_rx_key_grace x) = ch_active_path x"
    "ch_path_validator (tick_rx_key_grace x) = ch_path_validator x" "ch_control_queue (tick_rx_key_grace x) = ch_control_queue x"
    "ch_state (tick_rx_key_grace x) = ch_state x" "ch_gen_counter (tick_rx_key_grace x) = ch_gen_counter x"
    "hot_inv (tick_rx_key_grace x) = hot_inv x" "ch_loss_detector (tick_rx_key_grace x) = ch_loss_detector x"
    "ch_next_packet_number (tick_rx_key_grace x) = ch_next_packet_number x"
    "ch_anti_amplification (tick_rx_key_grace x) = ch_anti_amplification x" for x :: "'a connection_hot"
    by (simp_all add: tick_rx_key_grace_def Let_def hot_inv_simps)
  define w where "w = ReplayWindow_commit (ch_replay_window (gc_hot c)) (ph_packet_number hdr)"
  define x where "x = (gc_hot c)\<lparr> ch_replay_window := w \<rparr>"
  obtain o' l where hot: "gc_hot (rx_authenticated src len hdr now c) =
      (tick_rx_key_grace (credit_path src len x))\<lparr> ch_last_rx_time := Some now, ch_owd := o', ch_last_owd_emit := l \<rparr>"
  proof -
    obtain e smp where e: "OwdEstimator_on_packet (ph_timestamp_micros hdr) now (ch_owd (tick_rx_key_grace (credit_path src len x))) = (e, smp)" by fastforce
    let ?h = "(tick_rx_key_grace (credit_path src len x))\<lparr> ch_last_rx_time := Some now, ch_owd := e \<rparr>"
    have "gc_hot (rx_authenticated src len hdr now c) = ?h\<lparr> ch_last_owd_emit := now \<rparr> \<or> gc_hot (rx_authenticated src len hdr now c) = ?h"
      by (simp add: rx_authenticated_def Let_def e x_def [symmetric] w_def [symmetric])
    then show thesis
      using that [where o' = e and l = now] that [where o' = e and l = "ch_last_owd_emit ?h"] by auto
  qed
  have wf: "hot_inv x" if "hot_inv (gc_hot c)"
    using that sees_commit by (fastforce simp: x_def w_def hot_inv_simps)
  show "ch_replay_window (gc_hot (rx_authenticated src len hdr now c)) = ReplayWindow_commit (ch_replay_window (gc_hot c)) (ph_packet_number hdr)"
    "ch_gen_counter (gc_hot (rx_authenticated src len hdr now c)) = ch_gen_counter (gc_hot c)"
    "ch_active_path (gc_hot (rx_authenticated src len hdr now c)) = ch_active_path (gc_hot c)"
    "ch_path_validator (gc_hot (rx_authenticated src len hdr now c)) = ch_path_validator (gc_hot c)"
    "ch_control_queue (gc_hot (rx_authenticated src len hdr now c)) = ch_control_queue (gc_hot c)"
    "ch_state (gc_hot (rx_authenticated src len hdr now c)) = ch_state (gc_hot c)"
    "ch_loss_detector (gc_hot (rx_authenticated src len hdr now c)) = ch_loss_detector (gc_hot c)"
    "ch_next_packet_number (gc_hot (rx_authenticated src len hdr now c)) = ch_next_packet_number (gc_hot c)"
    "ch_anti_amplification (gc_hot (rx_authenticated src len hdr now c)) = (if src = ch_active_path (gc_hot c)
       then mark_validated (on_bytes_received len (ch_anti_amplification (gc_hot c))) else ch_anti_amplification (gc_hot c))"
    by (simp_all add: hot fields ticked x_def w_def)
  show "hot_inv (gc_hot (rx_authenticated src len hdr now c))" if "hot_inv (gc_hot c)"
    using wf [OF that] fields(7) [of x] ticked(7) [of "credit_path src len x"] by (simp add: hot hot_inv_simps)
qed

lemma check_backpressure_hot [simp]: "gc_hot (check_backpressure now c) = gc_hot c" "gc_config (check_backpressure now c) = gc_config c"
  by (simp_all add: check_backpressure_def Let_def)

lemma rx_finish_hot:
  "\<exists>t st. gc_hot (fst (rx_finish hdr ecn now s)) = (gc_hot (rx_conn s))\<lparr> ch_ack_tracker := t, ch_state := st \<rparr> \<and>
     (rx_close s = None \<longrightarrow> st = ch_state (gc_hot (rx_conn s)) \<and> snd (rx_finish hdr ecn now s) = Ok (rx_delivered s)) \<and>
     (\<forall>code. rx_close s = Some code \<longrightarrow> st = fst (transition_to (ch_state (gc_hot (rx_conn s))) Closed) \<and>
        snd (rx_finish hdr ecn now s) = Err (ConnectionClosed code))"
  by (cases "rx_close s") (auto simp: rx_finish_def Let_def intro!: exI)

definition rx_start :: "'addr gtp_connection \<Rightarrow> 'addr rx_state" where
  "rx_start c = \<lparr> rx_conn = c, rx_delivered = [], rx_ack_eliciting = False, rx_close = None, rx_path_responses = 0 \<rparr>"

text \<open>The frames a payload holds, up to the first that does not parse.\<close>

definition frames_of :: "bytes \<Rightarrow> frame set" where
  "frames_of plain = {f. Ok f \<in> set (FrameIterator_collect (FrameIterator_new plain))}"

text \<open>The accepted datagram: the loop ends, its state is finished, and the replay window is the committed one.\<close>

lemma rx_payload_result:
  assumes "rx_payload env src hdr len now ecn plain c = (c', r)" and "hot_inv (gc_hot c)" and "ch_gen_counter (gc_hot c) + length plain \<le> u64_max"
  obtains s where "rx_loop env src now (FrameIterator_collect (FrameIterator_new plain)) (rx_start (rx_authenticated src len hdr now c)) = Ok s"
    "rx_finish hdr ecn now s = (c', r)" "hot_inv (gc_hot (rx_conn s))"
    "ch_gen_counter (gc_hot (rx_conn s)) \<le> ch_gen_counter (gc_hot c) + length plain"
    "rx_touches (frames_of plain) src now (rx_authenticated src len hdr now c) (rx_conn s)"
proof -
  let ?rs = "FrameIterator_collect (FrameIterator_new plain)"
  let ?s0 = "rx_start (rx_authenticated src len hdr now c)"
  have len: "length ?rs \<le> length plain" using collect_length [of "FrameIterator_new plain"] by (simp add: FrameIterator_new_def)
  have "\<exists>s. rx_loop env src now ?rs ?s0 = Ok s \<and> hot_inv (gc_hot (rx_conn s)) \<and>
      ch_gen_counter (gc_hot (rx_conn s)) \<le> ch_gen_counter (gc_hot (rx_conn ?s0)) + length ?rs"
    using assms(2,3) len collect_no_panic by (intro rx_loop_ok) (auto simp: rx_start_def rx_authenticated_hot)
  then obtain s where s: "rx_loop env src now ?rs ?s0 = Ok s" "hot_inv (gc_hot (rx_conn s))"
      "ch_gen_counter (gc_hot (rx_conn s)) \<le> ch_gen_counter (gc_hot c) + length plain"
    using len by (auto simp: rx_start_def rx_authenticated_hot)
  moreover have "rx_finish hdr ecn now s = (c', r)"
    using assms(1) s(1) by (simp add: rx_payload_def rx_start_def Let_def)
  moreover have "rx_touches (frames_of plain) src now (rx_conn ?s0) (rx_conn s)" by (rule touched.loop [OF s(1)]) (simp add: frames_of_def)
  ultimately show thesis using that by (simp add: rx_start_def)
qed

lemma authentic_plain_length:
  assumes "aead_ok (env_cipher env)" and "authentic env datagram h = Some (hdr, plain)"
  shows "length plain \<le> length datagram"
proof -
  obtain k buf n where o: "rx_open env h hdr (take k datagram) (drop k datagram) = (buf, Ok n)" "plain = take n buf"
    using assms(2) by (auto simp: authentic_def split: outcome.splits prod.splits if_splits)
  then show ?thesis using rx_open_facts [OF assms(1) o(1)] by auto
qed

section \<open>Properties\<close>

text \<open>Any datagram, accepted or not.\<close>

lemma receive_ok:
  assumes "aead_ok (env_cipher env)" and "hot_inv (gc_hot c)" and "ch_gen_counter (gc_hot c) + length datagram \<le> u64_max"
    and "handle_incoming_datagram_with_ecn env src datagram now ecn c = (c', r)"
  shows "r \<noteq> Panic \<and> hot_inv (gc_hot c')"
proof (cases "ch_state (gc_hot c) = Closed")
  case True
  then show ?thesis using assms(2,4) by (auto simp: handle_incoming_datagram_with_ecn_def)
next
  case open_state: False
  show ?thesis
  proof (cases "authentic env datagram (gc_hot c)")
    case None
    then show ?thesis using handle_rejected [OF assms(1) open_state None, of src now ecn] assms(2,4) by auto
  next
    case (Some hp)
    obtain hdr plain where hp: "hp = (hdr, plain)" by (cases hp)
    have p: "rx_payload env src hdr (length datagram) now ecn plain (on_cold (count_rx (length datagram)) c) = (c', r)"
      using handle_accepted [OF assms(1) open_state] Some hp assms(4) by simp
    have "hot_inv (gc_hot (on_cold (count_rx (length datagram)) c))"
      "ch_gen_counter (gc_hot (on_cold (count_rx (length datagram)) c)) + length plain \<le> u64_max"
      using assms(2,3) authentic_plain_length [OF assms(1)] Some hp by fastforce+
    from rx_payload_result [OF p this] obtain s where s: "rx_finish hdr ecn now s = (c', r)" "hot_inv (gc_hot (rx_conn s))" by blast
    then show ?thesis
      using rx_finish_hot [of hdr ecn now s] by (cases "rx_close s") (auto simp: hot_inv_simps)
  qed
qed

text \<open>
  C3: receiving never panics and keeps the connection well-formed. Whatever bytes arrive from
  whatever address, the pipeline returns a value or a typed error, never a panic of an index, a
  slice or an \<^verbatim>\<open>expect\<close>, and the invariants of all components hold afterwards: exact
  scheduler and in-flight counters, bounded ordered groups, reassembly, duplicate and freshness
  tables, a representable replay window, a congestion window in range and at most two queued path
  responses.
\<close>

theorem receive_total_and_invariant:
  assumes "aead_ok (env_cipher env)" and "hot_inv (gc_hot c)" and "ch_gen_counter (gc_hot c) + length datagram \<le> u64_max"
    and "handle_incoming_datagram_with_ecn env src datagram now ecn c = (c', r)"
  shows "r \<noteq> Panic \<and> hot_inv (gc_hot c')"
  by (rule receive_ok [OF assms])

text \<open>
  C17: a datagram that does not authenticate changes nothing but counters. If its header does not
  parse, names another connection, repeats a packet number or does not open under a current key,
  the receive call returns an error, and the hot state (keys, replay window, queues, paths,
  congestion and recovery state), the configuration and the events are exactly what they were.
\<close>

theorem rejected_datagram_inert:
  assumes "aead_ok (env_cipher env)" and "ch_state (gc_hot c) \<noteq> Closed" and "authentic env datagram (gc_hot c) = None"
    and "handle_incoming_datagram_with_ecn env src datagram now ecn c = (c', r)"
  shows "(\<exists>e. r = Err e) \<and> gc_hot c' = gc_hot c \<and> gc_config c' = gc_config c \<and> gc_event_queue c' = gc_event_queue c \<and>
    gc_last_backpressure c' = gc_last_backpressure c"
  using handle_rejected [OF assms(1-3), of src now ecn] assms(4) by auto

text \<open>What an accepted datagram does to the hot state, in one step.\<close>

lemma receive_touches:
  assumes "aead_ok (env_cipher env)" and "hot_inv (gc_hot c)" and "ch_gen_counter (gc_hot c) + length datagram \<le> u64_max"
    and "ch_state (gc_hot c) \<noteq> Closed" and "authentic env datagram (gc_hot c) = Some (hdr, plain)"
    and "handle_incoming_datagram_with_ecn env src datagram now ecn c = (c', r)"
  obtains c1 t st where "gc_hot c' = (gc_hot c1)\<lparr> ch_ack_tracker := t, ch_state := st \<rparr>"
    "rx_touches (frames_of plain) src now (rx_authenticated src (length datagram) hdr now (on_cold (count_rx (length datagram)) c)) c1"
    "ch_gen_counter (gc_hot c') \<le> ch_gen_counter (gc_hot c) + length datagram"
proof -
  let ?c = "on_cold (count_rx (length datagram)) c"
  have p: "rx_payload env src hdr (length datagram) now ecn plain ?c = (c', r)"
    using handle_accepted [OF assms(1,4)] assms(5,6) by simp
  have "hot_inv (gc_hot ?c)" "ch_gen_counter (gc_hot ?c) + length plain \<le> u64_max"
    using assms(2,3) authentic_plain_length [OF assms(1,5)] by auto
  from rx_payload_result [OF p this] obtain s where s: "rx_finish hdr ecn now s = (c', r)"
    "rx_touches (frames_of plain) src now (rx_authenticated src (length datagram) hdr now ?c) (rx_conn s)"
    "ch_gen_counter (gc_hot (rx_conn s)) \<le> ch_gen_counter (gc_hot ?c) + length plain" by blast
  obtain t st where f: "gc_hot c' = (gc_hot (rx_conn s))\<lparr> ch_ack_tracker := t, ch_state := st \<rparr>"
    using rx_finish_hot [of hdr ecn now s] s(1) by (metis fst_conv)
  have "ch_gen_counter (gc_hot c') \<le> ch_gen_counter (gc_hot c) + length datagram"
    using s(3) authentic_plain_length [OF assms(1,5)] by (simp add: f)
  with f s(2) show thesis by (rule that)
qed

text \<open>
  C27: the connection moves only to an address that answered its challenge. If processing a datagram
  changes the active path, then the datagram was authentic, the new path is the address it came from,
  a challenge to exactly that address was pending and not expired, and the datagram holds a path
  response with the data of that challenge. Nothing is queued for sending except path responses to the
  sender, each echoing a challenge the datagram holds, and only if the sender's address is the active
  path; no more path responses are ever queued than the cap allows.
\<close>

theorem migration_needs_validation:
  assumes "aead_ok (env_cipher env)" and "hot_inv (gc_hot c)" and "ch_gen_counter (gc_hot c) + length datagram \<le> u64_max"
    and "handle_incoming_datagram_with_ecn env src datagram now ecn c = (c', r)"
  shows "(ch_active_path (gc_hot c') \<noteq> ch_active_path (gc_hot c) \<longrightarrow>
      ch_active_path (gc_hot c') = src \<and>
      (\<exists>hdr plain data start. authentic env datagram (gc_hot c) = Some (hdr, plain) \<and>
         Ok (PathResponse data) \<in> set (FrameIterator_collect (FrameIterator_new plain)) \<and>
         pv_pending_challenge (ch_path_validator (gc_hot c)) = Some (src, data, start) \<and>
         duration_since now start \<le> PATH_CHALLENGE_TIMEOUT)) \<and>
    (\<exists>rs. ch_control_queue (gc_hot c') = ch_control_queue (gc_hot c) @ rs \<and>
       (\<forall>f. f \<in> set rs \<longrightarrow> (\<exists>hdr plain d. authentic env datagram (gc_hot c) = Some (hdr, plain) \<and>
          Ok (PathChallenge d) \<in> set (FrameIterator_collect (FrameIterator_new plain)) \<and> f = OutPathResponse d src)) \<and>
       (rs \<noteq> [] \<longrightarrow> ch_active_path (gc_hot c') = src)) \<and>
    length (filter is_out_path_response (ch_control_queue (gc_hot c'))) \<le> MAX_PENDING_PATH_RESPONSES"
proof -
  have cap: "length (filter is_out_path_response (ch_control_queue (gc_hot c'))) \<le> MAX_PENDING_PATH_RESPONSES"
    using receive_ok [OF assms] by (simp add: hot_inv_simps)
  consider (closed) "ch_state (gc_hot c) = Closed" | (rejected) "ch_state (gc_hot c) \<noteq> Closed" "authentic env datagram (gc_hot c) = None"
    | (accepted) hdr plain where "ch_state (gc_hot c) \<noteq> Closed" "authentic env datagram (gc_hot c) = Some (hdr, plain)" by fastforce
  then show ?thesis
  proof cases
    case closed
    then show ?thesis using assms(4) cap by (auto simp: handle_incoming_datagram_with_ecn_def)
  next
    case rejected
    then show ?thesis using handle_rejected [OF assms(1) rejected, of src now ecn] assms(4) cap by auto
  next
    case accepted
    obtain c1 t st where "gc_hot c' = (gc_hot c1)\<lparr> ch_ack_tracker := t, ch_state := st \<rparr>"
      "rx_touches (frames_of plain) src now (rx_authenticated src (length datagram) hdr now (on_cold (count_rx (length datagram)) c)) c1"
      by (rule receive_touches [OF assms(1-3) accepted assms(4)])
    then show ?thesis
      using accepted cap unfolding rx_touches_def path_touched_def queue_touched_def frames_of_def by (auto simp: rx_authenticated_hot)
  qed
qed

text \<open>Witnesses: a fresh connection, a cipher that satisfies the contract, and bytes that are no datagram.\<close>

definition sample_env :: conn_env where
  "sample_env = \<lparr> env_cipher = test_cipher, env_hkdf = (\<lambda>_ _ _ n. replicate n 0), env_cbrt = (\<lambda>x. x) \<rparr>"

lemma sample_env_ok [simp]: "aead_ok (env_cipher sample_env)"
  by (simp add: sample_env_def test_cipher_ok)

lemma build_inv:
  "hot_inv (hot_build cid addr tx rx prev tx_key rx_key tx_iv rx_iv phase valid)"
proof -
  have "cc_wf (ch_cc (hot_build cid addr tx rx prev tx_key rx_key tx_iv rx_iv phase valid))"
    unfolding hot_build_def build_with_config_def Let_def GtpConfig_default_def
    by (simp, rule cc_wf_with_config) (simp_all add: competitive_fps_def u64_modulus_def)
  moreover have "\<exists>S. sees ReplayWindow_new S" using sees_new by blast
  ultimately show ?thesis
    by (simp add: hot_inv_def pending_responses_def hot_build_def build_with_config_def Let_def groups_wf_def mr_wf_new di_wf_new
        StateTable_default_def st_wf_new ld_wf_default with_per_tier_byte_caps_def sched_wf_new)
qed

lemma sample_conn_inv [simp]: "hot_inv (gc_hot sample_conn)"
  by (simp add: sample_conn_def sample_hot_def build_inv)

lemma sample_conn_fields [simp]: "ch_gen_counter (gc_hot sample_conn) = 0"
    "ch_state (gc_hot sample_conn) = Established" "ch_active_path (gc_hot sample_conn) = 1"
  by (simp_all add: sample_conn_def sample_hot_def hot_build_def build_with_config_def)

theorem receive_total_and_invariant_witness:
  "hot_inv (gc_hot (fst (handle_incoming_datagram_with_ecn sample_env 9 [1, 2, 3] 5 0 sample_conn)))"
proof -
  obtain c' r where h: "handle_incoming_datagram_with_ecn sample_env 9 [1, 2, 3] 5 0 sample_conn = (c', r)" by fastforce
  from receive_total_and_invariant [OF sample_env_ok _ _ this] show ?thesis by (simp add: h u64_max_def)
qed

lemma sample_not_authentic: "authentic sample_env [1, 2, 3] h = None"
  by (simp add: authentic_def PacketHeader_decode_def slice_index_def is_long_header_def LONG_HEADER_def Let_def MIN_LONG_HEADER_LEN_def
      MIN_COMMON_HEADER_LEN_def)

theorem rejected_datagram_inert_witness:
  "gc_hot (fst (handle_incoming_datagram_with_ecn sample_env 9 [1, 2, 3] 5 0 sample_conn)) = gc_hot sample_conn"
proof -
  obtain c' r where h: "handle_incoming_datagram_with_ecn sample_env 9 [1, 2, 3] 5 0 sample_conn = (c', r)" by fastforce
  from rejected_datagram_inert [OF sample_env_ok _ sample_not_authentic this] show ?thesis by (simp add: h)
qed

section \<open>Runs of datagrams\<close>

text \<open>
  A datagram took effect if the receive call on an open connection succeeded, or changed the hot state
  or the events. A run of received datagrams collects the packet numbers of those that took effect.
\<close>

definition took_effect :: "'addr gtp_connection \<Rightarrow> 'addr gtp_connection \<times> received_message list result \<Rightarrow> bool" where
  "took_effect c res \<longleftrightarrow> ch_state (gc_hot c) \<noteq> Closed \<and> (\<exists>msgs. snd res = Ok msgs) \<or>
     gc_hot (fst res) \<noteq> gc_hot c \<or> gc_event_queue (fst res) \<noteq> gc_event_queue c"

definition datagram_number :: "bytes \<Rightarrow> u64" where
  "datagram_number datagram = (case PacketHeader_decode datagram of Ok (hdr, _) \<Rightarrow> ph_packet_number hdr | _ \<Rightarrow> 0)"

fun receive_run :: "conn_env \<Rightarrow> ('addr \<times> bytes \<times> monotonic_time \<times> u8) list \<Rightarrow> 'addr gtp_connection \<Rightarrow> 'addr gtp_connection \<times> u64 list" where
  "receive_run env [] c = (c, [])"
| "receive_run env ((src, datagram, now, ecn) # ds) c =
     (let res = handle_incoming_datagram_with_ecn env src datagram now ecn c;
          (c2, pns) = receive_run env ds (fst res)
      in (c2, if took_effect c res then datagram_number datagram # pns else pns))"

lemma rx_payload_replay:
  "ch_replay_window (gc_hot (fst (rx_payload env src hdr len now ecn plain c))) =
     ReplayWindow_commit (ch_replay_window (gc_hot c)) (ph_packet_number hdr)"
proof (cases "rx_loop env src now (FrameIterator_collect (FrameIterator_new plain)) (rx_start (rx_authenticated src len hdr now c))")
  case (Ok s)
  then have "rx_touches UNIV src now (rx_authenticated src len hdr now c) (rx_conn s)" using touched.loop [where F = UNIV, OF Ok] by (simp add: rx_start_def)
  then have "ch_replay_window (gc_hot (rx_conn s)) = ReplayWindow_commit (ch_replay_window (gc_hot c)) (ph_packet_number hdr)"
    by (simp add: rx_touches_def rx_fixed_def rx_authenticated_hot)
  moreover obtain t st where "gc_hot (fst (rx_finish hdr ecn now s)) = (gc_hot (rx_conn s))\<lparr> ch_ack_tracker := t, ch_state := st \<rparr>"
    using rx_finish_hot [of hdr ecn now s] by metis
  ultimately show ?thesis using Ok by (simp add: rx_payload_def rx_start_def Let_def)
qed (simp_all add: rx_payload_def rx_start_def Let_def rx_authenticated_hot)

lemma handle_replay:
  assumes "aead_ok (env_cipher env)" and "sees (ch_replay_window (gc_hot c)) S"
  shows "case (if ch_state (gc_hot c) = Closed then None else authentic env datagram (gc_hot c)) of
      None \<Rightarrow> sees (ch_replay_window (gc_hot (fst (handle_incoming_datagram_with_ecn env src datagram now ecn c)))) S
    | Some (hdr, _) \<Rightarrow> ph_packet_number hdr \<notin> S \<and>
        sees (ch_replay_window (gc_hot (fst (handle_incoming_datagram_with_ecn env src datagram now ecn c)))) (insert (ph_packet_number hdr) S)"
proof (cases "ch_state (gc_hot c) = Closed")
  case True
  then show ?thesis using assms(2) by (simp add: handle_incoming_datagram_with_ecn_def)
next
  case open_state: False
  show ?thesis
  proof (cases "authentic env datagram (gc_hot c)")
    case None
    then show ?thesis using handle_rejected [OF assms(1) open_state None, of src now ecn] assms(2) by auto
  next
    case (Some hp)
    obtain hdr plain where hp: "hp = (hdr, plain)" by (cases hp)
    then have "ReplayWindow_check (ch_replay_window (gc_hot c)) (ph_packet_number hdr) = Ok ()"
      using Some by (auto simp: authentic_def split: outcome.splits prod.splits if_splits)
    then show ?thesis
      using Some hp open_state handle_accepted [OF assms(1) open_state, of datagram hdr plain src now ecn]
        check_iff [OF assms(2)] sees_commit [OF assms(2)] by (simp add: rx_payload_replay)
  qed
qed

text \<open>A datagram takes effect on an open connection exactly when it is authentic.\<close>

lemma effect_authentic:
  assumes "aead_ok (env_cipher env)" and "sees (ch_replay_window (gc_hot c)) S"
  shows "took_effect c (handle_incoming_datagram_with_ecn env src datagram now ecn c) \<longleftrightarrow>
      ch_state (gc_hot c) \<noteq> Closed \<and> authentic env datagram (gc_hot c) \<noteq> None"
    and "authentic env datagram (gc_hot c) = Some (hdr, plain) \<Longrightarrow> datagram_number datagram = ph_packet_number hdr"
proof -
  show "datagram_number datagram = ph_packet_number hdr" if "authentic env datagram (gc_hot c) = Some (hdr, plain)"
    using that by (auto simp: datagram_number_def authentic_def split: outcome.splits prod.splits if_splits)
  consider (closed) "ch_state (gc_hot c) = Closed" | (rejected) "ch_state (gc_hot c) \<noteq> Closed" "authentic env datagram (gc_hot c) = None"
    | (accepted) hdr plain where "ch_state (gc_hot c) \<noteq> Closed" "authentic env datagram (gc_hot c) = Some (hdr, plain)" by fastforce
  then show "took_effect c (handle_incoming_datagram_with_ecn env src datagram now ecn c) \<longleftrightarrow>
      ch_state (gc_hot c) \<noteq> Closed \<and> authentic env datagram (gc_hot c) \<noteq> None"
  proof cases
    case closed
    then show ?thesis by (simp add: took_effect_def handle_incoming_datagram_with_ecn_def)
  next
    case rejected
    then show ?thesis using handle_rejected [OF assms(1) rejected, of src now ecn] by (auto simp: took_effect_def)
  next
    case accepted
    let ?c' = "fst (handle_incoming_datagram_with_ecn env src datagram now ecn c)"
    have "ReplayWindow_check (ch_replay_window (gc_hot c)) (ph_packet_number hdr) = Ok ()"
      using accepted(2) by (auto simp: authentic_def split: outcome.splits prod.splits if_splits)
    moreover have "sees (ch_replay_window (gc_hot ?c')) (insert (ph_packet_number hdr) S)"
      using handle_replay [OF assms, where datagram = datagram and src = src and now = now and ecn = ecn] accepted by simp
    then have "ReplayWindow_check (ch_replay_window (gc_hot ?c')) (ph_packet_number hdr) \<noteq> Ok ()" by (simp add: check_iff)
    ultimately have "gc_hot ?c' \<noteq> gc_hot c" by metis
    then show ?thesis using accepted by (simp add: took_effect_def)
  qed
qed

text \<open>
  C16: no packet number takes effect twice. In any run of received datagrams, from any addresses, at any
  times, in any order, with any duplicates and forgeries between them, the packet numbers of the
  datagrams whose receive call succeeded or changed the hot state or the events are pairwise different
  and different from all accepted before the run, and the replay window remembers them.
\<close>

theorem packets_processed_once:
  assumes "aead_ok (env_cipher env)" and "sees (ch_replay_window (gc_hot c)) S" and "receive_run env ds c = (c', pns)"
  shows "distinct pns \<and> set pns \<inter> S = {} \<and> sees (ch_replay_window (gc_hot c')) (S \<union> set pns)"
  using assms(2,3)
proof (induction ds arbitrary: c S pns)
  case Nil
  then show ?case by simp
next
  case (Cons d ds)
  obtain src datagram now ecn where d: "d = (src, datagram, now, ecn)" by (metis prod_cases4)
  define res where "res = handle_incoming_datagram_with_ecn env src datagram now ecn c"
  obtain rest where rest: "receive_run env ds (fst res) = (c', rest)" "pns = (if took_effect c res then datagram_number datagram # rest else rest)"
    using Cons.prems(2) by (auto simp: d Let_def res_def split: prod.splits)
  note step = handle_replay [OF assms(1) Cons.prems(1), where datagram = datagram and src = src and now = now and ecn = ecn, folded res_def]
    and effect = effect_authentic(1) [OF assms(1) Cons.prems(1), where datagram = datagram and src = src and now = now and ecn = ecn, folded res_def]
  show ?case
  proof (cases "took_effect c res")
    case False
    then have "sees (ch_replay_window (gc_hot (fst res))) S" using step effect by (cases "authentic env datagram (gc_hot c)") (auto split: if_splits)
    then show ?thesis using Cons.IH [OF _ rest(1)] rest(2) False by simp
  next
    case True
    then obtain hdr plain where a: "ch_state (gc_hot c) \<noteq> Closed" "authentic env datagram (gc_hot c) = Some (hdr, plain)" using effect by auto
    then have one: "datagram_number datagram \<notin> S" "sees (ch_replay_window (gc_hot (fst res))) (insert (datagram_number datagram) S)"
      using step effect_authentic(2) [OF assms(1) Cons.prems(1) a(2)] by simp_all
    then show ?thesis using Cons.IH [OF one(2) rest(1)] rest(2) True by (simp add: insert_commute Un_commute)
  qed
qed

section \<open>Witnesses with an authentic datagram\<close>

text \<open>A datagram sealed under the receive key of \<open>sample_conn\<close>, with packet number 1.\<close>

definition sample_datagram :: "frame list \<Rightarrow> bytes" where
  "sample_datagram fs = PacketHeader_bytes (PacketHeader_new_short 7 1 0 0) @ concat (map Frame_bytes fs) @ (3 # replicate 15 0)"

lemma sample_authentic:
  assumes "ch_connection_id h = 7" and "ch_replay_window h = ReplayWindow_new" and "ch_rx_protector h = Aead (new_for_cid [3] [4] 7)" and "\<not> ch_key_phase h"
  shows "authentic sample_env (sample_datagram fs) h = Some (PacketHeader_new_short 7 1 0 0, concat (map Frame_bytes fs))"
proof -
  let ?hdr = "PacketHeader_new_short 7 1 0 0" and ?plain = "concat (map Frame_bytes fs)"
  have flags: "ph_flags ?hdr = 0" "ph_version ?hdr = None" "ph_packet_number ?hdr = 1" "ph_connection_id ?hdr = 7"
    by (simp_all add: PacketHeader_new_short_def set_long_header_def)
  have "header_wf ?hdr" by (simp add: header_wf_def PacketHeader_new_short_def set_long_header_def is_long_header_def min_header_len_def MIN_COMMON_HEADER_LEN_def)
  then have dec: "PacketHeader_decode (sample_datagram fs) = Ok (?hdr, length (PacketHeader_bytes ?hdr))"
    unfolding sample_datagram_def by (rule PacketHeader_decode_bytes)
  have "\<not> key_phase (ph_flags ?hdr)" by (simp add: flags key_phase_def)
  then have "rx_open sample_env h ?hdr (PacketHeader_bytes ?hdr) (?plain @ (3 # replicate 15 0)) = (?plain @ (3 # replicate 15 0), Ok (length ?plain))"
    using assms(3,4) by (simp add: rx_open_def rx_attempt_def flags sample_env_def AeadProtector_open_def check_binding_def new_for_cid_def AEAD_TAG_LEN_def test_cipher_def Let_def)
  moreover have "ReplayWindow_check ReplayWindow_new 1 = Ok ()" by (simp add: ReplayWindow_check_def ReplayWindow_new_def)
  ultimately show ?thesis
    using assms(1,2) by (simp add: authentic_def dec flags del: length_PacketHeader_bytes) (simp add: sample_datagram_def)
qed

lemma sample_conn_keys:
  "ch_connection_id (gc_hot sample_conn) = 7" "ch_replay_window (gc_hot sample_conn) = ReplayWindow_new"
  "ch_rx_protector (gc_hot sample_conn) = Aead (new_for_cid [3] [4] 7)" "\<not> ch_key_phase (gc_hot sample_conn)"
  by (simp_all add: sample_conn_def sample_hot_def hot_build_def build_with_config_def)

text \<open>A datagram and its duplicate: one packet number.\<close>

theorem packets_processed_once_witness:
  "snd (receive_run sample_env [(9, sample_datagram [Ping 5], 5, 0), (9, sample_datagram [Ping 5], 6, 0)] sample_conn) = [1]"
proof -
  let ?d = "sample_datagram [Ping 5]"
  obtain c' pns where r: "receive_run sample_env [(9, ?d, 5, 0), (9, ?d, 6, 0)] sample_conn = (c', pns)" by fastforce
  have new: "sees (ch_replay_window (gc_hot sample_conn)) {}" by (simp add: sample_conn_keys sees_new)
  have a: "authentic sample_env ?d (gc_hot sample_conn) = Some (PacketHeader_new_short 7 1 0 0, concat (map Frame_bytes [Ping 5]))"
    by (rule sample_authentic) (rule sample_conn_keys)+
  have "took_effect sample_conn (handle_incoming_datagram_with_ecn sample_env 9 ?d 5 0 sample_conn)"
    using effect_authentic(1) [OF sample_env_ok new, of 9 ?d 5 0] a by simp
  moreover have "datagram_number ?d = 1" using effect_authentic(2) [OF sample_env_ok new a] by (simp add: PacketHeader_new_short_def)
  ultimately have "pns = [1] \<or> pns = [1, 1]" using r by (auto simp: Let_def split: if_splits)
  then show ?thesis using packets_processed_once [OF sample_env_ok new r] r by auto
qed

text \<open>A connection that has challenged address 9, and the answer from there: it moves.\<close>

definition challenged_conn :: "nat gtp_connection" where
  "challenged_conn = on_hot (\<lambda>h. h\<lparr> ch_path_validator := \<lparr> pv_pending_challenge = Some (9, replicate 8 6, 4) \<rparr> \<rparr>) sample_conn"

lemma challenged_conn_keys:
  "ch_connection_id (gc_hot challenged_conn) = 7" "ch_replay_window (gc_hot challenged_conn) = ReplayWindow_new"
  "ch_rx_protector (gc_hot challenged_conn) = Aead (new_for_cid [3] [4] 7)" "\<not> ch_key_phase (gc_hot challenged_conn)"
  using sample_conn_keys by (simp_all add: challenged_conn_def)

lemma challenged_conn_moves:
  "ch_active_path (gc_hot (fst (handle_incoming_datagram_with_ecn sample_env 9 (sample_datagram [PathResponse (replicate 8 6)]) 5 0 challenged_conn))) = 9"
proof -
  let ?f = "PathResponse (replicate 8 6)" and ?hdr = "PacketHeader_new_short 7 1 0 0"
  let ?c = "rx_authenticated 9 (length (sample_datagram [?f])) ?hdr 5 (on_cold (count_rx (length (sample_datagram [?f]))) challenged_conn)"
  have "FrameIterator_collect (FrameIterator_new (concat (map Frame_bytes [?f]))) = map (\<lambda>f. Ok (frame_canon f)) [?f]"
    using collect_frames [of "[?f]" "[]"] by (simp add: FrameIterator_new_def payload_wf_def)
  then have frames: "FrameIterator_collect (FrameIterator_new (concat (map Frame_bytes [?f]))) = [Ok ?f]" by simp
  obtain s where s: "rx_loop sample_env 9 5 [Ok ?f] (rx_start ?c) = Ok s" "rx_conn s = rx_path_response 9 (replicate 8 6) 5 ?c"
    by (simp add: rx_frame_def rx_start_def on_conn_def)
  have "pv_pending_challenge (ch_path_validator (gc_hot ?c)) = Some (9, replicate 8 6, 4)" "ch_active_path (gc_hot ?c) = 1"
    by (simp_all add: rx_authenticated_hot challenged_conn_def)
  then have "ch_active_path (gc_hot (rx_conn s)) = 9"
    by (simp add: s(2) rx_path_response_def validate_response_def migrate_def Let_def duration_since_def PATH_CHALLENGE_TIMEOUT_def Duration_from_secs_def
        sat_mul64_def sat_sub_def u64_max_def)
  moreover have "fst (handle_incoming_datagram_with_ecn sample_env 9 (sample_datagram [?f]) 5 0 challenged_conn) = fst (rx_finish ?hdr 0 5 s)"
    using handle_accepted [OF sample_env_ok _ sample_authentic [OF challenged_conn_keys, of "[?f]"], where src = 9 and now = 5 and ecn = 0] s(1) frames
    by (simp add: rx_payload_def rx_start_def challenged_conn_def Let_def)
  moreover obtain t st where "gc_hot (fst (rx_finish ?hdr 0 5 s)) = (gc_hot (rx_conn s))\<lparr> ch_ack_tracker := t, ch_state := st \<rparr>"
    using rx_finish_hot [of ?hdr 0 5 s] by metis
  ultimately show ?thesis by simp
qed

theorem migration_needs_validation_witness:
  "\<exists>c' r plain start. handle_incoming_datagram_with_ecn sample_env 9 (sample_datagram [PathResponse (replicate 8 6)]) 5 0 challenged_conn = (c', r) \<and>
     ch_active_path (gc_hot c') = 9 \<and> Ok (PathResponse (replicate 8 6)) \<in> set (FrameIterator_collect (FrameIterator_new plain)) \<and>
     pv_pending_challenge (ch_path_validator (gc_hot challenged_conn)) = Some (9, replicate 8 6, start)"
proof -
  let ?d = "sample_datagram [PathResponse (replicate 8 6)]"
  obtain c' r where h: "handle_incoming_datagram_with_ecn sample_env 9 ?d 5 0 challenged_conn = (c', r)" by fastforce
  have inv: "hot_inv (gc_hot challenged_conn)" using sample_conn_inv by (simp add: challenged_conn_def hot_inv_simps)
  have len: "ch_gen_counter (gc_hot challenged_conn) + length ?d \<le> u64_max"
    by (simp add: challenged_conn_def sample_datagram_def Frame_bytes_def u64_max_def PacketHeader_new_short_def min_header_len_def
        MIN_COMMON_HEADER_LEN_def MIN_LONG_HEADER_LEN_def)
  have "ch_active_path (gc_hot c') = 9" using challenged_conn_moves h by simp
  moreover have "ch_active_path (gc_hot challenged_conn) = 1" by (simp add: challenged_conn_def)
  ultimately show ?thesis using migration_needs_validation [OF sample_env_ok inv len h] h by (fastforce simp: challenged_conn_def)
qed

end
