(* ===== verification/Conn_Tx_Laws.thy ===== *)
theory Conn_Tx_Laws
  imports Conn_Tx Conn_Rx_Laws Ack_Exchange
begin

text \<open>
  Laws of the transmit pipeline. A packet under assembly holds a list of frames, and every step of
  the assembly extends the list or leaves it; what was taken from the control queue and from the
  scheduler for a datagram that is not sent goes back exactly where it was.
\<close>

section \<open>Packets hold frames\<close>

definition frame_ok :: "frame \<Rightarrow> bool" where
  "frame_ok f \<longleftrightarrow> frame_wf f \<and> pad_in_range f"

definition holds_frames :: "packet_header \<Rightarrow> nat \<Rightarrow> frame list \<Rightarrow> packet_builder \<Rightarrow> bool" where
  "holds_frames h n fs b \<longleftrightarrow> builder_wf b \<and> builder_payload b = concat (map Frame_bytes fs) \<and> pb_header b = mark_acks fs h \<and>
     length (pb_buf b) = n \<and> (\<forall>f \<in> set fs. frame_ok f \<and> frame_sendable f)"

lemma mark_acks_snoc:
  "mark_acks (fs @ [f]) h = (if is_Ack_frame f
     then (mark_acks fs h)\<lparr>ph_flags := set_ack_present (ph_flags (mark_acks fs h)) True\<rparr> else mark_acks fs h)"
  by (auto simp: mark_acks_def set_ack_present_idem)

lemma holds_new: "PacketBuilder_new buf h = Ok b \<Longrightarrow> holds_frames h (length buf) [] b"
proof -
  assume new: "PacketBuilder_new buf h = Ok b"
  then have "pb_buf b = buf" by (auto simp: PacketBuilder_new_def Let_def split: if_splits)
  then show ?thesis using PacketBuilder_new_OkD [OF new] by (simp add: holds_frames_def mark_acks_def)
qed

abbreviation frames_size :: "frame list \<Rightarrow> nat" where
  "frames_size fs \<equiv> length (concat (map Frame_bytes fs))"

lemma holds_lengths:
  assumes "holds_frames h n fs b"
  shows "pb_header_len b = min_header_len (ph_flags h)" and "pb_payload_len b = frames_size fs"
    and "min_header_len (ph_flags h) + frames_size fs \<le> n"
proof -
  have wf: "builder_wf b" and hb: "pb_header b = mark_acks fs h" "builder_payload b = concat (map Frame_bytes fs)" "length (pb_buf b) = n"
    using assms by (simp_all add: holds_frames_def)
  have "is_long_header (ph_flags (mark_acks fs h)) = is_long_header (ph_flags h)" by (simp add: mark_acks_def)
  then show h: "pb_header_len b = min_header_len (ph_flags h)" using wf hb(1) by (simp add: builder_wf_def min_header_len_def)
  show p: "pb_payload_len b = frames_size fs"
    using wf arg_cong [OF hb(2), of length] by (auto simp: builder_payload_def builder_wf_def min_def split: if_splits)
  show "min_header_len (ph_flags h) + frames_size fs \<le> n" using wf h p hb(3) by (simp add: builder_wf_def)
qed

lemma append_holds:
  assumes "holds_frames h n fs b" and "frame_ok f"
  obtains b' where "PacketBuilder_append_frame b f = (b', Ok ())" and "holds_frames h n (fs @ [f]) b'"
  | b' e where "PacketBuilder_append_frame b f = (b', Err e)" and "holds_frames h n fs b'"
      and "frame_sendable f \<longrightarrow> n < min_header_len (ph_flags h) + frames_size fs + length (Frame_bytes f)"
proof -
  let ?off = "pb_header_len b + pb_payload_len b"
  have wf: "builder_wf b" and f: "frame_wf f" "pad_in_range f" and len: "length (pb_buf b) = n"
    using assms by (simp_all add: holds_frames_def frame_ok_def)
  have off: "?off \<le> length (pb_buf b)" using wf by (simp add: builder_wf_def)
  obtain b' r where app: "PacketBuilder_append_frame b f = (b', r)" by fastforce
  show thesis
  proof (cases r)
    case (Ok u)
    note ok = append_frame_Ok [OF wf f app [unfolded Ok]]
    have "length (pb_buf b') = n"
      using app off len by (auto simp: PacketBuilder_append_frame_def Frame_encode_eq [OF f] Let_def split: if_splits)
    then have "holds_frames h n (fs @ [f]) b'"
      using ok assms by (simp add: holds_frames_def mark_acks_snoc)
    with that(1) app Ok show ?thesis by simp
  next
    case (Err e)
    have "pb_header b' = pb_header b" "pb_header_len b' = pb_header_len b" "pb_payload_len b' = pb_payload_len b"
      "length (pb_buf b') = n" "take ?off (pb_buf b') = take ?off (pb_buf b)"
      using app off len unfolding Err
      by (auto simp: PacketBuilder_append_frame_def Frame_encode_eq [OF f] Let_def split: if_splits)
    then have "holds_frames h n fs b'"
      using assms(1) len by (auto simp: holds_frames_def builder_wf_def builder_payload_def take_drop add.commute)
    moreover have "frame_sendable f \<longrightarrow> n < min_header_len (ph_flags h) + frames_size fs + length (Frame_bytes f)"
      using app off len holds_lengths [OF assms(1)] unfolding Err
      by (auto simp: PacketBuilder_append_frame_def Frame_encode_eq [OF f] Let_def Frame_bytes_def split: if_splits)
    ultimately show ?thesis using that(2) app Err by blast
  next
    case Panic
    then show ?thesis using append_frame_no_panic [OF wf f] app by simp
  qed
qed

section \<open>The acknowledgement and the control queue\<close>

lemma peek_ack_ok: "peek_ack_frame now t = Some f \<Longrightarrow> frame_ok f \<and> is_Ack_frame f"
  by (auto simp: peek_ack_frame_def frame_ok_def Let_def ack_ranges_length MAX_ACK_RANGES_def split: option.splits)

lemma attach_ack_result:
  assumes "holds_frames h n fs (tp_builder p)"
  shows "\<exists>acks b. attach_ack should now hot p = Ok (p\<lparr> tp_builder := b, tp_ack_appended := (tp_ack_appended p \<or> acks \<noteq> []) \<rparr>) \<and>
    holds_frames h n (fs @ acks) b \<and> (acks = [] \<or> should \<and> (\<exists>f. acks = [f] \<and> peek_ack_frame now (ch_ack_tracker hot) = Some f))"
proof (cases "should \<and> \<not> directed_ahead hot \<and> peek_ack_frame now (ch_ack_tracker hot) \<noteq> None")
  case True
  then obtain f where f: "peek_ack_frame now (ch_ack_tracker hot) = Some f" by blast
  from append_holds [OF assms conjunct1 [OF peek_ack_ok [OF f]]] show ?thesis
  proof cases
    case (1 b')
    then show ?thesis using True f by (intro exI [of _ "[f]"] exI [of _ b']) (simp add: attach_ack_def)
  next
    case (2 b' e)
    then show ?thesis using True f by (intro exI [of _ "[]"] exI [of _ b']) (simp add: attach_ack_def)
  qed
next
  case False
  then have "attach_ack should now hot p = Ok p" by (auto simp: attach_ack_def)
  then show ?thesis using assms by (intro exI [of _ "[]"] exI [of _ "tp_builder p"]) simp
qed

definition control_ok :: "'addr outgoing_control_frame \<Rightarrow> bool" where
  "control_ok ctrl \<longleftrightarrow> frame_ok (build_control_frame ctrl)"

lemma drain_controls_result:
  assumes "holds_frames h n fs (tp_builder p)" and "\<forall>ctrl \<in> set queue. control_ok ctrl"
  shows "\<exists>rest ds b od. drain_controls active queue p = Ok (rest, p\<lparr> tp_builder := b, tp_ack_eliciting := (tp_ack_eliciting p \<or> ds \<noteq> []),
      tp_override_dest := od, tp_close_drained := (tp_close_drained p \<or> list_ex is_out_close ds),
      tp_drained_controls := tp_drained_controls p @ ds \<rparr>) \<and>
    queue = ds @ rest \<and> holds_frames h n (fs @ map build_control_frame ds) b \<and>
    (od = tp_override_dest p \<or> (\<exists>ctrl \<in> set queue. directed_away active ctrl \<and> od = control_dest ctrl)) \<and>
    (ds = [] \<and> queue \<noteq> [] \<and> tp_override_dest p = None \<longrightarrow>
       n < min_header_len (ph_flags h) + frames_size fs + length (Frame_bytes (build_control_frame (hd queue))))"
  using assms
proof (induction queue arbitrary: p fs)
  case Nil
  then show ?case by (intro exI [of _ "[]"] exI [of _ "tp_builder p"]) auto
next
  case (Cons ctrl queue)
  show ?case
  proof (cases "tp_override_dest p = None")
    case False
    then show ?thesis
      using Cons.prems by (intro exI [of _ "ctrl # queue"] exI [of _ "[]"] exI [of _ "tp_builder p"] exI [of _ "tp_override_dest p"]) auto
  next
    case True
    define p1 where "p1 = (if directed_away active ctrl then p\<lparr> tp_override_dest := control_dest ctrl \<rparr> else p)"
    have p1: "tp_builder p1 = tp_builder p" "tp_override_dest p1 = tp_override_dest p \<or> directed_away active ctrl \<and> tp_override_dest p1 = control_dest ctrl"
      by (simp_all add: p1_def)
    have ok: "frame_ok (build_control_frame ctrl)" using Cons.prems(2) by (simp add: control_ok_def)
    from append_holds [OF Cons.prems(1) ok] show ?thesis
    proof cases
      case (1 b')
      let ?p2 = "p1\<lparr> tp_builder := b', tp_ack_eliciting := True, tp_close_drained := (tp_close_drained p1 \<or> is_out_close ctrl),
        tp_drained_controls := tp_drained_controls p1 @ [ctrl] \<rparr>"
      have "holds_frames h n (fs @ [build_control_frame ctrl]) (tp_builder ?p2)" using 1(2) by simp
      moreover have "\<forall>ctrl \<in> set queue. control_ok ctrl" using Cons.prems(2) by simp
      ultimately obtain rest ds b od where
        r: "drain_controls active queue ?p2 = Ok (rest, ?p2\<lparr> tp_builder := b, tp_ack_eliciting := (tp_ack_eliciting ?p2 \<or> ds \<noteq> []),
            tp_override_dest := od, tp_close_drained := (tp_close_drained ?p2 \<or> list_ex is_out_close ds),
            tp_drained_controls := tp_drained_controls ?p2 @ ds \<rparr>)"
          "queue = ds @ rest" "holds_frames h n ((fs @ [build_control_frame ctrl]) @ map build_control_frame ds) b"
          "od = tp_override_dest ?p2 \<or> (\<exists>ctrl \<in> set queue. directed_away active ctrl \<and> od = control_dest ctrl)"
        using Cons.IH [of "fs @ [build_control_frame ctrl]" ?p2] by blast
      have "drain_controls active (ctrl # queue) p = drain_controls active queue ?p2"
        using True 1(1) by (simp add: p1_def Let_def)
      moreover have "od = tp_override_dest p \<or> (\<exists>ctrl' \<in> set (ctrl # queue). directed_away active ctrl' \<and> od = control_dest ctrl')"
        using r(4) p1(2) by auto
      ultimately show ?thesis
        using r(1-3) by (intro exI [of _ rest] exI [of _ "ctrl # ds"] exI [of _ b] exI [of _ od]) (simp add: p1_def)
    next
      case (2 b' e)
      have "drain_controls active (ctrl # queue) p = Ok (ctrl # queue, p1\<lparr> tp_builder := b' \<rparr>)"
        using True 2(1) by (simp add: p1_def Let_def)
      moreover have "frame_sendable (build_control_frame ctrl)" by (cases ctrl) simp_all
      then have "n < min_header_len (ph_flags h) + frames_size fs + length (Frame_bytes (build_control_frame ctrl))" using 2(3) by blast
      ultimately show ?thesis
        using 2(2) p1(2)
        by (intro exI [of _ "ctrl # queue"] exI [of _ "[]"] exI [of _ b'] exI [of _ "tp_override_dest p1"]) (auto simp: p1_def)
    qed
  qed
qed

section \<open>The scheduler\<close>

abbreviation item_tier :: "schedulable_item \<Rightarrow> nat" where
  "item_tier i \<equiv> tier_index (si_priority i)"

abbreviation of_tier :: "nat \<Rightarrow> schedulable_item list \<Rightarrow> schedulable_item list" where
  "of_tier t items \<equiv> filter (\<lambda>i. item_tier i = t) items"

definition fresh_queues :: "monotonic_time \<Rightarrow> game_scheduler \<Rightarrow> bool" where
  "fresh_queues now s \<longleftrightarrow> (\<forall>t < 5. \<forall>i \<in> set (gs_queues s t). \<not> is_expired i now)"

text \<open>\<open>s'\<close> is \<open>s\<close> with \<open>items\<close> taken from the fronts of their tiers.\<close>

definition taken :: "game_scheduler \<Rightarrow> schedulable_item list \<Rightarrow> game_scheduler \<Rightarrow> bool" where
  "taken s items s' \<longleftrightarrow> sched_wf s' \<and> caps_of s' = caps_of s \<and> (\<forall>t < 5. gs_queues s t = of_tier t items @ gs_queues s' t)"

lemma tier_index_less [simp]: "tier_index p < 5"
  by (cases p) simp_all

lemma caps_pop: "caps_of (fst (pop_next budget now s)) = caps_of s"
  using caps_step [OF step_pop] by (metis prod.collapse)

lemma pop_next_taken:
  assumes "sched_wf s" and "fresh_queues now s" and "pop_next budget now s = (s', r)"
  shows "taken s (case r of None \<Rightarrow> [] | Some i \<Rightarrow> [i]) s' \<and> fresh_queues now s' \<and>
    (\<forall>i. r = Some i \<longrightarrow> size_bytes i \<le> budget \<and> \<not> is_expired i now)"
proof -
  note pop = pop_next_result [OF assms(1,3)]
  have q: "gs_queues s t = of_tier t (case r of None \<Rightarrow> [] | Some i \<Rightarrow> [i]) @ gs_queues s' t" if "t < 5" for t
  proof -
    obtain d where d: "\<forall>i \<in> set d. is_expired i now"
      "gs_queues s t = d @ (case r of Some i \<Rightarrow> if item_tier i = t then i # gs_queues s' t else gs_queues s' t | None \<Rightarrow> gs_queues s' t)"
      using pop unfolding tier_served_def by blast
    have "d = []"
    proof (rule ccontr)
      assume "d \<noteq> []"
      then have "hd d \<in> set d" "hd d \<in> set (gs_queues s t)" using d(2) by simp_all
      then show False using d(1) assms(2) that by (auto simp: fresh_queues_def)
    qed
    then show ?thesis using d(2) by (auto split: option.splits)
  qed
  then have "fresh_queues now s'" using assms(2) by (simp add: fresh_queues_def)
  moreover have "caps_of s' = caps_of s" using caps_pop [of budget now s] assms(3) by simp
  ultimately show ?thesis using pop q by (simp add: taken_def)
qed

lemma taken_trans: "taken s xs s1 \<Longrightarrow> taken s1 ys s2 \<Longrightarrow> taken s (xs @ ys) s2"
  by (simp add: taken_def)

lemma taken_Nil: "sched_wf s \<Longrightarrow> taken s [] s"
  by (simp add: taken_def)

lemma queue_size_filter_le: "queue_size (filter P q) \<le> queue_size q"
  using queue_size_filter [of P q] by simp

text \<open>What was taken last fits back in front.\<close>

lemma requeue_last:
  assumes "sched_wf s" and "taken s (items @ [i]) s'" and "\<not> is_expired i now"
  shows "requeue i now s' = (push_item push_front i s', Ok ()) \<and> taken s items (push_item push_front i s')"
proof -
  let ?t = "item_tier i"
  have t: "?t < 5" by simp
  have ok: "tier_ok s ?t" "tier_ok s' ?t" and wf: "sched_wf s'" and caps: "caps_of s' = caps_of s"
    and q: "gs_queues s ?t = of_tier ?t items @ i # gs_queues s' ?t"
    using assms(1,2) t unfolding taken_def sched_wf_def sched_base_def by auto
  have "queue_size (gs_queues s ?t) \<le> gs_max_queue_bytes_per_tier s ?t" "length (gs_queues s ?t) \<le> gs_max_queue_items_per_tier s"
    using ok(1) unfolding tier_ok_def by simp_all
  then have "size_bytes i + queue_size (gs_queues s' ?t) \<le> gs_max_queue_bytes_per_tier s' ?t"
    "Suc (length (gs_queues s' ?t)) \<le> gs_max_queue_items_per_tier s'"
    using caps by (simp_all add: q caps_of_def)
  then have room: "gs_queue_bytes s' ?t + size_bytes i \<le> gs_max_queue_bytes_per_tier s' ?t"
    "gs_queue_items s' ?t + 1 \<le> gs_max_queue_items_per_tier s'"
    using ok(2) unfolding tier_ok_def by (simp_all only: add.commute Suc_eq_plus1)
  then have "admission_error i now s' = None" using assms(3) by (simp add: admission_None)
  moreover have "gs_queues (push_item push_front i s') = (gs_queues s')(?t := i # gs_queues s' ?t)"
    by (simp add: push_item_def push_front_def Let_def)
  ultimately show ?thesis
    using push_item_wf [OF wf place_ok_push(2) room] assms(2) by (simp add: requeue_def taken_def)
qed

lemma requeue_popped_back:
  assumes "sched_wf s" and "taken s items s'" and "\<forall>i \<in> set items. \<not> is_expired i now"
  shows "\<exists>s2. requeue_popped now items (s', k) = (s2, k) \<and> taken s [] s2"
  using assms(2,3)
proof (induction items arbitrary: s' rule: rev_induct)
  case Nil
  then show ?case by (simp add: requeue_popped_def)
next
  case (snoc i items)
  have "\<not> is_expired i now" using snoc.prems(2) by simp
  note undo = requeue_last [OF assms(1) snoc.prems(1) this]
  then have "requeue_popped now (items @ [i]) (s', k) = requeue_popped now items (push_item push_front i s', k)"
    by (simp add: requeue_popped_def requeue_one_def)
  then show ?case using snoc.IH [of "push_item push_front i s'"] undo snoc.prems(2) by simp
qed

lemma requeue_controls_eq: "requeue_controls queue drained = drained @ queue"
  unfolding requeue_controls_def by (induction drained arbitrary: queue rule: rev_induct) (simp_all add: push_front_def)

lemma item_frame_ok [simp]: "frame_ok (item_frame item)"
  by (simp add: frame_ok_def item_frame_def split: message_class.split)

lemma fill_data_result:
  assumes "holds_frames h n fs (tp_builder p)" and "sched_wf s" and "fresh_queues now s"
  shows "\<exists>s' items b. fill_data budget now s k p = Ok (s', k, p\<lparr> tp_builder := b,
      tp_retransmittables := tp_retransmittables p @ concat (map item_records items),
      tp_ack_eliciting := (tp_ack_eliciting p \<or> items \<noteq> []), tp_popped := tp_popped p @ items \<rparr>) \<and>
    holds_frames h n (fs @ map item_frame items) b \<and> taken s items s' \<and>
    (\<forall>i \<in> set items. \<not> is_expired i now \<and> size_bytes i \<le> budget) \<and> (tp_override_dest p \<noteq> None \<longrightarrow> items = [])"
  using assms
proof (induction budget now s k p arbitrary: fs rule: fill_data.induct)
  case (1 budget now s k p)
  let ?b = "min budget (PacketBuilder_remaining_capacity (tp_builder p))"
  show ?case
  proof (cases "64 < PacketBuilder_remaining_capacity (tp_builder p) \<and> tp_override_dest p = None")
    case False
    then have "fill_data budget now s k p = Ok (s, k, p)" by (subst fill_data.simps) auto
    then show ?thesis
      using "1.prems" by (intro exI [of _ s] exI [of _ "[]"] exI [of _ "tp_builder p"]) (simp add: taken_Nil)
  next
    case more: True
    obtain s1 r where pop: "pop_next ?b now s = (s1, r)" by fastforce
    note pt = pop_next_taken [OF "1.prems"(2,3) pop]
    show ?thesis
    proof (cases r)
      case None
      then have "fill_data budget now s k p = Ok (s1, k, p)" using more pop by (subst fill_data.simps) simp
      then show ?thesis
        using "1.prems" pt None by (intro exI [of _ s1] exI [of _ "[]"] exI [of _ "tp_builder p"]) simp
    next
      case (Some item)
      have item: "\<not> is_expired item now" "size_bytes item \<le> budget" and one: "taken s ([] @ [item]) s1" and f1: "fresh_queues now s1"
        using pt Some by simp_all
      from append_holds [OF "1.prems"(1) item_frame_ok] show ?thesis
      proof (cases rule: append_holds [OF "1.prems"(1) item_frame_ok [of item]])
        case (1 b)
        let ?p = "p\<lparr> tp_builder := b, tp_retransmittables := tp_retransmittables p @ item_records item, tp_ack_eliciting := True,
          tp_popped := tp_popped p @ [item] \<rparr>"
        have enc: "encode_scheduler_item item (tp_builder p) (tp_retransmittables p) = (b, tp_retransmittables p @ item_records item, Ok ())"
          using 1(1) by (simp add: encode_scheduler_item_def)
        have "fill_data budget now s k p = fill_data budget now s1 k ?p"
          using more pop Some enc by (subst fill_data.simps) simp
        moreover obtain s' items b' where r: "fill_data budget now s1 k ?p = Ok (s', k, ?p\<lparr> tp_builder := b',
            tp_retransmittables := tp_retransmittables ?p @ concat (map item_records items),
            tp_ack_eliciting := (tp_ack_eliciting ?p \<or> items \<noteq> []), tp_popped := tp_popped ?p @ items \<rparr>)"
          "holds_frames h n ((fs @ [item_frame item]) @ map item_frame items) b'" "taken s1 items s'"
          "\<forall>i \<in> set items. \<not> is_expired i now \<and> size_bytes i \<le> budget"
          using "1.IH" [OF more pop [symmetric] Some enc [symmetric] refl, of _ "fs @ [item_frame item]"] 1(2) one f1 unfolding taken_def
          by (auto simp: taken_def)
        ultimately show ?thesis
          using taken_trans [OF one r(3)] item more
          by (intro exI [of _ s'] exI [of _ "item # items"] exI [of _ b']) simp
      next
        case (2 b e)
        then have enc: "encode_scheduler_item item (tp_builder p) (tp_retransmittables p) = (b, tp_retransmittables p, Err BufferOverflow)"
          by (simp add: encode_scheduler_item_def)
        note undo = requeue_last [OF "1.prems"(2) one item(1)]
        have "fill_data budget now s k p = Ok (push_item push_front item s1, k, p\<lparr> tp_builder := b \<rparr>)"
          using more pop Some enc undo by (subst fill_data.simps) (simp add: requeue_one_def)
        then show ?thesis
          using 2(2) undo by (intro exI [of _ "push_item push_front item s1"] exI [of _ "[]"] exI [of _ b]) simp
      qed
    qed
  qed
qed

section \<open>Probe timeout and housekeeping\<close>

lemma tx_pto_hot:
  "\<exists>ld cc s. gc_hot (tx_pto now c) = (gc_hot c)\<lparr> ch_loss_detector := ld, ch_cc := cc, ch_scheduler := s \<rparr> \<and>
     (ld_wf (ch_loss_detector (gc_hot c)) \<longrightarrow> ld_wf ld \<and> inflight_scan ld \<le> inflight_scan (ch_loss_detector (gc_hot c)) \<and>
        set (ld_sent_packets ld) \<subseteq> set (ld_sent_packets (ch_loss_detector (gc_hot c)))) \<and>
     (cc_wf (ch_cc (gc_hot c)) \<longrightarrow> cc_wf cc) \<and> (sched_wf (ch_scheduler (gc_hot c)) \<longrightarrow> sched_wf s)"
proof (cases "pto_expired now c")
  case False
  then have "tx_pto now c = c" by (simp add: tx_pto_def)
  then show ?thesis by (intro exI [of _ "ch_loss_detector (gc_hot c)"] exI [of _ "ch_cc (gc_hot c)"] exI [of _ "ch_scheduler (gc_hot c)"]) simp
next
  case True
  obtain ld le where t: "LossDetector_on_timeout (ch_loss_detector (gc_hot c)) = (ld, le)" by fastforce
  define cc where "cc = (if PERSISTENT_CONGESTION_PTO_COUNT \<le> ld_pto_count ld then Cubic_on_timeout now (ch_cc (gc_hot c)) else ch_cc (gc_hot c))"
  define c3 where "c3 = push_event (PtoTriggered (ld_pto_count ld) (ld_inflight_bytes ld)) (on_hot (\<lambda>h. h\<lparr> ch_loss_detector := ld, ch_cc := cc \<rparr>) c)"
  have "tx_pto now c = on_hot (set_probe_time now) (fold (retransmit now) (le_retransmittable le) c3)"
    using True by (simp add: tx_pto_def t Let_def c3_def cc_def on_hot_def)
  moreover have "gc_hot c3 = (gc_hot c)\<lparr> ch_loss_detector := ld, ch_cc := cc \<rparr>" by (simp add: c3_def)
  moreover obtain s where "gc_hot (fold (retransmit now) (le_retransmittable le) c3) = (gc_hot c3)\<lparr> ch_scheduler := s \<rparr>"
    "sched_wf (ch_scheduler (gc_hot c3)) \<longrightarrow> sched_wf s"
    using retransmit_fold_hot by blast
  moreover have "ld_wf ld \<and> inflight_scan ld \<le> inflight_scan (ch_loss_detector (gc_hot c)) \<and>
      set (ld_sent_packets ld) \<subseteq> set (ld_sent_packets (ch_loss_detector (gc_hot c)))" if "ld_wf (ch_loss_detector (gc_hot c))"
  proof -
    note r = on_timeout_result [OF that t]
    have "set (fold om_remove ks xs) \<subseteq> set xs" for ks :: "nat list" and xs :: "(nat \<times> sent_packet_record) list"
      by (induction ks arbitrary: xs) (simp_all, fastforce simp: om_remove_def)
    then show ?thesis using r(1,2) unfolding r(3) by auto
  qed
  moreover have "ld_wf (ld\<lparr> ld_time_of_last_ack_eliciting_packet := now \<rparr>)" if "ld_wf ld"
    using that by (simp add: ld_wf_def inflight_scan_def)
  moreover have "cc_wf (ch_cc (gc_hot c)) \<longrightarrow> cc_wf cc" by (simp add: cc_def cc_wf_timeout)
  ultimately show ?thesis
    by (intro exI [of _ "ld\<lparr> ld_time_of_last_ack_eliciting_packet := now \<rparr>"] exI [of _ cc] exI [of _ s])
       (simp add: set_probe_time_def inflight_scan_def)
qed

lemma prune_fold_queues:
  "distinct ts \<Longrightarrow> gs_queues (fst (fold (\<lambda>t (s, pruned). (retain_tier t keep s, pruned + f t s)) ts (s, n))) t =
     (if t \<in> set ts then filter keep (gs_queues s t) else gs_queues s t)"
proof (induction ts arbitrary: s n)
  case (Cons u ts)
  have q: "gs_queues (retain_tier u keep s) = (gs_queues s)(u := filter keep (gs_queues s u))"
    by (simp add: retain_tier_def Let_def)
  have "distinct ts" "u \<notin> set ts" using Cons.prems by simp_all
  then show ?case using Cons.IH [of "retain_tier u keep s" "n + f u s"] by (auto simp: q)
qed simp

lemma prune_stale_result:
  assumes "prune_stale now s = (s', n)"
  shows "t < 5 \<Longrightarrow> gs_queues s' t = filter (\<lambda>i. \<not> is_expired i now) (gs_queues s t)" and "sched_wf s \<Longrightarrow> sched_wf s'"
    and "fresh_queues now s'"
proof -
  have s': "s' = fst (fold (\<lambda>t (s, pruned). (retain_tier t (\<lambda>i. \<not> is_expired i now) s,
      pruned + length (filter (\<lambda>i. is_expired i now) (gs_queues s t)))) [0..<5] (s, 0))"
    using assms by (simp add: prune_stale_def NUM_PRIORITY_TIERS_def)
  show q: "t < 5 \<Longrightarrow> gs_queues s' t = filter (\<lambda>i. \<not> is_expired i now) (gs_queues s t)" for t
    unfolding s' by (subst prune_fold_queues) simp_all
  show "sched_wf s \<Longrightarrow> sched_wf s'" unfolding s' by (rule prune_fold_wf)
  show "fresh_queues now s'" using q by (simp add: fresh_queues_def)
qed

lemma tx_housekeeping_hot:
  "\<exists>s pv pe. gc_hot (tx_housekeeping now c) = (gc_hot c)\<lparr> ch_scheduler := s, ch_path_validator := pv, ch_pacing := pe \<rparr> \<and>
     fresh_queues now s \<and> (sched_wf (ch_scheduler (gc_hot c)) \<longrightarrow> sched_wf s) \<and>
     (\<forall>t < 5. gs_queues s t = filter (\<lambda>i. \<not> is_expired i now) (gs_queues (ch_scheduler (gc_hot c)) t))"
proof -
  obtain s n where s: "prune_stale now (ch_scheduler (gc_hot c)) = (s, n)" by fastforce
  note r = prune_stale_result [OF this]
  show ?thesis
    using r by (intro exI [of _ s] exI) (auto simp: tx_housekeeping_def s Let_def)
qed

text \<open>What the connection needs before it transmits, and keeps.\<close>

definition tx_inv :: "'addr connection_hot \<Rightarrow> bool" where
  "tx_inv h \<longleftrightarrow> hot_inv h \<and> (\<forall>ctrl \<in> set (ch_control_queue h). control_ok ctrl) \<and>
     (\<forall>e \<in> set (ld_sent_packets (ch_loss_detector h)). fst e < unat (ch_next_packet_number h))"

lemma tx_prepared:
  assumes "tx_inv (gc_hot c)" and "c1 = tx_housekeeping now (tx_pto now c)"
  shows "tx_inv (gc_hot c1) \<and> fresh_queues now (ch_scheduler (gc_hot c1)) \<and>
    inflight_scan (ch_loss_detector (gc_hot c1)) \<le> inflight_scan (ch_loss_detector (gc_hot c)) \<and>
    (\<exists>ld cc s pv pe. gc_hot c1 = (gc_hot c)\<lparr> ch_loss_detector := ld, ch_cc := cc, ch_scheduler := s, ch_path_validator := pv, ch_pacing := pe \<rparr>)"
proof -
  obtain ld cc s where p: "gc_hot (tx_pto now c) = (gc_hot c)\<lparr> ch_loss_detector := ld, ch_cc := cc, ch_scheduler := s \<rparr>"
    "ld_wf ld" "inflight_scan ld \<le> inflight_scan (ch_loss_detector (gc_hot c))" "cc_wf cc" "sched_wf s"
    "set (ld_sent_packets ld) \<subseteq> set (ld_sent_packets (ch_loss_detector (gc_hot c)))"
    using tx_pto_hot [of now c] assms(1) by (auto simp: tx_inv_def hot_inv_def)
  obtain s' pv pe where h: "gc_hot c1 = (gc_hot (tx_pto now c))\<lparr> ch_scheduler := s', ch_path_validator := pv, ch_pacing := pe \<rparr>"
    "fresh_queues now s'" "sched_wf s'"
    using tx_housekeeping_hot [of now "tx_pto now c"] p(1,5) unfolding assms(2) by auto
  have hot: "gc_hot c1 = (gc_hot c)\<lparr> ch_loss_detector := ld, ch_cc := cc, ch_scheduler := s', ch_path_validator := pv, ch_pacing := pe \<rparr>"
    using h(1) p(1) by simp
  have inv: "tx_inv (gc_hot c1)"
    using assms(1) p(2,4,6) h(3) unfolding tx_inv_def hot by (auto simp: hot_inv_simps)
  have rest: "fresh_queues now (ch_scheduler (gc_hot c1))"
    "inflight_scan (ch_loss_detector (gc_hot c1)) \<le> inflight_scan (ch_loss_detector (gc_hot c))"
    using h(2) p(3) by (simp_all add: hot)
  show ?thesis by (intro conjI inv rest exI) (rule hot)
qed

section \<open>Assembly\<close>

text \<open>The frames of a packet: at most one acknowledgement, the drained control frames, the popped items.\<close>

definition packet_frames :: "frame list \<Rightarrow> 'addr tx_packet \<Rightarrow> frame list" where
  "packet_frames acks p = acks @ map build_control_frame (tp_drained_controls p) @ map item_frame (tp_popped p)"

definition assembled :: "monotonic_time \<Rightarrow> packet_header \<Rightarrow> nat \<Rightarrow> 'addr connection_hot \<Rightarrow> frame list \<Rightarrow> 'addr tx_packet \<Rightarrow>
    'addr connection_hot \<Rightarrow> bool" where
  "assembled now hdr n h acks p h' \<longleftrightarrow>
     (\<exists>rest s. h' = h\<lparr> ch_control_queue := rest, ch_scheduler := s \<rparr> \<and> ch_control_queue h = tp_drained_controls p @ rest \<and>
        taken (ch_scheduler h) (tp_popped p) s) \<and>
     holds_frames hdr n (packet_frames acks p) (tp_builder p) \<and>
     (acks = [] \<or> should_send_ack now (ch_ack_tracker h) \<and> (\<exists>f. acks = [f] \<and> peek_ack_frame now (ch_ack_tracker h) = Some f)) \<and>
     (tp_drained_controls p = [] \<and> ch_control_queue h \<noteq> [] \<longrightarrow>
        n < min_header_len (ph_flags hdr) + frames_size acks + length (Frame_bytes (build_control_frame (hd (ch_control_queue h))))) \<and>
     tp_ack_appended p = (acks \<noteq> []) \<and> tp_ack_eliciting p = (tp_drained_controls p \<noteq> [] \<or> tp_popped p \<noteq> []) \<and>
     tp_retransmittables p = concat (map item_records (tp_popped p)) \<and>
     tp_close_drained p = list_ex is_out_close (tp_drained_controls p) \<and>
     (\<forall>i \<in> set (tp_popped p). \<not> is_expired i now \<and> size_bytes i \<le> tx_budget h) \<and>
     (ch_state h \<noteq> Established \<or> tp_override_dest p \<noteq> None \<longrightarrow> tp_popped p = []) \<and>
     (\<forall>d. tp_override_dest p = Some d \<longrightarrow> (\<exists>ctrl \<in> set (ch_control_queue h). directed_away (ch_active_path h) ctrl \<and> control_dest ctrl = Some d))"

lemma on_cold_same [simp]: "on_cold (\<lambda>_. gc_cold c) c = c"
  by (simp add: on_cold_def)

lemma tx_assemble_result:
  fixes c :: "'addr gtp_connection"
  assumes "holds_frames hdr n [] b" and "tx_inv (gc_hot c)" and "fresh_queues now (ch_scheduler (gc_hot c))"
  shows "\<exists>c' p acks. tx_assemble now b c = Ok (c', p) \<and> c' = on_hot (\<lambda>_. gc_hot c') c \<and> assembled now hdr n (gc_hot c) acks p (gc_hot c')"
proof -
  let ?h = "gc_hot c" and ?p0 = "tx_packet_new b :: 'addr tx_packet"
  have holds: "holds_frames hdr n [] (tp_builder ?p0)" using assms(1) by (simp add: tx_packet_new_def)
  have wf: "sched_wf (ch_scheduler ?h)" and cs: "\<forall>ctrl \<in> set (ch_control_queue ?h). control_ok ctrl"
    using assms(2) by (simp_all add: tx_inv_def hot_inv_def)
  obtain acks b1 where a: "attach_ack (should_send_ack now (ch_ack_tracker ?h)) now ?h ?p0 =
      Ok (?p0\<lparr> tp_builder := b1, tp_ack_appended := (tp_ack_appended ?p0 \<or> acks \<noteq> []) \<rparr>)"
    "holds_frames hdr n ([] @ acks) b1" "acks = [] \<or> should_send_ack now (ch_ack_tracker ?h) \<and> (\<exists>f. acks = [f] \<and> peek_ack_frame now (ch_ack_tracker ?h) = Some f)"
    using attach_ack_result [OF holds, of "should_send_ack now (ch_ack_tracker ?h)" now ?h] by blast
  let ?p1 = "?p0\<lparr> tp_builder := b1, tp_ack_appended := (tp_ack_appended ?p0 \<or> acks \<noteq> []) \<rparr>"
  have "holds_frames hdr n acks (tp_builder ?p1)" using a(2) by simp
  from drain_controls_result [OF this cs, of "ch_active_path ?h"] obtain rest ds b2 od where
    d: "drain_controls (ch_active_path ?h) (ch_control_queue ?h) ?p1 = Ok (rest, ?p1\<lparr> tp_builder := b2, tp_ack_eliciting := (tp_ack_eliciting ?p1 \<or> ds \<noteq> []),
        tp_override_dest := od, tp_close_drained := (tp_close_drained ?p1 \<or> list_ex is_out_close ds),
        tp_drained_controls := tp_drained_controls ?p1 @ ds \<rparr>)"
      "ch_control_queue ?h = ds @ rest" "holds_frames hdr n (acks @ map build_control_frame ds) b2"
      "od = tp_override_dest ?p1 \<or> (\<exists>ctrl \<in> set (ch_control_queue ?h). directed_away (ch_active_path ?h) ctrl \<and> od = control_dest ctrl)"
      "ds = [] \<and> ch_control_queue ?h \<noteq> [] \<and> tp_override_dest ?p1 = None \<longrightarrow>
         n < min_header_len (ph_flags hdr) + frames_size acks + length (Frame_bytes (build_control_frame (hd (ch_control_queue ?h))))"
    by blast
  let ?p2 = "?p1\<lparr> tp_builder := b2, tp_ack_eliciting := (tp_ack_eliciting ?p1 \<or> ds \<noteq> []),
        tp_override_dest := od, tp_close_drained := (tp_close_drained ?p1 \<or> list_ex is_out_close ds),
        tp_drained_controls := tp_drained_controls ?p1 @ ds \<rparr>"
  have od: "\<forall>x. od = Some x \<longrightarrow> (\<exists>ctrl \<in> set (ch_control_queue ?h). directed_away (ch_active_path ?h) ctrl \<and> control_dest ctrl = Some x)"
    using d(4) by (auto simp: tx_packet_new_def)
  show ?thesis
  proof (cases "ch_state ?h = Established")
    case True
    have "holds_frames hdr n (acks @ map build_control_frame ds) (tp_builder ?p2)" using d(3) by simp
    from fill_data_result [OF this wf assms(3), of "tx_budget ?h" "gc_cold c"] obtain s' items b3 where
      f: "fill_data (tx_budget ?h) now (ch_scheduler ?h) (gc_cold c) ?p2 = Ok (s', gc_cold c, ?p2\<lparr> tp_builder := b3,
          tp_retransmittables := tp_retransmittables ?p2 @ concat (map item_records items),
          tp_ack_eliciting := (tp_ack_eliciting ?p2 \<or> items \<noteq> []), tp_popped := tp_popped ?p2 @ items \<rparr>)"
        "holds_frames hdr n ((acks @ map build_control_frame ds) @ map item_frame items) b3" "taken (ch_scheduler ?h) items s'"
        "\<forall>i \<in> set items. \<not> is_expired i now \<and> size_bytes i \<le> tx_budget ?h" "tp_override_dest ?p2 \<noteq> None \<longrightarrow> items = []"
      by blast
    let ?c' = "on_hot (\<lambda>h. h\<lparr> ch_control_queue := rest, ch_scheduler := s' \<rparr>) c"
    have "tx_assemble now b c = Ok (?c', ?p2\<lparr> tp_builder := b3, tp_retransmittables := tp_retransmittables ?p2 @ concat (map item_records items),
        tp_ack_eliciting := (tp_ack_eliciting ?p2 \<or> items \<noteq> []), tp_popped := tp_popped ?p2 @ items \<rparr>)" (is "_ = Ok (_, ?p3)")
      using True a(1) d(1) f(1) by (simp add: tx_assemble_def Let_def on_hot_def on_cold_def)
    moreover have "assembled now hdr n ?h acks ?p3 (gc_hot ?c')"
      unfolding assembled_def packet_frames_def using True a(3) d(2,5) f(2-5) od by (auto simp: tx_packet_new_def)
    ultimately show ?thesis by (intro exI [of _ ?c'] exI [of _ ?p3] exI [of _ acks]) (simp add: on_hot_def)
  next
    case False
    let ?c' = "on_hot (\<lambda>h. h\<lparr> ch_control_queue := rest \<rparr>) c"
    have "tx_assemble now b c = Ok (?c', ?p2)" using False a(1) d(1) by (simp add: tx_assemble_def Let_def)
    moreover have "(\<exists>rest' s. gc_hot ?c' = ?h\<lparr> ch_control_queue := rest', ch_scheduler := s \<rparr> \<and>
        ch_control_queue ?h = tp_drained_controls ?p2 @ rest' \<and> taken (ch_scheduler ?h) (tp_popped ?p2) s)"
      using d(2) taken_Nil [OF wf] by (intro exI [of _ rest] exI [of _ "ch_scheduler ?h"]) (simp add: tx_packet_new_def)
    then have "assembled now hdr n ?h acks ?p2 (gc_hot ?c')"
      unfolding assembled_def packet_frames_def using a(3) d(3,5) od by (auto simp: tx_packet_new_def)
    ultimately show ?thesis by (intro exI [of _ ?c'] exI [of _ ?p2] exI [of _ acks]) (simp add: on_hot_def)
  qed
qed

text \<open>Rejecting an assembled packet gives everything back.\<close>

lemma tx_reject_result:
  assumes "assembled now hdr n (gc_hot c) acks p (gc_hot c')" and "c' = on_hot (\<lambda>_. gc_hot c') c" and "sched_wf (ch_scheduler (gc_hot c))"
  shows "\<exists>s. tx_reject now p c' = on_hot (\<lambda>h. h\<lparr> ch_scheduler := s \<rparr>) c \<and> taken (ch_scheduler (gc_hot c)) [] s"
proof -
  obtain rest s1 where r: "gc_hot c' = (gc_hot c)\<lparr> ch_control_queue := rest, ch_scheduler := s1 \<rparr>"
    "ch_control_queue (gc_hot c) = tp_drained_controls p @ rest" "taken (ch_scheduler (gc_hot c)) (tp_popped p) s1"
    "\<forall>i \<in> set (tp_popped p). \<not> is_expired i now"
    using assms(1) by (auto simp: assembled_def)
  from requeue_popped_back [OF assms(3) r(3,4)] obtain s where
    s: "requeue_popped now (tp_popped p) (s1, gc_cold c) = (s, gc_cold c)" "taken (ch_scheduler (gc_hot c)) [] s" by blast
  have c': "c' = on_hot (\<lambda>_. (gc_hot c)\<lparr> ch_control_queue := rest, ch_scheduler := s1 \<rparr>) c"
    by (subst assms(2)) (simp add: r(1))
  have "tx_reject now p c' = on_hot (\<lambda>h. h\<lparr> ch_scheduler := s \<rparr>) c"
    unfolding c' by (simp add: tx_reject_def s(1) requeue_controls_eq r(2) [symmetric] on_hot_def on_cold_def)
  then show ?thesis using s(2) by blast
qed

section \<open>Sealing\<close>

lemma short_header_bytes:
  assumes "\<not> is_long_header (ph_flags h)"
  shows "PacketHeader_bytes (h\<lparr> ph_payload_len := len \<rparr>) =
    [ph_flags h, ph_header_len h] @ to_be_bytes (ph_connection_id h) @ to_be_bytes (ph_packet_number h) @
    to_be_bytes (ph_timestamp_micros h) @ to_be_bytes len"
  using assms by (simp add: PacketHeader_bytes_def PacketHeader_fields_def)

lemma header_with_length:
  assumes "\<not> is_long_header (ph_flags h)"
  shows "take 22 (PacketHeader_bytes (h\<lparr> ph_payload_len := a \<rparr>) @ rest) @ to_be_bytes b = PacketHeader_bytes (h\<lparr> ph_payload_len := b \<rparr>)"
  unfolding short_header_bytes [OF assms] by simp

lemma tx_header_facts:
  "\<not> is_long_header (ph_flags (tx_header now h))" "key_phase (ph_flags (tx_header now h)) = ch_key_phase h"
  "ph_packet_number (tx_header now h) = ch_next_packet_number h" "ph_connection_id (tx_header now h) = ch_connection_id h"
  "ph_version (tx_header now h) = None" "ph_header_len (tx_header now h) = 24"
  by (simp_all add: tx_header_def PacketHeader_new_short_def Let_def flag_simps MIN_COMMON_HEADER_LEN_def)

lemma mark_acks_facts [simp]:
  "is_long_header (ph_flags (mark_acks fs h)) = is_long_header (ph_flags h)" "key_phase (ph_flags (mark_acks fs h)) = key_phase (ph_flags h)"
  "ph_packet_number (mark_acks fs h) = ph_packet_number h" "ph_connection_id (mark_acks fs h) = ph_connection_id h"
  "ph_version (mark_acks fs h) = ph_version h" "ph_header_len (mark_acks fs h) = ph_header_len h"
  by (simp_all add: mark_acks_def flag_simps)

definition sealed_header :: "monotonic_time \<Rightarrow> frame list \<Rightarrow> 'addr connection_hot \<Rightarrow> packet_header" where
  "sealed_header now fs hot = (mark_acks fs (tx_header now hot))\<lparr> ph_payload_len := of_nat (frames_size fs + tag_len (ch_tx_protector hot)) \<rparr>"

lemma tx_header_min [simp]: "min_header_len (ph_flags (tx_header now h)) = 24"
  by (simp add: min_header_len_def tx_header_facts MIN_COMMON_HEADER_LEN_def)

lemma length_sealed_header: "length (PacketHeader_bytes (sealed_header now fs hot)) = 24"
  by (simp add: sealed_header_def min_header_len_def tx_header_facts MIN_COMMON_HEADER_LEN_def)

lemma tx_seal_eq:
  assumes "holds_frames (tx_header now hot) n fs b"
  shows "tx_seal env hot b =
    (if frames_size fs > 65535 then (pb_buf b, Err (ResourceLimitExceeded ''payload length exceeds u16::MAX''))
     else if frames_size fs + tag_len (ch_tx_protector hot) > 65535 then (fst (tx_seal env hot b), Err BufferOverflow)
     else let (pay, r) = Protector_seal (env_cipher env) (ch_tx_protector hot) (ch_next_packet_number hot) (ch_connection_id hot)
            (PacketHeader_bytes (sealed_header now fs hot)) (drop 24 (pb_buf b)) (frames_size fs)
          in (PacketHeader_bytes (sealed_header now fs hot) @ pay, omap (\<lambda>k. 24 + k) r))"
proof -
  let ?payload = "concat (map Frame_bytes fs)" and ?h = "mark_acks fs (tx_header now hot)"
  let ?aad = "PacketHeader_bytes (sealed_header now fs hot)"
  have wf: "builder_wf b" and hb: "pb_header b = ?h"
    using assms by (simp_all add: holds_frames_def)
  have hl: "pb_header_len b = 24" and pl: "pb_payload_len b = frames_size fs"
    using holds_lengths [OF assms] by simp_all
  have short: "\<not> is_long_header (ph_flags ?h)" by (simp add: tx_header_facts)
  then have ml: "min_header_len (ph_flags ?h) = 24" by (simp add: min_header_len_def MIN_COMMON_HEADER_LEN_def)
  have hblen: "length (PacketHeader_bytes (?h\<lparr> ph_payload_len := x \<rparr>)) = 24" for x using ml by simp
  let ?buf = "PacketHeader_bytes (?h\<lparr> ph_payload_len := of_nat (frames_size fs) \<rparr>) @ drop 24 (pb_buf b)"
  have finish: "PacketBuilder_finish b = (if frames_size fs > 65535 then Err (ResourceLimitExceeded ''payload length exceeds u16::MAX'')
      else Ok (?buf, 24 + frames_size fs))"
    using PacketBuilder_finish_eq [OF wf] by (simp add: hb hl pl)
  have aad: "take 22 ?buf @ to_be_bytes (of_nat (frames_size fs + tag_len (ch_tx_protector hot)) :: u16) = ?aad"
    unfolding sealed_header_def by (rule header_with_length) (simp add: tx_header_facts)
  have aad': "take 22 (PacketHeader_bytes (?h\<lparr> ph_payload_len := of_nat (frames_size fs) \<rparr>)) @
      to_be_bytes (of_nat (frames_size fs) + of_nat (tag_len (ch_tx_protector hot)) :: u16) = ?aad"
    using aad ml by simp
  have aad'': "take 22 (PacketHeader_bytes (?h\<lparr> ph_payload_len := of_nat (frames_size fs) \<rparr>)) @
      to_be_bytes (of_nat (frames_size fs) + of_nat (tag_len (ch_tx_protector hot)) :: u16) @ q = ?aad @ q" for q
    using arg_cong [OF aad', of "\<lambda>z. z @ q"] by simp
  consider "frames_size fs > 65535" | "frames_size fs \<le> 65535" "frames_size fs + tag_len (ch_tx_protector hot) > 65535"
    | "frames_size fs + tag_len (ch_tx_protector hot) \<le> 65535" by linarith
  then show ?thesis
  proof cases
    case 3
    obtain pay r where seal: "Protector_seal (env_cipher env) (ch_tx_protector hot) (ch_next_packet_number hot) (ch_connection_id hot) ?aad
        (drop 24 (pb_buf b)) (frames_size fs) = (pay, r)" by fastforce
    show ?thesis
      using 3 by (simp only: tx_seal_def finish MIN_COMMON_HEADER_LEN_def) (simp add: Let_def aad' aad'' ml seal)
  qed (auto simp: tx_seal_def finish MIN_COMMON_HEADER_LEN_def Let_def ml)
qed

lemma tx_seal_result:
  assumes "holds_frames (tx_header now hot) n fs b" and "aead_ok (env_cipher env)" and "tx_seal env hot b = (buf, r)"
  defines "hdr \<equiv> sealed_header now fs hot"
  shows "r \<noteq> Panic" and "r = Ok len \<Longrightarrow> len \<le> n \<and> length buf = n \<and>
     (\<exists>sealed rest. take len buf = PacketHeader_bytes hdr @ sealed \<and> 24 + length sealed = len \<and>
        Protector_open (env_cipher env) (ch_tx_protector hot) (ch_next_packet_number hot) (ch_connection_id hot) (PacketHeader_bytes hdr) sealed
          (length sealed) = (concat (map Frame_bytes fs) @ rest, Ok (frames_size fs)))"
proof -
  let ?payload = "concat (map Frame_bytes fs)" and ?aad = "PacketHeader_bytes hdr"
  obtain pay r' where seal: "Protector_seal (env_cipher env) (ch_tx_protector hot) (ch_next_packet_number hot) (ch_connection_id hot) ?aad
      (drop 24 (pb_buf b)) (frames_size fs) = (pay, r')" by fastforce
  note eq = tx_seal_eq [OF assms(1), of env, unfolded assms(3), folded hdr_def, unfolded seal prod.case Let_def]
  show "r \<noteq> Panic"
    using eq seal Protector_seal_no_panic by (cases r') (auto split: if_splits)
  assume ok: "r = Ok len"
  then obtain k where k: "buf = ?aad @ pay" "r' = Ok k" "len = 24 + k"
    using eq by (cases r') (auto split: if_splits)
  have room: "24 + frames_size fs \<le> n" and pb: "length (pb_buf b) = n" "pb_header_len b = 24" "pb_payload_len b = frames_size fs"
    and pay: "builder_payload b = ?payload"
    using holds_lengths [OF assms(1)] assms(1) by (simp_all add: holds_frames_def)
  then have take_payload: "take (frames_size fs) (drop 24 (pb_buf b)) = ?payload" by (simp add: builder_payload_def)
  have "frames_size fs \<le> length (drop 24 (pb_buf b))" using room pb by simp
  note sealed = Protector_seal_ok [OF assms(2) seal [unfolded k(2)] this]
  obtain rest where opened: "Protector_open (env_cipher env) (ch_tx_protector hot) (ch_next_packet_number hot) (ch_connection_id hot) ?aad
      (take k pay) k = (?payload @ rest, Ok (frames_size fs))"
    using sealed take_payload by auto
  have al: "length ?aad = 24" unfolding hdr_def by (rule length_sealed_header)
  have "k \<le> length pay" "24 + k \<le> n" "length pay = n - 24" using sealed pb room by auto
  then have "take len buf = ?aad @ take k pay" "24 + length (take k pay) = len" "length (take k pay) = k" "len \<le> n" "length buf = n"
    using k(1,3) al by (simp_all add: min_absorb2)
  then show "len \<le> n \<and> length buf = n \<and>
     (\<exists>sealed rest. take len buf = PacketHeader_bytes hdr @ sealed \<and> 24 + length sealed = len \<and>
        Protector_open (env_cipher env) (ch_tx_protector hot) (ch_next_packet_number hot) (ch_connection_id hot) (PacketHeader_bytes hdr) sealed
          (length sealed) = (?payload @ rest, Ok (frames_size fs)))"
    using opened by metis
qed

text \<open>Sealing needs room for the tag behind the payload: with it the seal succeeds, without it fails.\<close>

definition sealable :: "conn_env \<Rightarrow> 'addr connection_hot \<Rightarrow> bool" where
  "sealable env h \<longleftrightarrow> (case ch_tx_protector h of Plaintext \<Rightarrow> True
     | Aead p \<Rightarrow> check_binding p (ch_connection_id h) = Ok () \<and>
         (\<forall>n a pt. encrypt_in_place_detached (env_cipher env) (ap_key p) n a pt \<noteq> None))"

lemma sealable_cong: "ch_tx_protector h' = ch_tx_protector h \<Longrightarrow> ch_connection_id h' = ch_connection_id h \<Longrightarrow> sealable env h' = sealable env h"
  by (simp add: sealable_def split: protector.split)

lemma tx_seal_room:
  assumes "holds_frames (tx_header now hot) n fs b" and "sealable env hot" and "24 + frames_size fs + tag_len (ch_tx_protector hot) \<le> n" and "n \<le> 65535"
  shows "snd (tx_seal env hot b) = Ok (24 + (frames_size fs + tag_len (ch_tx_protector hot)))"
proof -
  have "length (pb_buf b) = n" using assms(1) by (simp add: holds_frames_def)
  then show ?thesis
    using assms(2-4) by (subst tx_seal_eq [OF assms(1)], cases "ch_tx_protector hot")
      (auto simp: sealable_def Let_def AeadProtector_seal_def AEAD_TAG_LEN_def Plaintext_seal_def u64_max_def split: prod.split option.split)
qed

lemma tx_seal_no_room:
  assumes "holds_frames (tx_header now hot) n fs b" and "ch_tx_protector hot = Aead p" and "check_binding p (ch_connection_id hot) = Ok ()"
    and "n < 24 + frames_size fs + 16" and "n \<le> 65535"
  shows "\<exists>buf. tx_seal env hot b = (buf, Err BufferTooShort) \<and> length buf = n"
proof -
  have len: "length (pb_buf b) = n" "24 + frames_size fs \<le> n" using assms(1) holds_lengths [OF assms(1)] by (simp_all add: holds_frames_def)
  then have "tx_seal env hot b = (PacketHeader_bytes (sealed_header now fs hot) @ drop 24 (pb_buf b), Err BufferTooShort)"
    using assms(2-5) by (subst tx_seal_eq [OF assms(1)])
      (auto simp: Let_def AeadProtector_seal_def AEAD_TAG_LEN_def u64_max_def split: prod.split option.split)
  then show ?thesis using len length_sealed_header [of now fs hot] by simp
qed

end
