(* ===== verification/Conn_Exchange.thy ===== *)
theory Conn_Exchange
  imports Conn_Tx_Laws
begin

text \<open>
  Datagrams between two connections: what the transmit pipeline of one end commits to the wire is
  what the receive pipeline of the other end dispatches, and what it does not commit stays queued.
\<close>

section \<open>The outcomes of a transmit call\<close>

text \<open>Route evaluation never panics and moves at most the active path.\<close>

definition repathed :: "'addr connection_hot \<Rightarrow> 'addr connection_hot \<Rightarrow> bool" where
  "repathed h h' \<longleftrightarrow> (\<exists>addr. h' = h\<lparr> ch_active_path := addr \<rparr>)"

lemma repathed_same: "repathed h h"
  unfolding repathed_def by (rule exI [of _ "ch_active_path h"]) simp

lemma repathed_trans: "repathed h h' \<Longrightarrow> repathed h' h'' \<Longrightarrow> repathed h h''"
  by (auto simp: repathed_def)

lemma repathed_adopt: "repathed h (adopt_path pid h)"
  by (cases "map_of (ch_route_paths h) pid") (auto simp: adopt_path_def repathed_same, auto simp: repathed_def)

lemma repathed_actuate: "repathed h (actuate d h)" "repathed h (sync_selected ctl h)"
  by (cases d; simp add: actuate_def repathed_adopt repathed_same)
     (simp add: sync_selected_def repathed_adopt repathed_same split: option.split)

lemma tick_route_hot:
  "\<exists>c' ctl. tick_route_evaluation now c = Ok c' \<and> repathed ((gc_hot c)\<lparr> ch_route_controller := ctl \<rparr>) (gc_hot c')"
proof (cases "ch_route_controller (gc_hot c)")
  case None
  have "(gc_hot c)\<lparr> ch_route_controller := ch_route_controller (gc_hot c) \<rparr> = gc_hot c" by simp
  then have "repathed ((gc_hot c)\<lparr> ch_route_controller := ch_route_controller (gc_hot c) \<rparr>) (gc_hot c)"
    by (simp only: repathed_same)
  moreover have "tick_route_evaluation now c = Ok c" using None by (simp add: tick_route_evaluation_def)
  ultimately show ?thesis by blast
next
  case (Some ctl)
  obtain d ctl' t where e: "evaluate ctl (ch_route_stats (gc_hot c)) now (DecisionTracker_new 64) = Ok (d, ctl', t)"
    by (rule evaluate_step [of "ch_route_stats (gc_hot c)" ctl now "DecisionTracker_new 64"]) blast
  have "tick_route_evaluation now c = Ok (on_hot (sync_selected ctl' \<circ> actuate d)
      (push_unbounded (route_event d) (on_hot (\<lambda>h. h\<lparr> ch_route_controller := Some ctl' \<rparr>) c)))"
    using Some e by (simp add: tick_route_evaluation_def Let_def)
  moreover have "repathed h (sync_selected ctl' (actuate d h))" for h :: "'a connection_hot"
    by (rule repathed_trans [OF repathed_actuate])
  ultimately show ?thesis by (auto simp: push_unbounded_def)
qed

text \<open>The connection a call works with once the timers have been served.\<close>

abbreviation prepared :: "monotonic_time \<Rightarrow> 'addr gtp_connection \<Rightarrow> 'addr gtp_connection" where
  "prepared now c \<equiv> tx_housekeeping now (tx_pto now c)"

lemma builder_new_cases:
  obtains b where "PacketBuilder_new out_buf (tx_header now h) = Ok b" and "holds_frames (tx_header now h) (length out_buf) [] b"
  | "PacketBuilder_new out_buf (tx_header now h) = Err BufferTooShort"
proof (cases "length out_buf < 24")
  case True
  then show thesis using that(2) by (simp add: PacketBuilder_new_def tx_header_facts MIN_COMMON_HEADER_LEN_def Let_def)
next
  case False
  then obtain b where "PacketBuilder_new out_buf (tx_header now h) = Ok b"
    by (auto simp: PacketBuilder_new_def tx_header_facts MIN_COMMON_HEADER_LEN_def Let_def)
  with holds_new that(1) show thesis by blast
qed

definition sent_hot :: "conn_env \<Rightarrow> monotonic_time \<Rightarrow> nat \<Rightarrow> 'addr tx_packet \<Rightarrow> 'addr connection_hot \<Rightarrow> 'addr connection_hot" where
  "sent_hot env now len p h = flush_pending_ratchet env (record_sent now len p h)"

lemma tx_commit_result:
  "\<exists>c' ctl. tx_commit env now len p c =
     (c', Ok (Some (case tp_override_dest p of Some d \<Rightarrow> d | None \<Rightarrow> ch_active_path (gc_hot c), len))) \<and>
     repathed ((sent_hot env now len p (gc_hot c))\<lparr> ch_route_controller := ctl \<rparr>) (gc_hot c')"
proof -
  let ?c2 = "on_hot (flush_pending_ratchet env) (on_cold (count_tx len) (on_hot (record_sent now len p) c))"
  obtain c' ctl where "tick_route_evaluation now ?c2 = Ok c'" "repathed ((gc_hot ?c2)\<lparr> ch_route_controller := ctl \<rparr>) (gc_hot c')"
    using tick_route_hot by blast
  moreover have "ch_active_path (record_sent now len p (gc_hot c)) = ch_active_path (gc_hot c)" by (simp add: record_sent_def)
  ultimately show ?thesis
    by (intro exI [of _ c'] exI [of _ ctl]) (simp add: tx_commit_def Let_def sent_hot_def split: option.split)
qed

lemma produce_assembles:
  fixes c :: "'addr gtp_connection"
  assumes "tx_inv (gc_hot c)" and "ch_state (gc_hot c) \<noteq> Closed" and "\<not> (ch_state (gc_hot c) = Draining \<and> ch_control_queue (gc_hot c) = [])"
    and "tx_wanted now (gc_hot (prepared now c))" and "24 \<le> length out_buf"
  obtains c2 :: "'addr gtp_connection" and p acks where "produce_outgoing_datagram env now out_buf c = tx_transmit env now p c2"
    and "c2 = on_hot (\<lambda>_. gc_hot c2) (prepared now c)"
    and "assembled now (tx_header now (gc_hot c2)) (length out_buf) (gc_hot (prepared now c)) acks p (gc_hot c2)"
proof -
  let ?c1 = "prepared now c"
  have prep: "tx_inv (gc_hot ?c1)" "fresh_queues now (ch_scheduler (gc_hot ?c1))"
    using tx_prepared [OF assms(1) refl, of now] by simp_all
  obtain b where b: "PacketBuilder_new out_buf (tx_header now (gc_hot ?c1)) = Ok b"
    "holds_frames (tx_header now (gc_hot ?c1)) (length out_buf) [] b"
  proof (rule builder_new_cases [of out_buf now "gc_hot ?c1"])
    assume "PacketBuilder_new out_buf (tx_header now (gc_hot ?c1)) = Err BufferTooShort"
    then show thesis
      using assms(5) by (simp add: PacketBuilder_new_def tx_header_facts MIN_COMMON_HEADER_LEN_def Let_def)
  qed
  from tx_assemble_result [OF b(2) prep] obtain c2 p acks where
    a: "tx_assemble now b ?c1 = Ok (c2, p)" "c2 = on_hot (\<lambda>_. gc_hot c2) ?c1"
      "assembled now (tx_header now (gc_hot ?c1)) (length out_buf) (gc_hot ?c1) acks p (gc_hot c2)" by blast
  have "produce_outgoing_datagram env now out_buf c = tx_transmit env now p c2"
    using assms(2-4) b(1) a(1) by (auto simp: produce_outgoing_datagram_def Let_def)
  moreover have "tx_header now (gc_hot c2) = tx_header now (gc_hot ?c1)"
    using a(3) by (auto simp: assembled_def tx_header_def)
  ultimately show thesis using that a by metis
qed

lemma produce_cases:
  fixes c :: "'addr gtp_connection"
  assumes "tx_inv (gc_hot c)" and "aead_ok (env_cipher env)" and "produce_outgoing_datagram env now out_buf c = (c', buf, r)"
  obtains (closed) "ch_state (gc_hot c) = Closed" and "c' = c" and "r = Ok None"
  | (drained) "ch_state (gc_hot c) = Draining" and "ch_control_queue (gc_hot c) = []"
      and "gc_hot c' = (gc_hot c)\<lparr> ch_state := fst (transition_to Draining Closed) \<rparr>" and "r = Ok None"
  | (kept) s where "ch_state (gc_hot c) \<noteq> Closed" and "\<not> (ch_state (gc_hot c) = Draining \<and> ch_control_queue (gc_hot c) = [])" and "c' = on_hot (\<lambda>h. h\<lparr> ch_scheduler := s \<rparr>) (prepared now c)"
      and "taken (ch_scheduler (gc_hot (prepared now c))) [] s" and "r = Ok None \<or> (\<exists>e. r = Err e)"
  | (sent) c2 :: "'addr gtp_connection" and p acks len ctl where "ch_state (gc_hot c) \<noteq> Closed"
      and "assembled now (tx_header now (gc_hot c2)) (length out_buf) (gc_hot (prepared now c)) acks p (gc_hot c2)"
      and "tx_seal env (gc_hot c2) (tp_builder p) = (buf, Ok len)" and "can_send len (ch_anti_amplification (gc_hot c2))"
      and "repathed ((sent_hot env now len p (gc_hot c2))\<lparr> ch_route_controller := ctl \<rparr>) (gc_hot c')"
      and "r = Ok (Some (case tp_override_dest p of Some d \<Rightarrow> d | None \<Rightarrow> ch_active_path (gc_hot c2), len))"
proof (cases "ch_state (gc_hot c) = Closed")
  case True
  then have "c' = c" "r = Ok None" using assms(3) by (auto simp: produce_outgoing_datagram_def)
  with True show thesis by (rule closed)
next
  case open_state: False
  let ?c1 = "prepared now c"
  have prep: "tx_inv (gc_hot ?c1)" "fresh_queues now (ch_scheduler (gc_hot ?c1))"
    using tx_prepared [OF assms(1) refl, of now] by simp_all
  then have wf: "sched_wf (ch_scheduler (gc_hot ?c1))" by (simp add: tx_inv_def hot_inv_def)
  have c1: "?c1 = on_hot (\<lambda>h. h\<lparr> ch_scheduler := ch_scheduler (gc_hot ?c1) \<rparr>) ?c1" by (simp add: on_hot_def)
  show thesis
  proof (cases "ch_state (gc_hot c) = Draining \<and> ch_control_queue (gc_hot c) = []")
    case True
    then have "gc_hot c' = (gc_hot c)\<lparr> ch_state := fst (transition_to Draining Closed) \<rparr>" "r = Ok None"
      using assms(3) by (auto simp: produce_outgoing_datagram_def)
    with True show thesis by (intro drained) auto
  next
    case busy: False
    show thesis
    proof (cases "tx_wanted now (gc_hot ?c1)")
      case False
      then have "c' = ?c1" "r = Ok None" using assms(3) open_state busy by (auto simp: produce_outgoing_datagram_def Let_def)
      then show thesis using c1 by (intro kept [OF open_state busy _ taken_Nil [OF wf]]) simp_all
    next
      case wanted: True
      show thesis
      proof (cases "length out_buf < 24")
        case True
        then have "c' = ?c1" "r = Err BufferTooShort" using assms(3) open_state busy wanted
          by (auto simp: produce_outgoing_datagram_def Let_def PacketBuilder_new_def tx_header_facts MIN_COMMON_HEADER_LEN_def)
        then show thesis using c1 by (intro kept [OF open_state busy _ taken_Nil [OF wf]]) simp_all
      next
        case False
        then obtain c2 p acks where tr: "produce_outgoing_datagram env now out_buf c = tx_transmit env now p c2"
          and a: "c2 = on_hot (\<lambda>_. gc_hot c2) ?c1" "assembled now (tx_header now (gc_hot c2)) (length out_buf) (gc_hot ?c1) acks p (gc_hot c2)"
          using produce_assembles [OF assms(1) open_state busy wanted, of out_buf env] by (metis not_less)
        note tr = tr [symmetric, unfolded assms(3)]
        obtain s where rej: "tx_reject now p c2 = on_hot (\<lambda>h. h\<lparr> ch_scheduler := s \<rparr>) ?c1" "taken (ch_scheduler (gc_hot ?c1)) [] s"
          using tx_reject_result [OF a(2,1) wf] by blast
        obtain sb sr where seal: "tx_seal env (gc_hot c2) (tp_builder p) = (sb, sr)" by fastforce
        have "holds_frames (tx_header now (gc_hot c2)) (length out_buf) (packet_frames acks p) (tp_builder p)"
          using a(2) by (simp add: assembled_def)
        then have "sr \<noteq> Panic" by (rule tx_seal_result(1) [OF _ assms(2) seal])
        then consider (err) e where "sr = Err e" | (gated) len where "sr = Ok len" "\<not> can_send len (ch_anti_amplification (gc_hot c2))"
          | (go) len where "sr = Ok len" "can_send len (ch_anti_amplification (gc_hot c2))" by (cases sr) auto
        then show thesis
        proof cases
          case err
          then have "c' = tx_reject now p c2" "r = Err e" using tr seal by (simp_all add: tx_transmit_def)
          then show thesis by (intro kept [OF open_state busy _ rej(2)]) (simp_all add: rej(1))
        next
          case gated
          then have "c' = tx_reject now p c2" "r = Ok None" using tr seal by (simp_all add: tx_transmit_def)
          then show thesis by (intro kept [OF open_state busy _ rej(2)]) (simp_all add: rej(1))
        next
          case go
          obtain c3 ctl where com: "tx_commit env now len p c2 =
              (c3, Ok (Some (case tp_override_dest p of Some d \<Rightarrow> d | None \<Rightarrow> ch_active_path (gc_hot c2), len)))"
            "repathed ((sent_hot env now len p (gc_hot c2))\<lparr> ch_route_controller := ctl \<rparr>) (gc_hot c3)"
            using tx_commit_result by blast
          then have "c' = c3" "buf = sb" "r = Ok (Some (case tp_override_dest p of Some d \<Rightarrow> d | None \<Rightarrow> ch_active_path (gc_hot c2), len))"
            using tr seal go by (simp_all add: tx_transmit_def Let_def)
          with seal go com(2) show thesis by (intro sent [OF open_state a(2)]) simp_all
        qed
      qed
    qed
  qed
qed

section \<open>The invariant\<close>

lemma hot_inv_repathed: "repathed h h' \<Longrightarrow> hot_inv h' = hot_inv h" "repathed h h' \<Longrightarrow> tx_inv h' = tx_inv h"
proof -
  assume "repathed h h'"
  then obtain addr where h': "h' = h\<lparr> ch_active_path := addr \<rparr>" by (auto simp: repathed_def)
  show inv: "hot_inv h' = hot_inv h" by (simp add: h' hot_inv_simps)
  then show "tx_inv h' = tx_inv h" by (simp add: tx_inv_def h')
qed

lemma flush_fields:
  "hot_inv (flush_pending_ratchet env h) = hot_inv h" "ch_control_queue (flush_pending_ratchet env h) = ch_control_queue h"
  "ch_loss_detector (flush_pending_ratchet env h) = ch_loss_detector h" "ch_next_packet_number (flush_pending_ratchet env h) = ch_next_packet_number h"
  "ch_scheduler (flush_pending_ratchet env h) = ch_scheduler h" "ch_anti_amplification (flush_pending_ratchet env h) = ch_anti_amplification h"
proof -
  have "hot_inv (h\<lparr> ch_pending_ratchet := x \<rparr>) = hot_inv h" for x by (simp add: hot_inv_simps)
  then show "hot_inv (flush_pending_ratchet env h) = hot_inv h" by (simp add: flush_pending_ratchet_def)
qed (simp_all add: flush_pending_ratchet_def ratchet_session_key_def Let_def split: prod.split)

lemma pending_responses_suffix: "ch_control_queue h = ds @ rest \<Longrightarrow> length (filter is_out_path_response rest) \<le> pending_responses h"
  by (simp add: pending_responses_def)

lemma record_sent_inv:
  assumes "tx_inv h" and "assembled now hdr n h acks p h2" and "ch_next_packet_number h \<noteq> - 1"
    and "inflight_scan (ch_loss_detector h) + len \<le> u64_max"
  shows "tx_inv (record_sent now len p h2)"
proof -
  obtain rest s where h2: "h2 = h\<lparr> ch_control_queue := rest, ch_scheduler := s \<rparr>" "ch_control_queue h = tp_drained_controls p @ rest"
    and s: "taken (ch_scheduler h) (tp_popped p) s"
    using assms(2) by (auto simp: assembled_def)
  let ?r = "sent_record now len (ch_next_packet_number h) p" and ?ld = "ch_loss_detector h"
  have wf: "ld_wf ?ld" and below: "\<forall>e \<in> set (ld_sent_packets ?ld). fst e < unat (ch_next_packet_number h)"
    using assms(1) by (simp_all add: tx_inv_def hot_inv_def)
  have "map_of (ld_sent_packets ?ld) (sp_packet_number ?r) = None"
    using below by (auto simp: map_of_eq_None_iff sent_record_def)
  then have sent: "ld_wf (LossDetector_on_packet_sent ?r ?ld)"
    using assms(4) by (intro ld_wf_sent [OF wf]) (simp_all add: sent_record_def)
  have next_pn: "unat (PacketNumber_next (ch_next_packet_number h)) = Suc (unat (ch_next_packet_number h))"
    using assms(3) unfolding PacketNumber_next_def by (metis add.commute eq_neg_iff_add_eq_0 unatSuc)
  have "\<forall>e \<in> set (ld_sent_packets (LossDetector_on_packet_sent ?r ?ld)). fst e < Suc (unat (ch_next_packet_number h))"
    using below set_om_insert_subset [of "sp_packet_number ?r" ?r "ld_sent_packets ?ld"]
    by (fastforce simp: on_packet_sent_sent sent_record_def)
  moreover have "length (filter is_out_path_response rest) \<le> MAX_PENDING_PATH_RESPONSES"
    using pending_responses_suffix [OF h2(2)] assms(1) by (simp add: tx_inv_def hot_inv_def)
  moreover have "\<forall>ctrl \<in> set rest. control_ok ctrl" using assms(1) h2(2) by (simp add: tx_inv_def)
  moreover have "sched_wf s" using s by (simp add: taken_def)
  ultimately show ?thesis
    using assms(1) sent next_pn unfolding tx_inv_def h2(1) record_sent_def by (simp add: hot_inv_simps)
qed

lemma tx_inv_updates:
  "tx_inv (h\<lparr> ch_route_controller := ctl \<rparr>) = tx_inv h" "tx_inv (h\<lparr> ch_state := st \<rparr>) = tx_inv h"
  "sched_wf s \<Longrightarrow> tx_inv h \<Longrightarrow> tx_inv (h\<lparr> ch_scheduler := s \<rparr>)"
  "tx_inv (flush_pending_ratchet env h) = tx_inv h"
proof -
  show "tx_inv (flush_pending_ratchet env h) = tx_inv h" by (simp add: tx_inv_def flush_fields)
qed (auto simp: tx_inv_def hot_inv_simps)

text \<open>
  C2: transmitting never panics and keeps the connection well-formed. Whatever is queued, whatever the
  timers and gates say and whatever the size of the output buffer, the pipeline returns a datagram,
  nothing, or a typed error, and all invariants hold afterwards, the in-flight accounting and the
  freshness of the next packet number included.
\<close>

theorem transmit_total_and_invariant:
  fixes c :: "'addr gtp_connection"
  assumes "aead_ok (env_cipher env)" and "tx_inv (gc_hot c)" and "ch_next_packet_number (gc_hot c) \<noteq> - 1"
    and "inflight_scan (ch_loss_detector (gc_hot c)) + length out_buf \<le> u64_max"
    and "produce_outgoing_datagram env now out_buf c = (c', buf, r)"
  shows "r \<noteq> Panic \<and> tx_inv (gc_hot c')"
  using assms(2,1,5)
proof (cases rule: produce_cases)
  case (kept s)
  then show ?thesis
    using tx_prepared [OF assms(2) refl, of now] by (auto simp: taken_def intro: tx_inv_updates)
next
  case (sent c2 p acks len ctl)
  let ?h1 = "gc_hot (prepared now c)"
  have prep: "tx_inv ?h1" "ch_next_packet_number ?h1 = ch_next_packet_number (gc_hot c)"
    "inflight_scan (ch_loss_detector ?h1) \<le> inflight_scan (ch_loss_detector (gc_hot c))"
    using tx_prepared [OF assms(2) refl, of now] by auto
  have "holds_frames (tx_header now (gc_hot c2)) (length out_buf) (packet_frames acks p) (tp_builder p)"
    using sent(2) by (auto simp: assembled_def tx_header_def)
  then have "len \<le> length out_buf" using tx_seal_result(2) [OF _ assms(1) sent(3)] by blast
  then have "tx_inv (record_sent now len p (gc_hot c2))"
    using prep assms(3,4) by (intro record_sent_inv [OF prep(1) sent(2)]) auto
  then show ?thesis
    using sent(5,6) hot_inv_repathed(2) [OF sent(5)] by (simp add: sent_hot_def tx_inv_updates)
qed (use assms(2) in \<open>auto simp: tx_inv_updates\<close>)

section \<open>Work that is not sent\<close>

text \<open>
  C18: work that is not sent stays queued. When a call returns no datagram, because the connection is
  closed, a gate is shut, the output buffer is too small, sealing fails or the amplification limit
  forbids it, then every control frame and every unexpired scheduled message, those a probe timeout
  has just requeued included, is queued exactly where it was, no packet number is used and no acknowledgement is marked as sent.
\<close>

theorem unsent_work_stays_queued:
  fixes c :: "'addr gtp_connection"
  assumes "aead_ok (env_cipher env)" and "tx_inv (gc_hot c)"
    and "produce_outgoing_datagram env now out_buf c = (c', buf, r)" and "\<forall>d. r \<noteq> Ok (Some d)"
  shows "ch_control_queue (gc_hot c') = ch_control_queue (gc_hot c) \<and>
    ch_next_packet_number (gc_hot c') = ch_next_packet_number (gc_hot c) \<and> ch_ack_tracker (gc_hot c') = ch_ack_tracker (gc_hot c) \<and>
    (if ch_state (gc_hot c) = Closed \<or> ch_state (gc_hot c) = Draining \<and> ch_control_queue (gc_hot c) = []
     then gs_queues (ch_scheduler (gc_hot c')) = gs_queues (ch_scheduler (gc_hot c))
     else \<forall>t < 5. gs_queues (ch_scheduler (gc_hot c')) t =
        filter (\<lambda>i. \<not> is_expired i now) (gs_queues (ch_scheduler (gc_hot (tx_pto now c))) t))"
  using assms(2,1,3)
proof (cases rule: produce_cases)
  case (kept s)
  obtain ld cc s0 pv pe where h1: "gc_hot (prepared now c) =
      (gc_hot c)\<lparr> ch_loss_detector := ld, ch_cc := cc, ch_scheduler := s0, ch_path_validator := pv, ch_pacing := pe \<rparr>"
    using tx_prepared [OF assms(2) refl, of now] by blast
  have "ch_scheduler (gc_hot (prepared now c)) = s0" by (simp add: h1)
  then have "\<forall>t < 5. gs_queues s0 t = filter (\<lambda>i. \<not> is_expired i now) (gs_queues (ch_scheduler (gc_hot (tx_pto now c))) t)"
    using tx_housekeeping_hot [of now "tx_pto now c"] by auto
  then show ?thesis using kept(1-4) by (auto simp: h1 taken_def)
qed (use assms(4) in auto)

section \<open>From one end to the other\<close>

lemma tx_hdr_wf:
  "header_wf ((mark_acks fs (tx_header now h))\<lparr> ph_payload_len := len \<rparr>)"
  by (simp add: header_wf_def tx_header_facts min_header_len_def MIN_COMMON_HEADER_LEN_def)

lemma rx_open_current:
  assumes "key_phase (ph_flags hdr) = ch_key_phase h" and "rx_attempt env hdr aad (length buf) (ch_rx_protector h) buf = (buf', Ok n)"
  shows "rx_open env h hdr aad buf = (buf', Ok n)"
  using assms by (simp add: rx_open_def Let_def)

text \<open>A peer that holds the keys reads back exactly the payload that was sealed.\<close>

lemma sealed_authentic:
  fixes hot :: "'addr connection_hot" and peer :: "'peer connection_hot"
  assumes "holds_frames (tx_header now hot) n fs b" and "aead_ok (env_cipher env)" and "tx_seal env hot b = (buf, Ok len)"
    and "ch_connection_id peer = ch_connection_id hot" and "ch_rx_protector peer = ch_tx_protector hot"
    and "ch_key_phase peer = ch_key_phase hot" and "ReplayWindow_check (ch_replay_window peer) (ch_next_packet_number hot) = Ok ()"
  shows "\<exists>hdr. authentic env (take len buf) peer = Some (hdr, concat (map Frame_bytes fs)) \<and> ph_packet_number hdr = ch_next_packet_number hot"
proof -
  define hdr where "hdr = sealed_header now fs hot"
  obtain sealed rest where s: "take len buf = PacketHeader_bytes hdr @ sealed"
    "Protector_open (env_cipher env) (ch_tx_protector hot) (ch_next_packet_number hot) (ch_connection_id hot) (PacketHeader_bytes hdr) sealed
       (length sealed) = (concat (map Frame_bytes fs) @ rest, Ok (length (concat (map Frame_bytes fs))))"
    using tx_seal_result(2) [OF assms(1-3) refl] unfolding hdr_def by blast
  have f: "ph_connection_id hdr = ch_connection_id hot" "ph_packet_number hdr = ch_next_packet_number hot"
    "key_phase (ph_flags hdr) = ch_key_phase hot"
    by (simp_all add: hdr_def sealed_header_def tx_header_facts)
  have dec: "PacketHeader_decode (take len buf) = Ok (hdr, length (PacketHeader_bytes hdr))"
    unfolding s(1) by (rule PacketHeader_decode_bytes) (simp add: hdr_def sealed_header_def tx_hdr_wf)
  have "rx_open env peer hdr (PacketHeader_bytes hdr) sealed = (concat (map Frame_bytes fs) @ rest, Ok (length (concat (map Frame_bytes fs))))"
    using s(2) f assms(4-6) by (intro rx_open_current) (simp_all add: rx_attempt_def)
  then have "authentic env (take len buf) peer = Some (hdr, concat (map Frame_bytes fs))"
    using dec f assms(4,7) unfolding authentic_def s(1) by (simp del: length_PacketHeader_bytes add: append_eq_conv_conj [THEN iffD1, OF refl])
  with f(2) show ?thesis by blast
qed

lemma item_frame_delimited [simp]: "self_delimiting (item_frame i)"
  by (simp add: item_frame_def split: message_class.split)

lemma control_frame_delimited: "(\<forall>probe n. ctrl \<noteq> OutMtuProbe probe n) \<Longrightarrow> self_delimiting (build_control_frame ctrl)"
  by (cases ctrl) auto

lemma ack_frame_delimited: "is_Ack_frame f \<Longrightarrow> self_delimiting f"
  by (cases f) auto

lemma packet_payload_wf:
  assumes "assembled now hdr n h acks p h'" and "\<forall>probe n. OutMtuProbe probe n \<notin> set (ch_control_queue h)"
  shows "payload_wf (packet_frames acks p)"
proof -
  have "\<forall>f \<in> set (packet_frames acks p). self_delimiting f"
  proof -
    have "\<forall>f \<in> set acks. is_Ack_frame f" using assms(1) peek_ack_ok by (auto simp: assembled_def)
    moreover have "\<forall>ctrl \<in> set (tp_drained_controls p). \<forall>probe n. ctrl \<noteq> OutMtuProbe probe n"
      using assms by (fastforce simp: assembled_def)
    ultimately show ?thesis by (auto simp: packet_frames_def control_frame_delimited ack_frame_delimited)
  qed
  moreover have "\<forall>f \<in> set (packet_frames acks p). frame_wf f \<and> frame_sendable f"
    using assms(1) by (auto simp: assembled_def holds_frames_def frame_ok_def)
  ultimately show ?thesis unfolding payload_wf_def by (meson in_set_butlastD)
qed

text \<open>A datagram that was sent, with what it carries: acknowledgements, control frames and scheduled items.\<close>

definition carries :: "monotonic_time \<Rightarrow> 'addr gtp_connection \<Rightarrow> frame list \<Rightarrow> 'addr outgoing_control_frame list \<Rightarrow> schedulable_item list \<Rightarrow>
    'addr gtp_connection \<Rightarrow> bool" where
  "carries now c acks ds items c' \<longleftrightarrow>
     (acks = [] \<or> should_send_ack now (ch_ack_tracker (gc_hot c)) \<and>
        (\<exists>f. acks = [f] \<and> peek_ack_frame now (ch_ack_tracker (gc_hot c)) = Some f)) \<and>
     ch_control_queue (gc_hot c) = ds @ ch_control_queue (gc_hot c') \<and>
     (\<forall>t < 5. filter (\<lambda>i. \<not> is_expired i now) (gs_queues (ch_scheduler (gc_hot (tx_pto now c))) t) =
        of_tier t items @ gs_queues (ch_scheduler (gc_hot c')) t) \<and>
     (\<exists>sp. map_of (ld_sent_packets (ch_loss_detector (gc_hot c'))) (unat (ch_next_packet_number (gc_hot c))) = Some sp \<and>
        sp_retransmittable_frames sp = concat (map item_records items) \<and> sp_ack_eliciting sp = (ds \<noteq> [] \<or> items \<noteq> []))"

lemma sent_hot_fields:
  "ch_control_queue (sent_hot env now len p h) = ch_control_queue h" "ch_scheduler (sent_hot env now len p h) = ch_scheduler h"
  "ch_loss_detector (sent_hot env now len p h) =
     LossDetector_on_packet_sent (sent_record now len (ch_next_packet_number h) p) (ch_loss_detector h)"
  "ch_next_packet_number (sent_hot env now len p h) = PacketNumber_next (ch_next_packet_number h)"
  "ch_anti_amplification (sent_hot env now len p h) = on_bytes_sent len (ch_anti_amplification h)"
  by (simp_all add: sent_hot_def flush_fields record_sent_def)

lemma repathed_fields:
  assumes "repathed h h'"
  shows "ch_control_queue h' = ch_control_queue h" "ch_scheduler h' = ch_scheduler h" "ch_loss_detector h' = ch_loss_detector h"
    "ch_next_packet_number h' = ch_next_packet_number h" "ch_anti_amplification h' = ch_anti_amplification h"
  using assms by (auto simp: repathed_def)

lemma sent_carries:
  fixes c :: "'addr gtp_connection"
  assumes "tx_inv (gc_hot c)" and "assembled now hdr n (gc_hot (prepared now c)) acks p (gc_hot c2)"
    and "repathed ((sent_hot env now len p (gc_hot c2))\<lparr> ch_route_controller := ctl \<rparr>) (gc_hot c')"
  shows "carries now c acks (tp_drained_controls p) (tp_popped p) c'"
proof -
  let ?h1 = "gc_hot (prepared now c)"
  obtain ld cc s0 pv pe where h1: "?h1 =
      (gc_hot c)\<lparr> ch_loss_detector := ld, ch_cc := cc, ch_scheduler := s0, ch_path_validator := pv, ch_pacing := pe \<rparr>"
    using tx_prepared [OF assms(1) refl, of now] by blast
  obtain rest s where h2: "gc_hot c2 = ?h1\<lparr> ch_control_queue := rest, ch_scheduler := s \<rparr>"
    "ch_control_queue ?h1 = tp_drained_controls p @ rest" "taken (ch_scheduler ?h1) (tp_popped p) s"
    using assms(2) by (auto simp: assembled_def)
  have "ch_scheduler ?h1 = s0" by (simp add: h1)
  then have s0: "\<forall>t < 5. gs_queues s0 t = filter (\<lambda>i. \<not> is_expired i now) (gs_queues (ch_scheduler (gc_hot (tx_pto now c))) t)"
    using tx_housekeeping_hot [of now "tx_pto now c"] by auto
  let ?sp = "sent_record now len (ch_next_packet_number (gc_hot c)) p"
  have ld: "ch_loss_detector (gc_hot c') = LossDetector_on_packet_sent ?sp ld"
    using repathed_fields [OF assms(3)] by (simp add: sent_hot_fields h2(1) h1)
  have "tx_inv ?h1" using tx_prepared [OF assms(1) refl, of now] by blast
  then have wf: "ld_wf ld" by (simp add: h1 tx_inv_def hot_inv_def)
  have "map_of (ld_sent_packets (ch_loss_detector (gc_hot c'))) (unat (ch_next_packet_number (gc_hot c))) = Some ?sp"
    unfolding ld on_packet_sent_sent using wf by (simp add: om_store.lookup_ins ld_wf_def sent_record_def)
  moreover have "sp_retransmittable_frames ?sp = concat (map item_records (tp_popped p))"
    "sp_ack_eliciting ?sp = (tp_drained_controls p \<noteq> [] \<or> tp_popped p \<noteq> [])"
    using assms(2) by (simp_all add: assembled_def sent_record_def)
  moreover have "acks = [] \<or> should_send_ack now (ch_ack_tracker (gc_hot c)) \<and> (\<exists>f. acks = [f] \<and> peek_ack_frame now (ch_ack_tracker (gc_hot c)) = Some f)"
    using assms(2) by (simp add: assembled_def h1)
  ultimately show ?thesis
    using h2 s0 repathed_fields [OF assms(3)] by (simp add: carries_def sent_hot_fields h1 taken_def)
qed

text \<open>
  C1: what one end sends is what the other end dispatches. When a call returns a datagram of
  \<open>len\<close> bytes, a connected peer (same connection id, its receive key the sender's transmit key, same
  key phase, packet number not seen) that receives those bytes authenticates them and parses exactly:
  the pending acknowledgement or none, the control frames that left the front of the control queue,
  and the messages that left the fronts of the priority queues, in this order and nothing else; and
  the sender has filed the reliable ones under the packet number for retransmission. The queue may
  hold no MTU probe, whose padding takes the rest of a datagram.
\<close>

theorem transmit_end_to_end:
  fixes c :: "'addr gtp_connection" and peer :: "'peer gtp_connection"
  assumes "aead_ok (env_cipher env)" and "tx_inv (gc_hot c)" and "\<forall>probe n. OutMtuProbe probe n \<notin> set (ch_control_queue (gc_hot c))"
    and "produce_outgoing_datagram env now out_buf c = (c', buf, Ok (Some (dest, len)))"
    and "ch_state (gc_hot peer) \<noteq> Closed" and "ch_connection_id (gc_hot peer) = ch_connection_id (gc_hot c)"
    and "ch_rx_protector (gc_hot peer) = ch_tx_protector (gc_hot c)" and "ch_key_phase (gc_hot peer) = ch_key_phase (gc_hot c)"
    and "ReplayWindow_check (ch_replay_window (gc_hot peer)) (ch_next_packet_number (gc_hot c)) = Ok ()"
  shows "\<exists>acks ds items hdr plain. carries now c acks ds items c' \<and> ph_packet_number hdr = ch_next_packet_number (gc_hot c) \<and>
    handle_incoming_datagram_with_ecn env src (take len buf) later ecn peer =
      rx_payload env src hdr len later ecn plain (on_cold (count_rx len) peer) \<and>
    FrameIterator_collect (FrameIterator_new plain) =
      map (\<lambda>f. Ok (frame_canon f)) (acks @ map build_control_frame ds @ map item_frame items)"
  using assms(2,1,4)
proof (cases rule: produce_cases)
  case (sent c2 p acks len' ctl)
  let ?h1 = "gc_hot (prepared now c)" and ?fs = "packet_frames acks p"
  obtain ld cc s0 pv pe where h1: "?h1 =
      (gc_hot c)\<lparr> ch_loss_detector := ld, ch_cc := cc, ch_scheduler := s0, ch_path_validator := pv, ch_pacing := pe \<rparr>"
    using tx_prepared [OF assms(2) refl, of now] by blast
  have len: "len' = len" using sent(6) by simp
  obtain rest s where h2: "gc_hot c2 = ?h1\<lparr> ch_control_queue := rest, ch_scheduler := s \<rparr>"
    using sent(2) by (auto simp: assembled_def)
  have holds: "holds_frames (tx_header now (gc_hot c2)) (length out_buf) ?fs (tp_builder p)"
    using sent(2) by (auto simp: assembled_def tx_header_def)
  obtain hdr where hdr: "authentic env (take len buf) (gc_hot peer) = Some (hdr, concat (map Frame_bytes ?fs))"
      "ph_packet_number hdr = ch_next_packet_number (gc_hot c2)"
    using sealed_authentic [OF holds assms(1) sent(3) [unfolded len], of "gc_hot peer"] assms(6-9) by (auto simp: h2 h1)
  have "length (take len buf) = len" using tx_seal_result(2) [OF holds assms(1) sent(3)] len by auto
  then have "handle_incoming_datagram_with_ecn env src (take len buf) later ecn peer =
      rx_payload env src hdr len later ecn (concat (map Frame_bytes ?fs)) (on_cold (count_rx len) peer)"
    using handle_accepted [OF assms(1,5) hdr(1)] by simp
  moreover have "payload_wf ?fs" using assms(3) by (intro packet_payload_wf [OF sent(2)]) (simp add: h1)
  then have "FrameIterator_collect (FrameIterator_new (concat (map Frame_bytes ?fs))) = map (\<lambda>f. Ok (frame_canon f)) ?fs"
    using collect_frames [of ?fs "[]"] by (simp add: FrameIterator_new_def)
  moreover have "ph_packet_number hdr = ch_next_packet_number (gc_hot c)" using hdr(2) by (simp add: h2 h1)
  ultimately show ?thesis
    using sent_carries [OF assms(2) sent(2,5)] unfolding packet_frames_def by blast
qed auto

section \<open>Gates\<close>

text \<open>
  C19: a datagram leaves only through the gates. The connection is not closed, the anti-amplification
  limit of the path allows the whole length and is charged for it, the datagram fits the output
  buffer, it goes to the active path or to the destination of a queued path probe, the packet number
  advances by one, and unless the connection is established no scheduled message leaves its queue.
\<close>

theorem transmit_respects_gates:
  fixes c :: "'addr gtp_connection"
  assumes "aead_ok (env_cipher env)" and "tx_inv (gc_hot c)"
    and "produce_outgoing_datagram env now out_buf c = (c', buf, Ok (Some (dest, len)))"
  shows "ch_state (gc_hot c) \<noteq> Closed \<and> can_send len (ch_anti_amplification (gc_hot c)) \<and>
    ch_anti_amplification (gc_hot c') = on_bytes_sent len (ch_anti_amplification (gc_hot c)) \<and>
    24 \<le> len \<and> len \<le> length out_buf \<and> length buf = length out_buf \<and>
    (dest = ch_active_path (gc_hot c) \<or> (\<exists>ctrl \<in> set (ch_control_queue (gc_hot c)). control_dest ctrl = Some dest)) \<and>
    ch_next_packet_number (gc_hot c') = PacketNumber_next (ch_next_packet_number (gc_hot c)) \<and>
    (ch_state (gc_hot c) \<noteq> Established \<longrightarrow> (\<forall>t < 5. gs_queues (ch_scheduler (gc_hot c')) t =
       filter (\<lambda>i. \<not> is_expired i now) (gs_queues (ch_scheduler (gc_hot (tx_pto now c))) t)))"
  using assms(2,1,3)
proof (cases rule: produce_cases)
  case (sent c2 p acks len' ctl)
  let ?h1 = "gc_hot (prepared now c)"
  obtain ld cc s0 pv pe where h1: "?h1 =
      (gc_hot c)\<lparr> ch_loss_detector := ld, ch_cc := cc, ch_scheduler := s0, ch_path_validator := pv, ch_pacing := pe \<rparr>"
    using tx_prepared [OF assms(2) refl, of now] by blast
  obtain rest s where h2: "gc_hot c2 = ?h1\<lparr> ch_control_queue := rest, ch_scheduler := s \<rparr>"
    using sent(2) by (auto simp: assembled_def)
  have len: "len' = len" and dest: "dest = (case tp_override_dest p of Some d \<Rightarrow> d | None \<Rightarrow> ch_active_path (gc_hot c2))"
    using sent(6) by simp_all
  have holds: "holds_frames (tx_header now (gc_hot c2)) (length out_buf) (packet_frames acks p) (tp_builder p)"
    using sent(2) by (auto simp: assembled_def tx_header_def)
  have lens: "24 \<le> len" "len \<le> length out_buf" "length buf = length out_buf"
    using tx_seal_result(2) [OF holds assms(1) sent(3)] len by auto
  have "dest = ch_active_path (gc_hot c) \<or> (\<exists>ctrl \<in> set (ch_control_queue (gc_hot c)). control_dest ctrl = Some dest)"
    using sent(2) by (cases "tp_override_dest p") (auto simp: assembled_def dest h2 h1)
  moreover have "tp_popped p = []" if "ch_state (gc_hot c) \<noteq> Established"
    using sent(2) that by (simp add: assembled_def h1)
  ultimately show ?thesis
    using sent(1,4) lens repathed_fields [OF sent(5)] sent_carries [OF assms(2) sent(2,5)]
    by (simp add: len sent_hot_fields h2 h1 carries_def)
qed auto

section \<open>MTU probes\<close>

lemma MtuProbe_decode: "Frame_decode (Frame_bytes (MtuProbe probe n) @ rest) =
    Ok (MtuProbe probe (n + length rest), length (Frame_bytes (MtuProbe probe n)) + length rest)"
  by (simp add: Frame_decode_def Frame_bytes_def decode_defs field_reads frame_type_defs sat_sub_def)

text \<open>
  An MTU probe hides whatever follows it in its datagram. The receiver reads the rest of the
  payload as the probe's padding: no later frame is dispatched, nothing is counted as corrupted, and
  the packet is still acknowledged, so the sender takes the messages packed behind a probe as
  delivered. The transmit pipeline drains the control queue, probes included, before it packs data.
\<close>

theorem mtu_probe_hides_followers:
  "rx_loop env src now (FrameIterator_collect (FrameIterator_new (Frame_bytes (MtuProbe probe n) @ rest))) s =
     Ok (s\<lparr> rx_ack_eliciting := True \<rparr>)"
proof -
  let ?it = "FrameIterator_new (Frame_bytes (MtuProbe probe n) @ rest)"
  have "FrameIterator_collect ?it = [Ok (MtuProbe probe (n + length rest))]"
    using MtuProbe_decode [of probe n rest]
    by (subst collect_unfold_frame) (auto simp: FrameIterator_new_def collect_unfold_done Frame_bytes_def)
  then show ?thesis by (simp add: rx_frame_def)
qed

section \<open>Room for the tag\<close>

lemma prepared_fields:
  assumes "tx_inv (gc_hot c)"
  shows "ch_state (gc_hot (prepared now c)) = ch_state (gc_hot c)" "ch_control_queue (gc_hot (prepared now c)) = ch_control_queue (gc_hot c)"
    "ch_ack_tracker (gc_hot (prepared now c)) = ch_ack_tracker (gc_hot c)" "ch_tx_protector (gc_hot (prepared now c)) = ch_tx_protector (gc_hot c)"
    "ch_connection_id (gc_hot (prepared now c)) = ch_connection_id (gc_hot c)"
    "ch_anti_amplification (gc_hot (prepared now c)) = ch_anti_amplification (gc_hot c)"
  using tx_prepared [OF assms refl, of now] by auto

lemma assembled_fields:
  assumes "assembled now hdr n h acks p h'"
  shows "ch_tx_protector h' = ch_tx_protector h" "ch_connection_id h' = ch_connection_id h" "ch_anti_amplification h' = ch_anti_amplification h"
    "ch_control_queue h = tp_drained_controls p @ ch_control_queue h'"
proof -
  obtain rest s where "h' = h\<lparr> ch_control_queue := rest, ch_scheduler := s \<rparr>" "ch_control_queue h = tp_drained_controls p @ rest"
    using assms unfolding assembled_def by blast
  then show "ch_tx_protector h' = ch_tx_protector h" "ch_connection_id h' = ch_connection_id h" "ch_anti_amplification h' = ch_anti_amplification h"
    "ch_control_queue h = tp_drained_controls p @ ch_control_queue h'" by simp_all
qed

text \<open>A sequence of transmit calls into one buffer, as the transmit loop makes them; the outcomes.\<close>

fun produce_run :: "conn_env \<Rightarrow> monotonic_time list \<Rightarrow> bytes \<Rightarrow> 'addr gtp_connection \<Rightarrow> ('addr \<times> nat) option result list" where
  "produce_run env [] out_buf c = []"
| "produce_run env (now # nows) out_buf c =
     (let (c', buf, r) = produce_outgoing_datagram env now out_buf c in r # produce_run env nows buf c')"

text \<open>The queue head leaves no room for the tag.\<close>

definition blocked :: "nat \<Rightarrow> 'addr connection_hot \<Rightarrow> bool" where
  "blocked n h \<longleftrightarrow> (\<exists>ctrl rest p. ch_control_queue h = ctrl # rest \<and> ch_tx_protector h = Aead p \<and> check_binding p (ch_connection_id h) = Ok () \<and>
     24 + length (Frame_bytes (build_control_frame ctrl)) \<le> n \<and> n < 40 + length (Frame_bytes (build_control_frame ctrl)) \<and> n \<le> 65535)"

lemma blocked_call:
  fixes c :: "'addr gtp_connection"
  assumes "tx_inv (gc_hot c)" and "ch_state (gc_hot c) \<noteq> Closed" and "blocked (length out_buf) (gc_hot c)"
    and "\<not> should_send_ack now (ch_ack_tracker (gc_hot c))"
  shows "\<exists>s buf. produce_outgoing_datagram env now out_buf c = (on_hot (\<lambda>h. h\<lparr> ch_scheduler := s \<rparr>) (prepared now c), buf, Err BufferTooShort) \<and>
    length buf = length out_buf \<and> sched_wf s"
proof -
  let ?h1 = "gc_hot (prepared now c)"
  note pf = prepared_fields [OF assms(1), of now]
  obtain ctrl rest q where b: "ch_control_queue (gc_hot c) = ctrl # rest" "ch_tx_protector (gc_hot c) = Aead q"
    "check_binding q (ch_connection_id (gc_hot c)) = Ok ()" "24 + length (Frame_bytes (build_control_frame ctrl)) \<le> length out_buf"
    "length out_buf < 40 + length (Frame_bytes (build_control_frame ctrl))" "length out_buf \<le> 65535"
    using assms(3) by (auto simp: blocked_def)
  have busy: "\<not> (ch_state (gc_hot c) = Draining \<and> ch_control_queue (gc_hot c) = [])" and n: "24 \<le> length out_buf"
    using b(1,4) by simp_all
  have wanted: "tx_wanted now ?h1" by (simp add: tx_wanted_def Let_def pf b(1))
  obtain c2 :: "'addr gtp_connection" and p acks where tr: "produce_outgoing_datagram env now out_buf c = tx_transmit env now p c2"
    and a: "c2 = on_hot (\<lambda>_. gc_hot c2) (prepared now c)"
      "assembled now (tx_header now (gc_hot c2)) (length out_buf) ?h1 acks p (gc_hot c2)"
    by (rule produce_assembles [OF assms(1,2) busy wanted n])
  note af = assembled_fields [OF a(2)]
  have "acks = []" using a(2) assms(4) pf by (auto simp: assembled_def)
  then have "tp_drained_controls p \<noteq> []" using a(2) b(1,4) pf by (auto simp: assembled_def)
  then obtain ds where "tp_drained_controls p = ctrl # ds" using af(4) pf b(1) by (cases "tp_drained_controls p") auto
  then have size: "length (Frame_bytes (build_control_frame ctrl)) \<le> frames_size (packet_frames acks p)" by (simp add: packet_frames_def)
  have "holds_frames (tx_header now (gc_hot c2)) (length out_buf) (packet_frames acks p) (tp_builder p)"
    using a(2) by (simp add: assembled_def)
  then obtain buf where seal: "tx_seal env (gc_hot c2) (tp_builder p) = (buf, Err BufferTooShort)" "length buf = length out_buf"
    using tx_seal_no_room [of now "gc_hot c2" "length out_buf" "packet_frames acks p" "tp_builder p" q env] b(2,3,5,6) size af pf by auto
  have wf: "sched_wf (ch_scheduler ?h1)" using tx_prepared [OF assms(1) refl, of now] by (simp add: tx_inv_def hot_inv_def)
  from tx_reject_result [OF a(2,1) wf] seal tr show ?thesis by (auto simp: tx_transmit_def taken_def)
qed

text \<open>
  C20: a queued control frame that ends within 16 bytes of the output buffer stops the connection. The
  packet builder admits it, because it does not reserve room for the AEAD tag, sealing then fails and
  the frame returns to the front of the queue: every later call fails in the same way, and no data,
  no other control frame and no close leaves until an acknowledgement is due. The frame
  \<^verbatim>\<open>trigger_mtu_probe\<close> queues for a probe of the size of the buffer is such a frame. Stated for
  a connection that is not closed and seals with an AEAD protector bound to it, whose control queue is
  empty when the probe is triggered (frames queued before the probe leave first, in a datagram of
  their own or by filling it up), for an output buffer of 32 to 65535 bytes, and for transmit calls at
  times at which no acknowledgement is due.
\<close>

theorem probe_of_buffer_size_stalls:
  fixes c :: "'addr gtp_connection"
  assumes "tx_inv (gc_hot c)" and "ch_state (gc_hot c) \<noteq> Closed" and "ch_control_queue (gc_hot c) = []"
    and "ch_tx_protector (gc_hot c) = Aead p" and "check_binding p (ch_connection_id (gc_hot c)) = Ok ()"
    and "32 \<le> length out_buf" and "length out_buf \<le> 65535" and "\<forall>now \<in> set nows. \<not> should_send_ack now (ch_ack_tracker (gc_hot c))"
    and "trigger_mtu_probe probe (length out_buf) c = (c', r)"
  shows "produce_run env nows out_buf c' = replicate (length nows) (Err BufferTooShort)"
proof -
  have h: "gc_hot c' = (gc_hot c)\<lparr> ch_control_queue := [OutMtuProbe probe (length out_buf - 32)] \<rparr>"
    using assms(3,9) by (auto simp: trigger_mtu_probe_def queue_control_def sat_sub_def)
  have "frame_ok (MtuProbe probe (length out_buf - 32))" using assms(7) by (auto simp: frame_ok_def u64_modulus_def)
  then have "tx_inv (gc_hot c')" using assms(1) by (simp add: h tx_inv_def hot_inv_simps control_ok_def)
  moreover have "blocked (length out_buf) (gc_hot c')"
    using assms(4-7) by (auto simp: blocked_def h Frame_bytes_def)
  moreover have "ch_state (gc_hot c') \<noteq> Closed" "ch_ack_tracker (gc_hot c') = ch_ack_tracker (gc_hot c)" using assms(2) by (simp_all add: h)
  ultimately show ?thesis
    using assms(8)
  proof (induction nows arbitrary: c' out_buf)
    case (Cons now nows)
    obtain s buf where call: "produce_outgoing_datagram env now out_buf c' =
        (on_hot (\<lambda>h. h\<lparr> ch_scheduler := s \<rparr>) (prepared now c'), buf, Err BufferTooShort)" "length buf = length out_buf" "sched_wf s"
      using blocked_call [OF Cons.prems(1,3,2), of now env] Cons.prems(4,5) by auto
    let ?c2 = "on_hot (\<lambda>h. h\<lparr> ch_scheduler := s \<rparr>) (prepared now c')"
    note pf = prepared_fields [OF Cons.prems(1), of now]
    have "tx_inv (gc_hot ?c2)" using tx_prepared [OF Cons.prems(1) refl, of now] call(3) by (simp add: tx_inv_updates)
    moreover have "blocked (length buf) (gc_hot ?c2)" using Cons.prems(2) call(2) by (simp add: blocked_def pf)
    ultimately have "produce_run env nows buf ?c2 = replicate (length nows) (Err BufferTooShort)"
      using Cons.prems(3-5) by (intro Cons.IH) (simp_all add: pf)
    then show ?case using call(1) by simp
  qed simp
qed

section \<open>Progress\<close>

lemma peek_ack_size: "peek_ack_frame now t = Some f \<Longrightarrow> length (Frame_bytes f) \<le> 282"
proof -
  assume "peek_ack_frame now t = Some f"
  then have "is_Ack_frame f" using peek_ack_ok by blast
  then show ?thesis
    by (cases f) (simp_all add: Frame_bytes_def Let_def MAX_ACK_RANGES_def min_def)
qed

lemma assembled_no_data:
  assumes "assembled now hdr n (gc_hot (prepared now c)) acks p h2" and "tx_inv (gc_hot c)"
    and "ch_state (gc_hot c) \<noteq> Established \<or> (\<forall>t < 5. gs_queues (ch_scheduler (gc_hot (tx_pto now c))) t = [])"
  shows "tp_popped p = []"
proof (cases "ch_state (gc_hot c) = Established")
  case True
  obtain s where s: "taken (ch_scheduler (gc_hot (prepared now c))) (tp_popped p) s" using assms(1) by (auto simp: assembled_def)
  have "\<forall>t < 5. gs_queues (ch_scheduler (gc_hot (prepared now c))) t = []"
    using tx_housekeeping_hot [of now "tx_pto now c"] assms(3) True by auto
  then have "\<forall>t < 5. of_tier t (tp_popped p) = []" using s by (simp add: taken_def)
  then show ?thesis by (cases "tp_popped p") (auto dest: spec [of _ "item_tier (hd (tp_popped p))"])
qed (use assms(1) prepared_fields [OF assms(2), of now] in \<open>simp add: assembled_def\<close>)

lemma assembled_drains:
  assumes "assembled now (tx_header now h2) n h acks p h2" and "ch_control_queue h \<noteq> []"
    and "306 + frames_size (map build_control_frame (ch_control_queue h)) \<le> n"
  shows "frames_size acks \<le> 282" and "tp_drained_controls p \<noteq> []"
proof -
  show acks: "frames_size acks \<le> 282" using assms(1) peek_ack_size by (fastforce simp: assembled_def)
  show "tp_drained_controls p \<noteq> []"
  proof
    assume "tp_drained_controls p = []"
    then have "n < 24 + frames_size acks + length (Frame_bytes (build_control_frame (hd (ch_control_queue h))))"
      using assms(1,2) by (simp add: assembled_def)
    moreover have "length (Frame_bytes (build_control_frame (hd (ch_control_queue h)))) \<le> frames_size (map build_control_frame (ch_control_queue h))"
      using assms(2) by (cases "ch_control_queue h") simp_all
    ultimately show False using acks assms(3) by linarith
  qed
qed

lemma control_call:
  fixes c :: "'addr gtp_connection"
  assumes "aead_ok (env_cipher env)" and "tx_inv (gc_hot c)" and "ch_state (gc_hot c) \<noteq> Closed" and "ch_control_queue (gc_hot c) \<noteq> []"
    and "sealable env (gc_hot c)" and "aa_validated (ch_anti_amplification (gc_hot c))"
    and "322 + frames_size (map build_control_frame (ch_control_queue (gc_hot c))) \<le> length out_buf" and "length out_buf \<le> 65535"
    and "ch_state (gc_hot c) \<noteq> Established \<or> (\<forall>t < 5. gs_queues (ch_scheduler (gc_hot (tx_pto now c))) t = [])"
  obtains c' buf dest len and c2 :: "'addr gtp_connection" and p acks ctl where "produce_outgoing_datagram env now out_buf c = (c', buf, Ok (Some (dest, len)))"
    and "assembled now (tx_header now (gc_hot c2)) (length out_buf) (gc_hot (prepared now c)) acks p (gc_hot c2)"
    and "repathed ((sent_hot env now len p (gc_hot c2))\<lparr> ch_route_controller := ctl \<rparr>) (gc_hot c')"
    and "length buf = length out_buf" and "len \<le> length out_buf" and "tp_drained_controls p \<noteq> []"
    and "ch_control_queue (gc_hot c) = tp_drained_controls p @ ch_control_queue (gc_hot c')"
proof -
  let ?h1 = "gc_hot (prepared now c)"
  note pf = prepared_fields [OF assms(2), of now]
  have busy: "\<not> (ch_state (gc_hot c) = Draining \<and> ch_control_queue (gc_hot c) = [])" and n: "24 \<le> length out_buf"
    using assms(4,7) by simp_all
  have wanted: "tx_wanted now ?h1" using assms(4) by (simp add: tx_wanted_def Let_def pf)
  obtain c2 :: "'addr gtp_connection" and p acks where tr: "produce_outgoing_datagram env now out_buf c = tx_transmit env now p c2"
    and a: "c2 = on_hot (\<lambda>_. gc_hot c2) (prepared now c)"
      "assembled now (tx_header now (gc_hot c2)) (length out_buf) ?h1 acks p (gc_hot c2)"
    by (rule produce_assembles [OF assms(2,3) busy wanted n])
  note af = assembled_fields [OF a(2)]
  have acks: "frames_size acks \<le> 282" and drained: "tp_drained_controls p \<noteq> []"
    using assembled_drains [OF a(2)] assms(4,7) pf by simp_all
  have items: "tp_popped p = []" by (rule assembled_no_data [OF a(2) assms(2,9)])
  have all: "frames_size (map build_control_frame (tp_drained_controls p)) \<le> frames_size (map build_control_frame (ch_control_queue (gc_hot c)))"
    using af(4) pf by simp
  have holds: "holds_frames (tx_header now (gc_hot c2)) (length out_buf) (packet_frames acks p) (tp_builder p)"
    using a(2) by (simp add: assembled_def)
  have "tag_len (ch_tx_protector (gc_hot c2)) \<le> 16" by (cases "ch_tx_protector (gc_hot c2)") (simp_all add: AEAD_TAG_LEN_def)
  moreover have "frames_size (packet_frames acks p) \<le> 282 + frames_size (map build_control_frame (ch_control_queue (gc_hot c)))"
    using acks all by (simp add: packet_frames_def items)
  ultimately have "24 + frames_size (packet_frames acks p) + tag_len (ch_tx_protector (gc_hot c2)) \<le> length out_buf" using assms(7) by linarith
  moreover have "sealable env (gc_hot c2)" using assms(5) af pf sealable_cong by metis
  ultimately obtain buf len where seal: "tx_seal env (gc_hot c2) (tp_builder p) = (buf, Ok len)"
    using tx_seal_room [OF holds _ _ assms(8), of env] by (metis prod.collapse)
  obtain c' ctl where com: "tx_commit env now len p c2 =
      (c', Ok (Some (case tp_override_dest p of Some d \<Rightarrow> d | None \<Rightarrow> ch_active_path (gc_hot c2), len)))"
    "repathed ((sent_hot env now len p (gc_hot c2))\<lparr> ch_route_controller := ctl \<rparr>) (gc_hot c')"
    using tx_commit_result by blast
  have queue: "ch_control_queue (gc_hot c) = tp_drained_controls p @ ch_control_queue (gc_hot c')"
    using repathed_fields(1) [OF com(2)] af(4) pf by (simp add: sent_hot_fields)
  have "produce_outgoing_datagram env now out_buf c =
      (c', buf, Ok (Some (case tp_override_dest p of Some d \<Rightarrow> d | None \<Rightarrow> ch_active_path (gc_hot c2), len)))"
    using tr seal com(1) assms(6) af(3) pf by (auto simp: tx_transmit_def can_send_def Let_def)
  moreover have "length buf = length out_buf" "len \<le> length out_buf" using tx_seal_result(2) [OF holds assms(1) seal refl] by blast+
  ultimately show thesis using that a(2) com(2) drained queue by blast
qed

lemma control_sent:
  fixes c :: "'addr gtp_connection"
  assumes "aead_ok (env_cipher env)" and "tx_inv (gc_hot c)" and "ch_state (gc_hot c) \<noteq> Closed" and "ch_control_queue (gc_hot c) \<noteq> []"
    and "sealable env (gc_hot c)" and "aa_validated (ch_anti_amplification (gc_hot c))"
    and "322 + frames_size (map build_control_frame (ch_control_queue (gc_hot c))) \<le> length out_buf" and "length out_buf \<le> 65535"
    and "ch_state (gc_hot c) \<noteq> Established \<or> (\<forall>t < 5. gs_queues (ch_scheduler (gc_hot (tx_pto now c))) t = [])"
  shows "\<exists>c' buf dest len. produce_outgoing_datagram env now out_buf c = (c', buf, Ok (Some (dest, len))) \<and>
    length (ch_control_queue (gc_hot c')) < length (ch_control_queue (gc_hot c))"
  by (rule control_call [OF assms]) auto

text \<open>
  Queued control frames are sent. On a connection that is not closed and whose path is validated,
  when the output buffer has room for an acknowledgement of the largest size, all queued control
  frames and the tag, and no data competes for the room, the call returns a datagram and the control
  queue has become shorter.
\<close>

theorem queued_control_is_sent:
  fixes c :: "'addr gtp_connection"
  assumes "aead_ok (env_cipher env)" and "tx_inv (gc_hot c)" and "ch_state (gc_hot c) \<noteq> Closed" and "ch_control_queue (gc_hot c) \<noteq> []"
    and "sealable env (gc_hot c)" and "aa_validated (ch_anti_amplification (gc_hot c))"
    and "322 + frames_size (map build_control_frame (ch_control_queue (gc_hot c))) \<le> length out_buf" and "length out_buf \<le> 65535"
    and "ch_state (gc_hot c) \<noteq> Established \<or> (\<forall>t < 5. gs_queues (ch_scheduler (gc_hot (tx_pto now c))) t = [])"
  shows "\<exists>c' buf dest len. produce_outgoing_datagram env now out_buf c = (c', buf, Ok (Some (dest, len))) \<and>
    length (ch_control_queue (gc_hot c')) < length (ch_control_queue (gc_hot c))"
  by (rule control_sent [OF assms])

section \<open>A concrete exchange\<close>

definition sample_ping :: "nat gtp_connection" where
  "sample_ping = queue_control (OutPing 7) sample_conn"

definition sample_receiver :: "nat gtp_connection" where
  "sample_receiver = on_hot (\<lambda>h. h\<lparr> ch_rx_protector := ch_tx_protector sample_hot \<rparr>) sample_conn"

lemma sample_idle:
  "ch_control_queue sample_hot = []" "ch_next_packet_number sample_hot = 1" "ld_sent_packets (ch_loss_detector sample_hot) = []"
  "ld_inflight_bytes (ch_loss_detector sample_hot) = 0" "ch_tx_protector sample_hot = Aead (new_for_cid [1] [2] 7)"
  "ch_connection_id sample_hot = 7" "aa_validated (ch_anti_amplification sample_hot)" "ch_state sample_hot = Established"
  "inflight_scan (ch_loss_detector sample_hot) = 0" "ch_replay_window sample_hot = ReplayWindow_new" "ch_active_path sample_hot = 1"
  by (simp_all add: sample_hot_def hot_build_def build_with_config_def Let_def LossDetector_default_def mark_validated_def inflight_scan_def om_total_def)

lemma sample_conn_hot [simp]: "gc_hot sample_conn = sample_hot"
  by (simp add: sample_conn_def)

lemma sample_ping_hot: "gc_hot sample_ping = sample_hot\<lparr> ch_control_queue := [OutPing 7] \<rparr>"
  by (simp add: sample_ping_def queue_control_def sample_idle)

lemma sample_tx_inv: "tx_inv sample_hot" "tx_inv (gc_hot sample_ping)"
proof -
  show inv: "tx_inv sample_hot" using sample_conn_inv by (simp add: tx_inv_def sample_idle)
  then show "tx_inv (gc_hot sample_ping)"
    by (simp add: sample_ping_hot tx_inv_def hot_inv_simps control_ok_def frame_ok_def)
qed

lemma sample_ping_ready:
  "ch_state (gc_hot sample_ping) \<noteq> Established \<or> (\<forall>t < 5. gs_queues (ch_scheduler (gc_hot (tx_pto 5 sample_ping))) t = [])"
  "sealable sample_env (gc_hot sample_ping)"
proof -
  have "tx_pto 5 sample_ping = sample_ping" by (simp add: tx_pto_def pto_expired_def sample_ping_hot sample_idle Let_def)
  moreover have "gs_queues (ch_scheduler sample_hot) t = []" for t
    by (simp add: sample_hot_def hot_build_def build_with_config_def Let_def with_per_tier_byte_caps_def with_per_tier_caps_and_item_limit_def)
  ultimately show "ch_state (gc_hot sample_ping) \<noteq> Established \<or> (\<forall>t < 5. gs_queues (ch_scheduler (gc_hot (tx_pto 5 sample_ping))) t = [])"
    by (simp add: sample_ping_hot)
  show "sealable sample_env (gc_hot sample_ping)"
    by (simp add: sealable_def sample_ping_hot sample_idle new_for_cid_def sample_env_def test_cipher_def)
qed

lemma sample_ping_sent:
  "\<exists>c' buf dest len. produce_outgoing_datagram sample_env 5 (replicate 400 0) sample_ping = (c', buf, Ok (Some (dest, len))) \<and>
     length (ch_control_queue (gc_hot c')) < length (ch_control_queue (gc_hot sample_ping))"
  by (rule control_sent [OF sample_env_ok sample_tx_inv(2) _ _ sample_ping_ready(2) _ _ _ sample_ping_ready(1)])
     (simp_all add: sample_ping_hot sample_idle Frame_bytes_def)

theorem transmit_total_and_invariant_witness:
  "tx_inv (gc_hot (fst (produce_outgoing_datagram sample_env 5 (replicate 400 0) sample_ping)))"
proof -
  obtain c' buf r where p: "produce_outgoing_datagram sample_env 5 (replicate 400 0) sample_ping = (c', buf, r)" using prod_cases3 by blast
  from transmit_total_and_invariant [OF sample_env_ok sample_tx_inv(2) _ _ p] show ?thesis
    by (simp add: p sample_ping_hot sample_idle u64_max_def)
qed

theorem unsent_work_stays_queued_witness:
  "ch_control_queue (gc_hot (fst (produce_outgoing_datagram sample_env 5 [0, 0, 0] sample_ping))) = [OutPing 7]"
proof -
  obtain c' buf r where p: "produce_outgoing_datagram sample_env 5 [0, 0, 0] sample_ping = (c', buf, r)" using prod_cases3 by blast
  moreover have "\<forall>d. r \<noteq> Ok (Some d)"
    using p prepared_fields [OF sample_tx_inv(2), of 5] by (auto simp: produce_outgoing_datagram_def Let_def PacketBuilder_new_def
        tx_header_facts MIN_COMMON_HEADER_LEN_def sample_ping_hot sample_idle split: if_splits)
  ultimately show ?thesis
    using unsent_work_stays_queued [OF sample_env_ok sample_tx_inv(2), of 5 "[0, 0, 0]" c' buf r] by (simp add: sample_ping_hot)
qed

theorem transmit_end_to_end_witness:
  "\<exists>c' buf dest len acks ds items hdr plain. produce_outgoing_datagram sample_env 5 (replicate 400 0) sample_ping = (c', buf, Ok (Some (dest, len))) \<and>
     carries 5 sample_ping acks ds items c' \<and>
     handle_incoming_datagram_with_ecn sample_env 9 (take len buf) 6 0 sample_receiver =
       rx_payload sample_env 9 hdr len 6 0 plain (on_cold (count_rx len) sample_receiver) \<and>
     FrameIterator_collect (FrameIterator_new plain) =
       map (\<lambda>f. Ok (frame_canon f)) (acks @ map build_control_frame ds @ map item_frame items)"
proof -
  obtain c' buf dest len where p: "produce_outgoing_datagram sample_env 5 (replicate 400 0) sample_ping = (c', buf, Ok (Some (dest, len)))"
    using sample_ping_sent by blast
  have "ReplayWindow_check (ch_replay_window (gc_hot sample_receiver)) (ch_next_packet_number (gc_hot sample_ping)) = Ok ()"
    by (simp add: sample_receiver_def sample_ping_hot sample_idle ReplayWindow_check_def ReplayWindow_new_def)
  then show ?thesis
    using transmit_end_to_end [OF sample_env_ok sample_tx_inv(2) _ p, of sample_receiver 9 6 0] p
    by (fastforce simp: sample_receiver_def sample_ping_hot sample_idle)
qed

theorem transmit_respects_gates_witness:
  "\<exists>c' buf dest len. produce_outgoing_datagram sample_env 5 (replicate 400 0) sample_ping = (c', buf, Ok (Some (dest, len))) \<and>
     dest = 1 \<and> len \<le> 400 \<and> ch_next_packet_number (gc_hot c') = 2"
proof -
  obtain c' buf dest len where p: "produce_outgoing_datagram sample_env 5 (replicate 400 0) sample_ping = (c', buf, Ok (Some (dest, len)))"
    using sample_ping_sent by blast
  from transmit_respects_gates [OF sample_env_ok sample_tx_inv(2) p] p show ?thesis
    by (auto simp: sample_ping_hot sample_idle PacketNumber_next_def)
qed

theorem probe_of_buffer_size_stalls_witness:
  "produce_run sample_env [5, 6, 7] (replicate 1500 0) (fst (trigger_mtu_probe 1 1500 sample_conn)) =
     [Err BufferTooShort, Err BufferTooShort, Err BufferTooShort]"
proof -
  obtain c' r where t: "trigger_mtu_probe 1 1500 sample_conn = (c', r)" by fastforce
  have "\<not> should_send_ack now (ch_ack_tracker sample_hot)" for now
    by (simp add: sample_hot_def hot_build_def build_with_config_def Let_def should_send_ack_def AckTracker_with_policy_def AckTracker_default_def)
  then show ?thesis
    using probe_of_buffer_size_stalls [of sample_conn "new_for_cid [1] [2] 7" "replicate 1500 0" "[5, 6, 7]" 1 c' r sample_env] sample_tx_inv(1) t
    by (simp add: sample_idle new_for_cid_def numeral_3_eq_3)
qed

theorem queued_control_is_sent_witness:
  "\<exists>c' buf dest len. produce_outgoing_datagram sample_env 5 (replicate 400 0) sample_ping = (c', buf, Ok (Some (dest, len))) \<and>
     ch_control_queue (gc_hot c') = []"
  using queued_control_is_sent [OF sample_env_ok sample_tx_inv(2) _ _ sample_ping_ready(2) _ _ _ sample_ping_ready(1), of "replicate 400 0"]
  by (simp add: sample_ping_hot sample_idle Frame_bytes_def)

end
