(* ===== verification/Conn_Amplification.thy ===== *)
theory Conn_Amplification
  imports Conn_Exchange
begin

text \<open>
  Amplification, at the level of the connection (\<^verbatim>\<open>connection.rs\<close> with
  \<^verbatim>\<open>gtp-path/src/anti_amplification.rs\<close>): what a connection whose path has not been validated does over
  a history of calls. The history is a list of calls into the two pipelines and into the operations
  that queue directed frames; \<open>conn_run\<close> makes them one after the other on the model of the
  connection and collects the datagrams that left. It adds no check of its own.
\<close>

section \<open>Receiving keeps what transmitting needs\<close>

lemma path_response_ok: "frame_wf (PathChallenge d) \<Longrightarrow> control_ok (OutPathResponse d src)"
  by (simp add: control_ok_def frame_ok_def)

text \<open>The datagram opened the path: it is authentic and came from the active path, or it answers the pending challenge.\<close>

definition opens_path :: "conn_env \<Rightarrow> 'addr \<Rightarrow> bytes \<Rightarrow> monotonic_time \<Rightarrow> 'addr connection_hot \<Rightarrow> bool" where
  "opens_path env src datagram now h \<longleftrightarrow> (\<exists>hdr plain. authentic env datagram h = Some (hdr, plain) \<and>
     (src = ch_active_path h \<or> (\<exists>data start. Ok (PathResponse data) \<in> set (FrameIterator_collect (FrameIterator_new plain)) \<and>
        pv_pending_challenge (ch_path_validator h) = Some (src, data, start) \<and> duration_since now start \<le> PATH_CHALLENGE_TIMEOUT)))"

definition same_path :: "'addr connection_hot \<Rightarrow> 'addr connection_hot \<Rightarrow> bool" where
  "same_path h h' \<longleftrightarrow> ch_active_path h' = ch_active_path h \<and> ch_anti_amplification h' = ch_anti_amplification h"

lemma received_accepted:
  assumes "aead_ok (env_cipher env)" and "tx_inv (gc_hot c)" and "ch_gen_counter (gc_hot c) + length datagram \<le> u64_max"
    and "ch_state (gc_hot c) \<noteq> Closed" and "authentic env datagram (gc_hot c) = Some (hdr, plain)"
    and "handle_incoming_datagram_with_ecn env src datagram now ecn c = (c', r)"
  shows "tx_inv (gc_hot c') \<and> ch_gen_counter (gc_hot c') \<le> ch_gen_counter (gc_hot c) + length datagram \<and>
    (same_path (gc_hot c) (gc_hot c') \<or> opens_path env src datagram now (gc_hot c) \<and> ch_active_path (gc_hot c') = src)"
proof -
  have inv: "hot_inv (gc_hot c)" using assms(2) by (simp add: tx_inv_def)
  let ?c = "rx_authenticated src (length datagram) hdr now (on_cold (count_rx (length datagram)) c)"
  obtain c1 t st where c': "gc_hot c' = (gc_hot c1)\<lparr> ch_ack_tracker := t, ch_state := st \<rparr>"
    and tch: "rx_touches (frames_of plain) src now ?c c1" and gen: "ch_gen_counter (gc_hot c') \<le> ch_gen_counter (gc_hot c) + length datagram"
    by (rule receive_touches [OF assms(1) inv assms(3-6)])
  have inv': "hot_inv (gc_hot c')" using receive_ok [OF assms(1) inv assms(3,6)] by simp
  obtain rs where rs: "ch_control_queue (gc_hot c') = ch_control_queue (gc_hot c) @ rs"
      "\<forall>f \<in> set rs. \<exists>d. PathChallenge d \<in> frames_of plain \<and> f = OutPathResponse d src"
    using tch by (auto simp: rx_touches_def queue_touched_def c' rx_authenticated_hot)
  have "length plain < u64_modulus"
    using authentic_plain_length [OF assms(1,5)] assms(3) by (simp add: u64_max_def u64_modulus_def)
  then have "\<forall>f \<in> set rs. control_ok f"
    using rs(2) collect_wf [of _ "FrameIterator_new plain"] by (fastforce simp: frames_of_def FrameIterator_new_def intro: path_response_ok)
  moreover have "ld_wf (ch_loss_detector (gc_hot c))" using inv by (simp add: hot_inv_simps)
  then have "dom (map_of (ld_sent_packets (ch_loss_detector (gc_hot c')))) \<subseteq> dom (map_of (ld_sent_packets (ch_loss_detector (gc_hot c))))"
    using tch by (simp add: rx_touches_def sent_touched_def c' rx_authenticated_hot)
  then have "fst ` set (ld_sent_packets (ch_loss_detector (gc_hot c'))) \<subseteq> fst ` set (ld_sent_packets (ch_loss_detector (gc_hot c)))"
    by (simp add: dom_map_of_conv_image_fst)
  moreover have "ch_next_packet_number (gc_hot c') = ch_next_packet_number (gc_hot c)"
    using tch by (simp add: rx_touches_def rx_fixed_def c' rx_authenticated_hot)
  ultimately have "tx_inv (gc_hot c')" using assms(2) inv' rs(1) unfolding tx_inv_def by fastforce
  moreover have "same_path (gc_hot c) (gc_hot c') \<or> opens_path env src datagram now (gc_hot c) \<and> ch_active_path (gc_hot c') = src"
    using tch assms(5) unfolding rx_touches_def path_touched_def frames_of_def same_path_def opens_path_def
    by (auto simp: c' rx_authenticated_hot split: if_splits)
  ultimately show ?thesis using gen by blast
qed

lemma received:
  assumes "aead_ok (env_cipher env)" and "tx_inv (gc_hot c)" and "ch_gen_counter (gc_hot c) + length datagram \<le> u64_max"
    and "handle_incoming_datagram_with_ecn env src datagram now ecn c = (c', r)"
  shows "tx_inv (gc_hot c') \<and> ch_gen_counter (gc_hot c') \<le> ch_gen_counter (gc_hot c) + length datagram \<and>
    (same_path (gc_hot c) (gc_hot c') \<or> opens_path env src datagram now (gc_hot c) \<and> ch_active_path (gc_hot c') = src)"
proof -
  consider (closed) "ch_state (gc_hot c) = Closed" | (rejected) "ch_state (gc_hot c) \<noteq> Closed" "authentic env datagram (gc_hot c) = None"
    | (accepted) hdr plain where "ch_state (gc_hot c) \<noteq> Closed" "authentic env datagram (gc_hot c) = Some (hdr, plain)" by fastforce
  then show ?thesis
  proof cases
    case closed
    then show ?thesis using assms(2,4) by (auto simp: handle_incoming_datagram_with_ecn_def same_path_def)
  next
    case rejected
    then show ?thesis using handle_rejected [OF assms(1) rejected, of src now ecn] assms(2,4) by (auto simp: same_path_def)
  next
    case accepted
    then show ?thesis by (rule received_accepted [OF assms(1-3) _ _ assms(4)])
  qed
qed

section \<open>An unvalidated path\<close>

definition unvalidated :: "'addr connection_hot \<Rightarrow> bool" where
  "unvalidated h \<longleftrightarrow> \<not> aa_validated (ch_anti_amplification h) \<and> aa_bytes_received (ch_anti_amplification h) = 0"

lemma unvalidated_same: "same_path h h' \<Longrightarrow> unvalidated h' = unvalidated h"
  by (simp add: unvalidated_def same_path_def)

lemma unvalidated_refuses: "unvalidated h \<Longrightarrow> 0 < len \<Longrightarrow> \<not> can_send len (ch_anti_amplification h)"
  by (simp add: unvalidated_def can_send_def sat_add64_def sat_mul64_def u64_max_def)

lemma unvalidated_produce:
  fixes c :: "'addr gtp_connection"
  assumes "aead_ok (env_cipher env)" and "tx_inv (gc_hot c)" and "unvalidated (gc_hot c)"
    and "produce_outgoing_datagram env now out_buf c = (c', buf, r)"
  shows "(\<forall>d. r \<noteq> Ok (Some d)) \<and> tx_inv (gc_hot c') \<and> same_path (gc_hot c) (gc_hot c') \<and> ch_gen_counter (gc_hot c') = ch_gen_counter (gc_hot c)"
  using assms(2,1,4)
proof (cases rule: produce_cases)
  case (kept s)
  obtain ld cc s0 pv pe where h1: "gc_hot (prepared now c) =
      (gc_hot c)\<lparr> ch_loss_detector := ld, ch_cc := cc, ch_scheduler := s0, ch_path_validator := pv, ch_pacing := pe \<rparr>"
    using tx_prepared [OF assms(2) refl, of now] by blast
  have "tx_inv (gc_hot c')"
    using tx_prepared [OF assms(2) refl, of now] kept(3,4) by (auto simp: taken_def intro: tx_inv_updates)
  then show ?thesis using kept(3,5) by (auto simp: h1 same_path_def)
next
  case (sent c2 p acks len ctl)
  have "holds_frames (tx_header now (gc_hot c2)) (length out_buf) (packet_frames acks p) (tp_builder p)"
    using sent(2) by (simp add: assembled_def)
  then have "24 \<le> len" using tx_seal_result(2) [OF _ assms(1) sent(3)] by fastforce
  moreover have "ch_anti_amplification (gc_hot c2) = ch_anti_amplification (gc_hot c)"
    using assembled_fields(3) [OF sent(2)] prepared_fields(6) [OF assms(2)] by simp
  ultimately show ?thesis using sent(4) unvalidated_refuses [OF assms(3), of len] by simp
qed (use assms(2) in \<open>auto simp: tx_inv_updates same_path_def\<close>)

section \<open>Histories\<close>

datatype 'addr conn_call =
    Incoming 'addr bytes monotonic_time u8
  | Outgoing monotonic_time bytes
  | Challenge 'addr bytes monotonic_time
  | SendPing u64

fun conn_run :: "conn_env \<Rightarrow> 'addr conn_call list \<Rightarrow> 'addr gtp_connection \<Rightarrow> 'addr gtp_connection \<times> ('addr \<times> nat) list" where
  "conn_run env [] c = (c, [])"
| "conn_run env (Incoming src datagram now ecn # calls) c =
     conn_run env calls (fst (handle_incoming_datagram_with_ecn env src datagram now ecn c))"
| "conn_run env (Outgoing now out_buf # calls) c =
     (let (c1, buf, r) = produce_outgoing_datagram env now out_buf c; (c2, sends) = conn_run env calls c1
      in (c2, case r of Ok (Some sent) \<Rightarrow> sent # sends | _ \<Rightarrow> sends))"
| "conn_run env (Challenge new_addr nonce now # calls) c = conn_run env calls (fst (trigger_path_challenge new_addr nonce now c))"
| "conn_run env (SendPing nonce # calls) c = conn_run env calls (fst (send_ping nonce c))"

text \<open>A challenge has eight bytes by its type; the bytes that arrive bound how far the group generations can count.\<close>

fun call_ok :: "'addr conn_call \<Rightarrow> bool" where
  "call_ok (Challenge _ nonce _) = (length nonce = 8)"
| "call_ok _ = True"

fun arriving :: "'addr conn_call \<Rightarrow> nat" where
  "arriving (Incoming _ datagram _ _) = length datagram"
| "arriving _ = 0"

text \<open>The first call that opens the path, with nothing sent before it.\<close>

definition opened_by :: "conn_env \<Rightarrow> 'addr conn_call list \<Rightarrow> 'addr gtp_connection \<Rightarrow> bool" where
  "opened_by env calls c \<longleftrightarrow> (\<exists>pre src datagram now ecn post c1.
     calls = pre @ Incoming src datagram now ecn # post \<and> conn_run env pre c = (c1, []) \<and>
     ch_active_path (gc_hot c1) = ch_active_path (gc_hot c) \<and> opens_path env src datagram now (gc_hot c1) \<and>
     ch_active_path (gc_hot (fst (handle_incoming_datagram_with_ecn env src datagram now ecn c1))) = src)"

lemma opened_by_Cons:
  assumes "opened_by env calls c1" and "\<And>pre c2. conn_run env pre c1 = (c2, []) \<Longrightarrow> conn_run env (call # pre) c = (c2, [])"
    and "same_path (gc_hot c) (gc_hot c1)"
  shows "opened_by env (call # calls) c"
proof -
  obtain pre src datagram now ecn post c2 where p: "calls = pre @ Incoming src datagram now ecn # post" "conn_run env pre c1 = (c2, [])"
    "ch_active_path (gc_hot c2) = ch_active_path (gc_hot c1)" "opens_path env src datagram now (gc_hot c2)"
    "ch_active_path (gc_hot (fst (handle_incoming_datagram_with_ecn env src datagram now ecn c2))) = src"
    using assms(1) unfolding opened_by_def by blast
  have "call # calls = (call # pre) @ Incoming src datagram now ecn # post" using p(1) by simp
  then show ?thesis using p assms(2) [OF p(2)] assms(3) unfolding opened_by_def same_path_def by metis
qed

lemma queued_inv:
  assumes "tx_inv (gc_hot c)" and "control_ok f" and "\<not> is_out_path_response f"
  shows "tx_inv (gc_hot (queue_control f c))"
  using assms by (simp add: queue_control_def tx_inv_def hot_inv_simps)

lemma challenge_step:
  assumes "tx_inv (gc_hot c)" and "length nonce = 8"
  shows "tx_inv (gc_hot (fst (trigger_path_challenge new_addr nonce now c)))"
    and "same_path (gc_hot c) (gc_hot (fst (trigger_path_challenge new_addr nonce now c)))"
    and "ch_gen_counter (gc_hot (fst (trigger_path_challenge new_addr nonce now c))) = ch_gen_counter (gc_hot c)"
  using assms by (simp_all add: trigger_path_challenge_def queue_control_def Let_def tx_inv_def hot_inv_simps control_ok_def frame_ok_def same_path_def)

lemma ping_step:
  assumes "tx_inv (gc_hot c)"
  shows "tx_inv (gc_hot (fst (send_ping nonce c)))" and "same_path (gc_hot c) (gc_hot (fst (send_ping nonce c)))"
    and "ch_gen_counter (gc_hot (fst (send_ping nonce c))) = ch_gen_counter (gc_hot c)"
  using assms by (simp_all add: send_ping_def queue_control_def tx_inv_def hot_inv_simps control_ok_def frame_ok_def same_path_def)

lemma silent_until_opened:
  assumes "aead_ok (env_cipher env)"
  shows "tx_inv (gc_hot c) \<Longrightarrow> unvalidated (gc_hot c) \<Longrightarrow> \<forall>call \<in> set calls. call_ok call \<Longrightarrow>
    ch_gen_counter (gc_hot c) + sum_list (map arriving calls) \<le> u64_max \<Longrightarrow> conn_run env calls c = (c', sends) \<Longrightarrow>
    sends = [] \<or> opened_by env calls c"
proof (induction calls arbitrary: c sends)
  case (Cons call calls)
  show ?case
  proof (cases call)
    case (Incoming src datagram now ecn)
    let ?c1 = "fst (handle_incoming_datagram_with_ecn env src datagram now ecn c)"
    have step: "tx_inv (gc_hot ?c1) \<and> ch_gen_counter (gc_hot ?c1) \<le> ch_gen_counter (gc_hot c) + length datagram \<and>
        (same_path (gc_hot c) (gc_hot ?c1) \<or> opens_path env src datagram now (gc_hot c) \<and> ch_active_path (gc_hot ?c1) = src)"
      by (rule received [OF assms Cons.prems(1) _ surjective_pairing]) (use Cons.prems(4) Incoming in simp)
    show ?thesis
    proof (cases "same_path (gc_hot c) (gc_hot ?c1)")
      case True
      then have "sends = [] \<or> opened_by env calls ?c1"
        using Cons.IH [of ?c1 sends] Cons.prems step unvalidated_same [OF True] Incoming by simp
      then show ?thesis using opened_by_Cons [OF _ _ True] Incoming by fastforce
    next
      case False
      then show ?thesis
        using step Incoming unfolding opened_by_def
        by (intro disjI2 exI [of _ "[]"] exI [of _ src] exI [of _ datagram] exI [of _ now] exI [of _ ecn] exI [of _ calls] exI [of _ c]) simp
    qed
  next
    case (Outgoing now out_buf)
    obtain c1 buf r where p: "produce_outgoing_datagram env now out_buf c = (c1, buf, r)" using prod_cases3 by blast
    note step = unvalidated_produce [OF assms Cons.prems(1,2) p]
    obtain c2 more where rest: "conn_run env calls c1 = (c2, more)" by fastforce
    have none: "(case r of Ok (Some sent) \<Rightarrow> sent # xs | _ \<Rightarrow> xs) = xs" for xs
      using step by (cases r) (auto split: option.splits)
    have "more = sends" "c2 = c'" using Cons.prems(5) Outgoing p rest none by simp_all
    then have "sends = [] \<or> opened_by env calls c1"
      using Cons.IH [of c1 sends] Cons.prems step unvalidated_same rest Outgoing by (metis list.set_intros(2) list.simps(9) sum_list.Cons arriving.simps(2) add_0)
    then show ?thesis
      using opened_by_Cons [of env calls c1 "Outgoing now out_buf" c] step p none Outgoing by auto
  next
    case (Challenge new_addr nonce now)
    let ?c1 = "fst (trigger_path_challenge new_addr nonce now c)"
    note step = challenge_step [OF Cons.prems(1), of nonce new_addr now]
    have "length nonce = 8" using Cons.prems(3) Challenge by simp
    then have "sends = [] \<or> opened_by env calls ?c1"
      using Cons.IH [of ?c1 sends] Cons.prems step unvalidated_same [OF step(2)] Challenge by simp
    then show ?thesis using opened_by_Cons [of env calls ?c1 _ c] step(2) \<open>length nonce = 8\<close> Challenge by auto
  next
    case (SendPing nonce)
    let ?c1 = "fst (send_ping nonce c)"
    note step = ping_step [OF Cons.prems(1), of nonce]
    have "sends = [] \<or> opened_by env calls ?c1"
      using Cons.IH [of ?c1 sends] Cons.prems step unvalidated_same [OF step(2)] SendPing by simp
    then show ?thesis using opened_by_Cons [of env calls ?c1 _ c] step(2) SendPing by auto
  qed
qed simp

section \<open>Property\<close>

text \<open>
  C28: a connection whose path is not validated sends nothing before an authentic datagram opens the
  path. Take a connection whose limiter is unvalidated and has received nothing, with anything in its
  queues, and any history of incoming datagrams from any addresses, transmit calls, path challenges
  to any addresses and pings. If any datagram left, to whatever address, then before the first of
  them a datagram arrived that passed authentication and either came from the address of the
  active path or, from another address, answered in time the challenge pending for exactly that
  address; the active path was still the one at the start when it arrived and is its source
  afterwards. Forged, replayed or foreign traffic, of any volume, never makes the connection send.
  The allowance of three times the received bytes is therefore not what protects an unvalidated peer
  in this code: the first authentic datagram of the active path already validates it, and a probe
  to another address is not charged to a budget of its own.
\<close>

theorem unvalidated_path_silent:
  fixes c :: "'addr gtp_connection"
  assumes "aead_ok (env_cipher env)" and "tx_inv (gc_hot c)"
    and "\<not> aa_validated (ch_anti_amplification (gc_hot c))" and "aa_bytes_received (ch_anti_amplification (gc_hot c)) = 0"
    and "\<forall>call \<in> set calls. call_ok call" and "ch_gen_counter (gc_hot c) + sum_list (map arriving calls) \<le> u64_max"
    and "conn_run env calls c = (c', sends)" and "sends \<noteq> []"
  shows "\<exists>pre src datagram now ecn post c1 hdr plain.
    calls = pre @ Incoming src datagram now ecn # post \<and> conn_run env pre c = (c1, []) \<and>
    authentic env datagram (gc_hot c1) = Some (hdr, plain) \<and> ch_active_path (gc_hot c1) = ch_active_path (gc_hot c) \<and>
    (src = ch_active_path (gc_hot c) \<or> (\<exists>data start. Ok (PathResponse data) \<in> set (FrameIterator_collect (FrameIterator_new plain)) \<and>
       pv_pending_challenge (ch_path_validator (gc_hot c1)) = Some (src, data, start) \<and> duration_since now start \<le> PATH_CHALLENGE_TIMEOUT)) \<and>
    ch_active_path (gc_hot (fst (handle_incoming_datagram_with_ecn env src datagram now ecn c1))) = src"
proof -
  have "unvalidated (gc_hot c)" using assms(3,4) by (simp add: unvalidated_def)
  then have "opened_by env calls c" using silent_until_opened [OF assms(1,2) _ assms(5-7)] assms(8) by blast
  then show ?thesis unfolding opened_by_def opens_path_def by metis
qed

text \<open>A connection that waits for its peer: silent with a ping queued, and sending once the peer was heard.\<close>

definition waiting_conn :: "nat gtp_connection" where
  "waiting_conn = on_hot (\<lambda>h. h\<lparr> ch_anti_amplification := AntiAmplificationLimiter_default \<rparr>) sample_conn"

lemma waiting_conn_hot: "gc_hot waiting_conn = sample_hot\<lparr> ch_anti_amplification := AntiAmplificationLimiter_default \<rparr>"
  by (simp add: waiting_conn_def)

lemma waiting_conn_inv: "tx_inv (gc_hot waiting_conn)"
  using sample_tx_inv(1) by (simp add: waiting_conn_hot tx_inv_def hot_inv_simps)

lemma rx_authenticated_tx:
  "ch_tx_protector (gc_hot (rx_authenticated src len hdr now c)) = ch_tx_protector (gc_hot c)"
  "ch_connection_id (gc_hot (rx_authenticated src len hdr now c)) = ch_connection_id (gc_hot c)"
  "ch_scheduler (gc_hot (rx_authenticated src len hdr now c)) = ch_scheduler (gc_hot c)"
  by (auto simp: rx_authenticated_def credit_path_def tick_rx_key_grace_def Let_def split: prod.split option.split)

lemma waiting_conn_heard:
  defines "c1 \<equiv> fst (handle_incoming_datagram_with_ecn sample_env 1 (sample_datagram []) 5 0 (fst (send_ping 7 waiting_conn)))"
  shows "\<exists>c' buf dest len. produce_outgoing_datagram sample_env 6 (replicate 400 0) c1 = (c', buf, Ok (Some (dest, len)))"
proof -
  let ?c = "fst (send_ping 7 waiting_conn)" and ?hdr = "PacketHeader_new_short 7 1 0 0"
  let ?a = "rx_authenticated 1 (length (sample_datagram [])) ?hdr 5 (on_cold (count_rx (length (sample_datagram []))) ?c)"
  have c: "gc_hot ?c = sample_hot\<lparr> ch_anti_amplification := AntiAmplificationLimiter_default, ch_control_queue := [OutPing 7] \<rparr>"
    by (simp add: send_ping_def queue_control_def waiting_conn_hot sample_idle)
  have keys: "ch_rx_protector (gc_hot ?c) = Aead (new_for_cid [3] [4] 7)" "\<not> ch_key_phase (gc_hot ?c)"
    using sample_conn_keys by (simp_all add: c)
  have auth: "authentic sample_env (sample_datagram []) (gc_hot ?c) = Some (?hdr, concat (map Frame_bytes []))"
    by (rule sample_authentic) (simp_all add: c keys sample_idle, simp_all add: keys [unfolded c, simplified])
  have col: "FrameIterator_collect (FrameIterator_new []) = []"
    by (rule collect_unfold_done) (simp add: FrameIterator_new_def)
  have "c1 = fst (rx_finish ?hdr 0 5 (rx_start ?a))"
    using handle_accepted [OF sample_env_ok _ auth, of 1 5 0]
    by (simp add: c1_def c sample_idle rx_payload_def rx_start_def col Let_def)
  then obtain t where h1: "gc_hot c1 = (gc_hot ?a)\<lparr> ch_ack_tracker := t \<rparr>"
    by (simp add: rx_finish_def rx_start_def Let_def)
  have same: "ld_inflight_bytes (ch_loss_detector (gc_hot c1)) = 0" "ch_control_queue (gc_hot c1) = [OutPing 7]" "ch_state (gc_hot c1) = Established"
      "ch_scheduler (gc_hot c1) = ch_scheduler sample_hot" "ch_tx_protector (gc_hot c1) = ch_tx_protector (gc_hot sample_ping)"
      "ch_connection_id (gc_hot c1) = ch_connection_id (gc_hot sample_ping)" "aa_validated (ch_anti_amplification (gc_hot c1))"
    by (simp_all add: h1 rx_authenticated_hot rx_authenticated_tx c sample_idle sample_ping_hot mark_validated_def)
  have inv: "tx_inv (gc_hot c1)"
  proof -
    have "tx_inv (gc_hot ?c)" by (rule ping_step(1) [OF waiting_conn_inv])
    moreover have "ch_gen_counter (gc_hot ?c) + length (sample_datagram []) \<le> u64_max"
      by (simp add: c sample_datagram_def u64_max_def PacketHeader_new_short_def min_header_len_def MIN_COMMON_HEADER_LEN_def MIN_LONG_HEADER_LEN_def)
    ultimately show ?thesis unfolding c1_def by (rule conjunct1 [OF received [OF sample_env_ok _ _ surjective_pairing]])
  qed
  have "tx_pto 6 c1 = c1" using same(1) by (simp add: tx_pto_def pto_expired_def Let_def)
  moreover have "gs_queues (ch_scheduler sample_hot) t = []" for t
    by (simp add: sample_hot_def hot_build_def build_with_config_def Let_def with_per_tier_byte_caps_def with_per_tier_caps_and_item_limit_def)
  ultimately have idle: "ch_state (gc_hot c1) \<noteq> Established \<or> (\<forall>t < 5. gs_queues (ch_scheduler (gc_hot (tx_pto 6 c1))) t = [])"
    using same(4) by simp
  have "sealable sample_env (gc_hot c1)" using sample_ping_ready(2) same(5,6) sealable_cong by metis
  from control_sent [OF sample_env_ok inv _ _ this same(7) _ _ idle, of "replicate 400 0"] same(2,3) show ?thesis
    by (auto simp: Frame_bytes_def)
qed

theorem unvalidated_path_silent_witness:
  "snd (conn_run sample_env [SendPing 7, Outgoing 5 (replicate 400 0)] waiting_conn) = [] \<and>
   (\<exists>c' sent. conn_run sample_env [SendPing 7, Incoming 1 (sample_datagram []) 5 0, Outgoing 6 (replicate 400 0)] waiting_conn = (c', [sent]) \<and>
      authentic sample_env (sample_datagram []) (gc_hot (fst (send_ping 7 waiting_conn))) \<noteq> None)"
proof
  let ?l = "ch_anti_amplification (gc_hot waiting_conn)"
  have l: "\<not> aa_validated ?l" "aa_bytes_received ?l = 0" by (simp_all add: waiting_conn_hot AntiAmplificationLimiter_default_def)
  note silent = unvalidated_path_silent [OF sample_env_ok waiting_conn_inv l]
  let ?quiet = "[SendPing 7, Outgoing 5 (replicate 400 0)] :: nat conn_call list"
  show "snd (conn_run sample_env ?quiet waiting_conn) = []"
  proof (rule ccontr)
    assume "snd (conn_run sample_env ?quiet waiting_conn) \<noteq> []"
    then obtain pre src datagram now ecn post where "?quiet = pre @ Incoming src datagram now ecn # post"
      using silent [of ?quiet, OF _ _ surjective_pairing] by (auto simp: waiting_conn_hot u64_max_def)
    then show False by (auto simp: Cons_eq_append_conv)
  qed
  let ?heard = "[SendPing 7, Incoming 1 (sample_datagram []) 5 0, Outgoing 6 (replicate 400 0)] :: nat conn_call list"
  obtain c' sent where r: "conn_run sample_env ?heard waiting_conn = (c', [sent])" using waiting_conn_heard by auto
  have len: "ch_gen_counter (gc_hot waiting_conn) + sum_list (map arriving ?heard) \<le> u64_max"
    by (simp add: waiting_conn_hot sample_datagram_def u64_max_def PacketHeader_new_short_def min_header_len_def MIN_COMMON_HEADER_LEN_def MIN_LONG_HEADER_LEN_def)
  obtain pre src datagram now ecn post c1 hdr plain where "?heard = pre @ Incoming src datagram now ecn # post"
      "conn_run sample_env pre waiting_conn = (c1, [])" "authentic sample_env datagram (gc_hot c1) = Some (hdr, plain)"
    using silent [OF _ len r] by auto
  then have "authentic sample_env (sample_datagram []) (gc_hot (fst (send_ping 7 waiting_conn))) \<noteq> None"
    by (auto simp: Cons_eq_append_conv)
  then show "\<exists>c' sent. conn_run sample_env ?heard waiting_conn = (c', [sent]) \<and>
      authentic sample_env (sample_datagram []) (gc_hot (fst (send_ping 7 waiting_conn))) \<noteq> None"
    using r by blast
qed

end
