(* ===== verification/Binary_Heap.thy ===== *)
theory Binary_Heap
  imports GTP_Prelude "HOL-Library.Multiset"
begin

text \<open>
  The binary heap of the standard library as the simulator uses it: \<^verbatim>\<open>push\<close> sifts the new element up,
  \<^verbatim>\<open>pop\<close> moves the last element to the root, sifts it down to the bottom along the smaller children and
  up again. The order among elements with equal keys is decided by these steps, so they are modelled
  as the library performs them; a hole that moves is a swap. The locale \<open>timed_queue\<close> is what a client
  relies on, \<open>timed_drain\<close> the loop that takes out everything that is due.
\<close>

section \<open>Operations\<close>

definition parent :: "nat \<Rightarrow> nat" where
  "parent i = (i - 1) div 2"

definition list_swap :: "'a list \<Rightarrow> nat \<Rightarrow> nat \<Rightarrow> 'a list" where
  "list_swap xs i j = xs[i := xs ! j, j := xs ! i]"

function sift_up :: "('a \<Rightarrow> nat) \<Rightarrow> 'a list \<Rightarrow> nat \<Rightarrow> 'a list" where
  "sift_up key xs i = (if i = 0 \<or> key (xs ! parent i) \<le> key (xs ! i) then xs else sift_up key (list_swap xs i (parent i)) (parent i))"
  by pat_completeness auto
termination
  by (relation "measure (\<lambda>(_, _, i). i)") (auto simp: parent_def)

declare sift_up.simps [simp del]

text \<open>The smaller child; the right one if both are equal.\<close>

definition lesser_child :: "('a \<Rightarrow> nat) \<Rightarrow> 'a list \<Rightarrow> nat \<Rightarrow> nat" where
  "lesser_child key xs i = (if key (xs ! (2 * i + 2)) \<le> key (xs ! (2 * i + 1)) then 2 * i + 2 else 2 * i + 1)"

function sift_down_to_bottom :: "('a \<Rightarrow> nat) \<Rightarrow> 'a list \<Rightarrow> nat \<Rightarrow> 'a list \<times> nat" where
  "sift_down_to_bottom key xs i =
     (if 2 * i + 2 < length xs
      then let c = lesser_child key xs i in sift_down_to_bottom key (list_swap xs i c) c
      else if 2 * i + 1 < length xs then (list_swap xs i (2 * i + 1), 2 * i + 1) else (xs, i))"
  by pat_completeness auto
termination
  by (relation "measure (\<lambda>(_, xs, i). length xs - i)") (auto simp: lesser_child_def list_swap_def)

declare sift_down_to_bottom.simps [simp del]

definition heap_push :: "('a \<Rightarrow> nat) \<Rightarrow> 'a \<Rightarrow> 'a list \<Rightarrow> 'a list" where
  "heap_push key x xs = sift_up key (xs @ [x]) (length xs)"

definition heap_pop :: "('a \<Rightarrow> nat) \<Rightarrow> 'a list \<Rightarrow> ('a \<times> 'a list) option" where
  "heap_pop key xs =
     (if xs = [] then None
      else let rest = butlast xs
           in if rest = [] then Some (last xs, [])
              else Some (hd rest, case sift_down_to_bottom key (rest[0 := last xs]) 0 of (ys, pos) \<Rightarrow> sift_up key ys pos))"

section \<open>The heap order\<close>

definition heap_ok :: "('a \<Rightarrow> nat) \<Rightarrow> 'a list \<Rightarrow> bool" where
  "heap_ok key xs \<longleftrightarrow> (\<forall>j < length xs. 0 < j \<longrightarrow> key (xs ! parent j) \<le> key (xs ! j))"

text \<open>Ordered but for the element at \<open>i\<close>; its children are not smaller than its parent.\<close>

definition heap_but :: "('a \<Rightarrow> nat) \<Rightarrow> 'a list \<Rightarrow> nat \<Rightarrow> bool" where
  "heap_but key xs i \<longleftrightarrow>
     (\<forall>j < length xs. 0 < j \<longrightarrow> j \<noteq> i \<longrightarrow> parent j \<noteq> i \<longrightarrow> key (xs ! parent j) \<le> key (xs ! j)) \<and>
     (\<forall>j < length xs. 0 < i \<longrightarrow> 0 < j \<longrightarrow> parent j = i \<longrightarrow> key (xs ! parent i) \<le> key (xs ! j))"

definition above_children :: "('a \<Rightarrow> nat) \<Rightarrow> 'a list \<Rightarrow> nat \<Rightarrow> bool" where
  "above_children key xs i \<longleftrightarrow> (\<forall>j < length xs. 0 < j \<longrightarrow> parent j = i \<longrightarrow> key (xs ! i) \<le> key (xs ! j))"

lemma list_swap_simps [simp]:
  "length (list_swap xs i j) = length xs"
  "i < length xs \<Longrightarrow> j < length xs \<Longrightarrow> k < length xs \<Longrightarrow> list_swap xs i j ! k = (if k = j then xs ! i else if k = i then xs ! j else xs ! k)"
  by (simp_all add: list_swap_def nth_list_update)

lemma mset_list_swap: "i < length xs \<Longrightarrow> j < length xs \<Longrightarrow> mset (list_swap xs i j) = mset xs"
  unfolding list_swap_def by (rule mset_swap)

lemma parent_less: "0 < j \<Longrightarrow> parent j < j"
  by (auto simp: parent_def)

lemma parent_eq_iff: "0 < j \<Longrightarrow> parent j = i \<longleftrightarrow> j = 2 * i + 1 \<or> j = 2 * i + 2"
  by (auto simp: parent_def)

lemma sift_up_ok:
  assumes "i < length xs" and "heap_but key xs i" and "above_children key xs i"
  shows "heap_ok key (sift_up key xs i) \<and> mset (sift_up key xs i) = mset xs"
  using assms
proof (induction key xs i rule: sift_up.induct)
  case (1 key xs i)
  have heap: "key (xs ! parent j) \<le> key (xs ! j)" if "j < length xs" "0 < j" "j \<noteq> i" for j
    using "1.prems"(2,3) that unfolding heap_but_def above_children_def by metis
  show ?case
  proof (cases "i = 0 \<or> key (xs ! parent i) \<le> key (xs ! i)")
    case True
    then have "heap_ok key xs" using heap unfolding heap_ok_def by blast
    then show ?thesis using True by (simp add: sift_up.simps)
  next
    case False
    let ?p = "parent i" and ?ys = "list_swap xs i (parent i)"
    have p: "0 < i" "?p < i" "?p < length xs" "key (xs ! i) < key (xs ! ?p)" using False "1.prems"(1) parent_less [of i] by auto
    have "heap_but key ?ys ?p"
      unfolding heap_but_def
    proof (intro conjI allI impI)
      fix j assume j: "j < length ?ys" "0 < j" "j \<noteq> ?p" "parent j \<noteq> ?p"
      then have "j \<noteq> i" by auto
      show "key (?ys ! parent j) \<le> key (?ys ! j)"
      proof (cases "parent j = i")
        case True
        then show ?thesis using j p "1.prems"(1,2) \<open>j \<noteq> i\<close> by (simp add: heap_but_def)
      next
        case other: False
        then show ?thesis using j p heap [of j] \<open>j \<noteq> i\<close> parent_less [of j] "1.prems"(1) by simp
      qed
    next
      fix j assume j: "j < length ?ys" "0 < ?p" "0 < j" "parent j = ?p"
      then have "key (xs ! parent ?p) \<le> key (xs ! ?p)" using heap [of ?p] p by simp
      moreover have "key (xs ! ?p) \<le> key (xs ! j)" if "j \<noteq> i" using heap [of j] j that by simp
      ultimately show "key (?ys ! parent ?p) \<le> key (?ys ! j)" using j p parent_less [of ?p] parent_less [of j] "1.prems"(1) by (auto intro: order_trans)
    qed
    moreover have "above_children key ?ys ?p"
      unfolding above_children_def
    proof (intro allI impI)
      fix j assume j: "j < length ?ys" "0 < j" "parent j = ?p"
      have "key (xs ! ?p) \<le> key (xs ! j)" if "j \<noteq> i" using heap [of j] j that by simp
      then show "key (?ys ! ?p) \<le> key (?ys ! j)" using j p parent_less [of j] "1.prems"(1) by (cases "j = i") auto
    qed
    ultimately have "heap_ok key (sift_up key ?ys ?p) \<and> mset (sift_up key ?ys ?p) = mset ?ys"
      using "1.IH" False p by simp
    then show ?thesis using False p "1.prems"(1) by (simp add: sift_up.simps [of key xs i] mset_list_swap)
  qed
qed

lemma sift_down_ok:
  assumes "i < length xs" and "heap_but key xs i" and "sift_down_to_bottom key xs i = (ys, k)"
  shows "k < length ys \<and> heap_but key ys k \<and> above_children key ys k \<and> mset ys = mset xs"
  using assms
proof (induction key xs i arbitrary: ys k rule: sift_down_to_bottom.induct)
  case (1 key xs i)
  have moved: "heap_but key (list_swap xs i c) c" if "c < length xs" "0 < c" "parent c = i" "\<forall>j < length xs. 0 < j \<longrightarrow> parent j = i \<longrightarrow> key (xs ! c) \<le> key (xs ! j)" for c
    unfolding heap_but_def
  proof (intro conjI allI impI)
    let ?ys = "list_swap xs i c"
    have ic: "i < c" using parent_less [OF that(2)] that(3) by simp
    fix j assume j: "j < length ?ys" "0 < j" "j \<noteq> c" "parent j \<noteq> c"
    have pj: "parent j < j" by (rule parent_less [OF j(2)])
    show "key (?ys ! parent j) \<le> key (?ys ! j)"
    proof (cases "j = i")
      case True
      then have "key (xs ! parent i) \<le> key (xs ! c)" using "1.prems"(2) that j(2) by (simp add: heap_but_def)
      then show ?thesis using True j that(1) "1.prems"(1) pj ic by simp
    next
      case False
      then show ?thesis
        using j that "1.prems"(1,2) pj by (cases "parent j = i") (simp_all add: heap_but_def)
    qed
  next
    let ?ys = "list_swap xs i c"
    fix j assume j: "j < length ?ys" "0 < c" "0 < j" "parent j = c"
    then have "j \<noteq> i" "j \<noteq> c" using parent_less [of j] parent_less [of c] that(2,3) by auto
    moreover have "key (xs ! c) \<le> key (xs ! j)" using j that "1.prems"(2) parent_less [of c] \<open>j \<noteq> i\<close> by (auto simp: heap_but_def)
    ultimately show "key (?ys ! parent c) \<le> key (?ys ! j)" using j that "1.prems"(1) by simp
  qed
  have leaf: "above_children key zs m" if "length zs \<le> 2 * m + 1" for zs m
    using that parent_eq_iff [of _ m] by (auto simp: above_children_def)
  show ?case
  proof (cases "2 * i + 2 < length xs")
    case True
    let ?c = "lesser_child key xs i"
    have c: "?c < length xs" "0 < ?c" "parent ?c = i" "\<forall>j < length xs. 0 < j \<longrightarrow> parent j = i \<longrightarrow> key (xs ! ?c) \<le> key (xs ! j)"
      using True parent_eq_iff [of _ i] by (auto simp: lesser_child_def parent_def)
    have "sift_down_to_bottom key (list_swap xs i ?c) ?c = (ys, k)"
      using "1.prems"(3) True by (simp add: sift_down_to_bottom.simps [of key xs i] Let_def)
    from "1.IH" [OF True refl _ moved [OF c] this] c(1) show ?thesis using mset_list_swap [OF "1.prems"(1) c(1)] by simp
  next
    case False
    show ?thesis
    proof (cases "2 * i + 1 < length xs")
      case True
      let ?c = "2 * i + 1"
      have "\<forall>j < length xs. 0 < j \<longrightarrow> parent j = i \<longrightarrow> key (xs ! ?c) \<le> key (xs ! j)"
        using False True parent_eq_iff [of _ i] by (metis Suc_eq_plus1 add_2_eq_Suc' linorder_neqE_nat not_less_eq order_refl)
      then have "heap_but key (list_swap xs i ?c) ?c" using moved [of ?c] True by (simp add: parent_def)
      moreover have "ys = list_swap xs i ?c" "k = ?c" using "1.prems"(3) True False by (auto simp: sift_down_to_bottom.simps [of key xs i])
      ultimately show ?thesis using True False leaf [of ys k] "1.prems"(1) by (simp add: mset_list_swap)
    next
      case last: False
      then have "ys = xs" "k = i" using "1.prems"(3) by (auto simp: sift_down_to_bottom.simps [of key xs i])
      then show ?thesis using "1.prems"(1,2) last leaf [of xs i] by simp
    qed
  qed
qed

section \<open>The contract\<close>

lemma heap_push_ok:
  assumes "heap_ok key xs"
  shows "heap_ok key (heap_push key x xs)" and "mset (heap_push key x xs) = add_mset x (mset xs)"
proof -
  have old: "key ((xs @ [x]) ! parent j) \<le> key ((xs @ [x]) ! j)" if "j < length xs" "0 < j" for j
    using assms that parent_less [of j] by (simp add: heap_ok_def nth_append)
  have none: "parent j \<noteq> length xs" if "j < length (xs @ [x])" "0 < j" for j using parent_less [of j] that by simp
  have "heap_but key (xs @ [x]) (length xs)" "above_children key (xs @ [x]) (length xs)"
    unfolding heap_but_def above_children_def using old none by auto
  from sift_up_ok [OF _ this] show "heap_ok key (heap_push key x xs)" "mset (heap_push key x xs) = add_mset x (mset xs)"
    by (simp_all add: heap_push_def)
qed

lemma heap_root_least:
  assumes "heap_ok key xs" and "j < length xs"
  shows "key (xs ! 0) \<le> key (xs ! j)"
  using assms(2)
proof (induction j rule: less_induct)
  case (less j)
  show ?case
  proof (cases "j = 0")
    case False
    then have "key (xs ! 0) \<le> key (xs ! parent j)" using less parent_less [of j] by simp
    also have "\<dots> \<le> key (xs ! j)" using assms(1) less.prems False by (simp add: heap_ok_def)
    finally show ?thesis .
  qed simp
qed

lemma heap_pop_ok:
  assumes "heap_ok key xs" and "heap_pop key xs = Some (x, ys)"
  shows "heap_ok key ys" and "mset xs = add_mset x (mset ys)" and "\<forall>y \<in># mset xs. key x \<le> key y"
proof -
  have ne: "xs \<noteq> []" using assms(2) by (auto simp: heap_pop_def)
  then have split: "xs = butlast xs @ [last xs]" by simp
  have least: "\<forall>y \<in># mset xs. key (xs ! 0) \<le> key y" using heap_root_least [OF assms(1)] by (auto simp: in_set_conv_nth)
  have "heap_ok key ys \<and> mset xs = add_mset x (mset ys) \<and> x = xs ! 0"
  proof (cases "butlast xs = []")
    case True
    then have "xs = [last xs]" using split by simp
    then show ?thesis using assms(2) ne True by (auto simp: heap_pop_def heap_ok_def)
  next
    case False
    let ?zs = "(butlast xs)[0 := last xs]"
    obtain zs pos where down: "sift_down_to_bottom key ?zs 0 = (zs, pos)" by fastforce
    have xy: "x = hd (butlast xs)" "ys = sift_up key zs pos" using assms(2) False ne down by (auto simp: heap_pop_def Let_def)
    have "heap_but key ?zs 0"
      using assms(1) by (auto simp: heap_but_def heap_ok_def nth_list_update nth_butlast parent_def)
    moreover have "0 < length ?zs" using False by (simp only: length_list_update length_greater_0_conv) simp
    ultimately have d: "pos < length zs" "heap_but key zs pos" "above_children key zs pos" "mset zs = mset ?zs"
      using sift_down_ok [OF _ _ down] by auto
    have "mset ?zs + {# hd (butlast xs) #} = mset xs"
    proof -
      obtain b bs where b: "butlast xs = b # bs" using False by (cases "butlast xs") auto
      then show ?thesis using arg_cong [OF split, of mset] by simp
    qed
    moreover have "hd (butlast xs) = xs ! 0" using nth_butlast [of 0 xs] False by (simp add: hd_conv_nth flip: length_greater_0_conv)
    ultimately show ?thesis using sift_up_ok [OF d(1-3)] d(4) xy by simp
  qed
  then show "heap_ok key ys" "mset xs = add_mset x (mset ys)" "\<forall>y \<in># mset xs. key x \<le> key y" using least by simp_all
qed

text \<open>A queue ordered by time: what the simulator relies on.\<close>

locale timed_queue =
  fixes time :: "'a \<Rightarrow> nat" and queue_ok :: "'q \<Rightarrow> bool" and queued :: "'q \<Rightarrow> 'a multiset"
    and push :: "'a \<Rightarrow> 'q \<Rightarrow> 'q" and pop :: "'q \<Rightarrow> ('a \<times> 'q) option"
  assumes push_ok: "queue_ok q \<Longrightarrow> queue_ok (push x q)" and push_queued: "queue_ok q \<Longrightarrow> queued (push x q) = add_mset x (queued q)"
    and pop_None: "queue_ok q \<Longrightarrow> pop q = None \<longleftrightarrow> queued q = {#}"
    and pop_ok: "queue_ok q \<Longrightarrow> pop q = Some (x, q') \<Longrightarrow> queue_ok q'"
    and pop_queued: "queue_ok q \<Longrightarrow> pop q = Some (x, q') \<Longrightarrow> queued q = add_mset x (queued q')"
    and pop_least: "queue_ok q \<Longrightarrow> pop q = Some (x, q') \<Longrightarrow> y \<in># queued q \<Longrightarrow> time x \<le> time y"

text \<open>The loop that takes out what is due.\<close>

locale timed_drain = timed_queue time queue_ok queued push pop
  for time :: "'a \<Rightarrow> nat" and queue_ok :: "'q \<Rightarrow> bool" and queued :: "'q \<Rightarrow> 'a multiset" and push :: "'a \<Rightarrow> 'q \<Rightarrow> 'q" and pop :: "'q \<Rightarrow> ('a \<times> 'q) option" +
  fixes drain :: "nat \<Rightarrow> 'q \<Rightarrow> 'a list \<times> 'q"
  assumes drain_eq: "drain now q = (case pop q of None \<Rightarrow> ([], q)
    | Some (x, q') \<Rightarrow> if time x \<le> now then let (xs, r) = drain now q' in (x # xs, r) else ([], q))"
begin

lemma drain_exact:
  assumes "queue_ok q"
  shows "queue_ok (snd (drain now q)) \<and> mset (fst (drain now q)) = filter_mset (\<lambda>x. time x \<le> now) (queued q) \<and>
    queued (snd (drain now q)) = filter_mset (\<lambda>x. \<not> time x \<le> now) (queued q) \<and> sorted (map time (fst (drain now q)))"
  using assms
proof (induction "size (queued q)" arbitrary: q rule: less_induct)
  case less
  show ?case
  proof (cases "pop q")
    case None
    moreover from this have "queued q = {#}" using less.prems pop_None by simp
    ultimately show ?thesis using less.prems by (simp add: drain_eq [of now q])
  next
    case (Some xq)
    obtain x q' where p: "pop q = Some (x, q')" using Some by (cases xq) simp
    note q' = pop_ok [OF less.prems p] pop_queued [OF less.prems p] pop_least [OF less.prems p]
    show ?thesis
    proof (cases "time x \<le> now")
      case True
      have ih: "queue_ok (snd (drain now q'))" "mset (fst (drain now q')) = filter_mset (\<lambda>x. time x \<le> now) (queued q')"
        "queued (snd (drain now q')) = filter_mset (\<lambda>x. \<not> time x \<le> now) (queued q')" "sorted (map time (fst (drain now q')))"
        using less.hyps [OF _ q'(1)] q'(2) by auto
      have "\<forall>y \<in> set (fst (drain now q')). time x \<le> time y"
      proof
        fix y assume "y \<in> set (fst (drain now q'))"
        then have "y \<in># filter_mset (\<lambda>x. time x \<le> now) (queued q')" using ih(2) by (metis set_mset_mset)
        then show "time x \<le> time y" using q'(2,3) by simp
      qed
      then show ?thesis using True p ih q'(2) by (simp add: drain_eq [of now q] case_prod_beta)
    next
      case False
      then have "\<not> time y \<le> now" if "y \<in># queued q" for y using q'(3) [OF that] by simp
      then have "filter_mset (\<lambda>x. time x \<le> now) (queued q) = {#}" "filter_mset (\<lambda>x. \<not> time x \<le> now) (queued q) = queued q"
        by (auto simp: filter_mset_eq_conv intro!: multiset_eqI)
      then show ?thesis using False p less.prems by (simp add: drain_eq [of now q])
    qed
  qed
qed

end

interpretation std_heap: timed_queue key "heap_ok key" mset "heap_push key" "heap_pop key"
proof
  show "heap_ok key q \<Longrightarrow> heap_pop key q = None \<longleftrightarrow> mset q = {#}" for q by (auto simp: heap_pop_def Let_def)
qed (rule heap_push_ok heap_pop_ok(1,2) bspec [OF heap_pop_ok(3)]; assumption)+

end
