(* ===== verification/Sim_Network.thy ===== *)
theory Sim_Network
  imports F64 Binary_Heap
begin

text \<open>
  The simulated network (\<^verbatim>\<open>gtp-sim/src/impairments.rs\<close>, \<^verbatim>\<open>simulated_network.rs\<close>): link profiles, a generator of
  pseudo-random doubles, and a pipe that loses, delays, reorders and duplicates packets. Packets wait
  in a binary heap ordered by their delivery time.
\<close>

unbundle bit_operations_syntax

section \<open>Profiles\<close>

record network_profile =
  np_one_way_delay :: duration
  np_jitter :: duration
  np_loss_rate :: rat
  np_duplicate_rate :: rat
  np_reorder_rate :: rat
  np_bandwidth_bytes_per_sec :: nat

definition lan :: network_profile where
  "lan = \<lparr> np_one_way_delay = Duration_from_millis 1, np_jitter = 200, np_loss_rate = 0, np_duplicate_rate = 0, np_reorder_rate = 0,
     np_bandwidth_bytes_per_sec = 100000000 \<rparr>"

definition good_internet :: network_profile where
  "good_internet = \<lparr> np_one_way_delay = Duration_from_millis 20, np_jitter = Duration_from_millis 2, np_loss_rate = f64_round (5 / 1000),
     np_duplicate_rate = f64_round (1 / 1000), np_reorder_rate = f64_round (1 / 1000), np_bandwidth_bytes_per_sec = 10000000 \<rparr>"

definition bad_cellular_wifi :: network_profile where
  "bad_cellular_wifi = \<lparr> np_one_way_delay = Duration_from_millis 60, np_jitter = Duration_from_millis 25, np_loss_rate = f64_round (8 / 100),
     np_duplicate_rate = f64_round (2 / 100), np_reorder_rate = f64_round (5 / 100), np_bandwidth_bytes_per_sec = 1000000 \<rparr>"

definition extreme_loss :: network_profile where
  "extreme_loss = \<lparr> np_one_way_delay = Duration_from_millis 40, np_jitter = Duration_from_millis 10, np_loss_rate = f64_round (20 / 100),
     np_duplicate_rate = f64_round (5 / 100), np_reorder_rate = f64_round (10 / 100), np_bandwidth_bytes_per_sec = 500000 \<rparr>"

section \<open>Randomness and delays\<close>

text \<open>One step of XorShift64 and the double made of the new state.\<close>

definition xorshift :: "u64 \<Rightarrow> u64" where
  "xorshift x = (let x1 = x XOR push_bit 13 x; x2 = x1 XOR drop_bit 7 x1 in x2 XOR push_bit 17 x2)"

definition next_random_f64 :: "u64 \<Rightarrow> u64 \<times> rat" where
  "next_random_f64 state = (let x = xorshift state in (x, fdiv (of_u64 (unat x)) (of_u64 u64_max)))"

text \<open>The signed casts: \<^verbatim>\<open>f64 as i64\<close> truncates and saturates, \<^verbatim>\<open>u64 as i64\<close> and the sum keep the low 64 bits.\<close>

definition to_i64 :: "rat \<Rightarrow> int" where
  "to_i64 x = (let t = (if x < 0 then \<lceil>x\<rceil> else \<lfloor>x\<rfloor>) in max (- (2 ^ 63)) (min (2 ^ 63 - 1) t))"

definition i64_wrap :: "int \<Rightarrow> int" where
  "i64_wrap n = (n + 2 ^ 63) mod 2 ^ 64 - 2 ^ 63"

definition effective_delay :: "network_profile \<Rightarrow> rat \<Rightarrow> nat" where
  "effective_delay p r =
     (let jitter_factor = fsub (fmul r 2) 1;
          jitter_micros = to_i64 (fmul (of_u64 (np_jitter p)) jitter_factor);
          base_delay_micros = i64_wrap (int (np_one_way_delay p))
      in nat (max (i64_wrap (base_delay_micros + jitter_micros)) 100))"

text \<open>Division by a bandwidth of zero is infinite, or not a number for an empty packet.\<close>

definition serialization_micros :: "network_profile \<Rightarrow> nat \<Rightarrow> nat" where
  "serialization_micros p len =
     (if np_bandwidth_bytes_per_sec p = 0 then if len = 0 then 0 else u64_max
      else to_u64 (fmul (fdiv (of_u64 len) (of_u64 (np_bandwidth_bytes_per_sec p))) 1000000))"

section \<open>The pipe\<close>

record 'addr simulated_packet =
  pk_deliver_at :: monotonic_time
  pk_src :: 'addr
  pk_dest :: 'addr
  pk_data :: bytes

record 'addr simulated_network =
  sn_queue :: "'addr simulated_packet list"
  sn_rng_state :: u64

definition SimulatedNetwork_new :: "u64 \<Rightarrow> 'addr simulated_network" where
  "SimulatedNetwork_new seed = \<lparr> sn_queue = [], sn_rng_state = max seed 1 \<rparr>"

definition network_transmit :: "'addr \<Rightarrow> 'addr \<Rightarrow> bytes \<Rightarrow> monotonic_time \<Rightarrow> network_profile \<Rightarrow> 'addr simulated_network \<Rightarrow> 'addr simulated_network" where
  "network_transmit src dest payload now p net =
     (let (s1, r_loss) = next_random_f64 (sn_rng_state net)
      in if r_loss < np_loss_rate p then net\<lparr> sn_rng_state := s1 \<rparr>
         else let (s2, r_jitter) = next_random_f64 s1;
                  total_delay = wadd64 (effective_delay p r_jitter) (serialization_micros p (length payload));
                  deliver_at = time_add now total_delay;
                  (s3, r_reorder) = next_random_f64 s2;
                  final_deliver_at = (if r_reorder < np_reorder_rate p then time_add deliver_at (Duration_from_millis 15) else deliver_at);
                  queue = heap_push pk_deliver_at \<lparr> pk_deliver_at = final_deliver_at, pk_src = src, pk_dest = dest, pk_data = payload \<rparr> (sn_queue net);
                  (s4, r_dup) = next_random_f64 s3;
                  queue' = (if r_dup < np_duplicate_rate p
                    then heap_push pk_deliver_at \<lparr> pk_deliver_at = time_add final_deliver_at 500, pk_src = src, pk_dest = dest, pk_data = payload \<rparr> queue
                    else queue)
              in \<lparr> sn_queue = queue', sn_rng_state = s4 \<rparr>)"

text \<open>The loop that pops what is due; it ends because each turn shortens the queue.\<close>

lemma length_sift_up [simp]: "length (sift_up key xs i) = length xs"
  by (induction key xs i rule: sift_up.induct) (simp add: sift_up.simps)

lemma length_sift_down [simp]: "length (fst (sift_down_to_bottom key xs i)) = length xs"
  by (induction key xs i rule: sift_down_to_bottom.induct) (simp add: sift_down_to_bottom.simps Let_def)

lemma heap_pop_length: "heap_pop key xs = Some (x, ys) \<Longrightarrow> length ys < length xs"
  by (auto simp: heap_pop_def Let_def case_prod_beta split: if_splits)

function drain_queue :: "monotonic_time \<Rightarrow> 'addr simulated_packet list \<Rightarrow> 'addr simulated_packet list \<times> 'addr simulated_packet list" where
  "drain_queue now q = (case heap_pop pk_deliver_at q of
     None \<Rightarrow> ([], q)
   | Some (first, rest) \<Rightarrow> if pk_deliver_at first \<le> now then let (ready, q') = drain_queue now rest in (first # ready, q') else ([], q))"
  by pat_completeness auto
termination
  by (relation "measure (\<lambda>(_, q). length q)") (auto dest: heap_pop_length)

declare drain_queue.simps [simp del]

definition network_drain_ready :: "monotonic_time \<Rightarrow> 'addr simulated_network \<Rightarrow> 'addr simulated_network \<times> 'addr simulated_packet list" where
  "network_drain_ready now net = (let (ready, q) = drain_queue now (sn_queue net) in (net\<lparr> sn_queue := q \<rparr>, ready))"

text \<open>The heap with its drain meets the contract of a timed queue.\<close>

interpretation packet_queue: timed_drain pk_deliver_at "heap_ok pk_deliver_at" mset "heap_push pk_deliver_at" "heap_pop pk_deliver_at" drain_queue
  by unfold_locales (rule drain_queue.simps)

end
