(* ===== verification/Sim_Fabric.thy ===== *)
theory Sim_Fabric
  imports Sim_Network
begin

text \<open>
  The multi-link fabric (\<^verbatim>\<open>gtp-sim/src/fabric.rs\<close>): several links with a profile and a random stream per
  direction, a script of impairments, and a log of what happened to each packet. Laws: the fate of a
  packet depends only on the traffic of its own link and direction; a direction of a link behaves as
  the single pipe does; draining returns what is due, in order.
\<close>

unbundle bit_operations_syntax

section \<open>Data\<close>

datatype fabric_direction = Forward | Reverse
datatype impair_direction = ImpairForward | ImpairReverse | ImpairBoth

record 'addr simulated_link =
  li_fwd :: network_profile
  li_rev :: network_profile
  li_queue :: "'addr simulated_packet list"
  li_rng_fwd :: u64
  li_rng_rev :: u64

record profile_delta =
  pd_one_way_delay_add :: duration
  pd_jitter_add :: duration
  pd_loss_rate_add :: rat

record scripted_impairment =
  sc_at :: monotonic_time
  sc_link :: nat
  sc_direction :: impair_direction
  sc_delta :: profile_delta

datatype fabric_event = Delivered nat fabric_direction monotonic_time nat | Dropped nat fabric_direction nat

record 'addr simulated_fabric =
  fa_links :: "'addr simulated_link list"
  fa_script :: "scripted_impairment list"
  fa_script_cursor :: nat
  fa_master_seed :: u64
  fa_event_log :: "fabric_event list"

datatype tx_outcome = TxDropped | TxDelivered monotonic_time bool

section \<open>Operations\<close>

definition splitmix64 :: "u64 \<Rightarrow> u64" where
  "splitmix64 seed =
     (let z = seed + 0x9E3779B97F4A7C15;
          z = (z XOR drop_bit 30 z) * 0xBF58476D1CE4E5B9;
          z = (z XOR drop_bit 27 z) * 0x94D049BB133111EB
      in z XOR drop_bit 31 z)"

definition new_link :: "u64 \<Rightarrow> nat \<Rightarrow> network_profile \<times> network_profile \<Rightarrow> 'addr simulated_link" where
  "new_link master i p = \<lparr> li_fwd = fst p, li_rev = snd p, li_queue = [],
     li_rng_fwd = splitmix64 (master XOR splitmix64 (of_nat i * 2)), li_rng_rev = splitmix64 (master XOR splitmix64 (of_nat i * 2 + 1)) \<rparr>"

definition SimulatedFabric_new :: "u64 \<Rightarrow> (network_profile \<times> network_profile) list \<Rightarrow> 'addr simulated_fabric" where
  "SimulatedFabric_new master profiles = \<lparr> fa_links = map (\<lambda>(i, p). new_link master i p) (enumerate 0 profiles), fa_script = [],
     fa_script_cursor = 0, fa_master_seed = master, fa_event_log = [] \<rparr>"

definition with_script :: "scripted_impairment list \<Rightarrow> 'addr simulated_fabric \<Rightarrow> 'addr simulated_fabric" where
  "with_script script f = f\<lparr> fa_script := sort_key sc_at script, fa_script_cursor := 0 \<rparr>"

definition link_profiles :: "nat \<Rightarrow> 'addr simulated_fabric \<Rightarrow> (network_profile \<times> network_profile) result" where
  "link_profiles link f = omap (\<lambda>l. (li_fwd l, li_rev l)) (slice_index (fa_links f) link)"

definition ProfileDelta_apply :: "profile_delta \<Rightarrow> network_profile \<Rightarrow> network_profile" where
  "ProfileDelta_apply d p = p\<lparr> np_one_way_delay := duration_add (np_one_way_delay p) (pd_one_way_delay_add d),
     np_jitter := duration_add (np_jitter p) (pd_jitter_add d),
     np_loss_rate := max 0 (min 1 (fadd (np_loss_rate p) (pd_loss_rate_add d))) \<rparr>"

definition impair_link :: "scripted_impairment \<Rightarrow> 'addr simulated_link \<Rightarrow> 'addr simulated_link" where
  "impair_link e l = (case sc_direction e of
     ImpairForward \<Rightarrow> l\<lparr> li_fwd := ProfileDelta_apply (sc_delta e) (li_fwd l) \<rparr>
   | ImpairReverse \<Rightarrow> l\<lparr> li_rev := ProfileDelta_apply (sc_delta e) (li_rev l) \<rparr>
   | ImpairBoth \<Rightarrow> l\<lparr> li_fwd := ProfileDelta_apply (sc_delta e) (li_fwd l), li_rev := ProfileDelta_apply (sc_delta e) (li_rev l) \<rparr>)"

text \<open>The script is applied from the cursor on while its entries are due; an entry for a missing link panics.\<close>

fun apply_due :: "monotonic_time \<Rightarrow> scripted_impairment list \<Rightarrow> 'addr simulated_fabric \<Rightarrow> 'addr simulated_fabric result" where
  "apply_due now [] f = Ok f"
| "apply_due now (e # es) f =
     (if sc_at e \<le> now
      then if sc_link e < length (fa_links f)
           then apply_due now es (f\<lparr> fa_links := (fa_links f)[sc_link e := impair_link e (fa_links f ! sc_link e)],
                  fa_script_cursor := fa_script_cursor f + 1 \<rparr>)
           else Panic
      else Ok f)"

definition tick_script :: "monotonic_time \<Rightarrow> 'addr simulated_fabric \<Rightarrow> 'addr simulated_fabric result" where
  "tick_script now f = apply_due now (drop (fa_script_cursor f) (fa_script f)) f"

text \<open>
  The fabric has its own generator and its own copy of the impairment pipeline, translated here as
  they are written in \<^verbatim>\<open>fabric.rs\<close>; that they agree with those of the single pipe is a theorem below.
\<close>

definition fabric_next_random_f64 :: "u64 \<Rightarrow> u64 \<times> rat" where
  "fabric_next_random_f64 state =
     (let x = state;
          x = x XOR push_bit 13 x;
          x = x XOR drop_bit 7 x;
          x = x XOR push_bit 17 x
      in (x, fdiv (of_u64 (unat x)) (of_u64 u64_max)))"

text \<open>
  What a direction's profile and random state decide for a packet of a given length. The division by
  a bandwidth of zero is infinite, which the cast saturates, or not a number for an empty packet,
  which it makes zero.
\<close>

definition fabric_outcome :: "network_profile \<Rightarrow> nat \<Rightarrow> monotonic_time \<Rightarrow> u64 \<Rightarrow> u64 \<times> tx_outcome" where
  "fabric_outcome profile len now rng =
     (let (rng1, r_loss) = fabric_next_random_f64 rng
      in if r_loss < np_loss_rate profile then (rng1, TxDropped)
         else let (rng2, r_jitter) = fabric_next_random_f64 rng1;
                  jitter_factor = fsub (fmul r_jitter 2) 1;
                  jitter_micros = to_i64 (fmul (of_u64 (np_jitter profile)) jitter_factor);
                  base_delay_micros = i64_wrap (int (np_one_way_delay profile));
                  effective = nat (max (i64_wrap (base_delay_micros + jitter_micros)) 100);
                  serialization =
                    (if 0 < np_bandwidth_bytes_per_sec profile
                     then to_u64 (fmul (fdiv (of_u64 len) (of_u64 (np_bandwidth_bytes_per_sec profile))) 1000000)
                     else if 0 < len then u64_max else 0);
                  deliver_at = time_add now (wadd64 effective serialization);
                  (rng3, r_reorder) = fabric_next_random_f64 rng2;
                  deliver_at = (if r_reorder < np_reorder_rate profile then time_add deliver_at (Duration_from_millis 15) else deliver_at);
                  (rng4, r_dup) = fabric_next_random_f64 rng3
              in (rng4, TxDelivered deliver_at (r_dup < np_duplicate_rate profile)))"

definition link_profile :: "fabric_direction \<Rightarrow> 'addr simulated_link \<Rightarrow> network_profile" where
  "link_profile d l = (case d of Forward \<Rightarrow> li_fwd l | Reverse \<Rightarrow> li_rev l)"

definition link_rng :: "fabric_direction \<Rightarrow> 'addr simulated_link \<Rightarrow> u64" where
  "link_rng d l = (case d of Forward \<Rightarrow> li_rng_fwd l | Reverse \<Rightarrow> li_rng_rev l)"

definition set_link_rng :: "fabric_direction \<Rightarrow> u64 \<Rightarrow> 'addr simulated_link \<Rightarrow> 'addr simulated_link" where
  "set_link_rng d s l = (case d of Forward \<Rightarrow> l\<lparr> li_rng_fwd := s \<rparr> | Reverse \<Rightarrow> l\<lparr> li_rng_rev := s \<rparr>)"

definition fabric_transmit :: "nat \<Rightarrow> fabric_direction \<Rightarrow> 'addr \<Rightarrow> 'addr \<Rightarrow> bytes \<Rightarrow> monotonic_time \<Rightarrow> 'addr simulated_fabric \<Rightarrow> 'addr simulated_fabric result" where
  "fabric_transmit link d src dest payload now f =
     (if length (fa_links f) \<le> link then Panic
      else let l = fa_links f ! link;
               (s, outcome) = fabric_outcome (link_profile d l) (length payload) now (link_rng d l);
               l1 = set_link_rng d s l
           in case outcome of
                TxDropped \<Rightarrow> Ok (f\<lparr> fa_links := (fa_links f)[link := l1], fa_event_log := fa_event_log f @ [Dropped link d (length payload)] \<rparr>)
              | TxDelivered deliver_at duplicate \<Rightarrow>
                  let q = heap_push pk_deliver_at \<lparr> pk_deliver_at = deliver_at, pk_src = src, pk_dest = dest, pk_data = payload \<rparr> (li_queue l1);
                      q' = (if duplicate
                        then heap_push pk_deliver_at \<lparr> pk_deliver_at = time_add deliver_at 500, pk_src = src, pk_dest = dest, pk_data = payload \<rparr> q
                        else q)
                  in Ok (f\<lparr> fa_links := (fa_links f)[link := l1\<lparr> li_queue := q' \<rparr>],
                       fa_event_log := fa_event_log f @ [Delivered link d deliver_at (length payload)] \<rparr>))"

text \<open>The loop over the queue of one link.\<close>

function drain_link :: "monotonic_time \<Rightarrow> 'addr simulated_packet list \<Rightarrow> 'addr simulated_packet list \<times> 'addr simulated_packet list" where
  "drain_link now q = (case heap_pop pk_deliver_at q of
     None \<Rightarrow> ([], q)
   | Some (first, rest) \<Rightarrow> if pk_deliver_at first \<le> now then let (ready, q') = drain_link now rest in (first # ready, q') else ([], q))"
  by pat_completeness auto
termination
  by (relation "measure (\<lambda>(_, q). length q)") (auto dest: heap_pop_length)

declare drain_link.simps [simp del]

definition fabric_drain_ready :: "monotonic_time \<Rightarrow> 'addr simulated_fabric \<Rightarrow> 'addr simulated_fabric \<times> 'addr simulated_packet list" where
  "fabric_drain_ready now f =
     (f\<lparr> fa_links := map (\<lambda>l. l\<lparr> li_queue := snd (drain_link now (li_queue l)) \<rparr>) (fa_links f) \<rparr>,
      sort_key pk_deliver_at (concat (map (\<lambda>l. fst (drain_link now (li_queue l))) (fa_links f))))"

interpretation link_drain: timed_drain pk_deliver_at "heap_ok pk_deliver_at" mset "heap_push pk_deliver_at" "heap_pop pk_deliver_at" drain_link
  by unfold_locales (rule drain_link.simps)

section \<open>A direction of a link is a pipe\<close>

definition as_network :: "fabric_direction \<Rightarrow> 'addr simulated_link \<Rightarrow> 'addr simulated_network" where
  "as_network d l = \<lparr> sn_queue = li_queue l, sn_rng_state = link_rng d l \<rparr>"

lemma link_simps [simp]:
  "link_rng d (set_link_rng d s l) = s" "li_queue (set_link_rng d s l) = li_queue l" "link_rng d (l\<lparr> li_queue := q \<rparr>) = link_rng d l"
  "link_profile d' (set_link_rng d s l) = link_profile d' l" "link_profile d' (l\<lparr> li_queue := q \<rparr>) = link_profile d' l"
  "d' \<noteq> d \<Longrightarrow> link_rng d' (set_link_rng d s l) = link_rng d' l"
  by (cases d; cases d'; simp add: link_rng_def set_link_rng_def link_profile_def)+

text \<open>The two copies of the generator and of the pipeline, step against step.\<close>

lemma fabric_random_agrees: "fabric_next_random_f64 = next_random_f64"
  by (rule ext) (simp add: fabric_next_random_f64_def next_random_f64_def xorshift_def Let_def)

lemma fabric_outcome_steps:
  "fabric_outcome p len now s0 =
     (let (s1, r_loss) = next_random_f64 s0; (s2, r_jitter) = next_random_f64 s1;
          (s3, r_reorder) = next_random_f64 s2; (s4, r_dup) = next_random_f64 s3;
          deliver_at = time_add now (wadd64 (effective_delay p r_jitter) (serialization_micros p len))
      in if r_loss < np_loss_rate p then (s1, TxDropped)
         else (s4, TxDelivered (if r_reorder < np_reorder_rate p then time_add deliver_at (Duration_from_millis 15) else deliver_at)
                (r_dup < np_duplicate_rate p)))"
  by (simp add: fabric_outcome_def fabric_random_agrees effective_delay_def serialization_micros_def Let_def case_prod_beta)

text \<open>
  C34: the fabric and the single pipe impair packets alike. The fabric has its own copy of the
  generator, of the jittered delay with its floor of 100 microseconds and of the serialization time,
  and it decides about the duplicate before it queues the packet; still, transmitting on one direction of a link
  changes the queue of the link and the random state of that direction exactly as transmitting over a
  single pipe with the profile of that direction, that queue and that random state does; the other
  links, the other direction and all profiles stay as they were.
\<close>

theorem fabric_matches_network:
  assumes "link < length (fa_links f)"
  shows "\<exists>f'. fabric_transmit link d src dest payload now f = Ok f' \<and>
    as_network d (fa_links f' ! link) = network_transmit src dest payload now (link_profile d (fa_links f ! link)) (as_network d (fa_links f ! link)) \<and>
    (\<forall>l. l \<noteq> link \<longrightarrow> fa_links f' ! l = fa_links f ! l) \<and> (\<forall>d'. link_profile d' (fa_links f' ! link) = link_profile d' (fa_links f ! link)) \<and>
    (\<forall>d'. d' \<noteq> d \<longrightarrow> link_rng d' (fa_links f' ! link) = link_rng d' (fa_links f ! link))"
  using assms
  by (auto simp: fabric_transmit_def fabric_outcome_steps network_transmit_def as_network_def Let_def case_prod_beta)

section \<open>Independent streams\<close>

datatype 'addr fabric_op = Tick monotonic_time | Transmit nat fabric_direction 'addr 'addr bytes monotonic_time

fun fabric_run :: "'addr fabric_op list \<Rightarrow> 'addr simulated_fabric \<Rightarrow> 'addr simulated_fabric result" where
  "fabric_run [] f = Ok f"
| "fabric_run (Tick now # ops) f = obind (tick_script now f) (fabric_run ops)"
| "fabric_run (Transmit link d src dest payload now # ops) f = obind (fabric_transmit link d src dest payload now f) (fabric_run ops)"

definition concerns :: "nat \<Rightarrow> fabric_direction \<Rightarrow> 'addr fabric_op \<Rightarrow> bool" where
  "concerns l d op = (case op of Tick _ \<Rightarrow> True | Transmit link d' _ _ _ _ \<Rightarrow> link = l \<and> d' = d)"

definition events_at :: "nat \<Rightarrow> fabric_direction \<Rightarrow> 'addr simulated_fabric \<Rightarrow> fabric_event list" where
  "events_at l d f = filter (\<lambda>e. case e of Delivered link d' _ _ \<Rightarrow> link = l \<and> d' = d | Dropped link d' _ \<Rightarrow> link = l \<and> d' = d) (fa_event_log f)"

text \<open>Two fabrics that treat the next packet on link \<open>l\<close> in direction \<open>d\<close> alike.\<close>

definition agree :: "nat \<Rightarrow> fabric_direction \<Rightarrow> 'addr simulated_fabric \<Rightarrow> 'addr simulated_fabric \<Rightarrow> bool" where
  "agree l d f g \<longleftrightarrow> length (fa_links f) = length (fa_links g) \<and> fa_script f = fa_script g \<and> fa_script_cursor f = fa_script_cursor g \<and>
     (\<forall>i < length (fa_links f). \<forall>e. link_profile e (fa_links f ! i) = link_profile e (fa_links g ! i)) \<and>
     (l < length (fa_links f) \<longrightarrow> link_rng d (fa_links f ! l) = link_rng d (fa_links g ! l)) \<and> events_at l d f = events_at l d g"

definition affects :: "scripted_impairment \<Rightarrow> fabric_direction \<Rightarrow> bool" where
  "affects e d = (case sc_direction e of ImpairForward \<Rightarrow> d = Forward | ImpairReverse \<Rightarrow> d = Reverse | ImpairBoth \<Rightarrow> True)"

lemma impair_link_simps:
  "link_rng d (impair_link e l) = link_rng d l"
  "link_profile d (impair_link e l) = (if affects e d then ProfileDelta_apply (sc_delta e) (link_profile d l) else link_profile d l)"
  by (cases "sc_direction e"; cases d; simp add: impair_link_def link_rng_def link_profile_def affects_def)+

lemma agree_due:
  assumes "agree l d f g" and "apply_due now es f = Ok f'"
  shows "\<exists>g'. apply_due now es g = Ok g' \<and> agree l d f' g'"
  using assms
proof (induction now es f arbitrary: g rule: apply_due.induct)
  case (2 now e es f)
  show ?case
  proof (cases "sc_at e \<le> now")
    case True
    then have inr: "sc_link e < length (fa_links f)" using "2.prems"(2) by (auto split: if_splits)
    let ?step = "\<lambda>h. h\<lparr> fa_links := (fa_links h)[sc_link e := impair_link e (fa_links h ! sc_link e)], fa_script_cursor := fa_script_cursor h + 1 \<rparr>"
    have len: "length (fa_links g) = length (fa_links f)" using "2.prems"(1) by (simp add: agree_def)
    have "agree l d (?step f) (?step g)"
      using "2.prems"(1) inr unfolding agree_def by (auto simp: nth_list_update impair_link_simps events_at_def)
    from "2.IH" [OF True inr this] show ?thesis using "2.prems"(2) True inr len by simp
  next
    case False
    then show ?thesis using "2.prems" by simp
  qed
qed simp

lemma agree_transmit:
  assumes "agree l d f g" and "fabric_transmit link d' src dest payload now f = Ok f'"
  shows "if link = l \<and> d' = d then \<exists>g'. fabric_transmit link d' src dest payload now g = Ok g' \<and> agree l d f' g' else agree l d f' g"
proof -
  have inr: "link < length (fa_links f)" using assms(2) by (auto simp: fabric_transmit_def split: if_splits)
  let ?l = "fa_links f ! link"
  obtain s out where o: "fabric_outcome (link_profile d' ?l) (length payload) now (link_rng d' ?l) = (s, out)" by fastforce
  define ev where "ev = (case out of TxDropped \<Rightarrow> Dropped link d' (length payload) | TxDelivered t _ \<Rightarrow> Delivered link d' t (length payload))"
  have step: "\<exists>q. fabric_transmit link d' src dest payload now h = Ok (h\<lparr> fa_links := (fa_links h)[link := (set_link_rng d' s (fa_links h ! link))\<lparr> li_queue := q \<rparr>],
      fa_event_log := fa_event_log h @ [ev] \<rparr>)"
    if "link < length (fa_links h)" "link_profile d' (fa_links h ! link) = link_profile d' ?l" "link_rng d' (fa_links h ! link) = link_rng d' ?l" for h :: "'a simulated_fabric"
  proof (cases out)
    case TxDropped
    have same: "(set_link_rng d' s l)\<lparr> li_queue := li_queue l \<rparr> = set_link_rng d' s l" for l :: "'a simulated_link"
      by (cases d') (simp_all add: set_link_rng_def)
    show ?thesis using TxDropped that o by (intro exI [of _ "li_queue (fa_links h ! link)"]) (simp add: fabric_transmit_def ev_def same)
  next
    case (TxDelivered t dup)
    then show ?thesis using that o by (simp add: fabric_transmit_def ev_def Let_def) blast
  qed
  obtain q where f': "f' = f\<lparr> fa_links := (fa_links f)[link := (set_link_rng d' s ?l)\<lparr> li_queue := q \<rparr>], fa_event_log := fa_event_log f @ [ev] \<rparr>"
    using step [of f] inr assms(2) by auto
  show ?thesis
  proof (cases "link = l \<and> d' = d")
    case True
    then obtain q' where "fabric_transmit link d' src dest payload now g = Ok (g\<lparr> fa_links := (fa_links g)[link := (set_link_rng d' s (fa_links g ! link))\<lparr> li_queue := q' \<rparr>],
        fa_event_log := fa_event_log g @ [ev] \<rparr>)"
      using step [of g] inr assms(1) by (auto simp: agree_def)
    then show ?thesis using True assms(1) inr by (auto simp: f' agree_def nth_list_update events_at_def)
  next
    case False
    then have "\<not> (case ev of Delivered link d' _ _ \<Rightarrow> link = l \<and> d' = d | Dropped link d' _ \<Rightarrow> link = l \<and> d' = d)"
      by (auto simp: ev_def split: tx_outcome.split)
    then show ?thesis using False assms(1) inr by (auto simp: f' agree_def nth_list_update events_at_def)
  qed
qed

lemma agree_run:
  assumes "agree l d f g" and "fabric_run ops f = Ok f'"
  shows "\<exists>g'. fabric_run (filter (concerns l d) ops) g = Ok g' \<and> agree l d f' g'"
  using assms
proof (induction ops f arbitrary: g rule: fabric_run.induct)
  case (2 now ops f)
  then obtain f1 where f1: "tick_script now f = Ok f1" "fabric_run ops f1 = Ok f'" by (auto simp: obind_eq_Ok_conv)
  have same: "drop (fa_script_cursor g) (fa_script g) = drop (fa_script_cursor f) (fa_script f)" using "2.prems"(1) by (simp add: agree_def)
  obtain g1 where "tick_script now g = Ok g1" "agree l d f1 g1"
    using agree_due [OF "2.prems"(1) f1(1) [unfolded tick_script_def]] by (auto simp: tick_script_def same)
  then show ?case using "2.IH" [OF _ f1(2)] by (simp add: concerns_def)
next
  case (3 link d' src dest payload now ops f)
  then obtain f1 where f1: "fabric_transmit link d' src dest payload now f = Ok f1" "fabric_run ops f1 = Ok f'" by (auto simp: obind_eq_Ok_conv)
  note t = agree_transmit [OF "3.prems"(1) f1(1)]
  show ?case
  proof (cases "link = l \<and> d' = d")
    case True
    then obtain g1 where "fabric_transmit link d' src dest payload now g = Ok g1" "agree l d f1 g1" using t by auto
    then show ?thesis using "3.IH" [OF _ f1(2)] True by (simp add: concerns_def)
  next
    case False
    then have "agree l d f1 g" using t by simp
    from "3.IH" [OF this f1(2)] show ?thesis using False by (auto simp: concerns_def)
  qed
qed simp

text \<open>
  C35: the randomness of a link and direction does not depend on other traffic. In any run of
  transmissions and script ticks, what happens to the packets of one link in one direction (which are
  dropped, and when the others are delivered) is exactly what happens when all other transmissions are
  left out of the run.
\<close>

theorem fabric_streams_independent:
  assumes "fabric_run ops f = Ok f'"
  shows "\<exists>g'. fabric_run (filter (concerns l d) ops) f = Ok g' \<and> events_at l d g' = events_at l d f'"
proof -
  have "agree l d f f" by (simp add: agree_def)
  from agree_run [OF this assms] show ?thesis by (auto simp: agree_def)
qed

section \<open>Draining\<close>

definition queues_ok :: "'addr simulated_fabric \<Rightarrow> bool" where
  "queues_ok f \<longleftrightarrow> (\<forall>l \<in> set (fa_links f). heap_ok pk_deliver_at (li_queue l))"

definition fabric_packets :: "'addr simulated_fabric \<Rightarrow> 'addr simulated_packet multiset" where
  "fabric_packets f = sum_list (map (\<lambda>l. mset (li_queue l)) (fa_links f))"

text \<open>
  Draining returns exactly the packets that are due, over all links, in the order of their delivery
  times; the others stay queued, and every queue stays a heap.
\<close>

theorem fabric_drain_exact:
  assumes "queues_ok f" and "fabric_drain_ready now f = (f', ready)"
  shows "queues_ok f' \<and> sorted (map pk_deliver_at ready) \<and> mset ready = filter_mset (\<lambda>p. pk_deliver_at p \<le> now) (fabric_packets f) \<and>
    fabric_packets f' = filter_mset (\<lambda>p. \<not> pk_deliver_at p \<le> now) (fabric_packets f)"
proof -
  have link: "heap_ok pk_deliver_at (snd (drain_link now (li_queue l)))"
    "mset (fst (drain_link now (li_queue l))) = filter_mset (\<lambda>p. pk_deliver_at p \<le> now) (mset (li_queue l))"
    "mset (snd (drain_link now (li_queue l))) = filter_mset (\<lambda>p. \<not> pk_deliver_at p \<le> now) (mset (li_queue l))" if "l \<in> set (fa_links f)" for l
    using link_drain.drain_exact [of "li_queue l" now] assms(1) that by (simp_all add: queues_ok_def)
  have sum: "sum_list (map (\<lambda>l. filter_mset P (mset (li_queue l))) ls) = filter_mset P (sum_list (map (\<lambda>l. mset (li_queue l)) ls))"
    for P and ls :: "'a simulated_link list" by (induction ls) simp_all
  have "queues_ok f'" using assms(2) link(1) by (auto simp: fabric_drain_ready_def queues_ok_def)
  moreover have "sorted (map pk_deliver_at ready)" using assms(2) by (auto simp: fabric_drain_ready_def)
  moreover have "mset ready = sum_list (map (\<lambda>l. mset (fst (drain_link now (li_queue l)))) (fa_links f))"
    using assms(2) by (auto simp: fabric_drain_ready_def mset_concat comp_def)
  then have "mset ready = filter_mset (\<lambda>p. pk_deliver_at p \<le> now) (fabric_packets f)"
    using link(2) by (simp add: fabric_packets_def sum cong: map_cong)
  moreover have "fabric_packets f' = filter_mset (\<lambda>p. \<not> pk_deliver_at p \<le> now) (fabric_packets f)"
    using assms(2) link(3) by (auto simp: fabric_drain_ready_def fabric_packets_def comp_def sum cong: map_cong)
  ultimately show ?thesis by simp
qed

section \<open>A seed that stops a stream\<close>

definition stopping_seed :: u64 where
  "stopping_seed = 0x83E82E7FFBA84E44"

lemma stopped: "fabric_next_random_f64 0 = (0, 0)"
  by (simp add: fabric_next_random_f64_def fdiv_def of_u64_def f64_round_def)

text \<open>
  One master seed stops the forward stream of the first link. The generator maps zero to zero, and
  for this seed the stream starts at zero: every draw is zero, so on a link with any loss rate above
  zero every packet is dropped.
\<close>

theorem stopping_seed_drops_everything:
  assumes "0 < np_loss_rate (fst p)"
  shows "fabric_run (map (\<lambda>(src, dest, payload, now). Transmit 0 Forward src dest payload now) sends) (SimulatedFabric_new stopping_seed (p # ps)) =
    Ok ((SimulatedFabric_new stopping_seed (p # ps))\<lparr> fa_event_log := map (\<lambda>(src, dest, payload, now). Dropped 0 Forward (length payload)) sends \<rparr>)"
proof -
  have rng: "li_rng_fwd (new_link stopping_seed 0 p) = 0" by (simp add: new_link_def splitmix64_def stopping_seed_def Let_def)
  have "fabric_run (map (\<lambda>(src, dest, payload, now). Transmit 0 Forward src dest payload now) sends) f =
      Ok (f\<lparr> fa_event_log := fa_event_log f @ map (\<lambda>(src, dest, payload, now). Dropped 0 Forward (length payload)) sends \<rparr>)"
    if "fa_links f \<noteq> []" "li_rng_fwd (fa_links f ! 0) = 0" "0 < np_loss_rate (li_fwd (fa_links f ! 0))" for f
    using that
  proof (induction sends arbitrary: f)
    case (Cons x sends)
    obtain src dest payload now where x: "x = (src, dest, payload, now)" by (cases x)
    have "fabric_transmit 0 Forward src dest payload now f = Ok (f\<lparr> fa_event_log := fa_event_log f @ [Dropped 0 Forward (length payload)] \<rparr>)"
      using Cons.prems by (cases "fa_links f") (simp_all add: fabric_transmit_def fabric_outcome_def link_rng_def link_profile_def set_link_rng_def stopped)
    then show ?case using Cons.IH Cons.prems by (simp add: x)
  qed simp
  from this [of "SimulatedFabric_new stopping_seed (p # ps)"] show ?thesis
    using rng assms by (simp add: SimulatedFabric_new_def new_link_def)
qed

section \<open>Witnesses\<close>

definition sample_fabric :: "nat simulated_fabric" where
  "sample_fabric = SimulatedFabric_new 1 [(lan, lan)]"

lemma sample_fabric_links: "length (fa_links sample_fabric) = 1"
  by (simp add: sample_fabric_def SimulatedFabric_new_def)

lemma transmit_total:
  assumes "link < length (fa_links f)"
  shows "\<exists>f'. fabric_transmit link d src dest payload now f = Ok f' \<and> length (fa_links f') = length (fa_links f)"
  using assms by (auto simp: fabric_transmit_def Let_def split: prod.split tx_outcome.split)

theorem fabric_matches_network_witness:
  "\<exists>f'. fabric_transmit 0 Forward 1 2 [7] 100 sample_fabric = Ok f' \<and>
     as_network Forward (fa_links f' ! 0) = network_transmit 1 2 [7] 100 (link_profile Forward (fa_links sample_fabric ! 0)) (as_network Forward (fa_links sample_fabric ! 0))"
  using fabric_matches_network [of 0 sample_fabric Forward 1 2 "[7]" 100] sample_fabric_links by auto

theorem fabric_streams_independent_witness:
  "\<exists>f' g'. fabric_run [Transmit 0 Forward 1 2 [7] 100, Transmit 0 Reverse 2 1 [8] 110] sample_fabric = Ok f' \<and>
     fabric_run [Transmit 0 Reverse 2 1 [8] 110] sample_fabric = Ok g' \<and> events_at 0 Reverse g' = events_at 0 Reverse f'"
proof -
  obtain f1 where f1: "fabric_transmit 0 Forward 1 2 [7] 100 sample_fabric = Ok f1" "length (fa_links f1) = 1"
    using transmit_total [of 0 sample_fabric] sample_fabric_links by fastforce
  then obtain f' where "fabric_transmit 0 Reverse 2 1 [8] 110 f1 = Ok f'" using transmit_total [of 0 f1] by fastforce
  then have run: "fabric_run [Transmit 0 Forward 1 2 [7] 100, Transmit 0 Reverse 2 1 [8] 110] sample_fabric = Ok f'" using f1(1) by simp
  from fabric_streams_independent [OF run, of 0 Reverse] run show ?thesis by (simp add: concerns_def)
qed

theorem fabric_drain_exact_witness:
  "snd (fabric_drain_ready 50 (sample_fabric\<lparr> fa_links := [(new_link 1 0 (lan, lan))\<lparr> li_queue :=
     [\<lparr> pk_deliver_at = 40, pk_src = 1, pk_dest = 2, pk_data = [7] \<rparr>] \<rparr>] \<rparr>)) = [\<lparr> pk_deliver_at = 40, pk_src = 1, pk_dest = 2, pk_data = [7] \<rparr>]"
proof -
  let ?p = "\<lparr> pk_deliver_at = 40, pk_src = 1, pk_dest = 2, pk_data = [7] \<rparr> :: nat simulated_packet"
  let ?f = "sample_fabric\<lparr> fa_links := [(new_link 1 0 (lan, lan))\<lparr> li_queue := [?p] \<rparr>] \<rparr>"
  obtain f' ready where d: "fabric_drain_ready 50 ?f = (f', ready)" by fastforce
  have "queues_ok ?f" by (simp add: queues_ok_def heap_ok_def)
  from fabric_drain_exact [OF this d] have "mset ready = {# ?p #}" by (simp add: fabric_packets_def)
  then have "ready = [?p]" by simp
  then show ?thesis unfolding d snd_conv .
qed

theorem stopping_seed_drops_everything_witness:
  "fabric_run [Transmit 0 Forward (1 :: nat) 2 [7] 100] (SimulatedFabric_new stopping_seed [(lan\<lparr> np_loss_rate := 1 / 2 \<rparr>, lan)]) =
     Ok ((SimulatedFabric_new stopping_seed [(lan\<lparr> np_loss_rate := 1 / 2 \<rparr>, lan)])\<lparr> fa_event_log := [Dropped 0 Forward 1] \<rparr>)"
  using stopping_seed_drops_everything [of "(lan\<lparr> np_loss_rate := 1 / 2 \<rparr>, lan)" "[(1 :: nat, 2, [7], 100)]" "[]"] by simp

end
