(* ===== verification/Endpoint.thy ===== *)
theory Endpoint
  imports Handshake Conn_Tx
begin

text \<open>
  The endpoint (\<^verbatim>\<open>gtp-runtime-tokio/src/endpoint.rs\<close>): the hello rate limiter, the handshake of both
  roles, the routing of datagrams to connections and the transmit loop. The tasks of the endpoint
  take turns at their awaits; each definition here is one stretch between two awaits on something
  outside the endpoint, and takes what it awaited as an argument. An \<^verbatim>\<open>Arc\<close> of a connection is a
  reference into a store, because the routing table, the transmit task and the application share it;
  a one-shot channel is the number of its waiter. Sockets, the bounded channel that carries the
  messages of a connection to the application and the address type are parameters; so is the
  randomness of a key pair. The channel of accepted connections (\<open>ep_incoming\<close>) is a list without
  a bound: in the code it holds 1024, and the receive task waits on it when it is full. That wait is
  outside the model, so what is proved of the receive loop is what it does with a datagram once it
  runs, not that it is never parked there.
\<close>

section \<open>Environment and state\<close>

datatype 'chan try_send_outcome = Sent 'chan | Full | Disconnected

record ('sk, 'addr, 'ip, 'chan) endpoint_env =
  ee_conn :: conn_env
  ee_x25519 :: "'sk x25519"
  ee_hmac :: hmac_fn
  ee_addr_text :: "'addr \<Rightarrow> bytes"
  ee_ip :: "'addr \<Rightarrow> 'ip"
  ee_is_loopback :: "'ip \<Rightarrow> bool"
  ee_channel :: "nat \<Rightarrow> 'chan"
  ee_try_send :: "'chan \<Rightarrow> received_message \<Rightarrow> 'chan try_send_outcome"

record server_hello_info =
  sh_server_pk :: bytes
  sh_server_nonce :: bytes
  sh_stateless_cookie :: bytes
  sh_server_static_pk :: bytes

record ('sk, 'addr) pending_server =
  ps_pair :: "'sk ephemeral_key_pair"
  ps_client_pk :: bytes
  ps_client_nonce :: bytes
  ps_src :: 'addr
  ps_start :: monotonic_time

record ('sk, 'addr, 'ip, 'chan) gtp_endpoint =
  ep_store :: "nat \<rightharpoonup> 'addr gtp_connection \<times> 'chan"
  ep_next_ref :: nat
  ep_connections :: "connection_id \<rightharpoonup> nat"
  ep_token_secret :: bytes
  ep_pending_client_handshakes :: "connection_id \<rightharpoonup> nat"
  ep_pending_server_handshakes :: "connection_id \<rightharpoonup> ('sk, 'addr) pending_server"
  ep_pending_server_finishes :: "connection_id \<rightharpoonup> nat"
  ep_accepted_finishes :: "connection_id \<rightharpoonup> bytes \<times> 'addr \<times> monotonic_time"
  ep_static_identity :: "'sk option"
  ep_trusted_server_static :: "bytes option"
  ep_hello_rate_limiter :: "'ip \<rightharpoonup> u32 \<times> monotonic_time"
  ep_incoming :: "nat list"

text \<open>What a stretch of endpoint code does to the outside.\<close>

datatype 'addr endpoint_output = SendTo bytes 'addr | TellHello nat server_hello_info | TellFinish nat bytes

definition RECEIVE_OVERFLOW_CLOSE_CODE :: u16 where
  "RECEIVE_OVERFLOW_CLOSE_CODE = 8"

definition APPLICATION_GONE_CLOSE_CODE :: u16 where
  "APPLICATION_GONE_CLOSE_CODE = 9"

definition map_retain :: "('v \<Rightarrow> bool) \<Rightarrow> ('k \<rightharpoonup> 'v) \<Rightarrow> ('k \<rightharpoonup> 'v)" where
  "map_retain keep m = (\<lambda>k. case m k of Some v \<Rightarrow> if keep v then Some v else None | None \<Rightarrow> None)"

definition bind_inner :: "bytes \<Rightarrow> 'sk option \<Rightarrow> ('sk, 'addr, 'ip, 'chan) gtp_endpoint" where
  "bind_inner token_secret identity = \<lparr> ep_store = Map.empty, ep_next_ref = 0, ep_connections = Map.empty, ep_token_secret = token_secret,
     ep_pending_client_handshakes = Map.empty, ep_pending_server_handshakes = Map.empty, ep_pending_server_finishes = Map.empty,
     ep_accepted_finishes = Map.empty, ep_static_identity = identity, ep_trusted_server_static = None,
     ep_hello_rate_limiter = Map.empty, ep_incoming = [] \<rparr>"

definition set_trusted_server_static :: "bytes \<Rightarrow> ('sk, 'addr, 'ip, 'chan) gtp_endpoint \<Rightarrow> ('sk, 'addr, 'ip, 'chan) gtp_endpoint" where
  "set_trusted_server_static pinned ep = ep\<lparr> ep_trusted_server_static := Some pinned \<rparr>"

definition static_identity_public :: "('sk, 'addr, 'ip, 'chan) endpoint_env \<Rightarrow> ('sk, 'addr, 'ip, 'chan) gtp_endpoint \<Rightarrow> bytes option" where
  "static_identity_public env ep = map_option (x_public (ee_x25519 env)) (ep_static_identity ep)"

section \<open>Rate limiter\<close>

definition HelloRateLimiter_allow :: "('ip \<Rightarrow> bool) \<Rightarrow> 'ip \<Rightarrow> monotonic_time \<Rightarrow> duration \<Rightarrow> u32 \<Rightarrow> ('ip \<rightharpoonup> u32 \<times> monotonic_time) \<Rightarrow>
    ('ip \<rightharpoonup> u32 \<times> monotonic_time) \<times> bool" where
  "HelloRateLimiter_allow is_loopback ip now window cap seen =
     (if is_loopback ip then (seen, True)
      else let seen1 = map_retain (\<lambda>(_, t). duration_since now t < window) seen;
               (n, t) = (case seen1 ip of Some e \<Rightarrow> e | None \<Rightarrow> (0, now));
               e = (if window \<le> duration_since now t then (1, now) else (n + 1, t))
           in (seen1(ip \<mapsto> e), fst e \<le> cap))"

section \<open>Handshake datagrams\<close>

definition is_handshake_candidate :: "packet_header \<Rightarrow> nat \<Rightarrow> nat \<Rightarrow> bool" where
  "is_handshake_candidate header header_len datagram_len \<longleftrightarrow> is_long_header (ph_flags header) \<and> header_len < datagram_len"

text \<open>A long header and one frame in a fresh buffer of \<open>n\<close> bytes; the length of the datagram with the buffer.\<close>

definition long_datagram :: "nat \<Rightarrow> connection_id \<Rightarrow> packet_number \<Rightarrow> frame \<Rightarrow> bytes result" where
  "long_datagram n cid pn f =
     obind (PacketHeader_encode (PacketHeader_new_long 1 cid pn 0 0) (replicate n 0)) (\<lambda>(buf, hdr_len).
       case Frame_encode f (drop hdr_len buf) of
         (body, Ok flen) \<Rightarrow> Ok (take (hdr_len + flen) (take hdr_len buf @ body))
       | (body, Err e) \<Rightarrow> Err e
       | (body, Panic) \<Rightarrow> Panic)"

definition send_if_built :: "bytes result \<Rightarrow> 'addr \<Rightarrow> 'addr endpoint_output list" where
  "send_if_built d dest = (case d of Ok bytes \<Rightarrow> [SendTo bytes dest] | _ \<Rightarrow> [])"

definition send_server_finish :: "connection_id \<Rightarrow> bytes \<Rightarrow> 'addr \<Rightarrow> 'addr endpoint_output list" where
  "send_server_finish cid s_proof dest = send_if_built (long_datagram 128 cid 0 (ServerFinish s_proof)) dest"

text \<open>The server's answer to a hello writes the frame at offset 32 if the header does not encode.\<close>

definition server_hello_datagram :: "connection_id \<Rightarrow> frame \<Rightarrow> bytes result" where
  "server_hello_datagram cid f =
     (let (buf, hdr_len) = (case PacketHeader_encode (PacketHeader_new_long 1 cid 0 0 0) (replicate 256 0) of
            Ok (buf, n) \<Rightarrow> (buf, n) | _ \<Rightarrow> (replicate 256 0, 32))
      in case Frame_encode f (drop hdr_len buf) of
           (body, Ok flen) \<Rightarrow> Ok (take (hdr_len + flen) (take hdr_len buf @ body))
         | (body, Err e) \<Rightarrow> Err e
         | (body, Panic) \<Rightarrow> Panic)"

section \<open>Registration\<close>

definition register_connection :: "('sk, 'addr, 'ip, 'chan) endpoint_env \<Rightarrow> connection_id \<Rightarrow> 'addr gtp_connection \<Rightarrow>
    ('sk, 'addr, 'ip, 'chan) gtp_endpoint \<Rightarrow> ('sk, 'addr, 'ip, 'chan) gtp_endpoint \<times> nat" where
  "register_connection env cid conn ep =
     (let r = ep_next_ref ep
      in (ep\<lparr> ep_store := (ep_store ep)(r \<mapsto> (conn, ee_channel env 1024)), ep_next_ref := r + 1,
             ep_connections := (ep_connections ep)(cid \<mapsto> r) \<rparr>, r))"

definition connect_with_directional_keys :: "('sk, 'addr, 'ip, 'chan) endpoint_env \<Rightarrow> connection_id \<Rightarrow> 'addr \<Rightarrow> directional_keys \<Rightarrow> bool \<Rightarrow> bool \<Rightarrow>
    ('sk, 'addr, 'ip, 'chan) gtp_endpoint \<Rightarrow> ('sk, 'addr, 'ip, 'chan) gtp_endpoint \<times> nat" where
  "connect_with_directional_keys env cid peer keys as_client pre_validated ep =
     register_connection env cid (GtpConnection_new_with_directional_keys cid peer keys as_client pre_validated competitive_fps) ep"

section \<open>The server side of the handshake\<close>

definition HANDSHAKE_LIFETIME :: duration where
  "HANDSHAKE_LIFETIME = Duration_from_secs 3"

text \<open>Case A: a \<^verbatim>\<open>ClientHello\<close>. \<open>fresh\<close> is the key pair the server generates if it needs one.\<close>

definition on_client_hello :: "('sk, 'addr, 'ip, 'chan) endpoint_env \<Rightarrow> 'sk ephemeral_key_pair \<Rightarrow> monotonic_time \<Rightarrow> 'addr \<Rightarrow> connection_id \<Rightarrow>
    bytes \<Rightarrow> bytes \<Rightarrow> u32 \<Rightarrow> ('sk, 'addr, 'ip, 'chan) gtp_endpoint \<Rightarrow> ('sk, 'addr, 'ip, 'chan) gtp_endpoint \<times> 'addr endpoint_output list" where
  "on_client_hello env fresh now src cid c_pk c_nonce ver ep =
     (if ver \<noteq> PROTOCOL_VERSION then (ep, [])
      else let (seen, allowed) = HelloRateLimiter_allow (ee_is_loopback env) (ee_ip env src) now (Duration_from_secs 1) 20 (ep_hello_rate_limiter ep);
               ep1 = ep\<lparr> ep_hello_rate_limiter := seen \<rparr>
      in if \<not> allowed then (ep1, [])
         else let psh = map_retain (\<lambda>p. duration_since now (ps_start p) \<le> HANDSHAKE_LIFETIME) (ep_pending_server_handshakes ep1);
                  cky = generate_cookie (ee_hmac env) (ee_addr_text env) (ep_token_secret ep1) src now;
                  (pair, psh1) = (case psh cid of
                      Some p \<Rightarrow> if ps_client_pk p = c_pk \<and> ps_client_nonce p = c_nonce then (ps_pair p, psh)
                        else (fresh, psh(cid \<mapsto> \<lparr> ps_pair = fresh, ps_client_pk = c_pk, ps_client_nonce = c_nonce, ps_src = src, ps_start = now \<rparr>))
                    | None \<Rightarrow> (fresh, psh(cid \<mapsto> \<lparr> ps_pair = fresh, ps_client_pk = c_pk, ps_client_nonce = c_nonce, ps_src = src, ps_start = now \<rparr>)));
                  static_pk = (case static_identity_public env ep1 of Some pk \<Rightarrow> pk | None \<Rightarrow> replicate 32 0)
              in (ep1\<lparr> ep_pending_server_handshakes := psh1 \<rparr>,
                  send_if_built (server_hello_datagram cid (ServerHello (ek_public_key pair) (ek_nonce pair) cky cid static_pk)) src))"

text \<open>The server's half of the key agreement.\<close>

definition server_shared_secret :: "('sk, 'addr, 'ip, 'chan) endpoint_env \<Rightarrow> 'sk option \<Rightarrow> 'sk ephemeral_key_pair \<Rightarrow> bytes \<Rightarrow> bytes handshake_result" where
  "server_shared_secret env identity pair c_pk = (case identity of
     Some seed \<Rightarrow> complete_server_session (ee_x25519 env) seed pair c_pk
   | None \<Rightarrow> compute_shared_secret (ee_x25519 env) pair c_pk)"

definition pending_transcript :: "('sk, 'addr) pending_server \<Rightarrow> connection_id \<Rightarrow> handshake_transcript" where
  "pending_transcript p cid = \<lparr> ht_client_pk = ps_client_pk p, ht_server_pk = ek_public_key (ps_pair p), ht_client_nonce = ps_client_nonce p,
     ht_server_nonce = ek_nonce (ps_pair p), ht_connection_id = cid, ht_version = PROTOCOL_VERSION \<rparr>"

text \<open>The accepted connection is queued for \<^verbatim>\<open>accept\<close>, after the answer has gone out.\<close>

definition accept_finish :: "('sk, 'addr, 'ip, 'chan) endpoint_env \<Rightarrow> monotonic_time \<Rightarrow> 'addr \<Rightarrow> connection_id \<Rightarrow> ('sk, 'addr) pending_server \<Rightarrow> bytes \<Rightarrow>
    ('sk, 'addr, 'ip, 'chan) gtp_endpoint \<Rightarrow> ('sk, 'addr, 'ip, 'chan) gtp_endpoint \<times> 'addr endpoint_output list" where
  "accept_finish env now src cid p shared ep =
     (let hkdf = env_hkdf (ee_conn env);
          keys = derive_directional_handshake_session_keys hkdf shared (ps_client_nonce p) (ek_nonce (ps_pair p)) cid;
          s_proof = compute_server_proof hkdf (ee_hmac env) shared (pending_transcript p cid);
          ep1 = ep\<lparr> ep_accepted_finishes := (ep_accepted_finishes ep)(cid \<mapsto> (s_proof, src, now)) \<rparr>;
          out = send_server_finish cid s_proof src
      in if ep_connections ep1 cid \<noteq> None then (ep1, out)
         else let (ep2, r) = register_connection env cid (GtpConnection_new_with_directional_keys cid src keys False True competitive_fps) ep1
              in (ep2\<lparr> ep_incoming := ep_incoming ep2 @ [r] \<rparr>, out))"

text \<open>Case C: a \<^verbatim>\<open>HandshakeFinish\<close>.\<close>

definition on_handshake_finish :: "('sk, 'addr, 'ip, 'chan) endpoint_env \<Rightarrow> monotonic_time \<Rightarrow> 'addr \<Rightarrow> connection_id \<Rightarrow> bytes \<Rightarrow> bytes \<Rightarrow>
    ('sk, 'addr, 'ip, 'chan) gtp_endpoint \<Rightarrow> ('sk, 'addr, 'ip, 'chan) gtp_endpoint \<times> 'addr endpoint_output list" where
  "on_handshake_finish env now src cid cky c_proof ep =
     (if \<not> verify_cookie (ee_hmac env) (ee_addr_text env) (ep_token_secret ep) src cky now then (ep, [])
      else let ep1 = ep\<lparr> ep_accepted_finishes := map_retain (\<lambda>(_, _, t). duration_since now t \<le> HANDSHAKE_LIFETIME) (ep_accepted_finishes ep) \<rparr>
      in case ep_accepted_finishes ep1 cid of
           Some (s_proof, dest, _) \<Rightarrow> (ep1, send_server_finish cid s_proof dest)
         | None \<Rightarrow>
             (case ep_pending_server_handshakes ep1 cid of
                None \<Rightarrow> (ep1, [])
              | Some p \<Rightarrow>
                  let ep2 = ep1\<lparr> ep_pending_server_handshakes := (ep_pending_server_handshakes ep1)(cid := None) \<rparr>
                  in case server_shared_secret env (ep_static_identity ep) (ps_pair p) (ps_client_pk p) of
                       Ok shared \<Rightarrow>
                         if verify_client_proof (env_hkdf (ee_conn env)) (ee_hmac env) shared (pending_transcript p cid) c_proof
                         then accept_finish env now src cid p shared ep2 else (ep2, [])
                     | _ \<Rightarrow> (ep2, [])))"

text \<open>\<^verbatim>\<open>accept\<close>: the next connection, if one is waiting.\<close>

definition accept :: "('sk, 'addr, 'ip, 'chan) gtp_endpoint \<Rightarrow> ('sk, 'addr, 'ip, 'chan) gtp_endpoint \<times> nat option" where
  "accept ep = (case ep_incoming ep of [] \<Rightarrow> (ep, None) | r # rest \<Rightarrow> (ep\<lparr> ep_incoming := rest \<rparr>, Some r))"

section \<open>The client side of the handshake\<close>

text \<open>Cases B and D: answers of the server go to the waiter of the \<^verbatim>\<open>connect\<close> call.\<close>

definition on_server_hello :: "server_hello_info \<Rightarrow> connection_id \<Rightarrow> ('sk, 'addr, 'ip, 'chan) gtp_endpoint \<Rightarrow>
    ('sk, 'addr, 'ip, 'chan) gtp_endpoint \<times> 'addr endpoint_output list" where
  "on_server_hello info assigned ep = (case ep_pending_client_handshakes ep assigned of
     Some w \<Rightarrow> (ep\<lparr> ep_pending_client_handshakes := (ep_pending_client_handshakes ep)(assigned := None) \<rparr>, [TellHello w info])
   | None \<Rightarrow> (ep, []))"

definition on_server_finish :: "bytes \<Rightarrow> connection_id \<Rightarrow> ('sk, 'addr, 'ip, 'chan) gtp_endpoint \<Rightarrow>
    ('sk, 'addr, 'ip, 'chan) gtp_endpoint \<times> 'addr endpoint_output list" where
  "on_server_finish s_proof cid ep = (case ep_pending_server_finishes ep cid of
     Some w \<Rightarrow> (ep\<lparr> ep_pending_server_finishes := (ep_pending_server_finishes ep)(cid := None) \<rparr>, [TellFinish w s_proof])
   | None \<Rightarrow> (ep, []))"

text \<open>The locals of a \<^verbatim>\<open>connect\<close> call before and after the \<^verbatim>\<open>ServerHello\<close>.\<close>

record ('sk, 'addr) connecting =
  cn_cid :: connection_id
  cn_peer :: 'addr
  cn_pair :: "'sk ephemeral_key_pair"
  cn_waiter :: nat
  cn_hello :: bytes
  cn_attempts :: nat

record 'addr confirming =
  cf_cid :: connection_id
  cf_peer :: 'addr
  cf_shared :: bytes
  cf_transcript :: handshake_transcript
  cf_waiter :: nat
  cf_finish :: bytes
  cf_conn :: nat
  cf_rounds :: nat

datatype ('sk, 'addr) connect_progress = AwaitHello "('sk, 'addr) connecting" | AwaitFinish "'addr confirming" | Connected nat

text \<open>What a wait of 400 ms on a one-shot channel ends with.\<close>

datatype 'v wait = Arrived 'v | SenderDropped | Elapsed

definition fail_hello :: "connection_id \<Rightarrow> transport_error \<Rightarrow> ('sk, 'addr, 'ip, 'chan) gtp_endpoint \<Rightarrow>
    ('sk, 'addr, 'ip, 'chan) gtp_endpoint \<times> 'addr endpoint_output list \<times> ('sk, 'addr) connect_progress result" where
  "fail_hello cid e ep = (ep\<lparr> ep_pending_client_handshakes := (ep_pending_client_handshakes ep)(cid := None) \<rparr>, [], Err e)"

text \<open>
  The start of \<^verbatim>\<open>connect\<close>. \<open>plaintext_feature\<close> is the build configuration, \<open>io_error\<close> the error of the
  first send if it fails.
\<close>

definition connect_start :: "('sk, 'addr, 'ip, 'chan) endpoint_env \<Rightarrow> bool \<Rightarrow> 'sk ephemeral_key_pair \<Rightarrow> string option \<Rightarrow> connection_id \<Rightarrow> 'addr \<Rightarrow> bool \<Rightarrow>
    ('sk, 'addr, 'ip, 'chan) gtp_endpoint \<Rightarrow> ('sk, 'addr, 'ip, 'chan) gtp_endpoint \<times> 'addr endpoint_output list \<times> ('sk, 'addr) connect_progress result" where
  "connect_start env plaintext_feature pair io_error cid peer secure ep =
     (if \<not> secure then
        if plaintext_feature
        then let (ep1, r) = register_connection env cid
               (GtpConnection_new_with_role (ee_conn env) plaintext_feature cid peer False True OFFLINE_SIM_MASTER_SECRET GtpConfig_default) ep
             in (ep1, [], Ok (Connected r))
        else (ep, [], Err (HandshakeFailed ''insecure (plaintext) connections are disabled in production builds''))
      else
        let w = ep_next_ref ep;
            ep1 = ep\<lparr> ep_next_ref := w + 1, ep_pending_client_handshakes := (ep_pending_client_handshakes ep)(cid \<mapsto> w) \<rparr>
        in case long_datagram 128 cid 0 (ClientHello (ek_public_key pair) (ek_nonce pair) PROTOCOL_VERSION) of
             Ok hello \<Rightarrow>
               (case io_error of
                  Some e \<Rightarrow> fail_hello cid (Io e) ep1
                | None \<Rightarrow> (ep1, [SendTo hello peer],
                    Ok (AwaitHello \<lparr> cn_cid = cid, cn_peer = peer, cn_pair = pair, cn_waiter = w, cn_hello = hello, cn_attempts = 0 \<rparr>)))
           | Err _ \<Rightarrow> (ep1, [], Err BufferOverflow)
           | Panic \<Rightarrow> (ep1, [], Panic))"

definition client_shared_secret :: "('sk, 'addr, 'ip, 'chan) endpoint_env \<Rightarrow> bytes option \<Rightarrow> 'sk ephemeral_key_pair \<Rightarrow> server_hello_info \<Rightarrow> bytes result" where
  "client_shared_secret env pin pair info =
     (let contributory = (\<lambda>r. case r of Ok s \<Rightarrow> Ok s | Err _ \<Rightarrow> Err (HandshakeFailed ''non-contributory server key'') | Panic \<Rightarrow> Panic)
      in case pin of
           Some pinned \<Rightarrow>
             if sh_server_static_pk info \<noteq> pinned
             then Err (HandshakeFailed ''server identity mismatch (pinned static key not on the wire)'')
             else contributory (compute_shared_secret_with_static (ee_x25519 env) pair (sh_server_pk info) pinned)
         | None \<Rightarrow> contributory (compute_shared_secret (ee_x25519 env) pair (sh_server_pk info)))"

text \<open>The \<^verbatim>\<open>ServerHello\<close> has arrived: key agreement, the finish, the connection.\<close>

definition connect_hello :: "('sk, 'addr, 'ip, 'chan) endpoint_env \<Rightarrow> server_hello_info \<Rightarrow> ('sk, 'addr) connecting \<Rightarrow>
    ('sk, 'addr, 'ip, 'chan) gtp_endpoint \<Rightarrow> ('sk, 'addr, 'ip, 'chan) gtp_endpoint \<times> 'addr endpoint_output list \<times> ('sk, 'addr) connect_progress result" where
  "connect_hello env info cn ep =
     (case client_shared_secret env (ep_trusted_server_static ep) (cn_pair cn) info of
        Err e \<Rightarrow> (ep, [], Err e)
      | Panic \<Rightarrow> (ep, [], Panic)
      | Ok shared \<Rightarrow>
          let hkdf = env_hkdf (ee_conn env); cid = cn_cid cn; pair = cn_pair cn;
              keys = derive_directional_handshake_session_keys hkdf shared (ek_nonce pair) (sh_server_nonce info) cid;
              transcript = \<lparr> ht_client_pk = ek_public_key pair, ht_server_pk = sh_server_pk info, ht_client_nonce = ek_nonce pair,
                ht_server_nonce = sh_server_nonce info, ht_connection_id = cid, ht_version = PROTOCOL_VERSION \<rparr>;
              c_proof = compute_client_proof hkdf (ee_hmac env) shared transcript
          in case long_datagram 128 cid 1 (HandshakeFinish (sh_stateless_cookie info) c_proof) of
               Err _ \<Rightarrow> (ep, [], Err BufferOverflow)
             | Panic \<Rightarrow> (ep, [], Panic)
             | Ok fin \<Rightarrow>
                 let w = ep_next_ref ep;
                     ep1 = ep\<lparr> ep_next_ref := w + 1, ep_pending_server_finishes := (ep_pending_server_finishes ep)(cid \<mapsto> w) \<rparr>;
                     (ep2, r) = register_connection env cid (GtpConnection_new_with_directional_keys cid (cn_peer cn) keys True True competitive_fps) ep1
                 in (ep2, [SendTo fin (cn_peer cn)],
                     Ok (AwaitFinish \<lparr> cf_cid = cid, cf_peer = cn_peer cn, cf_shared = shared, cf_transcript = transcript, cf_waiter = w,
                       cf_finish = fin, cf_conn = r, cf_rounds = 0 \<rparr>)))"

definition connect_wait_hello :: "('sk, 'addr, 'ip, 'chan) endpoint_env \<Rightarrow> server_hello_info wait \<Rightarrow> ('sk, 'addr) connecting \<Rightarrow>
    ('sk, 'addr, 'ip, 'chan) gtp_endpoint \<Rightarrow> ('sk, 'addr, 'ip, 'chan) gtp_endpoint \<times> 'addr endpoint_output list \<times> ('sk, 'addr) connect_progress result" where
  "connect_wait_hello env ev cn ep = (case ev of
     Arrived info \<Rightarrow> connect_hello env info cn ep
   | SenderDropped \<Rightarrow> fail_hello (cn_cid cn) (HandshakeFailed ''Internal channel dropped'') ep
   | Elapsed \<Rightarrow>
       let attempts = cn_attempts cn + 1
       in if 8 \<le> attempts then fail_hello (cn_cid cn) HandshakeTimeout ep
          else (ep, [SendTo (cn_hello cn) (cn_peer cn)], Ok (AwaitHello (cn\<lparr> cn_attempts := attempts \<rparr>))))"

definition drop_finish_waiter :: "connection_id \<Rightarrow> ('sk, 'addr, 'ip, 'chan) gtp_endpoint \<Rightarrow> ('sk, 'addr, 'ip, 'chan) gtp_endpoint" where
  "drop_finish_waiter cid ep = ep\<lparr> ep_pending_server_finishes := (ep_pending_server_finishes ep)(cid := None) \<rparr>"

definition with_connection :: "nat \<Rightarrow> ('addr gtp_connection \<Rightarrow> 'addr gtp_connection) \<Rightarrow> ('sk, 'addr, 'ip, 'chan) gtp_endpoint \<Rightarrow>
    ('sk, 'addr, 'ip, 'chan) gtp_endpoint" where
  "with_connection r f ep = (case ep_store ep r of
     Some (conn, chan) \<Rightarrow> ep\<lparr> ep_store := (ep_store ep)(r \<mapsto> (f conn, chan)) \<rparr> | None \<Rightarrow> ep)"

text \<open>The confirmation rounds of \<^verbatim>\<open>connect\<close>: eight waits, a retransmission of the finish after each that elapses.\<close>

definition connect_wait_finish :: "('sk, 'addr, 'ip, 'chan) endpoint_env \<Rightarrow> bytes wait \<Rightarrow> 'addr confirming \<Rightarrow>
    ('sk, 'addr, 'ip, 'chan) gtp_endpoint \<Rightarrow> ('sk, 'addr, 'ip, 'chan) gtp_endpoint \<times> 'addr endpoint_output list \<times> ('sk, 'addr) connect_progress result" where
  "connect_wait_finish env ev cf ep = (case ev of
     Arrived s_proof \<Rightarrow>
       if verify_server_proof (env_hkdf (ee_conn env)) (ee_hmac env) (cf_shared cf) (cf_transcript cf) s_proof
       then (with_connection (cf_conn cf) (fst \<circ> send_ping 0x00C0FFEE) (drop_finish_waiter (cf_cid cf) ep), [], Ok (Connected (cf_conn cf)))
       else (drop_finish_waiter (cf_cid cf) ep, [], Err (HandshakeFailed ''server proof mismatch (transcript tamper or wrong peer)''))
   | SenderDropped \<Rightarrow> (drop_finish_waiter (cf_cid cf) ep, [], Err HandshakeTimeout)
   | Elapsed \<Rightarrow>
       let rounds = cf_rounds cf + 1
       in if rounds < 8 then (ep, [SendTo (cf_finish cf) (cf_peer cf)], Ok (AwaitFinish (cf\<lparr> cf_rounds := rounds \<rparr>)))
          else (drop_finish_waiter (cf_cid cf) ep, [SendTo (cf_finish cf) (cf_peer cf)], Err HandshakeTimeout))"

section \<open>Datagrams of established connections\<close>

definition drop_messages :: "nat \<Rightarrow> 'addr gtp_connection \<Rightarrow> 'addr gtp_connection" where
  "drop_messages n = on_cold (\<lambda>k. k\<lparr> co_total_dropped_frames := wadd64 (co_total_dropped_frames k) n \<rparr>)"

definition close_if_active :: "u16 \<Rightarrow> string \<Rightarrow> 'addr gtp_connection \<Rightarrow> 'addr gtp_connection" where
  "close_if_active code why c = (if is_active (ch_state (gc_hot c)) then fst (graceful_close code (ascii why) c) else c)"

text \<open>Delivery to the application; the last component says that the routing entry is to go.\<close>

fun deliver_messages :: "('sk, 'addr, 'ip, 'chan) endpoint_env \<Rightarrow> received_message list \<Rightarrow> 'addr gtp_connection \<times> 'chan \<Rightarrow> ('addr gtp_connection \<times> 'chan) \<times> bool" where
  "deliver_messages env [] cc = (cc, False)"
| "deliver_messages env (msg # rest) (c, chan) = (case ee_try_send env chan msg of
     Sent chan' \<Rightarrow> deliver_messages env rest (c, chan')
   | Full \<Rightarrow>
       (case rm_class msg of
          Unreliable \<Rightarrow> deliver_messages env rest (drop_messages 1 c, chan)
        | UnreliableSequenced _ _ _ \<Rightarrow> deliver_messages env rest (drop_messages 1 c, chan)
        | _ \<Rightarrow> ((close_if_active RECEIVE_OVERFLOW_CLOSE_CODE ''receive queue overflow'' (drop_messages (length (msg # rest)) c), chan), True))
   | Disconnected \<Rightarrow>
       ((close_if_active APPLICATION_GONE_CLOSE_CODE ''application handle dropped'' (drop_messages (length (msg # rest)) c), chan), True))"

definition route_datagram :: "('sk, 'addr, 'ip, 'chan) endpoint_env \<Rightarrow> monotonic_time \<Rightarrow> 'addr \<Rightarrow> connection_id \<Rightarrow> bytes \<Rightarrow>
    ('sk, 'addr, 'ip, 'chan) gtp_endpoint \<Rightarrow> ('sk, 'addr, 'ip, 'chan) gtp_endpoint result" where
  "route_datagram env now src cid datagram ep = (case ep_connections ep cid of
     None \<Rightarrow> Ok ep
   | Some r \<Rightarrow>
       (case ep_store ep r of
          None \<Rightarrow> Ok ep
        | Some (c, chan) \<Rightarrow>
            let (c1, res) = handle_incoming_datagram (ee_conn env) src datagram now c
            in if res = Panic then Panic
               else let ((c2, chan2), stop) = (case res of Ok msgs \<Rightarrow> deliver_messages env msgs (c1, chan) | _ \<Rightarrow> ((c1, chan), False));
                        ep1 = ep\<lparr> ep_store := (ep_store ep)(r \<mapsto> (c2, chan2)) \<rparr>
                    in Ok (if stop \<or> is_closed (ch_state (gc_hot c2))
                           then ep1\<lparr> ep_connections := (ep_connections ep1)(cid := None) \<rparr> else ep1)))"

section \<open>The receive loop\<close>

text \<open>One received datagram.\<close>

definition rx_datagram :: "('sk, 'addr, 'ip, 'chan) endpoint_env \<Rightarrow> 'sk ephemeral_key_pair \<Rightarrow> monotonic_time \<Rightarrow> 'addr \<Rightarrow> bytes \<Rightarrow>
    ('sk, 'addr, 'ip, 'chan) gtp_endpoint \<Rightarrow> (('sk, 'addr, 'ip, 'chan) gtp_endpoint \<times> 'addr endpoint_output list) result" where
  "rx_datagram env fresh now src datagram ep =
     (if datagram = [] then Ok (ep, [])
      else case PacketHeader_decode datagram of
        Err _ \<Rightarrow> Ok (ep, [])
      | Panic \<Rightarrow> Panic
      | Ok (header, header_len) \<Rightarrow>
          let cid = ph_connection_id header;
              payload = drop header_len datagram;
              ty = hd payload;
              established = omap (\<lambda>ep'. (ep', [])) (route_datagram env now src cid datagram ep)
          in if is_handshake_candidate header header_len (length datagram) \<and> payload \<noteq> [] then
               if ty = FRAME_TYPE_CLIENT_HELLO then
                 (case Frame_decode payload of
                    Ok (ClientHello pk nonce ver, _) \<Rightarrow> Ok (on_client_hello env fresh now src cid pk nonce ver ep)
                  | Panic \<Rightarrow> Panic | _ \<Rightarrow> Ok (ep, []))
               else if ty = FRAME_TYPE_SERVER_HELLO then
                 (case Frame_decode payload of
                    Ok (ServerHello pk nonce cky assigned static_pk, _) \<Rightarrow>
                      Ok (on_server_hello \<lparr> sh_server_pk = pk, sh_server_nonce = nonce, sh_stateless_cookie = cky, sh_server_static_pk = static_pk \<rparr> assigned ep)
                  | Panic \<Rightarrow> Panic | _ \<Rightarrow> Ok (ep, []))
               else if ty = FRAME_TYPE_HANDSHAKE_FINISH then
                 (case Frame_decode payload of
                    Ok (HandshakeFinish cky c_proof, _) \<Rightarrow> Ok (on_handshake_finish env now src cid cky c_proof ep)
                  | Panic \<Rightarrow> Panic | _ \<Rightarrow> Ok (ep, []))
               else if ty = FRAME_TYPE_SERVER_FINISH then
                 (case Frame_decode payload of
                    Ok (ServerFinish s_proof, _) \<Rightarrow> Ok (on_server_finish s_proof cid ep)
                  | Panic \<Rightarrow> Panic | _ \<Rightarrow> Ok (ep, []))
               else established
             else established)"

section \<open>The transmit loop\<close>

text \<open>
  One turn of the transmit task: send until a call returns no datagram. The loop need not end, so not
  returning is the value \<^const>\<open>None\<close>; the last component is the outcome that ended it.
\<close>

partial_function (option) tx_drain :: "conn_env \<Rightarrow> monotonic_time \<Rightarrow> bytes \<Rightarrow> 'addr gtp_connection \<Rightarrow>
    ('addr gtp_connection \<times> bytes \<times> (bytes \<times> 'addr) list \<times> ('addr \<times> nat) option result) option" where
  "tx_drain env now out_buf c = (case produce_outgoing_datagram env now out_buf c of (c', buf, r) \<Rightarrow>
     (case r of
        Ok (Some (dest, len)) \<Rightarrow>
          Option.bind (tx_drain env now buf c') (\<lambda>(c2, buf2, sends, last_r). Some (c2, buf2, (take len buf, dest) # sends, last_r))
      | _ \<Rightarrow> Some (c', buf, [], r)))"

end
