(* ===== verification/Conn_Progress.thy ===== *)
theory Conn_Progress
  imports Conn_Exchange
begin

text \<open>
  A transmit loop that does not come to rest: a control frame too large for the output buffer stays at
  the head of the control queue, and every call returns a datagram without a single frame.
\<close>

section \<open>A control frame that does not fit\<close>

definition stuck :: "conn_env \<Rightarrow> nat \<Rightarrow> monotonic_time \<Rightarrow> 'addr connection_hot \<Rightarrow> bool" where
  "stuck env n now h \<longleftrightarrow> ch_state h \<noteq> Closed \<and> ch_control_queue h \<noteq> [] \<and>
     n < 24 + length (Frame_bytes (build_control_frame (hd (ch_control_queue h)))) \<and>
     sealable env h \<and> aa_validated (ch_anti_amplification h) \<and>
     (ch_state h \<noteq> Established \<or> (\<forall>t < 5. gs_queues (ch_scheduler h) t = [])) \<and>
     ld_inflight_bytes (ch_loss_detector h) = 0 \<and> \<not> ch_pending_ratchet h \<and> \<not> should_send_ack now (ch_ack_tracker h)"

lemma tx_pto_idle: "ld_inflight_bytes (ch_loss_detector (gc_hot c)) = 0 \<Longrightarrow> tx_pto now c = c"
  by (simp add: tx_pto_def pto_expired_def Let_def)

lemma empty_sealed:
  assumes "holds_frames (tx_header now h) n [] b" and "sealable env h" and "40 \<le> n" and "n \<le> 65535"
  shows "\<exists>buf. tx_seal env h b = (buf, Ok (24 + tag_len (ch_tx_protector h)))"
proof -
  have "tag_len (ch_tx_protector h) \<le> 16" by (cases "ch_tx_protector h") (simp_all add: AEAD_TAG_LEN_def)
  then have "snd (tx_seal env h b) = Ok (24 + tag_len (ch_tx_protector h))" using tx_seal_room [OF assms(1,2) _ assms(4)] assms(3) by simp
  then show ?thesis by (metis prod.collapse)
qed

text \<open>Nothing is drained and nothing popped: the packet is empty.\<close>

lemma stuck_packet:
  assumes "assembled now (tx_header now h2) n h acks p h2" and "\<not> should_send_ack now (ch_ack_tracker h)"
    and "tp_popped p = []" and "ch_control_queue h \<noteq> []" and "n < 24 + length (Frame_bytes (build_control_frame (hd (ch_control_queue h))))"
  shows "acks = []" and "tp_drained_controls p = []" and "packet_frames acks p = []"
proof -
  show acks: "acks = []" using assms(1,2) by (auto simp: assembled_def)
  show ds: "tp_drained_controls p = []"
  proof (rule ccontr)
    assume "tp_drained_controls p \<noteq> []"
    then obtain ctrl ds where ds: "tp_drained_controls p = ctrl # ds" by (cases "tp_drained_controls p") auto
    then have "hd (ch_control_queue h) = ctrl" using assembled_fields(4) [OF assms(1)] by simp
    then have "length (Frame_bytes (build_control_frame (hd (ch_control_queue h)))) \<le> frames_size (packet_frames acks p)"
      by (simp add: packet_frames_def ds)
    moreover have "24 + frames_size (packet_frames acks p) \<le> n"
      using assms(1) holds_lengths(3) [of "tx_header now h2" n "packet_frames acks p" "tp_builder p"] by (simp add: assembled_def)
    ultimately show False using assms(5) by linarith
  qed
  show "packet_frames acks p = []" by (simp add: packet_frames_def acks ds assms(3))
qed

lemma stuck_sent:
  assumes "stuck env n now h" and "assembled now hdr n' (h\<lparr> ch_scheduler := s0, ch_path_validator := pv, ch_pacing := pe \<rparr>) acks p h2"
    and "acks = []" and "tp_drained_controls p = []" and "tp_popped p = []"
    and "\<forall>t < 5. gs_queues s0 t = filter (\<lambda>i. \<not> is_expired i now) (gs_queues (ch_scheduler h) t)"
    and "repathed ((sent_hot env now len p h2)\<lparr> ch_route_controller := ctl \<rparr>) h'"
  shows "stuck env n now h'" and "ch_next_packet_number h' = PacketNumber_next (ch_next_packet_number h)"
    and "ch_tx_protector h' = ch_tx_protector h"
proof -
  obtain addr where h': "h' = (sent_hot env now len p h2)\<lparr> ch_route_controller := ctl, ch_active_path := addr \<rparr>"
    using assms(7) by (auto simp: repathed_def)
  obtain rest s where h2: "h2 = h\<lparr> ch_path_validator := pv, ch_pacing := pe, ch_control_queue := rest, ch_scheduler := s \<rparr>"
    "ch_control_queue h = rest" "taken s0 [] s"
  proof -
    obtain rest s where "h2 = h\<lparr> ch_scheduler := s0, ch_path_validator := pv, ch_pacing := pe \<rparr>\<lparr> ch_control_queue := rest, ch_scheduler := s \<rparr>"
      "ch_control_queue (h\<lparr> ch_scheduler := s0, ch_path_validator := pv, ch_pacing := pe \<rparr>) = tp_drained_controls p @ rest"
      "taken (ch_scheduler (h\<lparr> ch_scheduler := s0, ch_path_validator := pv, ch_pacing := pe \<rparr>)) (tp_popped p) s"
      using assms(2) unfolding assembled_def by blast
    then show thesis using that assms(4,5) by simp
  qed
  have flags: "\<not> tp_ack_appended p" "\<not> tp_ack_eliciting p" using assms(2-5) by (simp_all add: assembled_def)
  have "\<not> ch_pending_ratchet h" using assms(1) by (simp add: stuck_def)
  then have sent: "sent_hot env now len p h2 = record_sent now len p h2"
    by (simp add: sent_hot_def flush_pending_ratchet_def record_sent_def h2)
  note h' = h' [unfolded sent]
  have "ch_next_packet_number h' = PacketNumber_next (ch_next_packet_number h)" "ch_control_queue h' = ch_control_queue h"
    "ch_state h' = ch_state h" "ch_tx_protector h' = ch_tx_protector h" "ch_connection_id h' = ch_connection_id h"
    "ch_ack_tracker h' = ch_ack_tracker h" "\<not> ch_pending_ratchet h'" "ch_scheduler h' = s"
    "ld_inflight_bytes (ch_loss_detector h') = ld_inflight_bytes (ch_loss_detector h)"
    "aa_validated (ch_anti_amplification h') = aa_validated (ch_anti_amplification h)"
    using assms(1) flags by (simp_all add: h' record_sent_def h2 on_bytes_sent_def on_packet_sent_sent sent_record_def stuck_def)
  moreover from this have "sealable env h' = sealable env h" by (intro sealable_cong)
  moreover have "\<forall>t < 5. gs_queues (ch_scheduler h) t = [] \<longrightarrow> gs_queues s t = []"
    using assms(6) h2(3) by (auto simp: taken_def)
  ultimately show "stuck env n now h'" "ch_next_packet_number h' = PacketNumber_next (ch_next_packet_number h)"
    "ch_tx_protector h' = ch_tx_protector h"
    using assms(1) by (auto simp: stuck_def)
qed

lemma stuck_call:
  fixes c :: "'addr gtp_connection"
  assumes "aead_ok (env_cipher env)" and "tx_inv (gc_hot c)" and "stuck env (length out_buf) now (gc_hot c)"
    and "ch_next_packet_number (gc_hot c) \<noteq> - 1" and "40 \<le> length out_buf" and "length out_buf \<le> 65535"
  obtains c' buf dest where "produce_outgoing_datagram env now out_buf c = (c', buf, Ok (Some (dest, 24 + tag_len (ch_tx_protector (gc_hot c)))))"
    and "tx_inv (gc_hot c')" and "stuck env (length buf) now (gc_hot c')" and "length buf = length out_buf"
    and "ch_next_packet_number (gc_hot c') = PacketNumber_next (ch_next_packet_number (gc_hot c))"
    and "ch_tx_protector (gc_hot c') = ch_tx_protector (gc_hot c)"
proof -
  let ?h1 = "gc_hot (prepared now c)"
  note pf = prepared_fields [OF assms(2), of now]
  have st: "ch_state (gc_hot c) \<noteq> Closed" "ch_control_queue (gc_hot c) \<noteq> []" "sealable env (gc_hot c)"
    "\<not> should_send_ack now (ch_ack_tracker (gc_hot c))" "aa_validated (ch_anti_amplification (gc_hot c))"
    "ch_state (gc_hot c) \<noteq> Established \<or> (\<forall>t < 5. gs_queues (ch_scheduler (gc_hot c)) t = [])"
    "length out_buf < 24 + length (Frame_bytes (build_control_frame (hd (ch_control_queue (gc_hot c)))))"
    "tx_pto now c = c" "ld_inflight_bytes (ch_loss_detector (gc_hot c)) = 0"
    using assms(3) by (simp_all add: stuck_def tx_pto_idle)
  obtain s0 pv pe where h1: "?h1 = (gc_hot c)\<lparr> ch_scheduler := s0, ch_path_validator := pv, ch_pacing := pe \<rparr>"
    "\<forall>t < 5. gs_queues s0 t = filter (\<lambda>i. \<not> is_expired i now) (gs_queues (ch_scheduler (gc_hot c)) t)"
    using tx_housekeeping_hot [of now c] st(8) by auto
  have busy: "\<not> (ch_state (gc_hot c) = Draining \<and> ch_control_queue (gc_hot c) = [])" and n: "24 \<le> length out_buf"
    using st(2) assms(5) by simp_all
  have wanted: "tx_wanted now ?h1" using st(2) by (simp add: tx_wanted_def Let_def pf)
  obtain c2 :: "'addr gtp_connection" and p acks where tr: "produce_outgoing_datagram env now out_buf c = tx_transmit env now p c2"
    and a: "assembled now (tx_header now (gc_hot c2)) (length out_buf) ?h1 acks p (gc_hot c2)"
    by (rule produce_assembles [OF assms(2) st(1) busy wanted n])
  note af = assembled_fields [OF a]
  have items: "tp_popped p = []" using st(6,8) by (intro assembled_no_data [OF a assms(2)]) simp
  have empty: "acks = []" "tp_drained_controls p = []" "packet_frames acks p = []"
    using st(2,4,7) by (intro stuck_packet [OF a _ items]; simp add: pf)+
  have holds: "holds_frames (tx_header now (gc_hot c2)) (length out_buf) [] (tp_builder p)"
    using a empty(3) by (simp add: assembled_def)
  have sealable2: "sealable env (gc_hot c2)" using st(3) af pf sealable_cong by metis
  let ?len = "24 + tag_len (ch_tx_protector (gc_hot c))"
  have tag: "tag_len (ch_tx_protector (gc_hot c)) \<le> 16" by (cases "ch_tx_protector (gc_hot c)") (simp_all add: AEAD_TAG_LEN_def)
  obtain buf where seal: "tx_seal env (gc_hot c2) (tp_builder p) = (buf, Ok ?len)"
    using empty_sealed [OF holds sealable2 assms(5,6)] af(1) pf(4) by auto
  have len: "length buf = length out_buf" using tx_seal_result(2) [OF holds assms(1) seal refl] by blast
  obtain c' ctl dest where com: "tx_commit env now ?len p c2 = (c', Ok (Some (dest, ?len)))"
    "repathed ((sent_hot env now ?len p (gc_hot c2))\<lparr> ch_route_controller := ctl \<rparr>) (gc_hot c')"
    using tx_commit_result [of env now ?len p c2] by auto
  have run: "produce_outgoing_datagram env now out_buf c = (c', buf, Ok (Some (dest, ?len)))"
    using tr seal com(1) st(5) af(3) pf(6) by (simp add: tx_transmit_def can_send_def)
  have prep: "tx_inv ?h1" "inflight_scan (ch_loss_detector ?h1) \<le> inflight_scan (ch_loss_detector (gc_hot c))"
    using tx_prepared [OF assms(2) refl, of now] by simp_all
  have "inflight_scan (ch_loss_detector (gc_hot c)) = 0" using assms(2) st(9) by (simp add: tx_inv_def hot_inv_def ld_wf_def)
  then have "tx_inv (record_sent now ?len p (gc_hot c2))"
    using prep assms(4) tag by (intro record_sent_inv [OF prep(1) a]) (simp_all add: h1 u64_max_def)
  then have "tx_inv (gc_hot c')" using hot_inv_repathed(2) [OF com(2)] by (simp add: sent_hot_def tx_inv_updates)
  moreover note stuck_sent [OF assms(3) a [unfolded h1(1)] empty(1,2) items h1(2) com(2)]
  ultimately show thesis using that run len by simp
qed

section \<open>Data that exceeds the budget\<close>

lemma starved_no_items:
  assumes "assembled now hdr n h acks p h2" and "\<forall>t < 5. \<forall>i \<in> set (gs_queues (ch_scheduler h) t). tx_budget h < size_bytes i"
  shows "tp_popped p = []"
proof (rule ccontr)
  assume "tp_popped p \<noteq> []"
  then obtain i where i: "i \<in> set (tp_popped p)" by (cases "tp_popped p") auto
  obtain s where "taken (ch_scheduler h) (tp_popped p) s" using assms(1) unfolding assembled_def by blast
  then have "gs_queues (ch_scheduler h) (item_tier i) = of_tier (item_tier i) (tp_popped p) @ gs_queues s (item_tier i)" by (simp add: taken_def)
  then have "i \<in> set (gs_queues (ch_scheduler h) (item_tier i))" using i by simp
  then have "tx_budget h < size_bytes i" using assms(2) tier_index_less by blast
  moreover have "size_bytes i \<le> tx_budget h" using assms(1) i by (simp add: assembled_def)
  ultimately show False by simp
qed

section \<open>Properties\<close>

text \<open>
  A queued control frame larger than the output buffer makes the transmit loop spin. After
  \<^verbatim>\<open>trigger_mtu_probe\<close> with a size of at least four bytes more than the output buffer, on an idle connection, any
  number of calls at the same instant each return a datagram of header and tag only: the frame is
  retried at the head of the queue and never sent, and the loop of the endpoint, which sends until a
  call returns nothing, does not end.
\<close>

theorem oversized_probe_floods:
  fixes c :: "'addr gtp_connection"
  assumes "aead_ok (env_cipher env)" and "tx_inv (gc_hot c)" and "ch_state (gc_hot c) = Established" and "ch_control_queue (gc_hot c) = []"
    and "\<forall>t < 5. gs_queues (ch_scheduler (gc_hot c)) t = []" and "sealable env (gc_hot c)" and "aa_validated (ch_anti_amplification (gc_hot c))"
    and "ld_inflight_bytes (ch_loss_detector (gc_hot c)) = 0" and "\<not> ch_pending_ratchet (gc_hot c)"
    and "\<not> should_send_ack now (ch_ack_tracker (gc_hot c))" and "unat (ch_next_packet_number (gc_hot c)) + k < 2 ^ 64"
    and "40 \<le> length out_buf" and "length out_buf \<le> 65535" and "length out_buf + 4 \<le> probe_size" and "probe_size \<le> u64_max"
    and "trigger_mtu_probe probe probe_size c = (c', r)"
  shows "\<exists>dests. length dests = k \<and>
    produce_run env (replicate k now) out_buf c' = map (\<lambda>dest. Ok (Some (dest, 24 + tag_len (ch_tx_protector (gc_hot c))))) dests"
proof -
  have h: "gc_hot c' = (gc_hot c)\<lparr> ch_control_queue := [OutMtuProbe probe (probe_size - 32)] \<rparr>"
    using assms(4,16) by (auto simp: trigger_mtu_probe_def queue_control_def sat_sub_def)
  have "frame_ok (MtuProbe probe (probe_size - 32))" using assms(15) by (auto simp: frame_ok_def u64_modulus_def u64_max_def)
  then have inv: "tx_inv (gc_hot c')" using assms(2) by (simp add: h tx_inv_def hot_inv_simps control_ok_def)
  have "sealable env (gc_hot c')" using assms(6) sealable_cong [of "gc_hot c'" "gc_hot c" env] by (simp add: h)
  then have stuck: "stuck env (length out_buf) now (gc_hot c')"
    using assms(3,5-10,12,14) by (auto simp: stuck_def h Frame_bytes_def)
  have pn: "unat (ch_next_packet_number (gc_hot c')) + k < 2 ^ 64" and tag: "ch_tx_protector (gc_hot c') = ch_tx_protector (gc_hot c)"
    using assms(11) by (simp_all add: h)
  show ?thesis unfolding tag [symmetric]
    using inv stuck pn assms(12,13)
  proof (induction k arbitrary: c' out_buf)
    case (Suc k)
    have not_max: "ch_next_packet_number (gc_hot c') \<noteq> - 1" using Suc.prems(3) by (auto simp: unsigned_minus_1_eq_mask mask_eq_exp_minus_1)
    obtain c2 buf dest where call:
      "produce_outgoing_datagram env now out_buf c' = (c2, buf, Ok (Some (dest, 24 + tag_len (ch_tx_protector (gc_hot c')))))"
      "tx_inv (gc_hot c2)" "stuck env (length buf) now (gc_hot c2)" "length buf = length out_buf"
      "ch_next_packet_number (gc_hot c2) = PacketNumber_next (ch_next_packet_number (gc_hot c'))"
      "ch_tx_protector (gc_hot c2) = ch_tx_protector (gc_hot c')"
      by (rule stuck_call [OF assms(1) Suc.prems(1,2) not_max Suc.prems(4,5)])
    have next_pn: "unat (ch_next_packet_number (gc_hot c2)) = Suc (unat (ch_next_packet_number (gc_hot c')))"
      unfolding call(5) PacketNumber_next_def using not_max by (metis add.commute eq_neg_iff_add_eq_0 unatSuc)
    have "\<exists>dests. length dests = k \<and> produce_run env (replicate k now) buf c2 =
        map (\<lambda>dest. Ok (Some (dest, 24 + tag_len (ch_tx_protector (gc_hot c2))))) dests"
      using call(2-4) Suc.prems(3-5) next_pn by (intro Suc.IH) simp_all
    then obtain dests where "length dests = k" "produce_run env (replicate k now) buf c2 =
        map (\<lambda>dest. Ok (Some (dest, 24 + tag_len (ch_tx_protector (gc_hot c2))))) dests" by blast
    then show ?case using call(1,6) by (intro exI [of _ "dest # dests"]) simp
  qed simp
qed

text \<open>
  When no queued message fits the remaining budget, the connection sends datagrams without
  content. On an established connection with queued data, a budget of at least 64 bytes and every
  queued message larger than the budget, as when the congestion window is nearly used up, a call
  that owes no acknowledgement and has no control frame still returns a datagram: header and tag
  only. All messages stay queued, and a packet number and pacing credit are spent.
\<close>

theorem starved_budget_sends_empty:
  fixes c :: "'addr gtp_connection"
  assumes "aead_ok (env_cipher env)" and "tx_inv (gc_hot c)" and "ch_state (gc_hot c) = Established" and "ch_control_queue (gc_hot c) = []"
    and "sealable env (gc_hot c)" and "aa_validated (ch_anti_amplification (gc_hot c))" and "40 \<le> length out_buf" and "length out_buf \<le> 65535"
    and "\<not> should_send_ack now (ch_ack_tracker (gc_hot c))" and "64 \<le> tx_budget (gc_hot (prepared now c))"
    and "\<not> GameScheduler_is_empty (ch_scheduler (gc_hot (prepared now c)))"
    and "\<forall>t < 5. \<forall>i \<in> set (gs_queues (ch_scheduler (gc_hot (prepared now c))) t). tx_budget (gc_hot (prepared now c)) < size_bytes i"
  shows "\<exists>c' buf dest. produce_outgoing_datagram env now out_buf c = (c', buf, Ok (Some (dest, 24 + tag_len (ch_tx_protector (gc_hot c))))) \<and>
    ch_next_packet_number (gc_hot c') = PacketNumber_next (ch_next_packet_number (gc_hot c)) \<and>
    (\<forall>t < 5. gs_queues (ch_scheduler (gc_hot c')) t = gs_queues (ch_scheduler (gc_hot (prepared now c))) t)"
proof -
  let ?h1 = "gc_hot (prepared now c)"
  note pf = prepared_fields [OF assms(2), of now]
  have open_state: "ch_state (gc_hot c) \<noteq> Closed" and busy: "\<not> (ch_state (gc_hot c) = Draining \<and> ch_control_queue (gc_hot c) = [])"
    and n: "24 \<le> length out_buf" using assms(3,7) by simp_all
  have wanted: "tx_wanted now ?h1" using assms(3,10,11) by (simp add: tx_wanted_def Let_def pf)
  obtain c2 :: "'addr gtp_connection" and p acks where tr: "produce_outgoing_datagram env now out_buf c = tx_transmit env now p c2"
    and a: "assembled now (tx_header now (gc_hot c2)) (length out_buf) ?h1 acks p (gc_hot c2)"
    by (rule produce_assembles [OF assms(2) open_state busy wanted n])
  note af = assembled_fields [OF a]
  have items: "tp_popped p = []" by (rule starved_no_items [OF a assms(12)])
  have "acks = []" "tp_drained_controls p = []" using a af(4) assms(4,9) pf by (auto simp: assembled_def)
  then have holds: "holds_frames (tx_header now (gc_hot c2)) (length out_buf) [] (tp_builder p)"
    using a by (simp add: assembled_def packet_frames_def items)
  have sealable2: "sealable env (gc_hot c2)" using assms(5) af pf sealable_cong by metis
  obtain buf where seal: "tx_seal env (gc_hot c2) (tp_builder p) = (buf, Ok (24 + tag_len (ch_tx_protector (gc_hot c))))"
    using empty_sealed [OF holds sealable2 assms(7,8)] af(1) pf(4) by auto
  obtain c' ctl dest where com: "tx_commit env now (24 + tag_len (ch_tx_protector (gc_hot c))) p c2 =
      (c', Ok (Some (dest, 24 + tag_len (ch_tx_protector (gc_hot c)))))"
    "repathed ((sent_hot env now (24 + tag_len (ch_tx_protector (gc_hot c))) p (gc_hot c2))\<lparr> ch_route_controller := ctl \<rparr>) (gc_hot c')"
    using tx_commit_result [of env now "24 + tag_len (ch_tx_protector (gc_hot c))" p c2] by auto
  have run: "produce_outgoing_datagram env now out_buf c = (c', buf, Ok (Some (dest, 24 + tag_len (ch_tx_protector (gc_hot c)))))"
    using tr seal com(1) assms(6) af(3) pf(6) by (simp add: tx_transmit_def can_send_def)
  obtain s where s: "ch_scheduler (gc_hot c2) = s" "taken (ch_scheduler ?h1) [] s" "ch_next_packet_number (gc_hot c2) = ch_next_packet_number ?h1"
    using a items by (auto simp: assembled_def)
  have "ch_next_packet_number ?h1 = ch_next_packet_number (gc_hot c)" using tx_prepared [OF assms(2) refl, of now] by auto
  then show ?thesis
    using run s repathed_fields [OF com(2)] by (auto simp: sent_hot_fields taken_def)
qed

theorem oversized_probe_floods_witness:
  "\<exists>dests. length dests = 3 \<and>
     produce_run sample_env [5, 5, 5] (replicate 1500 0) (fst (trigger_mtu_probe 1 1504 sample_conn)) = map (\<lambda>dest. Ok (Some (dest, 40))) dests"
proof -
  obtain c' r where t: "trigger_mtu_probe 1 1504 sample_conn = (c', r)" by fastforce
  have "\<not> should_send_ack 5 (ch_ack_tracker sample_hot)" "\<not> ch_pending_ratchet sample_hot" "sealable sample_env sample_hot"
    "gs_queues (ch_scheduler sample_hot) t = []" for t
    by (simp_all add: sample_hot_def hot_build_def build_with_config_def Let_def should_send_ack_def AckTracker_with_policy_def AckTracker_default_def
        with_per_tier_byte_caps_def with_per_tier_caps_and_item_limit_def sealable_def new_for_cid_def sample_env_def test_cipher_def)
  then show ?thesis
    using oversized_probe_floods [OF sample_env_ok, of sample_conn 5 3 "replicate 1500 0" 1504 1 c' r] sample_tx_inv(1) t
    by (simp add: sample_idle numeral_3_eq_3 AEAD_TAG_LEN_def u64_max_def)
qed

definition sample_starved :: "nat gtp_connection" where
  "sample_starved = on_hot (\<lambda>h. h\<lparr>
     ch_pacing := \<lparr> pe_tokens_bytes = 100, pe_last_update_time = 5, pe_max_burst_bytes = 24000, pe_fractional_remainder = 0 \<rparr>,
     ch_scheduler := push_item push_back ((sample_item P0Control)\<lparr> si_payload := replicate 200 0 \<rparr>) (ch_scheduler h) \<rparr>) sample_conn"

lemma sample_starved_facts:
  "tx_inv (gc_hot sample_starved)" "sealable sample_env (gc_hot sample_starved)" "ch_state (gc_hot sample_starved) = Established"
  "ch_control_queue (gc_hot sample_starved) = []" "aa_validated (ch_anti_amplification (gc_hot sample_starved))"
  "ch_tx_protector (gc_hot sample_starved) = Aead (new_for_cid [1] [2] 7)"
  "\<not> should_send_ack 5 (ch_ack_tracker (gc_hot sample_starved))" "tx_budget (gc_hot (prepared 5 sample_starved)) = 100"
  "gs_queues (ch_scheduler (gc_hot (prepared 5 sample_starved))) 0 = [(sample_item P0Control)\<lparr> si_payload := replicate 200 0 \<rparr>]"
  "t \<noteq> 0 \<Longrightarrow> t < 5 \<Longrightarrow> gs_queues (ch_scheduler (gc_hot (prepared 5 sample_starved))) t = []"
proof -
  let ?i = "(sample_item P0Control)\<lparr> si_payload := replicate 200 0 \<rparr>" and ?s = "ch_scheduler sample_hot"
  have s: "sched_wf ?s" "gs_queues ?s = (\<lambda>_. [])" "gs_queue_bytes ?s 0 = 0" "gs_queue_items ?s 0 = 0" "200 \<le> gs_max_queue_bytes_per_tier ?s 0"
    "1 \<le> gs_max_queue_items_per_tier ?s"
    using sample_tx_inv(1) by (simp_all add: tx_inv_def hot_inv_def, simp_all add: sample_hot_def hot_build_def build_with_config_def Let_def
        with_per_tier_byte_caps_def with_per_tier_caps_and_item_limit_def GtpConfig_default_def competitive_fps_def DEFAULT_MAX_QUEUE_ITEMS_PER_TIER_def)
  have "sched_wf (push_item push_back ?i ?s)"
    using s by (intro push_item_wf [OF s(1) place_ok_push(1)]) (simp_all add: sample_item_def size_bytes_def)
  then show "tx_inv (gc_hot sample_starved)"
    using sample_tx_inv(1) by (simp add: sample_starved_def tx_inv_def hot_inv_simps)
  have hot: "ch_control_queue (gc_hot sample_starved) = []" "ld_inflight_bytes (ch_loss_detector (gc_hot sample_starved)) = 0"
    by (simp_all add: sample_starved_def sample_idle)
  then show "ch_control_queue (gc_hot sample_starved) = []" by simp
  show "sealable sample_env (gc_hot sample_starved)" "ch_state (gc_hot sample_starved) = Established"
    "aa_validated (ch_anti_amplification (gc_hot sample_starved))" "ch_tx_protector (gc_hot sample_starved) = Aead (new_for_cid [1] [2] 7)"
    by (simp_all add: sample_starved_def sample_idle sealable_def new_for_cid_def sample_env_def test_cipher_def)
  show "\<not> should_send_ack 5 (ch_ack_tracker (gc_hot sample_starved))"
    by (simp add: sample_starved_def sample_hot_def hot_build_def build_with_config_def Let_def should_send_ack_def AckTracker_with_policy_def
        AckTracker_default_def)
  have idle: "tx_pto 5 sample_starved = sample_starved" by (rule tx_pto_idle [OF hot(2)])
  obtain s' k where pr: "prune_stale 5 (ch_scheduler (gc_hot sample_starved)) = (s', k)" by fastforce
  have q: "gs_queues (ch_scheduler (gc_hot sample_starved)) = (\<lambda>_. [])(0 := [?i])"
    by (simp add: sample_starved_def push_item_def push_back_def Let_def s(2) sample_item_def)
  have sched: "ch_scheduler (gc_hot (prepared 5 sample_starved)) = s'" by (simp add: idle tx_housekeeping_def pr Let_def)
  show "gs_queues (ch_scheduler (gc_hot (prepared 5 sample_starved))) 0 = [?i]"
    using prune_stale_result(1) [OF pr, of 0] by (simp add: sched q is_expired_def sample_item_def)
  show "t \<noteq> 0 \<Longrightarrow> t < 5 \<Longrightarrow> gs_queues (ch_scheduler (gc_hot (prepared 5 sample_starved))) t = []"
    using prune_stale_result(1) [OF pr, of t] by (simp add: sched q)
  have "cu_cwnd (ch_cc sample_hot) = 24000"
    by (simp add: sample_hot_def hot_build_def build_with_config_def Let_def GtpConfig_default_def competitive_fps_def Cubic_with_config_def
        wmul64_def u64_modulus_def)
  moreover have "update_tokens rate 5 (ch_pacing (gc_hot sample_starved)) = ch_pacing (gc_hot sample_starved)" for rate
    by (simp add: sample_starved_def update_tokens_def MonotonicTime_ZERO_def duration_since_def sat_sub_def)
  then have "ch_pacing (gc_hot (prepared 5 sample_starved)) = ch_pacing (gc_hot sample_starved)"
    "ch_cc (gc_hot (prepared 5 sample_starved)) = ch_cc (gc_hot sample_starved)"
    "ch_loss_detector (gc_hot (prepared 5 sample_starved)) = ch_loss_detector (gc_hot sample_starved)"
    by (simp_all add: idle tx_housekeeping_def pr Let_def)
  ultimately show "tx_budget (gc_hot (prepared 5 sample_starved)) = 100"
    by (simp add: tx_budget_def hot(2) send_budget_def sat_sub_def) (simp add: sample_starved_def)
qed

theorem starved_budget_sends_empty_witness:
  "\<exists>c' buf dest. produce_outgoing_datagram sample_env 5 (replicate 1500 0) sample_starved = (c', buf, Ok (Some (dest, 40)))"
proof -
  have "\<not> GameScheduler_is_empty (ch_scheduler (gc_hot (prepared 5 sample_starved)))"
    using sample_starved_facts(9) by (auto simp: GameScheduler_is_empty_def NUM_PRIORITY_TIERS_def upt_rec)
  moreover have "\<forall>t < 5. \<forall>i \<in> set (gs_queues (ch_scheduler (gc_hot (prepared 5 sample_starved))) t).
      tx_budget (gc_hot (prepared 5 sample_starved)) < size_bytes i"
  proof (intro allI impI ballI)
    fix t i assume "t < 5" "i \<in> set (gs_queues (ch_scheduler (gc_hot (prepared 5 sample_starved))) t)"
    then show "tx_budget (gc_hot (prepared 5 sample_starved)) < size_bytes i"
      using sample_starved_facts(8,9) sample_starved_facts(10) [of t] by (cases "t = 0") (simp_all add: size_bytes_def)
  qed
  ultimately show ?thesis
    using starved_budget_sends_empty [OF sample_env_ok sample_starved_facts(1,3,4,2,5), of "replicate 1500 0" 5] sample_starved_facts(6-8)
    by (auto simp: AEAD_TAG_LEN_def)
qed

end
