(* ===== verification/Endpoint_Laws.thy ===== *)
theory Endpoint_Laws
  imports Endpoint Conn_Progress
begin

text \<open>
  Laws of the endpoint: a handshake between two endpoints ends in two connections that hold each
  other's keys; a datagram touches at most the connection it is addressed to; a client is registered
  only with a cookie for its address and a proof of the session keys; answers to unverified addresses
  are bounded.
\<close>

section \<open>Handshake datagrams\<close>

abbreviation long_header :: "connection_id \<Rightarrow> packet_number \<Rightarrow> packet_header" where
  "long_header cid pn \<equiv> PacketHeader_new_long 1 cid pn 0 0"

lemma long_header_facts [simp]:
  "is_long_header (ph_flags (long_header cid pn))" "header_wf (long_header cid pn)" "min_header_len (ph_flags (long_header cid pn)) = 28"
  "ph_connection_id (long_header cid pn) = cid"
  by (simp_all add: PacketHeader_new_long_def header_wf_def min_header_len_def MIN_LONG_HEADER_LEN_def Let_def flag_simps)

definition handshake_bytes :: "connection_id \<Rightarrow> packet_number \<Rightarrow> frame \<Rightarrow> bytes" where
  "handshake_bytes cid pn f = PacketHeader_bytes (long_header cid pn) @ Frame_bytes f"

lemma long_datagram_eq:
  assumes "frame_wf f" and "pad_in_range f" and "frame_sendable f" and "28 + length (Frame_bytes f) \<le> n"
  shows "long_datagram n cid pn f = Ok (handshake_bytes cid pn f)"
proof -
  have "PacketHeader_encode (long_header cid pn) (replicate n 0) = Ok (PacketHeader_bytes (long_header cid pn) @ replicate (n - 28) 0, 28)"
    using assms(4) by (simp add: PacketHeader_encode_eq)
  moreover have "replicate (n - 28) (0 :: u8) \<noteq> []" using assms(4) by (simp add: Frame_bytes_def)
  ultimately show ?thesis
    using assms by (simp add: long_datagram_def Frame_encode_eq handshake_bytes_def)
qed

lemma server_hello_datagram_eq:
  assumes "frame_wf f" and "pad_in_range f" and "frame_sendable f" and "28 + length (Frame_bytes f) \<le> 256"
  shows "server_hello_datagram cid f = Ok (handshake_bytes cid 0 f)"
proof -
  have "PacketHeader_encode (long_header cid 0) (replicate 256 0) = Ok (PacketHeader_bytes (long_header cid 0) @ replicate 228 0, 28)"
    by (simp add: PacketHeader_encode_eq)
  then show ?thesis
    using assms by (simp add: server_hello_datagram_def Frame_encode_eq handshake_bytes_def)
qed

lemma handshake_bytes_facts:
  "handshake_bytes cid pn f \<noteq> []" "length (handshake_bytes cid pn f) = 28 + length (Frame_bytes f)"
  "PacketHeader_decode (handshake_bytes cid pn f) = Ok (long_header cid pn, 28)"
  "drop 28 (handshake_bytes cid pn f) = Frame_bytes f"
  using PacketHeader_decode_bytes [of "long_header cid pn" "Frame_bytes f"]
  by (simp_all add: handshake_bytes_def Frame_bytes_def)

text \<open>What the receive loop does with each handshake datagram.\<close>

lemma rx_handshake:
  assumes "frame_wf f" and "frame_sendable f"
  shows "rx_datagram env fresh now src (handshake_bytes cid pn f) ep = (case f of
     ClientHello pk nonce ver \<Rightarrow> Ok (on_client_hello env fresh now src cid pk nonce ver ep)
   | ServerHello pk nonce cky assigned static_pk \<Rightarrow>
       Ok (on_server_hello \<lparr> sh_server_pk = pk, sh_server_nonce = nonce, sh_stateless_cookie = cky, sh_server_static_pk = static_pk \<rparr> assigned ep)
   | HandshakeFinish cky c_proof \<Rightarrow> Ok (on_handshake_finish env now src cid cky c_proof ep)
   | ServerFinish s_proof \<Rightarrow> Ok (on_server_finish s_proof cid ep)
   | _ \<Rightarrow> rx_datagram env fresh now src (handshake_bytes cid pn f) ep)"
proof -
  have "hd (Frame_bytes f) = frame_type f" "Frame_bytes f \<noteq> []" "28 < length (handshake_bytes cid pn f)"
    by (simp_all add: Frame_bytes_def handshake_bytes_facts)
  then show ?thesis
    using Frame_decode_exact [OF assms] handshake_bytes_facts [of cid pn f]
    by (cases f) (simp_all add: rx_datagram_def Let_def is_handshake_candidate_def frame_type_defs)
qed

section \<open>A complete handshake\<close>

text \<open>
  The messages of a handshake between a client and a server endpoint, delivered in order: hello,
  answer, finish, confirmation. The result is both endpoints and the client's connection.
\<close>

definition handshake_run :: "('sk, 'addr, 'ip, 'chan) endpoint_env \<Rightarrow> 'sk ephemeral_key_pair \<Rightarrow> 'sk ephemeral_key_pair \<Rightarrow> monotonic_time \<Rightarrow> monotonic_time \<Rightarrow>
    'addr \<Rightarrow> 'addr \<Rightarrow> connection_id \<Rightarrow> ('sk, 'addr, 'ip, 'chan) gtp_endpoint \<Rightarrow> ('sk, 'addr, 'ip, 'chan) gtp_endpoint \<Rightarrow>
    (('sk, 'addr, 'ip, 'chan) gtp_endpoint \<times> ('sk, 'addr, 'ip, 'chan) gtp_endpoint \<times> nat) option" where
  "handshake_run env cpair spair t1 t2 caddr saddr cid client server =
     (case connect_start env False cpair None cid saddr True client of
        (c1, [SendTo hello _], Ok (AwaitHello cn)) \<Rightarrow>
     (case rx_datagram env spair t1 caddr hello server of
        Ok (s1, [SendTo answer _]) \<Rightarrow>
     (case rx_datagram env cpair t1 saddr answer c1 of
        Ok (c2, [TellHello _ info]) \<Rightarrow>
     (case connect_wait_hello env (Arrived info) cn c2 of
        (c3, [SendTo fin _], Ok (AwaitFinish cf)) \<Rightarrow>
     (case rx_datagram env spair t2 caddr fin s1 of
        Ok (s2, [SendTo confirm _]) \<Rightarrow>
     (case rx_datagram env cpair t2 saddr confirm c3 of
        Ok (c4, [TellFinish _ s_proof]) \<Rightarrow>
     (case connect_wait_finish env (Arrived s_proof) cf c4 of
        (c5, _, Ok (Connected r)) \<Rightarrow> Some (c5, s2, r)
      | _ \<Rightarrow> None) | _ \<Rightarrow> None) | _ \<Rightarrow> None) | _ \<Rightarrow> None) | _ \<Rightarrow> None) | _ \<Rightarrow> None) | _ \<Rightarrow> None)"

text \<open>Two connections that open what the other seals.\<close>

definition session_paired :: "'addr connection_hot \<Rightarrow> 'addr connection_hot \<Rightarrow> bool" where
  "session_paired a b \<longleftrightarrow> ch_connection_id a = ch_connection_id b \<and> ch_rx_protector b = ch_tx_protector a \<and> ch_rx_protector a = ch_tx_protector b \<and>
     ch_key_phase a = ch_key_phase b \<and> ch_state a = Established \<and> ch_state b = Established \<and> ch_replay_window a = ReplayWindow_new \<and> ch_replay_window b = ReplayWindow_new"

text \<open>What the primitives guarantee about lengths.\<close>

definition sizes_ok :: "('sk, 'addr, 'ip, 'chan) endpoint_env \<Rightarrow> bool" where
  "sizes_ok env \<longleftrightarrow> (\<forall>sk. length (x_public (ee_x25519 env) sk) = 32) \<and> (\<forall>key msg. length (ee_hmac env key msg) = 32)"

lemma new_connection_paired:
  "session_paired (gc_hot (GtpConnection_new_with_directional_keys cid a keys True True cfg)) (gc_hot (GtpConnection_new_with_directional_keys cid b keys False True cfg))"
  by (simp add: session_paired_def GtpConnection_new_with_directional_keys_def hot_new_with_directional_keys_def for_role_def hot_build_def
      build_with_config_def Let_def)

lemma session_paired_ping: "session_paired (gc_hot a) b \<Longrightarrow> session_paired (gc_hot (fst (send_ping n a))) b"
  by (simp add: session_paired_def send_ping_def queue_control_def)

lemma generate_cookie_length: "sizes_ok env \<Longrightarrow> length (generate_cookie (ee_hmac env) txt secret addr now) = 32"
  by (simp add: generate_cookie_def Let_def cookie_mac_def sizes_ok_def)

lemma cookie_fresh:
  assumes "issued \<le> now" and "now - issued \<le> 10000000" and "issued < 2 ^ 64"
  shows "verify_cookie hmac addr_text secret addr (generate_cookie hmac addr_text secret addr issued) now"
  using cookie_verifies [OF assms(3), of hmac addr_text secret addr now "[]"] assms(1,2) by simp

text \<open>The two halves of the key agreement.\<close>

lemma agreement:
  assumes "x25519_ok (ee_x25519 env)" and "cpair = EphemeralKeyPair_generate (ee_x25519 env) cs cn" and "spair = EphemeralKeyPair_generate (ee_x25519 env) ss sn"
    and "pin = map_option (x_public (ee_x25519 env)) identity" and "server_shared_secret env identity spair (ek_public_key cpair) = Ok shared"
    and "sh_server_pk info = ek_public_key spair" and "identity \<noteq> None \<Longrightarrow> Some (sh_server_static_pk info) = pin"
  shows "client_shared_secret env pin cpair info = Ok shared"
proof -
  have dh: "x_dh (ee_x25519 env) cs (x_public (ee_x25519 env) k) = x_dh (ee_x25519 env) k (x_public (ee_x25519 env) cs)" for k
    using assms(1) by (simp add: x25519_ok_def)
  show ?thesis
    using assms(2-7) dh
    by (cases identity) (auto simp: client_shared_secret_def server_shared_secret_def compute_shared_secret_with_static_def complete_server_session_def
        compute_shared_secret_def compute_shared_secret_raw_def EphemeralKeyPair_generate_def Let_def outcome_convs split: if_splits)
qed

lemma connect_start_step:
  assumes "length (ek_public_key pair) = 32" and "length (ek_nonce pair) = 32"
  shows "connect_start env feature pair None cid peer True ep =
    (ep\<lparr> ep_next_ref := ep_next_ref ep + 1, ep_pending_client_handshakes := (ep_pending_client_handshakes ep)(cid \<mapsto> ep_next_ref ep) \<rparr>,
     [SendTo (handshake_bytes cid 0 (ClientHello (ek_public_key pair) (ek_nonce pair) PROTOCOL_VERSION)) peer],
     Ok (AwaitHello \<lparr> cn_cid = cid, cn_peer = peer, cn_pair = pair, cn_waiter = ep_next_ref ep,
       cn_hello = handshake_bytes cid 0 (ClientHello (ek_public_key pair) (ek_nonce pair) PROTOCOL_VERSION), cn_attempts = 0 \<rparr>))"
  using assms by (simp add: connect_start_def Let_def long_datagram_eq Frame_bytes_def)

definition new_pending :: "'sk ephemeral_key_pair \<Rightarrow> bytes \<Rightarrow> bytes \<Rightarrow> 'addr \<Rightarrow> monotonic_time \<Rightarrow> ('sk, 'addr) pending_server" where
  "new_pending pair pk nonce src now = \<lparr> ps_pair = pair, ps_client_pk = pk, ps_client_nonce = nonce, ps_src = src, ps_start = now \<rparr>"

abbreviation advertised_static :: "('sk, 'addr, 'ip, 'chan) endpoint_env \<Rightarrow> ('sk, 'addr, 'ip, 'chan) gtp_endpoint \<Rightarrow> bytes" where
  "advertised_static env ep \<equiv> case static_identity_public env ep of Some pk \<Rightarrow> pk | None \<Rightarrow> replicate 32 0"

abbreviation issued_cookie :: "('sk, 'addr, 'ip, 'chan) endpoint_env \<Rightarrow> ('sk, 'addr, 'ip, 'chan) gtp_endpoint \<Rightarrow> 'addr \<Rightarrow> monotonic_time \<Rightarrow> bytes" where
  "issued_cookie env ep src now \<equiv> generate_cookie (ee_hmac env) (ee_addr_text env) (ep_token_secret ep) src now"

lemma client_hello_step:
  assumes "sizes_ok env" and "length (ek_public_key pair) = 32" and "length (ek_nonce pair) = 32"
    and "HelloRateLimiter_allow (ee_is_loopback env) (ee_ip env src) now (Duration_from_secs 1) 20 (ep_hello_rate_limiter ep) = (seen, True)"
    and "ep_pending_server_handshakes ep cid = None"
  shows "on_client_hello env pair now src cid pk nonce PROTOCOL_VERSION ep =
    (ep\<lparr> ep_hello_rate_limiter := seen, ep_pending_server_handshakes :=
       (map_retain (\<lambda>p. duration_since now (ps_start p) \<le> HANDSHAKE_LIFETIME) (ep_pending_server_handshakes ep))(cid \<mapsto> new_pending pair pk nonce src now) \<rparr>,
     [SendTo (handshake_bytes cid 0 (ServerHello (ek_public_key pair) (ek_nonce pair) (issued_cookie env ep src now) cid (advertised_static env ep))) src])"
proof -
  let ?f = "ServerHello (ek_public_key pair) (ek_nonce pair) (issued_cookie env ep src now) cid (advertised_static env ep)"
  have "length (advertised_static env ep) = 32"
    using assms(1) by (simp add: static_identity_public_def sizes_ok_def split: option.split)
  then have "frame_wf ?f" "length (Frame_bytes ?f) = 137"
    using assms(1-3) by (simp_all add: generate_cookie_length Frame_bytes_def)
  then have "server_hello_datagram cid ?f = Ok (handshake_bytes cid 0 ?f)" by (intro server_hello_datagram_eq) simp_all
  moreover have "map_retain keep m cid = None" if "m cid = None" for keep and m :: "connection_id \<rightharpoonup> ('a, 'b) pending_server"
    using that by (simp add: map_retain_def)
  ultimately show ?thesis
    using assms(4,5) by (simp add: on_client_hello_def Let_def send_if_built_def new_pending_def static_identity_public_def)
qed

abbreviation agreed_keys :: "('sk, 'addr, 'ip, 'chan) endpoint_env \<Rightarrow> bytes \<Rightarrow> bytes \<Rightarrow> bytes \<Rightarrow> connection_id \<Rightarrow> directional_keys" where
  "agreed_keys env shared c_nonce s_nonce cid \<equiv> derive_directional_handshake_session_keys (env_hkdf (ee_conn env)) shared c_nonce s_nonce cid"

lemma handshake_finish_step:
  assumes "sizes_ok env" and "verify_cookie (ee_hmac env) (ee_addr_text env) (ep_token_secret ep) src cky now"
    and "map_retain (\<lambda>(_, _, t). duration_since now t \<le> HANDSHAKE_LIFETIME) (ep_accepted_finishes ep) cid = None"
    and "ep_pending_server_handshakes ep cid = Some p" and "server_shared_secret env (ep_static_identity ep) (ps_pair p) (ps_client_pk p) = Ok shared"
    and "ep_connections ep cid = None"
    and "c_proof = compute_client_proof (env_hkdf (ee_conn env)) (ee_hmac env) shared (pending_transcript p cid)"
  shows "\<exists>ep'. on_handshake_finish env now src cid cky c_proof ep =
      (ep', [SendTo (handshake_bytes cid 0 (ServerFinish (compute_server_proof (env_hkdf (ee_conn env)) (ee_hmac env) shared (pending_transcript p cid)))) src]) \<and>
    ep_connections ep' = (ep_connections ep)(cid \<mapsto> ep_next_ref ep) \<and> ep_incoming ep' = ep_incoming ep @ [ep_next_ref ep] \<and>
    ep_store ep' = (ep_store ep)(ep_next_ref ep \<mapsto> (GtpConnection_new_with_directional_keys cid src
      (agreed_keys env shared (ps_client_nonce p) (ek_nonce (ps_pair p)) cid) False True competitive_fps, ee_channel env 1024))"
proof -
  let ?spf = "compute_server_proof (env_hkdf (ee_conn env)) (ee_hmac env) shared (pending_transcript p cid)"
  have "length ?spf = 32" using assms(1) by (simp add: compute_server_proof_def sizes_ok_def)
  then have "send_server_finish cid ?spf src = [SendTo (handshake_bytes cid 0 (ServerFinish ?spf)) src]"
    by (simp add: send_server_finish_def send_if_built_def long_datagram_eq Frame_bytes_def)
  then show ?thesis
    using assms(2-7) by (simp add: on_handshake_finish_def accept_finish_def register_connection_def verify_client_proof_def Let_def)
qed

lemma connect_hello_step:
  assumes "client_shared_secret env (ep_trusted_server_static ep) (cn_pair cn) info = Ok shared" and "sizes_ok env"
    and "length (sh_stateless_cookie info) = 32"
  defines "transcript \<equiv> \<lparr> ht_client_pk = ek_public_key (cn_pair cn), ht_server_pk = sh_server_pk info, ht_client_nonce = ek_nonce (cn_pair cn),
      ht_server_nonce = sh_server_nonce info, ht_connection_id = cn_cid cn, ht_version = PROTOCOL_VERSION \<rparr>"
  defines "cpf \<equiv> compute_client_proof (env_hkdf (ee_conn env)) (ee_hmac env) shared transcript"
  shows "\<exists>ep' cf. connect_wait_hello env (Arrived info) cn ep =
      (ep', [SendTo (handshake_bytes (cn_cid cn) 1 (HandshakeFinish (sh_stateless_cookie info) cpf)) (cn_peer cn)], Ok (AwaitFinish cf)) \<and>
    cf_transcript cf = transcript \<and> cf_shared cf = shared \<and> cf_cid cf = cn_cid cn \<and> ep_pending_server_finishes ep' (cn_cid cn) = Some (cf_waiter cf) \<and>
    ep_connections ep' (cn_cid cn) = Some (cf_conn cf) \<and>
    ep_store ep' (cf_conn cf) = Some (GtpConnection_new_with_directional_keys (cn_cid cn) (cn_peer cn)
      (agreed_keys env shared (ek_nonce (cn_pair cn)) (sh_server_nonce info) (cn_cid cn)) True True competitive_fps, ee_channel env 1024)"
proof -
  have "long_datagram 128 (cn_cid cn) 1 (HandshakeFinish (sh_stateless_cookie info) cpf) =
      Ok (handshake_bytes (cn_cid cn) 1 (HandshakeFinish (sh_stateless_cookie info) cpf))"
    using assms(2,3) unfolding cpf_def by (intro long_datagram_eq) (simp_all add: Frame_bytes_def compute_client_proof_def sizes_ok_def)
  then show ?thesis
    using assms(1) by (simp add: connect_wait_hello_def connect_hello_def register_connection_def Let_def transcript_def cpf_def)
qed

text \<open>
  The first half of a handshake: the hello, its answer, and the finish the client makes of the answer.
\<close>

lemma handshake_opening:
  assumes "x25519_ok (ee_x25519 env)" and "sizes_ok env"
    and "cpair = EphemeralKeyPair_generate (ee_x25519 env) cs cn" and "length cn = 32"
    and "spair = EphemeralKeyPair_generate (ee_x25519 env) ss sn" and "length sn = 32"
    and "ep_trusted_server_static client = map_option (x_public (ee_x25519 env)) (ep_static_identity server)"
    and "server_shared_secret env (ep_static_identity server) spair (ek_public_key cpair) = Ok shared"
    and "snd (HelloRateLimiter_allow (ee_is_loopback env) (ee_ip env caddr) hello_at (Duration_from_secs 1) 20 (ep_hello_rate_limiter server))"
    and "ep_pending_server_handshakes server cid = None"
  defines "p \<equiv> new_pending spair (ek_public_key cpair) (ek_nonce cpair) caddr hello_at"
    and "cky \<equiv> issued_cookie env server caddr hello_at"
  obtains c1 c2 c3 s1 hello answer w info cg cf where
    "connect_start env False cpair None cid saddr True client = (c1, [SendTo hello saddr], Ok (AwaitHello cg))"
    "rx_datagram env spair hello_at caddr hello server = Ok (s1, [SendTo answer caddr])"
    "rx_datagram env cpair hello_at saddr answer c1 = Ok (c2, [TellHello w info])"
    "connect_wait_hello env (Arrived info) cg c2 = (c3, [SendTo (handshake_bytes cid 1 (HandshakeFinish cky
       (compute_client_proof (env_hkdf (ee_conn env)) (ee_hmac env) shared (pending_transcript p cid)))) saddr], Ok (AwaitFinish cf))"
    "cf_transcript cf = pending_transcript p cid" "cf_shared cf = shared" "cf_cid cf = cid" "ep_pending_server_finishes c3 cid = Some (cf_waiter cf)"
    "ep_connections c3 cid = Some (cf_conn cf)" "ep_store c3 (cf_conn cf) = Some (GtpConnection_new_with_directional_keys cid saddr
       (agreed_keys env shared (ek_nonce cpair) (ek_nonce spair) cid) True True competitive_fps, ee_channel env 1024)"
    "ep_pending_server_handshakes s1 cid = Some p" "ep_connections s1 = ep_connections server"
    "ep_store s1 = ep_store server" "ep_incoming s1 = ep_incoming server" "ep_next_ref s1 = ep_next_ref server" "ep_token_secret s1 = ep_token_secret server"
    "ep_static_identity s1 = ep_static_identity server" "ep_accepted_finishes s1 = ep_accepted_finishes server"
proof -
  have len: "length (ek_public_key cpair) = 32" "length (ek_nonce cpair) = 32" "length (ek_public_key spair) = 32" "length (ek_nonce spair) = 32"
    using assms(2-6) by (simp_all add: EphemeralKeyPair_generate_def sizes_ok_def)
  obtain seen where allow: "HelloRateLimiter_allow (ee_is_loopback env) (ee_ip env caddr) hello_at (Duration_from_secs 1) 20 (ep_hello_rate_limiter server) = (seen, True)"
    using assms(9) by (metis (full_types) prod.collapse)
  let ?hello = "ClientHello (ek_public_key cpair) (ek_nonce cpair) PROTOCOL_VERSION"
  let ?static = "advertised_static env server" let ?answer = "ServerHello (ek_public_key spair) (ek_nonce spair) cky cid ?static"
  let ?info = "\<lparr> sh_server_pk = ek_public_key spair, sh_server_nonce = ek_nonce spair, sh_stateless_cookie = cky, sh_server_static_pk = ?static \<rparr>"
  define c1 where "c1 = client\<lparr> ep_next_ref := ep_next_ref client + 1,
    ep_pending_client_handshakes := (ep_pending_client_handshakes client)(cid \<mapsto> ep_next_ref client) \<rparr>"
  define c2 where "c2 = c1\<lparr> ep_pending_client_handshakes := (ep_pending_client_handshakes c1)(cid := None) \<rparr>"
  define cg where "cg = \<lparr> cn_cid = cid, cn_peer = saddr, cn_pair = cpair, cn_waiter = ep_next_ref client,
    cn_hello = handshake_bytes cid 0 ?hello, cn_attempts = 0 \<rparr>"
  have cky: "length cky = 32" using generate_cookie_length [OF assms(2)] by (simp add: cky_def)
  have answer_wf: "frame_wf ?answer"
    using len assms(2) cky by (simp add: static_identity_public_def sizes_ok_def split: option.split)
  have "ep_static_identity server \<noteq> None \<Longrightarrow> Some (sh_server_static_pk ?info) = ep_trusted_server_static client"
    using assms(7) by (auto simp: static_identity_public_def)
  from agreement [OF assms(1,3,5,7,8) _ this]
  have secret: "client_shared_secret env (ep_trusted_server_static c2) (cn_pair cg) ?info = Ok shared" by (simp add: c1_def c2_def cg_def)
  have transcript: "pending_transcript p cid = \<lparr> ht_client_pk = ek_public_key (cn_pair cg), ht_server_pk = sh_server_pk ?info,
      ht_client_nonce = ek_nonce (cn_pair cg), ht_server_nonce = sh_server_nonce ?info, ht_connection_id = cn_cid cg, ht_version = PROTOCOL_VERSION \<rparr>"
    by (simp add: p_def new_pending_def pending_transcript_def cg_def)
  obtain c3 cf where c3: "connect_wait_hello env (Arrived ?info) cg c2 = (c3, [SendTo (handshake_bytes cid 1 (HandshakeFinish cky
       (compute_client_proof (env_hkdf (ee_conn env)) (ee_hmac env) shared (pending_transcript p cid)))) saddr], Ok (AwaitFinish cf))"
      "cf_transcript cf = pending_transcript p cid" "cf_shared cf = shared" "cf_cid cf = cid" "ep_pending_server_finishes c3 cid = Some (cf_waiter cf)"
      "ep_connections c3 cid = Some (cf_conn cf)" "ep_store c3 (cf_conn cf) = Some (GtpConnection_new_with_directional_keys cid saddr
         (agreed_keys env shared (ek_nonce cpair) (ek_nonce spair) cid) True True competitive_fps, ee_channel env 1024)"
    using connect_hello_step [OF secret assms(2)] cky unfolding transcript [symmetric] by (auto simp: cg_def)
  obtain s1 where s1: "on_client_hello env spair hello_at caddr cid (ek_public_key cpair) (ek_nonce cpair) PROTOCOL_VERSION server =
      (s1, [SendTo (handshake_bytes cid 0 ?answer) caddr])" "ep_pending_server_handshakes s1 cid = Some p" "ep_connections s1 = ep_connections server"
      "ep_store s1 = ep_store server" "ep_incoming s1 = ep_incoming server" "ep_next_ref s1 = ep_next_ref server" "ep_token_secret s1 = ep_token_secret server"
      "ep_static_identity s1 = ep_static_identity server" "ep_accepted_finishes s1 = ep_accepted_finishes server"
    using client_hello_step [OF assms(2) len(3,4) allow assms(10)] by (simp add: p_def cky_def)
  have "connect_start env False cpair None cid saddr True client = (c1, [SendTo (handshake_bytes cid 0 ?hello) saddr], Ok (AwaitHello cg))"
    "rx_datagram env spair hello_at caddr (handshake_bytes cid 0 ?hello) server = Ok (s1, [SendTo (handshake_bytes cid 0 ?answer) caddr])"
    using len s1(1) by (simp_all add: connect_start_step c1_def cg_def rx_handshake)
  moreover have "rx_datagram env cpair hello_at saddr (handshake_bytes cid 0 ?answer) c1 = Ok (c2, [TellHello (ep_next_ref client) ?info])"
    by (subst rx_handshake [OF answer_wf]) (simp_all add: on_server_hello_def c1_def c2_def)
  ultimately show thesis using that c3 s1(2-9) by blast
qed

text \<open>
  C4: a handshake establishes a session. When the four messages between a client and a server endpoint
  are delivered within the ten seconds of the cookie, the client pins the server's identity or both
  are anonymous, the key shares are contributory and the server's rate limit admits the hello, then
  \<^verbatim>\<open>connect\<close> returns, the server queues a connection for \<^verbatim>\<open>accept\<close>, both are registered under the
  connection id, and they are paired: each opens what the other seals.
\<close>

theorem handshake_establishes_session:
  assumes "x25519_ok (ee_x25519 env)" and "sizes_ok env"
    and "cpair = EphemeralKeyPair_generate (ee_x25519 env) cs cn" and "length cn = 32"
    and "spair = EphemeralKeyPair_generate (ee_x25519 env) ss sn" and "length sn = 32"
    and "ep_trusted_server_static client = map_option (x_public (ee_x25519 env)) (ep_static_identity server)"
    and "server_shared_secret env (ep_static_identity server) spair (ek_public_key cpair) = Ok shared"
    and "snd (HelloRateLimiter_allow (ee_is_loopback env) (ee_ip env caddr) hello_at (Duration_from_secs 1) 20 (ep_hello_rate_limiter server))"
    and "ep_pending_server_handshakes server cid = None" and "ep_accepted_finishes server cid = None" and "ep_connections server cid = None"
    and "hello_at \<le> finish_at" and "finish_at - hello_at \<le> 10000000" and "hello_at < 2 ^ 64"
  shows "\<exists>client' server' r s cc cchan sc schan. handshake_run env cpair spair hello_at finish_at caddr saddr cid client server = Some (client', server', r) \<and>
    ep_connections client' cid = Some r \<and> ep_store client' r = Some (cc, cchan) \<and>
    ep_connections server' cid = Some s \<and> ep_store server' s = Some (sc, schan) \<and> ep_incoming server' = ep_incoming server @ [s] \<and>
    session_paired (gc_hot cc) (gc_hot sc)"
proof (rule handshake_opening [OF assms(1-10), where saddr = saddr])
  let ?cky = "issued_cookie env server caddr hello_at"
  define p where "p = new_pending spair (ek_public_key cpair) (ek_nonce cpair) caddr hello_at"
  let ?cpf = "compute_client_proof (env_hkdf (ee_conn env)) (ee_hmac env) shared (pending_transcript p cid)"
  let ?spf = "compute_server_proof (env_hkdf (ee_conn env)) (ee_hmac env) shared (pending_transcript p cid)"
  let ?sconn = "GtpConnection_new_with_directional_keys cid caddr (agreed_keys env shared (ek_nonce cpair) (ek_nonce spair) cid) False True competitive_fps"
  fix c1 c2 c3 s1 hello answer w info cg cf
  assume run: "connect_start env False cpair None cid saddr True client = (c1, [SendTo hello saddr], Ok (AwaitHello cg))"
    "rx_datagram env spair hello_at caddr hello server = Ok (s1, [SendTo answer caddr])"
    "rx_datagram env cpair hello_at saddr answer c1 = Ok (c2, [TellHello w info])"
    "connect_wait_hello env (Arrived info) cg c2 = (c3, [SendTo (handshake_bytes cid 1 (HandshakeFinish ?cky
       (compute_client_proof (env_hkdf (ee_conn env)) (ee_hmac env) shared
         (pending_transcript (new_pending spair (ek_public_key cpair) (ek_nonce cpair) caddr hello_at) cid)))) saddr], Ok (AwaitFinish cf))"
    and cf: "cf_transcript cf = pending_transcript (new_pending spair (ek_public_key cpair) (ek_nonce cpair) caddr hello_at) cid" "cf_shared cf = shared"
      "cf_cid cf = cid" "ep_pending_server_finishes c3 cid = Some (cf_waiter cf)" "ep_connections c3 cid = Some (cf_conn cf)"
      "ep_store c3 (cf_conn cf) = Some (GtpConnection_new_with_directional_keys cid saddr
        (agreed_keys env shared (ek_nonce cpair) (ek_nonce spair) cid) True True competitive_fps, ee_channel env 1024)"
    and s1: "ep_pending_server_handshakes s1 cid = Some (new_pending spair (ek_public_key cpair) (ek_nonce cpair) caddr hello_at)"
      "ep_connections s1 = ep_connections server" "ep_store s1 = ep_store server" "ep_incoming s1 = ep_incoming server"
      "ep_next_ref s1 = ep_next_ref server" "ep_token_secret s1 = ep_token_secret server" "ep_static_identity s1 = ep_static_identity server"
      "ep_accepted_finishes s1 = ep_accepted_finishes server"
  note run = run [folded p_def] and cf = cf [folded p_def] and s1 = s1 [folded p_def]
  have "verify_cookie (ee_hmac env) (ee_addr_text env) (ep_token_secret s1) caddr ?cky finish_at" using cookie_fresh [OF assms(13-15)] s1(6) by simp
  then obtain s2 where s2: "on_handshake_finish env finish_at caddr cid ?cky ?cpf s1 = (s2, [SendTo (handshake_bytes cid 0 (ServerFinish ?spf)) caddr])"
      "ep_connections s2 = (ep_connections server)(cid \<mapsto> ep_next_ref server)" "ep_incoming s2 = ep_incoming server @ [ep_next_ref server]"
      "ep_store s2 (ep_next_ref server) = Some (?sconn, ee_channel env 1024)"
    using handshake_finish_step [OF assms(2) _ _ s1(1) _ _ refl, of caddr ?cky finish_at shared] assms(8,11,12) s1
    by (auto simp: map_retain_def p_def new_pending_def)
  have len: "length ?spf = 32" "length ?cpf = 32" "length ?cky = 32"
    using assms(2) generate_cookie_length [OF assms(2)] by (simp_all add: compute_server_proof_def compute_client_proof_def sizes_ok_def)
  define c4 where "c4 = c3\<lparr> ep_pending_server_finishes := (ep_pending_server_finishes c3)(cid := None) \<rparr>"
  define c5 where "c5 = with_connection (cf_conn cf) (fst \<circ> send_ping 0x00C0FFEE) (drop_finish_waiter cid c4)"
  have "rx_datagram env spair finish_at caddr (handshake_bytes cid 1 (HandshakeFinish ?cky ?cpf)) s1 = Ok (s2, [SendTo (handshake_bytes cid 0 (ServerFinish ?spf)) caddr])"
    "rx_datagram env cpair finish_at saddr (handshake_bytes cid 0 (ServerFinish ?spf)) c3 = Ok (c4, [TellFinish (cf_waiter cf) ?spf])"
    using len s2(1) cf(4) by (simp_all add: rx_handshake on_server_finish_def c4_def)
  moreover have "connect_wait_finish env (Arrived ?spf) cf c4 = (c5, [], Ok (Connected (cf_conn cf)))"
    by (simp add: connect_wait_finish_def cf(1-3) verify_server_proof_def c5_def)
  ultimately have "handshake_run env cpair spair hello_at finish_at caddr saddr cid client server = Some (c5, s2, cf_conn cf)"
    by (simp add: handshake_run_def run)
  moreover have "ep_connections c5 cid = Some (cf_conn cf)" "\<exists>cc cchan. ep_store c5 (cf_conn cf) = Some (cc, cchan) \<and> session_paired (gc_hot cc) (gc_hot ?sconn)"
    using cf(5,6) session_paired_ping [OF new_connection_paired] by (auto simp: c5_def c4_def with_connection_def drop_finish_waiter_def)
  ultimately show ?thesis using s2(2-4) by auto
qed

text \<open>An environment for the witnesses: addresses are numbers, a channel is a list of at most its capacity.\<close>

definition sample_endpoint_env :: "(nat, nat, nat, nat \<times> received_message list) endpoint_env" where
  "sample_endpoint_env = \<lparr> ee_conn = sample_env, ee_x25519 = test_x25519, ee_hmac = (\<lambda>key msg. take 32 (key @ msg @ replicate 32 0)),
     ee_addr_text = (\<lambda>a. to_be 2 a), ee_ip = (\<lambda>a. a), ee_is_loopback = (\<lambda>_. False), ee_channel = (\<lambda>n. (n, [])),
     ee_try_send = (\<lambda>(n, items) msg. if length items < n then Sent (n, items @ [msg]) else Full) \<rparr>"

lemma sample_endpoint_env_ok: "x25519_ok (ee_x25519 sample_endpoint_env)" "sizes_ok sample_endpoint_env"
  using test_x25519_ok by (auto simp: sample_endpoint_env_def sizes_ok_def test_x25519_def min_def)

definition sample_endpoint :: "(nat, nat, nat, nat \<times> received_message list) gtp_endpoint" where
  "sample_endpoint = bind_inner [1, 2] None"

abbreviation sample_pair :: "nat \<Rightarrow> nat ephemeral_key_pair" where
  "sample_pair k \<equiv> EphemeralKeyPair_generate (ee_x25519 sample_endpoint_env) k (replicate 32 (of_nat k))"

lemma sample_secret: "\<exists>shared. server_shared_secret sample_endpoint_env None (sample_pair 5) (ek_public_key (sample_pair 3)) = Ok shared"
  by (simp add: server_shared_secret_def compute_shared_secret_def compute_shared_secret_raw_def sample_endpoint_env_def EphemeralKeyPair_generate_def
      test_x25519_def Let_def)

theorem handshake_establishes_session_witness:
  "\<exists>client server r s cc cchan sc schan. handshake_run sample_endpoint_env (sample_pair 3) (sample_pair 5) 100 200 1 2 77 sample_endpoint sample_endpoint =
      Some (client, server, r) \<and> ep_connections client 77 = Some r \<and> ep_store client r = Some (cc, cchan) \<and>
    ep_connections server 77 = Some s \<and> ep_store server s = Some (sc, schan) \<and> ep_incoming server = [s] \<and> session_paired (gc_hot cc) (gc_hot sc)"
proof -
  have "snd (HelloRateLimiter_allow (ee_is_loopback sample_endpoint_env) (ee_ip sample_endpoint_env 1) 100 (Duration_from_secs 1) 20 (ep_hello_rate_limiter sample_endpoint))"
    by (simp add: HelloRateLimiter_allow_def sample_endpoint_env_def sample_endpoint_def bind_inner_def map_retain_def Duration_from_secs_def
        sat_mul64_def u64_max_def duration_since_def sat_sub_def)
  moreover obtain shared where "server_shared_secret sample_endpoint_env (ep_static_identity sample_endpoint) (sample_pair 5) (ek_public_key (sample_pair 3)) = Ok shared"
    using sample_secret by (auto simp: sample_endpoint_def bind_inner_def)
  ultimately show ?thesis
    using handshake_establishes_session [where env = sample_endpoint_env and client = sample_endpoint and server = sample_endpoint and cpair = "sample_pair 3" and
        spair = "sample_pair 5" and cs = 3 and cn = "replicate 32 3" and ss = 5 and sn = "replicate 32 5" and shared = shared and caddr = 1 and
        hello_at = 100 and finish_at = 200 and saddr = 2 and cid = 77] sample_endpoint_env_ok
    by (simp add: sample_endpoint_def bind_inner_def)
qed

section \<open>What one datagram can do\<close>

lemma rx_datagram_cases:
  assumes "rx_datagram env fresh now src d ep = r"
  obtains (ignored) "r = Ok (ep, [])"
  | (hello) hdr k pk nonce ver n where "PacketHeader_decode d = Ok (hdr, k)" and "is_long_header (ph_flags hdr)"
      and "Frame_decode (drop k d) = Ok (ClientHello pk nonce ver, n)"
      and "r = Ok (on_client_hello env fresh now src (ph_connection_id hdr) pk nonce ver ep)"
  | (reply) hdr k info assigned where "PacketHeader_decode d = Ok (hdr, k)" and "r = Ok (on_server_hello info assigned ep)"
  | (fin) hdr k cky pr n where "PacketHeader_decode d = Ok (hdr, k)" and "is_long_header (ph_flags hdr)"
      and "Frame_decode (drop k d) = Ok (HandshakeFinish cky pr, n)"
      and "r = Ok (on_handshake_finish env now src (ph_connection_id hdr) cky pr ep)"
  | (confirm) hdr k pr where "PacketHeader_decode d = Ok (hdr, k)" and "r = Ok (on_server_finish pr (ph_connection_id hdr) ep)"
  | (routed) hdr k where "PacketHeader_decode d = Ok (hdr, k)"
      and "r = omap (\<lambda>ep'. (ep', [])) (route_datagram env now src (ph_connection_id hdr) d ep)"
proof (cases "d = []")
  case True
  then show thesis using assms ignored by (simp add: rx_datagram_def)
next
  case nonempty: False
  show thesis
  proof (cases "PacketHeader_decode d")
    case (Ok hk)
    obtain hdr k where hk: "PacketHeader_decode d = Ok (hdr, k)" using Ok by (cases hk) simp
    let ?ty = "hd (drop k d)" and ?fd = "Frame_decode (drop k d)"
    have nopanic: "?fd \<noteq> Panic" by (rule Frame_decode_no_panic)
    show thesis
    proof (cases "is_handshake_candidate hdr k (length d) \<and> drop k d \<noteq> [] \<and>
        ?ty \<in> {FRAME_TYPE_CLIENT_HELLO, FRAME_TYPE_SERVER_HELLO, FRAME_TYPE_HANDSHAKE_FINISH, FRAME_TYPE_SERVER_FINISH}")
      case False
      then have "r = omap (\<lambda>ep'. (ep', [])) (route_datagram env now src (ph_connection_id hdr) d ep)"
        using assms nonempty hk by (auto simp: rx_datagram_def Let_def)
      then show thesis by (rule routed [OF hk])
    next
      case True
      have long: "is_long_header (ph_flags hdr)" using True by (simp add: is_handshake_candidate_def)
      have body: "rx_datagram env fresh now src d ep =
          (if ?ty = FRAME_TYPE_CLIENT_HELLO then (case ?fd of Ok (ClientHello pk nonce ver, _) \<Rightarrow>
               Ok (on_client_hello env fresh now src (ph_connection_id hdr) pk nonce ver ep) | Panic \<Rightarrow> Panic | _ \<Rightarrow> Ok (ep, []))
           else if ?ty = FRAME_TYPE_SERVER_HELLO then (case ?fd of Ok (ServerHello pk nonce cky assigned static_pk, _) \<Rightarrow>
               Ok (on_server_hello \<lparr> sh_server_pk = pk, sh_server_nonce = nonce, sh_stateless_cookie = cky, sh_server_static_pk = static_pk \<rparr> assigned ep)
               | Panic \<Rightarrow> Panic | _ \<Rightarrow> Ok (ep, []))
           else if ?ty = FRAME_TYPE_HANDSHAKE_FINISH then (case ?fd of Ok (HandshakeFinish cky c_proof, _) \<Rightarrow>
               Ok (on_handshake_finish env now src (ph_connection_id hdr) cky c_proof ep) | Panic \<Rightarrow> Panic | _ \<Rightarrow> Ok (ep, []))
           else (case ?fd of Ok (ServerFinish s_proof, _) \<Rightarrow> Ok (on_server_finish s_proof (ph_connection_id hdr) ep) | Panic \<Rightarrow> Panic | _ \<Rightarrow> Ok (ep, [])))"
        using True nonempty hk by (auto simp: rx_datagram_def Let_def)
      show thesis
      proof (cases ?fd)
        case (Ok fn)
        obtain f n where fn: "?fd = Ok (f, n)" using Ok by (cases fn) simp
        show thesis
          using body fn assms hello [OF hk long] reply [OF hk] fin [OF hk long] confirm [OF hk] ignored
          by (cases f) (auto split: if_splits)
      next
        case (Err e)
        then show thesis using body assms ignored by (auto split: if_splits)
      qed (use nopanic in simp)
    qed
  next
    case (Err e)
    then show thesis using assms ignored nonempty by (simp add: rx_datagram_def)
  qed (use PacketHeader_decode_no_panic in simp)
qed

text \<open>A finish either registers a proven client or leaves the connections alone.\<close>

lemma handshake_finish_cases:
  assumes "on_handshake_finish env now src cid cky c_proof ep = (ep', out)"
  obtains (kept) "ep_store ep' = ep_store ep" and "ep_connections ep' = ep_connections ep" and "ep_next_ref ep' = ep_next_ref ep"
      and "out = [] \<or> (\<exists>pr dest. out = send_server_finish cid pr dest)"
  | (registered) p shared where "verify_cookie (ee_hmac env) (ee_addr_text env) (ep_token_secret ep) src cky now"
      and "ep_pending_server_handshakes ep cid = Some p" and "server_shared_secret env (ep_static_identity ep) (ps_pair p) (ps_client_pk p) = Ok shared"
      and "c_proof = compute_client_proof (env_hkdf (ee_conn env)) (ee_hmac env) shared (pending_transcript p cid)"
      and "ep_connections ep cid = None" and "ep_connections ep' = (ep_connections ep)(cid \<mapsto> ep_next_ref ep)"
      and "ep_store ep' = (ep_store ep)(ep_next_ref ep \<mapsto> (GtpConnection_new_with_directional_keys cid src
        (agreed_keys env shared (ps_client_nonce p) (ek_nonce (ps_pair p)) cid) False True competitive_fps, ee_channel env 1024))"
      and "ep_next_ref ep' = ep_next_ref ep + 1" and "\<exists>pr. out = send_server_finish cid pr src"
proof -
  let ?ep1 = "ep\<lparr> ep_accepted_finishes := map_retain (\<lambda>(_, _, t). duration_since now t \<le> HANDSHAKE_LIFETIME) (ep_accepted_finishes ep) \<rparr>"
  show thesis
  proof (cases "verify_cookie (ee_hmac env) (ee_addr_text env) (ep_token_secret ep) src cky now \<and> ep_accepted_finishes ?ep1 cid = None")
    case False
    then have "ep_store ep' = ep_store ep" "ep_connections ep' = ep_connections ep" "ep_next_ref ep' = ep_next_ref ep"
      "out = [] \<or> (\<exists>pr dest. out = send_server_finish cid pr dest)"
      using assms by (auto simp: on_handshake_finish_def Let_def split: option.splits prod.splits if_splits)
    then show thesis by (rule kept)
  next
    case ck: True
    show thesis
    proof (cases "ep_pending_server_handshakes ep cid")
      case None
      then show thesis using assms kept ck by (auto simp: on_handshake_finish_def)
    next
      case (Some p)
      let ?ep2 = "?ep1\<lparr> ep_pending_server_handshakes := (ep_pending_server_handshakes ep)(cid := None) \<rparr>"
      show thesis
      proof (cases "\<exists>shared. server_shared_secret env (ep_static_identity ep) (ps_pair p) (ps_client_pk p) = Ok shared \<and>
          verify_client_proof (env_hkdf (ee_conn env)) (ee_hmac env) shared (pending_transcript p cid) c_proof")
        case False
        then show thesis
          using assms kept ck Some by (auto simp: on_handshake_finish_def Let_def split: outcome.splits if_splits)
      next
        case True
        then obtain shared where sh: "server_shared_secret env (ep_static_identity ep) (ps_pair p) (ps_client_pk p) = Ok shared"
          "verify_client_proof (env_hkdf (ee_conn env)) (ee_hmac env) shared (pending_transcript p cid) c_proof" by blast
        have acc: "accept_finish env now src cid p shared ?ep2 = (ep', out)"
          using assms ck Some sh by (simp add: on_handshake_finish_def)
        show thesis
        proof (cases "ep_connections ep cid")
          case None
          then show thesis
            using acc ck Some sh by (intro registered [of p shared]) (auto simp: accept_finish_def register_connection_def Let_def verify_client_proof_def)
        next
          case (Some r)
          then show thesis using acc by (intro kept) (auto simp: accept_finish_def Let_def)
        qed
      qed
    qed
  qed
qed

lemma route_datagram_cases:
  assumes "route_datagram env now src cid d ep = Ok ep'"
  obtains (same) "ep' = ep"
  | (handled) r cc where "ep_connections ep cid = Some r" and "ep_store ep r \<noteq> None" and "ep_store ep' = (ep_store ep)(r \<mapsto> cc)"
      and "ep_connections ep' = ep_connections ep \<or> ep_connections ep' = (ep_connections ep)(cid := None)" and "ep_next_ref ep' = ep_next_ref ep"
proof (cases "\<exists>r c chan. ep_connections ep cid = Some r \<and> ep_store ep r = Some (c, chan)")
  case False
  then show thesis using assms same by (auto simp: route_datagram_def split: option.splits)
next
  case True
  then obtain r c chan where rc: "ep_connections ep cid = Some r" "ep_store ep r = Some (c, chan)" by blast
  obtain c1 res where h: "handle_incoming_datagram (ee_conn env) src d now c = (c1, res)" by fastforce
  obtain cc stop where dm: "(case res of Ok msgs \<Rightarrow> deliver_messages env msgs (c1, chan) | _ \<Rightarrow> ((c1, chan), False)) = (cc, stop)" by fastforce
  obtain c2 chan2 where cc: "cc = (c2, chan2)" by (cases cc)
  let ?ep1 = "ep\<lparr> ep_store := (ep_store ep)(r \<mapsto> cc) \<rparr>"
  have "res \<noteq> Panic" using assms rc h by (auto simp: route_datagram_def)
  then have "ep' = (if stop \<or> is_closed (ch_state (gc_hot c2)) then ?ep1\<lparr> ep_connections := (ep_connections ep)(cid := None) \<rparr> else ?ep1)"
    using assms rc h dm [unfolded cc] by (auto simp: route_datagram_def cc Let_def)
  then have "ep_store ep' = (ep_store ep)(r \<mapsto> cc)" "ep_connections ep' = ep_connections ep \<or> ep_connections ep' = (ep_connections ep)(cid := None)"
    "ep_next_ref ep' = ep_next_ref ep" by simp_all
  then show thesis using rc by (intro handled [of r cc]) auto
qed

lemma on_client_hello_shape:
  "\<exists>seen psh out. on_client_hello env fresh now src cid pk nonce ver ep =
     (ep\<lparr> ep_hello_rate_limiter := seen, ep_pending_server_handshakes := psh \<rparr>, out) \<and>
     (\<forall>k p. psh k = Some p \<longrightarrow> ep_pending_server_handshakes ep k = Some p \<or> ps_pair p = fresh) \<and>
     (out = [] \<or> (\<exists>pair. (pair = fresh \<or> (\<exists>p. ep_pending_server_handshakes ep cid = Some p \<and> pair = ps_pair p)) \<and>
        out = send_if_built (server_hello_datagram cid (ServerHello (ek_public_key pair) (ek_nonce pair) (issued_cookie env ep src now) cid
          (advertised_static env ep))) src))"
proof -
  obtain seen allowed where rl: "HelloRateLimiter_allow (ee_is_loopback env) (ee_ip env src) now (Duration_from_secs 1) 20 (ep_hello_rate_limiter ep) = (seen, allowed)"
    by fastforce
  let ?psh = "map_retain (\<lambda>p. duration_since now (ps_start p) \<le> HANDSHAKE_LIFETIME) (ep_pending_server_handshakes ep)"
  let ?new = "\<lparr> ps_pair = fresh, ps_client_pk = pk, ps_client_nonce = nonce, ps_src = src, ps_start = now \<rparr>"
  obtain pair psh1 where ch: "(case ?psh cid of
      Some p \<Rightarrow> if ps_client_pk p = pk \<and> ps_client_nonce p = nonce then (ps_pair p, ?psh) else (fresh, ?psh(cid \<mapsto> ?new))
    | None \<Rightarrow> (fresh, ?psh(cid \<mapsto> ?new))) = (pair, psh1)" using prod.exhaust by blast
  have kept: "ep_pending_server_handshakes ep k = Some p" if "?psh k = Some p" for k p
    using that by (auto simp: map_retain_def split: option.splits if_splits)
  have pair: "pair = fresh \<or> (\<exists>p. ep_pending_server_handshakes ep cid = Some p \<and> pair = ps_pair p)"
    using ch kept by (auto split: option.splits if_splits)
  have psh1: "\<forall>k p. psh1 k = Some p \<longrightarrow> ep_pending_server_handshakes ep k = Some p \<or> ps_pair p = fresh"
    using ch kept by (auto split: option.splits if_splits)
  consider "ver \<noteq> PROTOCOL_VERSION" | "ver = PROTOCOL_VERSION" "\<not> allowed" | "ver = PROTOCOL_VERSION" allowed by blast
  then show ?thesis
  proof cases
    case 1
    then show ?thesis by (intro exI [of _ "ep_hello_rate_limiter ep"] exI [of _ "ep_pending_server_handshakes ep"]) (simp add: on_client_hello_def)
  next
    case 2
    then show ?thesis using rl by (intro exI [of _ seen] exI [of _ "ep_pending_server_handshakes ep"]) (simp add: on_client_hello_def Let_def)
  next
    case 3
    then have "on_client_hello env fresh now src cid pk nonce ver ep =
        (ep\<lparr> ep_hello_rate_limiter := seen, ep_pending_server_handshakes := psh1 \<rparr>,
         send_if_built (server_hello_datagram cid (ServerHello (ek_public_key pair) (ek_nonce pair) (issued_cookie env ep src now) cid
           (advertised_static env ep))) src)"
      using rl by (simp add: on_client_hello_def Let_def ch static_identity_public_def)
    with psh1 pair show ?thesis by blast
  qed
qed

lemma on_client_hello_keeps:
  assumes "on_client_hello env fresh now src cid pk nonce ver ep = (ep', out)"
  shows "ep_store ep' = ep_store ep \<and> ep_connections ep' = ep_connections ep \<and> ep_next_ref ep' = ep_next_ref ep"
proof -
  obtain seen psh where "ep' = ep\<lparr> ep_hello_rate_limiter := seen, ep_pending_server_handshakes := psh \<rparr>"
    using on_client_hello_shape [of env fresh now src cid pk nonce ver ep] assms by auto
  then show ?thesis by simp
qed

lemma on_server_answer_keeps:
  "on_server_hello info cid ep = (ep', out) \<Longrightarrow> ep_store ep' = ep_store ep \<and> ep_connections ep' = ep_connections ep \<and> ep_next_ref ep' = ep_next_ref ep"
  "on_server_finish pr cid ep = (ep', out) \<Longrightarrow> ep_store ep' = ep_store ep \<and> ep_connections ep' = ep_connections ep \<and> ep_next_ref ep' = ep_next_ref ep"
  by (auto simp: on_server_hello_def on_server_finish_def split: option.splits)

section \<open>Isolation and admission\<close>

text \<open>The effect of any datagram on the connections: none, a new connection, or a step of the one addressed.\<close>

lemma rx_datagram_effect:
  assumes "rx_datagram env fresh now src d ep = Ok (ep', out)"
  obtains (kept) "ep_store ep' = ep_store ep" and "ep_connections ep' = ep_connections ep" and "ep_next_ref ep' = ep_next_ref ep"
  | (registered) hdr k cky n p shared where "PacketHeader_decode d = Ok (hdr, k)"
      and "Frame_decode (drop k d) = Ok (HandshakeFinish cky
        (compute_client_proof (env_hkdf (ee_conn env)) (ee_hmac env) shared (pending_transcript p (ph_connection_id hdr))), n)"
      and "verify_cookie (ee_hmac env) (ee_addr_text env) (ep_token_secret ep) src cky now"
      and "ep_pending_server_handshakes ep (ph_connection_id hdr) = Some p"
      and "server_shared_secret env (ep_static_identity ep) (ps_pair p) (ps_client_pk p) = Ok shared"
      and "ep_connections ep (ph_connection_id hdr) = None" and "ep_connections ep' = (ep_connections ep)(ph_connection_id hdr \<mapsto> ep_next_ref ep)"
      and "ep_store ep' = (ep_store ep)(ep_next_ref ep \<mapsto> (GtpConnection_new_with_directional_keys (ph_connection_id hdr) src
        (agreed_keys env shared (ps_client_nonce p) (ek_nonce (ps_pair p)) (ph_connection_id hdr)) False True competitive_fps, ee_channel env 1024))"
      and "ep_next_ref ep' = ep_next_ref ep + 1"
  | (handled) hdr k r cc where "PacketHeader_decode d = Ok (hdr, k)" and "ep_connections ep (ph_connection_id hdr) = Some r" and "ep_store ep r \<noteq> None"
      and "ep_store ep' = (ep_store ep)(r \<mapsto> cc)"
      and "ep_connections ep' = ep_connections ep \<or> ep_connections ep' = (ep_connections ep)(ph_connection_id hdr := None)" and "ep_next_ref ep' = ep_next_ref ep"
  using assms
proof (cases rule: rx_datagram_cases)
  case ignored
  then show thesis using kept by simp
next
  case (hello hdr k pk nonce ver n)
  then have "on_client_hello env fresh now src (ph_connection_id hdr) pk nonce ver ep = (ep', out)" by simp
  from on_client_hello_keeps [OF this] show thesis using kept by blast
next
  case (reply hdr k info assigned)
  then have "on_server_hello info assigned ep = (ep', out)" by simp
  from on_server_answer_keeps(1) [OF this] show thesis using kept by blast
next
  case (fin hdr k cky pr n)
  then have "on_handshake_finish env now src (ph_connection_id hdr) cky pr ep = (ep', out)" by simp
  then show thesis
  proof (cases rule: handshake_finish_cases)
    case reg: (registered p shared)
    show thesis by (rule registered [OF fin(1) _ reg(1-3,5-8)]) (simp add: fin(3) reg(4))
  qed (rule kept)
next
  case (confirm hdr k pr)
  then have "on_server_finish pr (ph_connection_id hdr) ep = (ep', out)" by simp
  from on_server_answer_keeps(2) [OF this] show thesis using kept by blast
next
  case (routed hdr k)
  then have "route_datagram env now src (ph_connection_id hdr) d ep = Ok ep'"
    by (cases "route_datagram env now src (ph_connection_id hdr) d ep") auto
  then show thesis
  proof (cases rule: route_datagram_cases)
    case h: (handled r cc)
    show thesis by (rule handled [OF routed(1) h])
  qed (use kept in simp)
qed

text \<open>References at or beyond the counter have not been given out.\<close>

definition refs_wf :: "('sk, 'addr, 'ip, 'chan) gtp_endpoint \<Rightarrow> bool" where
  "refs_wf ep \<longleftrightarrow> (\<forall>r \<ge> ep_next_ref ep. ep_store ep r = None)"

text \<open>
  C6: a datagram touches only the connection it is addressed to. Whatever arrives, every stored
  connection other than the one registered for the connection id of the header stays exactly as it
  was, no other routing entry changes, and a registered connection is never replaced: its entry stays
  or is removed. A replayed or forged handshake therefore cannot reset a live connection.
\<close>

theorem datagram_isolation:
  assumes "refs_wf ep" and "rx_datagram env fresh now src d ep = Ok (ep', out)" and "PacketHeader_decode d = Ok (hdr, k)"
  shows "refs_wf ep' \<and> (\<forall>r e. ep_store ep r = Some e \<longrightarrow> ep_connections ep (ph_connection_id hdr) \<noteq> Some r \<longrightarrow> ep_store ep' r = Some e) \<and>
    (\<forall>cid. cid \<noteq> ph_connection_id hdr \<longrightarrow> ep_connections ep' cid = ep_connections ep cid) \<and>
    (\<forall>r. ep_connections ep (ph_connection_id hdr) = Some r \<longrightarrow> ep_connections ep' (ph_connection_id hdr) \<in> {Some r, None})"
  using assms(2)
proof (cases rule: rx_datagram_effect)
  case (registered hdr' k' cky n p shared)
  then show ?thesis using assms(1,3) by (auto simp: refs_wf_def)
next
  case (handled hdr' k' r cc)
  then show ?thesis using assms(1,3) by (auto simp: refs_wf_def)
qed (use assms(1) in \<open>simp add: refs_wf_def\<close>)

text \<open>
  C5: only a proven client becomes a connection. A datagram adds a connection id to the routing table
  only as a \<^verbatim>\<open>HandshakeFinish\<close> that carries a cookie valid for its source address, while a handshake
  for that id is pending, and the proof keyed by the secret the server agreed on in that handshake;
  the new connection then holds the keys of that secret and talks to that address.
\<close>

theorem accepted_client_is_proven:
  assumes "rx_datagram env fresh now src d ep = Ok (ep', out)" and "ep_connections ep cid = None" and "ep_connections ep' cid = Some r"
  shows "\<exists>hdr k cky c_proof n p shared. PacketHeader_decode d = Ok (hdr, k) \<and> ph_connection_id hdr = cid \<and>
    Frame_decode (drop k d) = Ok (HandshakeFinish cky c_proof, n) \<and>
    verify_cookie (ee_hmac env) (ee_addr_text env) (ep_token_secret ep) src cky now \<and> ep_pending_server_handshakes ep cid = Some p \<and>
    server_shared_secret env (ep_static_identity ep) (ps_pair p) (ps_client_pk p) = Ok shared \<and>
    c_proof = compute_client_proof (env_hkdf (ee_conn env)) (ee_hmac env) shared (pending_transcript p cid) \<and>
    ep_store ep' r = Some (GtpConnection_new_with_directional_keys cid src
      (derive_directional_handshake_session_keys (env_hkdf (ee_conn env)) shared (ps_client_nonce p) (ek_nonce (ps_pair p)) cid) False True competitive_fps,
      ee_channel env 1024)"
  using assms(1)
proof (cases rule: rx_datagram_effect)
  case (registered hdr k cky n p shared)
  moreover from this have "cid = ph_connection_id hdr" "r = ep_next_ref ep" using assms(2,3) by (auto split: if_splits)
  ultimately show ?thesis by auto
next
  case (handled hdr k r' cc)
  then show ?thesis using assms(2,3) by (auto split: if_splits)
qed (use assms(2,3) in simp)

section \<open>Survival\<close>

lemma close_if_active_inv: "hot_inv (gc_hot c) \<Longrightarrow> hot_inv (gc_hot (close_if_active code why c))"
  by (auto simp: close_if_active_def graceful_close_def change_state_def queue_control_def Let_def hot_inv_simps split: outcome.split prod.split)

lemma deliver_messages_inv: "hot_inv (gc_hot (fst cc)) \<Longrightarrow> hot_inv (gc_hot (fst (fst (deliver_messages env msgs cc))))"
proof (induction env msgs cc rule: deliver_messages.induct)
  case (2 env msg rest c chan)
  have dropped: "hot_inv (gc_hot (drop_messages n c)) = hot_inv (gc_hot c)" for n by (simp add: drop_messages_def)
  show ?case
    using "2.IH" "2.prems"
    by (auto simp: dropped intro!: close_if_active_inv split: try_send_outcome.split message_class.split)
qed simp

definition connections_ok :: "nat \<Rightarrow> ('sk, 'addr, 'ip, 'chan) gtp_endpoint \<Rightarrow> bool" where
  "connections_ok n ep \<longleftrightarrow> (\<forall>r c chan. ep_store ep r = Some (c, chan) \<longrightarrow> hot_inv (gc_hot c) \<and> ch_gen_counter (gc_hot c) + n \<le> u64_max)"

lemma new_connection_inv: "hot_inv (gc_hot (GtpConnection_new_with_directional_keys cid a keys as_client pre cfg))"
  using build_inv [of cid a "Aead (new_for_cid (fst (fst (for_role keys as_client))) (snd (fst (for_role keys as_client))) cid)"]
  by (simp add: GtpConnection_new_with_directional_keys_def hot_new_with_directional_keys_def Let_def case_prod_beta hot_inv_simps)

lemma route_datagram_ok:
  assumes "aead_ok (env_cipher (ee_conn env))" and "connections_ok (length d) ep"
  shows "\<exists>ep'. route_datagram env now src cid d ep = Ok ep' \<and> (\<forall>r c chan. ep_store ep' r = Some (c, chan) \<longrightarrow> hot_inv (gc_hot c))"
proof (cases "\<exists>r c chan. ep_connections ep cid = Some r \<and> ep_store ep r = Some (c, chan)")
  case False
  then have "route_datagram env now src cid d ep = Ok ep" by (auto simp: route_datagram_def split: option.split)
  then show ?thesis using assms(2) by (auto simp: connections_ok_def)
next
  case True
  then obtain r c chan where rc: "ep_connections ep cid = Some r" "ep_store ep r = Some (c, chan)" by blast
  obtain c1 res where h: "handle_incoming_datagram (ee_conn env) src d now c = (c1, res)" by fastforce
  have ok: "res \<noteq> Panic" "hot_inv (gc_hot c1)"
    using receive_ok [OF assms(1), of c d src now 0 c1 res] h assms(2) rc(2) by (auto simp: handle_incoming_datagram_def connections_ok_def)
  obtain c2 chan2 stop where dm: "(case res of Ok msgs \<Rightarrow> deliver_messages env msgs (c1, chan) | _ \<Rightarrow> ((c1, chan), False)) = ((c2, chan2), stop)"
    by (metis prod.collapse)
  then have inv: "hot_inv (gc_hot c2)"
    using ok deliver_messages_inv [of "(c1, chan)" env] by (cases res) (simp_all, metis fst_conv)
  let ?ep1 = "ep\<lparr> ep_store := (ep_store ep)(r \<mapsto> (c2, chan2)) \<rparr>"
  have "route_datagram env now src cid d ep =
      Ok (if stop \<or> is_closed (ch_state (gc_hot c2)) then ?ep1\<lparr> ep_connections := (ep_connections ep)(cid := None) \<rparr> else ?ep1)"
    using rc h ok(1) dm by (simp add: route_datagram_def)
  then show ?thesis using inv assms(2) by (auto simp: connections_ok_def)
qed

text \<open>
  C7: no datagram stops the endpoint. Whatever bytes arrive from whatever address, the receive loop
  handles them without a panic and keeps the invariant of every connection, new ones included. (The
  wait for room in the channel of accepted connections is not part of the model.)
\<close>

theorem endpoint_survives_any_datagram:
  assumes "aead_ok (env_cipher (ee_conn env))" and "connections_ok (length d) ep"
  shows "\<exists>ep' out. rx_datagram env fresh now src d ep = Ok (ep', out) \<and> (\<forall>r c chan. ep_store ep' r = Some (c, chan) \<longrightarrow> hot_inv (gc_hot c))"
proof -
  obtain res where res: "rx_datagram env fresh now src d ep = res" by blast
  have returned: "\<exists>ep' out. res = Ok (ep', out)"
    using res
  proof (cases rule: rx_datagram_cases)
    case (routed hdr k)
    then show ?thesis using route_datagram_ok [OF assms, of now src "ph_connection_id hdr"] by auto
  qed (metis prod.collapse)+
  then obtain ep' out where r: "rx_datagram env fresh now src d ep = Ok (ep', out)" using res by blast
  have old: "hot_inv (gc_hot c)" if "ep_store ep r = Some (c, chan)" for r c chan using assms(2) that by (auto simp: connections_ok_def)
  have "\<forall>r c chan. ep_store ep' r = Some (c, chan) \<longrightarrow> hot_inv (gc_hot c)"
    using res
  proof (cases rule: rx_datagram_cases)
    case (routed hdr k)
    then have "route_datagram env now src (ph_connection_id hdr) d ep = Ok ep'"
      using r res by (cases "route_datagram env now src (ph_connection_id hdr) d ep") auto
    then show ?thesis using route_datagram_ok [OF assms, of now src "ph_connection_id hdr"] by auto
  next
    case (fin hdr k cky pr n)
    then have "on_handshake_finish env now src (ph_connection_id hdr) cky pr ep = (ep', out)" using r res by simp
    then show ?thesis by (cases rule: handshake_finish_cases) (use old new_connection_inv in \<open>auto split: if_splits\<close>)
  next
    case (hello hdr k pk nonce ver n)
    then show ?thesis using on_client_hello_keeps r res old by (metis outcome.inject(1))
  next
    case (reply hdr k info assigned)
    then show ?thesis using on_server_answer_keeps(1) r res old by (metis outcome.inject(1))
  next
    case (confirm hdr k pr)
    then show ?thesis using on_server_answer_keeps(2) r res old by (metis outcome.inject(1))
  qed (use r res old in simp)
  with r show ?thesis by blast
qed

section \<open>Witnesses\<close>

text \<open>A server with two connections, and one that waits for the finish of a client at address 1.\<close>

definition sample_busy :: "(nat, nat, nat, nat \<times> received_message list) gtp_endpoint" where
  "sample_busy = sample_endpoint\<lparr> ep_store := [0 \<mapsto> (sample_conn, (1024, [])), 1 \<mapsto> (sample_conn, (1024, []))], ep_next_ref := 2,
     ep_connections := [77 \<mapsto> 0, 78 \<mapsto> 1] \<rparr>"

definition sample_waiting :: "(nat, nat, nat, nat \<times> received_message list) gtp_endpoint" where
  "sample_waiting = sample_endpoint\<lparr> ep_pending_server_handshakes :=
     [77 \<mapsto> new_pending (sample_pair 5) (ek_public_key (sample_pair 3)) (ek_nonce (sample_pair 3)) 1 100] \<rparr>"

abbreviation sample_hello :: bytes where
  "sample_hello \<equiv> handshake_bytes 77 0 (ClientHello (replicate 32 1) (replicate 32 2) PROTOCOL_VERSION)"

theorem datagram_isolation_witness:
  "\<exists>ep' out. rx_datagram sample_endpoint_env (sample_pair 5) 100 1 sample_hello sample_busy = Ok (ep', out) \<and> refs_wf ep' \<and>
     ep_store ep' 1 = Some (sample_conn, (1024, [])) \<and> ep_connections ep' 78 = Some 1 \<and> ep_connections ep' 77 \<in> {Some 0, None}"
proof -
  obtain ep' out where "on_client_hello sample_endpoint_env (sample_pair 5) 100 1 77 (replicate 32 1) (replicate 32 2) PROTOCOL_VERSION sample_busy = (ep', out)"
    by fastforce
  then have rx: "rx_datagram sample_endpoint_env (sample_pair 5) 100 1 sample_hello sample_busy = Ok (ep', out)" by (simp add: rx_handshake)
  have "refs_wf sample_busy" by (auto simp: refs_wf_def sample_busy_def)
  from datagram_isolation [OF this rx handshake_bytes_facts(3)] rx show ?thesis by (simp add: sample_busy_def)
qed

theorem accepted_client_is_proven_witness:
  "\<exists>d ep' out shared. rx_datagram sample_endpoint_env (sample_pair 5) 200 1 d sample_waiting = Ok (ep', out) \<and> ep_connections ep' 77 = Some 0 \<and>
     ep_store ep' 0 = Some (GtpConnection_new_with_directional_keys 77 1
       (agreed_keys sample_endpoint_env shared (ek_nonce (sample_pair 3)) (ek_nonce (sample_pair 5)) 77) False True competitive_fps, (1024, []))"
proof -
  let ?env = sample_endpoint_env
  obtain shared where sh: "server_shared_secret ?env None (sample_pair 5) (ek_public_key (sample_pair 3)) = Ok shared" using sample_secret by blast
  define p where "p = new_pending (sample_pair 5) (ek_public_key (sample_pair 3)) (ek_nonce (sample_pair 3)) (1 :: nat) 100"
  let ?cky = "issued_cookie ?env sample_waiting 1 100"
  let ?spf = "compute_client_proof (env_hkdf (ee_conn ?env)) (ee_hmac ?env) shared (pending_transcript p 77)"
  let ?d = "handshake_bytes 77 1 (HandshakeFinish ?cky ?spf)"
  have fields: "ep_pending_server_handshakes sample_waiting 77 = Some p" "ep_connections sample_waiting 77 = None" "ep_accepted_finishes sample_waiting 77 = None"
    "ep_static_identity sample_waiting = None" "ep_next_ref sample_waiting = 0" "ps_pair p = sample_pair 5" "ps_client_pk p = ek_public_key (sample_pair 3)"
    "ps_client_nonce p = ek_nonce (sample_pair 3)"
    by (simp_all add: sample_waiting_def sample_endpoint_def bind_inner_def p_def new_pending_def)
  have cookie: "verify_cookie (ee_hmac ?env) (ee_addr_text ?env) (ep_token_secret sample_waiting) 1 ?cky 200" by (rule cookie_fresh) simp_all
  obtain ep' out where fin: "on_handshake_finish ?env 200 1 77 ?cky ?spf sample_waiting = (ep', out)" "ep_connections ep' 77 = Some 0"
    using handshake_finish_step [OF sample_endpoint_env_ok(2) cookie _ fields(1) _ fields(2) refl, of shared] sh fields by (auto simp: map_retain_def)
  have "length ?cky = 32" "length ?spf = 32"
    using generate_cookie_length [OF sample_endpoint_env_ok(2)] sample_endpoint_env_ok(2) by (simp_all add: compute_client_proof_def sizes_ok_def)
  then have rx: "rx_datagram ?env (sample_pair 5) 200 1 ?d sample_waiting = Ok (ep', out)" using fin(1) by (simp add: rx_handshake)
  have "ee_channel ?env 1024 = (1024, [])" by (simp add: sample_endpoint_env_def)
  with accepted_client_is_proven [OF rx fields(2) fin(2)] fields rx fin(2) show ?thesis by auto
qed

theorem endpoint_survives_any_datagram_witness:
  "\<exists>ep' out. rx_datagram sample_endpoint_env (sample_pair 5) 100 1 [1, 2, 3] sample_busy = Ok (ep', out) \<and>
     (\<forall>r c chan. ep_store ep' r = Some (c, chan) \<longrightarrow> hot_inv (gc_hot c))"
proof (rule endpoint_survives_any_datagram)
  show "connections_ok (length [1 :: u8, 2, 3]) sample_busy"
    using sample_conn_inv by (auto simp: connections_ok_def sample_busy_def sample_endpoint_def bind_inner_def u64_max_def split: if_splits)
qed (simp add: sample_endpoint_env_def)

end
