(* ===== verification/Endpoint_Limits.thy ===== *)
theory Endpoint_Limits
  imports Endpoint_Laws
begin

text \<open>
  What the endpoint grants to addresses it has not verified, and where its handshake falls short of
  its comments: answers are at most twice the datagram that asked for them, the rate limiter admits
  no more than its cap per window, and three situations end with only one side believing in the session.
\<close>

section \<open>The size of handshake answers\<close>

text \<open>Key shares, nonces and proofs kept by an endpoint have their 32 bytes.\<close>

definition keys_sized :: "('sk, 'addr, 'ip, 'chan) gtp_endpoint \<Rightarrow> bool" where
  "keys_sized ep \<longleftrightarrow>
     (\<forall>cid p. ep_pending_server_handshakes ep cid = Some p \<longrightarrow> length (ek_public_key (ps_pair p)) = 32 \<and> length (ek_nonce (ps_pair p)) = 32) \<and>
     (\<forall>cid pr a t. ep_accepted_finishes ep cid = Some (pr, a, t) \<longrightarrow> length pr = 32)"

lemma keys_sizedD:
  "keys_sized ep \<Longrightarrow> ep_pending_server_handshakes ep cid = Some p \<Longrightarrow> length (ek_public_key (ps_pair p)) = 32 \<and> length (ek_nonce (ps_pair p)) = 32"
  "keys_sized ep \<Longrightarrow> ep_accepted_finishes ep cid = Some (pr, a, t) \<Longrightarrow> length pr = 32"
  unfolding keys_sized_def by blast+

lemma keys_sized_cong:
  "ep_pending_server_handshakes a = ep_pending_server_handshakes b \<Longrightarrow> ep_accepted_finishes a = ep_accepted_finishes b \<Longrightarrow> keys_sized a = keys_sized b"
  by (simp add: keys_sized_def)

lemma handshake_frame_sizes:
  "Frame_decode buf = Ok (ClientHello pk nonce ver, n) \<Longrightarrow> 69 \<le> length buf"
  "Frame_decode buf = Ok (HandshakeFinish cky pr, n) \<Longrightarrow> 65 \<le> length buf"
  by (auto simp: Frame_decode_def decode_defs obind_eq_Ok_conv Let_def split: if_splits dest!: read_OkD)

lemma long_packet_size:
  assumes "PacketHeader_decode d = Ok (hdr, k)" and "is_long_header (ph_flags hdr)"
  shows "length (drop k d) + 28 \<le> length d"
  using PacketHeader_decode_OkD(2,3) [OF assms(1)] assms(2) by (simp add: min_header_len_def MIN_LONG_HEADER_LEN_def)

lemma server_finish_sent:
  assumes "length pr = 32"
  shows "send_server_finish cid pr dest = [SendTo (handshake_bytes cid 0 (ServerFinish pr)) dest]"
    and "length (handshake_bytes cid 0 (ServerFinish pr)) = 61"
  using assms by (simp_all add: send_server_finish_def send_if_built_def long_datagram_eq handshake_bytes_facts Frame_bytes_def)

lemma hello_answer:
  assumes "sizes_ok env" and "keys_sized ep" and "length (ek_public_key fresh) = 32" and "length (ek_nonce fresh) = 32"
    and "on_client_hello env fresh now src cid pk nonce ver ep = (ep', out)"
  shows "keys_sized ep'" and "out = [] \<or> (\<exists>m. out = [SendTo m src] \<and> length m = 165)"
proof -
  obtain psh seen where e: "ep' = ep\<lparr> ep_hello_rate_limiter := seen, ep_pending_server_handshakes := psh \<rparr>"
    and psh: "\<forall>k p. psh k = Some p \<longrightarrow> ep_pending_server_handshakes ep k = Some p \<or> ps_pair p = fresh"
    and ans: "out = [] \<or> (\<exists>pair. (pair = fresh \<or> (\<exists>p. ep_pending_server_handshakes ep cid = Some p \<and> pair = ps_pair p)) \<and>
        out = send_if_built (server_hello_datagram cid (ServerHello (ek_public_key pair) (ek_nonce pair) (issued_cookie env ep src now) cid
          (advertised_static env ep))) src)"
    using on_client_hello_shape [of env fresh now src cid pk nonce ver ep] assms(5) by auto
  show "keys_sized ep'" using assms(2-4) psh unfolding e keys_sized_def by simp metis
  show "out = [] \<or> (\<exists>m. out = [SendTo m src] \<and> length m = 165)"
  proof (cases "out = []")
    case False
    then obtain pair where "pair = fresh \<or> (\<exists>p. ep_pending_server_handshakes ep cid = Some p \<and> pair = ps_pair p)"
      and o: "out = send_if_built (server_hello_datagram cid (ServerHello (ek_public_key pair) (ek_nonce pair) (issued_cookie env ep src now) cid
          (advertised_static env ep))) src" using ans by blast
    then have pl: "length (ek_public_key pair) = 32" "length (ek_nonce pair) = 32" using assms(3,4) keys_sizedD(1) [OF assms(2)] by auto
    let ?f = "ServerHello (ek_public_key pair) (ek_nonce pair) (issued_cookie env ep src now) cid (advertised_static env ep)"
    have "length (advertised_static env ep) = 32"
      using assms(1) by (simp add: static_identity_public_def sizes_ok_def split: option.split)
    then have "frame_wf ?f" "length (Frame_bytes ?f) = 137"
      using pl assms(1) by (simp_all add: generate_cookie_length Frame_bytes_def)
    moreover from this have "server_hello_datagram cid ?f = Ok (handshake_bytes cid 0 ?f)" by (intro server_hello_datagram_eq) simp_all
    ultimately show ?thesis by (simp add: o send_if_built_def handshake_bytes_facts)
  qed simp
qed

lemma finish_answer:
  assumes "sizes_ok env" and "keys_sized ep" and "on_handshake_finish env now src cid cky c_proof ep = (ep', out)"
  shows "keys_sized ep' \<and> (out = [] \<or> (\<exists>m dest. out = [SendTo m dest] \<and> length m = 61 \<and>
    (dest = src \<or> (\<exists>pr t. ep_accepted_finishes ep cid = Some (pr, dest, t)))))"
proof -
  let ?af = "map_retain (\<lambda>(_, _, t). duration_since now t \<le> HANDSHAKE_LIFETIME) (ep_accepted_finishes ep)"
  have af: "ep_accepted_finishes ep k = Some x" if "?af k = Some x" for k x
    using that by (auto simp: map_retain_def split: option.splits if_splits prod.splits)
  have sized: "keys_sized (ep\<lparr> ep_accepted_finishes := ?af \<rparr>)"
    "keys_sized (ep\<lparr> ep_accepted_finishes := ?af, ep_pending_server_handshakes := (ep_pending_server_handshakes ep)(cid := None) \<rparr>)"
    using assms(2) af unfolding keys_sized_def by (simp_all, blast+)
  let ?ep2 = "ep\<lparr> ep_accepted_finishes := ?af, ep_pending_server_handshakes := (ep_pending_server_handshakes ep)(cid := None) \<rparr>"
  have accepted: "keys_sized e \<and> (\<exists>m. o' = [SendTo m src] \<and> length m = 61)" if "accept_finish env now src cid p shared ?ep2 = (e, o')" for p shared e o'
  proof -
    let ?pr = "compute_server_proof (env_hkdf (ee_conn env)) (ee_hmac env) shared (pending_transcript p cid)"
    have len: "length ?pr = 32" using assms(1) by (simp add: compute_server_proof_def sizes_ok_def)
    with sized(2) have "keys_sized (?ep2\<lparr> ep_accepted_finishes := ?af(cid \<mapsto> (?pr, src, now)) \<rparr>)" by (auto simp: keys_sized_def)
    moreover have "ep_pending_server_handshakes e = ep_pending_server_handshakes ?ep2" "ep_accepted_finishes e = ?af(cid \<mapsto> (?pr, src, now))"
      using that by (auto simp: accept_finish_def register_connection_def Let_def split: if_splits)
    ultimately have "keys_sized e" by (subst keys_sized_cong) simp_all
    moreover have "o' = send_server_finish cid ?pr src" using that by (auto simp: accept_finish_def Let_def split: if_splits prod.splits)
    ultimately show ?thesis by (simp add: server_finish_sent [OF len])
  qed
  have cached: "\<exists>m. send_server_finish cid pr dest = [SendTo m dest] \<and> length m = 61 \<and> ep_accepted_finishes ep cid = Some (pr, dest, t)"
    if "?af cid = Some (pr, dest, t)" for pr dest t
    using af [OF that] by (simp add: server_finish_sent [OF keys_sizedD(2) [OF assms(2) af [OF that]]])
  show ?thesis
    using assms(2,3) sized unfolding on_handshake_finish_def Let_def
    by (auto split: if_splits option.splits outcome.splits prod.splits dest!: cached accepted)
qed

text \<open>
  C9: handshake answers do not amplify. Whatever bytes arrive from whatever address, the endpoint sends
  at most one datagram in answer, at most twice as long as the datagram that asked for it, and sends it
  to the address the datagram came from or to one whose client has been proven.
\<close>

theorem handshake_answers_bounded:
  assumes "sizes_ok env" and "keys_sized ep" and "length (ek_public_key fresh) = 32" and "length (ek_nonce fresh) = 32"
    and "rx_datagram env fresh now src d ep = Ok (ep', out)"
  shows "keys_sized ep' \<and> length out \<le> 1 \<and> (\<forall>m dest. SendTo m dest \<in> set out \<longrightarrow>
    length m \<le> 2 * length d \<and> (dest = src \<or> (\<exists>cid pr t. ep_accepted_finishes ep cid = Some (pr, dest, t))))"
  using assms(5)
proof (cases rule: rx_datagram_cases)
  case (hello hdr k pk nonce ver n)
  then have "97 \<le> length d" using long_packet_size handshake_frame_sizes(1) by fastforce
  moreover have "on_client_hello env fresh now src (ph_connection_id hdr) pk nonce ver ep = (ep', out)" using hello(4) by simp
  ultimately show ?thesis using hello_answer [OF assms(1-4)] by fastforce
next
  case (fin hdr k cky pr n)
  then have "93 \<le> length d" using long_packet_size handshake_frame_sizes(2) by fastforce
  moreover have "on_handshake_finish env now src (ph_connection_id hdr) cky pr ep = (ep', out)" using fin(4) by simp
  ultimately show ?thesis using finish_answer [OF assms(1,2)] by fastforce
next
  case (reply hdr k info assigned)
  then show ?thesis using assms(2) by (auto simp: on_server_hello_def keys_sized_def split: option.splits)
next
  case (confirm hdr k pr)
  then show ?thesis using assms(2) by (auto simp: on_server_finish_def keys_sized_def split: option.splits)
next
  case (routed hdr k)
  then have r: "route_datagram env now src (ph_connection_id hdr) d ep = Ok ep'" "out = []"
    by (cases "route_datagram env now src (ph_connection_id hdr) d ep"; simp)+
  then have "ep_pending_server_handshakes ep' = ep_pending_server_handshakes ep" "ep_accepted_finishes ep' = ep_accepted_finishes ep"
    by (auto simp: route_datagram_def Let_def split: option.splits prod.splits if_splits)
  then show ?thesis using assms(2) r(2) by (simp add: keys_sized_def)
qed (use assms(2) in simp)

section \<open>The rate limiter\<close>

text \<open>A run of hellos: which of those from one address are admitted.\<close>

fun admitted :: "('ip \<Rightarrow> bool) \<Rightarrow> duration \<Rightarrow> u32 \<Rightarrow> 'ip \<Rightarrow> ('ip \<times> monotonic_time) list \<Rightarrow> ('ip \<rightharpoonup> u32 \<times> monotonic_time) \<Rightarrow> nat" where
  "admitted is_loopback window cap ip [] seen = 0"
| "admitted is_loopback window cap ip ((who, now) # calls) seen =
     (let (seen', ok) = HelloRateLimiter_allow is_loopback who now window cap seen
      in (if who = ip \<and> ok then 1 else 0) + admitted is_loopback window cap ip calls seen')"

lemma admitted_counted:
  assumes "seen ip = Some (n, start)" and "unat n + length calls < 2 ^ 32" and "\<not> is_loopback ip"
    and "\<forall>(who, now) \<in> set calls. start \<le> now \<and> now - start < window"
  shows "admitted is_loopback window cap ip calls seen \<le> unat cap - unat n"
  using assms
proof (induction calls arbitrary: seen n)
  case (Cons call calls)
  obtain who now where call: "call = (who, now)" by (cases call)
  obtain seen' ok where step: "HelloRateLimiter_allow is_loopback who now window cap seen = (seen', ok)" by fastforce
  have young: "duration_since now start < window" using Cons.prems(4) by (simp add: call duration_since_def sat_sub_def)
  show ?case
  proof (cases "who = ip")
    case True
    have next_n: "unat (n + 1) = unat n + 1" using Cons.prems(2) by (simp add: unat_word_ariths)
    have s: "seen' ip = Some (n + 1, start)" "ok \<longleftrightarrow> n + 1 \<le> cap"
      using step young Cons.prems(1,3) by (auto simp: HelloRateLimiter_allow_def True map_retain_def)
    have "admitted is_loopback window cap ip calls seen' \<le> unat cap - unat (n + 1)"
      using Cons.prems(2-4) next_n by (intro Cons.IH [where seen = seen' and n = "n + 1"]) (auto simp: s(1))
    then show ?thesis using step True next_n s(2) by (auto simp: call word_le_nat_alt)
  next
    case False
    then have "seen' ip = Some (n, start)"
      using step young Cons.prems(1) by (auto simp: HelloRateLimiter_allow_def map_retain_def Let_def case_prod_beta split: if_splits)
    then have "admitted is_loopback window cap ip calls seen' \<le> unat cap - unat n"
      using Cons.prems(2-4) by (intro Cons.IH [where seen = seen' and n = n]) auto
    then show ?thesis using step False by (simp add: call)
  qed
qed simp

text \<open>
  The rate limit holds. Of the hellos of one address that is not the loopback, whatever other
  addresses send in between, no more than the cap is admitted in the window that its first hello
  opens; and after every hello the table holds only entries younger than the window, so it does not
  grow with addresses that have fallen silent.
\<close>

theorem hello_rate_bounded:
  assumes "\<not> is_loopback ip" and "seen ip = None" and "0 < window" and "length calls < 2 ^ 32 - 1"
    and "\<forall>(who, now) \<in> set calls. start \<le> now \<and> now - start < window"
  shows "admitted is_loopback window cap ip ((ip, start) # calls) seen \<le> unat cap \<and>
    (\<forall>who e. fst (HelloRateLimiter_allow is_loopback ip start window cap seen) who = Some e \<longrightarrow> duration_since start (snd e) < window)"
proof -
  let ?seen = "(map_retain (\<lambda>(_, t). duration_since start t < window) seen)(ip \<mapsto> (1, start))"
  have step: "HelloRateLimiter_allow is_loopback ip start window cap seen = (?seen, 1 \<le> cap)"
    using assms(1-3) by (simp add: HelloRateLimiter_allow_def map_retain_def duration_since_def sat_sub_def)
  have "admitted is_loopback window cap ip calls ?seen \<le> unat cap - unat (1 :: u32)"
    by (rule admitted_counted) (use assms in auto)
  moreover have "duration_since start (snd e) < window" if "?seen who = Some e" for who e
    using that assms(3) by (auto simp: map_retain_def duration_since_def sat_sub_def split: if_splits option.splits)
  ultimately show ?thesis by (auto simp: step word_le_nat_alt)
qed

section \<open>Handshakes that end one-sided\<close>

text \<open>A pending handshake whose key agreement succeeds, before its finish arrives.\<close>

definition awaiting_finish :: "('sk, 'addr, 'ip, 'chan) endpoint_env \<Rightarrow> connection_id \<Rightarrow> ('sk, 'addr) pending_server \<Rightarrow> bytes \<Rightarrow>
    ('sk, 'addr, 'ip, 'chan) gtp_endpoint \<Rightarrow> bool" where
  "awaiting_finish env cid p shared ep \<longleftrightarrow> ep_accepted_finishes ep cid = None \<and> ep_pending_server_handshakes ep cid = Some p \<and>
     server_shared_secret env (ep_static_identity ep) (ps_pair p) (ps_client_pk p) = Ok shared"

text \<open>
  C10: a server confirms sessions it does not accept. If a connection is already registered under the
  id, a client that completes the handshake for that id is sent the server's proof, on which it takes
  the session for established, and the connection made for it is dropped: the routing table, the
  connections and the queue of \<^verbatim>\<open>accept\<close> stay as they were.
\<close>

theorem confirmed_without_acceptance:
  assumes "sizes_ok env" and "awaiting_finish env cid p shared ep" and "ep_connections ep cid = Some r"
    and "verify_cookie (ee_hmac env) (ee_addr_text env) (ep_token_secret ep) src cky now"
    and "c_proof = compute_client_proof (env_hkdf (ee_conn env)) (ee_hmac env) shared (pending_transcript p cid)"
  shows "\<exists>ep' s_proof. on_handshake_finish env now src cid cky c_proof ep = (ep', [SendTo (handshake_bytes cid 0 (ServerFinish s_proof)) src]) \<and>
    verify_server_proof (env_hkdf (ee_conn env)) (ee_hmac env) shared (pending_transcript p cid) s_proof \<and>
    ep_store ep' = ep_store ep \<and> ep_connections ep' = ep_connections ep \<and> ep_incoming ep' = ep_incoming ep"
proof -
  let ?pr = "compute_server_proof (env_hkdf (ee_conn env)) (ee_hmac env) shared (pending_transcript p cid)"
  have len: "length ?pr = 32" using assms(1) by (simp add: compute_server_proof_def sizes_ok_def)
  show ?thesis
    using assms(2-4)
    by (simp add: assms(5) awaiting_finish_def on_handshake_finish_def accept_finish_def verify_client_proof_def verify_server_proof_def map_retain_def
        server_finish_sent [OF len] Let_def)
qed

text \<open>
  C11: anyone with a cookie can cancel a pending handshake. The cookie of a finish is checked against
  the address the finish comes from, not against the handshake it names, and the pending handshake is
  taken out before the proof is checked: a finish from an attacker's own address, with the cookie of
  the attacker's own hello and a wrong proof, removes the handshake of another client, whose genuine
  finish is then ignored.
\<close>

theorem bogus_finish_cancels_handshake:
  assumes "awaiting_finish env cid p shared ep"
    and "verify_cookie (ee_hmac env) (ee_addr_text env) (ep_token_secret ep) attacker cky now"
    and "bogus \<noteq> compute_client_proof (env_hkdf (ee_conn env)) (ee_hmac env) shared (pending_transcript p cid)"
  shows "\<exists>ep1. on_handshake_finish env now attacker cid cky bogus ep = (ep1, []) \<and> ep_pending_server_handshakes ep1 cid = None \<and>
    (\<forall>later client ck pr. snd (on_handshake_finish env later client cid ck pr ep1) = [] \<and>
       ep_connections (fst (on_handshake_finish env later client cid ck pr ep1)) = ep_connections ep)"
  using assms by (auto simp: awaiting_finish_def on_handshake_finish_def verify_client_proof_def map_retain_def Let_def)

text \<open>
  A failed \<^verbatim>\<open>connect\<close> leaves its connection behind. The connection is registered when the finish is
  sent; when the confirmation never comes or does not verify, \<^verbatim>\<open>connect\<close> returns an error and the
  connection stays in the routing table, established, with a transmit task of its own and no handle
  to close it.
\<close>

theorem failed_connect_keeps_connection:
  assumes "connect_hello env info cn ep = (ep1, out1, Ok (AwaitFinish cf))"
    and "connect_wait_finish env ev (cf\<lparr> cf_rounds := rounds \<rparr>) ep1 = (ep2, out2, Err e)"
  shows "ep_connections ep2 (cn_cid cn) = Some (cf_conn cf) \<and>
    (\<exists>c chan. ep_store ep2 (cf_conn cf) = Some (c, chan) \<and> ch_state (gc_hot c) = Established)"
proof -
  have est: "ch_state (gc_hot (GtpConnection_new_with_directional_keys cid a keys True True cfg)) = Established" for cid keys cfg and a :: 'b
    using new_connection_paired [of cid a keys cfg a] by (simp add: session_paired_def)
  have "ep_connections ep1 (cn_cid cn) = Some (cf_conn cf)" "\<exists>c chan. ep_store ep1 (cf_conn cf) = Some (c, chan) \<and> ch_state (gc_hot c) = Established"
    using assms(1) by (auto simp: connect_hello_def register_connection_def Let_def est split: outcome.splits)
  moreover have "ep_store ep2 = ep_store ep1" "ep_connections ep2 = ep_connections ep1"
    using assms(2) by (auto simp: connect_wait_finish_def drop_finish_waiter_def Let_def split: wait.splits if_splits)
  ultimately show ?thesis by simp
qed

section \<open>Witnesses\<close>

theorem handshake_answers_bounded_witness:
  "\<exists>ep' out. rx_datagram sample_endpoint_env (sample_pair 5) 100 1 sample_hello sample_busy = Ok (ep', out) \<and> length out \<le> 1 \<and>
     (\<forall>m dest. SendTo m dest \<in> set out \<longrightarrow> length m \<le> 2 * length sample_hello \<and> dest = 1)"
proof -
  obtain ep' out where "on_client_hello sample_endpoint_env (sample_pair 5) 100 1 77 (replicate 32 1) (replicate 32 2) PROTOCOL_VERSION sample_busy = (ep', out)"
    by fastforce
  then have rx: "rx_datagram sample_endpoint_env (sample_pair 5) 100 1 sample_hello sample_busy = Ok (ep', out)" by (simp add: rx_handshake)
  have "keys_sized sample_busy" "ep_accepted_finishes sample_busy = Map.empty"
    by (simp_all add: keys_sized_def sample_busy_def sample_endpoint_def bind_inner_def)
  moreover have "length (ek_public_key (sample_pair 5)) = 32" "length (ek_nonce (sample_pair 5)) = 32"
    using sample_endpoint_env_ok(2) by (simp_all add: EphemeralKeyPair_generate_def sizes_ok_def)
  ultimately show ?thesis using handshake_answers_bounded [OF sample_endpoint_env_ok(2) _ _ _ rx] rx by auto
qed

theorem hello_rate_bounded_witness:
  "admitted (\<lambda>_. False) 1000000 2 (7 :: nat) [(7, 0), (7, 10), (8, 20), (7, 30)] Map.empty \<le> 2"
  using hello_rate_bounded [of "\<lambda>_. False" "7 :: nat" Map.empty 1000000 "[(7, 10), (8, 20), (7, 30)]" 0 2] by simp

lemma sample_waiting_facts:
  obtains p shared where "awaiting_finish sample_endpoint_env 77 p shared sample_waiting"
    and "awaiting_finish sample_endpoint_env 77 p shared (sample_waiting\<lparr> ep_connections := [77 \<mapsto> 0] \<rparr>)"
proof -
  obtain shared where "server_shared_secret sample_endpoint_env None (sample_pair 5) (ek_public_key (sample_pair 3)) = Ok shared"
    using sample_secret by blast
  then show thesis
    by (intro that) (auto simp: awaiting_finish_def sample_waiting_def sample_endpoint_def bind_inner_def new_pending_def)
qed

theorem confirmed_without_acceptance_witness:
  "\<exists>cky c_proof ep' s_proof. on_handshake_finish sample_endpoint_env 200 1 77 cky c_proof (sample_waiting\<lparr> ep_connections := [77 \<mapsto> 0] \<rparr>) =
      (ep', [SendTo (handshake_bytes 77 0 (ServerFinish s_proof)) 1]) \<and> ep_connections ep' = [77 \<mapsto> 0] \<and> ep_incoming ep' = []"
proof -
  let ?ep = "sample_waiting\<lparr> ep_connections := [77 \<mapsto> 0] \<rparr>"
  obtain p shared where w: "awaiting_finish sample_endpoint_env 77 p shared ?ep" by (rule sample_waiting_facts)
  have "verify_cookie (ee_hmac sample_endpoint_env) (ee_addr_text sample_endpoint_env) (ep_token_secret ?ep) 1 (issued_cookie sample_endpoint_env ?ep 1 100) 200"
    by (rule cookie_fresh) simp_all
  from confirmed_without_acceptance [OF sample_endpoint_env_ok(2) w _ this refl] show ?thesis
    by (fastforce simp: sample_waiting_def sample_endpoint_def bind_inner_def)
qed

theorem bogus_finish_cancels_handshake_witness:
  "\<exists>cky bogus ep1. on_handshake_finish sample_endpoint_env 200 9 77 cky bogus sample_waiting = (ep1, []) \<and> ep_pending_server_handshakes ep1 77 = None"
proof -
  obtain p shared where w: "awaiting_finish sample_endpoint_env 77 p shared sample_waiting" by (rule sample_waiting_facts)
  have cky: "verify_cookie (ee_hmac sample_endpoint_env) (ee_addr_text sample_endpoint_env) (ep_token_secret sample_waiting) 9
      (issued_cookie sample_endpoint_env sample_waiting 9 100) 200" by (rule cookie_fresh) simp_all
  have "[] \<noteq> compute_client_proof (env_hkdf (ee_conn sample_endpoint_env)) (ee_hmac sample_endpoint_env) shared (pending_transcript p 77)"
    using sample_endpoint_env_ok(2) by (metis compute_client_proof_def sizes_ok_def list.size(3) zero_neq_numeral)
  from bogus_finish_cancels_handshake [OF w cky this] show ?thesis by blast
qed

definition sample_connecting :: "(nat, nat) connecting" where
  "sample_connecting = \<lparr> cn_cid = 77, cn_peer = 2, cn_pair = sample_pair 3, cn_waiter = 0, cn_hello = [], cn_attempts = 0 \<rparr>"

definition sample_info :: server_hello_info where
  "sample_info = \<lparr> sh_server_pk = ek_public_key (sample_pair 5), sh_server_nonce = replicate 32 5, sh_stateless_cookie = replicate 32 0,
     sh_server_static_pk = replicate 32 0 \<rparr>"

theorem failed_connect_keeps_connection_witness:
  "\<exists>ep1 out1 cf ep2 out2. connect_hello sample_endpoint_env sample_info sample_connecting sample_endpoint = (ep1, out1, Ok (AwaitFinish cf)) \<and>
     connect_wait_finish sample_endpoint_env Elapsed (cf\<lparr> cf_rounds := 7 \<rparr>) ep1 = (ep2, out2, Err HandshakeTimeout) \<and>
     ep_connections ep2 77 = Some (cf_conn cf)"
proof -
  have ok: "x25519_ok (ee_x25519 sample_endpoint_env)" by (rule sample_endpoint_env_ok)
  obtain shared where "server_shared_secret sample_endpoint_env None (sample_pair 5) (ek_public_key (sample_pair 3)) = Ok shared"
    using sample_secret by blast
  from agreement [OF ok refl refl _ this]
  have "client_shared_secret sample_endpoint_env (ep_trusted_server_static sample_endpoint) (cn_pair sample_connecting) sample_info = Ok shared"
    by (simp add: sample_info_def sample_connecting_def sample_endpoint_def bind_inner_def)
  from connect_hello_step [OF this sample_endpoint_env_ok(2)] obtain ep1 out1 cf
    where c: "connect_hello sample_endpoint_env sample_info sample_connecting sample_endpoint = (ep1, out1, Ok (AwaitFinish cf))"
    by (auto simp: sample_info_def connect_wait_hello_def)
  moreover obtain ep2 out2 where f: "connect_wait_finish sample_endpoint_env Elapsed (cf\<lparr> cf_rounds := 7 \<rparr>) ep1 = (ep2, out2, Err HandshakeTimeout)"
    by (simp add: connect_wait_finish_def)
  ultimately show ?thesis using failed_connect_keeps_connection [OF c f] by (auto simp: sample_connecting_def)
qed

end
