(* ===== verification/Async_Connection.thy ===== *)
theory Async_Connection
  imports Endpoint_Limits
begin

text \<open>
  The handle of a connection (\<^verbatim>\<open>gtp-runtime-tokio/src/async_connection.rs\<close>) and the transmit task of
  \<^verbatim>\<open>endpoint.rs\<close>. A call on the handle takes the lock of the connection, acts, and for most sends leaves
  a permit in the notification the transmit task waits on; a permit is a flag, since at most one is
  stored. A turn of the transmit task is what it does between two waits.
\<close>

section \<open>The handle\<close>

record 'addr async_connection =
  ac_cid :: connection_id
  ac_conn :: "'addr gtp_connection"
  ac_tx_wake :: bool

definition AsyncGtpConnection_new :: "'addr gtp_connection \<Rightarrow> 'addr async_connection" where
  "AsyncGtpConnection_new c = \<lparr> ac_cid = ch_connection_id (gc_hot c), ac_conn = c, ac_tx_wake = False \<rparr>"

text \<open>A call under the lock, and one that wakes the transmit task afterwards.\<close>

definition locked :: "('addr gtp_connection \<Rightarrow> 'addr gtp_connection \<times> 'r) \<Rightarrow> 'addr async_connection \<Rightarrow> 'addr async_connection \<times> 'r" where
  "locked f a = (let (c, r) = f (ac_conn a) in (a\<lparr> ac_conn := c \<rparr>, r))"

definition locked_wake :: "('addr gtp_connection \<Rightarrow> 'addr gtp_connection \<times> 'r) \<Rightarrow> 'addr async_connection \<Rightarrow> 'addr async_connection \<times> 'r" where
  "locked_wake f a = (let (b, r) = locked f a in (b\<lparr> ac_tx_wake := True \<rparr>, r))"

definition async_peer_addr :: "'addr async_connection \<Rightarrow> 'addr" where
  "async_peer_addr a = ch_active_path (gc_hot (ac_conn a))"

definition async_send_unreliable :: "bytes \<Rightarrow> priority_tier \<Rightarrow> monotonic_time \<Rightarrow> 'addr async_connection \<Rightarrow> 'addr async_connection \<times> message_id result" where
  "async_send_unreliable payload priority now = locked_wake (send_unreliable payload priority None now)"

definition async_send_sequenced :: "state_key \<Rightarrow> state_sequence \<Rightarrow> generation_id \<Rightarrow> bytes \<Rightarrow> monotonic_time \<Rightarrow>
    'addr async_connection \<Rightarrow> 'addr async_connection \<times> message_id result" where
  "async_send_sequenced key sequence gen payload now = locked (send_sequenced key sequence gen None payload now)"

definition async_send_reliable_unordered :: "bytes \<Rightarrow> priority_tier \<Rightarrow> monotonic_time \<Rightarrow> 'addr async_connection \<Rightarrow> 'addr async_connection \<times> message_id result" where
  "async_send_reliable_unordered payload priority now = locked_wake (send_reliable_unordered payload priority None now)"

definition async_send_reliable_ordered :: "ordered_group_id \<Rightarrow> bytes \<Rightarrow> priority_tier \<Rightarrow> monotonic_time \<Rightarrow>
    'addr async_connection \<Rightarrow> 'addr async_connection \<times> message_id result" where
  "async_send_reliable_ordered grp payload priority now = locked_wake (send_reliable_ordered grp payload priority None now)"

definition async_feedback :: "monotonic_time \<Rightarrow> 'addr async_connection \<Rightarrow> network_feedback" where
  "async_feedback now a = feedback now (ac_conn a)"

definition async_set_ack_frequency :: "u8 \<Rightarrow> u16 \<Rightarrow> u8 \<Rightarrow> 'addr async_connection \<Rightarrow> 'addr async_connection \<times> unit result" where
  "async_set_ack_frequency packets delay_ms threshold = locked (set_ack_frequency packets delay_ms threshold)"

definition async_trigger_path_challenge :: "'addr \<Rightarrow> bytes \<Rightarrow> monotonic_time \<Rightarrow> 'addr async_connection \<Rightarrow> 'addr async_connection \<times> unit result" where
  "async_trigger_path_challenge new_addr nonce now = locked (trigger_path_challenge new_addr nonce now)"

definition async_send_ping :: "u64 \<Rightarrow> 'addr async_connection \<Rightarrow> 'addr async_connection \<times> unit result" where
  "async_send_ping nonce = locked (send_ping nonce)"

definition async_query_metrics :: "monotonic_time \<Rightarrow> 'addr async_connection \<Rightarrow> detailed_metrics" where
  "async_query_metrics now a = query_metrics now (ac_conn a)"

definition async_graceful_close :: "u16 \<Rightarrow> bytes \<Rightarrow> 'addr async_connection \<Rightarrow> 'addr async_connection \<times> unit result" where
  "async_graceful_close code why = locked_wake (graceful_close code why)"

definition async_ratchet_key :: "conn_env \<Rightarrow> 'addr async_connection \<Rightarrow> 'addr async_connection" where
  "async_ratchet_key env a = a\<lparr> ac_conn := handle_ratchet_key env (ac_conn a) \<rparr>"

definition async_drain_events :: "'addr async_connection \<Rightarrow> 'addr async_connection \<times> 'addr control_event list" where
  "async_drain_events = locked drain_events"

section \<open>The transmit task\<close>

text \<open>The wait before a turn in microseconds: no longer than the period, none at all with a permit.\<close>

definition tx_period :: "nat \<Rightarrow> nat" where
  "tx_period idle_rounds = (if 8 \<le> idle_rounds then 2000 else 500)"

definition tx_wait :: "nat \<Rightarrow> bool \<Rightarrow> nat" where
  "tx_wait idle_rounds wake = (if wake then 0 else tx_period idle_rounds)"

datatype 'addr tx_step = Ended | Crashed | Turned "'addr gtp_connection" bytes "(bytes \<times> 'addr) list" nat

text \<open>A turn; \<^const>\<open>None\<close> if its loop does not end.\<close>

definition tx_turn :: "conn_env \<Rightarrow> monotonic_time \<Rightarrow> nat \<Rightarrow> bytes \<Rightarrow> 'addr gtp_connection \<Rightarrow> 'addr tx_step option" where
  "tx_turn env now idle_rounds out_buf c =
     (if is_closed (ch_state (gc_hot c)) then Some Ended
      else case tx_drain env now out_buf c of
             None \<Rightarrow> None
           | Some (c', buf, sends, r) \<Rightarrow>
               if r = Panic then Some Crashed
               else Some (Turned c' buf sends (if sends = [] then min (idle_rounds + 1) 0xFFFFFFFF else 0)))"

section \<open>Closing\<close>

text \<open>What a connection that is shutting down keeps from call to call.\<close>

definition closing :: "conn_env \<Rightarrow> nat \<Rightarrow> nat \<Rightarrow> 'addr connection_hot \<Rightarrow> bool" where
  "closing env n k h \<longleftrightarrow> tx_inv h \<and> ch_state h = Draining \<and> sealable env h \<and> aa_validated (ch_anti_amplification h) \<and> \<not> ch_pending_ratchet h \<and>
     322 + frames_size (map build_control_frame (ch_control_queue h)) \<le> n \<and> unat (ch_next_packet_number h) + k < 2 ^ 64 \<and>
     inflight_scan (ch_loss_detector h) + k * n \<le> u64_max"

lemma closing_mono:
  assumes "closing env n k h" and "j \<le> k"
  shows "closing env n j h"
proof -
  have "inflight_scan (ch_loss_detector h) + j * n \<le> inflight_scan (ch_loss_detector h) + k * n" using assms(2) mult_le_mono1 by simp
  also have "\<dots> \<le> u64_max" using assms(1) by (simp add: closing_def)
  finally show ?thesis using assms by (simp add: closing_def)
qed

lemma closing_call:
  fixes c :: "'addr gtp_connection"
  assumes "aead_ok (env_cipher env)" and "closing env (length out_buf) (Suc k) (gc_hot c)" and "ch_control_queue (gc_hot c) \<noteq> []" and "length out_buf \<le> 65535"
  obtains c' buf dest len ds where "produce_outgoing_datagram env now out_buf c = (c', buf, Ok (Some (dest, len)))"
    and "closing env (length out_buf) k (gc_hot c')" and "length buf = length out_buf" and "ds \<noteq> []"
    and "ch_control_queue (gc_hot c) = ds @ ch_control_queue (gc_hot c')"
proof -
  have cl: "tx_inv (gc_hot c)" "ch_state (gc_hot c) \<noteq> Closed" "ch_state (gc_hot c) \<noteq> Established" "sealable env (gc_hot c)"
    "aa_validated (ch_anti_amplification (gc_hot c))" "322 + frames_size (map build_control_frame (ch_control_queue (gc_hot c))) \<le> length out_buf"
    using assms(2) by (auto simp: closing_def)
  obtain c' buf dest len and c2 :: "'addr gtp_connection" and p acks ctl where
    run: "produce_outgoing_datagram env now out_buf c = (c', buf, Ok (Some (dest, len)))"
    and a: "assembled now (tx_header now (gc_hot c2)) (length out_buf) (gc_hot (prepared now c)) acks p (gc_hot c2)"
    and rep: "repathed ((sent_hot env now len p (gc_hot c2))\<lparr> ch_route_controller := ctl \<rparr>) (gc_hot c')"
    and lens: "length buf = length out_buf" "len \<le> length out_buf" and ds: "tp_drained_controls p \<noteq> []"
      "ch_control_queue (gc_hot c) = tp_drained_controls p @ ch_control_queue (gc_hot c')"
    by (rule control_call [OF assms(1) cl(1,2) assms(3) cl(4-6) assms(4) disjI1 [OF cl(3)]])
  obtain rest s where h2: "gc_hot c2 = (gc_hot (prepared now c))\<lparr> ch_control_queue := rest, ch_scheduler := s \<rparr>"
    using a unfolding assembled_def by blast
  obtain ld cc s0 pv pe where h1: "gc_hot (prepared now c) = (gc_hot c)\<lparr> ch_loss_detector := ld, ch_cc := cc, ch_scheduler := s0, ch_path_validator := pv, ch_pacing := pe \<rparr>"
    and prep: "tx_inv (gc_hot (prepared now c))" "inflight_scan ld \<le> inflight_scan (ch_loss_detector (gc_hot c))"
    using tx_prepared [OF cl(1) refl, of now] by auto
  have pn: "ch_next_packet_number (gc_hot c) \<noteq> - 1" and room: "inflight_scan ld + len \<le> u64_max"
    using assms(2) prep(2) lens(2) by (auto simp: closing_def unsigned_minus_1_eq_mask mask_eq_exp_minus_1)
  have inv: "tx_inv (record_sent now len p (gc_hot c2))" using room pn by (intro record_sent_inv [OF prep(1) a]) (simp_all add: h1)
  have sent: "sent_hot env now len p (gc_hot c2) = record_sent now len p (gc_hot c2)"
    using assms(2) by (simp add: sent_hot_def flush_pending_ratchet_def record_sent_def h1 h2 closing_def)
  obtain addr where h': "gc_hot c' = (record_sent now len p (gc_hot c2))\<lparr> ch_route_controller := ctl, ch_active_path := addr \<rparr>"
    using rep by (auto simp: repathed_def sent)
  have inv': "tx_inv (gc_hot c')" using inv hot_inv_repathed(2) [OF rep] by (simp add: sent tx_inv_updates)
  have "inflight_scan (ch_loss_detector (gc_hot c')) \<le> inflight_scan ld + len"
  proof -
    have "ch_loss_detector (gc_hot c') = LossDetector_on_packet_sent (sent_record now len (ch_next_packet_number (gc_hot c)) p) ld"
      by (simp add: h' h1 h2 record_sent_def)
    then have "ld_inflight_bytes (ch_loss_detector (gc_hot c')) \<le> ld_inflight_bytes ld + len"
      by (simp add: on_packet_sent_sent sent_record_def sat_add64_def)
    moreover have "ld_wf (ch_loss_detector (gc_hot c'))" "ld_wf ld" using inv' prep(1) by (simp_all add: tx_inv_def hot_inv_def h1)
    ultimately show ?thesis by (simp add: ld_wf_def)
  qed
  then have flight: "inflight_scan (ch_loss_detector (gc_hot c')) + k * length out_buf \<le> u64_max"
    using assms(2) prep(2) lens(2) by (simp add: closing_def)
  have "ch_next_packet_number (gc_hot c') = ch_next_packet_number (gc_hot c) + 1" by (simp add: h' h1 h2 record_sent_def PacketNumber_next_def)
  then have "unat (ch_next_packet_number (gc_hot c')) = Suc (unat (ch_next_packet_number (gc_hot c)))"
    using pn by (metis add.commute eq_neg_iff_add_eq_0 unatSuc)
  moreover have "sealable env (gc_hot c')" using cl(4) sealable_cong [of "gc_hot c'" "gc_hot c" env] by (simp add: h' h1 h2 record_sent_def)
  moreover have "frames_size (map build_control_frame (ch_control_queue (gc_hot c'))) \<le> frames_size (map build_control_frame (ch_control_queue (gc_hot c)))"
    using ds(2) by simp
  ultimately have "closing env (length out_buf) k (gc_hot c')"
    using assms(2) inv' flight by (auto simp: closing_def h' h1 h2 record_sent_def on_bytes_sent_def)
  then show thesis using that run lens(1) ds by blast
qed

text \<open>The drain of a connection that is shutting down ends, in the closed state.\<close>

lemma closing_drain:
  fixes c :: "'addr gtp_connection"
  assumes "aead_ok (env_cipher env)" and "closing env (length out_buf) (length (ch_control_queue (gc_hot c))) (gc_hot c)" and "length out_buf \<le> 65535"
  shows "\<exists>c' buf sends. tx_drain env now out_buf c = Some (c', buf, sends, Ok None) \<and> ch_state (gc_hot c') = Closed \<and> length buf = length out_buf \<and>
    (ch_control_queue (gc_hot c) \<noteq> [] \<longrightarrow> sends \<noteq> []) \<and> length sends \<le> length (ch_control_queue (gc_hot c))"
  using assms(2,3)
proof (induction "length (ch_control_queue (gc_hot c))" arbitrary: c out_buf rule: less_induct)
  case less
  show ?case
  proof (cases "ch_control_queue (gc_hot c) = []")
    case True
    have dr: "ch_state (gc_hot c) = Draining" using less.prems(1) by (simp add: closing_def)
    then have "\<exists>c'. produce_outgoing_datagram env now out_buf c = (c', out_buf, Ok None) \<and> ch_state (gc_hot c') = Closed"
      using True by (simp add: produce_outgoing_datagram_def transition_to_def)
    then show ?thesis using True by (auto simp: tx_drain.simps)
  next
    case False
    obtain k where k: "length (ch_control_queue (gc_hot c)) = Suc k" using False by (cases "ch_control_queue (gc_hot c)") auto
    obtain c1 buf dest len ds where call: "produce_outgoing_datagram env now out_buf c = (c1, buf, Ok (Some (dest, len)))"
      "closing env (length out_buf) k (gc_hot c1)" "length buf = length out_buf" "ds \<noteq> []"
      "ch_control_queue (gc_hot c) = ds @ ch_control_queue (gc_hot c1)"
      using closing_call [OF assms(1) less.prems(1) [unfolded k] False less.prems(2)] by blast
    have shorter: "length (ch_control_queue (gc_hot c1)) < length (ch_control_queue (gc_hot c))" using call(4,5) by simp
    then have "closing env (length buf) (length (ch_control_queue (gc_hot c1))) (gc_hot c1)"
      using closing_mono [OF call(2)] call(3) k by simp
    from less.hyps [OF shorter this] less.prems(2) call(3) obtain c2 buf2 sends where
      "tx_drain env now buf c1 = Some (c2, buf2, sends, Ok None)" "ch_state (gc_hot c2) = Closed" "length buf2 = length buf" "length sends \<le> length (ch_control_queue (gc_hot c1))"
      by auto
    then have "tx_drain env now out_buf c = Some (c2, buf2, (take len buf, dest) # sends, Ok None)" by (subst tx_drain.simps) (simp add: call(1))
    then show ?thesis using \<open>ch_state (gc_hot c2) = Closed\<close> \<open>length buf2 = _\<close> call(3) \<open>length sends \<le> _\<close> shorter by auto
  qed
qed

text \<open>
  C8: a close reaches the wire and the transmit task ends. On an established connection with a validated
  path, a working cipher and no pending key ratchet, when the queued control frames, the close frame and
  an acknowledgement fit the output buffer and neither the packet numbers nor the in-flight counter run
  out meanwhile, \<^verbatim>\<open>graceful_close\<close> wakes the
  transmit task; its next turn ends, has sent at least one datagram and no more than there were control
  frames, and leaves the connection closed, so the turn after it ends the task.
\<close>

theorem close_completes:
  fixes a :: "'addr async_connection"
  defines "h \<equiv> gc_hot (ac_conn a)"
  assumes "aead_ok (env_cipher env)" and "tx_inv h" and "ch_state h = Established" and "sealable env h" and "aa_validated (ch_anti_amplification h)"
    and "\<not> ch_pending_ratchet h" and "control_ok (OutClose code why :: 'addr outgoing_control_frame)"
    and "322 + frames_size (map build_control_frame (ch_control_queue h @ [OutClose code why])) \<le> length out_buf" and "length out_buf \<le> 65535"
    and "unat (ch_next_packet_number h) + Suc (length (ch_control_queue h)) < 2 ^ 64"
    and "inflight_scan (ch_loss_detector h) + Suc (length (ch_control_queue h)) * length out_buf \<le> u64_max"
    and "async_graceful_close code why a = (a', r)"
  shows "r = Ok () \<and> ac_tx_wake a' \<and> (\<exists>c' buf sends. tx_turn env now idle out_buf (ac_conn a') = Some (Turned c' buf sends 0) \<and>
    sends \<noteq> [] \<and> length sends \<le> Suc (length (ch_control_queue h)) \<and> tx_turn env later 0 buf c' = Some Ended)"
proof -
  obtain c' where c': "graceful_close code why (ac_conn a) = (c', Ok ())" "gc_hot c' = h\<lparr> ch_control_queue := ch_control_queue h @ [OutClose code why], ch_state := Draining \<rparr>"
    using assms(4) by (simp add: graceful_close_def change_state_def queue_control_def transition_to_def h_def)
  then have a': "ac_conn a' = c'" "ac_tx_wake a'" "r = Ok ()" using assms(13) by (auto simp: async_graceful_close_def locked_wake_def locked_def)
  have "tx_inv (gc_hot c')" using assms(3,8) by (simp add: c'(2) tx_inv_def hot_inv_simps)
  moreover have "sealable env (gc_hot c')" using assms(5) sealable_cong [of "gc_hot c'" h env] by (simp add: c'(2))
  ultimately have cl: "closing env (length out_buf) (length (ch_control_queue (gc_hot c'))) (gc_hot c')"
    using assms(6,7,9,11,12) by (simp add: closing_def c'(2))
  obtain c2 buf sends where dr: "tx_drain env now out_buf c' = Some (c2, buf, sends, Ok None)" "ch_state (gc_hot c2) = Closed" "sends \<noteq> []"
    "length sends \<le> Suc (length (ch_control_queue h))"
    using closing_drain [OF assms(2) cl assms(10), of now] by (auto simp: c'(2))
  then show ?thesis using a' by (auto simp: tx_turn_def is_closed_def c'(2))
qed

text \<open>
  A sequenced update does not wake the transmit task. Every other send leaves a permit, whatever
  its outcome, so the task runs at once; \<^verbatim>\<open>send_sequenced\<close> leaves the permit as it was, and an update that
  is queued while the task sleeps after eight idle rounds waits for the poll of two milliseconds.
\<close>

theorem sequenced_send_waits_for_poll:
  fixes a :: "'addr async_connection"
  assumes "\<not> ac_tx_wake a" and "8 \<le> idle"
  shows "tx_wait idle (ac_tx_wake (fst (async_send_unreliable payload priority now a))) = 0 \<and>
    tx_wait idle (ac_tx_wake (fst (async_send_reliable_unordered payload priority now a))) = 0 \<and>
    tx_wait idle (ac_tx_wake (fst (async_send_reliable_ordered grp payload priority now a))) = 0 \<and>
    tx_wait idle (ac_tx_wake (fst (async_send_sequenced key sequence gen payload now a))) = 2000"
  using assms
  by (simp add: tx_wait_def tx_period_def async_send_unreliable_def async_send_reliable_unordered_def async_send_reliable_ordered_def
      async_send_sequenced_def locked_wake_def locked_def case_prod_beta)

section \<open>Witnesses\<close>

theorem close_completes_witness:
  "\<exists>c' buf sends. tx_turn sample_env 5 3 (replicate 1500 0) (ac_conn (fst (async_graceful_close 7 [] (AsyncGtpConnection_new sample_conn)))) =
      Some (Turned c' buf sends 0) \<and> length sends = 1 \<and> tx_turn sample_env 9 0 buf c' = Some Ended"
proof -
  let ?a = "AsyncGtpConnection_new sample_conn"
  obtain a' r where cl: "async_graceful_close 7 [] ?a = (a', r)" by fastforce
  have hot: "gc_hot (ac_conn ?a) = sample_hot" by (simp add: AsyncGtpConnection_new_def)
  have ok: "control_ok (OutClose 7 [] :: nat outgoing_control_frame)" by (simp add: control_ok_def frame_ok_def)
  have "sealable sample_env sample_hot" "\<not> ch_pending_ratchet sample_hot"
    by (simp_all add: sample_hot_def hot_build_def build_with_config_def Let_def sealable_def new_for_cid_def sample_env_def test_cipher_def)
  then obtain c' buf sends where "tx_turn sample_env 5 3 (replicate 1500 0) (ac_conn a') = Some (Turned c' buf sends 0)"
      "sends \<noteq> []" "length sends \<le> 1" "tx_turn sample_env 9 0 buf c' = Some Ended"
    using close_completes [of sample_env ?a 7 "[]" "replicate 1500 0" a' r 5 3 9] sample_tx_inv(1) ok cl
    by (auto simp: hot sample_idle Frame_bytes_def close_reason_def u64_max_def)
  moreover from this have "length sends = 1" by (cases sends) auto
  ultimately show ?thesis by (simp add: cl)
qed

theorem sequenced_send_waits_for_poll_witness:
  "tx_wait 8 (ac_tx_wake (fst (async_send_sequenced (StateKey_new 1 2) 1 1 [1] 5 (AsyncGtpConnection_new sample_conn)))) = 2000"
  using sequenced_send_waits_for_poll [of "AsyncGtpConnection_new sample_conn" 8 "[1]" P0Control 5 1 "StateKey_new 1 2" 1 1] by (simp add: AsyncGtpConnection_new_def)

end
