(* ===== verification/Sim_Runner.thy ===== *)
theory Sim_Runner
  imports Sim_Fabric Async_Connection
begin

text \<open>
  The simulation runners (\<^verbatim>\<open>gtp-sim/src/sim_runner.rs\<close>, \<^verbatim>\<open>fabric_runner.rs\<close>): a client and a server connection
  joined by a simulated network on a virtual clock. The loops that collect outgoing datagrams need
  not end, so a step returns an option; within it, a panic of a connection or of the network is an
  outcome. Addresses are parameters because the address type is.
\<close>

section \<open>The runner over a single pipe\<close>

record 'addr simulation_runner =
  sr_client :: "'addr gtp_connection"
  sr_server :: "'addr gtp_connection"
  sr_client_addr :: 'addr
  sr_server_addr :: 'addr
  sr_network :: "'addr simulated_network"
  sr_profile :: network_profile
  sr_current_time :: monotonic_time

definition SIM_CONNECTION_ID :: connection_id where
  "SIM_CONNECTION_ID = 0x1020304050607080"

definition sim_connection :: "conn_env \<Rightarrow> bool \<Rightarrow> 'addr \<Rightarrow> bool \<Rightarrow> 'addr gtp_connection" where
  "sim_connection env feature peer as_client =
     GtpConnection_new_with_role env feature SIM_CONNECTION_ID peer True as_client OFFLINE_SIM_MASTER_SECRET GtpConfig_default"

definition SimulationRunner_new :: "conn_env \<Rightarrow> bool \<Rightarrow> 'addr \<Rightarrow> 'addr \<Rightarrow> u64 \<Rightarrow> network_profile \<Rightarrow> 'addr simulation_runner" where
  "SimulationRunner_new env feature client_addr server_addr seed profile =
     \<lparr> sr_client = sim_connection env feature server_addr True, sr_server = sim_connection env feature client_addr False,
       sr_client_addr = client_addr, sr_server_addr = server_addr, sr_network = SimulatedNetwork_new seed, sr_profile = profile,
       sr_current_time = 1000000 \<rparr>"

text \<open>The datagrams of one connection enter the network in the order they were produced.\<close>

definition network_send_all :: "'addr \<Rightarrow> (bytes \<times> 'addr) list \<Rightarrow> monotonic_time \<Rightarrow> network_profile \<Rightarrow> 'addr simulated_network \<Rightarrow> 'addr simulated_network" where
  "network_send_all src sends now p net = fold (\<lambda>(payload, dest). network_transmit src dest payload now p) sends net"

text \<open>
  The delivery loop, shared by both runners: a packet goes to the connection whose address it
  carries, to none if there is no such connection, and errors are ignored. The accumulator holds the
  connections and the messages received so far.
\<close>

type_synonym 'addr delivery = "('addr gtp_connection \<times> received_message list) \<times> ('addr gtp_connection \<times> received_message list)"

definition receive_packet :: "conn_env \<Rightarrow> monotonic_time \<Rightarrow> 'addr simulated_packet \<Rightarrow> 'addr gtp_connection \<times> received_message list \<Rightarrow>
    ('addr gtp_connection \<times> received_message list) result" where
  "receive_packet env now pkt cm =
     (case handle_incoming_datagram env (pk_src pkt) (pk_data pkt) now (fst cm) of
        (c, Ok msgs) \<Rightarrow> Ok (c, snd cm @ msgs)
      | (c, Err _) \<Rightarrow> Ok (c, snd cm)
      | (c, Panic) \<Rightarrow> Panic)"

fun deliver_packets :: "conn_env \<Rightarrow> 'addr \<Rightarrow> 'addr \<Rightarrow> monotonic_time \<Rightarrow> 'addr simulated_packet list \<Rightarrow> 'addr delivery \<Rightarrow> 'addr delivery result" where
  "deliver_packets env client_addr server_addr now [] st = Ok st"
| "deliver_packets env client_addr server_addr now (pkt # pkts) (cl, sv) =
     (if pk_dest pkt = server_addr
      then obind (receive_packet env now pkt sv) (\<lambda>sv'. deliver_packets env client_addr server_addr now pkts (cl, sv'))
      else if pk_dest pkt = client_addr
      then obind (receive_packet env now pkt cl) (\<lambda>cl'. deliver_packets env client_addr server_addr now pkts (cl', sv))
      else deliver_packets env client_addr server_addr now pkts (cl, sv))"

text \<open>The sends of both connections at one instant, with the shared output buffer; a panic of either ends the step.\<close>

definition collect_sends :: "conn_env \<Rightarrow> monotonic_time \<Rightarrow> 'addr gtp_connection \<Rightarrow> 'addr gtp_connection \<Rightarrow>
    ('addr gtp_connection \<times> (bytes \<times> 'addr) list \<times> 'addr gtp_connection \<times> (bytes \<times> 'addr) list) result option" where
  "collect_sends env now cl sv =
     Option.bind (tx_drain env now (replicate 1500 0) cl) (\<lambda>(cl', buf, csends, r).
       if r = Panic then Some Panic
       else Option.bind (tx_drain env now buf sv) (\<lambda>(sv', _, ssends, r').
         if r' = Panic then Some Panic else Some (Ok (cl', csends, sv', ssends))))"

definition runner_step :: "conn_env \<Rightarrow> duration \<Rightarrow> 'addr simulation_runner \<Rightarrow>
    ('addr simulation_runner \<times> received_message list \<times> received_message list) result option" where
  "runner_step env delta r =
     (let now = time_add (sr_current_time r) delta
      in map_option (\<lambda>res. obind res (\<lambda>(cl, csends, sv, ssends).
           let net1 = network_send_all (sr_client_addr r) csends now (sr_profile r) (sr_network r);
               net2 = network_send_all (sr_server_addr r) ssends now (sr_profile r) net1;
               (net3, pkts) = network_drain_ready now net2
           in omap (\<lambda>((cl', cmsgs), (sv', smsgs)).
                (r\<lparr> sr_client := cl', sr_server := sv', sr_network := net3, sr_current_time := now \<rparr>, cmsgs, smsgs))
                (deliver_packets env (sr_client_addr r) (sr_server_addr r) now pkts ((cl, []), (sv, [])))))
         (collect_sends env now (sr_client r) (sr_server r)))"

text \<open>\<^verbatim>\<open>run_for\<close> to its end time.\<close>

partial_function (option) runner_run_until :: "conn_env \<Rightarrow> monotonic_time \<Rightarrow> duration \<Rightarrow> 'addr simulation_runner \<Rightarrow>
    ('addr simulation_runner \<times> received_message list \<times> received_message list) result option" where
  "runner_run_until env end_time step_size r =
     (if sr_current_time r < end_time
      then Option.bind (runner_step env step_size r) (\<lambda>res. case res of
             Ok (r', c, s) \<Rightarrow> Option.bind (runner_run_until env end_time step_size r') (\<lambda>rest. Some (omap (\<lambda>(r'', cs, ss). (r'', c @ cs, s @ ss)) rest))
           | Err e \<Rightarrow> Some (Err e) | Panic \<Rightarrow> Some Panic)
      else Some (Ok (r, [], [])))"

definition runner_run_for :: "conn_env \<Rightarrow> duration \<Rightarrow> duration \<Rightarrow> 'addr simulation_runner \<Rightarrow>
    ('addr simulation_runner \<times> received_message list \<times> received_message list) result option" where
  "runner_run_for env run_time step_size r = runner_run_until env (time_add (sr_current_time r) run_time) step_size r"

section \<open>The runner over the fabric\<close>

record 'addr fabric_runner =
  fr_client :: "'addr gtp_connection"
  fr_server :: "'addr gtp_connection"
  fr_client_addr :: 'addr
  fr_server_addr :: 'addr
  fr_fabric :: "'addr simulated_fabric"
  fr_current_time :: monotonic_time
  fr_active_link :: nat

definition FabricRunner_new :: "conn_env \<Rightarrow> bool \<Rightarrow> 'addr \<Rightarrow> 'addr \<Rightarrow> u64 \<Rightarrow> (network_profile \<times> network_profile) list \<Rightarrow> 'addr fabric_runner" where
  "FabricRunner_new env feature client_addr server_addr master profiles =
     \<lparr> fr_client = sim_connection env feature server_addr True, fr_server = sim_connection env feature client_addr False,
       fr_client_addr = client_addr, fr_server_addr = server_addr, fr_fabric = SimulatedFabric_new master profiles,
       fr_current_time = 1000000, fr_active_link = 0 \<rparr>"

definition FabricRunner_with_script :: "scripted_impairment list \<Rightarrow> 'addr fabric_runner \<Rightarrow> 'addr fabric_runner" where
  "FabricRunner_with_script script r = r\<lparr> fr_fabric := with_script script (fr_fabric r) \<rparr>"

fun fabric_send_all :: "nat \<Rightarrow> ('addr \<Rightarrow> fabric_direction) \<Rightarrow> 'addr \<Rightarrow> (bytes \<times> 'addr) list \<Rightarrow> monotonic_time \<Rightarrow>
    'addr simulated_fabric \<Rightarrow> 'addr simulated_fabric result" where
  "fabric_send_all link dir src [] now f = Ok f"
| "fabric_send_all link dir src ((payload, dest) # sends) now f =
     obind (fabric_transmit link (dir dest) src dest payload now f) (fabric_send_all link dir src sends now)"

text \<open>
  The datagrams are collected before they enter the fabric, which does not touch the connections. With a
  link that does not exist the source panics at the first datagram; here a collection that never ends
  has the value \<^const>\<open>None\<close> then.
\<close>

definition fabric_runner_step :: "conn_env \<Rightarrow> duration \<Rightarrow> 'addr fabric_runner \<Rightarrow>
    ('addr fabric_runner \<times> received_message list \<times> received_message list) result option" where
  "fabric_runner_step env delta r =
     (let now = time_add (fr_current_time r) delta
      in case tick_script now (fr_fabric r) of
           Ok f0 \<Rightarrow>
             map_option (\<lambda>res. obind res (\<lambda>(cl, csends, sv, ssends).
               obind (fabric_send_all (fr_active_link r) (\<lambda>dest. if dest = fr_server_addr r then fabric_direction.Forward else fabric_direction.Reverse) (fr_client_addr r) csends now f0) (\<lambda>f1.
               obind (fabric_send_all (fr_active_link r) (\<lambda>dest. if dest = fr_client_addr r then fabric_direction.Reverse else fabric_direction.Forward) (fr_server_addr r) ssends now f1) (\<lambda>f2.
               let (f3, pkts) = fabric_drain_ready now f2
               in omap (\<lambda>((cl', cmsgs), (sv', smsgs)).
                    (r\<lparr> fr_client := cl', fr_server := sv', fr_fabric := f3, fr_current_time := now \<rparr>, cmsgs, smsgs))
                    (deliver_packets env (fr_client_addr r) (fr_server_addr r) now pkts ((cl, []), (sv, [])))))))
             (collect_sends env now (fr_client r) (fr_server r))
         | Err e \<Rightarrow> Some (Err e)
         | Panic \<Rightarrow> Some Panic)"

partial_function (option) fabric_runner_run_until :: "conn_env \<Rightarrow> monotonic_time \<Rightarrow> duration \<Rightarrow> 'addr fabric_runner \<Rightarrow>
    ('addr fabric_runner \<times> received_message list \<times> received_message list) result option" where
  "fabric_runner_run_until env end_time step_size r =
     (if fr_current_time r < end_time
      then Option.bind (fabric_runner_step env step_size r) (\<lambda>res. case res of
             Ok (r', c, s) \<Rightarrow> Option.bind (fabric_runner_run_until env end_time step_size r') (\<lambda>rest. Some (omap (\<lambda>(r'', cs, ss). (r'', c @ cs, s @ ss)) rest))
           | Err e \<Rightarrow> Some (Err e) | Panic \<Rightarrow> Some Panic)
      else Some (Ok (r, [], [])))"

definition fabric_runner_run_for :: "conn_env \<Rightarrow> duration \<Rightarrow> duration \<Rightarrow> 'addr fabric_runner \<Rightarrow>
    ('addr fabric_runner \<times> received_message list \<times> received_message list) result option" where
  "fabric_runner_run_for env run_time step_size r = fabric_runner_run_until env (time_add (fr_current_time r) run_time) step_size r"

section \<open>One step on the clock\<close>

lemma network_transmit_queue:
  assumes "heap_ok pk_deliver_at (sn_queue net)"
  shows "heap_ok pk_deliver_at (sn_queue (network_transmit src dest payload now p net)) \<and>
    (\<forall>pkt \<in> set (sn_queue (network_transmit src dest payload now p net)).
       pkt \<in> set (sn_queue net) \<or> pk_src pkt = src \<and> pk_dest pkt = dest \<and> pk_data pkt = payload)"
proof -
  have push: "heap_ok pk_deliver_at (heap_push pk_deliver_at x q)" "set (heap_push pk_deliver_at x q) = insert x (set q)"
    if "heap_ok pk_deliver_at q" for x :: "'a simulated_packet" and q
    using std_heap.push_ok [OF that] std_heap.push_queued [OF that, of x] by (simp_all add: mset_eq_setD flip: set_mset_mset)
  show ?thesis using assms by (auto simp: network_transmit_def Let_def case_prod_beta push)
qed

lemma network_send_all_queue:
  assumes "heap_ok pk_deliver_at (sn_queue net)"
  shows "heap_ok pk_deliver_at (sn_queue (network_send_all src sends now p net)) \<and>
    (\<forall>pkt \<in> set (sn_queue (network_send_all src sends now p net)).
       pkt \<in> set (sn_queue net) \<or> pk_src pkt = src \<and> (pk_data pkt, pk_dest pkt) \<in> set sends)"
  using assms
proof (induction sends arbitrary: net)
  case Nil
  then show ?case by (simp add: network_send_all_def)
next
  case (Cons a sends)
  obtain payload dest where a: "a = (payload, dest)" by (cases a)
  note one = network_transmit_queue [OF Cons.prems, of src dest payload now p]
  then show ?case using Cons.IH [of "network_transmit src dest payload now p net"] by (fastforce simp: network_send_all_def a)
qed

text \<open>What both ends put on the wire in a step.\<close>

definition step_sends :: "conn_env \<Rightarrow> duration \<Rightarrow> 'addr simulation_runner \<Rightarrow> ('addr \<times> bytes \<times> 'addr) set" where
  "step_sends env delta r = (case collect_sends env (time_add (sr_current_time r) delta) (sr_client r) (sr_server r) of
     Some (Ok (_, csends, _, ssends)) \<Rightarrow> Pair (sr_client_addr r) ` set csends \<union> Pair (sr_server_addr r) ` set ssends
   | _ \<Rightarrow> {})"

definition packet_id :: "'addr simulated_packet \<Rightarrow> 'addr \<times> bytes \<times> 'addr" where
  "packet_id pkt = (pk_src pkt, pk_data pkt, pk_dest pkt)"

text \<open>
  A step moves the clock by its length and keeps the rest of the runner's set-up; the queue stays a
  heap and holds only packets that are due later, each of them queued before the step or sent in it by
  the connection whose address it carries. If nothing was queued and nothing is sent, nothing is received.
\<close>

theorem runner_step_traffic:
  fixes r :: "'addr simulation_runner"
  assumes "heap_ok pk_deliver_at (sn_queue (sr_network r))" and "runner_step env delta r = Some (Ok (r', cmsgs, smsgs))"
  shows "sr_current_time r' = time_add (sr_current_time r) delta \<and> sr_client_addr r' = sr_client_addr r \<and> sr_server_addr r' = sr_server_addr r \<and>
    sr_profile r' = sr_profile r \<and> heap_ok pk_deliver_at (sn_queue (sr_network r')) \<and>
    (\<forall>pkt \<in> set (sn_queue (sr_network r')). sr_current_time r' < pk_deliver_at pkt \<and>
       (pkt \<in> set (sn_queue (sr_network r)) \<or> packet_id pkt \<in> step_sends env delta r)) \<and>
    (sn_queue (sr_network r) = [] \<and> step_sends env delta r = {} \<longrightarrow> cmsgs = [] \<and> smsgs = [])"
proof -
  define now where "now = time_add (sr_current_time r) delta"
  obtain cl csends sv ssends where coll: "collect_sends env now (sr_client r) (sr_server r) = Some (Ok (cl, csends, sv, ssends))"
    using assms(2) by (auto simp: runner_step_def Let_def now_def obind_eq_Ok_conv)
  define net1 where "net1 = network_send_all (sr_client_addr r) csends now (sr_profile r) (sr_network r)"
  define net2 where "net2 = network_send_all (sr_server_addr r) ssends now (sr_profile r) net1"
  obtain pkts q where dr: "drain_queue now (sn_queue net2) = (pkts, q)" by fastforce
  have run: "omap (\<lambda>((cl', cm), (sv', sm)).
      (r\<lparr> sr_client := cl', sr_server := sv', sr_network := net2\<lparr> sn_queue := q \<rparr>, sr_current_time := now \<rparr>, cm, sm))
      (deliver_packets env (sr_client_addr r) (sr_server_addr r) now pkts ((cl, []), (sv, []))) = Ok (r', cmsgs, smsgs)"
    using assms(2) coll dr by (simp add: runner_step_def Let_def flip: now_def) (simp add: net1_def net2_def network_drain_ready_def)
  then obtain cl' cm sv' sm where del: "deliver_packets env (sr_client_addr r) (sr_server_addr r) now pkts ((cl, []), (sv, [])) = Ok ((cl', cm), (sv', sm))"
    and r': "r' = r\<lparr> sr_client := cl', sr_server := sv', sr_network := net2\<lparr> sn_queue := q \<rparr>, sr_current_time := now \<rparr>" "cmsgs = cm" "smsgs = sm"
    by (auto simp: omap_def obind_eq_Ok_conv)
  have n1: "heap_ok pk_deliver_at (sn_queue net1)" "\<forall>pkt \<in> set (sn_queue net1). pkt \<in> set (sn_queue (sr_network r)) \<or> pk_src pkt = sr_client_addr r \<and> (pk_data pkt, pk_dest pkt) \<in> set csends"
    using network_send_all_queue [OF assms(1)] by (auto simp: net1_def)
  have n2: "heap_ok pk_deliver_at (sn_queue net2)" "\<forall>pkt \<in> set (sn_queue net2). pkt \<in> set (sn_queue net1) \<or> pk_src pkt = sr_server_addr r \<and> (pk_data pkt, pk_dest pkt) \<in> set ssends"
    using network_send_all_queue [OF n1(1)] by (auto simp: net2_def)
  have sends: "step_sends env delta r = Pair (sr_client_addr r) ` set csends \<union> Pair (sr_server_addr r) ` set ssends"
    using coll by (simp add: step_sends_def now_def)
  have due: "heap_ok pk_deliver_at q" "mset pkts = filter_mset (\<lambda>x. pk_deliver_at x \<le> now) (mset (sn_queue net2))"
    "mset q = filter_mset (\<lambda>x. \<not> pk_deliver_at x \<le> now) (mset (sn_queue net2))"
    using packet_queue.drain_exact [OF n2(1), of now] dr by auto
  have "set q = {pkt \<in> set (sn_queue net2). \<not> pk_deliver_at pkt \<le> now}" using arg_cong [OF due(3), of set_mset] by simp
  then have queue: "now < pk_deliver_at pkt \<and> (pkt \<in> set (sn_queue (sr_network r)) \<or> packet_id pkt \<in> step_sends env delta r)" if "pkt \<in> set q" for pkt
    using that n1(2) n2(2) by (fastforce simp: sends packet_id_def)
  have "cmsgs = [] \<and> smsgs = []" if "sn_queue (sr_network r) = []" "step_sends env delta r = {}"
  proof -
    have "csends = []" "ssends = []" using that(2) by (auto simp: sends)
    then have "sn_queue net2 = []" using that(1) by (simp add: net1_def net2_def network_send_all_def)
    then have "pkts = []" using due(2) by simp
    then show ?thesis using del r' by simp
  qed
  then show ?thesis using r' due(1) queue by (auto simp: now_def)
qed

section \<open>The end of a run\<close>

text \<open>An end that will say nothing more: closed, or with only control frames left that fit the output buffer.\<close>

definition winding_down :: "conn_env \<Rightarrow> 'addr gtp_connection \<Rightarrow> bool" where
  "winding_down env c \<longleftrightarrow> ch_state (gc_hot c) = Closed \<or> closing env 1500 (length (ch_control_queue (gc_hot c))) (gc_hot c)"

lemma winding_down_drain:
  fixes c :: "'addr gtp_connection"
  assumes "aead_ok (env_cipher env)" and "winding_down env c" and "length buf = 1500"
  obtains c' buf' sends where "tx_drain env now buf c = Some (c', buf', sends, Ok None)" "ch_state (gc_hot c') = Closed" "length buf' = 1500"
proof (cases "ch_state (gc_hot c) = Closed")
  case True
  then have "tx_drain env now buf c = Some (c, buf, [], Ok None)" by (simp add: tx_drain.simps produce_outgoing_datagram_def)
  then show thesis using that True assms(3) by blast
next
  case False
  then have "closing env (length buf) (length (ch_control_queue (gc_hot c))) (gc_hot c)" using assms by (simp add: winding_down_def)
  from closing_drain [OF assms(1) this] assms(3) show thesis using that by fastforce
qed

lemma closed_ends_receive_nothing:
  assumes "ch_state (gc_hot cl) = Closed" and "ch_state (gc_hot sv) = Closed"
  shows "deliver_packets env ca sa now pkts ((cl, cm), (sv, sm)) = Ok ((cl, cm), (sv, sm))"
  using assms by (induction pkts) (simp_all add: receive_packet_def handle_incoming_datagram_def handle_incoming_datagram_with_ecn_def)

lemma winding_down_step:
  fixes r :: "'addr simulation_runner"
  assumes "aead_ok (env_cipher env)" and "winding_down env (sr_client r)" and "winding_down env (sr_server r)"
  obtains r' where "runner_step env delta r = Some (Ok (r', [], []))" "sr_current_time r' = time_add (sr_current_time r) delta"
    "ch_state (gc_hot (sr_client r')) = Closed" "ch_state (gc_hot (sr_server r')) = Closed"
proof -
  let ?now = "time_add (sr_current_time r) delta"
  obtain cl buf csends where cl: "tx_drain env ?now (replicate 1500 0) (sr_client r) = Some (cl, buf, csends, Ok None)" "ch_state (gc_hot cl) = Closed" "length buf = 1500"
    using winding_down_drain [OF assms(1,2), of "replicate 1500 0" ?now] by (metis length_replicate)
  obtain sv buf' ssends where sv: "tx_drain env ?now buf (sr_server r) = Some (sv, buf', ssends, Ok None)" "ch_state (gc_hot sv) = Closed"
    using winding_down_drain [OF assms(1,3) cl(3), of ?now] by metis
  have "collect_sends env ?now (sr_client r) (sr_server r) = Some (Ok (cl, csends, sv, ssends))" by (simp add: collect_sends_def cl(1) sv(1))
  then show thesis
    using that cl(2) sv(2) closed_ends_receive_nothing [OF cl(2) sv(2)]
    by (simp add: runner_step_def Let_def case_prod_beta)
qed

lemma winding_down_run:
  fixes r :: "'addr simulation_runner"
  assumes "aead_ok (env_cipher env)" and "winding_down env (sr_client r)" and "winding_down env (sr_server r)" and "0 < step_size" and "end_time \<le> u64_max"
  shows "\<exists>r'. runner_run_until env end_time step_size r = Some (Ok (r', [], [])) \<and> end_time \<le> sr_current_time r' \<and>
    (sr_current_time r < end_time \<longrightarrow> ch_state (gc_hot (sr_client r')) = Closed \<and> ch_state (gc_hot (sr_server r')) = Closed)"
  using assms(2,3)
proof (induction "end_time - sr_current_time r" arbitrary: r rule: less_induct)
  case less
  show ?case
  proof (cases "sr_current_time r < end_time")
    case False
    then show ?thesis by (simp add: runner_run_until.simps)
  next
    case True
    obtain r1 where r1: "runner_step env step_size r = Some (Ok (r1, [], []))" "sr_current_time r1 = time_add (sr_current_time r) step_size"
      "ch_state (gc_hot (sr_client r1)) = Closed" "ch_state (gc_hot (sr_server r1)) = Closed"
      using winding_down_step [OF assms(1) less.prems] by metis
    have "sr_current_time r < sr_current_time r1" using True assms(4,5) by (simp add: r1(2) time_add_def sat_add64_def)
    then have "end_time - sr_current_time r1 < end_time - sr_current_time r" using True by simp
    from less.hyps [OF this] r1(3,4) obtain r2 where r2: "runner_run_until env end_time step_size r1 = Some (Ok (r2, [], []))" "end_time \<le> sr_current_time r2"
      "sr_current_time r1 < end_time \<longrightarrow> ch_state (gc_hot (sr_client r2)) = Closed \<and> ch_state (gc_hot (sr_server r2)) = Closed"
      by (auto simp: winding_down_def)
    have "r2 = r1" if "\<not> sr_current_time r1 < end_time" using r2(1) that by (simp add: runner_run_until.simps)
    then have "ch_state (gc_hot (sr_client r2)) = Closed \<and> ch_state (gc_hot (sr_server r2)) = Closed" using r2(3) r1(3,4) by metis
    moreover have "runner_run_until env end_time step_size r = Some (Ok (r2, [], []))"
      by (subst runner_run_until.simps) (simp add: True r1(1) r2(1))
    ultimately show ?thesis using r2(2) by blast
  qed
qed

text \<open>
  C36: a run ends. When each end is closed, or shutting down with only control frames left that fit a
  datagram, \<^verbatim>\<open>run_for\<close> with a step above zero returns without a panic, at or after its end time; no
  message is delivered, and after a run of any length above zero both ends are closed, whatever is still
  in the network.
\<close>

theorem run_for_ends_after_close:
  fixes r :: "'addr simulation_runner"
  assumes "aead_ok (env_cipher env)" and "winding_down env (sr_client r)" and "winding_down env (sr_server r)" and "0 < step_size"
  shows "\<exists>r'. runner_run_for env run_time step_size r = Some (Ok (r', [], [])) \<and> time_add (sr_current_time r) run_time \<le> sr_current_time r' \<and>
    (sr_current_time r < time_add (sr_current_time r) run_time \<longrightarrow>
       ch_state (gc_hot (sr_client r')) = Closed \<and> ch_state (gc_hot (sr_server r')) = Closed)"
proof -
  have "time_add (sr_current_time r) run_time \<le> u64_max" by (simp add: time_add_def sat_add64_def)
  from winding_down_run [OF assms this] show ?thesis by (simp add: runner_run_for_def)
qed

section \<open>The pair\<close>

text \<open>
  The two ends of a simulation hold mirrored keys: both runners join a client and a server that
  start as a session does after a handshake.
\<close>

theorem simulated_pair_is_paired:
  "session_paired (gc_hot (sr_client (SimulationRunner_new env feature ca sa seed p))) (gc_hot (sr_server (SimulationRunner_new env feature ca sa seed p))) \<and>
   session_paired (gc_hot (fr_client (FabricRunner_new env feature ca sa seed ps))) (gc_hot (fr_server (FabricRunner_new env feature ca sa seed ps)))"
  by (simp add: session_paired_def SimulationRunner_new_def FabricRunner_new_def sim_connection_def GtpConnection_new_with_role_def
      hot_new_with_master_secret_def hot_build_def build_with_config_def Let_def)

section \<open>Witnesses\<close>

text \<open>A client that has just been closed, a server that is closed, and a packet still in the network.\<close>

definition sample_in_flight :: "nat simulated_packet" where
  "sample_in_flight = \<lparr> pk_deliver_at = 1000500, pk_src = 1, pk_dest = 2, pk_data = [7] \<rparr>"

definition sample_runner :: "nat simulation_runner" where
  "sample_runner = \<lparr> sr_client = fst (graceful_close 7 [] sample_conn), sr_server = on_hot (\<lambda>h. h\<lparr> ch_state := Closed \<rparr>) sample_conn,
     sr_client_addr = 1, sr_server_addr = 2, sr_network = (SimulatedNetwork_new 1)\<lparr> sn_queue := [sample_in_flight] \<rparr>, sr_profile = lan,
     sr_current_time = 1000000 \<rparr>"

lemma sample_runner_winding_down:
  "winding_down sample_env (sr_client sample_runner)" "winding_down sample_env (sr_server sample_runner)"
proof -
  have ok: "control_ok (OutClose 7 [] :: nat outgoing_control_frame)" by (simp add: control_ok_def frame_ok_def)
  let ?h = "sample_hot\<lparr> ch_control_queue := ch_control_queue sample_hot @ [OutClose 7 []], ch_state := Draining \<rparr>"
  have client: "gc_hot (sr_client sample_runner) = ?h"
    by (simp add: sample_runner_def graceful_close_def change_state_def queue_control_def transition_to_def sample_idle)
  have seal: "sealable sample_env sample_hot" "\<not> ch_pending_ratchet sample_hot"
    by (simp_all add: sample_hot_def hot_build_def build_with_config_def Let_def sealable_def new_for_cid_def sample_env_def test_cipher_def)
  have "tx_inv ?h" using sample_tx_inv(1) ok by (simp add: tx_inv_def hot_inv_simps)
  moreover have "sealable sample_env ?h" using seal(1) sealable_cong [of ?h sample_hot sample_env] by simp
  ultimately show "winding_down sample_env (sr_client sample_runner)"
    using seal(2) by (simp add: winding_down_def closing_def client sample_idle Frame_bytes_def close_reason_def u64_max_def)
  show "winding_down sample_env (sr_server sample_runner)" by (simp add: winding_down_def sample_runner_def)
qed

theorem runner_step_traffic_witness:
  "\<exists>r' cmsgs smsgs. runner_step sample_env 100 sample_runner = Some (Ok (r', cmsgs, smsgs)) \<and> sr_current_time r' = 1000100 \<and>
     heap_ok pk_deliver_at (sn_queue (sr_network r'))"
proof -
  obtain r' where step: "runner_step sample_env 100 sample_runner = Some (Ok (r', [], []))"
    using winding_down_step [OF sample_env_ok sample_runner_winding_down, of 100] by metis
  have "heap_ok pk_deliver_at (sn_queue (sr_network sample_runner))" by (simp add: sample_runner_def heap_ok_def)
  from runner_step_traffic [OF this step] step show ?thesis by (simp add: sample_runner_def time_add_def sat_add64_def u64_max_def)
qed

theorem run_for_ends_after_close_witness:
  "\<exists>r'. runner_run_for sample_env 5000 1000 sample_runner = Some (Ok (r', [], [])) \<and> 1005000 \<le> sr_current_time r' \<and>
     ch_state (gc_hot (sr_client r')) = Closed"
  using run_for_ends_after_close [OF sample_env_ok sample_runner_winding_down, of 1000 5000]
  by (auto simp: sample_runner_def time_add_def sat_add64_def u64_max_def)

end
