(* ===== verification/Spec2Isabelle.thy ===== *)
theory Spec2Isabelle
  imports Wire_VarInt Route_Text Packet_Io Cli_Hex Conn_Amplification Sim_Runner
begin

text \<open>
  A verification development for GTP-rs, a game transport protocol in Rust.

  \<^bold>\<open>The program.\<close> A connection (\<^verbatim>\<open>crates/gtp-core/src/connection.rs\<close>) sends application messages of
  four classes over unreliable datagrams. A send puts one or more schedulable items into the
  priority scheduler; producing a datagram drains the ACK state, the control queue and the
  scheduler into a packet, seals it and records it with the loss detector; receiving a datagram
  opens it, checks it against the replay window, and dispatches its frames to the loss detector and
  the congestion controller (ACK), the freshness table (sequenced state), the reassembler, the
  ordered groups and the duplicate index (reliable data), the path validator (challenges and
  responses) and the key ratchet (key update). Around it stand the route controller, which scores
  paths and moves the active path, and the endpoint (\<^verbatim>\<open>crates/gtp-runtime-tokio/src/endpoint.rs\<close>), which runs the
  handshake that gives both ends their directional keys, routes datagrams to connections by their id
  and runs a transmit task for each connection.

  \<^bold>\<open>Conventions.\<close> Structs are records, enums are datatypes with the source's constructors. Identifiers
  and wire fields are words of their width. Times, durations, byte counts and other \<^verbatim>\<open>u64\<close>/\<^verbatim>\<open>usize\<close>
  quantities that the code only adds, compares and saturates are natural numbers with the
  saturation (\<open>sat_sub\<close>, \<open>sat_add\<close>) or the wrap-around (\<open>wadd64\<close>) written out. A fallible operation
  returns \<open>outcome\<close>: \<open>Ok\<close>, \<open>Err\<close> with the source's error, or \<open>Panic\<close> for an index out of range, a
  failed \<^verbatim>\<open>expect\<close> or a slice error, so that the absence of panics is a theorem. Stateful code takes and
  returns its record. Hash maps whose order matters nowhere are association lists kept by
  \<open>Ordered_Map\<close> or maps. Double arithmetic is exact rational arithmetic with IEEE rounding to 53 bits
  after each operation (\<open>F64\<close>). Code outside the repository is a parameter: the AEAD cipher (\<open>aead_ok\<close>
  states its round trip and authenticity), X25519 (\<open>x25519_ok\<close>: agreement), HKDF, HMAC, the cube
  root of the platform's mathematics library, the socket address type and its text form, the bounded
  channel to the application, the system calls on a socket.

  \<^bold>\<open>Theories.\<close>
  \<^item> \<open>GTP_Prelude\<close>, \<open>Ordered_Map\<close>, \<open>F64\<close>: outcomes, machine arithmetic, byte order, list and map lemmas,
    rounding with its contract (locale \<open>rounding\<close>, interpreted on IEEE rounding).
  \<^item> \<open>GTP_Types\<close> (\<^verbatim>\<open>gtp-types\<close>): identifiers, serial arithmetic, time, message classes, errors.
  \<^item> \<open>Codec_Contract\<close>, \<open>Wire_VarInt\<close>, \<open>Wire_Header\<close>, \<open>Utf8\<close>, \<open>Wire_Frame\<close>, \<open>Wire_Frame_Laws\<close>, \<open>Wire_Codec\<close>
    (\<^verbatim>\<open>gtp-wire\<close>): the byte formats. \<open>Codec_Contract\<close> is the interface of an encoder with its decoder;
    it is interpreted for integers, headers and frames. Shown: every encoder/decoder pair round
    trips, decoders never panic and stay inside the input, a packet built frame by frame parses back
    to its whole header and its frames, and iterating over any bytes ends.
  \<^item> \<open>Replay\<close> (\<^verbatim>\<open>gtp-crypto/src/replay.rs\<close>): the 128-bit sliding window accepts exactly what a window over
    the full history accepts.
  \<^item> \<open>Protector\<close>, \<open>Handshake\<close> (the rest of \<^verbatim>\<open>gtp-crypto\<close>): sealing, opening, nonces, key derivation, ratchet
    and proofs. Shown: opening inverts sealing and only that, both refuse a foreign connection id, nonces
    are not reused, both ends of a handshake agree.
  \<^item> \<open>Ack_Tracker\<close>, \<open>Rtt\<close>, \<open>Loss_Detector\<close>, \<open>Owd\<close>, \<open>Ack_Exchange\<close> (\<^verbatim>\<open>gtp-recovery\<close>): received intervals and ACK
    frames, RTT and one-way delay, sent packets, loss and probe timeouts. Shown: the ACK a tracker
    builds, on the wire and expanded by the sender, acknowledges only received packets and all
    recent ones; processing an ACK partitions the outstanding packets and conserves in-flight bytes;
    a run of more than 16384 packets without a gap can no longer be acknowledged (a finding).
  \<^item> \<open>Congestion\<close> (\<^verbatim>\<open>gtp-cc\<close>): CUBIC, pacing and backpressure levels; the window and the bucket stay in
    their bounds over any history.
  \<^item> \<open>State_Table\<close>, \<open>Ordered_Group\<close>, \<open>Scheduler\<close> (\<^verbatim>\<open>gtp-scheduler\<close>): freshness, in-order delivery and the
    priority queues with deficit round robin. Shown: counters are exact and capped in every reachable
    state, popping is first-in first-out per tier, loses only expired items and is work conserving.
  \<^item> \<open>Path\<close> (\<^verbatim>\<open>gtp-path\<close>): lifecycle, path validation, amplification limit, cookies.
  \<^item> \<open>Fragment\<close> (\<^verbatim>\<open>gtp-core/src/fragment.rs\<close>): fragmentation and bounded reassembly; a message survives any
    interleaving with the fragments of others while there is room.
  \<^item> \<open>Route_Score\<close>, \<open>Route_Select\<close>, \<open>Route_Switch\<close> (\<^verbatim>\<open>gtp-route\<close>): scores, selection, hysteresis, decision
    tracker.
  \<^item> \<open>Number_Text\<close>, \<open>Route_Text\<close> (text forms of \<^verbatim>\<open>decision_log.rs\<close>, \<^verbatim>\<open>report.rs\<close>): printing and parsing of integers and doubles
    as the standard library does it, and the lines of decision records and measurement reports. Shown:
    both parse back, decision records to four decimals and stably; a small loss rate is reported as zero
    (a finding).
  \<^item> \<open>Packet_Io\<close> (\<^verbatim>\<open>gtp-io\<close>): socket set-up and batches over system calls that are parameters. Shown: what a batch
    did for every way it ends; an error in the middle of a receive batch hides the datagrams before it,
    and IPv6 traffic is never marked (findings).
  \<^item> \<open>Cli_Hex\<close> (keys in \<^verbatim>\<open>gtp-cli/src/main.rs\<close>): the key a server prints is the key a client reads; text that is no key
    can be accepted or panic (a finding).
  \<^item> \<open>Conn_State\<close>, \<open>Conn_State_Laws\<close> (\<^verbatim>\<open>gtp-core/src/state.rs\<close>, \<^verbatim>\<open>control/config.rs\<close>, \<^verbatim>\<open>control/events.rs\<close>): the state
    of a connection, its constructors, ordered group table, duplicate index and key ratchet.
  \<^item> \<open>Conn_Control\<close> (first part of \<^verbatim>\<open>connection.rs\<close>, \<^verbatim>\<open>control/handle.rs\<close>, \<^verbatim>\<open>control/metrics.rs\<close>): events, sends, route
    switching, control handle, telemetry.
  \<^item> \<open>Conn_Rx\<close>, \<open>Conn_Rx_Laws\<close> (\<^verbatim>\<open>handle_incoming_datagram_with_ecn\<close>): the receive pipeline. The locale
    \<open>dispatch_relation\<close> lifts a relation between connection states from the handlers of single frames
    to the loop over a payload; it is interpreted on the relation \<open>rx_touches\<close> that says which fields
    a datagram may touch. Shown: receiving is total and keeps the invariant \<open>hot_inv\<close> of all
    components, unauthentic datagrams are inert, packet numbers take effect once, the active path
    moves only to an address that answered its challenge. \<open>authentic\<close> and \<open>receive_run\<close> belong to the
    specification: the first names the genuine datagrams of a state, the second runs the pipeline over
    a list of datagrams and observes which calls had an effect.
  \<^item> \<open>Conn_Tx\<close>, \<open>Conn_Tx_Laws\<close> (\<^verbatim>\<open>produce_outgoing_datagram\<close>): the transmit pipeline, from the probe timeout to
    the commit or the return of what was taken; a packet under assembly holds a list of frames.
  \<^item> \<open>Conn_Exchange\<close>: both pipelines together. Shown: transmitting is total and keeps the invariant
    \<open>tx_inv\<close>, what is not sent stays queued, a datagram leaves only through the gates, and what one end
    sends is what the other end dispatches; a control frame that leaves no room for the tag stops the
    connection, and a frame behind an MTU probe is never seen (findings).
  \<^item> \<open>Conn_Amplification\<close>: histories of calls on a connection whose path is not validated. Shown: it sends
    nothing before an authentic datagram has opened its path.
  \<^item> \<open>Conn_Progress\<close>: two ways in which transmit calls produce datagrams without content: a control frame
    that no datagram can hold, and a budget smaller than every queued message (findings).
  \<^item> \<open>Endpoint\<close>, \<open>Endpoint_Laws\<close> (\<^verbatim>\<open>gtp-runtime-tokio/src/endpoint.rs\<close>): the tables of an endpoint, the handshake of
    client and server, the routing of datagrams and the transmit loop. An \<^verbatim>\<open>Arc\<close> is a reference into a
    store, a one-shot channel the number of its waiter, and each definition one stretch between two
    awaits. Shown: a handshake ends in two connections that hold each other's keys, only a proven client
    is registered, a datagram touches only the connection it is addressed to, and no datagram stops the
    receive loop.
  \<^item> \<open>Endpoint_Limits\<close>: answers to unverified addresses and admitted hellos are bounded; a server can confirm
    a session it does not accept, a stranger can cancel a pending handshake, and a failed \<^verbatim>\<open>connect\<close> leaves its
    connection behind (findings).
  \<^item> \<open>Async_Connection\<close> (\<^verbatim>\<open>async_connection.rs\<close>, the transmit task): the handle of a connection and the turns of its
    transmit task. Shown: a close is sent and the task ends.
  \<^item> \<open>Binary_Heap\<close>: the binary heap of the standard library as an array with its sifts. The locale \<open>timed_queue\<close>
    is what a client of it relies on, \<open>timed_drain\<close> adds the loop that takes out what is due; both are
    interpreted on the heap.
  \<^item> \<open>Sim_Network\<close>, \<open>Sim_Fabric\<close>, \<open>Sim_Runner\<close> (\<^verbatim>\<open>gtp-sim\<close>): link profiles, the random generator, the single pipe, the
    multi-link fabric with its script, and the runners that join a client and a server on a virtual
    clock. Shown: a direction of a fabric link, whose code is a copy of its own, behaves as the single pipe, its randomness does not depend
    on other traffic, draining returns exactly what is due, a run of two ends that shut down returns; one
    master seed stops a stream (a finding).

  \<^bold>\<open>Bounds and fuel.\<close> No model uses fuel. The loop of the transmit task and the loops \<^verbatim>\<open>run_for\<close>
  of the simulator need not end and are \<^theory_text>\<open>partial_function\<close>s whose value is \<^const>\<open>None\<close> then; that they end is a
  theorem where it holds. Every other loop
  is a structural recursion or has a termination proof (\<open>parse_walk\<close> and \<open>evict_groups\<close> by decreasing lists, the frame iterator by the bytes left,
  \<open>fill_data\<close> by the items queued); \<open>drr_loop\<close> runs the code's own count of rounds. Hypotheses such as \<open>ch_gen_counter + length datagram
  \<le> u64_max\<close> say that a 64-bit counter has not been exhausted; the code adds to them without a check.

  \<^bold>\<open>Not modelled.\<close> Doubles are finite: a parsed double that is infinite, not a number, subnormal or a negative
  zero has the explicit value \<open>Unmodelled\<close>. Of \<^verbatim>\<open>gtp-runtime-tokio\<close> the task scheduler, the locks, the sockets and
  the bound of 1024 on the channel of accepted connections (on which the receive task can wait, a finding) are
  left out, of \<^verbatim>\<open>gtp-io\<close> the system calls. Of \<^verbatim>\<open>gtp-cli\<close> only the text form of keys is modelled, the commands
  are demonstrations that print and parse arguments; \<^verbatim>\<open>gtp\<close> holds
  re-exports. Wiping of key material, debug output and log text are left out throughout.
\<close>

end
